(* ===== verification/Prelude.thy ===== *)
theory Prelude
  imports Main "HOL-Library.Word"
begin

text \<open>
  Shared vocabulary of the development: the machine integer types of the C sources, byte
  buffers, the debug-build reading of the \<open>ASSERT\<close> macro, reachability of a step relation
  and the locale through which every invariant of the development is lifted to the
  reachable states.  The generic lemmas on lists and words that the component theories
  share are collected here as well.
\<close>

unbundle bit_operations_syntax

section \<open>Machine integers and byte buffers\<close>

type_synonym u8 = "8 word"
type_synonym u16 = "16 word"
type_synonym u32 = "32 word"
type_synonym u64 = "64 word"
type_synonym bytes = "u8 list"

abbreviation UINT16_MAX :: int where
  "UINT16_MAX \<equiv> 65535"

abbreviation INT_MAX :: int where
  "INT_MAX \<equiv> 2147483647"

named_theorems wire \<open>byte images of the integers and structs that travel on the wire\<close>

named_theorems checked \<open>inversion of checked computations\<close>

section \<open>Assertions\<close>

text \<open>
  The Android build defines \<open>NDEBUG\<close>, so an \<open>ASSERT\<close> costs nothing at run time; the sources
  use it to record what a function relies on.  The models use the debug reading, in which a
  failed assertion stops the computation with \<^term>\<open>None\<close>: a theorem that a handler returns
  \<^term>\<open>Some\<close> then states that none of its assertions can fail, and so that both builds agree.
\<close>

definition ASSERT :: "bool \<Rightarrow> 'a option \<Rightarrow> 'a option" where
  "ASSERT b k = (if b then k else None)"

lemma ASSERT_cong [fundef_cong]:
  "b = b' \<Longrightarrow> (b' \<Longrightarrow> k = k') \<Longrightarrow> ASSERT b k = ASSERT b' k'"
  by (simp add: ASSERT_def)

lemma ASSERT_True [simp]: "ASSERT True k = k"
  by (simp add: ASSERT_def)

lemma ASSERT_False [simp]: "ASSERT False k = None"
  by (simp add: ASSERT_def)

lemma ASSERT_eq_Some [simp, checked]: "ASSERT b k = Some x \<longleftrightarrow> b \<and> k = Some x"
  by (simp add: ASSERT_def)

lemma ASSERT_split_asm [checked]:
  "P (ASSERT b k) \<longleftrightarrow> (b \<longrightarrow> P k) \<and> (\<not> b \<longrightarrow> P None)"
  by (simp add: ASSERT_def)

lemma bind_Some_iff [checked]: "Option.bind m f = Some y \<longleftrightarrow> (\<exists>x. m = Some x \<and> f x = Some y)"
  by (cases m) auto

section \<open>Reachable states and invariants\<close>

inductive reach :: "('s \<Rightarrow> bool) \<Rightarrow> ('s \<Rightarrow> 's \<Rightarrow> bool) \<Rightarrow> 's \<Rightarrow> bool"
  for init :: "'s \<Rightarrow> bool" and step :: "'s \<Rightarrow> 's \<Rightarrow> bool" where
  reach_init: "init s \<Longrightarrow> reach init step s"
| reach_step: "reach init step s \<Longrightarrow> step s t \<Longrightarrow> reach init step t"

text \<open>
  The contract between a state machine and the proofs about its runs: a predicate that holds
  initially and survives every step.  Each machine of the development interprets it with its
  own invariant; \<open>always\<close> then carries the invariant to every reachable state.
\<close>

locale inductive_invariant =
  fixes init :: "'s \<Rightarrow> bool"
    and step :: "'s \<Rightarrow> 's \<Rightarrow> bool"
    and inv :: "'s \<Rightarrow> bool"
  assumes inv_init: "init s \<Longrightarrow> inv s"
    and inv_step: "inv s \<Longrightarrow> step s t \<Longrightarrow> inv t"
begin

lemma always: "reach init step s \<Longrightarrow> inv s"
  by (induction rule: reach.induct) (auto intro: inv_init inv_step)

lemma always_step: "reach init step s \<Longrightarrow> step s t \<Longrightarrow> inv s \<and> inv t"
  using always inv_step by blast

end

section \<open>Lists\<close>

lemma take_append_drop_same [simp]: "take n xs @ drop n xs = xs"
  by simp

lemma take_drop_take: "i + n \<le> m \<Longrightarrow> take n (drop i (take m xs)) = take n (drop i xs)"
  by (simp add: drop_take min_def)

lemma drop_eq_self_append: "length xs = n \<Longrightarrow> drop n (xs @ ys) = ys"
  by simp

lemma distinct_filter_neq_length:
  "distinct xs \<Longrightarrow> x \<in> set xs \<Longrightarrow> length (filter (\<lambda>y. y \<noteq> x) xs) = length xs - 1"
proof (induction xs)
  case (Cons a xs)
  then show ?case
  proof (cases "x = a")
    case True
    with Cons.prems have "filter (\<lambda>y. y \<noteq> x) xs = xs"
      by (auto simp: filter_id_conv)
    with True show ?thesis by simp
  next
    case False
    with Cons show ?thesis
      by (cases xs) auto
  qed
qed simp

section \<open>Words\<close>

lemma unat_u8_lt: "unat (x :: u8) < 256"
  using unsigned_less [of x, where ?'a = nat] by simp

lemma unat_u16_lt: "unat (x :: u16) < 65536"
  using unsigned_less [of x, where ?'a = nat] by simp

lemma not_bit_u8 [simp]: "8 \<le> n \<Longrightarrow> \<not> bit (a :: u8) n"
  by (auto dest: bit_imp_le_length)

lemma unat_ucast_8_16 [simp]: "unat (ucast (x :: u8) :: u16) = unat x"
  using unat_u8_lt [of x] by (simp add: unsigned_ucast_eq take_bit_nat_eq_self)

lemma unat_ucast_8_32 [simp]: "unat (ucast (x :: u8) :: u32) = unat x"
  using unat_u8_lt [of x] by (simp add: unsigned_ucast_eq take_bit_nat_eq_self)

lemma unat_ucast_16_32 [simp]: "unat (ucast (x :: u16) :: u32) = unat x"
  using unat_u16_lt [of x] by (simp add: unsigned_ucast_eq take_bit_nat_eq_self)

lemma word16_of_nat_unat [simp]: "word_of_nat (unat (x :: u16)) = x"
  by simp

lemma unat_word16_of_nat: "n < 65536 \<Longrightarrow> unat (word_of_nat n :: u16) = n"
  by (simp add: unat_of_nat)

lemma unat_word8_of_nat: "n < 256 \<Longrightarrow> unat (word_of_nat n :: u8) = n"
  by (simp add: unat_of_nat)

end
