(* ===== verification/Byteorder.thy ===== *)
theory Byteorder
  imports Prelude
begin

text \<open>
  Integers in memory and byte order: \<open>misc/byteorder.h\<close> and \<open>misc/read_write_int.h\<close>.  The
  build defines \<open>BADVPN_LITTLE_ENDIAN\<close>, so an integer field of a packed struct is the
  little-endian reading of its bytes; \<open>store16\<close> and \<open>load16\<close> (and their 32-bit forms) are what
  copying such a field into and out of a byte buffer does.
\<close>

unbundle bit_operations_syntax

section \<open>Memory images on the little-endian target\<close>

definition byte_of16 :: "nat \<Rightarrow> u16 \<Rightarrow> u8" where
  "byte_of16 i x = ucast (drop_bit (8 * i) x)"

definition byte_of32 :: "nat \<Rightarrow> u32 \<Rightarrow> u8" where
  "byte_of32 i x = ucast (drop_bit (8 * i) x)"

definition store16 :: "u16 \<Rightarrow> bytes" where
  "store16 x = [byte_of16 0 x, byte_of16 1 x]"

definition store32 :: "u32 \<Rightarrow> bytes" where
  "store32 x = [byte_of32 0 x, byte_of32 1 x, byte_of32 2 x, byte_of32 3 x]"

definition badvpn_read_le16 :: "bytes \<Rightarrow> u16" where
  "badvpn_read_le16 p = push_bit 8 (ucast (p ! 1)) OR push_bit 0 (ucast (p ! 0))"

definition badvpn_read_le32 :: "bytes \<Rightarrow> u32" where
  "badvpn_read_le32 p =
     push_bit 24 (ucast (p ! 3)) OR push_bit 16 (ucast (p ! 2)) OR
     push_bit 8 (ucast (p ! 1)) OR push_bit 0 (ucast (p ! 0))"

definition badvpn_read_be16 :: "bytes \<Rightarrow> u16" where
  "badvpn_read_be16 p = push_bit 8 (ucast (p ! 0)) OR push_bit 0 (ucast (p ! 1))"

definition badvpn_read_be32 :: "bytes \<Rightarrow> u32" where
  "badvpn_read_be32 p =
     push_bit 24 (ucast (p ! 0)) OR push_bit 16 (ucast (p ! 1)) OR
     push_bit 8 (ucast (p ! 2)) OR push_bit 0 (ucast (p ! 3))"

definition badvpn_write_le16 :: "u16 \<Rightarrow> bytes" where
  "badvpn_write_le16 x = [ucast (drop_bit 0 x), ucast (drop_bit 8 x)]"

definition badvpn_write_be16 :: "u16 \<Rightarrow> bytes" where
  "badvpn_write_be16 x = [ucast (drop_bit 8 x), ucast (drop_bit 0 x)]"

definition badvpn_write_le32 :: "u32 \<Rightarrow> bytes" where
  "badvpn_write_le32 x =
     [ucast (drop_bit 0 x), ucast (drop_bit 8 x), ucast (drop_bit 16 x), ucast (drop_bit 24 x)]"

definition badvpn_write_be32 :: "u32 \<Rightarrow> bytes" where
  "badvpn_write_be32 x =
     [ucast (drop_bit 24 x), ucast (drop_bit 16 x), ucast (drop_bit 8 x), ucast (drop_bit 0 x)]"

text \<open>Reading a struct field is the little-endian read of the target.\<close>

abbreviation load16 :: "bytes \<Rightarrow> u16" where
  "load16 \<equiv> badvpn_read_le16"

abbreviation load32 :: "bytes \<Rightarrow> u32" where
  "load32 \<equiv> badvpn_read_le32"

section \<open>Byte order conversion\<close>

definition badvpn_reverse16 :: "u16 \<Rightarrow> u16" where
  "badvpn_reverse16 x = load16 [store16 x ! 1, store16 x ! 0]"

definition badvpn_reverse32 :: "u32 \<Rightarrow> u32" where
  "badvpn_reverse32 x =
     load32 [store32 x ! 3, store32 x ! 2, store32 x ! 1, store32 x ! 0]"

definition hton8 :: "u8 \<Rightarrow> u8" where
  "hton8 x = x"

definition hton16 :: "u16 \<Rightarrow> u16" where
  "hton16 x = badvpn_reverse16 x"

definition hton32 :: "u32 \<Rightarrow> u32" where
  "hton32 x = badvpn_reverse32 x"

definition htol16 :: "u16 \<Rightarrow> u16" where
  "htol16 x = x"

definition ntoh8 :: "u8 \<Rightarrow> u8" where
  "ntoh8 x = hton8 x"

definition ntoh16 :: "u16 \<Rightarrow> u16" where
  "ntoh16 x = hton16 x"

definition ntoh32 :: "u32 \<Rightarrow> u32" where
  "ntoh32 x = hton32 x"

definition ltoh16 :: "u16 \<Rightarrow> u16" where
  "ltoh16 x = htol16 x"

section \<open>Round trips\<close>

lemmas store_defs = store16_def store32_def byte_of16_def byte_of32_def

lemmas read_write_defs =
  badvpn_read_le16_def badvpn_read_le32_def badvpn_read_be16_def badvpn_read_be32_def
  badvpn_write_le16_def badvpn_write_le32_def badvpn_write_be16_def badvpn_write_be32_def

lemma length_store16 [simp, wire]: "length (store16 x) = 2"
  by (simp add: store16_def)

lemma length_store32 [simp, wire]: "length (store32 x) = 4"
  by (simp add: store32_def)

lemma read_le16_write [simp]: "badvpn_read_le16 (badvpn_write_le16 x @ r) = x"
  by (rule bit_word_eqI) (auto simp: read_write_defs bit_simps)

lemma read_be16_write [simp]: "badvpn_read_be16 (badvpn_write_be16 x @ r) = x"
  by (rule bit_word_eqI) (auto simp: read_write_defs bit_simps)

lemma store16_write: "store16 x = badvpn_write_le16 x"
  by (simp add: store_defs read_write_defs)

lemma store32_write: "store32 x = badvpn_write_le32 x"
  by (simp add: store_defs read_write_defs)

lemma load16_store16 [simp, wire]: "load16 (store16 x @ r) = x"
  by (simp add: store16_write)

lemma read_le32_write [simp]: "badvpn_read_le32 (badvpn_write_le32 x @ r) = x"
proof (rule bit_word_eqI)
  fix n :: nat
  assume "n < LENGTH(32)"
  then consider "n < 8" | "8 \<le> n" "n < 16" | "16 \<le> n" "n < 24" | "24 \<le> n" "n < 32"
    by fastforce
  then show "bit (badvpn_read_le32 (badvpn_write_le32 x @ r)) n = bit x n"
    by cases (auto simp: read_write_defs bit_simps)
qed

lemma read_be32_write [simp]: "badvpn_read_be32 (badvpn_write_be32 x @ r) = x"
proof (rule bit_word_eqI)
  fix n :: nat
  assume "n < LENGTH(32)"
  then consider "n < 8" | "8 \<le> n" "n < 16" | "16 \<le> n" "n < 24" | "24 \<le> n" "n < 32"
    by fastforce
  then show "bit (badvpn_read_be32 (badvpn_write_be32 x @ r)) n = bit x n"
    by cases (auto simp: read_write_defs bit_simps)
qed

lemma load32_store32 [simp, wire]: "load32 (store32 x @ r) = x"
  by (simp add: store32_write)

lemma load16_store16_nil [simp, wire]: "load16 (store16 x) = x"
  using load16_store16 [of x "[]"] by simp

lemma load32_store32_nil [simp, wire]: "load32 (store32 x) = x"
  using load32_store32 [of x "[]"] by simp

lemma store16_load16 [wire]: "store16 (load16 [a, b]) = [a, b]"
proof -
  have "ucast (load16 [a, b]) = a" and "ucast (drop_bit 8 (load16 [a, b])) = b"
    by (auto simp: read_write_defs bit_simps dest: bit_imp_le_length intro!: bit_word_eqI)
  then show ?thesis by (simp add: store_defs)
qed

lemma store32_load32 [wire]: "store32 (load32 [a, b, c, d]) = [a, b, c, d]"
proof -
  have "ucast (load32 [a, b, c, d]) = a" and "ucast (drop_bit 8 (load32 [a, b, c, d])) = b"
    and "ucast (drop_bit 16 (load32 [a, b, c, d])) = c"
    and "ucast (drop_bit 24 (load32 [a, b, c, d])) = d"
    by (auto simp: read_write_defs bit_simps dest: bit_imp_le_length intro!: bit_word_eqI)
  then show ?thesis by (simp add: store_defs)
qed

lemma reverse16_bytes: "badvpn_reverse16 (load16 [a, b]) = load16 [b, a]"
  by (simp add: badvpn_reverse16_def store16_load16)

lemma hton16_involution [simp]: "hton16 (hton16 x) = x"
proof -
  have "x = load16 [byte_of16 0 x, byte_of16 1 x]"
    using load16_store16_nil [of x] by (simp add: store16_def)
  then show ?thesis
    by (metis hton16_def reverse16_bytes)
qed

lemma ntoh16_hton16 [simp, wire]: "ntoh16 (hton16 x) = x"
  by (simp add: ntoh16_def)

lemma reverse32_bytes: "badvpn_reverse32 (load32 [a, b, c, d]) = load32 [d, c, b, a]"
  by (simp add: badvpn_reverse32_def store32_load32)

lemma hton32_involution [simp]: "hton32 (hton32 x) = x"
proof -
  have "x = load32 [byte_of32 0 x, byte_of32 1 x, byte_of32 2 x, byte_of32 3 x]"
    using load32_store32_nil [of x] by (simp add: store32_def)
  then show ?thesis
    by (metis hton32_def reverse32_bytes)
qed

lemma hton16_eq_iff [simp]: "hton16 x = hton16 y \<longleftrightarrow> x = y"
  by (metis hton16_involution)

lemma unat_ntoh16_eq_iff: "unat (ntoh16 x) = unat (ntoh16 y) \<longleftrightarrow> x = y"
  by (simp add: ntoh16_def flip: word_unat_eq_iff)

lemma store16_hton16: "store16 (hton16 x) = badvpn_write_be16 x"
proof -
  have "x = load16 [byte_of16 0 x, byte_of16 1 x]"
    using load16_store16_nil [of x] by (simp add: store16_def)
  then have "store16 (hton16 x) = [byte_of16 1 x, byte_of16 0 x]"
    by (metis hton16_def reverse16_bytes store16_load16)
  then show ?thesis
    by (simp add: byte_of16_def read_write_defs)
qed

lemma read_be16_store_hton16 [simp, wire]: "badvpn_read_be16 (store16 (hton16 x) @ r) = x"
  by (simp add: store16_hton16)

lemma read_be16_bytes: "badvpn_read_be16 (a # b # r) = ntoh16 (load16 [a, b])"
  unfolding ntoh16_def hton16_def reverse16_bytes by (simp add: read_write_defs)

lemma hton16_0 [simp]: "hton16 0 = 0"
  by (simp add: hton16_def badvpn_reverse16_def store_defs read_write_defs)

end
