(* ===== verification/NetProto.thy ===== *)
theory NetProto
  imports Byteorder
begin

text \<open>
  The IPv4, IPv6 and UDP headers and their checks and checksums: \<open>misc/ipv4_proto.h\<close>,
  \<open>misc/ipv6_proto.h\<close> and \<open>misc/udp_proto.h\<close>.  A header is a record with the fields of the
  packed struct; \<open>ipv4_header_bytes\<close> and its relatives are the memory images of the structs.
  The sums are computed on \<^typ>\<open>u32\<close> as in the code and related to the one's complement sum
  of the standard, taken over the natural numbers.
\<close>

unbundle bit_operations_syntax

section \<open>Headers\<close>

record ipv4_header =
  version4_ihl4 :: u8
  ds :: u8
  total_length :: u16
  identification :: u16
  flags3_fragmentoffset13 :: u16
  ttl :: u8
  protocol :: u8
  ip_checksum :: u16
  source_address :: u32
  destination_address :: u32

record ipv6_header =
  version4_tc4 :: u8
  tc4_fl4 :: u8
  fl :: u16
  payload_length :: u16
  next_header :: u8
  hop_limit :: u8
  source_address6 :: bytes
  destination_address6 :: bytes

record udp_header =
  source_port :: u16
  dest_port :: u16
  udp_length :: u16
  udp_cksum :: u16

definition sizeof_ipv4_header :: nat where "sizeof_ipv4_header = 20"

definition sizeof_ipv6_header :: nat where "sizeof_ipv6_header = 40"

definition sizeof_udp_header :: nat where "sizeof_udp_header = 8"

definition IPV4_PROTOCOL_UDP :: u8 where "IPV4_PROTOCOL_UDP = 17"

definition IPV6_NEXT_UDP :: u8 where "IPV6_NEXT_UDP = 17"

lemmas sizeof_defs [wire] = sizeof_ipv4_header_def sizeof_ipv6_header_def sizeof_udp_header_def

definition ipv4_header_bytes :: "ipv4_header \<Rightarrow> bytes" where
  "ipv4_header_bytes h =
     [version4_ihl4 h, ds h] @ store16 (total_length h) @ store16 (identification h) @
     store16 (flags3_fragmentoffset13 h) @ [ttl h, protocol h] @ store16 (ip_checksum h) @
     store32 (source_address h) @ store32 (destination_address h)"

definition ipv4_header_of :: "bytes \<Rightarrow> ipv4_header" where
  "ipv4_header_of d =
     \<lparr>version4_ihl4 = d ! 0, ds = d ! 1, total_length = load16 (drop 2 d),
      identification = load16 (drop 4 d), flags3_fragmentoffset13 = load16 (drop 6 d),
      ttl = d ! 8, protocol = d ! 9, ip_checksum = load16 (drop 10 d),
      source_address = load32 (drop 12 d), destination_address = load32 (drop 16 d)\<rparr>"

definition ipv6_header_bytes :: "ipv6_header \<Rightarrow> bytes" where
  "ipv6_header_bytes h =
     [version4_tc4 h, tc4_fl4 h] @ store16 (fl h) @ store16 (payload_length h) @
     [next_header h, hop_limit h] @ source_address6 h @ destination_address6 h"

definition ipv6_header_of :: "bytes \<Rightarrow> ipv6_header" where
  "ipv6_header_of d =
     \<lparr>version4_tc4 = d ! 0, tc4_fl4 = d ! 1, fl = load16 (drop 2 d),
      payload_length = load16 (drop 4 d), next_header = d ! 6, hop_limit = d ! 7,
      source_address6 = take 16 (drop 8 d), destination_address6 = take 16 (drop 24 d)\<rparr>"

definition udp_header_bytes :: "udp_header \<Rightarrow> bytes" where
  "udp_header_bytes h =
     store16 (source_port h) @ store16 (dest_port h) @ store16 (udp_length h) @
     store16 (udp_cksum h)"

definition udp_header_of :: "bytes \<Rightarrow> udp_header" where
  "udp_header_of d =
     \<lparr>source_port = load16 d, dest_port = load16 (drop 2 d), udp_length = load16 (drop 4 d),
      udp_cksum = load16 (drop 6 d)\<rparr>"

definition IPV4_GET_VERSION :: "ipv4_header \<Rightarrow> u8" where
  "IPV4_GET_VERSION h = drop_bit 4 (version4_ihl4 h AND 0xF0)"

definition IPV4_GET_IHL :: "ipv4_header \<Rightarrow> u8" where
  "IPV4_GET_IHL h = drop_bit 0 (version4_ihl4 h AND 0x0F)"

definition IPV4_MAKE_VERSION_IHL :: "nat \<Rightarrow> u8" where
  "IPV4_MAKE_VERSION_IHL sz = word_of_nat (sz div 4 + 4 * 16)"

section \<open>Checksums\<close>

text \<open>The loop \<open>for (i = 0; i < n; i++) t += badvpn_read_be16(p + 2 * i)\<close>.\<close>

function sum_loop :: "bytes \<Rightarrow> nat \<Rightarrow> nat \<Rightarrow> u32 \<Rightarrow> u32" where
  "sum_loop p i n t =
     (if i < n then sum_loop p (i + 1) n (t + ucast (badvpn_read_be16 (drop (2 * i) p))) else t)"
  by pat_completeness auto
termination
  by (relation "measure (\<lambda>(p, i, n, t). n - i)") auto

declare sum_loop.simps [simp del]

text \<open>The loop \<open>while (t >> 16) t = (t & 0xFFFF) + (t >> 16)\<close>.\<close>

lemma fold_carry_less:
  "drop_bit 16 (t :: u32) \<noteq> 0 \<Longrightarrow> unat ((t AND 0xFFFF) + drop_bit 16 t) < unat t"
proof -
  assume nz: "drop_bit 16 t \<noteq> 0"
  have lo: "unat (t AND 0xFFFF) = unat t mod 65536"
  proof -
    have "t AND 0xFFFF = take_bit 16 t"
      by (simp add: take_bit_eq_mask mask_eq_exp_minus_1)
    then show ?thesis
      by (simp add: take_bit_eq_mod unat_mod)
  qed
  have hi: "unat (drop_bit 16 t) = unat t div 65536"
    by (simp add: drop_bit_eq_div unat_div)
  have "unat (drop_bit 16 t) \<noteq> 0"
    using nz by (simp add: unat_eq_0)
  then have ge: "unat t div 65536 \<ge> 1"
    using hi by simp
  have "unat ((t AND 0xFFFF) + drop_bit 16 t) \<le> unat (t AND 0xFFFF) + unat (drop_bit 16 t)"
    by (simp add: unat_word_ariths)
  also have "\<dots> = unat t mod 65536 + unat t div 65536"
    by (simp add: lo hi)
  also have "\<dots> < unat t"
    using ge mod_mult_div_eq [of "unat t" 65536] by linarith
  finally show ?thesis .
qed

function fold_carry :: "u32 \<Rightarrow> u32" where
  "fold_carry t =
     (if drop_bit 16 t \<noteq> 0 then fold_carry ((t AND 0xFFFF) + drop_bit 16 t) else t)"
  by pat_completeness auto
termination
  by (relation "measure unat") (auto intro: fold_carry_less)

declare fold_carry.simps [simp del]

definition ipv4_checksum :: "ipv4_header \<Rightarrow> bytes \<Rightarrow> nat \<Rightarrow> u16" where
  "ipv4_checksum h extra extra_len =
     (let t = sum_loop (ipv4_header_bytes h) 0 (sizeof_ipv4_header div 2) 0;
          t = sum_loop extra 0 (extra_len div 2) t;
          t = fold_carry t
      in hton16 (ucast (NOT t)))"

definition udp_checksum_summer :: "bytes \<Rightarrow> nat \<Rightarrow> u32" where
  "udp_checksum_summer p len = sum_loop p 0 (len div 2) 0"

text \<open>The part of the sum over the UDP header and the payload, shared by both IP versions.\<close>

definition udp_sum_payload :: "u32 \<Rightarrow> udp_header \<Rightarrow> bytes \<Rightarrow> nat \<Rightarrow> u32" where
  "udp_sum_payload t h payload payload_len =
     (let t = t + udp_checksum_summer (udp_header_bytes h) sizeof_udp_header
      in if payload_len mod 2 = 0 then t + udp_checksum_summer payload payload_len
         else let t = t + udp_checksum_summer payload (payload_len - 1);
                  x = hton16 (push_bit 8 (ucast (payload ! (payload_len - 1))))
              in t + udp_checksum_summer (store16 x) 2)"

definition udp_finish :: "u32 \<Rightarrow> u16" where
  "udp_finish t =
     (let t = fold_carry t;
          t = NOT t;
          t = (if t = 0 then 0xFFFF else t)
      in hton16 (ucast t))"

definition udp_checksum :: "udp_header \<Rightarrow> bytes \<Rightarrow> u32 \<Rightarrow> u32 \<Rightarrow> u16" where
  "udp_checksum h payload source_addr dest_addr =
     (let payload_len = unat (word_of_nat (length payload) :: u16);
          t = 0;
          t = t + udp_checksum_summer (store32 source_addr) 4;
          t = t + udp_checksum_summer (store32 dest_addr) 4;
          t = t + udp_checksum_summer (store16 (hton16 (ucast IPV4_PROTOCOL_UDP))) 2;
          t = t + udp_checksum_summer
                    (store16 (hton16 (word_of_nat (sizeof_udp_header + payload_len)))) 2
      in udp_finish (udp_sum_payload t h payload payload_len))"

definition udp_ip6_checksum :: "udp_header \<Rightarrow> bytes \<Rightarrow> bytes \<Rightarrow> bytes \<Rightarrow> u16" where
  "udp_ip6_checksum h payload source_addr dest_addr =
     (let payload_len = unat (word_of_nat (length payload) :: u16);
          t = 0;
          t = t + udp_checksum_summer source_addr 16;
          t = t + udp_checksum_summer dest_addr 16;
          t = t + udp_checksum_summer
                    (store32 (hton32 (word_of_nat (sizeof_udp_header + payload_len)))) 4;
          t = t + udp_checksum_summer (store32 (hton32 (ucast IPV6_NEXT_UDP))) 4
      in udp_finish (udp_sum_payload t h payload payload_len))"

section \<open>Header checks\<close>

definition ipv4_check :: "bytes \<Rightarrow> (ipv4_header \<times> bytes) option" where
  "ipv4_check data =
     (if length data < sizeof_ipv4_header then None
      else let h = ipv4_header_of data in
      if IPV4_GET_VERSION h \<noteq> 4 then None
      else let header_len = unat (IPV4_GET_IHL h) * 4 in
      if header_len < sizeof_ipv4_header then None
      else if header_len > length data then None
      else let tot = unat (ntoh16 (total_length h)) in
      if tot < header_len then None
      else if tot > length data then None
      else let in_packet = ip_checksum h;
               computed = ipv4_checksum (h\<lparr>ip_checksum := hton16 0\<rparr>)
                            (drop sizeof_ipv4_header data) (header_len - sizeof_ipv4_header) in
      if in_packet \<noteq> computed then None
      else Some (h, take (tot - header_len) (drop header_len data)))"

definition ipv6_check :: "bytes \<Rightarrow> (ipv6_header \<times> bytes) option" where
  "ipv6_check data =
     (if length data < sizeof_ipv6_header then None
      else let h = ipv6_header_of data in
      if drop_bit 4 (ntoh8 (version4_tc4 h)) \<noteq> 6 then None
      else let plen = unat (ntoh16 (payload_length h)) in
      if plen > length data - sizeof_ipv6_header then None
      else Some (h, take plen (drop sizeof_ipv6_header data)))"

definition udp_check :: "bytes \<Rightarrow> (udp_header \<times> bytes) option" where
  "udp_check data =
     (if length data < sizeof_udp_header then None
      else let h = udp_header_of data;
               rest = drop sizeof_udp_header data;
               ulen = unat (ntoh16 (udp_length h)) in
      if ulen < sizeof_udp_header then None
      else if ulen > sizeof_udp_header + length rest then None
      else Some (h, take (ulen - sizeof_udp_header) rest))"

section \<open>The one's complement sum\<close>

fun be_sum :: "bytes \<Rightarrow> nat" where
  "be_sum (a # b # r) = 256 * unat a + unat b + be_sum r"
| "be_sum [a] = 256 * unat a"
| "be_sum [] = 0"

definition ones_fold :: "nat \<Rightarrow> nat" where
  "ones_fold n = (if n = 0 then 0 else if n mod 65535 = 0 then 65535 else n mod 65535)"

lemma unat_read_be16: "unat (badvpn_read_be16 (a # b # r)) = 256 * unat a + unat b"
proof -
  have "badvpn_read_be16 (a # b # r) = push_bit 8 (ucast a) + ucast b"
    unfolding badvpn_read_be16_def
    by (subst disjunctive_add) (auto simp: bit_simps)
  then show ?thesis using unat_u8_lt [of a] unat_u8_lt [of b]
    by (simp add: push_bit_eq_mult unat_word_ariths)
qed

lemma be_sum_le: "be_sum p \<le> 65535 * ((length p + 1) div 2)"
proof (induction p rule: be_sum.induct)
  case (1 a b r)
  have "256 * unat a + unat b \<le> 65535" using unat_u8_lt [of a] unat_u8_lt [of b] by simp
  with 1 show ?case by simp
next
  case (2 a) then show ?case using unat_u8_lt [of a] by simp
qed simp

lemma be_sum_append: "even (length p) \<Longrightarrow> be_sum (p @ q) = be_sum p + be_sum q"
  by (induction p rule: be_sum.induct) auto

lemma sum_loop_shift: "sum_loop (a # b # r) (Suc i) (Suc n) t = sum_loop r i n t"
proof (induction r i n t rule: sum_loop.induct)
  case (1 p i n t)
  then show ?case
    by (subst sum_loop.simps, subst (2) sum_loop.simps) simp
qed

lemma ucast_read_be16: "(ucast (badvpn_read_be16 (a # b # r)) :: u32) = word_of_nat (256 * unat a + unat b)"
proof -
  have "(ucast x :: u32) = word_of_nat (unat x)" for x :: u16
    using unat_u16_lt [of x] by (simp add: word_unat_eq_iff unat_of_nat)
  then show ?thesis by (simp flip: unat_read_be16 [of a b r])
qed

lemma sum_loop_eq:
  "2 * n \<le> length p \<Longrightarrow> sum_loop p 0 n t = t + word_of_nat (be_sum (take (2 * n) p))"
proof (induction n arbitrary: p t)
  case (Suc n)
  then obtain a b r where p: "p = a # b # r"
    by (cases p rule: be_sum.cases) auto
  have e: "(ucast (badvpn_read_be16 (a # b # r)) :: u32) = 256 * ucast a + ucast b"
    using ucast_read_be16 [of a b r] by simp
  have "sum_loop p 0 (Suc n) t = sum_loop r 0 n (t + (256 * ucast a + ucast b))"
    by (subst sum_loop.simps) (simp add: p sum_loop_shift e)
  with Suc p show ?case
    by simp
qed (simp add: sum_loop.simps)

lemma ones_fold_small: "n \<le> 65535 \<Longrightarrow> ones_fold n = n"
  by (cases "n = 65535") (auto simp: ones_fold_def)

lemma ones_fold_step: "n div 65536 \<noteq> 0 \<Longrightarrow> ones_fold (n mod 65536 + n div 65536) = ones_fold n"
proof -
  assume nz: "n div 65536 \<noteq> 0"
  have "n = n mod 65536 + n div 65536 + 65535 * (n div 65536)"
    using mod_mult_div_eq [of n 65536] by simp
  then have "n mod 65535 = (n mod 65536 + n div 65536) mod 65535"
    by (metis mod_mult_self2)
  with nz show ?thesis
    by (auto simp: ones_fold_def)
qed

lemma unat_fold_carry: "unat (fold_carry t) = ones_fold (unat t)"
proof (induction t rule: fold_carry.induct)
  case (1 t)
  have lo: "unat (t AND 0xFFFF) = unat t mod 65536"
  proof -
    have "t AND 0xFFFF = take_bit 16 t"
      by (simp add: take_bit_eq_mask mask_eq_exp_minus_1)
    then show ?thesis
      by (simp add: take_bit_eq_mod unat_mod)
  qed
  have hi: "unat (drop_bit 16 t) = unat t div 65536"
    by (simp add: drop_bit_eq_div unat_div)
  show ?case
  proof (cases "drop_bit 16 t = 0")
    case True
    then have "unat t < 65536"
      using hi by (simp add: div_eq_0_iff)
    with True show ?thesis
      by (simp add: fold_carry.simps ones_fold_small)
  next
    case False
    have "unat t < 2 ^ 32" using unsigned_less [of t, where ?'a = nat] by simp
    then have "unat t mod 65536 + unat t div 65536 < 2 ^ 32"
      by (simp add: div_less_mono)
    then have s: "unat ((t AND 0xFFFF) + drop_bit 16 t) = unat t mod 65536 + unat t div 65536"
      by (simp add: unat_word_ariths lo hi)
    have "unat t div 65536 \<noteq> 0"
      using False hi by (metis unat_eq_zero)
    with False 1 s show ?thesis
      by (simp add: fold_carry.simps [of t] ones_fold_step)
  qed
qed

lemma ones_fold_le: "ones_fold n \<le> 65535"
  by (simp add: ones_fold_def less_imp_le)

lemma unat_not_low: "unat t \<le> 65535 \<Longrightarrow> unat (ucast (NOT t :: u32) :: u16) = 65535 - unat t"
proof -
  assume le: "unat t \<le> 65535"
  have "(ucast (NOT t) :: u16) = NOT (ucast t)"
    by (rule bit_word_eqI) (simp add: bit_simps)
  moreover have "unat (ucast t :: u16) = unat t"
    using le by (simp add: unsigned_ucast_eq take_bit_nat_eq_self)
  moreover have "unat (NOT x :: u16) = 65535 - unat x" for x
  proof -
    have m: "(- 1 :: u16) = 65535" by simp
    have "NOT x = 65535 - x" by (simp add: not_eq_complement m)
    moreover have "x \<le> 65535" by (metis m word_order.extremum)
    ultimately show ?thesis
      by (simp add: unat_sub)
  qed
  ultimately show ?thesis by simp
qed

lemma not_low_nonzero: "unat t \<le> 65535 \<Longrightarrow> NOT (t :: u32) \<noteq> 0"
proof
  assume "unat t \<le> 65535" and "NOT t = 0"
  then have "t = NOT 0" by (metis bit.double_compl)
  then have "t = 0xFFFFFFFF" by simp
  with \<open>unat t \<le> 65535\<close> show False by simp
qed

lemma udp_finish_eq: "unat (ntoh16 (udp_finish t)) = 65535 - ones_fold (unat t)"
proof -
  have le: "unat (fold_carry t) \<le> 65535"
    by (simp add: unat_fold_carry ones_fold_le)
  then show ?thesis
    by (simp add: udp_finish_def Let_def not_low_nonzero unat_not_low unat_fold_carry)
qed


lemma summer_eq:
  "even len \<Longrightarrow> len \<le> length p \<Longrightarrow> udp_checksum_summer p len = word_of_nat (be_sum (take len p))"
  by (simp add: udp_checksum_summer_def sum_loop_eq)

lemma length_udp_header_bytes [simp, wire]: "length (udp_header_bytes h) = 8"
  by (simp add: udp_header_bytes_def)

lemma length_ipv4_header_bytes [simp, wire]: "length (ipv4_header_bytes h) = 20"
  by (simp add: ipv4_header_bytes_def)

lemma store16_hton16_high: "store16 (hton16 (push_bit 8 (ucast (b :: u8)))) = [b, 0]"
proof -
  have "ucast (drop_bit 8 (push_bit 8 (ucast b) :: u16)) = b"
    by (rule bit_word_eqI) (auto simp: bit_simps)
  moreover have "ucast (push_bit 8 (ucast b) :: u16) = (0 :: u8)"
    by (rule bit_word_eqI) (auto simp: bit_simps)
  ultimately show ?thesis
    by (simp add: store16_hton16 badvpn_write_be16_def)
qed

lemma be_sum_store16_hton16: "be_sum (store16 (hton16 x)) = unat x"
proof -
  have "unat (badvpn_read_be16 (store16 (hton16 x))) = unat x"
    using read_be16_store_hton16 [of x "[]"] by simp
  then show ?thesis
    by (simp add: store16_def unat_read_be16)
qed

lemma be_sum_odd: "odd (length p) \<Longrightarrow> be_sum p = be_sum (take (length p - 1) p) + 256 * unat (p ! (length p - 1))"
  by (induction p rule: be_sum.induct) (auto simp: take_Cons' nth_Cons' elim!: oddE)

lemma udp_sum_payload_eq:
  "udp_sum_payload t h pl (length pl) = t + word_of_nat (be_sum (udp_header_bytes h) + be_sum pl)"
proof (cases "even (length pl)")
  case True
  then show ?thesis
    by (simp add: udp_sum_payload_def Let_def summer_eq sizeof_defs even_iff_mod_2_eq_zero)
next
  case False
  then have "even (length pl - 1)" and "odd (length pl)" by auto
  with False show ?thesis
    by (simp add: udp_sum_payload_def Let_def summer_eq sizeof_defs store16_hton16_high
        be_sum_odd [of pl] even_iff_mod_2_eq_zero)
qed

definition udp_pseudo_sum :: "bytes \<Rightarrow> bytes \<Rightarrow> nat \<Rightarrow> nat" where
  "udp_pseudo_sum s d n = be_sum s + be_sum d + 17 + (8 + n)"

definition udp_total_sum :: "udp_header \<Rightarrow> bytes \<Rightarrow> bytes \<Rightarrow> bytes \<Rightarrow> nat" where
  "udp_total_sum h pl s d = udp_pseudo_sum s d (length pl) + be_sum (udp_header_bytes h) + be_sum pl"

lemma udp_total_sum_less:
  assumes "length pl \<le> 65527" and "length s \<le> 16" and "length d \<le> 16"
  shows "udp_total_sum h pl s d < 2 ^ 32"
proof -
  have "be_sum s \<le> 65535 * 8" and "be_sum d \<le> 65535 * 8"
    and "be_sum (udp_header_bytes h) \<le> 65535 * 4" and "be_sum pl \<le> 65535 * 32764"
    using be_sum_le [of s] be_sum_le [of d] be_sum_le [of "udp_header_bytes h"] be_sum_le [of pl] assms
    by (auto elim!: order_trans)
  then show ?thesis using assms
    by (simp add: udp_total_sum_def udp_pseudo_sum_def)
qed

lemma unat_word32_of_nat: "n < 2 ^ 32 \<Longrightarrow> unat (word_of_nat n :: u32) = n"
  by (simp add: unat_of_nat)

lemma unat_8_plus: "n \<le> 65527 \<Longrightarrow> unat (8 + word_of_nat n :: u16) = 8 + n"
proof -
  assume "n \<le> 65527"
  moreover have "(8 + word_of_nat n :: u16) = word_of_nat (8 + n)" by simp
  ultimately show ?thesis by (simp only: unat_of_nat) simp
qed

lemma udp_checksum_eq:
  assumes len: "length pl \<le> 65527"
  shows "unat (ntoh16 (udp_checksum h pl s d)) = 65535 - ones_fold (udp_total_sum h pl (store32 s) (store32 d))"
proof -
  have l: "unat (word_of_nat (length pl) :: u16) = length pl"
    using len by (simp add: unat_of_nat)
  have l8: "unat (8 + word_of_nat (length pl) :: u16) = 8 + length pl"
    using len by (rule unat_8_plus)
  have p17: "unat IPV4_PROTOCOL_UDP = 17"
    by (simp add: IPV4_PROTOCOL_UDP_def)
  have "udp_checksum h pl s d = udp_finish (word_of_nat (udp_total_sum h pl (store32 s) (store32 d)))"
    unfolding udp_checksum_def Let_def l
    by (simp add: summer_eq udp_sum_payload_eq sizeof_defs be_sum_store16_hton16 p17 l8
        udp_total_sum_def udp_pseudo_sum_def del: of_nat_unat, simp add: ac_simps)
  then show ?thesis
    using udp_total_sum_less [OF len, of "store32 s" "store32 d" h]
    by (simp add: udp_finish_eq unat_word32_of_nat)
qed


lemma store32_hton32: "store32 (hton32 x) = badvpn_write_be32 x"
proof -
  have "x = load32 [byte_of32 0 x, byte_of32 1 x, byte_of32 2 x, byte_of32 3 x]"
    using load32_store32_nil [of x] by (simp add: store32_def)
  then have "store32 (hton32 x) = [byte_of32 3 x, byte_of32 2 x, byte_of32 1 x, byte_of32 0 x]"
    by (metis hton32_def reverse32_bytes store32_load32)
  then show ?thesis
    by (simp add: byte_of32_def read_write_defs)
qed

lemma be_sum_store32_hton32: "be_sum (store32 (hton32 (ucast (y :: u16)))) = unat y"
proof -
  have "ucast (drop_bit 24 (ucast y :: u32)) = (0 :: u8)" "ucast (drop_bit 16 (ucast y :: u32)) = (0 :: u8)"
    by (rule bit_word_eqI, auto simp: bit_simps dest: bit_imp_le_length)+
  moreover have "ucast (drop_bit 8 (ucast y :: u32)) = (ucast (drop_bit 8 y) :: u8)"
    "ucast (ucast y :: u32) = (ucast y :: u8)"
    by (rule bit_word_eqI, auto simp: bit_simps)+
  ultimately have "store32 (hton32 (ucast y)) = [0, 0] @ store16 (hton16 y)"
    by (simp add: store32_hton32 store16_hton16 read_write_defs)
  then show ?thesis
    using be_sum_store16_hton16 [of y] by simp
qed

lemma udp_ip6_checksum_eq:
  assumes len: "length pl \<le> 65527" and s: "length s = 16" and d: "length d = 16"
  shows "unat (ntoh16 (udp_ip6_checksum h pl s d)) = 65535 - ones_fold (udp_total_sum h pl s d)"
proof -
  have l: "unat (word_of_nat (length pl) :: u16) = length pl"
    using len by (simp add: unat_of_nat)
  have l8: "(word_of_nat (8 + length pl) :: u32) = ucast (word_of_nat (8 + length pl) :: u16)"
    using len by (simp add: word_unat_eq_iff unat_of_nat del: of_nat_add)
  have u8: "unat (8 + word_of_nat (length pl) :: u16) = 8 + length pl"
    using len by (rule unat_8_plus)
  have p17: "(ucast IPV6_NEXT_UDP :: u32) = 17"
    by (simp add: IPV6_NEXT_UDP_def)
  have b17: "be_sum (store32 (hton32 17)) = 17"
    using be_sum_store32_hton32 [of 17] by simp
  have "udp_ip6_checksum h pl s d = udp_finish (word_of_nat (udp_total_sum h pl s d))"
    unfolding udp_ip6_checksum_def Let_def l sizeof_udp_header_def l8 p17
    by (simp add: summer_eq udp_sum_payload_eq sizeof_defs be_sum_store32_hton32 s d u8
        b17 udp_total_sum_def udp_pseudo_sum_def del: of_nat_unat, simp add: ac_simps)
  then show ?thesis
    using udp_total_sum_less [OF len, of s d h] s d
    by (simp add: udp_finish_eq unat_word32_of_nat)
qed

lemma ipv4_checksum_eq:
  assumes "even n" and "n \<le> length extra" and "n \<le> 60"
  shows "unat (ntoh16 (ipv4_checksum h extra n))
    = 65535 - ones_fold (be_sum (ipv4_header_bytes h) + be_sum (take n extra))"
proof -
  let ?S = "be_sum (ipv4_header_bytes h) + be_sum (take n extra)"
  have "be_sum (ipv4_header_bytes h) \<le> 65535 * 10" and "be_sum (take n extra) \<le> 65535 * 30"
    using be_sum_le [of "ipv4_header_bytes h"] be_sum_le [of "take n extra"] assms
    by (auto elim!: order_trans)
  then have "?S < 2 ^ 32" by simp
  moreover have "ipv4_checksum h extra n = hton16 (ucast (NOT (fold_carry (word_of_nat ?S))))"
    using assms by (simp add: ipv4_checksum_def Let_def sum_loop_eq sizeof_defs)
  moreover have "unat (word_of_nat ?S :: u32) = ?S"
    using calculation by (simp add: unat_word32_of_nat del: of_nat_add)
  moreover have "unat (fold_carry t) \<le> 65535" for t
    by (simp add: unat_fold_carry ones_fold_le)
  ultimately show ?thesis
    by (simp add: unat_not_low unat_fold_carry ones_fold_le del: of_nat_add)
qed

lemma checksum_field_iff:
  assumes "0 < S" and "c \<le> 65535"
  shows "c = 65535 - ones_fold S \<longleftrightarrow> (S + c) mod 65535 = 0 \<and> c \<noteq> 65535"
proof -
  define r where "r = S mod 65535"
  have "r < 65535" by (simp add: r_def)
  have m: "(S + c) mod 65535 = (r + c) mod 65535"
    by (simp add: r_def mod_add_left_eq)
  show ?thesis
  proof (cases "r = 0")
    case True
    then have "ones_fold S = 65535" using assms by (simp add: ones_fold_def r_def)
    with True show ?thesis using assms
      by (cases "c = 65535") (auto simp: m)
  next
    case False
    have "(r + c) mod 65535 = 0 \<longleftrightarrow> r + c = 65535 \<or> r + c = 2 * 65535 \<or> r + c = 0"
      using \<open>r < 65535\<close> assms by (auto simp: mod_eq_0_iff_dvd elim!: dvdE)
    then show ?thesis using False assms \<open>r < 65535\<close>
      by (auto simp: ones_fold_def m simp flip: r_def)
  qed
qed


section \<open>Layout round trips\<close>

lemma ipv4_header_of_bytes [simp, wire]: "ipv4_header_of (ipv4_header_bytes h @ r) = h"
  by (cases h) (simp add: ipv4_header_of_def ipv4_header_bytes_def nth_append)

lemma udp_header_of_bytes [simp, wire]: "udp_header_of (udp_header_bytes h @ r) = h"
  by (cases h) (simp add: udp_header_of_def udp_header_bytes_def)

lemma ipv6_header_of_bytes [simp, wire]:
  "length (source_address6 h) = 16 \<Longrightarrow> length (destination_address6 h) = 16 \<Longrightarrow>
   ipv6_header_of (ipv6_header_bytes h @ r) = h"
  by (cases h) (simp add: ipv6_header_of_def ipv6_header_bytes_def nth_append)

lemma length_ipv6_header_bytes [simp, wire]:
  "length (source_address6 h) = 16 \<Longrightarrow> length (destination_address6 h) = 16 \<Longrightarrow>
   length (ipv6_header_bytes h) = 40"
  by (simp add: ipv6_header_bytes_def)

lemma store16_load16_drop:
  "i + 2 \<le> length d \<Longrightarrow> store16 (load16 (drop i d)) = take 2 (drop i d)"
proof -
  assume "i + 2 \<le> length d"
  then have "2 \<le> length (drop i d)" by simp
  then obtain a b r where r: "drop i d = a # b # r"
    by (cases "drop i d" rule: be_sum.cases) auto
  have "load16 (a # b # r) = load16 [a, b]"
    by (simp add: read_write_defs)
  then show ?thesis by (simp add: r store16_load16)
qed

lemma store32_load32_drop:
  "i + 4 \<le> length d \<Longrightarrow> store32 (load32 (drop i d)) = take 4 (drop i d)"
proof -
  assume "i + 4 \<le> length d"
  then have "4 \<le> length (drop i d)" by simp
  then obtain a b c e r where r: "drop i d = a # b # c # e # r"
    by (metis One_nat_def Suc_le_length_iff numeral_eq_Suc pred_numeral_simps(2,3) semiring_norm(26,27))
  have "load32 (a # b # c # e # r) = load32 [a, b, c, e]"
    by (simp add: read_write_defs)
  then show ?thesis by (simp add: r store32_load32)
qed

lemma bytes_of_ipv4_header_of: "20 \<le> length d \<Longrightarrow> ipv4_header_bytes (ipv4_header_of d) = take 20 d"
  by (rule nth_equalityI)
    (simp_all add: ipv4_header_bytes_def ipv4_header_of_def store16_load16_drop
      store32_load32_drop nth_append nth_Cons' less_diff_conv2,
     ((intro impI conjI)?; (rule arg_cong [where f = "(!) d"])?; linarith)+)

lemma be_sum_split16: "be_sum (store16 x) = unat (ntoh16 x)"
  by (metis be_sum_store16_hton16 hton16_involution ntoh16_def)

lemma be_sum_ipv4_header_bytes:
  "be_sum (ipv4_header_bytes h) =
   be_sum (ipv4_header_bytes (h\<lparr>ip_checksum := 0\<rparr>)) + unat (ntoh16 (ip_checksum h))"
  by (simp add: ipv4_header_bytes_def be_sum_append be_sum_split16 ntoh16_def)

lemma be_sum_udp_header_bytes:
  "be_sum (udp_header_bytes h) =
   be_sum (udp_header_bytes (h\<lparr>udp_cksum := 0\<rparr>)) + unat (ntoh16 (udp_cksum h))"
  by (simp add: udp_header_bytes_def be_sum_append be_sum_split16 ntoh16_def)


section \<open>What the checks accept\<close>

lemma unat_IHL_le: "unat (IPV4_GET_IHL h) \<le> 15"
proof -
  have "IPV4_GET_IHL h \<le> 15"
    by (simp add: IPV4_GET_IHL_def word_and_le1)
  then show ?thesis
    by (simp add: word_le_nat_alt)
qed

text \<open>
  An IPv4 header passes the code's comparison of checksums exactly when the one's complement
  sum over the header is zero and the checksum field is not the negative zero \<open>0xFFFF\<close>.
\<close>

lemma ipv4_check_accepts:
  assumes "20 \<le> length data" and "IPV4_GET_VERSION (ipv4_header_of data) = 4"
    and "hl = unat (IPV4_GET_IHL (ipv4_header_of data)) * 4" and "20 \<le> hl"
    and "tot = unat (ntoh16 (total_length (ipv4_header_of data)))" and "hl \<le> tot"
    and "tot \<le> length data"
  shows "ipv4_check data =
    (if be_sum (take hl data) mod 65535 = 0 \<and> ntoh16 (ip_checksum (ipv4_header_of data)) \<noteq> 0xFFFF
     then Some (ipv4_header_of data, take (tot - hl) (drop hl data)) else None)"
proof -
  let ?h = "ipv4_header_of data"
  let ?hz = "?h\<lparr>ip_checksum := 0\<rparr>"
  let ?ex = "take (hl - 20) (drop 20 data)"
  let ?S = "be_sum (ipv4_header_bytes ?hz) + be_sum ?ex"
  let ?c = "unat (ntoh16 (ip_checksum ?h))"
  have hl60: "hl - 20 \<le> 60"
    using unat_IHL_le [of ?h] assms(3) by simp
  have ev: "even (hl - 20)" using assms by simp
  have spl: "take hl data = take 20 data @ ?ex"
    using assms by (metis le_add_diff_inverse take_add)
  have sum: "be_sum (take hl data) = ?S + ?c"
    using be_sum_ipv4_header_bytes [of ?h] assms(1)
    unfolding bytes_of_ipv4_header_of [OF assms(1)] by (simp add: spl be_sum_append)
  have "version4_ihl4 ?h \<noteq> 0"
    using assms(2) by (auto simp: IPV4_GET_VERSION_def)
  then have pos: "0 < ?S"
    by (simp add: ipv4_header_bytes_def unat_gt_0)
  have "ip_checksum ?h = ipv4_checksum ?hz (drop 20 data) (hl - 20)
    \<longleftrightarrow> ?c = unat (ntoh16 (ipv4_checksum ?hz (drop 20 data) (hl - 20)))"
    by (simp add: unat_ntoh16_eq_iff)
  also have "\<dots> \<longleftrightarrow> ?c = 65535 - ones_fold ?S"
    using assms ev hl60 by (subst ipv4_checksum_eq) auto
  also have "\<dots> \<longleftrightarrow> be_sum (take hl data) mod 65535 = 0 \<and> ?c \<noteq> 65535"
    using checksum_field_iff [OF pos, of ?c] unat_u16_lt [of "ntoh16 (ip_checksum ?h)"] sum by simp
  finally have "ip_checksum ?h = ipv4_checksum ?hz (drop 20 data) (hl - 20) \<longleftrightarrow>
    be_sum (take hl data) mod 65535 = 0 \<and> ntoh16 (ip_checksum ?h) \<noteq> 0xFFFF"
    by (simp add: word_unat_eq_iff)
  then show ?thesis using assms
    by (simp add: ipv4_check_def Let_def sizeof_defs)
qed

text \<open>
  The same for UDP over IPv4: zeroing the checksum field, recomputing and comparing accepts
  exactly the segments whose one's complement sum is zero and whose checksum field is not
  \<open>0xFFFF\<close>.
\<close>

lemma udp_checksum_accepts:
  assumes "length pl \<le> 65527"
  shows "udp_cksum h = udp_checksum (h\<lparr>udp_cksum := 0\<rparr>) pl s d \<longleftrightarrow>
    udp_total_sum h pl (store32 s) (store32 d) mod 65535 = 0 \<and> ntoh16 (udp_cksum h) \<noteq> 0xFFFF"
proof -
  let ?hz = "h\<lparr>udp_cksum := 0\<rparr>"
  let ?S = "udp_total_sum ?hz pl (store32 s) (store32 d)"
  let ?c = "unat (ntoh16 (udp_cksum h))"
  have sum: "udp_total_sum h pl (store32 s) (store32 d) = ?S + ?c"
    using be_sum_udp_header_bytes [of h] by (simp add: udp_total_sum_def)
  have pos: "0 < ?S" by (simp add: udp_total_sum_def udp_pseudo_sum_def)
  have "udp_cksum h = udp_checksum ?hz pl s d \<longleftrightarrow> ?c = unat (ntoh16 (udp_checksum ?hz pl s d))"
    by (simp add: unat_ntoh16_eq_iff)
  also have "\<dots> \<longleftrightarrow> ?c = 65535 - ones_fold ?S"
    using assms by (simp add: udp_checksum_eq)
  also have "\<dots> \<longleftrightarrow> (?S + ?c) mod 65535 = 0 \<and> ?c \<noteq> 65535"
    using checksum_field_iff [OF pos, of ?c] unat_u16_lt [of "ntoh16 (udp_cksum h)"] by simp
  finally show ?thesis
    by (simp add: sum word_unat_eq_iff)
qed

end
