(* ===== verification/BAddr.thy ===== *)
theory BAddr
  imports NetProto "HOL-Library.List_Lexorder" "HOL-Library.Product_Lexorder"
begin

text \<open>
  Socket addresses: \<open>system/BAddr.h\<close>.  The tagged unions \<open>BIPAddr\<close> and \<open>BAddr\<close> are datatypes with
  one constructor per tag; addresses and ports are kept in network byte order, as in the code.
  The comparison that orders the connection trees is shown to be the three-way comparison of a
  lexicographic key, which gives the laws a search tree needs.
\<close>

section \<open>Addresses\<close>

datatype BIPAddr =
    BIP_NONE
  | BIP_IPV4 (bip_ipv4: u32)
  | BIP_IPV6 (bip_ipv6: bytes)

record packet_addr =
  phys_proto :: u16
  interface_index :: int
  header_type :: int
  packet_type :: int
  phys_addr :: bytes

datatype BAddr =
    BADDR_NONE
  | BADDR_IPV4 u32 u16
  | BADDR_IPV6 bytes u16
  | BADDR_PACKET packet_addr

definition baddr_type :: "BAddr \<Rightarrow> int" where
  "baddr_type a = (case a of BADDR_NONE \<Rightarrow> 0 | BADDR_IPV4 _ _ \<Rightarrow> 1 | BADDR_IPV6 _ _ \<Rightarrow> 2
                   | BADDR_PACKET _ \<Rightarrow> 5)"

definition bipaddr_type :: "BIPAddr \<Rightarrow> int" where
  "bipaddr_type a = (case a of BIP_NONE \<Rightarrow> 0 | BIP_IPV4 _ \<Rightarrow> 1 | BIP_IPV6 _ \<Rightarrow> 2)"

definition BIPAddr_IsInvalid :: "BIPAddr \<Rightarrow> bool" where
  "BIPAddr_IsInvalid a = (bipaddr_type a = 0)"

definition BIPAddr_Compare :: "BIPAddr \<Rightarrow> BIPAddr \<Rightarrow> bool" where
  "BIPAddr_Compare a b =
     (if bipaddr_type a \<noteq> bipaddr_type b then False
      else case (a, b) of
        (BIP_IPV4 x, BIP_IPV4 y) \<Rightarrow> x = y
      | (BIP_IPV6 x, BIP_IPV6 y) \<Rightarrow> x = y
      | _ \<Rightarrow> False)"

definition BAddr_MakeNone :: BAddr where
  "BAddr_MakeNone = BADDR_NONE"

definition BAddr_MakeIPv4 :: "u32 \<Rightarrow> u16 \<Rightarrow> BAddr" where
  "BAddr_MakeIPv4 ip port = BADDR_IPV4 ip port"

definition BAddr_MakeIPv6 :: "bytes \<Rightarrow> u16 \<Rightarrow> BAddr" where
  "BAddr_MakeIPv6 ip port = BADDR_IPV6 (take 16 ip) port"

definition BAddr_MakeFromIpaddrAndPort :: "BIPAddr \<Rightarrow> u16 \<Rightarrow> BAddr" where
  "BAddr_MakeFromIpaddrAndPort ipaddr port =
     (case ipaddr of
        BIP_NONE \<Rightarrow> BAddr_MakeNone
      | BIP_IPV4 ip \<Rightarrow> BAddr_MakeIPv4 ip port
      | BIP_IPV6 ip \<Rightarrow> BAddr_MakeIPv6 ip port)"

definition BAddr_IsInvalid :: "BAddr \<Rightarrow> bool" where
  "BAddr_IsInvalid a = (baddr_type a = 0)"

definition BAddr_GetPort :: "BAddr \<Rightarrow> u16 option" where
  "BAddr_GetPort a =
     (case a of BADDR_IPV4 _ port \<Rightarrow> Some port | BADDR_IPV6 _ port \<Rightarrow> Some port | _ \<Rightarrow> None)"

definition BAddr_GetIPAddr :: "BAddr \<Rightarrow> BIPAddr" where
  "BAddr_GetIPAddr a =
     (case a of BADDR_IPV4 ip _ \<Rightarrow> BIP_IPV4 ip | BADDR_IPV6 ip _ \<Rightarrow> BIP_IPV6 ip | _ \<Rightarrow> BIP_NONE)"

definition BAddr_SetPort :: "BAddr \<Rightarrow> u16 \<Rightarrow> BAddr option" where
  "BAddr_SetPort a port =
     (case a of
        BADDR_IPV4 ip _ \<Rightarrow> Some (BADDR_IPV4 ip port)
      | BADDR_IPV6 ip _ \<Rightarrow> Some (BADDR_IPV6 ip port)
      | _ \<Rightarrow> None)"

definition BAddr_Compare :: "BAddr \<Rightarrow> BAddr \<Rightarrow> bool" where
  "BAddr_Compare a b =
     (if baddr_type a \<noteq> baddr_type b then False
      else case (a, b) of
        (BADDR_IPV4 i p, BADDR_IPV4 j q) \<Rightarrow> i = j \<and> p = q
      | (BADDR_IPV6 i p, BADDR_IPV6 j q) \<Rightarrow> i = j \<and> p = q
      | _ \<Rightarrow> False)"

text \<open>The macro \<open>B_COMPARE\<close> of \<open>misc/compare.h\<close>.\<close>

definition B_COMPARE :: "'a::linorder \<Rightarrow> 'a \<Rightarrow> int" where
  "B_COMPARE a b = of_bool (a > b) - of_bool (a < b)"

text \<open>The sign of \<open>memcmp\<close> on two buffers of the same length, which is all the standard fixes of it.\<close>

fun memcmp :: "bytes \<Rightarrow> bytes \<Rightarrow> int" where
  "memcmp (x # xs) (y # ys) = (if x = y then memcmp xs ys else if x < y then -1 else 1)"
| "memcmp _ _ = 0"

definition BAddr_CompareOrder :: "BAddr \<Rightarrow> BAddr \<Rightarrow> int" where
  "BAddr_CompareOrder a b =
     (let cmp = B_COMPARE (baddr_type a) (baddr_type b) in
      if cmp \<noteq> 0 then cmp
      else case (a, b) of
        (BADDR_NONE, _) \<Rightarrow> 0
      | (BADDR_IPV4 i p, BADDR_IPV4 j q) \<Rightarrow>
          (let cmp = B_COMPARE (ntoh32 i) (ntoh32 j) in
           if cmp \<noteq> 0 then cmp else B_COMPARE (ntoh16 p) (ntoh16 q))
      | (BADDR_IPV6 i p, BADDR_IPV6 j q) \<Rightarrow>
          (let cmp = memcmp i j in
           if cmp \<noteq> 0 then B_COMPARE cmp 0 else B_COMPARE (ntoh16 p) (ntoh16 q))
      | _ \<Rightarrow> 0)"

section \<open>Well-formed addresses\<close>

text \<open>
  The C union stores exactly sixteen bytes of an IPv6 address; the data link addresses of packet
  sockets are never put into the trees.
\<close>

fun ip_wf :: "BAddr \<Rightarrow> bool" where
  "ip_wf BADDR_NONE = True"
| "ip_wf (BADDR_IPV4 _ _) = True"
| "ip_wf (BADDR_IPV6 ip _) = (length ip = 16)"
| "ip_wf (BADDR_PACKET _) = False"

lemma ip_wf_make [simp]:
  "ip_wf BAddr_MakeNone" "ip_wf (BAddr_MakeIPv4 i p)"
  "16 \<le> length ip \<Longrightarrow> ip_wf (BAddr_MakeIPv6 ip p)"
  by (simp_all add: BAddr_MakeNone_def BAddr_MakeIPv4_def BAddr_MakeIPv6_def)

lemmas make_addr_defs = BAddr_MakeNone_def BAddr_MakeIPv4_def BAddr_MakeIPv6_def

section \<open>The order of the connection trees\<close>

text \<open>The key that \<open>BAddr_CompareOrder\<close> compares lexicographically.\<close>

fun addr_key :: "BAddr \<Rightarrow> int \<times> nat list \<times> nat" where
  "addr_key BADDR_NONE = (0, [], 0)"
| "addr_key (BADDR_IPV4 ip port) = (1, [unat (ntoh32 ip)], unat (ntoh16 port))"
| "addr_key (BADDR_IPV6 ip port) = (2, map unat ip, unat (ntoh16 port))"
| "addr_key (BADDR_PACKET _) = (5, [], 0)"

lemma B_COMPARE_cases: "B_COMPARE a b = (if a < b then -1 else if a = b then 0 else 1)"
  by (auto simp: B_COMPARE_def)

lemma B_COMPARE_zero [simp]: "B_COMPARE a b = 0 \<longleftrightarrow> a = b"
  by (auto simp: B_COMPARE_cases)

lemma B_COMPARE_swap: "B_COMPARE b a = - B_COMPARE a b"
  by (auto simp: B_COMPARE_cases)

lemma B_COMPARE_neg: "B_COMPARE a b < 0 \<longleftrightarrow> a < b"
  by (auto simp: B_COMPARE_cases)

lemma B_COMPARE_unat: "B_COMPARE a b = B_COMPARE (unat a) (unat b)"
  by (simp add: B_COMPARE_cases word_less_nat_alt word_unat_eq_iff)

lemma B_COMPARE_pair:
  "B_COMPARE (a, b) (c, d) = (if a = c then B_COMPARE b d else B_COMPARE a c)"
  by (auto simp: B_COMPARE_cases less_prod_def')

lemma map_unat_eq [simp]: "map unat (xs :: bytes) = map unat ys \<longleftrightarrow> xs = ys"
  by (simp add: inj_map_eq_map inj_def word_unat_eq_iff)

lemma ntoh32_eq_iff [simp]: "ntoh32 x = ntoh32 y \<longleftrightarrow> x = y"
  by (metis hton32_involution ntoh32_def)

lemma ntoh16_eq_iff [simp]: "ntoh16 x = ntoh16 y \<longleftrightarrow> x = y"
  by (simp add: ntoh16_def)

lemma memcmp_zero [simp]: "length xs = length ys \<Longrightarrow> memcmp xs ys = 0 \<longleftrightarrow> xs = ys"
  by (induction xs ys rule: memcmp.induct) (auto simp: word_unat_eq_iff)

lemma memcmp_key:
  "length xs = length ys \<Longrightarrow>
   (if memcmp xs ys = 0 then 0 else B_COMPARE (memcmp xs ys) 0)
     = B_COMPARE (map unat xs) (map unat ys)"
  by (induction xs ys rule: memcmp.induct)
    (auto simp: B_COMPARE_cases word_unat_eq_iff word_less_nat_alt split: if_splits)

lemma CompareOrder_key:
  assumes "ip_wf a" and "ip_wf b"
  shows "BAddr_CompareOrder a b = B_COMPARE (addr_key a) (addr_key b)"
proof (cases "\<exists>i p j q. a = BADDR_IPV6 i p \<and> b = BADDR_IPV6 j q")
  case True
  then obtain i p j q where "a = BADDR_IPV6 i p" "b = BADDR_IPV6 j q" by blast
  moreover from this have "length i = length j" using assms by simp
  ultimately show ?thesis
    using memcmp_key [of i j]
    by (simp add: BAddr_CompareOrder_def baddr_type_def Let_def B_COMPARE_pair
        B_COMPARE_unat [of "ntoh16 p"] split: if_splits)
next
  case False
  with assms show ?thesis
    by (cases a; cases b)
      (simp_all add: BAddr_CompareOrder_def baddr_type_def Let_def B_COMPARE_pair
        B_COMPARE_unat [of "ntoh16 p" for p] B_COMPARE_unat [of "ntoh32 i" for i] B_COMPARE_cases
        word_unat_eq_iff [symmetric] word_less_nat_alt)
qed

lemma addr_key_inj: "ip_wf a \<Longrightarrow> ip_wf b \<Longrightarrow> addr_key a = addr_key b \<longleftrightarrow> a = b"
  by (cases a; cases b) (auto simp: ntoh16_def simp flip: word_unat_eq_iff)

text \<open>
  The contract of a key comparison that a balanced search tree relies on.
\<close>

locale comparator =
  fixes wf :: "'k \<Rightarrow> bool" and compare :: "'k \<Rightarrow> 'k \<Rightarrow> int"
  assumes compare_zero: "wf a \<Longrightarrow> wf b \<Longrightarrow> compare a b = 0 \<longleftrightarrow> a = b"
    and compare_swap: "wf a \<Longrightarrow> wf b \<Longrightarrow> compare b a = - compare a b"
    and compare_trans: "wf a \<Longrightarrow> wf b \<Longrightarrow> wf c \<Longrightarrow> compare a b < 0 \<Longrightarrow> compare b c < 0 \<Longrightarrow> compare a c < 0"
begin

lemma compare_total: "wf a \<Longrightarrow> wf b \<Longrightarrow> a \<noteq> b \<Longrightarrow> compare a b < 0 \<or> compare b a < 0"
  using compare_zero [of a b] compare_swap [of a b] by linarith

lemma compare_irrefl: "wf a \<Longrightarrow> \<not> compare a a < 0"
  using compare_zero [of a a] by simp

end

lemma CompareOrder_trans:
  assumes "ip_wf a" "ip_wf b" "ip_wf c"
    and "BAddr_CompareOrder a b < 0" "BAddr_CompareOrder b c < 0"
  shows "BAddr_CompareOrder a c < 0"
proof -
  have "addr_key a < addr_key b" and "addr_key b < addr_key c"
    using assms by (simp_all only: CompareOrder_key B_COMPARE_neg)
  then have "addr_key a < addr_key c" by (rule less_trans)
  then show ?thesis using assms by (simp only: CompareOrder_key B_COMPARE_neg)
qed

interpretation baddr: comparator ip_wf BAddr_CompareOrder
proof (unfold_locales, goal_cases)
  case (1 a b)
  then show ?case by (simp only: CompareOrder_key B_COMPARE_zero addr_key_inj)
next
  case (2 a b)
  then show ?case by (simp only: CompareOrder_key B_COMPARE_swap [of "addr_key a"])
next
  case (3 a b c)
  then show ?case by (rule CompareOrder_trans)
qed

lemma CompareOrder_agrees_Compare:
  "ip_wf a \<Longrightarrow> ip_wf b \<Longrightarrow> a \<noteq> BADDR_NONE \<Longrightarrow>
   BAddr_CompareOrder a b = 0 \<longleftrightarrow> BAddr_Compare a b"
  by (simp add: baddr.compare_zero)
    (cases a; cases b; auto simp: BAddr_Compare_def baddr_type_def)

end
