(* ===== verification/SocksClient.thy ===== *)
theory SocksClient
  imports BAddr "HOL-Library.Monad_Syntax" "HOL-Library.Sublist"
begin

text \<open>
  The SOCKS5 client: \<open>socksclient/BSocksClient.c\<close> with the messages of \<open>misc/socks_proto.h\<close>.

  A state holds the fields of \<open>BSocksClient\<close>, the allocated sub-objects, and the operations the
  client has outstanding on its connection: a packet being sent, or a receive into the rest of
  \<open>[recv_dest, recv_dest + recv_total)\<close>.  The bookkeeping fields record the events reported to the
  user and the bytes that crossed the connection.  \<^term>\<open>None\<close> is a failed assertion, a write
  outside the allocated buffer, or the release of something that is not allocated.  Sizes are
  at most \<open>2 + 255\<close>, \<open>3 + 255 + 255\<close> and \<open>22\<close>, so the overflow checks of \<open>bsize_t\<close> never fire.
\<close>

section \<open>Protocol constants\<close>

definition SOCKS_VERSION :: u8 where "SOCKS_VERSION = 5"

definition SOCKS_METHOD_NO_AUTHENTICATION_REQUIRED :: nat where
  "SOCKS_METHOD_NO_AUTHENTICATION_REQUIRED = 0"

definition SOCKS_METHOD_USERNAME_PASSWORD :: nat where "SOCKS_METHOD_USERNAME_PASSWORD = 2"

definition SOCKS_CMD_CONNECT :: u8 where "SOCKS_CMD_CONNECT = 1"

definition SOCKS_ATYP_IPV4 :: u8 where "SOCKS_ATYP_IPV4 = 1"

definition SOCKS_ATYP_IPV6 :: u8 where "SOCKS_ATYP_IPV6 = 4"

definition SOCKS_REP_SUCCEEDED :: u8 where "SOCKS_REP_SUCCEEDED = 0"

lemmas socks_defs = SOCKS_VERSION_def SOCKS_METHOD_NO_AUTHENTICATION_REQUIRED_def
  SOCKS_METHOD_USERNAME_PASSWORD_def SOCKS_CMD_CONNECT_def SOCKS_ATYP_IPV4_def SOCKS_ATYP_IPV6_def
  SOCKS_REP_SUCCEEDED_def

section \<open>State\<close>

datatype socks_event = EVENT_ERROR | EVENT_UP | EVENT_ERROR_CLOSED

datatype sc_phase =
    STATE_CONNECTING | STATE_SENDING_HELLO | STATE_SENT_HELLO | STATE_SENDING_PASSWORD
  | STATE_SENT_PASSWORD | STATE_SENDING_REQUEST | STATE_SENT_REQUEST | STATE_RECEIVED_REPLY_HEADER
  | STATE_UP

record BSocksClient_auth_info =
  auth_type :: nat
  ai_username :: bytes
  ai_password :: bytes

record BSocksClient =
  auth_info :: "BSocksClient_auth_info list"
  dest_addr :: BAddr
  sc_state :: sc_phase
  sc_buffer :: "bytes option"
  recv_dest :: nat
  recv_len :: nat
  recv_total :: nat
  connector_live :: bool
  con_live :: bool
  control_io :: bool
  up_io :: bool
  sending :: "bytes option"
  receiving :: "nat option"
  reported :: "socks_event list"
  out_bytes :: bytes
  in_bytes :: bytes

text \<open>The environment of a handler: allocation results and the contents of fresh memory.\<close>

record sc_env =
  alloc_ok :: bool
  sc_junk :: "nat \<Rightarrow> u8"
  con_init_ok :: bool

definition report_error :: "socks_event \<Rightarrow> BSocksClient \<Rightarrow> BSocksClient" where
  "report_error e s = s\<lparr>reported := reported s @ [e]\<rparr>"

section \<open>Sub-objects and buffer\<close>

definition init_control_io :: "BSocksClient \<Rightarrow> BSocksClient option" where
  "init_control_io s =
     ASSERT (con_live s \<and> \<not> control_io s \<and> \<not> up_io s)
       (Some (s\<lparr>control_io := True, sending := None, receiving := None\<rparr>))"

definition free_control_io :: "BSocksClient \<Rightarrow> BSocksClient option" where
  "free_control_io s =
     ASSERT (con_live s \<and> control_io s)
       (Some (s\<lparr>control_io := False, sending := None, receiving := None\<rparr>))"

definition init_up_io :: "BSocksClient \<Rightarrow> BSocksClient option" where
  "init_up_io s = ASSERT (con_live s \<and> \<not> control_io s \<and> \<not> up_io s) (Some (s\<lparr>up_io := True\<rparr>))"

definition free_up_io :: "BSocksClient \<Rightarrow> BSocksClient option" where
  "free_up_io s = ASSERT (con_live s \<and> up_io s) (Some (s\<lparr>up_io := False\<rparr>))"

definition BConnection_Free :: "BSocksClient \<Rightarrow> BSocksClient option" where
  "BConnection_Free s =
     ASSERT (con_live s \<and> \<not> control_io s \<and> \<not> up_io s) (Some (s\<lparr>con_live := False\<rparr>))"

text \<open>\<open>BRealloc\<close> keeps what fits of the old contents; the rest is whatever the memory held.\<close>

definition reserve_buffer :: "sc_env \<Rightarrow> nat \<Rightarrow> BSocksClient \<Rightarrow> (bool \<times> BSocksClient)" where
  "reserve_buffer env sz s =
     (if \<not> alloc_ok env then (False, s)
      else let old = (case sc_buffer s of None \<Rightarrow> [] | Some b \<Rightarrow> b)
           in (True, s\<lparr>sc_buffer := Some (take sz old @ map (sc_junk env) [length old..<sz])\<rparr>))"

text \<open>\<open>memcpy\<close> into the buffer, which must lie inside it.\<close>

definition buffer_write :: "nat \<Rightarrow> bytes \<Rightarrow> BSocksClient \<Rightarrow> BSocksClient option" where
  "buffer_write off d s =
     (case sc_buffer s of
        None \<Rightarrow> None
      | Some b \<Rightarrow>
          ASSERT (off + length d \<le> length b)
            (Some (s\<lparr>sc_buffer := Some (take off b @ d @ drop (off + length d) b)\<rparr>)))"

definition buffer_read :: "nat \<Rightarrow> nat \<Rightarrow> BSocksClient \<Rightarrow> bytes option" where
  "buffer_read off n s =
     (case sc_buffer s of
        None \<Rightarrow> None
      | Some b \<Rightarrow> ASSERT (off + n \<le> length b) (Some (take n (drop off b))))"

definition sender_send :: "nat \<Rightarrow> BSocksClient \<Rightarrow> BSocksClient option" where
  "sender_send n s =
     ASSERT (control_io s \<and> sending s = None)
       (do { p \<leftarrow> buffer_read 0 n s; Some (s\<lparr>sending := Some p\<rparr>) })"

definition do_receive :: "BSocksClient \<Rightarrow> BSocksClient option" where
  "do_receive s =
     ASSERT (recv_len s < recv_total s) (
     ASSERT (control_io s \<and> receiving s = None) (
     ASSERT (case sc_buffer s of None \<Rightarrow> False | Some b \<Rightarrow> recv_dest s + recv_total s \<le> length b) (
     Some (s\<lparr>receiving := Some (recv_total s - recv_len s)\<rparr>))))"

definition start_receive :: "nat \<Rightarrow> nat \<Rightarrow> BSocksClient \<Rightarrow> BSocksClient option" where
  "start_receive dest tot s =
     ASSERT (0 < tot) (do_receive (s\<lparr>recv_dest := dest, recv_len := 0, recv_total := tot\<rparr>))"

section \<open>Handlers\<close>

definition auth_finished :: "sc_env \<Rightarrow> BSocksClient \<Rightarrow> BSocksClient option" where
  "auth_finished env s =
     (let size1 = 4 + (case dest_addr s of BADDR_IPV4 _ _ \<Rightarrow> 6 | BADDR_IPV6 _ _ \<Rightarrow> 18 | _ \<Rightarrow> 0);
          (ok, s) = reserve_buffer env size1 s in
      if \<not> ok then Some (report_error EVENT_ERROR s)
      else do { (atyp, s) \<leftarrow> (case dest_addr s of
                  BADDR_IPV4 ip port \<Rightarrow>
                    do { s \<leftarrow> buffer_write 4 (store32 ip @ store16 port) s; Some (hton8 SOCKS_ATYP_IPV4, s) }
                | BADDR_IPV6 ip port \<Rightarrow>
                    do { s \<leftarrow> buffer_write 4 (ip @ store16 port) s; Some (hton8 SOCKS_ATYP_IPV6, s) }
                | _ \<Rightarrow> None);
                s \<leftarrow> buffer_write 0 [hton8 SOCKS_VERSION, hton8 SOCKS_CMD_CONNECT, hton8 0, atyp] s;
                s \<leftarrow> sender_send size1 s;
                Some (s\<lparr>sc_state := STATE_SENDING_REQUEST\<rparr>) })"

text \<open>The loop that writes the methods of the hello message, from index \<open>i\<close> on.\<close>

fun write_methods :: "nat \<Rightarrow> BSocksClient_auth_info list \<Rightarrow> BSocksClient \<Rightarrow> BSocksClient option" where
  "write_methods i [] s = Some s"
| "write_methods i (a # as) s =
     do { s \<leftarrow> buffer_write (2 + i) [hton8 (word_of_nat (auth_type a))] s; write_methods (i + 1) as s }"

definition connector_handler :: "sc_env \<Rightarrow> bool \<Rightarrow> BSocksClient \<Rightarrow> BSocksClient option" where
  "connector_handler env is_error s =
     ASSERT (sc_state s = STATE_CONNECTING) (
     if is_error then Some (report_error EVENT_ERROR s)
     else if \<not> con_init_ok env then Some (report_error EVENT_ERROR s)
     else do { s \<leftarrow> ASSERT (\<not> con_live s) (Some (s\<lparr>con_live := True\<rparr>));
               s \<leftarrow> init_control_io s;
               let num_auth_info = length (auth_info s);
               let size1 = 2 + num_auth_info;
               let (ok, s) = (if num_auth_info = 0 \<or> 255 < num_auth_info then (False, s)
                              else reserve_buffer env size1 s);
               if \<not> ok
               then do { s \<leftarrow> free_control_io s;
                         s \<leftarrow> BConnection_Free s;
                         Some (report_error EVENT_ERROR s) }
               else do { s \<leftarrow> buffer_write 0 [hton8 SOCKS_VERSION, hton8 (word_of_nat num_auth_info)] s;
                         s \<leftarrow> write_methods 0 (auth_info s) s;
                         s \<leftarrow> sender_send size1 s;
                         Some (s\<lparr>sc_state := STATE_SENDING_HELLO\<rparr>) } })"

definition connection_handler :: "bool \<Rightarrow> BSocksClient \<Rightarrow> BSocksClient option" where
  "connection_handler recv_closed s =
     ASSERT (sc_state s \<noteq> STATE_CONNECTING) (
     if sc_state s = STATE_UP \<and> recv_closed then Some (report_error EVENT_ERROR_CLOSED s)
     else Some (report_error EVENT_ERROR s))"

definition password_packet :: "BSocksClient_auth_info \<Rightarrow> bytes" where
  "password_packet ai =
     [1, word_of_nat (length (ai_username ai))] @ ai_username ai @
     [word_of_nat (length (ai_password ai))] @ ai_password ai"

definition received_hello :: "sc_env \<Rightarrow> BSocksClient \<Rightarrow> BSocksClient option" where
  "received_hello env s =
     do { imsg \<leftarrow> buffer_read 0 2 s;
          if ntoh8 (imsg ! 0) \<noteq> SOCKS_VERSION then Some (report_error EVENT_ERROR s)
          else (case find (\<lambda>a. auth_type a = unat (ntoh8 (imsg ! 1))) (auth_info s) of
            None \<Rightarrow> Some (report_error EVENT_ERROR s)
          | Some ai \<Rightarrow>
              if auth_type ai = SOCKS_METHOD_NO_AUTHENTICATION_REQUIRED then auth_finished env s
              else if auth_type ai = SOCKS_METHOD_USERNAME_PASSWORD
              then if length (ai_username ai) = 0 \<or> 255 < length (ai_username ai) \<or>
                      length (ai_password ai) = 0 \<or> 255 < length (ai_password ai)
                   then Some (report_error EVENT_ERROR s)
                   else let size1 = 1 + 1 + length (ai_username ai) + 1 + length (ai_password ai);
                            (ok, s) = reserve_buffer env size1 s in
                        if \<not> ok then Some (report_error EVENT_ERROR s)
                        else do { s \<leftarrow> buffer_write 0 (password_packet ai) s;
                                  s \<leftarrow> sender_send size1 s;
                                  Some (s\<lparr>sc_state := STATE_SENDING_PASSWORD\<rparr>) }
              else None) }"

definition received_reply_header :: "BSocksClient \<Rightarrow> BSocksClient option" where
  "received_reply_header s =
     do { imsg \<leftarrow> buffer_read 0 4 s;
          if ntoh8 (imsg ! 0) \<noteq> SOCKS_VERSION then Some (report_error EVENT_ERROR s)
          else if ntoh8 (imsg ! 1) \<noteq> SOCKS_REP_SUCCEEDED then Some (report_error EVENT_ERROR s)
          else if ntoh8 (imsg ! 3) = SOCKS_ATYP_IPV4
          then do { s \<leftarrow> start_receive 4 6 s; Some (s\<lparr>sc_state := STATE_RECEIVED_REPLY_HEADER\<rparr>) }
          else if ntoh8 (imsg ! 3) = SOCKS_ATYP_IPV6
          then do { s \<leftarrow> start_receive 4 18 s; Some (s\<lparr>sc_state := STATE_RECEIVED_REPLY_HEADER\<rparr>) }
          else Some (report_error EVENT_ERROR s) }"

text \<open>The switch on the state, when the expected number of bytes has arrived.\<close>

definition recv_message :: "sc_env \<Rightarrow> BSocksClient \<Rightarrow> BSocksClient option" where
  "recv_message env s =
     (case sc_state s of
         STATE_SENT_HELLO \<Rightarrow> received_hello env s
       | STATE_SENT_REQUEST \<Rightarrow> received_reply_header s
       | STATE_SENT_PASSWORD \<Rightarrow>
           do { b \<leftarrow> buffer_read 0 2 s;
                if b ! 0 \<noteq> 1 then Some (report_error EVENT_ERROR s)
                else if b ! 1 \<noteq> 0 then Some (report_error EVENT_ERROR s)
                else auth_finished env s }
       | STATE_RECEIVED_REPLY_HEADER \<Rightarrow>
           do { let s = s\<lparr>sc_buffer := None\<rparr>;
                s \<leftarrow> free_control_io s;
                s \<leftarrow> init_up_io s;
                let s = s\<lparr>sc_state := STATE_UP\<rparr>;
                Some (s\<lparr>reported := reported s @ [EVENT_UP]\<rparr>) }
       | _ \<Rightarrow> None)"

definition recv_handler_done :: "sc_env \<Rightarrow> nat \<Rightarrow> BSocksClient \<Rightarrow> BSocksClient option" where
  "recv_handler_done env data_len s =
     ASSERT (data_len \<le> recv_total s - recv_len s) (
     let s = s\<lparr>recv_len := recv_len s + data_len\<rparr> in
     if recv_len s < recv_total s then do_receive s
     else recv_message env s)"

definition send_handler_done :: "sc_env \<Rightarrow> BSocksClient \<Rightarrow> BSocksClient option" where
  "send_handler_done env s =
     ASSERT (sc_buffer s \<noteq> None) (
     case sc_state s of
       STATE_SENDING_HELLO \<Rightarrow>
         (let (ok, s) = reserve_buffer env 2 s in
          if \<not> ok then Some (report_error EVENT_ERROR s)
          else do { s \<leftarrow> start_receive 0 2 s; Some (s\<lparr>sc_state := STATE_SENT_HELLO\<rparr>) })
     | STATE_SENDING_REQUEST \<Rightarrow>
         (let (ok, s) = reserve_buffer env (4 + max 6 18) s in
          if \<not> ok then Some (report_error EVENT_ERROR s)
          else do { s \<leftarrow> start_receive 0 4 s; Some (s\<lparr>sc_state := STATE_SENT_REQUEST\<rparr>) })
     | STATE_SENDING_PASSWORD \<Rightarrow>
         (let (ok, s) = reserve_buffer env 2 s in
          if \<not> ok then Some (report_error EVENT_ERROR s)
          else do { s \<leftarrow> start_receive 0 2 s; Some (s\<lparr>sc_state := STATE_SENT_PASSWORD\<rparr>) })
     | _ \<Rightarrow> None)"

definition BSocksClient_auth_none :: BSocksClient_auth_info where
  "BSocksClient_auth_none =
     \<lparr>auth_type = SOCKS_METHOD_NO_AUTHENTICATION_REQUIRED, ai_username = [], ai_password = []\<rparr>"

definition BSocksClient_auth_password :: "bytes \<Rightarrow> bytes \<Rightarrow> BSocksClient_auth_info" where
  "BSocksClient_auth_password username password =
     \<lparr>auth_type = SOCKS_METHOD_USERNAME_PASSWORD, ai_username = username, ai_password = password\<rparr>"

text \<open>\<open>BSocksClient_Init\<close>; the flag says whether \<open>BConnector_Init\<close> succeeds.\<close>

definition BSocksClient_Init ::
    "bool \<Rightarrow> BAddr \<Rightarrow> BSocksClient_auth_info list \<Rightarrow> BAddr \<Rightarrow> BSocksClient option option" where
  "BSocksClient_Init connector_ok server_addr ai dest =
     ASSERT (\<not> BAddr_IsInvalid server_addr) (
     ASSERT (baddr_type dest = 1 \<or> baddr_type dest = 2) (
     ASSERT (\<forall>a\<in>set ai. auth_type a = SOCKS_METHOD_NO_AUTHENTICATION_REQUIRED \<or>
                          auth_type a = SOCKS_METHOD_USERNAME_PASSWORD) (
     if \<not> connector_ok then Some None
     else Some (Some
       \<lparr>auth_info = ai, dest_addr = dest, sc_state = STATE_CONNECTING, sc_buffer = None, recv_dest = 0,
        recv_len = 0, recv_total = 0, connector_live = True, con_live = False, control_io = False,
        up_io = False, sending = None, receiving = None, reported = [], out_bytes = [], in_bytes = []\<rparr>))))"

definition BSocksClient_Free :: "BSocksClient \<Rightarrow> BSocksClient option" where
  "BSocksClient_Free s =
     do { s \<leftarrow> (if sc_state s \<noteq> STATE_CONNECTING
               then do { s \<leftarrow> (if sc_state s = STATE_UP then free_up_io s else free_control_io s);
                         BConnection_Free s }
               else Some s);
          s \<leftarrow> ASSERT (connector_live s) (Some (s\<lparr>connector_live := False\<rparr>));
          Some (s\<lparr>sc_buffer := None\<rparr>) }"

section \<open>Runs\<close>

text \<open>
  What the connection may do: report the result of connecting, complete the outstanding send or a
  part of the outstanding receive, or fail.  Nothing happens after an error was reported, because
  the user must free the object in the job closure of the handler.
\<close>

datatype sc_input =
    Connected bool
  | ConEvent bool
  | SentAll
  | Arrived bytes

definition running :: "BSocksClient \<Rightarrow> bool" where
  "running s \<longleftrightarrow> reported s = [] \<or> reported s = [EVENT_UP]"

fun sc_enabled :: "sc_input \<Rightarrow> BSocksClient \<Rightarrow> bool" where
  "sc_enabled (Connected e) s = (running s \<and> sc_state s = STATE_CONNECTING)"
| "sc_enabled (ConEvent c) s = (running s \<and> con_live s)"
| "sc_enabled SentAll s = (running s \<and> control_io s \<and> sending s \<noteq> None)"
| "sc_enabled (Arrived d) s =
     (running s \<and> control_io s \<and> d \<noteq> [] \<and>
      (case receiving s of None \<Rightarrow> False | Some n \<Rightarrow> length d \<le> n))"

fun sc_run :: "sc_env \<Rightarrow> sc_input \<Rightarrow> BSocksClient \<Rightarrow> BSocksClient option" where
  "sc_run env (Connected e) s = connector_handler env e s"
| "sc_run env (ConEvent c) s = connection_handler c s"
| "sc_run env SentAll s =
     send_handler_done env (s\<lparr>sending := None, out_bytes := out_bytes s @ the (sending s)\<rparr>)"
| "sc_run env (Arrived d) s =
     do { s \<leftarrow> buffer_write (recv_dest s + recv_len s) d s;
          recv_handler_done env (length d) (s\<lparr>receiving := None, in_bytes := in_bytes s @ d\<rparr>) }"

definition sc_init :: "BSocksClient \<Rightarrow> bool" where
  "sc_init s \<longleftrightarrow> (\<exists>addr ai dest. BSocksClient_Init True addr ai dest = Some (Some s) \<and> ip_wf dest)"

inductive sc_step :: "BSocksClient \<Rightarrow> BSocksClient \<Rightarrow> bool" where
  "sc_enabled i s \<Longrightarrow> sc_run env i s = Some t \<Longrightarrow> sc_step s t"

section \<open>The dialogue\<close>

text \<open>What the protocol asks the client to send, and the answers that let it go on.\<close>

definition hello_msg :: "BSocksClient_auth_info list \<Rightarrow> bytes" where
  "hello_msg ai = [5, word_of_nat (length ai)] @ map (\<lambda>a. word_of_nat (auth_type a)) ai"

definition addr_msg :: "BAddr \<Rightarrow> bytes" where
  "addr_msg a = (case a of
     BADDR_IPV4 ip port \<Rightarrow> [1] @ store32 ip @ store16 port
   | BADDR_IPV6 ip port \<Rightarrow> [4] @ ip @ store16 port
   | _ \<Rightarrow> [])"

definition request_msg :: "BAddr \<Rightarrow> bytes" where
  "request_msg a = [5, 1, 0] @ addr_msg a"

definition auth_choice :: "BSocksClient_auth_info list \<Rightarrow> u8 \<Rightarrow> BSocksClient_auth_info option" where
  "auth_choice ai m = find (\<lambda>a. auth_type a = unat m) ai"

definition auth_dialogue :: "BSocksClient_auth_info list \<Rightarrow> bytes \<Rightarrow> bytes \<Rightarrow> bool" where
  "auth_dialogue ai snt rcv \<longleftrightarrow>
     (\<exists>m a. auth_choice ai m = Some a \<and>
        (auth_type a = 0 \<and> snt = hello_msg ai \<and> rcv = [5, m] \<or>
         auth_type a = 2 \<and> snt = hello_msg ai @ password_packet a \<and> rcv = [5, m, 1, 0]))"

definition reply_header_ok :: "bytes \<Rightarrow> bool" where
  "reply_header_ok h \<longleftrightarrow> length h = 4 \<and> h ! 0 = 5 \<and> h ! 1 = 0 \<and> (h ! 3 = 1 \<or> h ! 3 = 4)"

definition reply_rest :: "bytes \<Rightarrow> nat" where
  "reply_rest h = (if h ! 3 = 1 then 6 else 18)"

definition handshake :: "BSocksClient_auth_info list \<Rightarrow> BAddr \<Rightarrow> bytes \<Rightarrow> bytes \<Rightarrow> bool" where
  "handshake ai dest snt rcv \<longleftrightarrow>
     (\<exists>s r h x. auth_dialogue ai s r \<and> snt = s @ request_msg dest \<and> rcv = r @ h @ x \<and>
        reply_header_ok h \<and> length x = reply_rest h)"

section \<open>Invariant\<close>

definition sc_static :: "BSocksClient \<Rightarrow> bool" where
  "sc_static s \<longleftrightarrow>
     connector_live s \<and> (baddr_type (dest_addr s) = 1 \<or> baddr_type (dest_addr s) = 2) \<and>
     ip_wf (dest_addr s) \<and> (\<forall>a\<in>set (auth_info s). auth_type a = 0 \<or> auth_type a = 2)"

definition sc_io :: "BSocksClient \<Rightarrow> bool" where
  "sc_io s \<longleftrightarrow>
     con_live s = (sc_state s \<noteq> STATE_CONNECTING) \<and>
     control_io s = (sc_state s \<noteq> STATE_CONNECTING \<and> sc_state s \<noteq> STATE_UP) \<and>
     up_io s = (sc_state s = STATE_UP)"

definition event_order :: "socks_event list \<Rightarrow> bool" where
  "event_order es \<longleftrightarrow>
     es \<in> {[], [EVENT_UP], [EVENT_ERROR], [EVENT_UP, EVENT_ERROR], [EVENT_UP, EVENT_ERROR_CLOSED]}"

definition sc_events :: "BSocksClient \<Rightarrow> bool" where
  "sc_events s \<longleftrightarrow>
     event_order (reported s) \<and> (EVENT_UP \<in> set (reported s) \<longleftrightarrow> sc_state s = STATE_UP) \<and>
     (sc_state s = STATE_UP \<longrightarrow> handshake (auth_info s) (dest_addr s) (out_bytes s) (in_bytes s))"

definition sending_msg :: "bytes \<Rightarrow> BSocksClient \<Rightarrow> bool" where
  "sending_msg m s \<longleftrightarrow> sending s = Some m \<and> receiving s = None \<and> sc_buffer s \<noteq> None"

definition receiving_msg :: "nat \<Rightarrow> nat \<Rightarrow> bytes \<Rightarrow> BSocksClient \<Rightarrow> bool" where
  "receiving_msg dest tot pre s \<longleftrightarrow>
     (\<exists>b. sc_buffer s = Some b \<and> dest + tot \<le> length b \<and> recv_dest s = dest \<and> recv_total s = tot \<and>
        recv_len s < tot \<and> sending s = None \<and> receiving s = Some (tot - recv_len s) \<and>
        in_bytes s = pre @ take (recv_len s) (drop dest b))"

definition sc_phase_inv :: "BSocksClient \<Rightarrow> bool" where
  "sc_phase_inv s \<longleftrightarrow>
     (case sc_state s of
        STATE_CONNECTING \<Rightarrow> out_bytes s = [] \<and> in_bytes s = []
      | STATE_SENDING_HELLO \<Rightarrow>
          sending_msg (hello_msg (auth_info s)) s \<and> out_bytes s = [] \<and> in_bytes s = []
      | STATE_SENT_HELLO \<Rightarrow> receiving_msg 0 2 [] s \<and> out_bytes s = hello_msg (auth_info s)
      | STATE_SENDING_PASSWORD \<Rightarrow>
          (\<exists>m a. auth_choice (auth_info s) m = Some a \<and> auth_type a = 2 \<and>
             sending_msg (password_packet a) s \<and> out_bytes s = hello_msg (auth_info s) \<and> in_bytes s = [5, m])
      | STATE_SENT_PASSWORD \<Rightarrow>
          (\<exists>m a. auth_choice (auth_info s) m = Some a \<and> auth_type a = 2 \<and>
             receiving_msg 0 2 [5, m] s \<and> out_bytes s = hello_msg (auth_info s) @ password_packet a)
      | STATE_SENDING_REQUEST \<Rightarrow>
          sending_msg (request_msg (dest_addr s)) s \<and>
          auth_dialogue (auth_info s) (out_bytes s) (in_bytes s)
      | STATE_SENT_REQUEST \<Rightarrow>
          (\<exists>o1 i1. auth_dialogue (auth_info s) o1 i1 \<and> out_bytes s = o1 @ request_msg (dest_addr s) \<and>
             receiving_msg 0 4 i1 s \<and> length (the (sc_buffer s)) = 22)
      | STATE_RECEIVED_REPLY_HEADER \<Rightarrow>
          (\<exists>o1 i1 h. auth_dialogue (auth_info s) o1 i1 \<and> out_bytes s = o1 @ request_msg (dest_addr s) \<and>
             reply_header_ok h \<and> receiving_msg 4 (reply_rest h) (i1 @ h) s)
      | STATE_UP \<Rightarrow> True)"

definition sc_inv :: "BSocksClient \<Rightarrow> bool" where
  "sc_inv s \<longleftrightarrow> sc_static s \<and> sc_io s \<and> sc_events s \<and> (running s \<longrightarrow> sc_phase_inv s)"

section \<open>Preservation\<close>

lemma hton8_id [simp]: "hton8 x = x" "ntoh8 x = x"
  by (simp_all add: hton8_def ntoh8_def)

lemma reserve_ok:
  "alloc_ok env \<Longrightarrow> \<exists>b. reserve_buffer env n s = (True, s\<lparr>sc_buffer := Some b\<rparr>) \<and> length b = n"
  by (auto simp: reserve_buffer_def Let_def split: option.splits)

lemma reserve_fail: "\<not> alloc_ok env \<Longrightarrow> reserve_buffer env n s = (False, s)"
  by (simp add: reserve_buffer_def)

lemma report_inv:
  assumes "sc_static s" "sc_io s" "running s" "sc_events s" "e = EVENT_ERROR \<or> e = EVENT_ERROR_CLOSED \<and> sc_state s = STATE_UP"
  shows "sc_inv (report_error e s)"
  using assms
  by (auto simp: sc_inv_def report_error_def sc_static_def sc_io_def sc_events_def running_def event_order_def)

lemma write_methods_ok:
  assumes "sc_buffer s = Some b" and "2 + i + length as = length b"
  shows "write_methods i as s =
    Some (s\<lparr>sc_buffer := Some (take (2 + i) b @ map (\<lambda>a. word_of_nat (auth_type a)) as)\<rparr>)"
  using assms
proof (induction as arbitrary: i s b)
  case Nil
  then show ?case by simp
next
  case (Cons a as)
  let ?b = "take (2 + i) b @ word_of_nat (auth_type a) # drop (2 + i + 1) b"
  have "buffer_write (2 + i) [hton8 (word_of_nat (auth_type a))] s = Some (s\<lparr>sc_buffer := Some ?b\<rparr>)"
    using Cons.prems by (simp add: buffer_write_def)
  moreover have "write_methods (i + 1) as (s\<lparr>sc_buffer := Some ?b\<rparr>) =
      Some (s\<lparr>sc_buffer := Some (take (2 + (i + 1)) ?b @ map (\<lambda>a. word_of_nat (auth_type a)) as)\<rparr>)"
    using Cons.IH [where s = "s\<lparr>sc_buffer := Some ?b\<rparr>" and b = ?b and i = "i + 1"] Cons.prems by simp
  moreover have "take (2 + (i + 1)) ?b = take (2 + i) b @ [word_of_nat (auth_type a)]"
    using Cons.prems by (simp add: min_def)
  ultimately show ?case by simp
qed

lemma start_receive_ok:
  assumes "sc_buffer s = Some b" and "dest + tot \<le> length b" and "0 < tot" and "control_io s"
    and "receiving s = None" and "sending s = None"
  shows "\<exists>t. start_receive dest tot s = Some t \<and>
    t = s\<lparr>recv_dest := dest, recv_len := 0, recv_total := tot, receiving := Some tot\<rparr> \<and>
    receiving_msg dest tot (in_bytes s) t"
  using assms by (simp add: start_receive_def do_receive_def receiving_msg_def)


text \<open>A step ends well: it goes through and keeps the invariant.\<close>

definition ends_well :: "BSocksClient option \<Rightarrow> bool" where
  "ends_well r \<longleftrightarrow> (\<exists>t. r = Some t \<and> sc_inv t)"

lemma ends_well_report:
  "sc_static s \<Longrightarrow> sc_io s \<Longrightarrow> running s \<Longrightarrow> sc_events s \<Longrightarrow> ends_well (Some (report_error EVENT_ERROR s))"
  by (simp add: ends_well_def report_inv)

lemma connector_ok:
  assumes inv: "sc_inv s" and en: "sc_enabled (Connected e) s"
  shows "ends_well (sc_run env (Connected e) s)"
proof -
  have s: "sc_static s" "sc_io s" "sc_events s" "running s" "sc_state s = STATE_CONNECTING"
    using inv en by (auto simp: sc_inv_def)
  have io: "\<not> con_live s" "\<not> control_io s" "\<not> up_io s" "out_bytes s = []" "in_bytes s = []"
    using inv s by (simp_all add: sc_inv_def sc_io_def sc_phase_inv_def)
  have rep: "ends_well (Some (report_error EVENT_ERROR s))"
    using s by (simp add: ends_well_report)
  let ?n = "length (auth_info s)"
  let ?s1 = "s\<lparr>con_live := True, control_io := True, sending := None, receiving := None\<rparr>"
  let ?s2 = "s\<lparr>control_io := False, sending := None, receiving := None, con_live := False\<rparr>"
  have rep2: "ends_well (Some (report_error EVENT_ERROR ?s2))"
    using s io by (intro ends_well_report) (simp_all add: sc_static_def sc_io_def running_def sc_events_def)
  show ?thesis
  proof (cases "e \<or> \<not> con_init_ok env")
    case True
    with s(5) rep show ?thesis by (auto simp: connector_handler_def)
  next
    case ok: False
    show ?thesis
    proof (cases "?n = 0 \<or> 255 < ?n \<or> \<not> alloc_ok env")
      case True
      then have "sc_run env (Connected e) s = Some (report_error EVENT_ERROR ?s2)"
        using ok s io
        by (auto simp: connector_handler_def init_control_io_def free_control_io_def BConnection_Free_def
            reserve_fail Let_def)
      with rep2 show ?thesis by simp
    next
      case False
      obtain b where b: "reserve_buffer env (2 + ?n) ?s1 = (True, ?s1\<lparr>sc_buffer := Some b\<rparr>)" "length b = 2 + ?n"
        using reserve_ok [of env "2 + ?n" ?s1] False by auto
      let ?b1 = "[5, word_of_nat ?n] @ drop (Suc (Suc 0)) b"
      let ?s3 = "?s1\<lparr>sc_buffer := Some ?b1\<rparr>"
      let ?s4 = "?s1\<lparr>sc_buffer := Some (hello_msg (auth_info s)), sending := Some (hello_msg (auth_info s)),
        sc_state := STATE_SENDING_HELLO\<rparr>"
      have "write_methods 0 (auth_info s) ?s3 = Some (?s1\<lparr>sc_buffer := Some (hello_msg (auth_info s))\<rparr>)"
        using b(2) by (subst write_methods_ok [where b = ?b1]) (simp_all add: hello_msg_def)
      then have "sc_run env (Connected e) s = Some ?s4"
        using ok s io b False
        by (simp add: connector_handler_def init_control_io_def Let_def buffer_write_def socks_defs
            sender_send_def buffer_read_def hello_msg_def)
      moreover have "sc_inv ?s4"
        using s io by (simp add: sc_inv_def sc_static_def sc_io_def sc_events_def sc_phase_inv_def sending_msg_def)
      ultimately show ?thesis by (simp add: ends_well_def)
    qed
  qed
qed

lemma con_event_ok:
  assumes inv: "sc_inv s" and en: "sc_enabled (ConEvent c) s"
  shows "ends_well (sc_run env (ConEvent c) s)"
proof -
  have "sc_static s" "sc_io s" "sc_events s" "running s" "sc_state s \<noteq> STATE_CONNECTING"
    using inv en by (auto simp: sc_inv_def sc_io_def)
  then show ?thesis
    by (auto simp: connection_handler_def ends_well_def report_inv)
qed

lemma recv_phase_ok:
  assumes st: "sc_static s" "sc_events s" "running s" "con_live s" "control_io s" "\<not> up_io s"
    and ph: "sc_state s \<notin> {STATE_CONNECTING, STATE_UP}" "ph \<notin> {STATE_CONNECTING, STATE_UP}"
    and idle: "sending s = None" "receiving s = None"
    and nx: "\<And>b. length b = n \<Longrightarrow>
      sc_phase_inv (s\<lparr>sc_buffer := Some b, recv_dest := 0, recv_len := 0, recv_total := tot,
        receiving := Some tot, sc_state := ph\<rparr>)"
    and tot: "0 < tot" "tot \<le> n"
  shows "ends_well (let (ok, s) = reserve_buffer env n s in
          if \<not> ok then Some (report_error EVENT_ERROR s)
          else do { s \<leftarrow> start_receive 0 tot s; Some (s\<lparr>sc_state := ph\<rparr>) })"
proof (cases "alloc_ok env")
  case False
  moreover have "sc_io s" using st ph by (auto simp: sc_io_def)
  ultimately show ?thesis using st by (simp add: reserve_fail ends_well_report)
next
  case True
  then obtain b where b: "reserve_buffer env n s = (True, s\<lparr>sc_buffer := Some b\<rparr>)" "length b = n"
    using reserve_ok by blast
  let ?t = "s\<lparr>sc_buffer := Some b, recv_dest := 0, recv_len := 0, recv_total := tot,
        receiving := Some tot, sc_state := ph\<rparr>"
  have "sc_inv ?t"
    using st ph nx [OF b(2)] by (auto simp: sc_inv_def sc_static_def sc_io_def sc_events_def running_def)
  moreover have "start_receive 0 tot (s\<lparr>sc_buffer := Some b\<rparr>) =
      Some (s\<lparr>sc_buffer := Some b, recv_dest := 0, recv_len := 0, recv_total := tot, receiving := Some tot\<rparr>)"
    using b(2) tot idle st by (simp add: start_receive_def do_receive_def)
  ultimately show ?thesis using b(1) by (simp add: ends_well_def)
qed


lemma receiving_msg_upd [simp]:
  "receiving_msg dest tot pre (s\<lparr>sc_state := ph\<rparr>) = receiving_msg dest tot pre s"
  "sending_msg p (s\<lparr>sc_state := ph\<rparr>) = sending_msg p s"
  by (simp_all add: receiving_msg_def sending_msg_def)

lemma sc_send_done_ok:
  assumes inv: "sc_inv s" and en: "sc_enabled SentAll s"
  shows "ends_well (sc_run env SentAll s)"
proof -
  define t where "t = s\<lparr>sending := None, out_bytes := out_bytes s @ the (sending s)\<rparr>"
  have s: "sc_static s" "sc_io s" "sc_events s" "running s" "control_io s" "sending s \<noteq> None" "sc_phase_inv s"
    using inv en by (auto simp: sc_inv_def)
  then have ph: "sc_state s \<notin> {STATE_CONNECTING, STATE_UP}" by (auto simp: sc_io_def)
  have t: "sc_static t" "sc_events t" "running t" "con_live t" "control_io t" "\<not> up_io t" "sending t = None"
    "sc_state t = sc_state s"
    using s ph by (auto simp: t_def sc_static_def sc_events_def running_def sc_io_def)
  show ?thesis
  proof (cases "sc_state s")
    case STATE_SENDING_HELLO
    with s(7) have m: "sending_msg (hello_msg (auth_info s)) s" "out_bytes s = []" "in_bytes s = []"
      by (simp_all add: sc_phase_inv_def)
    have "ends_well (let (ok, s) = reserve_buffer env 2 t in
          if \<not> ok then Some (report_error EVENT_ERROR s)
          else do { s \<leftarrow> start_receive 0 2 s; Some (s\<lparr>sc_state := STATE_SENT_HELLO\<rparr>) })"
      using t m STATE_SENDING_HELLO
      by (intro recv_phase_ok) (auto simp: sc_phase_inv_def receiving_msg_def sending_msg_def t_def)
    with STATE_SENDING_HELLO m show ?thesis
      by (simp add: send_handler_done_def t_def sending_msg_def)
  next
    case STATE_SENDING_PASSWORD
    with s(7) obtain md a where m: "auth_choice (auth_info s) md = Some a" "auth_type a = 2"
      "sending_msg (password_packet a) s" "out_bytes s = hello_msg (auth_info s)" "in_bytes s = [5, md]"
      by (auto simp: sc_phase_inv_def)
    have "ends_well (let (ok, s) = reserve_buffer env 2 t in
          if \<not> ok then Some (report_error EVENT_ERROR s)
          else do { s \<leftarrow> start_receive 0 2 s; Some (s\<lparr>sc_state := STATE_SENT_PASSWORD\<rparr>) })"
      using t m STATE_SENDING_PASSWORD
      by (intro recv_phase_ok) (auto simp: sc_phase_inv_def receiving_msg_def sending_msg_def t_def)
    with STATE_SENDING_PASSWORD m show ?thesis
      by (simp add: send_handler_done_def t_def sending_msg_def)
  next
    case STATE_SENDING_REQUEST
    with s(7) have m: "sending_msg (request_msg (dest_addr s)) s" "auth_dialogue (auth_info s) (out_bytes s) (in_bytes s)"
      by (simp_all add: sc_phase_inv_def)
    have "ends_well (let (ok, s) = reserve_buffer env 22 t in
          if \<not> ok then Some (report_error EVENT_ERROR s)
          else do { s \<leftarrow> start_receive 0 4 s; Some (s\<lparr>sc_state := STATE_SENT_REQUEST\<rparr>) })"
      using t m STATE_SENDING_REQUEST
      by (intro recv_phase_ok) (auto simp: sc_phase_inv_def receiving_msg_def sending_msg_def t_def)
    with STATE_SENDING_REQUEST m show ?thesis
      by (simp add: send_handler_done_def t_def sending_msg_def)
  qed (use s ph in \<open>auto simp: sc_phase_inv_def receiving_msg_def\<close>)
qed

text \<open>The state after a chunk arrived, before the handler looks at it.\<close>

definition sc_got :: "bytes \<Rightarrow> BSocksClient \<Rightarrow> BSocksClient" where
  "sc_got d s = s\<lparr>sc_buffer := Some (take (recv_dest s + recv_len s) (the (sc_buffer s)) @ d @
       drop (recv_dest s + recv_len s + length d) (the (sc_buffer s))),
     receiving := None, in_bytes := in_bytes s @ d, recv_len := recv_len s + length d\<rparr>"

lemma sc_got_ok:
  assumes r: "receiving_msg dest tot pre s" and d: "length d \<le> tot - recv_len s"
  shows "sc_run env (Arrived d) s =
      (if recv_len (sc_got d s) < tot then do_receive (sc_got d s)
       else recv_message env (sc_got d s))"
    and "\<exists>b. sc_buffer (sc_got d s) = Some b \<and> length b = length (the (sc_buffer s)) \<and> dest + tot \<le> length b \<and>
      in_bytes (sc_got d s) = pre @ take (recv_len (sc_got d s)) (drop dest b) \<and>
      (recv_len s = 0 \<longrightarrow> take dest b = take dest (the (sc_buffer s)))"
    and "recv_len (sc_got d s) \<le> tot"
proof -
  obtain b where b: "sc_buffer s = Some b" "dest + tot \<le> length b" "recv_dest s = dest" "recv_total s = tot"
    "recv_len s < tot" "sending s = None" "receiving s = Some (tot - recv_len s)"
    "in_bytes s = pre @ take (recv_len s) (drop dest b)"
    using r by (auto simp: receiving_msg_def)
  show "recv_len (sc_got d s) \<le> tot" using d b by (simp add: sc_got_def)
  let ?b = "take (dest + recv_len s) b @ d @ drop (dest + recv_len s + length d) b"
  have "take (recv_len s + length d) (drop dest ?b) = take (recv_len s) (drop dest b) @ d"
    using b d by (simp add: drop_take)
  then have "in_bytes (sc_got d s) = pre @ take (recv_len (sc_got d s)) (drop dest ?b)"
    using b by (simp add: sc_got_def)
  then show "\<exists>b. sc_buffer (sc_got d s) = Some b \<and> length b = length (the (sc_buffer s)) \<and> dest + tot \<le> length b \<and>
      in_bytes (sc_got d s) = pre @ take (recv_len (sc_got d s)) (drop dest b) \<and>
      (recv_len s = 0 \<longrightarrow> take dest b = take dest (the (sc_buffer s)))"
    using b d by (simp add: sc_got_def)
  show "sc_run env (Arrived d) s =
      (if recv_len (sc_got d s) < tot then do_receive (sc_got d s) else recv_message env (sc_got d s))"
  proof -
    have "dest + recv_len s + length d \<le> length b" using b d by simp
    then show ?thesis
      using b d by (simp add: buffer_write_def recv_handler_done_def sc_got_def Let_def)
  qed
qed


text \<open>What a chunk leaves alone.\<close>

definition same_sc :: "BSocksClient \<Rightarrow> BSocksClient \<Rightarrow> bool" where
  "same_sc s t \<longleftrightarrow>
     auth_info t = auth_info s \<and> dest_addr t = dest_addr s \<and> sc_state t = sc_state s \<and>
     out_bytes t = out_bytes s \<and> reported t = reported s \<and> connector_live t = connector_live s \<and>
     con_live t = con_live s \<and> control_io t = control_io s \<and> up_io t = up_io s"

lemma same_sc_parts:
  "same_sc s t \<Longrightarrow> sc_state s \<noteq> STATE_UP \<Longrightarrow>
   sc_static t = sc_static s \<and> sc_io t = sc_io s \<and> sc_events t = sc_events s \<and> running t = running s"
  by (simp add: same_sc_def sc_static_def sc_io_def sc_events_def running_def)

lemma sc_got_same: "same_sc s (sc_got d s)"
  by (simp add: same_sc_def sc_got_def)

lemma partial_ok:
  assumes r: "receiving_msg dest tot pre s" and d: "length d \<le> tot - recv_len s" and c: "control_io s"
    and l: "recv_len (sc_got d s) < tot"
  shows "\<exists>t. do_receive (sc_got d s) = Some t \<and> same_sc s t \<and> receiving_msg dest tot pre t \<and>
    length (the (sc_buffer t)) = length (the (sc_buffer s))"
proof -
  let ?t = "(sc_got d s)\<lparr>receiving := Some (tot - recv_len (sc_got d s))\<rparr>"
  have f: "recv_dest (sc_got d s) = dest" "recv_total (sc_got d s) = tot" "sending (sc_got d s) = None"
    "receiving (sc_got d s) = None" "control_io (sc_got d s)"
    using r c by (auto simp: sc_got_def receiving_msg_def)
  obtain b where b: "sc_buffer (sc_got d s) = Some b" "length b = length (the (sc_buffer s))"
    "dest + tot \<le> length b" "in_bytes (sc_got d s) = pre @ take (recv_len (sc_got d s)) (drop dest b)"
    using sc_got_ok(2) [OF r d] by blast
  then have "do_receive (sc_got d s) = Some ?t" "receiving_msg dest tot pre ?t"
    using f l by (simp_all add: do_receive_def receiving_msg_def)
  moreover have "same_sc s ?t" using sc_got_same [of s d] by (simp add: same_sc_def)
  ultimately show ?thesis using b by simp
qed

lemma complete_ok:
  assumes r: "receiving_msg dest tot pre s" and d: "length d \<le> tot - recv_len s"
    and l: "\<not> recv_len (sc_got d s) < tot"
  shows "\<exists>b. sc_buffer (sc_got d s) = Some b \<and> length b = length (the (sc_buffer s)) \<and> dest + tot \<le> length b \<and>
    in_bytes (sc_got d s) = pre @ take tot (drop dest b) \<and> sending (sc_got d s) = None \<and> receiving (sc_got d s) = None"
proof -
  have "recv_len (sc_got d s) = tot" using sc_got_ok(3) [OF r d] l by simp
  then show ?thesis
    using sc_got_ok(2) [OF r d] r by (auto simp: sc_got_def receiving_msg_def)
qed

lemma auth_finished_ok:
  assumes st: "sc_static s" "sc_events s" "running s" "con_live s" "control_io s" "\<not> up_io s"
    and ph: "sc_state s \<notin> {STATE_CONNECTING, STATE_UP}"
    and idle: "sending s = None" "receiving s = None"
    and a: "auth_dialogue (auth_info s) (out_bytes s) (in_bytes s)"
  shows "ends_well (auth_finished env s)"
proof -
  define n :: nat where "n = 4 + (case dest_addr s of BADDR_IPV4 _ _ \<Rightarrow> 6 | BADDR_IPV6 _ _ \<Rightarrow> 18 | _ \<Rightarrow> 0)"
  have len: "length (request_msg (dest_addr s)) = n"
    using st(1) by (cases "dest_addr s") (auto simp: n_def request_msg_def addr_msg_def sc_static_def baddr_type_def)
  have io: "sc_io s" using st ph by (auto simp: sc_io_def)
  show ?thesis
  proof (cases "alloc_ok env")
    case False
    then show ?thesis using st io
      by (simp add: auth_finished_def reserve_fail ends_well_report)
  next
    case True
    then obtain b where b: "reserve_buffer env n s = (True, s\<lparr>sc_buffer := Some b\<rparr>)" "length b = n"
      using reserve_ok by blast
    let ?t = "s\<lparr>sc_buffer := Some (request_msg (dest_addr s)), sending := Some (request_msg (dest_addr s)),
      sc_state := STATE_SENDING_REQUEST\<rparr>"
    have "auth_finished env s = Some ?t"
    proof (cases "dest_addr s")
      case (BADDR_IPV4 ip port)
      then have "n = 10" by (simp add: n_def)
      with b True idle st BADDR_IPV4 show ?thesis
        by (simp add: auth_finished_def Let_def buffer_write_def sender_send_def buffer_read_def socks_defs
            request_msg_def addr_msg_def)
    next
      case (BADDR_IPV6 ip port)
      then have "n = 22" "length ip = 16" using st(1) by (simp_all add: n_def sc_static_def)
      with b True idle st BADDR_IPV6 show ?thesis
        by (simp add: auth_finished_def Let_def buffer_write_def sender_send_def buffer_read_def socks_defs
            request_msg_def addr_msg_def)
    qed (use st(1) in \<open>auto simp: sc_static_def baddr_type_def\<close>)
    moreover have "sc_inv ?t"
      using st a ph idle
      by (auto simp: sc_inv_def sc_static_def sc_io_def sc_events_def running_def sc_phase_inv_def sending_msg_def)
    ultimately show ?thesis by (simp add: ends_well_def)
  qed
qed


lemma nth_take_two: "2 \<le> length b \<Longrightarrow> take 2 b = [b ! 0, b ! 1 :: u8]"
  by (cases b rule: be_sum.cases) (simp_all add: numeral_2_eq_2)

text \<open>A receiving phase: the chunk is not the last one, or the message is complete.\<close>

lemma recv_done_cases:
  assumes inv: "sc_inv s" and run: "running s" and ph: "sc_state s \<notin> {STATE_CONNECTING, STATE_UP}"
    and r: "receiving_msg dest tot pre s" and d: "length d \<le> tot - recv_len s"
    and part: "\<And>t. same_sc s t \<Longrightarrow> receiving_msg dest tot pre t \<Longrightarrow>
      length (the (sc_buffer t)) = length (the (sc_buffer s)) \<Longrightarrow> sc_phase_inv t"
    and full: "\<And>b t. same_sc s t \<Longrightarrow> sc_buffer t = Some b \<Longrightarrow> length b = length (the (sc_buffer s)) \<Longrightarrow>
      dest + tot \<le> length b \<Longrightarrow> in_bytes t = pre @ take tot (drop dest b) \<Longrightarrow> sending t = None \<Longrightarrow>
      receiving t = None \<Longrightarrow> ends_well (recv_message env t)"
  shows "ends_well (sc_run env (Arrived d) s)"
proof -
  have st: "sc_static s" "sc_io s" "sc_events s" using inv by (auto simp: sc_inv_def)
  then have c: "control_io s" "sc_state s \<noteq> STATE_UP" using ph by (auto simp: sc_io_def)
  show ?thesis
  proof (cases "recv_len (sc_got d s) < tot")
    case True
    then obtain t where t: "do_receive (sc_got d s) = Some t" "same_sc s t" "receiving_msg dest tot pre t"
      "length (the (sc_buffer t)) = length (the (sc_buffer s))"
      using partial_ok [OF r d c(1)] by blast
    then have "sc_inv t"
      using same_sc_parts [OF t(2) c(2)] st run part by (simp add: sc_inv_def)
    with t(1) sc_got_ok(1) [OF r d] True show ?thesis by (simp add: ends_well_def)
  next
    case False
    with complete_ok [OF r d False] full [OF sc_got_same] sc_got_ok(1) [OF r d] show ?thesis by auto
  qed
qed

lemma recv_hello_ok:
  assumes inv: "sc_inv s" and run: "running s" and ph: "sc_state s = STATE_SENT_HELLO"
    and t: "same_sc s t" "sc_buffer t = Some b" "2 \<le> length b" "in_bytes t = take 2 b"
      "sending t = None" "receiving t = None"
  shows "ends_well (recv_message env t)"
proof -
  have p: "sc_static t" "sc_io t" "sc_events t" "running t" "sc_state t = STATE_SENT_HELLO"
    using same_sc_parts [OF t(1)] inv run ph t(1) by (auto simp: sc_inv_def same_sc_def)
  then have io: "con_live t" "control_io t" "\<not> up_io t" by (auto simp: sc_io_def)
  have out: "out_bytes t = hello_msg (auth_info t)"
    using inv run ph t(1) by (simp add: sc_inv_def sc_phase_inv_def same_sc_def)
  have rep: "ends_well (Some (report_error EVENT_ERROR t))"
    using p by (simp add: ends_well_report)
  have read: "buffer_read 0 2 t = Some [b ! 0, b ! 1]"
    using t(2,3) by (simp add: buffer_read_def nth_take_two)
  have i: "in_bytes t = [b ! 0, b ! 1]" using t(3,4) by (simp add: nth_take_two)
  let ?f = "auth_choice (auth_info t) (b ! 1)"
  show ?thesis
  proof (cases "b ! 0 \<noteq> 5 \<or> ?f = None")
    case True
    with rep read p show ?thesis
      by (auto simp: recv_message_def received_hello_def socks_defs auth_choice_def)
  next
    case False
    then obtain a where a: "?f = Some a" "b ! 0 = 5" by auto
    then have "a \<in> set (auth_info t)" by (auto simp: auth_choice_def find_Some_iff)
    then have ty: "auth_type a = 0 \<or> auth_type a = 2" using p(1) by (auto simp: sc_static_def)
    show ?thesis
    proof (cases "auth_type a = 0")
      case True
      have "auth_dialogue (auth_info t) (out_bytes t) (in_bytes t)"
        using a True out i by (auto simp: auth_dialogue_def)
      then have "ends_well (auth_finished env t)"
        using p io t(5,6) by (intro auth_finished_ok) auto
      with a True read p show ?thesis
        by (simp add: recv_message_def received_hello_def socks_defs auth_choice_def)
    next
      case False
      with ty have two: "auth_type a = 2" by simp
      define n where "n = length (password_packet a)"
      show ?thesis
      proof (cases "alloc_ok env \<and> 0 < length (ai_username a) \<and> length (ai_username a) \<le> 255 \<and>
          0 < length (ai_password a) \<and> length (ai_password a) \<le> 255")
        case bad: False
        with a two read p rep show ?thesis
          by (auto simp: recv_message_def received_hello_def socks_defs auth_choice_def reserve_fail)
      next
        case good: True
        then obtain c where c: "reserve_buffer env n t = (True, t\<lparr>sc_buffer := Some c\<rparr>)" "length c = n"
          using reserve_ok by blast
        let ?u = "t\<lparr>sc_buffer := Some (password_packet a), sending := Some (password_packet a),
          sc_state := STATE_SENDING_PASSWORD\<rparr>"
        have n: "n = 1 + 1 + length (ai_username a) + 1 + length (ai_password a)"
          by (simp add: n_def password_packet_def)
        have "recv_message env t = Some ?u"
          using a two read p good c io t(5) unfolding n
          by (simp add: recv_message_def received_hello_def socks_defs auth_choice_def Let_def
              buffer_write_def sender_send_def buffer_read_def password_packet_def)
        moreover have "sc_inv ?u"
          using p io t(6) a two out i
          by (auto simp: sc_inv_def sc_static_def sc_io_def sc_events_def running_def sc_phase_inv_def sending_msg_def)
        ultimately show ?thesis by (simp add: ends_well_def)
      qed
    qed
  qed
qed


lemma recv_password_ok:
  assumes inv: "sc_inv s" and run: "running s" and ph: "sc_state s = STATE_SENT_PASSWORD"
    and m: "auth_choice (auth_info s) md = Some a" "auth_type a = 2"
      "out_bytes s = hello_msg (auth_info s) @ password_packet a"
    and t: "same_sc s t" "sc_buffer t = Some b" "2 \<le> length b" "in_bytes t = [5, md] @ take 2 b"
      "sending t = None" "receiving t = None"
  shows "ends_well (recv_message env t)"
proof -
  have p: "sc_static t" "sc_io t" "sc_events t" "running t" "sc_state t = STATE_SENT_PASSWORD"
    using same_sc_parts [OF t(1)] inv run ph t(1) by (auto simp: sc_inv_def same_sc_def)
  then have io: "con_live t" "control_io t" "\<not> up_io t" by (auto simp: sc_io_def)
  have rep: "ends_well (Some (report_error EVENT_ERROR t))"
    using p by (simp add: ends_well_report)
  have read: "buffer_read 0 2 t = Some [b ! 0, b ! 1]"
    using t(2,3) by (simp add: buffer_read_def nth_take_two)
  show ?thesis
  proof (cases "b ! 0 = 1 \<and> b ! 1 = 0")
    case True
    then have "in_bytes t = [5, md, 1, 0]" using t(3,4) by (simp add: nth_take_two)
    then have "auth_dialogue (auth_info t) (out_bytes t) (in_bytes t)"
      using m t(1) by (auto simp: auth_dialogue_def same_sc_def)
    then have "ends_well (auth_finished env t)"
      using p io t(5,6) by (intro auth_finished_ok) auto
    with True read p show ?thesis by (simp add: recv_message_def)
  next
    case False
    with rep read p show ?thesis by (auto simp: recv_message_def)
  qed
qed

lemma recv_reply_ok:
  assumes inv: "sc_inv s" and run: "running s" and ph: "sc_state s = STATE_SENT_REQUEST"
    and m: "auth_dialogue (auth_info s) o1 i1" "out_bytes s = o1 @ request_msg (dest_addr s)"
    and t: "same_sc s t" "sc_buffer t = Some b" "length b = 22" "in_bytes t = i1 @ take 4 b"
      "sending t = None" "receiving t = None"
  shows "ends_well (recv_message env t)"
proof -
  have p: "sc_static t" "sc_io t" "sc_events t" "running t" "sc_state t = STATE_SENT_REQUEST"
    using same_sc_parts [OF t(1)] inv run ph t(1) by (auto simp: sc_inv_def same_sc_def)
  then have io: "con_live t" "control_io t" "\<not> up_io t" by (auto simp: sc_io_def)
  have rep: "ends_well (Some (report_error EVENT_ERROR t))"
    using p by (simp add: ends_well_report)
  define h where "h = take 4 b"
  have h: "length h = 4" "buffer_read 0 4 t = Some h"
    using t(2,3) by (simp_all add: h_def buffer_read_def)
  show ?thesis
  proof (cases "reply_header_ok h")
    case False
    with h rep p show ?thesis
      by (auto simp: recv_message_def received_reply_header_def reply_header_ok_def socks_defs)
  next
    case True
    define u where "u = t\<lparr>recv_dest := 4, recv_len := 0, recv_total := reply_rest h,
      receiving := Some (reply_rest h), sc_state := STATE_RECEIVED_REPLY_HEADER\<rparr>"
    have "recv_message env t = Some u"
      using True h p t(2,3,6) io
      by (auto simp: recv_message_def received_reply_header_def reply_header_ok_def socks_defs
          start_receive_def do_receive_def reply_rest_def u_def)
    moreover have "receiving_msg 4 (reply_rest h) (i1 @ h) u"
      using t(2-5) by (simp add: receiving_msg_def u_def h_def reply_rest_def)
    then have "sc_phase_inv u"
      using True m t(1) by (auto simp: sc_phase_inv_def u_def same_sc_def)
    then have "sc_inv u"
      using p io by (auto simp: sc_inv_def sc_static_def sc_io_def sc_events_def running_def u_def)
    ultimately show ?thesis by (simp add: ends_well_def)
  qed
qed

lemma recv_rest_ok:
  assumes inv: "sc_inv s" and run: "running s" and ph: "sc_state s = STATE_RECEIVED_REPLY_HEADER"
    and m: "auth_dialogue (auth_info s) o1 i1" "out_bytes s = o1 @ request_msg (dest_addr s)" "reply_header_ok h"
    and t: "same_sc s t" "in_bytes t = (i1 @ h) @ x" "length x = reply_rest h"
  shows "ends_well (recv_message env t)"
proof -
  have p: "sc_static t" "sc_io t" "sc_events t" "running t" "sc_state t = STATE_RECEIVED_REPLY_HEADER"
    using same_sc_parts [OF t(1)] inv run ph t(1) by (auto simp: sc_inv_def same_sc_def)
  then have io: "con_live t" "control_io t" "\<not> up_io t" by (auto simp: sc_io_def)
  have none: "reported t = []" using p(3-5) by (auto simp: sc_events_def running_def)
  define u where "u = t\<lparr>sc_buffer := None, control_io := False, sending := None, receiving := None,
    up_io := True, sc_state := STATE_UP, reported := [EVENT_UP]\<rparr>"
  have "recv_message env t = Some u"
    using p io none by (simp add: recv_message_def free_control_io_def init_up_io_def u_def)
  moreover have "handshake (auth_info u) (dest_addr u) (out_bytes u) (in_bytes u)"
    using m t by (auto simp: handshake_def same_sc_def u_def)
  then have "sc_inv u"
    using p io by (auto simp: sc_inv_def sc_static_def sc_io_def sc_events_def sc_phase_inv_def event_order_def u_def)
  ultimately show ?thesis by (simp add: ends_well_def)
qed

lemma sc_recv_done_ok:
  assumes inv: "sc_inv s" and en: "sc_enabled (Arrived d) s"
  shows "ends_well (sc_run env (Arrived d) s)"
proof -
  have s: "running s" "control_io s" "receiving s \<noteq> None" "length d \<le> the (receiving s)"
    using en by (auto split: option.splits)
  have ph: "sc_state s \<notin> {STATE_CONNECTING, STATE_UP}" and pi: "sc_phase_inv s"
    using inv s by (auto simp: sc_inv_def sc_io_def)
  note go = recv_done_cases [OF inv s(1) ph]
  show ?thesis
  proof (cases "sc_state s")
    case STATE_SENT_HELLO
    with pi have r: "receiving_msg 0 2 [] s" "out_bytes s = hello_msg (auth_info s)"
      by (simp_all add: sc_phase_inv_def)
    then have d: "length d \<le> 2 - recv_len s" using s(4) by (auto simp: receiving_msg_def)
    show ?thesis
    proof (rule go [OF r(1) d])
      show "sc_phase_inv t" if "same_sc s t" "receiving_msg 0 2 [] t" for t
        using that r(2) STATE_SENT_HELLO by (simp add: sc_phase_inv_def same_sc_def)
    qed (use recv_hello_ok [OF inv s(1) STATE_SENT_HELLO] in auto)
  next
    case STATE_SENT_PASSWORD
    with pi obtain md a where r: "auth_choice (auth_info s) md = Some a" "auth_type a = 2"
      "receiving_msg 0 2 [5, md] s" "out_bytes s = hello_msg (auth_info s) @ password_packet a"
      by (auto simp: sc_phase_inv_def)
    then have d: "length d \<le> 2 - recv_len s" using s(4) by (auto simp: receiving_msg_def)
    show ?thesis
    proof (rule go [OF r(3) d])
      show "sc_phase_inv t" if "same_sc s t" "receiving_msg 0 2 [5, md] t" for t
        using that r STATE_SENT_PASSWORD by (auto simp: sc_phase_inv_def same_sc_def)
    qed (use recv_password_ok [OF inv s(1) STATE_SENT_PASSWORD r(1,2,4)] in auto)
  next
    case STATE_SENT_REQUEST
    with pi obtain o1 i1 where r: "auth_dialogue (auth_info s) o1 i1" "out_bytes s = o1 @ request_msg (dest_addr s)"
      "receiving_msg 0 4 i1 s" "length (the (sc_buffer s)) = 22"
      by (auto simp: sc_phase_inv_def)
    then have d: "length d \<le> 4 - recv_len s" using s(4) by (auto simp: receiving_msg_def)
    show ?thesis
    proof (rule go [OF r(3) d])
      show "sc_phase_inv t" if "same_sc s t" "receiving_msg 0 4 i1 t"
        "length (the (sc_buffer t)) = length (the (sc_buffer s))" for t
        using that r STATE_SENT_REQUEST by (auto simp: sc_phase_inv_def same_sc_def)
    qed (use recv_reply_ok [OF inv s(1) STATE_SENT_REQUEST r(1,2)] r(4) in auto)
  next
    case STATE_RECEIVED_REPLY_HEADER
    with pi obtain o1 i1 h where r: "auth_dialogue (auth_info s) o1 i1" "out_bytes s = o1 @ request_msg (dest_addr s)"
      "reply_header_ok h" "receiving_msg 4 (reply_rest h) (i1 @ h) s"
      by (auto simp: sc_phase_inv_def)
    then have d: "length d \<le> reply_rest h - recv_len s" using s(4) by (auto simp: receiving_msg_def)
    show ?thesis
    proof (rule go [OF r(4) d])
      show "sc_phase_inv t" if "same_sc s t" "receiving_msg 4 (reply_rest h) (i1 @ h) t" for t
        using that r STATE_RECEIVED_REPLY_HEADER by (auto simp: sc_phase_inv_def same_sc_def)
    qed (use recv_rest_ok [OF inv s(1) STATE_RECEIVED_REPLY_HEADER r(1-3)] in auto)
  qed (use pi s ph in \<open>auto simp: sc_phase_inv_def sending_msg_def\<close>)
qed

lemma sc_run_ok: "sc_inv s \<Longrightarrow> sc_enabled i s \<Longrightarrow> ends_well (sc_run env i s)"
  by (cases i) (auto intro: connector_ok con_event_ok sc_send_done_ok sc_recv_done_ok simp del: sc_run.simps sc_enabled.simps)

inductive_cases sc_stepE: "sc_step s t"

interpretation socks: inductive_invariant sc_init sc_step sc_inv
proof
  show "sc_inv s" if "sc_init s" for s
    using that
    by (auto simp: sc_init_def BSocksClient_Init_def sc_inv_def sc_static_def sc_io_def sc_events_def
        sc_phase_inv_def event_order_def socks_defs)
  show "sc_inv t" if "sc_inv s" "sc_step s t" for s t
  proof -
    from that(2) obtain i env where "sc_enabled i s" "sc_run env i s = Some t" by (rule sc_stepE)
    with sc_run_ok [OF that(1), of i env] show ?thesis by (simp add: ends_well_def)
  qed
qed


section \<open>The promise to the user\<close>

text \<open>
  What a user of the client relies on: when an event is reported, the events before it were such
  that the event makes sense.
\<close>

locale socks_provider =
  fixes reachable :: "'s \<Rightarrow> bool" and events :: "'s \<Rightarrow> socks_event list"
  assumes order: "reachable s \<Longrightarrow> event_order (events s)"
begin

lemma up_first: "reachable s \<Longrightarrow> events s = es @ [EVENT_UP] \<Longrightarrow> es = []"
  using order [of s] by (auto simp: event_order_def Cons_eq_append_conv)

lemma closed_after_up: "reachable s \<Longrightarrow> events s = es @ [EVENT_ERROR_CLOSED] \<Longrightarrow> es = [EVENT_UP]"
  using order [of s] by (auto simp: event_order_def Cons_eq_append_conv)

lemma error_last: "reachable s \<Longrightarrow> events s = es @ e # fs \<Longrightarrow> e \<noteq> EVENT_UP \<Longrightarrow> fs = []"
  using order [of s] by (auto simp: event_order_def append_eq_Cons_conv)

end

interpretation socks_client: socks_provider "reach sc_init sc_step" reported
proof
  show "event_order (reported s)" if "reach sc_init sc_step s" for s
    using socks.always [OF that] by (simp add: sc_inv_def sc_events_def)
qed

section \<open>Executions\<close>

text \<open>A run on given inputs, for concrete examples.\<close>

fun sc_exec :: "sc_env \<Rightarrow> sc_input list \<Rightarrow> BSocksClient \<Rightarrow> BSocksClient option" where
  "sc_exec env [] s = Some s"
| "sc_exec env (i # is) s =
     (if sc_enabled i s then do { t \<leftarrow> sc_run env i s; sc_exec env is t } else None)"

lemma sc_exec_reach:
  "reach sc_init sc_step s \<Longrightarrow> sc_exec env is s = Some t \<Longrightarrow> reach sc_init sc_step t"
proof (induction env "is" s rule: sc_exec.induct)
  case (2 env i "is" s)
  then obtain u where u: "sc_enabled i s" "sc_run env i s = Some u" "sc_exec env is u = Some t"
    by (auto simp: bind_Some_iff split: if_splits)
  then have "sc_step s u" by (intro sc_step.intros)
  with 2(2) have "reach sc_init sc_step u" by (rule reach_step)
  with 2(1) u show ?case by blast
qed simp

definition ex_sc_env :: sc_env where
  "ex_sc_env = \<lparr>alloc_ok = True, sc_junk = (\<lambda>_. 0xAA), con_init_ok = True\<rparr>"

definition ex_sc_init :: BSocksClient where
  "ex_sc_init = the (the (BSocksClient_Init True (BADDR_IPV4 0x0100007F 0x3804)
     [BSocksClient_auth_none, BSocksClient_auth_password [117] [112]] (BADDR_IPV4 0x08080808 0x5000)))"

text \<open>The server picks password authentication and its answers arrive in pieces.\<close>

definition ex_sc_inputs :: "sc_input list" where
  "ex_sc_inputs = [Connected False, SentAll, Arrived [5], Arrived [2], SentAll, Arrived [1, 0],
     SentAll, Arrived [5, 0, 0], Arrived [1], Arrived [10, 0, 0], Arrived [1, 0, 80]]"

definition ex_sc_up :: BSocksClient where
  "ex_sc_up = the (sc_exec ex_sc_env ex_sc_inputs ex_sc_init)"

lemma ex_sc_init_ok: "sc_init ex_sc_init"
  unfolding sc_init_def
  by (rule exI [of _ "BADDR_IPV4 0x0100007F 0x3804"],
      rule exI [of _ "[BSocksClient_auth_none, BSocksClient_auth_password [117] [112]]"],
      rule exI [of _ "BADDR_IPV4 0x08080808 0x5000"])
    (simp add: ex_sc_init_def BSocksClient_Init_def BAddr_IsInvalid_def baddr_type_def
      BSocksClient_auth_none_def BSocksClient_auth_password_def)

lemma ex_sc_exec: "sc_exec ex_sc_env ex_sc_inputs ex_sc_init = Some ex_sc_up"
proof -
  have "sc_exec ex_sc_env ex_sc_inputs ex_sc_init \<noteq> None" by code_simp
  then show ?thesis by (auto simp: ex_sc_up_def)
qed

lemma ex_sc_reported: "reported ex_sc_up = [EVENT_UP]"
  by code_simp

lemma ex_sc_reach: "reach sc_init sc_step ex_sc_up"
  using sc_exec_reach [OF reach_init [where init = sc_init, OF ex_sc_init_ok] ex_sc_exec] .


section \<open>Properties\<close>

text \<open>
  C6 The SOCKS client never fails.  In every reachable state, whatever the connection does next, the
  handler goes through: no assertion fails, no byte is written or read outside the allocated
  buffer, and nothing is released that is not allocated.
\<close>

theorem socks_client_safe:
  assumes "reach sc_init sc_step s" and "sc_enabled i s"
  shows "\<exists>t. sc_run env i s = Some t"
  using sc_run_ok [OF socks.always [OF assms(1)] assms(2)] by (auto simp: ends_well_def)

theorem socks_client_safe_witness:
  "\<exists>t. sc_run ex_sc_env (ConEvent True) ex_sc_up = Some t"
proof -
  have "sc_enabled (ConEvent True) ex_sc_up" by code_simp
  from socks_client_safe [OF ex_sc_reach this] show ?thesis .
qed

text \<open>
  C7 The client reports that it is up only after a complete handshake, however the server's bytes are
  cut into pieces: it has sent its hello with all configured methods, the credentials if the
  server asked for them, and the request for the destination address, and it has received a
  matching choice of method, a positive answer to the credentials, and a positive reply with an
  IPv4 or IPv6 address, and nothing else.
\<close>

theorem socks_up_after_handshake:
  assumes "reach sc_init sc_step s" and "EVENT_UP \<in> set (reported s)"
  shows "handshake (auth_info s) (dest_addr s) (out_bytes s) (in_bytes s)"
  using socks.always [OF assms(1)] assms(2) by (auto simp: sc_inv_def sc_events_def)

theorem socks_up_after_handshake_witness:
  "handshake (auth_info ex_sc_up) (dest_addr ex_sc_up) (out_bytes ex_sc_up) (in_bytes ex_sc_up)"
  by (rule socks_up_after_handshake [OF ex_sc_reach]) (simp add: ex_sc_reported)

text \<open>
  C28 The order of the reported events: at most one \<open>UP\<close>, at most one error and only as the last event,
  and \<open>ERROR_CLOSED\<close> only after \<open>UP\<close>.
\<close>

theorem socks_event_order:
  assumes "reach sc_init sc_step s"
  shows "reported s \<in>
    {[], [EVENT_UP], [EVENT_ERROR], [EVENT_UP, EVENT_ERROR], [EVENT_UP, EVENT_ERROR_CLOSED]}"
  using socks.always [OF assms] by (auto simp: sc_inv_def sc_events_def event_order_def)

theorem socks_event_order_witness: "reported ex_sc_up \<in>
    {[], [EVENT_UP], [EVENT_ERROR], [EVENT_UP, EVENT_ERROR], [EVENT_UP, EVENT_ERROR_CLOSED]}"
  using socks_event_order [OF ex_sc_reach] .

text \<open>
  C29 \<open>BSocksClient_Free\<close> works in every reachable state, also after any error: it releases exactly what
  is allocated, so nothing is freed twice and nothing is left.
\<close>

theorem socks_free_releases_all:
  assumes "reach sc_init sc_step s"
  shows "\<exists>t. BSocksClient_Free s = Some t \<and> \<not> connector_live t \<and> \<not> con_live t \<and> \<not> control_io t \<and>
    \<not> up_io t \<and> sc_buffer t = None"
  using socks.always [OF assms]
  by (auto simp: sc_inv_def sc_io_def sc_static_def BSocksClient_Free_def free_up_io_def
      free_control_io_def BConnection_Free_def)

theorem socks_free_releases_all_witness:
  "\<exists>t. BSocksClient_Free ex_sc_up = Some t \<and> sc_buffer t = None"
  using socks_free_releases_all [OF ex_sc_reach] by blast

end
