(* ===== verification/Tun2socks_Client.thy ===== *)
theory Tun2socks_Client
  imports SocksClient
begin

text \<open>
  One relayed TCP connection: \<open>struct tcp_client\<close> of \<open>tun2socks/tun2socks.c\<close> and its handlers.

  A state holds the fields of the structure, what lwIP keeps for the connection (whether the
  control block still exists and which callbacks are registered), the state of the two stream
  interfaces of the SOCKS client, and the globals \<open>num_clients\<close> and \<open>tcp_clients\<close>.  The last
  group of fields is bookkeeping that no handler reads: the bytes that crossed each boundary.
  Handlers return \<^term>\<open>None\<close> if an assertion of the code fails, if they touch the client after it
  was freed, if they call lwIP on a control block that no longer exists, or if they write through
  a \<open>dead_t\<close> pointer whose frame is gone.  The results of lwIP are a parameter of each handler.
\<close>

section \<open>Constants and results of lwIP\<close>

definition TCP_WND :: nat where "TCP_WND = 4 * 1460"

definition CLIENT_SOCKS_RECV_BUF_SIZE :: nat where "CLIENT_SOCKS_RECV_BUF_SIZE = 8192"

definition ERR_OK :: int where "ERR_OK = 0"

definition ERR_MEM :: int where "ERR_MEM = -1"

definition ERR_ABRT :: int where "ERR_ABRT = -13"

lemmas err_defs = ERR_OK_def ERR_MEM_def ERR_ABRT_def

text \<open>
  What lwIP answers during one handler: the result of \<open>tcp_close\<close>, \<open>tcp_sndbuf\<close> and \<open>tcp_write\<close> in
  the n-th round of the write loop, and \<open>tcp_output\<close>.
\<close>

record lwip_res =
  close_err :: int
  sndbuf :: "nat \<Rightarrow> nat"
  write_err :: "nat \<Rightarrow> int"
  output_err :: int

section \<open>State\<close>

text \<open>Where \<open>dead_aborted\<close> points: nowhere, to the running callback, or to one that returned.\<close>

datatype dead_ptr = DNull | DFrame | DDangling

record tcp_client =
  aborted :: bool
  dead_aborted :: dead_ptr
  local_addr :: BAddr
  remote_addr :: BAddr
  client_closed :: bool
  buf :: bytes
  socks_username :: "string option"
  socks_up :: bool
  socks_closed :: bool
  socks_recv_buf :: bytes
  socks_recv_buf_used :: int
  socks_recv_buf_sent :: int
  socks_recv_waiting :: bool
  socks_recv_tcp_pending :: int
  pcb_live :: bool
  cb_err :: bool
  cb_recv :: bool
  cb_sent :: bool
  send_busy :: "nat option"
  recv_busy :: bool

record cstate = tcp_client +
  num_clients :: int
  tcp_clients :: "nat list"
  self :: nat
  freed :: bool
  frame :: int
  from_client :: bytes
  to_socks :: bytes
  from_socks :: bytes
  to_client :: bytes
  recved :: nat
  acked :: nat
  aborts :: nat

section \<open>The dead mechanism\<close>

definition DEAD_KILL_WITH :: "int \<Rightarrow> cstate \<Rightarrow> cstate option" where
  "DEAD_KILL_WITH v c =
     (case dead_aborted c of
        DNull \<Rightarrow> Some c
      | DFrame \<Rightarrow> Some (c\<lparr>frame := v\<rparr>)
      | DDangling \<Rightarrow> None)"

definition DEAD_ENTER :: "cstate \<Rightarrow> dead_ptr \<times> cstate" where
  "DEAD_ENTER c = (dead_aborted c, c\<lparr>frame := 0, dead_aborted := DFrame\<rparr>)"

text \<open>
  Leaving the frame.  The saved pointer is written through when it is not null; callbacks of one
  connection do not nest, so there is no outer frame to write to.
\<close>

definition DEAD_LEAVE2 :: "dead_ptr \<Rightarrow> cstate \<Rightarrow> cstate option" where
  "DEAD_LEAVE2 prev c =
     ASSERT (prev = DNull)
       (if frame c = 0 then ASSERT (\<not> freed c) (Some (c\<lparr>dead_aborted := prev\<rparr>))
        else Some (c\<lparr>dead_aborted := DDangling\<rparr>))"

section \<open>Calls into lwIP\<close>

definition tcp_err :: "bool \<Rightarrow> cstate \<Rightarrow> cstate option" where
  "tcp_err cb c = ASSERT (pcb_live c) (Some (c\<lparr>cb_err := cb\<rparr>))"

definition tcp_recv :: "bool \<Rightarrow> cstate \<Rightarrow> cstate option" where
  "tcp_recv cb c = ASSERT (pcb_live c) (Some (c\<lparr>cb_recv := cb\<rparr>))"

definition tcp_sent :: "bool \<Rightarrow> cstate \<Rightarrow> cstate option" where
  "tcp_sent cb c = ASSERT (pcb_live c) (Some (c\<lparr>cb_sent := cb\<rparr>))"

definition tcp_close :: "lwip_res \<Rightarrow> cstate \<Rightarrow> cstate option" where
  "tcp_close env c =
     ASSERT (pcb_live c) (Some (if close_err env = ERR_OK then c\<lparr>pcb_live := False\<rparr> else c))"

definition tcp_abort :: "cstate \<Rightarrow> cstate option" where
  "tcp_abort c = ASSERT (pcb_live c) (Some (c\<lparr>pcb_live := False, aborts := aborts c + 1\<rparr>))"

definition tcp_recved :: "nat \<Rightarrow> cstate \<Rightarrow> cstate option" where
  "tcp_recved n c = ASSERT (pcb_live c) (Some (c\<lparr>recved := recved c + n\<rparr>))"

section \<open>Calls into the SOCKS client\<close>

definition StreamPassInterface_Sender_Send :: "nat \<Rightarrow> cstate \<Rightarrow> cstate option" where
  "StreamPassInterface_Sender_Send n c =
     ASSERT (0 < n) (ASSERT (send_busy c = None) (Some (c\<lparr>send_busy := Some n\<rparr>)))"

definition StreamRecvInterface_Receiver_Recv :: "cstate \<Rightarrow> cstate option" where
  "StreamRecvInterface_Receiver_Recv c =
     ASSERT (\<not> recv_busy c) (Some (c\<lparr>recv_busy := True\<rparr>))"

text \<open>What \<open>BSocksClient_Free\<close> does to the stream interfaces: outstanding operations are cancelled.\<close>

definition socks_client_free :: "cstate \<Rightarrow> cstate" where
  "socks_client_free c = c\<lparr>send_busy := None, recv_busy := False\<rparr>"

section \<open>Releasing a client\<close>

definition client_dealloc :: "cstate \<Rightarrow> cstate option" where
  "client_dealloc c =
     ASSERT (\<not> freed c) (
     ASSERT (client_closed c) (
     ASSERT (socks_closed c) (
     ASSERT (0 < num_clients c) (
     do { let c = c\<lparr>num_clients := num_clients c - 1\<rparr>;
          c \<leftarrow> ASSERT (self c \<in> set (tcp_clients c))
                 (Some (c\<lparr>tcp_clients := remove1 (self c) (tcp_clients c)\<rparr>));
          c \<leftarrow> (if \<not> aborted c then DEAD_KILL_WITH (-1) c else Some c);
          Some (c\<lparr>freed := True\<rparr>) }))))"

definition client_abort_pcb :: "cstate \<Rightarrow> cstate option" where
  "client_abort_pcb c =
     ASSERT (\<not> freed c) (
     ASSERT (\<not> aborted c) (
     do { c \<leftarrow> tcp_abort c;
          let c = c\<lparr>aborted := True\<rparr>;
          DEAD_KILL_WITH 1 c }))"

definition remove_callbacks :: "cstate \<Rightarrow> cstate option" where
  "remove_callbacks c = do { c \<leftarrow> tcp_err False c; c \<leftarrow> tcp_recv False c; tcp_sent False c }"

lemma tcp_flags:
  "tcp_err cb c = Some d \<Longrightarrow> client_closed d = client_closed c \<and> socks_closed d = socks_closed c"
  "tcp_recv cb c = Some d \<Longrightarrow> client_closed d = client_closed c \<and> socks_closed d = socks_closed c"
  "tcp_sent cb c = Some d \<Longrightarrow> client_closed d = client_closed c \<and> socks_closed d = socks_closed c"
  "tcp_close env c = Some d \<Longrightarrow> client_closed d = client_closed c \<and> socks_closed d = socks_closed c"
  "client_abort_pcb c = Some d \<Longrightarrow> client_closed d = client_closed c \<and> socks_closed d = socks_closed c"
  "remove_callbacks c = Some d \<Longrightarrow> client_closed d = client_closed c \<and> socks_closed d = socks_closed c"
  by (auto simp: tcp_err_def tcp_recv_def tcp_sent_def tcp_close_def client_abort_pcb_def
      tcp_abort_def DEAD_KILL_WITH_def remove_callbacks_def bind_Some_iff Let_def split: dead_ptr.splits if_splits)

text \<open>The number of sides that are still open, which each step of the tear-down lowers.\<close>

definition open_sides :: "cstate \<Rightarrow> nat" where
  "open_sides c = of_bool (\<not> client_closed c) + of_bool (\<not> socks_closed c)"

function client_handle_freed_client :: "lwip_res \<Rightarrow> cstate \<Rightarrow> cstate option"
  and client_free_client :: "lwip_res \<Rightarrow> cstate \<Rightarrow> cstate option"
  and client_free_socks :: "lwip_res \<Rightarrow> cstate \<Rightarrow> cstate option" where
  "client_handle_freed_client env c =
     ASSERT (\<not> freed c) (
     ASSERT (\<not> client_closed c) (
     let c = c\<lparr>client_closed := True\<rparr> in
     if 0 < length (buf c) \<and> \<not> socks_closed c then Some c
     else if \<not> socks_closed c then client_free_socks env c
     else client_dealloc c))"
| "client_free_client env c =
     ASSERT (\<not> freed c) (
     ASSERT (\<not> client_closed c) (
     do { c \<leftarrow> remove_callbacks c;
          c \<leftarrow> tcp_close env c;
          c \<leftarrow> (if close_err env \<noteq> ERR_OK then client_abort_pcb c else Some c);
          client_handle_freed_client env c }))"
| "client_free_socks env c =
     ASSERT (\<not> freed c) (
     ASSERT (\<not> socks_closed c) (
     do { c \<leftarrow> (if socks_up c \<and> \<not> client_closed c then tcp_recv False c else Some c);
          let c = socks_client_free c;
          let c = c\<lparr>socks_closed := True\<rparr>;
          if socks_up c \<and> (0 \<le> socks_recv_buf_used c \<or> 0 < socks_recv_tcp_pending c) \<and>
             \<not> client_closed c
          then Some c
          else if \<not> client_closed c then client_free_client env c
          else client_dealloc c }))"
  by pat_completeness auto
termination
  by (relation "measure (\<lambda>x. case x of
        Inl (env, c) \<Rightarrow> 2 * open_sides c
      | Inr (Inl (env, c)) \<Rightarrow> 2 * open_sides c + 1
      | Inr (Inr (env, c)) \<Rightarrow> 2 * open_sides c)")
    (auto simp: open_sides_def socks_client_free_def dest!: tcp_flags split: if_splits)

declare client_handle_freed_client.simps [simp del] client_free_client.simps [simp del]
  client_free_socks.simps [simp del]

definition client_abort_client :: "lwip_res \<Rightarrow> cstate \<Rightarrow> cstate option" where
  "client_abort_client env c =
     ASSERT (\<not> freed c) (
     ASSERT (\<not> client_closed c) (
     do { c \<leftarrow> remove_callbacks c;
          c \<leftarrow> client_abort_pcb c;
          client_handle_freed_client env c }))"

definition client_murder :: "cstate \<Rightarrow> cstate option" where
  "client_murder c =
     ASSERT (\<not> freed c) (
     do { c \<leftarrow> (if \<not> client_closed c
               then do { c \<leftarrow> remove_callbacks c;
                         c \<leftarrow> client_abort_pcb c;
                         Some (c\<lparr>client_closed := True\<rparr>) }
               else Some c);
          let c = (if \<not> socks_closed c then (socks_client_free c)\<lparr>socks_closed := True\<rparr> else c);
          client_dealloc c })"

section \<open>From the client to SOCKS\<close>

definition client_send_to_socks :: "cstate \<Rightarrow> cstate option" where
  "client_send_to_socks c =
     ASSERT (\<not> freed c) (
     ASSERT (\<not> socks_closed c) (
     ASSERT (socks_up c) (
     ASSERT (0 < length (buf c)) (
     StreamPassInterface_Sender_Send (length (buf c)) c))))"

definition client_socks_send_handler_done :: "lwip_res \<Rightarrow> nat \<Rightarrow> cstate \<Rightarrow> cstate option" where
  "client_socks_send_handler_done env data_len c =
     ASSERT (\<not> freed c) (
     ASSERT (\<not> socks_closed c) (
     ASSERT (socks_up c) (
     ASSERT (0 < length (buf c)) (
     ASSERT (0 < data_len) (
     ASSERT (data_len \<le> length (buf c)) (
     do { let c = c\<lparr>buf := drop data_len (buf c)\<rparr>;
          c \<leftarrow> (if \<not> client_closed c then tcp_recved data_len c else Some c);
          if 0 < length (buf c) then StreamPassInterface_Sender_Send (length (buf c)) c
          else if client_closed c then client_free_socks env c
          else Some c }))))))"

section \<open>From SOCKS to the client\<close>

definition client_socks_recv_initiate :: "cstate \<Rightarrow> cstate option" where
  "client_socks_recv_initiate c =
     ASSERT (\<not> freed c) (
     ASSERT (\<not> client_closed c) (
     ASSERT (\<not> socks_closed c) (
     ASSERT (socks_up c) (
     ASSERT (socks_recv_buf_used c = -1) (
     StreamRecvInterface_Receiver_Recv c)))))"

text \<open>
  The loop of \<open>client_socks_recv_send_out\<close>, whose n-th round asks lwIP for its n-th answers.  The
  flag says that \<open>tcp_write\<close> failed with an error other than \<open>ERR_MEM\<close>.
\<close>

function send_out_loop :: "lwip_res \<Rightarrow> nat \<Rightarrow> cstate \<Rightarrow> (bool \<times> cstate) option" where
  "send_out_loop env n c =
     ASSERT (socks_recv_buf_sent c < socks_recv_buf_used c) (
     ASSERT (pcb_live c) (
     let to_write = min (socks_recv_buf_used c - socks_recv_buf_sent c) (int (sndbuf env n)) in
     if to_write = 0 then Some (False, c)
     else if write_err env n \<noteq> ERR_OK then Some (write_err env n \<noteq> ERR_MEM, c)
     else let c = c\<lparr>socks_recv_buf_sent := socks_recv_buf_sent c + to_write,
                    socks_recv_tcp_pending := socks_recv_tcp_pending c + to_write,
                    to_client := to_client c @
                      take (nat to_write) (drop (nat (socks_recv_buf_sent c)) (socks_recv_buf c))\<rparr>
          in if socks_recv_buf_sent c < socks_recv_buf_used c then send_out_loop env (n + 1) c
             else Some (False, c)))"
  by pat_completeness auto
termination
  by (relation "measure (\<lambda>(env, n, c). nat (socks_recv_buf_used c - socks_recv_buf_sent c))") auto

declare send_out_loop.simps [simp del]

definition client_socks_recv_send_out :: "lwip_res \<Rightarrow> cstate \<Rightarrow> (int \<times> cstate) option" where
  "client_socks_recv_send_out env c =
     ASSERT (\<not> freed c) (
     ASSERT (\<not> client_closed c) (
     ASSERT (socks_up c) (
     ASSERT (0 < socks_recv_buf_used c) (
     ASSERT (socks_recv_buf_sent c < socks_recv_buf_used c) (
     ASSERT (\<not> socks_recv_waiting c) (
     do { (failed, c) \<leftarrow> send_out_loop env 0 c;
          if failed then do { c \<leftarrow> client_abort_client env c; Some (-1, c) }
          else ASSERT (pcb_live c) (
            if output_err env \<noteq> ERR_OK
            then do { c \<leftarrow> client_abort_client env c; Some (-1, c) }
            else if socks_recv_buf_sent c < socks_recv_buf_used c
            then if socks_recv_tcp_pending c = 0
                 then do { c \<leftarrow> client_abort_client env c; Some (-1, c) }
                 else Some (0, c\<lparr>socks_recv_waiting := True\<rparr>)
            else Some (0, c\<lparr>socks_recv_buf_used := -1\<rparr>)) }))))))"

definition client_socks_recv_handler_done :: "lwip_res \<Rightarrow> nat \<Rightarrow> cstate \<Rightarrow> cstate option" where
  "client_socks_recv_handler_done env data_len c =
     ASSERT (0 < data_len) (
     ASSERT (data_len \<le> CLIENT_SOCKS_RECV_BUF_SIZE) (
     ASSERT (\<not> freed c) (
     ASSERT (\<not> socks_closed c) (
     ASSERT (socks_up c) (
     ASSERT (socks_recv_buf_used c = -1) (
     if client_closed c then Some c
     else do { let c = c\<lparr>socks_recv_buf_used := int data_len, socks_recv_buf_sent := 0,
                         socks_recv_waiting := False\<rparr>;
               (r, c) \<leftarrow> client_socks_recv_send_out env c;
               if r < 0 then Some c
               else if socks_recv_buf_used c = -1 then client_socks_recv_initiate c
               else Some c }))))))"

section \<open>Events of the SOCKS client\<close>

definition client_socks_handler :: "lwip_res \<Rightarrow> socks_event \<Rightarrow> cstate \<Rightarrow> cstate option" where
  "client_socks_handler env event c =
     ASSERT (\<not> freed c) (
     ASSERT (\<not> socks_closed c) (
     case event of
       EVENT_ERROR \<Rightarrow> client_free_socks env c
     | EVENT_UP \<Rightarrow>
         ASSERT (\<not> socks_up c) (
         do { let c = c\<lparr>send_busy := None\<rparr>;
              let c = c\<lparr>recv_busy := False, socks_recv_buf_used := -1, socks_recv_tcp_pending := 0\<rparr>;
              c \<leftarrow> (if \<not> client_closed c then tcp_sent True c else Some c);
              let c = c\<lparr>socks_up := True\<rparr>;
              c \<leftarrow> (if 0 < length (buf c) then client_send_to_socks c else Some c);
              if \<not> client_closed c then client_socks_recv_initiate c else Some c })
     | EVENT_ERROR_CLOSED \<Rightarrow> ASSERT (socks_up c) (client_free_socks env c)))"

section \<open>Reactor jobs of a client\<close>

text \<open>
  What the reactor may run for a client: the completion of an outstanding send or receive on the
  SOCKS stream, and an event of the SOCKS client.  A job runs only while the SOCKS client exists
  and has the corresponding operation outstanding; \<open>BSocksClient_Free\<close> cancels them.  The stream
  interfaces become idle before the completion handler runs.
\<close>

datatype job = SendDone nat | RecvDone bytes | SocksEvent socks_event

fun job_enabled :: "job \<Rightarrow> cstate \<Rightarrow> bool" where
  "job_enabled (SendDone n) c =
     (\<not> freed c \<and> \<not> socks_closed c \<and> 0 < n \<and> (case send_busy c of None \<Rightarrow> False | Some m \<Rightarrow> n \<le> m))"
| "job_enabled (RecvDone d) c =
     (\<not> freed c \<and> \<not> socks_closed c \<and> recv_busy c \<and> d \<noteq> [] \<and> length d \<le> CLIENT_SOCKS_RECV_BUF_SIZE)"
| "job_enabled (SocksEvent EVENT_ERROR) c = (\<not> freed c \<and> \<not> socks_closed c)"
| "job_enabled (SocksEvent EVENT_UP) c = (\<not> freed c \<and> \<not> socks_closed c \<and> \<not> socks_up c)"
| "job_enabled (SocksEvent EVENT_ERROR_CLOSED) c = (\<not> freed c \<and> \<not> socks_closed c \<and> socks_up c)"

fun run_job :: "lwip_res \<Rightarrow> job \<Rightarrow> cstate \<Rightarrow> cstate option" where
  "run_job env (SendDone n) c =
     client_socks_send_handler_done env n
       (c\<lparr>send_busy := None, to_socks := to_socks c @ take n (buf c)\<rparr>)"
| "run_job env (RecvDone d) c =
     client_socks_recv_handler_done env (length d)
       (c\<lparr>recv_busy := False, socks_recv_buf := d, from_socks := from_socks c @ d\<rparr>)"
| "run_job env (SocksEvent e) c = client_socks_handler env e c"

text \<open>\<open>SYNC_COMMIT\<close>: the jobs that were queued since \<open>SYNC_FROMHERE\<close>, in the order the reactor runs them.\<close>

fun SYNC_COMMIT :: "(lwip_res \<times> job) list \<Rightarrow> cstate \<Rightarrow> cstate option" where
  "SYNC_COMMIT [] c = Some c"
| "SYNC_COMMIT ((env, j) # js) c =
     (if job_enabled j c then do { c \<leftarrow> run_job env j c; SYNC_COMMIT js c } else SYNC_COMMIT js c)"

section \<open>Callbacks from lwIP\<close>

text \<open>lwIP frees the control block before it reports an error on it.\<close>

definition client_err_func :: "lwip_res \<Rightarrow> cstate \<Rightarrow> cstate option" where
  "client_err_func env c =
     ASSERT (\<not> freed c) (
     ASSERT (\<not> client_closed c) (
     client_handle_freed_client env c))"

definition callback_result :: "cstate \<Rightarrow> int" where
  "callback_result c = (if 0 < frame c then ERR_ABRT else ERR_OK)"

definition client_recv_func ::
    "lwip_res \<Rightarrow> (lwip_res \<times> job) list \<Rightarrow> bytes option \<Rightarrow> cstate \<Rightarrow> (int \<times> cstate) option" where
  "client_recv_func env jobs p c =
     ASSERT (\<not> freed c) (
     ASSERT (\<not> client_closed c) (
     let (prev, c) = DEAD_ENTER c in
     case p of
       None \<Rightarrow> do { c \<leftarrow> client_free_client env c;
                    c \<leftarrow> DEAD_LEAVE2 prev c;
                    Some (callback_result c, c) }
     | Some d \<Rightarrow>
         ASSERT (0 < length d) (
         if TCP_WND - length (buf c) < length d
         then do { c \<leftarrow> DEAD_LEAVE2 prev c; Some (ERR_MEM, c) }
         else do { let c = c\<lparr>buf := buf c @ d, from_client := from_client c @ d\<rparr>;
                   c \<leftarrow> (if length (buf c) = length d \<and> socks_up c
                        then ASSERT (\<not> socks_closed c)
                               (do { c \<leftarrow> client_send_to_socks c; SYNC_COMMIT jobs c })
                        else Some c);
                   c \<leftarrow> DEAD_LEAVE2 prev c;
                   Some (callback_result c, c) })))"

definition client_sent_func ::
    "lwip_res \<Rightarrow> (lwip_res \<times> job) list \<Rightarrow> nat \<Rightarrow> cstate \<Rightarrow> (int \<times> cstate) option" where
  "client_sent_func env jobs len c =
     ASSERT (\<not> freed c) (
     ASSERT (\<not> client_closed c) (
     ASSERT (socks_up c) (
     ASSERT (0 < len) (
     ASSERT (int len \<le> socks_recv_tcp_pending c) (
     let (prev, c) = DEAD_ENTER c in
     do { let c = c\<lparr>socks_recv_tcp_pending := socks_recv_tcp_pending c - int len, acked := acked c + len\<rparr>;
          c \<leftarrow> (if 0 < socks_recv_buf_used c
               then ASSERT (socks_recv_waiting c) (
                    ASSERT (socks_recv_buf_sent c < socks_recv_buf_used c) (
                    do { let c = c\<lparr>socks_recv_waiting := False\<rparr>;
                         (r, c) \<leftarrow> client_socks_recv_send_out env c;
                         if r < 0 then Some c
                         else ASSERT (0 < socks_recv_tcp_pending c)
                              (if socks_recv_buf_used c = -1 \<and> \<not> socks_closed c
                               then do { c \<leftarrow> client_socks_recv_initiate c; SYNC_COMMIT jobs c }
                               else Some c) }))
               else if socks_closed c \<and> socks_recv_tcp_pending c = 0 then client_free_client env c
               else Some c);
          c \<leftarrow> DEAD_LEAVE2 prev c;
          Some (callback_result c, c) })))))"


section \<open>Accepting a connection\<close>

datatype lwip_ip = IP4 u32 | IP6 bytes

definition baddr_from_lwip :: "lwip_ip \<Rightarrow> u16 \<Rightarrow> BAddr" where
  "baddr_from_lwip ip_addr port_hostorder =
     (case ip_addr of
        IP6 ip \<Rightarrow> BAddr_MakeIPv6 ip (hton16 port_hostorder)
      | IP4 ip \<Rightarrow> BAddr_MakeIPv4 ip (hton16 port_hostorder))"

text \<open>
  What \<open>listener_accept_func\<close> reads: the new control block's addresses, the options, and whether
  the allocations and \<open>BSocksClient_Init\<close> succeed; \<open>print_addr\<close> stands for \<open>BAddr_Print\<close>.
\<close>

record accept_env =
  malloc_ok :: bool
  pcb_local :: "lwip_ip \<times> u16"
  pcb_remote :: "lwip_ip \<times> u16"
  opt_username :: "string option"
  opt_append_source :: bool
  print_addr :: "BAddr \<Rightarrow> string"
  concat_ok :: bool
  socks_init_ok :: bool

text \<open>The part of \<open>listener_accept_func\<close> after \<open>BSocksClient_Init\<close> succeeded.\<close>

definition accept_client :: "(lwip_res \<times> job) list \<Rightarrow> cstate \<Rightarrow> (int \<times> cstate option) option" where
  "accept_client jobs c =
     do { let c = c\<lparr>send_busy := None, recv_busy := False\<rparr>;
          let c = c\<lparr>aborted := False, dead_aborted := DNull\<rparr>;
          let c = c\<lparr>tcp_clients := tcp_clients c @ [self c]\<rparr>;
          c \<leftarrow> ASSERT (0 \<le> num_clients c) (Some (c\<lparr>num_clients := num_clients c + 1\<rparr>));
          let c = c\<lparr>pcb_live := True, cb_sent := False\<rparr>;
          let c = c\<lparr>client_closed := False\<rparr>;
          c \<leftarrow> tcp_err True c;
          c \<leftarrow> tcp_recv True c;
          let c = c\<lparr>buf := []\<rparr>;
          let c = c\<lparr>socks_up := False, socks_closed := False\<rparr>;
          let (prev, c) = DEAD_ENTER c;
          c \<leftarrow> SYNC_COMMIT jobs c;
          c \<leftarrow> DEAD_LEAVE2 prev c;
          Some (callback_result c, Some c) }"

text \<open>
  The state passed in holds the globals and the contents of the freshly allocated memory, which
  is arbitrary.  The bookkeeping fields start empty.  The inner \<^term>\<open>None\<close> is a failure exit.
\<close>

definition listener_accept_func ::
    "accept_env \<Rightarrow> (lwip_res \<times> job) list \<Rightarrow> int \<Rightarrow> cstate \<Rightarrow> (int \<times> cstate option) option" where
  "listener_accept_func a jobs err c =
     ASSERT (err = ERR_OK) (
     if \<not> malloc_ok a then Some (ERR_MEM, None)
     else let c = c\<lparr>freed := False, from_client := [], to_socks := [], from_socks := [], to_client := [],
                    recved := 0, acked := 0, aborts := 0\<rparr>;
              c = c\<lparr>socks_username := None\<rparr>;
              c = c\<lparr>local_addr := baddr_from_lwip (fst (pcb_local a)) (snd (pcb_local a)),
                    remote_addr := baddr_from_lwip (fst (pcb_remote a)) (snd (pcb_remote a))\<rparr>;
              append = (opt_username a \<noteq> None \<and> opt_append_source a)
          in
     if append \<and> \<not> concat_ok a then Some (ERR_MEM, None)
     else let c = (if append
                   then c\<lparr>socks_username := Some (the (opt_username a) @ ''@'' @ print_addr a (remote_addr c))\<rparr>
                   else c)
          in
     if \<not> socks_init_ok a then Some (ERR_MEM, None)
     else accept_client jobs c)"

end
