(* ===== verification/Tun2socks_Client_Inv.thy ===== *)
theory Tun2socks_Client_Inv
  imports Tun2socks_Client "HOL-Library.Sublist"
begin

text \<open>
  The invariant of a relayed connection and its preservation by every handler of
  \<open>Tun2socks_Client\<close>.
\<close>

section \<open>Invariant\<close>

text \<open>An outstanding send covers a part of the buffer, and nothing is left buffered without one.\<close>

fun send_ok :: "nat option \<Rightarrow> bytes \<Rightarrow> bool" where
  "send_ok None b = (b = [])"
| "send_ok (Some n) b = (0 < n \<and> n \<le> length b)"

text \<open>What holds of a client and the global list, also after the client was freed.\<close>

definition shared_inv :: "cstate \<Rightarrow> bool" where
  "shared_inv c \<longleftrightarrow>
     num_clients c = int (length (tcp_clients c)) \<and> distinct (tcp_clients c) \<and>
     to_socks c @ buf c = from_client c \<and> prefix (to_client c) (from_socks c) \<and>
     aborts c = of_bool (aborted c)"

text \<open>The pointer of the dead mechanism, while the client exists.\<close>

definition dead_inv :: "cstate \<Rightarrow> bool" where
  "dead_inv c \<longleftrightarrow>
     (dead_aborted c = DDangling \<longrightarrow> aborted c) \<and>
     (dead_aborted c = DFrame \<longrightarrow> frame c = of_bool (aborted c))"

text \<open>The two directions of the relay.\<close>

definition send_inv :: "cstate \<Rightarrow> bool" where
  "send_inv c \<longleftrightarrow>
     length (buf c) \<le> TCP_WND \<and>
     (\<not> client_closed c \<longrightarrow> recved c + length (buf c) = length (from_client c)) \<and>
     (\<not> socks_up c \<longrightarrow> send_busy c = None \<and> to_socks c = [] \<and> recved c = 0) \<and>
     (socks_up c \<and> \<not> socks_closed c \<longrightarrow> send_ok (send_busy c) (buf c))"

definition recv_idle :: "bool \<Rightarrow> bool \<Rightarrow> int \<Rightarrow> bytes \<Rightarrow> bytes \<Rightarrow> bool" where
  "recv_idle sclosed busy pending sent_out got \<longleftrightarrow>
     sent_out = got \<and> busy = (\<not> sclosed) \<and> (sclosed \<longrightarrow> 0 < pending)"

definition recv_queued ::
    "bool \<Rightarrow> int \<Rightarrow> int \<Rightarrow> bool \<Rightarrow> int \<Rightarrow> bytes \<Rightarrow> bytes \<Rightarrow> bytes \<Rightarrow> bool" where
  "recv_queued busy used pos waiting pending rbuf sent_out got \<longleftrightarrow>
     \<not> busy \<and> used = int (length rbuf) \<and> length rbuf \<le> CLIENT_SOCKS_RECV_BUF_SIZE \<and>
     0 \<le> pos \<and> pos < used \<and> waiting \<and> 0 < pending \<and> sent_out @ drop (nat pos) rbuf = got"

definition recv_count :: "int \<Rightarrow> nat \<Rightarrow> bytes \<Rightarrow> bool" where
  "recv_count pending confirmed sent_out \<longleftrightarrow> pending + int confirmed = int (length sent_out)"

definition recv_inv :: "cstate \<Rightarrow> bool" where
  "recv_inv c \<longleftrightarrow>
     (\<not> socks_up c \<longrightarrow> \<not> recv_busy c \<and> from_socks c = [] \<and> to_client c = [] \<and> acked c = 0) \<and>
     (socks_up c \<longrightarrow> 0 \<le> socks_recv_tcp_pending c) \<and>
     (recv_busy c \<longrightarrow> socks_recv_buf_used c = -1) \<and>
     (socks_up c \<and> \<not> client_closed c \<longrightarrow>
        recv_count (socks_recv_tcp_pending c) (acked c) (to_client c) \<and>
        (socks_recv_buf_used c = -1 \<longrightarrow>
           recv_idle (socks_closed c) (recv_busy c) (socks_recv_tcp_pending c) (to_client c) (from_socks c)) \<and>
        (socks_recv_buf_used c \<noteq> -1 \<longrightarrow>
           recv_queued (recv_busy c) (socks_recv_buf_used c) (socks_recv_buf_sent c)
             (socks_recv_waiting c) (socks_recv_tcp_pending c) (socks_recv_buf c)
             (to_client c) (from_socks c)))"

definition live_inv :: "cstate \<Rightarrow> bool" where
  "live_inv c \<longleftrightarrow>
     self c \<in> set (tcp_clients c) \<and> dead_inv c \<and> (aborted c \<longrightarrow> client_closed c) \<and>
     \<not> (client_closed c \<and> socks_closed c) \<and> (client_closed c \<longrightarrow> buf c \<noteq> []) \<and>
     (socks_closed c \<longrightarrow> socks_up c) \<and>
     pcb_live c = (\<not> client_closed c) \<and> cb_err c = (\<not> client_closed c) \<and>
     cb_recv c = (\<not> client_closed c \<and> \<not> socks_closed c) \<and>
     cb_sent c = (\<not> client_closed c \<and> socks_up c) \<and> send_inv c \<and> recv_inv c"

definition gone_inv :: "cstate \<Rightarrow> bool" where
  "gone_inv c \<longleftrightarrow>
     self c \<notin> set (tcp_clients c) \<and>
     (dead_aborted c = DFrame \<longrightarrow> frame c = (if aborted c then 1 else -1))"

definition client_inv :: "cstate \<Rightarrow> bool" where
  "client_inv c \<longleftrightarrow> shared_inv c \<and> (if freed c then gone_inv c else live_inv c)"

text \<open>The list of clients loses a client when, and only when, the client is freed.\<close>

definition list_effect :: "cstate \<Rightarrow> cstate \<Rightarrow> bool" where
  "list_effect c d \<longleftrightarrow>
     (freed c \<longrightarrow> freed d) \<and>
     (freed d = freed c \<longrightarrow> tcp_clients d = tcp_clients c) \<and>
     (freed d \<and> \<not> freed c \<longrightarrow> tcp_clients d = remove1 (self c) (tcp_clients c))"

text \<open>
  What a handler leaves alone: everything that crossed the client's boundaries, and the pointer of
  the dead mechanism.
\<close>

definition same_io :: "cstate \<Rightarrow> cstate \<Rightarrow> bool" where
  "same_io c d \<longleftrightarrow>
     buf d = buf c \<and> from_client d = from_client c \<and> to_socks d = to_socks c \<and>
     from_socks d = from_socks c \<and> to_client d = to_client c \<and> self d = self c \<and>
     dead_aborted d = dead_aborted c \<and> list_effect c d"

text \<open>What every state of a tear-down satisfies, wherever it started.\<close>

definition down_inv :: "cstate \<Rightarrow> bool" where
  "down_inv c \<longleftrightarrow>
     \<not> freed c \<and> shared_inv c \<and> self c \<in> set (tcp_clients c) \<and> dead_inv c \<and>
     length (buf c) \<le> TCP_WND \<and> (\<not> socks_up c \<longrightarrow> to_socks c = [] \<and> recved c = 0 \<and> send_busy c = None) \<and>
     (\<not> socks_up c \<longrightarrow> \<not> recv_busy c \<and> from_socks c = [] \<and> to_client c = [] \<and> acked c = 0) \<and>
     (socks_up c \<longrightarrow> 0 \<le> socks_recv_tcp_pending c) \<and>
     (recv_busy c \<longrightarrow> socks_recv_buf_used c = -1)"

lemmas inv_defs = shared_inv_def dead_inv_def send_inv_def recv_inv_def live_inv_def gone_inv_def
  client_inv_def

lemma live_parts:
  assumes "client_inv c" and "\<not> freed c"
  shows "shared_inv c" "dead_inv c" "send_inv c" "recv_inv c" "self c \<in> set (tcp_clients c)"
    "aborted c \<longrightarrow> client_closed c" "\<not> (client_closed c \<and> socks_closed c)"
    "client_closed c \<longrightarrow> buf c \<noteq> []" "socks_closed c \<longrightarrow> socks_up c"
    "pcb_live c = (\<not> client_closed c)" "cb_err c = (\<not> client_closed c)"
    "cb_recv c = (\<not> client_closed c \<and> \<not> socks_closed c)"
    "cb_sent c = (\<not> client_closed c \<and> socks_up c)"
  using assms by (simp_all add: client_inv_def live_inv_def)

lemma client_invI:
  assumes "\<not> freed c" "shared_inv c" "dead_inv c" "send_inv c" "recv_inv c" "self c \<in> set (tcp_clients c)"
    "aborted c \<longrightarrow> client_closed c" "\<not> (client_closed c \<and> socks_closed c)"
    "client_closed c \<longrightarrow> buf c \<noteq> []" "socks_closed c \<longrightarrow> socks_up c"
    "pcb_live c = (\<not> client_closed c)" "cb_err c = (\<not> client_closed c)"
    "cb_recv c = (\<not> client_closed c \<and> \<not> socks_closed c)"
    "cb_sent c = (\<not> client_closed c \<and> socks_up c)"
  shows "client_inv c"
  using assms by (simp add: client_inv_def live_inv_def)

lemma live_down: "client_inv c \<Longrightarrow> \<not> freed c \<Longrightarrow> down_inv c"
  by (simp add: inv_defs down_inv_def)

lemma dealloc_ok:
  assumes "down_inv c" and "client_closed c" and "socks_closed c"
  shows "\<exists>d. client_dealloc c = Some d \<and> freed d \<and> client_inv d \<and> same_io c d"
proof -
  have "tcp_clients c \<noteq> []" using assms by (auto simp: down_inv_def)
  then have "0 < num_clients c" using assms by (simp add: down_inv_def shared_inv_def)
  with assms show ?thesis
    by (cases "dead_aborted c")
      (auto simp: client_dealloc_def down_inv_def inv_defs same_io_def list_effect_def DEAD_KILL_WITH_def Let_def
        length_remove1 Suc_leI split: if_splits)
qed

definition abort_pcb_state :: "int \<Rightarrow> cstate \<Rightarrow> cstate" where
  "abort_pcb_state fr c = c\<lparr>pcb_live := False, aborts := aborts c + 1, aborted := True, frame := fr\<rparr>"

lemma abort_pcb_state_same:
  "abort_pcb_state (frame c) c = c\<lparr>pcb_live := False, aborts := aborts c + 1, aborted := True\<rparr>"
  by (simp add: abort_pcb_state_def)

lemma abort_pcb_ok:
  assumes "\<not> freed c" and "\<not> aborted c" and "pcb_live c" and "dead_inv c"
  shows "\<exists>fr. client_abort_pcb c = Some (abort_pcb_state fr c) \<and> (dead_aborted c = DFrame \<longrightarrow> fr = 1)"
proof (cases "dead_aborted c")
  case DNull
  with assms have "client_abort_pcb c = Some (abort_pcb_state (frame c) c)"
    unfolding abort_pcb_state_same by (simp add: client_abort_pcb_def tcp_abort_def DEAD_KILL_WITH_def)
  with DNull show ?thesis by auto
next
  case DFrame
  with assms have "client_abort_pcb c = Some (abort_pcb_state 1 c)"
    unfolding abort_pcb_state_def by (simp add: client_abort_pcb_def tcp_abort_def DEAD_KILL_WITH_def)
  then show ?thesis by blast
qed (use assms in \<open>simp add: dead_inv_def\<close>)

lemma free_socks_closed_ok:
  assumes "down_inv c" and "client_closed c" and "\<not> socks_closed c"
  shows "\<exists>d. client_free_socks env c = Some d \<and> freed d \<and> client_inv d \<and> same_io c d"
proof -
  let ?c = "(socks_client_free c)\<lparr>socks_closed := True\<rparr>"
  have "down_inv ?c"
    using assms by (simp add: down_inv_def socks_client_free_def shared_inv_def dead_inv_def)
  from dealloc_ok [OF this] assms obtain d where
    "client_dealloc ?c = Some d" "freed d" "client_inv d" "same_io ?c d"
    by (auto simp: socks_client_free_def)
  moreover have "client_free_socks env c = client_dealloc ?c"
    using assms by (simp add: client_free_socks.simps down_inv_def socks_client_free_def)
  ultimately show ?thesis
    by (auto simp: same_io_def list_effect_def socks_client_free_def)
qed


definition busy_inv :: "cstate \<Rightarrow> bool" where
  "busy_inv c \<longleftrightarrow>
     (socks_up c \<and> \<not> socks_closed c \<longrightarrow> send_ok (send_busy c) (buf c))"

lemma live_busy: "client_inv c \<Longrightarrow> \<not> freed c \<Longrightarrow> busy_inv c"
  by (simp add: inv_defs busy_inv_def)

lemma handle_freed_ok:
  assumes "down_inv c" and "busy_inv c" and "\<not> client_closed c" and "\<not> pcb_live c"
    and "\<not> cb_err c" and "\<not> cb_recv c" and "\<not> cb_sent c"
  shows "\<exists>d. client_handle_freed_client env c = Some d \<and> client_inv d \<and> same_io c d \<and>
    (freed d \<or> client_closed d)"
proof -
  let ?c = "c\<lparr>client_closed := True\<rparr>"
  have down: "down_inv ?c"
    using assms by (simp add: down_inv_def shared_inv_def dead_inv_def)
  have io: "same_io ?c d \<Longrightarrow> same_io c d" for d
    by (simp add: same_io_def list_effect_def)
  consider "socks_closed c" | "\<not> socks_closed c" "buf c = []" | "\<not> socks_closed c" "buf c \<noteq> []"
    by blast
  then show ?thesis
  proof cases
    case 1
    with dealloc_ok [OF down] assms io show ?thesis
      by (auto simp: client_handle_freed_client.simps down_inv_def)
  next
    case 2
    with free_socks_closed_ok [OF down, of env] assms io show ?thesis
      by (auto simp: client_handle_freed_client.simps down_inv_def)
  next
    case 3
    with assms have "client_inv ?c"
      by (simp add: down_inv_def busy_inv_def inv_defs)
    with 3 assms show ?thesis
      by (auto simp: client_handle_freed_client.simps down_inv_def same_io_def list_effect_def)
  qed
qed

lemma remove_callbacks_eq:
  "pcb_live c \<Longrightarrow> remove_callbacks c = Some (c\<lparr>cb_err := False, cb_recv := False, cb_sent := False\<rparr>)"
  by (simp add: remove_callbacks_def tcp_err_def tcp_recv_def tcp_sent_def)

lemma down_updates:
  "down_inv (c\<lparr>cb_err := a, cb_recv := b, cb_sent := e, pcb_live := l\<rparr>) = down_inv c"
  "down_inv (c\<lparr>cb_err := a, cb_recv := b, cb_sent := e\<rparr>) = down_inv c"
  "busy_inv (c\<lparr>cb_err := a, cb_recv := b, cb_sent := e, pcb_live := l\<rparr>) = busy_inv c"
  "busy_inv (c\<lparr>cb_err := a, cb_recv := b, cb_sent := e\<rparr>) = busy_inv c"
  by (simp_all add: down_inv_def busy_inv_def shared_inv_def dead_inv_def)

lemma abort_handle_ok:
  assumes "down_inv c" and "busy_inv c" and "\<not> client_closed c" and "pcb_live c" and "\<not> aborted c"
    and "\<not> cb_err c" and "\<not> cb_recv c" and "\<not> cb_sent c"
  shows "\<exists>d e. client_abort_pcb c = Some e \<and> client_handle_freed_client env e = Some d \<and>
    client_inv d \<and> same_io c d \<and> (freed d \<or> client_closed d)"
proof -
  have "\<not> freed c" "dead_inv c" using assms by (auto simp: down_inv_def)
  then obtain fr where e: "client_abort_pcb c = Some (abort_pcb_state fr c)"
      "dead_aborted c = DFrame \<longrightarrow> fr = 1"
    using abort_pcb_ok assms by blast
  let ?e = "abort_pcb_state fr c"
  have "down_inv ?e" "busy_inv ?e"
    using assms e(2) by (simp_all add: abort_pcb_state_def down_inv_def busy_inv_def shared_inv_def dead_inv_def)
  moreover have "\<not> client_closed ?e" "\<not> pcb_live ?e" "\<not> cb_err ?e" "\<not> cb_recv ?e" "\<not> cb_sent ?e"
    using assms by (simp_all add: abort_pcb_state_def)
  ultimately obtain d where "client_handle_freed_client env ?e = Some d" "client_inv d" "same_io ?e d"
      "freed d \<or> client_closed d"
    using handle_freed_ok by blast
  moreover have "same_io ?e d = same_io c d" for d
    by (simp add: same_io_def list_effect_def abort_pcb_state_def)
  ultimately show ?thesis using e(1) by blast
qed

lemma down_not_freed: "down_inv c \<Longrightarrow> \<not> freed c"
  by (simp add: down_inv_def)

lemma same_io_cb [simp]:
  "same_io (c\<lparr>cb_err := a, cb_recv := b, cb_sent := e, pcb_live := l\<rparr>) d = same_io c d"
  "same_io (c\<lparr>cb_err := a, cb_recv := b, cb_sent := e\<rparr>) d = same_io c d"
  by (simp_all add: same_io_def list_effect_def)

lemma free_client_ok:
  assumes "down_inv c" and "busy_inv c" and "\<not> client_closed c" and "pcb_live c" and "\<not> aborted c"
  shows "\<exists>d. client_free_client env c = Some d \<and> client_inv d \<and> same_io c d \<and> (freed d \<or> client_closed d)"
proof -
  let ?c = "c\<lparr>cb_err := False, cb_recv := False, cb_sent := False\<rparr>"
  note fr = down_not_freed [OF assms(1)]
  show ?thesis
  proof (cases "close_err env = ERR_OK")
    case True
    have "client_free_client env c = client_handle_freed_client env (?c\<lparr>pcb_live := False\<rparr>)"
      using assms True fr by (simp add: client_free_client.simps remove_callbacks_eq tcp_close_def)
    moreover have "down_inv (?c\<lparr>pcb_live := False\<rparr>)" "busy_inv (?c\<lparr>pcb_live := False\<rparr>)"
      using assms by (simp_all only: down_updates)
    ultimately show ?thesis
      using handle_freed_ok [of "?c\<lparr>pcb_live := False\<rparr>" env] assms by simp
  next
    case False
    have "client_free_client env c = Option.bind (client_abort_pcb ?c) (client_handle_freed_client env)"
      using assms False fr by (simp add: client_free_client.simps remove_callbacks_eq tcp_close_def)
    moreover have "down_inv ?c" "busy_inv ?c"
      using assms by (simp_all only: down_updates)
    moreover from this have "\<exists>d e. client_abort_pcb ?c = Some e \<and> client_handle_freed_client env e = Some d \<and>
        client_inv d \<and> same_io ?c d \<and> (freed d \<or> client_closed d)"
      by (rule abort_handle_ok) (simp_all add: assms)
    ultimately show ?thesis by auto
  qed
qed

lemma abort_client_ok:
  assumes "down_inv c" and "busy_inv c" and "\<not> client_closed c" and "pcb_live c" and "\<not> aborted c"
  shows "\<exists>d. client_abort_client env c = Some d \<and> client_inv d \<and> same_io c d \<and> (freed d \<or> client_closed d)"
proof -
  let ?c = "c\<lparr>cb_err := False, cb_recv := False, cb_sent := False\<rparr>"
  have "client_abort_client env c = Option.bind (client_abort_pcb ?c) (client_handle_freed_client env)"
    using assms down_not_freed [OF assms(1)] by (simp add: client_abort_client_def remove_callbacks_eq)
  moreover have "down_inv ?c" "busy_inv ?c"
    using assms by (simp_all only: down_updates)
  moreover from this have "\<exists>d e. client_abort_pcb ?c = Some e \<and> client_handle_freed_client env e = Some d \<and>
      client_inv d \<and> same_io ?c d \<and> (freed d \<or> client_closed d)"
    by (rule abort_handle_ok) (simp_all add: assms)
  ultimately show ?thesis by auto
qed

lemma free_socks_ok:
  assumes inv: "client_inv c" and c: "\<not> freed c" "\<not> socks_closed c"
  shows "\<exists>d. client_free_socks env c = Some d \<and> client_inv d \<and> same_io c d"
proof (cases "client_closed c")
  case True
  with free_socks_closed_ok [OF live_down] assms show ?thesis by blast
next
  case False
  have live: "pcb_live c" "\<not> aborted c" using assms False by (auto simp: inv_defs)
  define e where "e = c\<lparr>cb_recv := cb_recv c \<and> \<not> socks_up c, send_busy := None, recv_busy := False,
    socks_closed := True\<rparr>"
  have run: "client_free_socks env c =
      (if socks_up c \<and> (0 \<le> socks_recv_buf_used c \<or> 0 < socks_recv_tcp_pending c) then Some e
       else client_free_client env e)"
    using False c live
    by (cases "socks_up c")
      (simp_all add: client_free_socks.simps tcp_recv_def socks_client_free_def e_def)
  have io: "same_io e d = same_io c d" for d
    by (simp add: same_io_def list_effect_def e_def)
  show ?thesis
  proof (cases "socks_up c \<and> (0 \<le> socks_recv_buf_used c \<or> 0 < socks_recv_tcp_pending c)")
    case True
    note lp = live_parts [OF inv c(1)]
    have "shared_inv e" "dead_inv e" "send_inv e"
      using lp(1-3) by (simp_all add: shared_inv_def dead_inv_def send_inv_def e_def)
    moreover have "recv_inv e"
      using lp(4) True False c
      by (cases "socks_recv_buf_used c = -1") (auto simp: recv_inv_def e_def recv_idle_def recv_queued_def)
    ultimately have "client_inv e"
      using lp(5-) True False c by (intro client_invI) (simp_all add: e_def)
    with run True io [of e] show ?thesis
      by (simp add: same_io_def list_effect_def)
  next
    case wait: False
    have "down_inv e" "busy_inv e"
      using live_down [OF inv c(1)] by (simp_all add: down_inv_def busy_inv_def shared_inv_def dead_inv_def e_def)
    moreover have "\<not> client_closed e" "pcb_live e" "\<not> aborted e"
      using False live by (simp_all add: e_def)
    ultimately obtain d where "client_free_client env e = Some d" "client_inv d" "same_io e d"
      using free_client_ok by blast
    then show ?thesis
      using run wait io by simp
  qed
qed

section \<open>Preservation\<close>

text \<open>What a handler keeps of the identity of the client and of the running callback.\<close>

definition same_client :: "cstate \<Rightarrow> cstate \<Rightarrow> bool" where
  "same_client c d \<longleftrightarrow>
     self d = self c \<and> dead_aborted d = dead_aborted c \<and> from_client d = from_client c \<and>
     prefix (from_socks c) (from_socks d) \<and> list_effect c d"

lemma same_io_client: "same_io c d \<Longrightarrow> same_client c d"
  by (simp add: same_io_def list_effect_def same_client_def list_effect_def)

lemma same_client_refl [simp]: "same_client c c"
  by (simp add: same_client_def list_effect_def)

lemma list_effect_trans: "list_effect c d \<Longrightarrow> list_effect d e \<Longrightarrow> self d = self c \<Longrightarrow> list_effect c e"
  unfolding list_effect_def
  by (cases "freed c"; cases "freed d"; cases "freed e"; simp)

lemma same_client_trans:
  assumes "same_client c d" and "same_client d e"
  shows "same_client c e"
proof -
  have "list_effect c e"
    using assms list_effect_trans unfolding same_client_def by blast
  moreover have "prefix (from_socks c) (from_socks e)"
    using assms prefix_order.order_trans unfolding same_client_def by blast
  ultimately show ?thesis
    using assms by (simp add: same_client_def)
qed

lemma murder_ok:
  assumes "client_inv c" and "\<not> freed c"
  shows "\<exists>d. client_murder c = Some d \<and> freed d \<and> client_inv d \<and> same_io c d"
proof (cases "client_closed c")
  case True
  let ?c = "(socks_client_free c)\<lparr>socks_closed := True\<rparr>"
  note lp = live_parts [OF assms]
  have "down_inv ?c" "client_closed ?c" "socks_closed ?c"
    using live_down [OF assms] True
    by (simp_all add: down_inv_def socks_client_free_def shared_inv_def dead_inv_def)
  from dealloc_ok [OF this] obtain d where "client_dealloc ?c = Some d" "freed d" "client_inv d" "same_io ?c d"
    by blast
  moreover have "client_murder c = client_dealloc ?c"
    using True assms lp(7) by (simp add: client_murder_def)
  ultimately show ?thesis by (auto simp: same_io_def list_effect_def socks_client_free_def)
next
  case False
  let ?c = "c\<lparr>cb_err := False, cb_recv := False, cb_sent := False\<rparr>"
  note lp = live_parts [OF assms]
  have "\<not> freed ?c" "\<not> aborted ?c" "pcb_live ?c" "dead_inv ?c"
    using assms lp(2,6,10) False by (simp_all add: dead_inv_def)
  then obtain fr where a: "client_abort_pcb ?c = Some (abort_pcb_state fr ?c)"
      "dead_aborted ?c = DFrame \<longrightarrow> fr = 1"
    using abort_pcb_ok by blast
  define e where "e = (abort_pcb_state fr ?c)\<lparr>client_closed := True\<rparr>"
  define e' where "e' = (if \<not> socks_closed e then (socks_client_free e)\<lparr>socks_closed := True\<rparr> else e)"
  have "down_inv e"
    using live_down [OF assms] a(2) lp(6) False
    by (simp add: e_def abort_pcb_state_def down_inv_def shared_inv_def dead_inv_def)
  then have "down_inv e'" "client_closed e'" "socks_closed e'"
    by (simp_all add: e'_def down_inv_def shared_inv_def dead_inv_def socks_client_free_def e_def)
  from dealloc_ok [OF this] obtain d where d: "client_dealloc e' = Some d" "freed d" "client_inv d" "same_io e' d"
    by blast
  have io: "same_io c d"
    using d(4) by (simp add: same_io_def list_effect_def e'_def e_def abort_pcb_state_def socks_client_free_def split: if_splits)
  have "client_murder c = client_dealloc e'"
    using False assms a(1) \<open>pcb_live ?c\<close>
    by (simp add: client_murder_def remove_callbacks_eq e_def [symmetric] Let_def e'_def [symmetric])
  with d io show ?thesis by auto
qed

lemma send_done_ok:
  assumes inv: "client_inv c" and en: "job_enabled (SendDone n) c"
  shows "\<exists>d. run_job env (SendDone n) c = Some d \<and> client_inv d \<and> same_client c d \<and>
    (freed d \<longrightarrow> buf d = [])"
proof -
  have c: "\<not> freed c" "\<not> socks_closed c" "0 < n" "send_busy c \<noteq> None"
    using en by (auto split: option.splits)
  note lp = live_parts [OF inv c(1)]
  obtain m where m: "send_busy c = Some m" "n \<le> m" "m \<le> length (buf c)" "socks_up c"
    using en lp(3) by (auto simp: send_inv_def split: option.splits)
  have ne: "buf c \<noteq> []" using m c by auto
  define e where "e = c\<lparr>send_busy := None, to_socks := to_socks c @ take n (buf c),
    buf := drop n (buf c), recved := recved c + (if client_closed c then 0 else n)\<rparr>"
  have run: "run_job env (SendDone n) c =
     (if 0 < length (buf e) then Some (e\<lparr>send_busy := Some (length (buf e))\<rparr>)
      else if client_closed e then client_free_socks env e else Some e)"
    using c m lp(10) ne
    by (cases "client_closed c")
      (simp_all add: client_socks_send_handler_done_def tcp_recved_def e_def
        StreamPassInterface_Sender_Send_def)
  have sh: "shared_inv e" using lp(1) by (simp add: shared_inv_def e_def)
  have rv: "recv_inv e" using lp(4) by (simp add: recv_inv_def e_def)
  have sc: "same_client c e" by (simp add: same_client_def list_effect_def e_def)
  consider "0 < length (buf e)" | "buf e = []" "client_closed e" | "buf e = []" "\<not> client_closed e"
    by blast
  then show ?thesis
  proof cases
    case 1
    let ?d = "e\<lparr>send_busy := Some (length (buf e))\<rparr>"
    have "client_inv ?d"
    proof (rule client_invI)
      show "shared_inv ?d" "dead_inv ?d" "recv_inv ?d"
        using sh rv lp(2) by (simp_all add: shared_inv_def dead_inv_def recv_inv_def e_def)
      show "send_inv ?d"
        using lp(3) m 1 c by (auto simp: send_inv_def e_def)
    qed (use lp(5-) c 1 in \<open>simp_all add: e_def\<close>)
    with 1 run sc c(1) show ?thesis by (simp add: same_client_def list_effect_def e_def)
  next
    case 2
    have "down_inv e"
      using live_down [OF inv c(1)] sh m by (auto simp: down_inv_def e_def dead_inv_def)
    moreover have "\<not> socks_closed e" using c by (simp add: e_def)
    ultimately obtain d where "client_free_socks env e = Some d" "client_inv d" "same_io e d"
      using free_socks_closed_ok 2 by blast
    moreover from this have "buf d = []" using 2 by (simp add: same_io_def)
    ultimately show ?thesis
      using 2 run sc same_client_trans same_io_client by auto
  next
    case 3
    have "client_inv e"
    proof (rule client_invI)
      show "shared_inv e" "dead_inv e" "recv_inv e"
        using sh rv lp(2) by (simp_all add: dead_inv_def e_def)
      show "send_inv e"
        using lp(3) m 3 c by (auto simp: send_inv_def e_def)
    qed (use lp(5-) c 3 in \<open>simp_all add: e_def\<close>)
    with 3 run sc show ?thesis by simp
  qed
qed


text \<open>The state after the write loop has handed the buffer up to position \<open>t\<close> to lwIP.\<close>

definition wrote :: "int \<Rightarrow> cstate \<Rightarrow> cstate" where
  "wrote t c = c\<lparr>socks_recv_buf_sent := t,
     socks_recv_tcp_pending := socks_recv_tcp_pending c + (t - socks_recv_buf_sent c),
     to_client := to_client c @
       take (nat (t - socks_recv_buf_sent c)) (drop (nat (socks_recv_buf_sent c)) (socks_recv_buf c))\<rparr>"

lemma wrote_self: "wrote (socks_recv_buf_sent c) c = c"
  by (simp add: wrote_def)

lemma wrote_wrote:
  assumes "0 \<le> socks_recv_buf_sent c" and "socks_recv_buf_sent c \<le> t" and "t \<le> u"
  shows "wrote u (wrote t c) = wrote u c"
proof -
  have "nat (u - socks_recv_buf_sent c) = nat (t - socks_recv_buf_sent c) + nat (u - t)"
    and "nat t = nat (t - socks_recv_buf_sent c) + nat (socks_recv_buf_sent c)"
    using assms by auto
  then show ?thesis
    by (simp add: wrote_def take_add)
qed

lemma send_out_loop_ok:
  assumes "pcb_live c" and "0 \<le> socks_recv_buf_sent c" and "socks_recv_buf_sent c < socks_recv_buf_used c"
  shows "\<exists>f t. send_out_loop env n c = Some (f, wrote t c) \<and> socks_recv_buf_sent c \<le> t \<and>
    t \<le> socks_recv_buf_used c"
  using assms
proof (induction env n c rule: send_out_loop.induct)
  case (1 env n c)
  define w where "w = min (socks_recv_buf_used c - socks_recv_buf_sent c) (int (sndbuf env n))"
  define e where "e = wrote (socks_recv_buf_sent c + w) c"
  have w: "0 \<le> w" "socks_recv_buf_sent c + w \<le> socks_recv_buf_used c"
    using 1(4) by (auto simp: w_def)
  have e: "pcb_live e" "socks_recv_buf_sent e = socks_recv_buf_sent c + w"
    "socks_recv_buf_used e = socks_recv_buf_used c"
    using 1(2) by (simp_all add: e_def wrote_def)
  have run: "send_out_loop env n c =
     (if w = 0 then Some (False, c)
      else if write_err env n \<noteq> ERR_OK then Some (write_err env n \<noteq> ERR_MEM, c)
      else if socks_recv_buf_sent e < socks_recv_buf_used e then send_out_loop env (n + 1) e
      else Some (False, e))"
    using 1(2,4)
    by (subst send_out_loop.simps) (simp add: Let_def w_def [symmetric] e_def wrote_def)
  show ?case
  proof (cases "w = 0 \<or> write_err env n \<noteq> ERR_OK")
    case True
    with run 1(4) show ?thesis
      by (metis order.refl less_imp_le wrote_self)
  next
    case ok: False
    show ?thesis
    proof (cases "socks_recv_buf_sent e < socks_recv_buf_used e")
      case True
      have "\<exists>f t. send_out_loop env (n + 1) e = Some (f, wrote t e) \<and> socks_recv_buf_sent e \<le> t \<and>
        t \<le> socks_recv_buf_used e"
      proof (rule 1(1) [OF 1(4) 1(2) w_def])
        show "w \<noteq> 0" "\<not> write_err env n \<noteq> ERR_OK" using ok by auto
        show "e = c\<lparr>socks_recv_buf_sent := socks_recv_buf_sent c + w,
          socks_recv_tcp_pending := socks_recv_tcp_pending c + w,
          to_client := to_client c @ take (nat w) (drop (nat (socks_recv_buf_sent c)) (socks_recv_buf c))\<rparr>"
          by (simp add: e_def wrote_def)
      qed (use True e w 1(3) in auto)
      then obtain f t where "send_out_loop env (n + 1) e = Some (f, wrote t e)"
        "socks_recv_buf_sent e \<le> t" "t \<le> socks_recv_buf_used e" by blast
      moreover from this have "wrote t e = wrote t c"
        using 1(3) w e by (auto simp: e_def intro: wrote_wrote)
      ultimately show ?thesis
        using run ok True e w by auto
    next
      case False
      with run ok e w show ?thesis
        by (auto simp: e_def)
    qed
  qed
qed


text \<open>The states in which the write loop starts.\<close>

definition out_ready :: "cstate \<Rightarrow> bool" where
  "out_ready c \<longleftrightarrow>
     \<not> freed c \<and> shared_inv c \<and> dead_inv c \<and> send_inv c \<and> self c \<in> set (tcp_clients c) \<and>
     \<not> client_closed c \<and> \<not> aborted c \<and> socks_up c \<and> pcb_live c \<and> cb_err c \<and>
     cb_recv c = (\<not> socks_closed c) \<and> cb_sent c \<and> \<not> recv_busy c \<and> \<not> socks_recv_waiting c \<and>
     socks_recv_buf_used c = int (length (socks_recv_buf c)) \<and>
     length (socks_recv_buf c) \<le> CLIENT_SOCKS_RECV_BUF_SIZE \<and>
     0 \<le> socks_recv_buf_sent c \<and> socks_recv_buf_sent c < socks_recv_buf_used c \<and>
     0 \<le> socks_recv_tcp_pending c \<and> recv_count (socks_recv_tcp_pending c) (acked c) (to_client c) \<and>
     to_client c @ drop (nat (socks_recv_buf_sent c)) (socks_recv_buf c) = from_socks c"

lemma wrote_io:
  assumes "out_ready c" and "socks_recv_buf_sent c \<le> t" and "t \<le> socks_recv_buf_used c"
  shows "to_client (wrote t c) @ drop (nat t) (socks_recv_buf c) = from_socks c"
    and "recv_count (socks_recv_tcp_pending (wrote t c)) (acked c) (to_client (wrote t c))"
    and "prefix (to_client (wrote t c)) (from_socks c)"
proof -
  let ?s = "socks_recv_buf_sent c"
  have "0 \<le> ?s" using assms(1) by (simp add: out_ready_def)
  with assms(2) have "nat t = nat (t - ?s) + nat ?s" by simp
  then have "take (nat (t - ?s)) (drop (nat ?s) (socks_recv_buf c)) @ drop (nat t) (socks_recv_buf c)
      = drop (nat ?s) (socks_recv_buf c)"
    by (metis append_take_drop_id drop_drop)
  then show e: "to_client (wrote t c) @ drop (nat t) (socks_recv_buf c) = from_socks c"
    using assms by (simp add: wrote_def out_ready_def)
  then show "prefix (to_client (wrote t c)) (from_socks c)"
    by (metis prefixI)
  show "recv_count (socks_recv_tcp_pending (wrote t c)) (acked c) (to_client (wrote t c))"
    using assms by (auto simp: wrote_def recv_count_def out_ready_def)
qed

lemma wrote_down:
  assumes "out_ready c" and "socks_recv_buf_sent c \<le> t" and "t \<le> socks_recv_buf_used c"
  shows "down_inv (wrote t c)" and "busy_inv (wrote t c)" and "\<not> client_closed (wrote t c)"
    and "pcb_live (wrote t c)" and "\<not> aborted (wrote t c)" and "shared_inv (wrote t c)"
proof -
  show sh: "shared_inv (wrote t c)"
    using assms wrote_io(3) [OF assms] by (simp add: wrote_def out_ready_def shared_inv_def)
  show "down_inv (wrote t c)"
    using assms sh by (auto simp: wrote_def out_ready_def down_inv_def dead_inv_def send_inv_def)
  show "busy_inv (wrote t c)" "\<not> client_closed (wrote t c)" "pcb_live (wrote t c)" "\<not> aborted (wrote t c)"
    using assms by (simp_all add: wrote_def out_ready_def busy_inv_def send_inv_def)
qed

lemma wrote_waiting_inv:
  assumes "out_ready c" and "socks_recv_buf_sent c \<le> t" and "t < socks_recv_buf_used c"
    and "0 < socks_recv_tcp_pending (wrote t c)"
  shows "client_inv ((wrote t c)\<lparr>socks_recv_waiting := True\<rparr>)"
proof -
  note w = wrote_io [OF assms(1,2) less_imp_le [OF assms(3)]] wrote_down [OF assms(1,2) less_imp_le [OF assms(3)]]
  show ?thesis
  proof (rule client_invI)
    show "shared_inv ((wrote t c)\<lparr>socks_recv_waiting := True\<rparr>)"
      using w(9) by (simp add: shared_inv_def)
    show "dead_inv ((wrote t c)\<lparr>socks_recv_waiting := True\<rparr>)" "send_inv ((wrote t c)\<lparr>socks_recv_waiting := True\<rparr>)"
      using assms(1) by (auto simp: wrote_def out_ready_def dead_inv_def send_inv_def)
    show "recv_inv ((wrote t c)\<lparr>socks_recv_waiting := True\<rparr>)"
      using assms w(1,2) by (auto simp: recv_inv_def recv_queued_def wrote_def out_ready_def)
  qed (use assms(1) in \<open>simp_all add: wrote_def out_ready_def\<close>)
qed

text \<open>When the whole buffer was handed over, receiving goes on unless SOCKS is closed.\<close>

lemma wrote_all_inv:
  assumes "out_ready c" and "b = (\<not> socks_closed c)"
  shows "client_inv ((wrote (socks_recv_buf_used c) c)\<lparr>socks_recv_buf_used := -1, recv_busy := b\<rparr>)"
    (is "client_inv ?d")
proof -
  have le: "socks_recv_buf_sent c \<le> socks_recv_buf_used c" "socks_recv_buf_used c \<le> socks_recv_buf_used c"
    using assms(1) by (simp_all add: out_ready_def)
  note w = wrote_io [OF assms(1) le] wrote_down [OF assms(1) le]
  have all: "to_client (wrote (socks_recv_buf_used c) c) = from_socks c"
    using w(1) assms(1) by (simp add: out_ready_def)
  have pos: "0 < socks_recv_tcp_pending (wrote (socks_recv_buf_used c) c)"
    using assms(1) by (simp add: wrote_def out_ready_def)
  have same: "acked (wrote t c) = acked c" "from_socks (wrote t c) = from_socks c"
    "socks_up (wrote t c) = socks_up c" "socks_closed (wrote t c) = socks_closed c" for t
    by (simp_all add: wrote_def)
  show ?thesis
  proof (rule client_invI)
    show "shared_inv ?d" using w(9) by (simp add: shared_inv_def)
    show "dead_inv ?d" "send_inv ?d"
      using assms(1) by (auto simp: wrote_def out_ready_def dead_inv_def send_inv_def)
    show "recv_inv ?d"
      using assms w(2) all pos by (simp add: recv_inv_def recv_idle_def same out_ready_def)
  qed (use assms(1) in \<open>simp_all add: wrote_def out_ready_def\<close>)
qed


text \<open>The outcomes of \<open>client_socks_recv_send_out\<close>.\<close>

definition sent_out :: "int \<Rightarrow> cstate \<Rightarrow> bool" where
  "sent_out r d \<longleftrightarrow>
     (if r < 0 then client_inv d
      else if socks_recv_buf_used d = -1
      then 0 < socks_recv_tcp_pending d \<and> \<not> freed d \<and> \<not> client_closed d \<and> socks_up d \<and> \<not> recv_busy d \<and>
           client_inv (d\<lparr>recv_busy := \<not> socks_closed d\<rparr>)
      else 0 < socks_recv_tcp_pending d \<and> client_inv d)"

lemma send_out_abort:
  assumes "down_inv e" "busy_inv e" "\<not> client_closed e" "pcb_live e" "\<not> aborted e" "same_client c e"
  shows "\<exists>d. client_abort_client env e = Some d \<and> sent_out (-1) d \<and> same_client c d"
  using abort_client_ok [OF assms(1-5), of env] assms(6) same_io_client same_client_trans
  by (fastforce simp: sent_out_def)

lemma send_out_ok:
  assumes "out_ready c"
  shows "\<exists>r d. client_socks_recv_send_out env c = Some (r, d) \<and> sent_out r d \<and> same_client c d \<and>
    (r < 0 \<or> socks_closed d = socks_closed c)"
proof -
  have c: "\<not> freed c" "\<not> client_closed c" "socks_up c" "pcb_live c" "0 < socks_recv_buf_used c"
    "0 \<le> socks_recv_buf_sent c" "socks_recv_buf_sent c < socks_recv_buf_used c" "\<not> socks_recv_waiting c"
    "\<not> recv_busy c" "0 \<le> socks_recv_tcp_pending c"
    using assms by (auto simp: out_ready_def)
  obtain f t where loop: "send_out_loop env 0 c = Some (f, wrote t c)"
    and t: "socks_recv_buf_sent c \<le> t" "t \<le> socks_recv_buf_used c"
    using send_out_loop_ok [OF c(4,6,7)] by blast
  define e where "e = wrote t c"
  note w = wrote_down [OF assms t, folded e_def]
  have sc: "same_client c e" by (simp add: e_def wrote_def same_client_def list_effect_def)
  obtain a where a: "client_abort_client env e = Some a" "sent_out (-1) a" "same_client c a"
    using send_out_abort [OF w(1-5) sc] by blast
  have e: "socks_recv_buf_sent e = t" "socks_recv_buf_used e = socks_recv_buf_used c" "\<not> freed e"
    "socks_recv_tcp_pending e = socks_recv_tcp_pending c + (t - socks_recv_buf_sent c)" "socks_up e"
    "socks_closed e = socks_closed c" "\<not> recv_busy e"
    using c by (simp_all add: e_def wrote_def)
  have run: "client_socks_recv_send_out env c =
      (if f \<or> output_err env \<noteq> ERR_OK \<or> (t < socks_recv_buf_used c \<and> socks_recv_tcp_pending e = 0)
       then Some (-1, a)
       else if t < socks_recv_buf_used c then Some (0, e\<lparr>socks_recv_waiting := True\<rparr>)
       else Some (0, e\<lparr>socks_recv_buf_used := -1\<rparr>))"
    using c loop a(1) w(4) e by (simp add: client_socks_recv_send_out_def e_def [symmetric])
  define bad where "bad = (f \<or> output_err env \<noteq> ERR_OK \<or> (t < socks_recv_buf_used c \<and> socks_recv_tcp_pending e = 0))"
  consider bad | "\<not> bad" "t < socks_recv_buf_used c" | "\<not> bad" "t = socks_recv_buf_used c"
    using t(2) by (meson le_less)
  then show ?thesis
  proof cases
    case 1
    then have "client_socks_recv_send_out env c = Some (-1, a)"
      using run by (simp add: bad_def)
    with a show ?thesis by auto
  next
    case 2
    let ?d = "e\<lparr>socks_recv_waiting := True\<rparr>"
    have run2: "client_socks_recv_send_out env c = Some (0, ?d)" "socks_recv_tcp_pending e \<noteq> 0"
      using 2 run by (auto simp: bad_def)
    have "0 < socks_recv_tcp_pending e" using run2(2) e(4) c(10) t by simp
    then have "client_inv ?d"
      using wrote_waiting_inv [OF assms t(1) 2(2)] by (simp add: e_def)
    then have "sent_out 0 ?d"
      using \<open>0 < socks_recv_tcp_pending e\<close> e(2) c(5) by (simp add: sent_out_def)
    moreover have "same_client c ?d" "socks_closed ?d = socks_closed c"
      using sc e(6) by (simp_all add: same_client_def list_effect_def)
    ultimately show ?thesis using run2(1) by blast
  next
    case 3
    let ?d = "e\<lparr>socks_recv_buf_used := -1\<rparr>"
    have run3: "client_socks_recv_send_out env c = Some (0, ?d)"
      using 3 run by (simp add: bad_def)
    have "0 < socks_recv_tcp_pending e" using 3 e(4) c(7,10) by simp
    moreover have "client_inv (?d\<lparr>recv_busy := \<not> socks_closed ?d\<rparr>)"
      using wrote_all_inv [OF assms, of "\<not> socks_closed c"] 3(2) e(6) by (simp add: e_def)
    ultimately have "sent_out 0 ?d"
      using e(3,5,7) w(3) by (simp add: sent_out_def)
    moreover have "same_client c ?d" "socks_closed ?d = socks_closed c"
      using sc e(6) by (simp_all add: same_client_def list_effect_def)
    ultimately show ?thesis using run3 by blast
  qed
qed

lemma recv_initiate_ok:
  assumes "sent_out r d" and "\<not> r < 0" and "socks_recv_buf_used d = -1" and "\<not> socks_closed d"
  shows "\<exists>e. client_socks_recv_initiate d = Some e \<and> client_inv e \<and> same_client d e \<and> \<not> freed e"
proof -
  have "client_socks_recv_initiate d = Some (d\<lparr>recv_busy := True\<rparr>)"
    using assms by (simp add: sent_out_def client_socks_recv_initiate_def StreamRecvInterface_Receiver_Recv_def)
  moreover have "client_inv (d\<lparr>recv_busy := True\<rparr>)" "\<not> freed d"
    using assms by (simp_all add: sent_out_def)
  ultimately show ?thesis by (simp add: same_client_def list_effect_def)
qed

lemma recv_done_ok:
  assumes inv: "client_inv c" and en: "job_enabled (RecvDone data) c"
  shows "\<exists>d. run_job env (RecvDone data) c = Some d \<and> client_inv d \<and> same_client c d"
proof -
  have c: "\<not> freed c" "\<not> socks_closed c" "recv_busy c" "data \<noteq> []" "length data \<le> CLIENT_SOCKS_RECV_BUF_SIZE"
    using en by auto
  note lp = live_parts [OF inv c(1)]
  have up: "socks_up c" and idle: "socks_recv_buf_used c = -1"
    using lp(4) c(3) by (auto simp: recv_inv_def)
  define e where "e = c\<lparr>recv_busy := False, socks_recv_buf := data, from_socks := from_socks c @ data\<rparr>"
  have sc: "same_client c e" by (simp add: e_def same_client_def list_effect_def)
  have sh: "shared_inv e" using lp(1) by (auto simp: e_def shared_inv_def)
  show ?thesis
  proof (cases "client_closed c")
    case True
    have "client_inv e"
    proof (rule client_invI)
      show "dead_inv e" "send_inv e" "recv_inv e"
        using lp(2,3,4) True up by (simp_all add: dead_inv_def send_inv_def recv_inv_def e_def)
    qed (use lp(5-) c sh in \<open>simp_all add: e_def\<close>)
    moreover have "run_job env (RecvDone data) c = Some e"
      using c True up idle by (simp add: client_socks_recv_handler_done_def e_def)
    ultimately show ?thesis using sc by blast
  next
    case False
    define e' where "e' = e\<lparr>socks_recv_buf_used := int (length data), socks_recv_buf_sent := 0,
      socks_recv_waiting := False\<rparr>"
    have "recv_count (socks_recv_tcp_pending c) (acked c) (to_client c)" "to_client c = from_socks c"
      "0 \<le> socks_recv_tcp_pending c"
      using lp(4) up False idle by (auto simp: recv_inv_def recv_idle_def)
    moreover have "shared_inv e'" "dead_inv e'" "send_inv e'"
      using sh lp(2,3) by (simp_all add: shared_inv_def dead_inv_def send_inv_def e_def e'_def)
    ultimately have "out_ready e'"
      using lp(5-) up False c by (simp add: out_ready_def e_def e'_def)
    from send_out_ok [OF this, of env] obtain r d where
      d: "client_socks_recv_send_out env e' = Some (r, d)" "sent_out r d" "same_client e' d"
        "r < 0 \<or> socks_closed d = socks_closed e'" by blast
    have "same_client c e'"
      by (simp add: e'_def e_def same_client_def list_effect_def)
    then have sc': "same_client c d"
      using d(3) same_client_trans by blast
    have run: "run_job env (RecvDone data) c =
        (if r < 0 then Some d else if socks_recv_buf_used d = -1 then client_socks_recv_initiate d else Some d)"
      using c False up idle d(1)
      by (simp add: client_socks_recv_handler_done_def e_def [symmetric] e'_def [symmetric])
         (simp add: e_def e'_def)
    show ?thesis
    proof (cases "r < 0 \<or> socks_recv_buf_used d \<noteq> -1")
      case True
      then have "client_inv d" using d(2) by (auto simp: sent_out_def split: if_splits)
      with True run sc' show ?thesis by auto
    next
      case more: False
      then have "\<not> socks_closed d" using d(4) c by (simp add: e'_def e_def)
      with recv_initiate_ok [OF d(2)] more obtain e2 where
        "client_socks_recv_initiate d = Some e2" "client_inv e2" "same_client d e2" by blast
      with more run sc' show ?thesis
        using same_client_trans by auto
    qed
  qed
qed

lemma socks_up_ok:
  assumes inv: "client_inv c" and c: "\<not> freed c" "\<not> socks_closed c" "\<not> socks_up c"
  shows "\<exists>d. client_socks_handler env EVENT_UP c = Some d \<and> client_inv d \<and> same_client c d"
proof -
  note lp = live_parts [OF inv c(1)]
  define d where "d = c\<lparr>send_busy := (if buf c = [] then None else Some (length (buf c))),
    recv_busy := \<not> client_closed c, socks_recv_buf_used := -1, socks_recv_tcp_pending := 0,
    cb_sent := \<not> client_closed c, socks_up := True\<rparr>"
  have "client_socks_handler env EVENT_UP c = Some d"
  proof (cases "client_closed c")
    case True
    then show ?thesis
      using c lp(8,10,13)
      by (simp add: client_socks_handler_def client_send_to_socks_def StreamPassInterface_Sender_Send_def d_def)
  next
    case False
    then show ?thesis
      using c lp(10)
      by (simp add: client_socks_handler_def client_send_to_socks_def StreamPassInterface_Sender_Send_def
          client_socks_recv_initiate_def StreamRecvInterface_Receiver_Recv_def tcp_sent_def d_def)
  qed
  moreover have "client_inv d"
  proof (rule client_invI)
    show "shared_inv d" "dead_inv d"
      using lp(1,2) by (simp_all add: shared_inv_def dead_inv_def d_def)
    show "send_inv d"
      using lp(3) c by (auto simp: send_inv_def d_def)
    show "recv_inv d"
      using lp(4) c by (auto simp: recv_inv_def d_def recv_count_def recv_idle_def)
  qed (use lp(5-) c in \<open>simp_all add: d_def\<close>)
  moreover have "same_client c d" by (simp add: same_client_def list_effect_def d_def)
  ultimately show ?thesis by blast
qed

lemma job_ok:
  assumes "client_inv c" and "job_enabled j c"
  shows "\<exists>d. run_job env j c = Some d \<and> client_inv d \<and> same_client c d"
proof (cases j)
  case (SocksEvent ev)
  have free: "\<exists>d. client_free_socks env c = Some d \<and> client_inv d \<and> same_client c d"
    if "\<not> freed c" "\<not> socks_closed c"
    using free_socks_ok [OF assms(1) that] same_io_client by blast
  show ?thesis
    using assms free socks_up_ok SocksEvent
    by (cases ev) (auto simp: client_socks_handler_def)
qed (use assms send_done_ok recv_done_ok in blast)+

lemma sync_ok:
  assumes "client_inv c"
  shows "\<exists>d. SYNC_COMMIT js c = Some d \<and> client_inv d \<and> same_client c d"
  using assms
proof (induction js arbitrary: c)
  case (Cons j js)
  obtain env jb where j: "j = (env, jb)" by fastforce
  show ?case
  proof (cases "job_enabled jb c")
    case True
    from job_ok [OF Cons.prems True, of env] obtain d where
      "run_job env jb c = Some d" "client_inv d" "same_client c d" by blast
    with Cons.IH [of d] True j show ?thesis
      using same_client_trans by fastforce
  qed (use Cons j in auto)
qed simp

section \<open>Callbacks\<close>

lemma enter_ok:
  assumes inv: "client_inv c" and c: "\<not> freed c" "\<not> client_closed c" "dead_aborted c \<noteq> DFrame"
  shows "dead_aborted c = DNull" and "client_inv (c\<lparr>frame := 0, dead_aborted := DFrame\<rparr>)"
    and "aborts c = 0"
proof -
  note lp = live_parts [OF inv c(1)]
  show "dead_aborted c = DNull"
    using lp(2,6) c by (cases "dead_aborted c") (auto simp: dead_inv_def)
  show "aborts c = 0" using lp(1,6) c by (simp add: shared_inv_def)
  show "client_inv (c\<lparr>frame := 0, dead_aborted := DFrame\<rparr>)"
  proof (rule client_invI)
    show "shared_inv (c\<lparr>frame := 0, dead_aborted := DFrame\<rparr>)" "dead_inv (c\<lparr>frame := 0, dead_aborted := DFrame\<rparr>)"
      "send_inv (c\<lparr>frame := 0, dead_aborted := DFrame\<rparr>)" "recv_inv (c\<lparr>frame := 0, dead_aborted := DFrame\<rparr>)"
      using lp(1-4,6) c by (simp_all add: shared_inv_def dead_inv_def send_inv_def recv_inv_def)
  qed (use lp(5-) c in simp_all)
qed

lemma leave_ok:
  assumes inv: "client_inv d" and d: "dead_aborted d = DFrame"
  shows "\<exists>e. DEAD_LEAVE2 DNull d = Some e \<and> client_inv e \<and> dead_aborted e \<noteq> DFrame \<and>
    callback_result e = (if aborts d = 1 then ERR_ABRT else ERR_OK) \<and> aborts e = aborts d \<and>
    self e = self d \<and> freed e = freed d \<and> tcp_clients e = tcp_clients d"
proof (cases "freed d")
  case True
  then have "frame d = (if aborted d then 1 else -1)" "aborts d = of_bool (aborted d)"
    using inv d by (simp_all add: client_inv_def gone_inv_def shared_inv_def)
  then show ?thesis using True inv
    by (simp add: DEAD_LEAVE2_def callback_result_def client_inv_def gone_inv_def shared_inv_def)
next
  case False
  note lp = live_parts [OF inv False]
  have f: "frame d = of_bool (aborted d)" "aborts d = of_bool (aborted d)"
    using lp(1,2) d by (simp_all add: dead_inv_def shared_inv_def)
  let ?e = "d\<lparr>dead_aborted := (if aborted d then DDangling else DNull)\<rparr>"
  have "client_inv ?e"
  proof (rule client_invI)
    show "shared_inv ?e" "dead_inv ?e" "send_inv ?e" "recv_inv ?e"
      using lp(1-4) by (simp_all add: shared_inv_def dead_inv_def send_inv_def recv_inv_def)
  qed (use lp(5-) False in simp_all)
  moreover have "DEAD_LEAVE2 DNull d = Some ?e"
    using f False by (simp add: DEAD_LEAVE2_def)
  ultimately show ?thesis
    using f by (simp add: callback_result_def)
qed

text \<open>What a callback has to end in: the invariant, and the result that lwIP relies on.\<close>

definition callback_ok :: "cstate \<Rightarrow> int \<Rightarrow> cstate \<Rightarrow> bool" where
  "callback_ok c r e \<longleftrightarrow>
     client_inv e \<and> dead_aborted e \<noteq> DFrame \<and> (r = ERR_ABRT \<longleftrightarrow> aborts e = 1) \<and>
     r \<in> {ERR_OK, ERR_ABRT} \<and> self e = self c \<and> list_effect c e"

lemma callback_end:
  assumes "client_inv d" and "dead_aborted d = DFrame" and "self d = self c" and "list_effect c d"
  shows "\<exists>r e. (do { c \<leftarrow> DEAD_LEAVE2 DNull d; Some (callback_result c, c) }) = Some (r, e) \<and> callback_ok c r e"
proof -
  from leave_ok [OF assms(1,2)] obtain e where
    e: "DEAD_LEAVE2 DNull d = Some e" "client_inv e" "dead_aborted e \<noteq> DFrame"
      "callback_result e = (if aborts d = 1 then ERR_ABRT else ERR_OK)" "aborts e = aborts d"
      "self e = self d" "freed e = freed d" "tcp_clients e = tcp_clients d" by blast
  moreover have "list_effect c e" using assms(4) e(7,8) by (simp add: list_effect_def)
  ultimately show ?thesis using assms(3) by (simp add: callback_ok_def err_defs)
qed

lemma err_func_ok:
  assumes inv: "client_inv c" and c: "\<not> freed c" "\<not> client_closed c"
    and q: "dead_aborted c \<noteq> DFrame"
  shows "\<exists>d. client_err_func env (c\<lparr>pcb_live := False, cb_err := False, cb_recv := False, cb_sent := False\<rparr>) = Some d \<and>
    client_inv d \<and> dead_aborted d \<noteq> DFrame \<and> self d = self c \<and> list_effect c d"
proof -
  let ?c = "c\<lparr>pcb_live := False, cb_err := False, cb_recv := False, cb_sent := False\<rparr>"
  have "down_inv ?c" "busy_inv ?c"
    using live_down [OF inv c(1)] live_busy [OF inv c(1)]
    by (simp_all add: down_inv_def busy_inv_def shared_inv_def dead_inv_def)
  from handle_freed_ok [OF this, of env] c obtain d where
    "client_handle_freed_client env ?c = Some d" "client_inv d" "same_io ?c d" by auto
  with c q show ?thesis by (simp add: client_err_func_def same_io_def list_effect_def)
qed

lemma recv_func_ok:
  assumes inv: "client_inv c" and c: "\<not> freed c" "cb_recv c" "dead_aborted c \<noteq> DFrame"
    and p: "p \<noteq> Some []"
    and room: "case p of None \<Rightarrow> True | Some d \<Rightarrow> length (buf c) + length d \<le> TCP_WND"
  shows "\<exists>r e. client_recv_func env jobs p c = Some (r, e) \<and> callback_ok c r e"
proof -
  have cc: "\<not> client_closed c" "\<not> socks_closed c"
    using live_parts(12) [OF inv c(1)] c(2) by auto
  note en = enter_ok [OF inv c(1) cc(1) c(3)]
  define e where "e = c\<lparr>frame := 0, dead_aborted := DFrame\<rparr>"
  have e: "client_inv e" "\<not> freed e" "\<not> client_closed e" "\<not> socks_closed e" "dead_aborted e = DFrame" "cb_recv e"
    "buf e = buf c" "socks_up e = socks_up c"
    using en(2) cc c by (simp_all add: e_def)
  note lp = live_parts [OF e(1,2)]
  show ?thesis
  proof (cases p)
    case None
    obtain d where d: "client_free_client env e = Some d" "client_inv d" "dead_aborted d = DFrame"
        "self d = self c" "list_effect c d"
      using free_client_ok [OF live_down [OF e(1,2)] live_busy [OF e(1,2)] e(3)] lp(6,10) e(3,5)
      by (auto simp: same_io_def list_effect_def e_def)
    from callback_end [OF d(2-5)] d(1) show ?thesis
      using None c(1) cc en(1) by (simp add: client_recv_func_def DEAD_ENTER_def e_def)
  next
    case (Some data)
    define f where "f = e\<lparr>buf := buf e @ data, from_client := from_client e @ data\<rparr>"
    have data: "data \<noteq> []" "length (buf c) + length data \<le> TCP_WND" using p room Some by auto
    then have fits: "\<not> TCP_WND - length (buf c) < length data" by simp
    have sh: "shared_inv f" "dead_inv f" "recv_inv f"
      using lp(1,2,4) by (auto simp: shared_inv_def dead_inv_def recv_inv_def f_def)
    have run: "client_recv_func env jobs p c = Option.bind
        (if buf c = [] \<and> socks_up c then Option.bind (client_send_to_socks f) (SYNC_COMMIT jobs) else Some f)
        (\<lambda>d. do { c \<leftarrow> DEAD_LEAVE2 DNull d; Some (callback_result c, c) })"
      using Some c(1) cc en(1) data fits
      by (simp add: client_recv_func_def DEAD_ENTER_def e_def f_def Let_def)
    show ?thesis
    proof (cases "buf c = [] \<and> socks_up c")
      case True
      let ?g = "f\<lparr>send_busy := Some (length (buf f))\<rparr>"
      have "send_busy e = None"
        using lp(3) True cc e(7) by (cases "send_busy e") (auto simp: send_inv_def e_def)
      then have g: "client_send_to_socks f = Some ?g"
        using True data e by (simp add: client_send_to_socks_def f_def StreamPassInterface_Sender_Send_def e_def)
      have "client_inv ?g"
      proof (rule client_invI)
        show "shared_inv ?g" "dead_inv ?g" "recv_inv ?g"
          using sh by (simp_all add: shared_inv_def dead_inv_def recv_inv_def)
        show "send_inv ?g"
          using lp(3) e data True by (auto simp: send_inv_def f_def)
      qed (use lp(5-) e data in \<open>simp_all add: f_def\<close>)
      from sync_ok [OF this, of jobs] obtain d where
        d: "SYNC_COMMIT jobs ?g = Some d" "client_inv d" "same_client ?g d" by blast
      then have "dead_aborted d = DFrame" "self d = self c" "list_effect c d"
        using e(5) by (simp_all add: same_client_def list_effect_def f_def e_def)
      from callback_end [OF d(2) this] show ?thesis
        using run True g d(1) by simp
    next
      case False
      have "client_inv f"
      proof (rule client_invI)
        show "send_inv f"
        proof (cases "send_busy e")
          case None
          then have "socks_up e \<longrightarrow> buf e = []" using lp(3) e(4) by (simp add: send_inv_def)
          then have "\<not> socks_up e" using False unfolding e(7,8) by blast
          with lp(3) e(3,7) data show ?thesis by (simp add: send_inv_def f_def)
        next
          case (Some n)
          with lp(3) e(3,4,7) data show ?thesis by (simp add: send_inv_def f_def) linarith
        qed
      qed (use lp(5-) e data sh in \<open>simp_all add: f_def\<close>)
      moreover have "dead_aborted f = DFrame" "self f = self c" "list_effect c f"
        using e(5) by (simp_all add: f_def e_def list_effect_def)
      ultimately show ?thesis
        using callback_end [of f c] run False by simp
    qed
  qed
qed


lemma recv_busy_False:
  assumes "\<not> recv_busy d"
  shows "client_inv (d\<lparr>recv_busy := False\<rparr>) = client_inv d"
proof -
  have "d\<lparr>recv_busy := recv_busy d\<rparr> = d" by simp
  moreover have "recv_busy d = False" using assms by simp
  ultimately show ?thesis by (simp only:)
qed

lemma sent_func_ok:
  assumes inv: "client_inv c" and c: "\<not> freed c" "cb_sent c" "dead_aborted c \<noteq> DFrame"
    and len: "0 < len" "int len \<le> socks_recv_tcp_pending c"
  shows "\<exists>r e. client_sent_func env jobs len c = Some (r, e) \<and> callback_ok c r e"
proof -
  have cc: "\<not> client_closed c" "socks_up c"
    using live_parts(13) [OF inv c(1)] c(2) by auto
  note en = enter_ok [OF inv c(1) cc(1) c(3)]
  define e where "e = c\<lparr>frame := 0, dead_aborted := DFrame\<rparr>"
  have e: "client_inv e" "\<not> freed e" "\<not> client_closed e" "socks_up e" "dead_aborted e = DFrame" "cb_sent e"
    using en(2) cc c by (simp_all add: e_def)
  note lp = live_parts [OF e(1,2)]
  define f where "f = e\<lparr>socks_recv_tcp_pending := socks_recv_tcp_pending e - int len, acked := acked e + len\<rparr>"
  let ?tail = "\<lambda>d. do { c \<leftarrow> DEAD_LEAVE2 DNull d; Some (callback_result c, c) }"
  have tail: "\<exists>r e. Option.bind (Some d) ?tail = Some (r, e) \<and> callback_ok c r e"
    if "client_inv d" "dead_aborted d = DFrame" "self d = self c" "list_effect c d" for d
    using callback_end [OF that] by simp
  have same: "shared_inv f" "dead_inv f" "send_inv f"
    using lp(1-3) by (simp_all add: shared_inv_def dead_inv_def send_inv_def f_def)
  have cnt: "recv_count (socks_recv_tcp_pending f) (acked f) (to_client f)" "0 \<le> socks_recv_tcp_pending f"
    using lp(4) e len by (auto simp: recv_inv_def recv_count_def f_def e_def)
  show ?thesis
  proof (cases "socks_recv_buf_used c = -1")
    case True
    have idle: "recv_idle (socks_closed e) (recv_busy e) (socks_recv_tcp_pending e) (to_client e) (from_socks e)"
      using lp(4) e True by (simp add: recv_inv_def e_def)
    have run: "client_sent_func env jobs len c = Option.bind
        (if socks_closed f \<and> socks_recv_tcp_pending f = 0 then client_free_client env f else Some f) ?tail"
      using c(1) cc en(1) len True
      by (simp add: client_sent_func_def DEAD_ENTER_def e_def f_def Let_def)
    show ?thesis
    proof (cases "socks_closed f \<and> socks_recv_tcp_pending f = 0")
      case closed: True
      have "down_inv f" "busy_inv f"
        using live_down [OF e(1,2)] live_busy [OF e(1,2)] same cnt e(4)
        by (simp_all add: down_inv_def busy_inv_def f_def)
      then obtain d where d: "client_free_client env f = Some d" "client_inv d" "same_io f d"
        using free_client_ok [of f env] e(3) lp(6,10) by (auto simp: f_def)
      then have "dead_aborted d = DFrame" "self d = self c" "list_effect c d"
        using e(5) by (simp_all add: same_io_def list_effect_def f_def e_def)
      with tail d run closed show ?thesis by simp
    next
      case False
      have "client_inv f"
      proof (rule client_invI)
        show "recv_inv f"
          using lp(4) idle cnt False e True
          by (auto simp: recv_inv_def recv_idle_def f_def e_def)
      qed (use lp(5-) e same in \<open>simp_all add: f_def\<close>)
      moreover have "dead_aborted f = DFrame" "self f = self c" "list_effect c f"
        using e(5) by (simp_all add: f_def e_def list_effect_def)
      ultimately show ?thesis using tail run False by simp
    qed
  next
    case False
    define g where "g = f\<lparr>socks_recv_waiting := False\<rparr>"
    have q: "recv_queued (recv_busy e) (socks_recv_buf_used e) (socks_recv_buf_sent e) (socks_recv_waiting e)
        (socks_recv_tcp_pending e) (socks_recv_buf e) (to_client e) (from_socks e)"
      using lp(4) e False by (auto simp: recv_inv_def e_def)
    have "shared_inv g" "dead_inv g" "send_inv g"
      using same by (simp_all add: shared_inv_def dead_inv_def send_inv_def g_def)
    then have "out_ready g"
      using lp(5-) e q cnt by (simp add: out_ready_def g_def f_def recv_queued_def)
    from send_out_ok [OF this, of env] obtain r d where
      d: "client_socks_recv_send_out env g = Some (r, d)" "sent_out r d" "same_client g d"
        "r < 0 \<or> socks_closed d = socks_closed g" by blast
    have fd: "dead_aborted d = DFrame" "self d = self c" "list_effect c d"
      using d(3) e(5) by (simp_all add: same_client_def list_effect_def g_def f_def e_def)
    have q': "0 < socks_recv_buf_used c" "socks_recv_waiting c" "socks_recv_buf_sent c < socks_recv_buf_used c"
      using q by (auto simp: recv_queued_def e_def)
    have run: "client_sent_func env jobs len c = Option.bind
        (if r < 0 then Some d
         else ASSERT (0 < socks_recv_tcp_pending d)
           (if socks_recv_buf_used d = -1 \<and> \<not> socks_closed d
            then Option.bind (client_socks_recv_initiate d) (SYNC_COMMIT jobs) else Some d)) ?tail"
      using c(1) cc en(1) len q' d(1)
      by (simp add: client_sent_func_def DEAD_ENTER_def Let_def g_def f_def e_def)
    consider "r < 0 \<or> socks_recv_buf_used d \<noteq> -1 \<or> socks_closed d" | "\<not> r < 0" "socks_recv_buf_used d = -1" "\<not> socks_closed d"
      by blast
    then show ?thesis
    proof cases
      case 1
      have "client_inv d" "r < 0 \<or> 0 < socks_recv_tcp_pending d"
        using 1 d(2) by (auto simp: sent_out_def recv_busy_False split: if_splits)
      with 1 tail [OF _ fd] run show ?thesis by (auto split: if_splits)
    next
      case 2
      with recv_initiate_ok [OF d(2)] obtain h where
        h: "client_socks_recv_initiate d = Some h" "client_inv h" "same_client d h" by blast
      from sync_ok [OF h(2), of jobs] obtain k where
        k: "SYNC_COMMIT jobs h = Some k" "client_inv k" "same_client h k" by blast
      have "same_client d k" using h(3) k(3) by (rule same_client_trans)
      then have "dead_aborted k = DFrame" "self k = self c" "list_effect c k"
        using fd list_effect_trans [of c d k] by (simp_all add: same_client_def)
      moreover have "0 < socks_recv_tcp_pending d" using 2 d(2) by (simp add: sent_out_def)
      ultimately show ?thesis using tail [OF k(2)] run 2 h(1) k(1) by simp
    qed
  qed
qed


text \<open>A new client is appended to the list of clients, unless it is already gone when the callback ends.\<close>

definition accepted :: "cstate \<Rightarrow> int \<Rightarrow> cstate \<Rightarrow> bool" where
  "accepted c r e \<longleftrightarrow>
     client_inv e \<and> dead_aborted e \<noteq> DFrame \<and> (r = ERR_ABRT \<longleftrightarrow> aborts e = 1) \<and>
     r \<in> {ERR_OK, ERR_ABRT} \<and> self e = self c \<and>
     (freed e \<longrightarrow> tcp_clients e = tcp_clients c) \<and>
     (\<not> freed e \<longrightarrow> tcp_clients e = tcp_clients c @ [self c])"

lemma accept_client_ok:
  assumes g: "num_clients c = int (length (tcp_clients c))" "distinct (tcp_clients c)" "self c \<notin> set (tcp_clients c)"
    and t: "\<not> freed c" "from_client c = []" "to_socks c = []" "from_socks c = []" "to_client c = []"
      "recved c = 0" "acked c = 0" "aborts c = 0"
  shows "\<exists>r e. accept_client jobs c = Some (r, Some e) \<and> accepted c r e"
proof -
  define e where "e = c\<lparr>send_busy := None, recv_busy := False, aborted := False,
    tcp_clients := tcp_clients c @ [self c], num_clients := num_clients c + 1, pcb_live := True,
    cb_sent := False, client_closed := False, cb_err := True, cb_recv := True, buf := [],
    socks_up := False, socks_closed := False, frame := 0, dead_aborted := DFrame\<rparr>"
  have "client_inv e"
    using g t by (intro client_invI) (simp_all add: e_def shared_inv_def dead_inv_def send_inv_def recv_inv_def)
  from sync_ok [OF this, of jobs] obtain d where
    d: "SYNC_COMMIT jobs e = Some d" "client_inv d" "same_client e d" by blast
  then have "dead_aborted d = DFrame" by (simp add: same_client_def list_effect_def e_def)
  from leave_ok [OF d(2) this] obtain h where
    h: "DEAD_LEAVE2 DNull d = Some h" "client_inv h" "dead_aborted h \<noteq> DFrame"
      "callback_result h = (if aborts d = 1 then ERR_ABRT else ERR_OK)" "aborts h = aborts d"
      "self h = self d" "freed h = freed d" "tcp_clients h = tcp_clients d" by blast
  have "accepted c (callback_result h) h"
    using h d(3) g(3) t(1)
    by (cases "freed d") (simp_all add: accepted_def err_defs same_client_def list_effect_def e_def remove1_append)
  have "accept_client jobs c = Some (callback_result h, Some h)"
    using g(1) d(1) h(1)
    by (simp add: accept_client_def tcp_err_def tcp_recv_def DEAD_ENTER_def e_def)
  with \<open>accepted c (callback_result h) h\<close> show ?thesis by simp
qed

lemma accept_ok:
  assumes g: "num_clients c = int (length (tcp_clients c))" "distinct (tcp_clients c)" "self c \<notin> set (tcp_clients c)"
  shows "\<exists>r d. listener_accept_func a jobs ERR_OK c = Some (r, d) \<and>
    (case d of None \<Rightarrow> r = ERR_MEM | Some e \<Rightarrow> accepted c r e)"
proof -
  have "\<exists>r e. accept_client jobs (c\<lparr>freed := False, from_client := [], to_socks := [], from_socks := [],
      to_client := [], recved := 0, acked := 0, aborts := 0, socks_username := n, local_addr := l,
      remote_addr := m\<rparr>) = Some (r, Some e) \<and> accepted c r e"
    "\<exists>r e. accept_client jobs (c\<lparr>freed := False, from_client := [], to_socks := [], from_socks := [],
      to_client := [], recved := 0, acked := 0, aborts := 0, local_addr := l,
      remote_addr := m, socks_username := n\<rparr>) = Some (r, Some e) \<and> accepted c r e" for n l m
    using accept_client_ok [of "c\<lparr>freed := False, from_client := [], to_socks := [], from_socks := [],
        to_client := [], recved := 0, acked := 0, aborts := 0, socks_username := n, local_addr := l,
        remote_addr := m\<rparr>" jobs] accept_client_ok [of "c\<lparr>freed := False, from_client := [], to_socks := [],
        from_socks := [], to_client := [], recved := 0, acked := 0, aborts := 0, local_addr := l,
        remote_addr := m, socks_username := n\<rparr>" jobs] g
    by (simp_all add: accepted_def)
  then show ?thesis
    by (fastforce simp: listener_accept_func_def Let_def)
qed

end
