(* ===== verification/Tun2socks_Relay.thy ===== *)
theory Tun2socks_Relay
  imports Tun2socks_Client_Inv
begin

text \<open>
  All relayed connections of a running tun2socks: the heap of clients, the globals \<open>tcp_clients\<close>
  and \<open>num_clients\<close>, the events lwIP and the reactor deliver, and the loop of \<open>main\<close> that
  murders every client at the end.  Reachability is stated for the whole system, so the
  properties below hold of any interleaving of events of any number of connections.
\<close>

section \<open>Events of one client\<close>

type_synonym jobs = "(lwip_res \<times> job) list"

datatype client_event =
    LwipErr lwip_res
  | LwipRecv lwip_res jobs "bytes option"
  | LwipSent lwip_res jobs nat
  | Reactor lwip_res job

text \<open>
  What lwIP promises about its callbacks: a callback is made only while it is registered and the
  control block exists; received data is not empty and fits the window, of which \<open>tcp_recved\<close>
  gives back what was consumed; acknowledged bytes were written before.
\<close>

fun event_enabled :: "client_event \<Rightarrow> cstate \<Rightarrow> bool" where
  "event_enabled (LwipErr env) c = (\<not> freed c \<and> pcb_live c \<and> cb_err c)"
| "event_enabled (LwipRecv env jobs p) c =
     (\<not> freed c \<and> pcb_live c \<and> cb_recv c \<and> p \<noteq> Some [] \<and>
      (case p of None \<Rightarrow> True
       | Some d \<Rightarrow> length (from_client c) - recved c + length d \<le> TCP_WND))"
| "event_enabled (LwipSent env jobs len) c =
     (\<not> freed c \<and> pcb_live c \<and> cb_sent c \<and> 0 < len \<and> acked c + len \<le> length (to_client c))"
| "event_enabled (Reactor env j) c = job_enabled j c"

text \<open>The result carries the value returned to lwIP, where there is one.\<close>

fun run_event :: "client_event \<Rightarrow> cstate \<Rightarrow> (int \<times> cstate) option" where
  "run_event (LwipErr env) c =
     map_option (Pair ERR_OK)
       (client_err_func env (c\<lparr>pcb_live := False, cb_err := False, cb_recv := False, cb_sent := False\<rparr>))"
| "run_event (LwipRecv env jobs p) c = client_recv_func env jobs p c"
| "run_event (LwipSent env jobs len) c = client_sent_func env jobs len c"
| "run_event (Reactor env j) c = map_option (Pair ERR_OK) (run_job env j c)"

section \<open>The system\<close>

record tun =
  t_num :: int
  t_list :: "nat list"
  t_heap :: "nat \<Rightarrow> cstate option"

text \<open>The view a handler has of the system, and what it leaves behind.\<close>

definition focus :: "tun \<Rightarrow> cstate \<Rightarrow> cstate" where
  "focus t c = c\<lparr>num_clients := t_num t, tcp_clients := t_list t\<rparr>"

definition unfocus :: "tun \<Rightarrow> cstate \<Rightarrow> tun" where
  "unfocus t d =
     t\<lparr>t_num := num_clients d, t_list := tcp_clients d,
       t_heap := (t_heap t)(self d := if freed d then None else Some d)\<rparr>"

definition tun_init :: "tun \<Rightarrow> bool" where
  "tun_init t \<longleftrightarrow> t_num t = 0 \<and> t_list t = [] \<and> t_heap t = (\<lambda>_. None)"

inductive tun_step :: "tun \<Rightarrow> tun \<Rightarrow> bool" where
  accept_fail: "t_heap t (self g) = None \<Longrightarrow>
    listener_accept_func a jobs ERR_OK (focus t g) = Some (r, None) \<Longrightarrow> tun_step t t"
| accept: "t_heap t (self g) = None \<Longrightarrow>
    listener_accept_func a jobs ERR_OK (focus t g) = Some (r, Some e) \<Longrightarrow> tun_step t (unfocus t e)"
| event: "t_heap t i = Some c \<Longrightarrow> event_enabled ev (focus t c) \<Longrightarrow>
    run_event ev (focus t c) = Some (r, d) \<Longrightarrow> tun_step t (unfocus t d)"

text \<open>
  The loop \<open>while (node = LinkedList1_GetFirst(&tcp_clients)) client_murder(client)\<close> of \<open>main\<close>.
\<close>

lemma dealloc_shrinks:
  assumes "client_dealloc c = Some d"
  shows "length (tcp_clients d) < length (tcp_clients c)"
proof -
  have "tcp_clients d = remove1 (self c) (tcp_clients c)" "self c \<in> set (tcp_clients c)"
    using assms by (auto simp: client_dealloc_def bind_Some_iff DEAD_KILL_WITH_def Let_def
        split: if_splits dead_ptr.splits)
  then show ?thesis
    by (simp add: length_remove1) (metis diff_less length_pos_if_in_set zero_less_one One_nat_def)
qed

lemma before_dealloc_list:
  "remove_callbacks c = Some d \<Longrightarrow> tcp_clients d = tcp_clients c"
  "client_abort_pcb c = Some d \<Longrightarrow> tcp_clients d = tcp_clients c"
  by (auto simp: remove_callbacks_def tcp_err_def tcp_recv_def tcp_sent_def client_abort_pcb_def
      tcp_abort_def DEAD_KILL_WITH_def bind_Some_iff Let_def split: dead_ptr.splits)

lemma murder_shrinks:
  assumes "client_murder c = Some d"
  shows "length (tcp_clients d) < length (tcp_clients c)"
proof -
  obtain e where "client_dealloc e = Some d" "tcp_clients e = tcp_clients c"
    using assms
    by (auto simp: client_murder_def bind_Some_iff Let_def socks_client_free_def
        dest!: before_dealloc_list split: if_splits)
  then show ?thesis using dealloc_shrinks by fastforce
qed

function murder_all :: "tun \<Rightarrow> tun option" where
  "murder_all t =
     (case t_list t of
        [] \<Rightarrow> Some t
      | i # _ \<Rightarrow>
          (case t_heap t i of
             None \<Rightarrow> None
           | Some c \<Rightarrow>
               (case client_murder (focus t c) of
                  None \<Rightarrow> None
                | Some d \<Rightarrow> murder_all (unfocus t d))))"
  by pat_completeness auto
termination
  by (relation "measure (\<lambda>t. length (t_list t))")
    (auto simp: unfocus_def focus_def dest!: murder_shrinks)

declare murder_all.simps [simp del]

section \<open>Invariant of the system\<close>

definition tun_inv :: "tun \<Rightarrow> bool" where
  "tun_inv t \<longleftrightarrow>
     t_num t = int (length (t_list t)) \<and> distinct (t_list t) \<and>
     (\<forall>i. t_heap t i = None \<longleftrightarrow> i \<notin> set (t_list t)) \<and>
     (\<forall>i c. t_heap t i = Some c \<longrightarrow>
        self c = i \<and> \<not> freed c \<and> dead_aborted c \<noteq> DFrame \<and> client_inv (focus t c))"

text \<open>Everything in the invariant of a client but the two globals is about the client alone.\<close>

lemma client_inv_globals:
  assumes "client_inv c" and "\<not> freed c" and "m = int (length l)" and "distinct l" and "self c \<in> set l"
  shows "client_inv (c\<lparr>num_clients := m, tcp_clients := l\<rparr>)"
proof -
  note lp = live_parts [OF assms(1,2)]
  show ?thesis
  proof (rule client_invI)
    show "shared_inv (c\<lparr>num_clients := m, tcp_clients := l\<rparr>)" "dead_inv (c\<lparr>num_clients := m, tcp_clients := l\<rparr>)"
      "send_inv (c\<lparr>num_clients := m, tcp_clients := l\<rparr>)" "recv_inv (c\<lparr>num_clients := m, tcp_clients := l\<rparr>)"
      using lp(1-4) assms by (simp_all add: shared_inv_def dead_inv_def send_inv_def recv_inv_def)
  qed (use lp(5-) assms in simp_all)
qed

lemma unfocus_inv:
  assumes t: "tun_inv t" and d: "client_inv d" "dead_aborted d \<noteq> DFrame"
    and l: "freed d \<longrightarrow> set (tcp_clients d) = set (t_list t) - {self d}"
      "\<not> freed d \<longrightarrow> set (tcp_clients d) = insert (self d) (set (t_list t))"
  shows "tun_inv (unfocus t d)"
proof -
  let ?u = "unfocus t d"
  have sh: "num_clients d = int (length (tcp_clients d))" "distinct (tcp_clients d)"
    using d(1) by (simp_all add: client_inv_def shared_inv_def)
  have dom: "t_heap ?u i = None \<longleftrightarrow> i \<notin> set (t_list ?u)" for i
    using t l by (auto simp: tun_inv_def unfocus_def)
  have cl: "self c = i \<and> \<not> freed c \<and> dead_aborted c \<noteq> DFrame \<and> client_inv (focus ?u c)"
    if h: "t_heap ?u i = Some c" for i c
  proof (cases "i = self d")
    case True
    then have "c = d" "\<not> freed d" using h by (simp_all add: unfocus_def split: if_splits)
    moreover have "focus ?u d = d" by (simp add: focus_def unfocus_def)
    ultimately show ?thesis using d True by simp
  next
    case False
    then have c: "t_heap t i = Some c" using h by (simp add: unfocus_def)
    then have old: "self c = i" "\<not> freed c" "dead_aborted c \<noteq> DFrame" "client_inv (focus t c)"
      using t by (auto simp: tun_inv_def)
    have "i \<in> set (tcp_clients d)" using dom [of i] h by (simp add: unfocus_def)
    then have "client_inv ((focus t c)\<lparr>num_clients := num_clients d, tcp_clients := tcp_clients d\<rparr>)"
      using old sh by (intro client_inv_globals) (simp_all add: focus_def)
    moreover have "(focus t c)\<lparr>num_clients := num_clients d, tcp_clients := tcp_clients d\<rparr> = focus ?u c"
      by (simp add: focus_def unfocus_def)
    ultimately show ?thesis using old by simp
  qed
  have "t_num ?u = int (length (t_list ?u))" "distinct (t_list ?u)"
    using sh by (simp_all add: unfocus_def)
  then show ?thesis
    unfolding tun_inv_def using dom cl by blast
qed

lemma unfocus_inv_effect:
  assumes t: "tun_inv t" "t_heap t i = Some c" and d: "client_inv d" "dead_aborted d \<noteq> DFrame"
    and e: "self d = self c" "list_effect (focus t c) d"
  shows "tun_inv (unfocus t d)"
proof (rule unfocus_inv [OF t(1) d])
  have c: "self c = i" "\<not> freed c" "distinct (t_list t)"
    using t by (auto simp: tun_inv_def)
  have c': "i \<in> set (t_list t)"
    using t unfolding tun_inv_def by (metis option.distinct(1))
  have eff: "freed d \<longrightarrow> tcp_clients d = remove1 i (t_list t)" "\<not> freed d \<longrightarrow> tcp_clients d = t_list t"
    using e c by (simp_all add: list_effect_def focus_def)
  show "freed d \<longrightarrow> set (tcp_clients d) = set (t_list t) - {self d}"
    using eff(1) c c' e(1) by simp
  show "\<not> freed d \<longrightarrow> set (tcp_clients d) = insert (self d) (set (t_list t))"
    using eff(2) c c' e(1) by auto
qed

lemma event_ok:
  assumes inv: "client_inv c" and q: "dead_aborted c \<noteq> DFrame" and en: "event_enabled ev c"
  shows "\<exists>r d. run_event ev c = Some (r, d) \<and> client_inv d \<and> dead_aborted d \<noteq> DFrame \<and>
    self d = self c \<and> list_effect c d \<and>
    (case ev of Reactor _ _ \<Rightarrow> True | LwipErr _ \<Rightarrow> True | _ \<Rightarrow> callback_ok c r d)"
proof (cases ev)
  case (LwipErr env)
  with en have c: "\<not> freed c" "pcb_live c" by auto
  then have "\<not> client_closed c" using live_parts(10) [OF inv c(1)] by simp
  from err_func_ok [OF inv c(1) this q, of env] LwipErr show ?thesis by auto
next
  case (LwipRecv env jobs p)
  with en have c: "\<not> freed c" "pcb_live c" "cb_recv c" "p \<noteq> Some []" by auto
  have "recved c + length (buf c) = length (from_client c)"
    using live_parts(3,10) [OF inv c(1)] c(2) by (simp add: send_inv_def)
  then have "case p of None \<Rightarrow> True | Some d \<Rightarrow> length (buf c) + length d \<le> TCP_WND"
    using en LwipRecv by (auto split: option.splits)
  from recv_func_ok [OF inv c(1,3) q c(4) this, of env jobs] LwipRecv show ?thesis
    by (auto simp: callback_ok_def)
next
  case (LwipSent env jobs len)
  with en have c: "\<not> freed c" "pcb_live c" "cb_sent c" "0 < len" "acked c + len \<le> length (to_client c)" by auto
  have "recv_count (socks_recv_tcp_pending c) (acked c) (to_client c)"
    using live_parts(4,10,13) [OF inv c(1)] c(2,3) by (simp add: recv_inv_def)
  then have "int len \<le> socks_recv_tcp_pending c"
    using c(5) by (simp add: recv_count_def)
  from sent_func_ok [OF inv c(1,3) q c(4) this, of env jobs] LwipSent show ?thesis
    by (auto simp: callback_ok_def)
next
  case (Reactor env j)
  with job_ok [OF inv, of j env] en q show ?thesis
    by (auto simp: same_client_def)
qed

lemma focus_ok:
  assumes "tun_inv t" and "t_heap t i = Some c"
  shows "client_inv (focus t c)" and "dead_aborted (focus t c) \<noteq> DFrame" and "self (focus t c) = self c"
    and "self c = i" and "\<not> freed (focus t c)"
  using assms by (auto simp: tun_inv_def focus_def)

lemma accept_focus:
  assumes "tun_inv t" and "t_heap t (self g) = None"
  shows "\<exists>r d. listener_accept_func a jobs ERR_OK (focus t g) = Some (r, d) \<and>
    (case d of None \<Rightarrow> r = ERR_MEM | Some e \<Rightarrow> accepted (focus t g) r e)"
  using assms by (intro accept_ok) (auto simp: tun_inv_def focus_def)

lemma tun_step_inv: "tun_inv t \<Longrightarrow> tun_step t u \<Longrightarrow> tun_inv u"
proof (erule tun_step.cases)
  fix t' g a jobs r e
  assume t: "tun_inv t" "t = t'" "u = unfocus t' e" "t_heap t' (self g) = None"
    "listener_accept_func a jobs ERR_OK (focus t' g) = Some (r, Some e)"
  with accept_focus [of t' g a jobs] have "accepted (focus t' g) r e" by auto
  then show "tun_inv u"
    using t unfocus_inv [of t' e] by (auto simp: accepted_def focus_def tun_inv_def)
next
  fix t' i c ev r d
  assume t: "tun_inv t" "t = t'" "u = unfocus t' d" "t_heap t' i = Some c" "event_enabled ev (focus t' c)"
    "run_event ev (focus t' c) = Some (r, d)"
  note f = focus_ok [of t' i c]
  from event_ok [of "focus t' c" ev] f t have "client_inv d" "dead_aborted d \<noteq> DFrame" "self d = self c"
    "list_effect (focus t' c) d" by auto
  then show "tun_inv u"
    using t unfocus_inv_effect [of t' i c d] by simp
qed simp

interpretation relay: inductive_invariant tun_init tun_step tun_inv
proof
  show "tun_init t \<Longrightarrow> tun_inv t" for t
    by (simp add: tun_init_def tun_inv_def)
qed (rule tun_step_inv)


lemma focus_streams: "send_inv (focus t c) = send_inv c" "recv_inv (focus t c) = recv_inv c"
  by (simp_all add: send_inv_def recv_inv_def focus_def)

lemma recv_invD:
  assumes "recv_inv c" and "socks_up c" and "\<not> client_closed c"
  shows "recv_count (socks_recv_tcp_pending c) (acked c) (to_client c)"
    and "socks_recv_buf_used c = -1 \<Longrightarrow>
      recv_idle (socks_closed c) (recv_busy c) (socks_recv_tcp_pending c) (to_client c) (from_socks c)"
    and "socks_recv_buf_used c \<noteq> -1 \<Longrightarrow>
      recv_queued (recv_busy c) (socks_recv_buf_used c) (socks_recv_buf_sent c)
        (socks_recv_waiting c) (socks_recv_tcp_pending c) (socks_recv_buf c) (to_client c) (from_socks c)"
  using assms unfolding recv_inv_def by blast+

text \<open>What keeps a client going, from its point of view.\<close>

lemma no_stall:
  assumes inv: "client_inv c" "\<not> freed c"
  shows "socks_up c \<Longrightarrow> \<not> socks_closed c \<Longrightarrow> buf c \<noteq> [] \<Longrightarrow> send_busy c \<noteq> None"
    and "socks_up c \<Longrightarrow> \<not> socks_closed c \<Longrightarrow> \<not> client_closed c \<Longrightarrow> socks_recv_buf_used c = -1 \<Longrightarrow> recv_busy c"
    and "socks_up c \<Longrightarrow> \<not> client_closed c \<Longrightarrow> socks_closed c \<or> socks_recv_buf_used c \<noteq> -1 \<Longrightarrow>
      cb_sent c \<and> acked c < length (to_client c)"
proof -
  note lp = live_parts [OF inv]
  show "send_busy c \<noteq> None" if "socks_up c" "\<not> socks_closed c" "buf c \<noteq> []"
    using lp(3) that by (cases "send_busy c") (simp_all add: send_inv_def)
  show "recv_busy c" if "socks_up c" "\<not> socks_closed c" "\<not> client_closed c" "socks_recv_buf_used c = -1"
    using recv_invD(2) [OF lp(4) that(1,3,4)] that(2) by (simp add: recv_idle_def)
  show "cb_sent c \<and> acked c < length (to_client c)"
    if u: "socks_up c" "\<not> client_closed c" "socks_closed c \<or> socks_recv_buf_used c \<noteq> -1"
  proof -
    have "0 < socks_recv_tcp_pending c"
      using recv_invD(2,3) [OF lp(4) u(1,2)] u(3)
      by (cases "socks_recv_buf_used c = -1") (simp_all add: recv_idle_def recv_queued_def)
    then show ?thesis
      using recv_invD(1) [OF lp(4) u(1,2)] lp(13) u by (simp add: recv_count_def)
  qed
qed

section \<open>The murder loop\<close>

lemma murder_all_ok:
  assumes "tun_inv t"
  shows "\<exists>u. murder_all t = Some u \<and> tun_inv u \<and> t_list u = []"
  using assms
proof (induction t rule: murder_all.induct)
  case (1 t)
  show ?case
  proof (cases "t_list t")
    case Nil
    with 1(2) show ?thesis by (simp add: murder_all.simps)
  next
    case (Cons i l)
    then have "t_heap t i \<noteq> None" using 1(2) by (simp add: tun_inv_def)
    then obtain c where c: "t_heap t i = Some c" by blast
    note f = focus_ok [OF 1(2) c]
    from murder_ok [OF f(1,5)] obtain d where
      d: "client_murder (focus t c) = Some d" "client_inv d" "same_io (focus t c) d" by blast
    have "tun_inv (unfocus t d)"
    proof (rule unfocus_inv_effect [OF 1(2) c d(2)])
      show "dead_aborted d \<noteq> DFrame" "self d = self c" "list_effect (focus t c) d"
        using d(3) f(2,3) by (simp_all add: same_io_def)
    qed
    from 1(1) [OF Cons c d(1) this] c d(1) Cons show ?thesis
      by (simp add: murder_all.simps [of t])
  qed
qed

section \<open>An example run\<close>

text \<open>
  A client accepted from 10.0.0.2 to 8.8.8.8:80; the memory it is allocated in holds garbage.
\<close>

definition ex_env :: accept_env where
  "ex_env = \<lparr>malloc_ok = True, pcb_local = (IP4 0x08080808, 80), pcb_remote = (IP4 0x0200000A, 4000),
     opt_username = None, opt_append_source = False, print_addr = (\<lambda>_. []), concat_ok = True,
     socks_init_ok = True\<rparr>"

definition ex_client :: "bool \<Rightarrow> cstate" where
  "ex_client junk =
     \<lparr>aborted = junk, dead_aborted = (if junk then DDangling else DNull),
      local_addr = (if junk then BADDR_NONE else BAddr_MakeIPv4 0x08080808 (hton16 80)),
      remote_addr = (if junk then BADDR_NONE else BAddr_MakeIPv4 0x0200000A (hton16 4000)),
      client_closed = junk, buf = (if junk then [1] else []), socks_username = None, socks_up = junk,
      socks_closed = junk, socks_recv_buf = [], socks_recv_buf_used = 7, socks_recv_buf_sent = 8,
      socks_recv_waiting = True, socks_recv_tcp_pending = 9, pcb_live = (\<not> junk), cb_err = (\<not> junk),
      cb_recv = (\<not> junk), cb_sent = junk, send_busy = None, recv_busy = junk,
      num_clients = (if junk then 0 else 1), tcp_clients = (if junk then [] else [0]), self = 0,
      freed = junk, frame = 0, from_client = [], to_socks = [], from_socks = [], to_client = [],
      recved = 0, acked = 0, aborts = 0\<rparr>"

definition ex_tun0 :: tun where
  "ex_tun0 = \<lparr>t_num = 0, t_list = [], t_heap = (\<lambda>_. None)\<rparr>"

definition ex_tun :: tun where
  "ex_tun = \<lparr>t_num = 1, t_list = [0], t_heap = (\<lambda>_. None)(0 := Some (ex_client False))\<rparr>"

lemma ex_accept: "listener_accept_func ex_env [] ERR_OK (focus ex_tun0 (ex_client True)) =
    Some (ERR_OK, Some (ex_client False))"
  by (simp add: listener_accept_func_def ex_env_def focus_def ex_tun0_def ex_client_def accept_client_def
      tcp_err_def tcp_recv_def DEAD_ENTER_def DEAD_LEAVE2_def callback_result_def baddr_from_lwip_def
      make_addr_defs)

lemma ex_reach0: "reach tun_init tun_step ex_tun0"
  by (rule reach_init) (simp add: tun_init_def ex_tun0_def)

lemma ex_reach: "reach tun_init tun_step ex_tun"
proof -
  have "tun_step ex_tun0 (unfocus ex_tun0 (ex_client False))"
    by (rule tun_step.accept [OF _ ex_accept]) (simp add: ex_tun0_def)
  moreover have "unfocus ex_tun0 (ex_client False) = ex_tun"
    by (simp add: unfocus_def ex_tun0_def ex_tun_def ex_client_def)
  ultimately show ?thesis using ex_reach0 reach_step by metis
qed

lemma ex_heap: "t_heap ex_tun 0 = Some (ex_client False)"
  by (simp add: ex_tun_def)

lemma ex_focus: "focus ex_tun (ex_client False) = ex_client False"
  by (simp add: focus_def ex_tun_def ex_client_def)

definition ex_res :: lwip_res where
  "ex_res = \<lparr>close_err = 0, sndbuf = (\<lambda>_. 1000), write_err = (\<lambda>_. 0), output_err = 0\<rparr>"

definition ex_sys :: "cstate \<Rightarrow> tun" where
  "ex_sys c = \<lparr>t_num = 1, t_list = [0], t_heap = (\<lambda>_. None)(0 := Some c)\<rparr>"

definition ex_fine :: "cstate \<Rightarrow> bool" where
  "ex_fine c \<longleftrightarrow> num_clients c = 1 \<and> tcp_clients c = [0] \<and> self c = 0 \<and> \<not> freed c"

lemma ex_sys_focus: "ex_fine c \<Longrightarrow> focus (ex_sys c) c = c" "t_heap (ex_sys c) 0 = Some c"
  by (simp_all add: ex_fine_def ex_sys_def focus_def)

lemma ex_go:
  assumes "reach tun_init tun_step (ex_sys c)" and c: "ex_fine c" "ex_fine d"
    and "event_enabled ev c" and "run_event ev c = Some (r, d)"
  shows "reach tun_init tun_step (ex_sys d)"
proof -
  have "tun_step (ex_sys c) (unfocus (ex_sys c) d)"
    by (rule tun_step.event [of _ 0 c ev r]) (simp_all add: ex_sys_focus assms)
  moreover have "unfocus (ex_sys c) d = ex_sys d"
    using c by (simp add: unfocus_def ex_sys_def ex_fine_def)
  ultimately show ?thesis using assms(1) reach_step by metis
qed

definition ex_buffered :: cstate where
  "ex_buffered = (ex_client False)\<lparr>buf := [5], from_client := [5]\<rparr>"

definition ex_up :: cstate where
  "ex_up = ex_buffered\<lparr>send_busy := Some 1, recv_busy := True, socks_recv_buf_used := -1,
     socks_recv_tcp_pending := 0, cb_sent := True, socks_up := True\<rparr>"

definition ex_closed :: cstate where
  "ex_closed = ex_up\<lparr>cb_err := False, cb_recv := False, cb_sent := False, pcb_live := False,
     client_closed := True\<rparr>"

lemmas ex_defs = ex_client_def ex_buffered_def ex_up_def ex_closed_def ex_fine_def ex_res_def

lemma ex_step1: "run_event (LwipRecv ex_res [] (Some [5])) (ex_client False) = Some (ERR_OK, ex_buffered)"
  by (simp add: ex_defs client_recv_func_def DEAD_ENTER_def DEAD_LEAVE2_def TCP_WND_def callback_result_def)

lemma ex_step2: "run_event (Reactor ex_res (SocksEvent EVENT_UP)) ex_buffered = Some (ERR_OK, ex_up)"
  by (simp add: ex_defs client_socks_handler_def client_send_to_socks_def tcp_sent_def
      StreamPassInterface_Sender_Send_def client_socks_recv_initiate_def StreamRecvInterface_Receiver_Recv_def)

lemma ex_step3: "run_event (LwipRecv ex_res [] None) ex_up = Some (ERR_OK, ex_closed)"
  by (simp add: ex_defs client_recv_func_def DEAD_ENTER_def DEAD_LEAVE2_def client_free_client.simps
      remove_callbacks_def tcp_err_def tcp_recv_def tcp_sent_def tcp_close_def ERR_OK_def
      client_handle_freed_client.simps callback_result_def)

lemma ex_reach_closed: "reach tun_init tun_step (ex_sys ex_closed)"
proof -
  have "reach tun_init tun_step (ex_sys (ex_client False))"
    using ex_reach by (simp add: ex_sys_def ex_tun_def)
  then have "reach tun_init tun_step (ex_sys ex_buffered)"
    by (rule ex_go [OF _ _ _ _ ex_step1]) (simp_all add: ex_defs TCP_WND_def)
  then have "reach tun_init tun_step (ex_sys ex_up)"
    by (rule ex_go [OF _ _ _ _ ex_step2]) (simp_all add: ex_defs)
  then show ?thesis
    by (rule ex_go [OF _ _ _ _ ex_step3]) (simp_all add: ex_defs)
qed

section \<open>Properties\<close>



text \<open>
  C30 Accepting never fails an assertion either: the callback returns, and it returns \<open>ERR_MEM\<close>
  exactly when no client was created.
\<close>

theorem relay_accept_safe:
  assumes "reach tun_init tun_step t" and "t_heap t (self g) = None"
  shows "\<exists>r d. listener_accept_func a jobs ERR_OK (focus t g) = Some (r, d) \<and>
    (r = ERR_MEM \<longleftrightarrow> d = None)"
proof -
  have "tun_inv t" using assms(1) by (rule relay.always)
  from accept_focus [OF this assms(2), of a jobs] show ?thesis
    by (force simp: accepted_def err_defs split: option.splits)
qed

theorem relay_accept_safe_witness:
  "\<exists>r d. listener_accept_func ex_env [] ERR_OK (focus ex_tun0 (ex_client True)) = Some (r, d) \<and>
    (r = ERR_MEM \<longleftrightarrow> d = None)"
  by (rule relay_accept_safe [OF ex_reach0]) (simp add: ex_tun0_def)

text \<open>
  C2 Integrity of the relay.  Of every client: what was sent to SOCKS is a prefix of what the client
  sent, the rest is in the buffer in order and fits it; what was written to the client is a prefix
  of what SOCKS sent; and while the client is open and nothing is queued for it, it is all of it.
\<close>

theorem relay_integrity:
  assumes "reach tun_init tun_step t" and "t_heap t i = Some c"
  shows "from_client c = to_socks c @ buf c \<and> length (buf c) \<le> TCP_WND \<and>
    prefix (to_client c) (from_socks c) \<and>
    (socks_up c \<and> \<not> client_closed c \<longrightarrow>
       from_socks c = to_client c @
         (if socks_recv_buf_used c = -1 then []
          else drop (nat (socks_recv_buf_sent c)) (socks_recv_buf c)))"
proof -
  note f = focus_ok [OF relay.always [OF assms(1)] assms(2)]
  note lp = live_parts [OF f(1,5)]
  have "to_socks c @ buf c = from_client c" "prefix (to_client c) (from_socks c)"
    using lp(1) by (simp_all add: shared_inv_def focus_def)
  moreover have "length (buf c) \<le> TCP_WND"
    using lp(3) by (simp add: send_inv_def focus_def)
  moreover have "from_socks c = to_client c @ (if socks_recv_buf_used c = -1 then []
      else drop (nat (socks_recv_buf_sent c)) (socks_recv_buf c))" if "socks_up c" "\<not> client_closed c"
    using recv_invD(2,3) [OF _ that] lp(4) focus_streams
    by (cases "socks_recv_buf_used c = -1") (simp_all add: recv_idle_def recv_queued_def)
  ultimately show ?thesis by auto
qed

theorem relay_integrity_witness:
  "from_client (ex_client False) = to_socks (ex_client False) @ buf (ex_client False)"
  using relay_integrity [OF ex_reach ex_heap] by blast

text \<open>
  C17 The value returned to lwIP.  A receive or sent callback returns \<open>ERR_ABRT\<close> if and only if it
  called \<open>tcp_abort\<close>, as lwIP requires, and otherwise \<open>ERR_OK\<close>; so the receive callback never
  refuses data, because the receive window equals the size of the buffer.
\<close>

theorem callback_returns_abrt_iff_aborted:
  assumes "reach tun_init tun_step t" and "t_heap t i = Some c"
    and "ev = LwipRecv env jobs p \<or> ev = LwipSent env jobs n" and "event_enabled ev (focus t c)"
    and "run_event ev (focus t c) = Some (r, d)"
  shows "(r = ERR_ABRT \<longleftrightarrow> aborts d = aborts c + 1) \<and> (r = ERR_OK \<longleftrightarrow> aborts d = aborts c) \<and>
    r \<in> {ERR_OK, ERR_ABRT}"
proof -
  note f = focus_ok [OF relay.always [OF assms(1)] assms(2)]
  note lp = live_parts [OF f(1,5)]
  have open_c: "\<not> client_closed (focus t c)"
    using assms(3,4) lp(10) by auto
  then have "aborts c = 0"
    using lp(1,6) by (simp add: shared_inv_def focus_def)
  moreover have "callback_ok (focus t c) r d"
    using event_ok [OF f(1,2) assms(4)] assms(3,5) by auto
  moreover from this have "aborts d = 0 \<or> aborts d = 1"
    by (auto simp: callback_ok_def client_inv_def shared_inv_def)
  ultimately show ?thesis
    by (auto simp: callback_ok_def err_defs)
qed

theorem callback_returns_abrt_iff_aborted_witness:
  "\<exists>r d. run_event (LwipRecv ex_res [] None) (ex_client False) = Some (r, d) \<and> r \<in> {ERR_OK, ERR_ABRT} \<and>
    (r = ERR_ABRT \<longleftrightarrow> aborts d = 1)"
proof -
  let ?ev = "LwipRecv ex_res [] None"
  have en: "event_enabled ?ev (focus ex_tun (ex_client False))"
    unfolding ex_focus by (simp add: ex_client_def)
  then obtain r d where run: "run_event ?ev (focus ex_tun (ex_client False)) = Some (r, d)"
    using event_ok [OF focus_ok(1,2) [OF relay.always [OF ex_reach] ex_heap]] by blast
  from callback_returns_abrt_iff_aborted [OF ex_reach ex_heap _ en run] run show ?thesis
    unfolding ex_focus by (auto simp: ex_client_def)
qed




text \<open>
  C18 A client that closed its side loses nothing.  If the completion of a send is what releases a
  client, then everything the client ever sent has been handed to SOCKS.
\<close>

theorem client_close_drains:
  assumes "reach tun_init tun_step t" and "t_heap t i = Some c"
    and "event_enabled (Reactor env (SendDone n)) (focus t c)"
    and "run_event (Reactor env (SendDone n)) (focus t c) = Some (r, d)" and "freed d"
  shows "to_socks d = from_client c"
proof -
  note f = focus_ok [OF relay.always [OF assms(1)] assms(2)]
  have "buf d = []" "client_inv d" "same_client (focus t c) d"
    using send_done_ok [OF f(1), of n env] assms(3-5) by auto
  then show ?thesis
    by (simp add: client_inv_def shared_inv_def same_client_def focus_def)
qed

theorem client_close_drains_witness:
  "\<exists>r d. run_event (Reactor ex_res (SendDone 1)) ex_closed = Some (r, d) \<and> to_socks d = [5]"
proof -
  have foc: "focus (ex_sys ex_closed) ex_closed = ex_closed"
    by (rule ex_sys_focus) (simp add: ex_defs)
  have en: "event_enabled (Reactor ex_res (SendDone 1)) (focus (ex_sys ex_closed) ex_closed)"
    unfolding foc by (simp add: ex_defs)
  obtain r d where run: "run_event (Reactor ex_res (SendDone 1)) ex_closed = Some (r, d)" "freed d"
    by (simp add: ex_defs client_socks_send_handler_done_def client_free_socks.simps socks_client_free_def
        client_dealloc_def DEAD_KILL_WITH_def)
  from client_close_drains [OF ex_reach_closed _ en, unfolded foc, OF _ run] run(1) show ?thesis
    by (auto simp: ex_sys_def) (simp add: ex_defs)
qed

text \<open>
  C32 Tear-down.  From every reachable state the loop of \<open>main\<close> that murders the clients ends, fails no
  assertion, and leaves no client: the list is empty, the counter is zero and nothing is allocated.
\<close>

theorem murder_all_clients:
  assumes "reach tun_init tun_step t"
  shows "\<exists>u. murder_all t = Some u \<and> t_list u = [] \<and> t_num u = 0 \<and> t_heap u = (\<lambda>_. None)"
proof -
  obtain u where "murder_all t = Some u" "tun_inv u" "t_list u = []"
    using murder_all_ok [OF relay.always [OF assms]] by blast
  moreover from this have "t_num u = 0" "t_heap u = (\<lambda>_. None)"
    by (auto simp: tun_inv_def)
  ultimately show ?thesis by blast
qed

theorem murder_all_clients_witness:
  "\<exists>u. murder_all ex_tun = Some u \<and> t_list u = [] \<and> t_num u = 0 \<and> t_heap u = (\<lambda>_. None)"
  using murder_all_clients [OF ex_reach] .

end
