(* ===== verification/Pending.thy ===== *)
theory Pending
  imports Prelude "HOL-Library.Monad_Syntax"
begin

text \<open>
  The job queue of the reactor: \<open>base/BPending.c\<close>.  A group holds its pending jobs as a list, the
  next one first; setting a job moves it to the front.  A job is identified with its object, that
  is with its handler and user pointer; a group also knows which job objects are initialized, which
  is what the debug counter and the debug objects of the code check.  \<^term>\<open>None\<close> is a failed assertion.
\<close>

record 'j BPendingGroup =
  pg_jobs :: "'j list"
  pg_objs :: "'j set"
  pending_ctr :: nat

definition BPendingGroup_Init :: "'j BPendingGroup" where
  "BPendingGroup_Init = \<lparr>pg_jobs = [], pg_objs = {}, pending_ctr = 0\<rparr>"

definition BPendingGroup_Free :: "'j BPendingGroup \<Rightarrow> unit option" where
  "BPendingGroup_Free g = ASSERT (pending_ctr g = 0) (ASSERT (pg_jobs g = []) (Some ()))"

definition BPendingGroup_HasJobs :: "'j BPendingGroup \<Rightarrow> bool" where
  "BPendingGroup_HasJobs g \<longleftrightarrow> pg_jobs g \<noteq> []"

text \<open>The job to execute, and the group before its handler runs.\<close>

definition BPendingGroup_ExecuteJob :: "'j BPendingGroup \<Rightarrow> ('j \<times> 'j BPendingGroup) option" where
  "BPendingGroup_ExecuteJob g =
     (case pg_jobs g of [] \<Rightarrow> None | p # ps \<Rightarrow> Some (p, g\<lparr>pg_jobs := ps\<rparr>))"

definition BPendingGroup_PeekJob :: "'j BPendingGroup \<Rightarrow> 'j option" where
  "BPendingGroup_PeekJob g = (case pg_jobs g of [] \<Rightarrow> None | p # _ \<Rightarrow> Some p)"

definition BSmallPending_IsSet :: "'j \<Rightarrow> 'j BPendingGroup \<Rightarrow> bool" where
  "BSmallPending_IsSet p g \<longleftrightarrow> p \<in> set (pg_jobs g)"

definition BSmallPending_Init :: "'j \<Rightarrow> 'j BPendingGroup \<Rightarrow> 'j BPendingGroup option" where
  "BSmallPending_Init p g =
     ASSERT (p \<notin> pg_objs g)
       (Some (g\<lparr>pg_objs := insert p (pg_objs g), pending_ctr := pending_ctr g + 1\<rparr>))"

definition BSmallPending_Free :: "'j \<Rightarrow> 'j BPendingGroup \<Rightarrow> 'j BPendingGroup option" where
  "BSmallPending_Free p g =
     ASSERT (pending_ctr g > 0 \<and> p \<in> pg_objs g)
       (Some (g\<lparr>pg_jobs := (if BSmallPending_IsSet p g then remove1 p (pg_jobs g) else pg_jobs g),
                pg_objs := pg_objs g - {p}, pending_ctr := pending_ctr g - 1\<rparr>))"

definition BSmallPending_Set :: "'j \<Rightarrow> 'j BPendingGroup \<Rightarrow> 'j BPendingGroup option" where
  "BSmallPending_Set p g =
     ASSERT (p \<in> pg_objs g)
       (Some (g\<lparr>pg_jobs := p # (if BSmallPending_IsSet p g then remove1 p (pg_jobs g) else pg_jobs g)\<rparr>))"

definition BSmallPending_Unset :: "'j \<Rightarrow> 'j BPendingGroup \<Rightarrow> 'j BPendingGroup option" where
  "BSmallPending_Unset p g =
     ASSERT (p \<in> pg_objs g)
       (Some (if BSmallPending_IsSet p g then g\<lparr>pg_jobs := remove1 p (pg_jobs g)\<rparr> else g))"

text \<open>A \<open>BPending\<close> is a \<open>BSmallPending\<close> that remembers its group.\<close>

definition BPending_Init :: "'j \<Rightarrow> 'j BPendingGroup \<Rightarrow> 'j BPendingGroup option" where
  "BPending_Init p g = BSmallPending_Init p g"

definition BPending_Free :: "'j \<Rightarrow> 'j BPendingGroup \<Rightarrow> 'j BPendingGroup option" where
  "BPending_Free p g = BSmallPending_Free p g"

definition BPending_Set :: "'j \<Rightarrow> 'j BPendingGroup \<Rightarrow> 'j BPendingGroup option" where
  "BPending_Set p g = BSmallPending_Set p g"

definition BPending_Unset :: "'j \<Rightarrow> 'j BPendingGroup \<Rightarrow> 'j BPendingGroup option" where
  "BPending_Unset p g = BSmallPending_Unset p g"

definition BPending_IsSet :: "'j \<Rightarrow> 'j BPendingGroup \<Rightarrow> bool" where
  "BPending_IsSet p g \<longleftrightarrow> BSmallPending_IsSet p g"

section \<open>Histories of a group\<close>

datatype 'j pending_op = PInit 'j | PFree 'j | PSet 'j | PUnset 'j | PExecute

fun pending_do :: "'j pending_op \<Rightarrow> 'j BPendingGroup \<Rightarrow> 'j BPendingGroup option" where
  "pending_do (PInit p) g = BPending_Init p g"
| "pending_do (PFree p) g = BPending_Free p g"
| "pending_do (PSet p) g = BPending_Set p g"
| "pending_do (PUnset p) g = BPending_Unset p g"
| "pending_do PExecute g = map_option snd (BPendingGroup_ExecuteJob g)"

fun pending_run :: "'j pending_op list \<Rightarrow> 'j BPendingGroup \<Rightarrow> 'j BPendingGroup option" where
  "pending_run [] g = Some g"
| "pending_run (x # xs) g = do { g' \<leftarrow> pending_do x g; pending_run xs g' }"

text \<open>
  The specification: every pending job has the time at which it was last set, and the job to
  execute is the one set last.
\<close>

record 'j stamps =
  clock :: nat
  stamp :: "'j \<rightharpoonup> nat"

definition latest :: "'j \<Rightarrow> 'j stamps \<Rightarrow> bool" where
  "latest p a \<longleftrightarrow> p \<in> dom (stamp a) \<and> (\<forall>q \<in> dom (stamp a). the (stamp a q) \<le> the (stamp a p))"

inductive stamp_step :: "'j pending_op \<Rightarrow> 'j stamps \<Rightarrow> 'j stamps \<Rightarrow> bool" where
  "stamp_step (PInit p) a a"
| "stamp_step (PFree p) a (a\<lparr>stamp := (stamp a)(p := None)\<rparr>)"
| "stamp_step (PSet p) a (a\<lparr>clock := clock a + 1, stamp := (stamp a)(p \<mapsto> clock a)\<rparr>)"
| "stamp_step (PUnset p) a (a\<lparr>stamp := (stamp a)(p := None)\<rparr>)"
| "latest p a \<Longrightarrow> stamp_step PExecute a (a\<lparr>stamp := (stamp a)(p := None)\<rparr>)"

inductive stamp_run :: "'j pending_op list \<Rightarrow> 'j stamps \<Rightarrow> 'j stamps \<Rightarrow> bool" where
  stamp_run_nil: "stamp_run [] a a"
| stamp_run_cons: "stamp_step x a b \<Longrightarrow> stamp_run xs b c \<Longrightarrow> stamp_run (x # xs) a c"

text \<open>The list is ordered by decreasing time, and only initialized jobs are pending.\<close>

definition pending_sim :: "'j BPendingGroup \<Rightarrow> 'j stamps \<Rightarrow> bool" where
  "pending_sim g a \<longleftrightarrow>
     set (pg_jobs g) = dom (stamp a) \<and> sorted_wrt (\<lambda>p q. the (stamp a p) > the (stamp a q)) (pg_jobs g) \<and>
     (\<forall>p \<in> dom (stamp a). the (stamp a p) < clock a)"

definition pending_wf :: "'j BPendingGroup \<Rightarrow> bool" where
  "pending_wf g \<longleftrightarrow>
     distinct (pg_jobs g) \<and> set (pg_jobs g) \<subseteq> pg_objs g \<and> finite (pg_objs g) \<and>
     pending_ctr g = card (pg_objs g)"

lemmas pending_defs = BPending_Init_def BPending_Free_def BPending_Set_def BPending_Unset_def
  BPending_IsSet_def BSmallPending_Init_def BSmallPending_Free_def BSmallPending_Set_def
  BSmallPending_Unset_def BSmallPending_IsSet_def BPendingGroup_ExecuteJob_def

lemma pending_wf_init: "pending_wf BPendingGroup_Init"
  by (simp add: pending_wf_def BPendingGroup_Init_def)

lemma remove_if_set [simp]: "(if p \<in> set xs then remove1 p xs else xs) = remove1 p xs"
  by (simp add: remove1_idem)

lemma unset_eq [simp]:
  "(if p \<in> set (pg_jobs g) then g\<lparr>pg_jobs := remove1 p (pg_jobs g)\<rparr> else g) =
   g\<lparr>pg_jobs := remove1 p (pg_jobs g)\<rparr>"
  by (cases g) (simp add: remove1_idem)

lemma pending_do_wf: "pending_wf g \<Longrightarrow> pending_do x g = Some h \<Longrightarrow> pending_wf h"
  by (cases x) (auto simp: pending_defs pending_wf_def card_Diff_singleton distinct_remove1
      set_remove1_eq split: list.splits)

lemma sim_remove:
  assumes "pending_sim g a" "distinct (pg_jobs g)"
  shows "pending_sim (g\<lparr>pg_jobs := remove1 p (pg_jobs g), pg_objs := X, pending_ctr := n\<rparr>)
    (a\<lparr>stamp := (stamp a)(p := None)\<rparr>)"
proof -
  have r: "remove1 p (pg_jobs g) = filter (\<lambda>q. q \<noteq> p) (pg_jobs g)"
    using assms(2) by (simp add: distinct_remove1_removeAll removeAll_filter_not_eq eq_commute)
  have "sorted_wrt (\<lambda>q r. the (stamp a q) > the (stamp a r)) (filter (\<lambda>q. q \<noteq> p) (pg_jobs g))"
    using assms(1) by (simp add: pending_sim_def sorted_wrt_filter)
  then have "sorted_wrt (\<lambda>q r. the (((stamp a)(p := None)) q) > the (((stamp a)(p := None)) r))
      (filter (\<lambda>q. q \<noteq> p) (pg_jobs g))"
    by (rule sorted_wrt_mono_rel [rotated]) auto
  then show ?thesis using assms(1) unfolding pending_sim_def r by auto
qed

lemma sim_step:
  assumes s: "pending_sim g a" and w: "pending_wf g" and x: "pending_do x g = Some h"
  shows "\<exists>b. stamp_step x a b \<and> pending_sim h b"
proof -
  have d: "distinct (pg_jobs g)" using w by (simp add: pending_wf_def)
  note rem = sim_remove [OF s d]
  show ?thesis
  proof (cases x)
    case (PInit p)
    then show ?thesis using x s by (intro exI [of _ a]) (auto simp: pending_defs pending_sim_def stamp_step.simps)
  next
    case (PFree p)
    have "pending_sim h (a\<lparr>stamp := (stamp a)(p := None)\<rparr>)"
      using x PFree rem [where p = p] by (auto simp: pending_defs)
    from conjI [OF stamp_step.intros(2) this] show ?thesis unfolding PFree by (rule exI)
  next
    case (PSet p)
    let ?js = "remove1 p (pg_jobs g)"
    have h: "h = g\<lparr>pg_jobs := p # ?js\<rparr>" using x PSet by (auto simp: pending_defs)
    let ?b = "a\<lparr>clock := clock a + 1, stamp := (stamp a)(p \<mapsto> clock a)\<rparr>"
    have m: "set ?js = dom (stamp a) - {p}"
      "sorted_wrt (\<lambda>q r. the (((stamp a)(p := None)) q) > the (((stamp a)(p := None)) r)) ?js"
      using rem [where p = p] d s by (auto simp: pending_sim_def set_remove1_eq)
    have "sorted_wrt (\<lambda>q r. the (stamp ?b q) > the (stamp ?b r)) ?js"
      by (rule sorted_wrt_mono_rel [OF _ m(2)]) (use m(1) in auto)
    moreover have "\<forall>q \<in> set ?js. the (stamp ?b q) < clock a"
      using m(1) s by (auto simp: pending_sim_def)
    ultimately have "pending_sim h ?b" using m(1) s
      by (auto simp: pending_sim_def h less_Suc_eq)
    from conjI [OF stamp_step.intros(3) this] show ?thesis unfolding PSet by (rule exI)
  next
    case (PUnset p)
    have "pending_sim h (a\<lparr>stamp := (stamp a)(p := None)\<rparr>)"
      using x PUnset rem [where p = p and X = "pg_objs g" and n = "pending_ctr g"]
      by (auto simp: pending_defs)
    from conjI [OF stamp_step.intros(4) this] show ?thesis unfolding PUnset by (rule exI)
  next
    case PExecute
    then obtain p ps where p: "pg_jobs g = p # ps" "h = g\<lparr>pg_jobs := ps\<rparr>"
      using x by (auto simp: pending_defs split: list.splits)
    have "latest p a" using s p unfolding pending_sim_def latest_def
      by (metis insertE less_imp_le list.set(2) list.set_intros(1) order_refl sorted_wrt.simps(2))
    moreover have "pending_sim h (a\<lparr>stamp := (stamp a)(p := None)\<rparr>)"
      using rem [where p = p and X = "pg_objs g" and n = "pending_ctr g"] p by simp
    ultimately show ?thesis unfolding PExecute by (intro exI conjI) (auto intro: stamp_step.intros(5))
  qed
qed

lemma sim_run:
  "pending_sim g a \<Longrightarrow> pending_wf g \<Longrightarrow> pending_run xs g = Some h \<Longrightarrow>
   \<exists>b. stamp_run xs a b \<and> pending_sim h b \<and> pending_wf h"
proof (induction xs arbitrary: g a)
  case (Cons x xs)
  then obtain g' where g': "pending_do x g = Some g'" "pending_run xs g' = Some h"
    by (auto simp: bind_Some_iff)
  from sim_step [OF Cons.prems(1,2) g'(1)] obtain b where b: "stamp_step x a b" "pending_sim g' b" by blast
  from Cons.IH [OF b(2) pending_do_wf [OF Cons.prems(2) g'(1)] g'(2)] b(1) show ?case
    by (blast intro: stamp_run_cons)
qed (auto intro: stamp_run_nil)

text \<open>
  C20 The job queue refines its specification: after any sequence of operations on a fresh group, the
  pending jobs are those that were set and since then neither unset, freed nor executed, every
  executed job was the one set last among the pending ones, and the head of the queue is the one
  set last now.  In particular the jobs a handler sets run before all that were pending before.
\<close>

theorem pending_runs_latest:
  assumes "pending_run ops BPendingGroup_Init = Some g"
  shows "\<exists>a. stamp_run ops \<lparr>clock = 0, stamp = Map.empty\<rparr> a \<and> set (pg_jobs g) = dom (stamp a) \<and>
    pending_ctr g = card (pg_objs g) \<and>
    (\<forall>p h. BPendingGroup_ExecuteJob g = Some (p, h) \<longrightarrow> latest p a)"
proof -
  have "pending_sim BPendingGroup_Init \<lparr>clock = 0, stamp = Map.empty\<rparr>"
    by (simp add: pending_sim_def BPendingGroup_Init_def)
  from sim_run [OF this pending_wf_init assms] obtain a
    where a: "stamp_run ops \<lparr>clock = 0, stamp = Map.empty\<rparr> a" "pending_sim g a" "pending_wf g" by blast
  moreover have "latest p a" if "BPendingGroup_ExecuteJob g = Some (p, h)" for p h
    using sim_step [OF a(2,3), of PExecute h] that a(2)
    unfolding pending_sim_def latest_def BPendingGroup_ExecuteJob_def
    by (auto split: list.splits) (metis insert_iff less_imp_le domI option.sel order_refl)
  ultimately show ?thesis unfolding pending_sim_def pending_wf_def by blast
qed

theorem pending_runs_latest_witness:
  "\<exists>g a. pending_run [PInit (1 :: nat), PInit 2, PSet 1, PSet 2, PSet 1] BPendingGroup_Init = Some g \<and>
    stamp_run [PInit (1 :: nat), PInit 2, PSet 1, PSet 2, PSet 1] \<lparr>clock = 0, stamp = Map.empty\<rparr> a \<and> latest 1 a"
proof -
  obtain g h where g: "pending_run [PInit (1 :: nat), PInit 2, PSet 1, PSet 2, PSet 1] BPendingGroup_Init = Some g"
    "BPendingGroup_ExecuteJob g = Some (1, h)"
    by (simp add: pending_defs BPendingGroup_Init_def)
  from pending_runs_latest [OF g(1)] g show ?thesis by blast
qed

end
