(* ===== verification/ChunkBuffer.thy ===== *)
theory ChunkBuffer
  imports Byteorder "HOL-Library.Monad_Syntax"
begin

text \<open>
  The ring of packets \<open>structure/ChunkBuffer2.h\<close>.  The ring is an array of four byte blocks; a
  packet is a header block with its length and the blocks of its data.  A packet is never
  split: when no packet of maximal size fits behind the last one, \<open>wrap\<close> is set there and the
  next packet starts at block 0.

  The counters are natural numbers, since the assertions of the code keep them non-negative, and
  differences are written as sums.  A pointer and its available length are one optional pair of
  a byte offset and a length; \<^term>\<open>None\<close> is the null pointer with length \<open>-1\<close>.  The memory is
  the byte array itself; an access outside it, like a failed assertion, gives \<^term>\<open>None\<close>.
\<close>

section \<open>Memory\<close>

definition mem_read :: "nat \<Rightarrow> nat \<Rightarrow> bytes \<Rightarrow> bytes" where
  "mem_read off n m = take n (drop off m)"

definition mem_write :: "nat \<Rightarrow> bytes \<Rightarrow> bytes \<Rightarrow> bytes" where
  "mem_write off d m = take off m @ d @ drop (off + length d) m"

section \<open>The ring\<close>

definition bdivide_up :: "nat \<Rightarrow> nat \<Rightarrow> nat" where
  "bdivide_up a b = (if a mod b > 0 then a div b + 1 else a div b)"

record ChunkBuffer2 =
  cb_mem :: bytes
  cb_size :: nat
  cb_wrap :: nat
  cb_start :: nat
  cb_used :: nat
  cb_mtu :: nat
  cb_input :: "(nat \<times> nat) option"
  cb_output :: "(nat \<times> nat) option"

text \<open>The field \<open>len\<close> of block \<open>i\<close>.\<close>

definition block_len :: "nat \<Rightarrow> bytes \<Rightarrow> nat" where
  "block_len i m = unat (load32 (mem_read (4 * i) 4 m))"

definition set_block_len :: "nat \<Rightarrow> nat \<Rightarrow> bytes \<Rightarrow> bytes" where
  "set_block_len i n m = mem_write (4 * i) (store32 (word_of_nat n)) m"

definition wrapped :: "ChunkBuffer2 \<Rightarrow> bool" where
  "wrapped b \<longleftrightarrow> cb_wrap b \<le> cb_used b + cb_start b"

definition ChunkBuffer2_end :: "ChunkBuffer2 \<Rightarrow> nat" where
  "ChunkBuffer2_end b =
     (if wrapped b then cb_used b + cb_start b - cb_wrap b else cb_start b + cb_used b)"

definition ChunkBuffer2_assert_buffer :: "ChunkBuffer2 \<Rightarrow> bool" where
  "ChunkBuffer2_assert_buffer b \<longleftrightarrow>
     0 < cb_size b \<and> 0 < cb_wrap b \<and> cb_wrap b \<le> cb_size b \<and> cb_start b < cb_wrap b \<and>
     cb_used b \<le> cb_wrap b \<and> (cb_wrap b = cb_size b \<or> wrapped b)"

text \<open>What \<open>input_dest\<close> and \<open>input_avail\<close> should be.\<close>

definition input_area :: "ChunkBuffer2 \<Rightarrow> (nat \<times> nat) option" where
  "input_area b =
     (let e = ChunkBuffer2_end b;
          fr = (if wrapped b then cb_start b - e else cb_size b - e)
      in if cb_size b < e + 1 + cb_mtu b then None
         else if fr > 0 then Some (4 * (e + 1), (fr - 1) * 4) else None)"

definition output_area :: "ChunkBuffer2 \<Rightarrow> (nat \<times> nat) option" where
  "output_area b =
     (if cb_used b > 0 then Some (4 * (cb_start b + 1), block_len (cb_start b) (cb_mem b)) else None)"

text \<open>The first packet lies inside the used part and in front of \<open>wrap\<close>.\<close>

definition first_packet_fits :: "ChunkBuffer2 \<Rightarrow> bool" where
  "first_packet_fits b \<longleftrightarrow>
     (cb_used b > 0 \<longrightarrow>
        (let n = bdivide_up (block_len (cb_start b) (cb_mem b)) 4
         in int (block_len (cb_start b) (cb_mem b)) \<le> INT_MAX \<and> n + 1 \<le> cb_used b \<and>
            cb_start b + n + 1 \<le> cb_wrap b))"

definition ChunkBuffer2_assert_io :: "ChunkBuffer2 \<Rightarrow> bool" where
  "ChunkBuffer2_assert_io b \<longleftrightarrow>
     cb_input b = input_area b \<and> first_packet_fits b \<and> cb_output b = output_area b"

definition ChunkBuffer2_update_input :: "ChunkBuffer2 \<Rightarrow> ChunkBuffer2" where
  "ChunkBuffer2_update_input b = b\<lparr>cb_input := input_area b\<rparr>"

definition ChunkBuffer2_update_output :: "ChunkBuffer2 \<Rightarrow> ChunkBuffer2 option" where
  "ChunkBuffer2_update_output b =
     ASSERT (first_packet_fits b) (Some (b\<lparr>cb_output := output_area b\<rparr>))"

definition ChunkBuffer2_calc_blocks :: "nat \<Rightarrow> nat \<Rightarrow> nat option" where
  "ChunkBuffer2_calc_blocks chunk_len num =
     (let chunk_data_blocks = bdivide_up chunk_len 4
      in if int chunk_data_blocks > INT_MAX - 1 then None
         else let chunk_blocks = 1 + chunk_data_blocks
              in if int num > INT_MAX - 1 then None
                 else let num_chunks = num + 1
                      in if int chunk_blocks > INT_MAX div int num_chunks then None
                         else Some (chunk_blocks * num_chunks))"

definition ChunkBuffer2_Init :: "bytes \<Rightarrow> nat \<Rightarrow> nat \<Rightarrow> ChunkBuffer2 option" where
  "ChunkBuffer2_Init buffer blocks mtu =
     ASSERT (blocks > 0) (
     let b = \<lparr>cb_mem = buffer, cb_size = blocks, cb_wrap = blocks, cb_start = 0, cb_used = 0,
              cb_mtu = bdivide_up mtu 4, cb_input = None, cb_output = None\<rparr>
     in ASSERT (ChunkBuffer2_assert_buffer b) (
        do {
          b \<leftarrow> ChunkBuffer2_update_output (ChunkBuffer2_update_input b);
          ASSERT (ChunkBuffer2_assert_io b) (Some b) }))"

definition ChunkBuffer2_SubmitPacket :: "nat \<Rightarrow> ChunkBuffer2 \<Rightarrow> ChunkBuffer2 option" where
  "ChunkBuffer2_SubmitPacket len b =
     ASSERT (case cb_input b of None \<Rightarrow> False | Some (_, avail) \<Rightarrow> len \<le> avail) (
     ASSERT (ChunkBuffer2_assert_buffer b \<and> ChunkBuffer2_assert_io b) (
     let e = ChunkBuffer2_end b;
         blocklen = bdivide_up len 4
     in ASSERT (e + 1 + blocklen \<le> cb_size b) (
        ASSERT (\<not> wrapped b \<or> e + 1 + blocklen \<le> cb_start b) (
        ASSERT (4 * e + 4 \<le> length (cb_mem b)) (
        let b1 = b\<lparr>cb_mem := set_block_len e len (cb_mem b), cb_used := cb_used b + (1 + blocklen)\<rparr>;
            b2 = (if cb_used b1 + cb_start b1 \<le> cb_wrap b1 \<and>
                     cb_mtu b1 + (e + 1 + blocklen) + 1 > cb_size b1
                  then b1\<lparr>cb_wrap := e + 1 + blocklen\<rparr> else b1)
        in ASSERT (ChunkBuffer2_assert_buffer b2) (
           let b3 = ChunkBuffer2_update_input b2
           in do {
             b4 \<leftarrow> (if cb_used b3 = 1 + blocklen then ChunkBuffer2_update_output b3 else Some b3);
             ASSERT (ChunkBuffer2_assert_io b4) (Some b4) }))))))"

definition ChunkBuffer2_ConsumePacket :: "ChunkBuffer2 \<Rightarrow> ChunkBuffer2 option" where
  "ChunkBuffer2_ConsumePacket b =
     ASSERT (cb_output b \<noteq> None) (
     ASSERT (ChunkBuffer2_assert_buffer b \<and> ChunkBuffer2_assert_io b) (
     ASSERT (cb_start b + 1 \<le> cb_wrap b \<and> 1 \<le> cb_used b) (
     let blocklen = bdivide_up (block_len (cb_start b) (cb_mem b)) 4
     in ASSERT (cb_start b + blocklen + 1 \<le> cb_wrap b \<and> blocklen + 1 \<le> cb_used b) (
        let data_wrapped = wrapped b;
            b1 = b\<lparr>cb_start := cb_start b + (1 + blocklen), cb_used := cb_used b - (1 + blocklen)\<rparr>;
            b2 = (if cb_start b1 = cb_wrap b1 then b1\<lparr>cb_start := 0, cb_wrap := cb_size b1\<rparr> else b1)
        in ASSERT (ChunkBuffer2_assert_buffer b2) (
           let b3 = (if data_wrapped then ChunkBuffer2_update_input b2 else b2)
           in do {
             b4 \<leftarrow> ChunkBuffer2_update_output b3;
             ASSERT (ChunkBuffer2_assert_io b4) (Some b4) })))))"

text \<open>What the producer does with the input area, and the consumer with the output area.\<close>

definition cb_fill :: "bytes \<Rightarrow> ChunkBuffer2 \<Rightarrow> ChunkBuffer2 option" where
  "cb_fill d b =
     (case cb_input b of
        None \<Rightarrow> None
      | Some (dest, avail) \<Rightarrow>
          ASSERT (length d \<le> avail \<and> dest + length d \<le> length (cb_mem b))
            (Some (b\<lparr>cb_mem := mem_write dest d (cb_mem b)\<rparr>)))"

definition cb_put :: "bytes \<Rightarrow> ChunkBuffer2 \<Rightarrow> ChunkBuffer2 option" where
  "cb_put d b = do { b1 \<leftarrow> cb_fill d b; ChunkBuffer2_SubmitPacket (length d) b1 }"

definition cb_front :: "ChunkBuffer2 \<Rightarrow> bytes option" where
  "cb_front b = map_option (\<lambda>(dest, n). mem_read dest n (cb_mem b)) (cb_output b)"

text \<open>The room for the next packet.\<close>

definition cb_room :: "ChunkBuffer2 \<Rightarrow> nat option" where
  "cb_room b = map_option snd (cb_input b)"

section \<open>The stored packets\<close>

text \<open>
  The packets \<open>xs\<close> lie one behind the other from block \<open>p\<close> to block \<open>e\<close>; every header is at most at
  block \<open>lim\<close>, the last place where a packet of maximal size fits.
\<close>

fun stored :: "bytes \<Rightarrow> nat \<Rightarrow> nat \<Rightarrow> bytes list \<Rightarrow> nat \<Rightarrow> bool" where
  "stored m lim p [] e \<longleftrightarrow> p = e"
| "stored m lim p (x # xs) e \<longleftrightarrow>
     p \<le> lim \<and> block_len p m = length x \<and> mem_read (4 * (p + 1)) (length x) m = x \<and>
     stored m lim (p + 1 + bdivide_up (length x) 4) xs e"

definition cb_layout :: "ChunkBuffer2 \<Rightarrow> bytes list \<Rightarrow> bytes list \<Rightarrow> bool" where
  "cb_layout b xs ys \<longleftrightarrow>
     (let lim = cb_size b - (1 + cb_mtu b); e = ChunkBuffer2_end b
      in if wrapped b then
           stored (cb_mem b) lim (cb_start b) xs (cb_wrap b) \<and> stored (cb_mem b) lim 0 ys e \<and>
           e \<le> cb_start b
         else stored (cb_mem b) lim (cb_start b) xs e \<and> ys = [] \<and> e \<le> lim)"

definition cb_holds :: "ChunkBuffer2 \<Rightarrow> bytes list \<Rightarrow> bool" where
  "cb_holds b q \<longleftrightarrow>
     ChunkBuffer2_assert_buffer b \<and> ChunkBuffer2_assert_io b \<and>
     length (cb_mem b) = 4 * cb_size b \<and> int (4 * cb_size b) \<le> INT_MAX \<and> 1 + cb_mtu b \<le> cb_size b \<and>
     (cb_wrap b < cb_size b \<longrightarrow> cb_size b < cb_wrap b + 1 + cb_mtu b) \<and>
     (\<exists>xs ys. q = xs @ ys \<and> cb_layout b xs ys)"

section \<open>Lemmas on the memory\<close>

lemma length_mem_write [simp]: "off + length d \<le> length m \<Longrightarrow> length (mem_write off d m) = length m"
  by (simp add: mem_write_def)

lemma nth_mem_write:
  "off + length d \<le> length m \<Longrightarrow> i < length m \<Longrightarrow>
   mem_write off d m ! i = (if off \<le> i \<and> i < off + length d then d ! (i - off) else m ! i)"
  by (auto simp: mem_write_def nth_append min_def)

lemma mem_read_cong:
  assumes "length m' = length m" and "off + n \<le> length m"
    and "\<And>i. off \<le> i \<Longrightarrow> i < off + n \<Longrightarrow> m' ! i = m ! i"
  shows "mem_read off n m' = mem_read off n m"
  unfolding mem_read_def by (rule nth_equalityI) (use assms in auto)

lemma mem_read_write_same:
  "off + length d \<le> length m \<Longrightarrow> mem_read off (length d) (mem_write off d m) = d"
  by (simp add: mem_read_def mem_write_def)

lemma block_len_set: "4 * i + 4 \<le> length m \<Longrightarrow> n < 2 ^ 32 \<Longrightarrow> block_len i (set_block_len i n m) = n"
  using mem_read_write_same [of "4 * i" "store32 (word_of_nat n)" m]
  by (simp add: block_len_def set_block_len_def unat_of_nat)

lemma length_set_block_len [simp]:
  "4 * i + 4 \<le> length m \<Longrightarrow> length (set_block_len i n m) = length m"
  by (simp add: set_block_len_def)

lemma bdivide_up_4: "n \<le> 4 * bdivide_up n 4"
  by (auto simp: bdivide_up_def)

lemma bdivide_up_4_le: "bdivide_up n 4 \<le> k \<longleftrightarrow> n \<le> 4 * k"
  unfolding bdivide_up_def by presburger

section \<open>Lemmas on the layout\<close>

lemma stored_le: "stored m lim p xs e \<Longrightarrow> p \<le> e"
  by (induction xs arbitrary: p) force+

lemma stored_start_le: "stored m lim p xs e \<Longrightarrow> p < e \<Longrightarrow> p \<le> lim"
  by (cases xs) auto

lemma stored_nonempty: "stored m lim p xs e \<Longrightarrow> xs = [] \<longleftrightarrow> p = e"
  by (cases xs) (auto dest: stored_le)

lemma stored_cong:
  assumes "stored m lim p xs e" and "length m' = length m" and "4 * e \<le> length m"
    and "\<And>i. 4 * p \<le> i \<Longrightarrow> i < 4 * e \<Longrightarrow> m' ! i = m ! i"
  shows "stored m' lim p xs e"
  using assms
proof (induction xs arbitrary: p)
  case (Cons x xs)
  let ?q = "p + 1 + bdivide_up (length x) 4"
  have q: "?q \<le> e" using Cons.prems(1) by (auto dest: stored_le)
  have n: "length x \<le> 4 * bdivide_up (length x) 4" by (rule bdivide_up_4)
  have "mem_read (4 * p) 4 m' = mem_read (4 * p) 4 m"
    by (rule mem_read_cong) (use Cons.prems q in auto)
  moreover have "mem_read (4 * (p + 1)) (length x) m' = mem_read (4 * (p + 1)) (length x) m"
    by (rule mem_read_cong) (use Cons.prems q n in auto)
  moreover have "stored m' lim ?q xs e"
    by (rule Cons.IH) (use Cons.prems q in auto)
  ultimately show ?case using Cons.prems(1) by (simp add: block_len_def)
qed simp

lemma stored_snoc:
  "stored m lim p xs e \<Longrightarrow> e \<le> lim \<Longrightarrow> block_len e m = length x \<Longrightarrow>
   mem_read (4 * (e + 1)) (length x) m = x \<Longrightarrow>
   stored m lim p (xs @ [x]) (e + 1 + bdivide_up (length x) 4)"
  by (induction xs arbitrary: p) auto

lemma stored_size:
  "stored m lim p xs e \<Longrightarrow> \<forall>x \<in> set xs. bdivide_up (length x) 4 \<le> k \<Longrightarrow> e \<le> p + (1 + k) * length xs"
  by (induction xs arbitrary: p) fastforce+


lemmas cb_defs = ChunkBuffer2_assert_buffer_def ChunkBuffer2_assert_io_def wrapped_def
  ChunkBuffer2_end_def Let_def

text \<open>The part of the memory that holds no packet, in blocks.\<close>

definition free_limit :: "ChunkBuffer2 \<Rightarrow> nat" where
  "free_limit b = (if wrapped b then cb_start b else cb_size b)"

lemma layout_frame:
  assumes "cb_layout b xs ys" and "ChunkBuffer2_assert_buffer b" and "length (cb_mem b) = 4 * cb_size b"
    and "length m' = length (cb_mem b)" and "1 + cb_mtu b \<le> cb_size b"
    and same: "\<And>i. i < length m' \<Longrightarrow> i < 4 * ChunkBuffer2_end b \<or> 4 * free_limit b \<le> i \<Longrightarrow> m' ! i = cb_mem b ! i"
  shows "cb_layout (b\<lparr>cb_mem := m'\<rparr>) xs ys"
proof (cases "wrapped b")
  case True
  let ?lim = "cb_size b - (1 + cb_mtu b)"
  have l: "stored (cb_mem b) ?lim (cb_start b) xs (cb_wrap b)"
    "stored (cb_mem b) ?lim 0 ys (ChunkBuffer2_end b)" "ChunkBuffer2_end b \<le> cb_start b"
    using assms(1) True by (simp_all add: cb_layout_def Let_def)
  have g: "cb_wrap b \<le> cb_size b" "cb_start b < cb_wrap b" "free_limit b = cb_start b"
    using assms(2) True by (simp_all add: cb_defs free_limit_def)
  have "stored m' ?lim (cb_start b) xs (cb_wrap b)"
    by (rule stored_cong [OF l(1) assms(4)]) (use g assms(3,4) same in auto)
  moreover have "stored m' ?lim 0 ys (ChunkBuffer2_end b)"
    by (rule stored_cong [OF l(2) assms(4)]) (use g l(3) assms(3,4) same in auto)
  ultimately show ?thesis using True l(3) by (simp add: cb_layout_def cb_defs)
next
  case False
  let ?lim = "cb_size b - (1 + cb_mtu b)"
  have l: "stored (cb_mem b) ?lim (cb_start b) xs (ChunkBuffer2_end b)" "ys = []"
    "ChunkBuffer2_end b \<le> ?lim"
    using assms(1) False by (simp_all add: cb_layout_def Let_def)
  have "stored m' ?lim (cb_start b) xs (ChunkBuffer2_end b)"
    by (rule stored_cong [OF l(1) assms(4)]) (use l(3) assms(3,4,5) same in auto)
  then show ?thesis using False l by (simp add: cb_layout_def cb_defs)
qed

lemma layout_first:
  assumes l: "cb_layout b xs ys" and a: "ChunkBuffer2_assert_buffer b"
    and len: "length (cb_mem b) = 4 * cb_size b" "int (4 * cb_size b) \<le> INT_MAX" and u: "cb_used b > 0"
  obtains x zs e where "xs = x # zs" and "block_len (cb_start b) (cb_mem b) = length x"
    and "mem_read (4 * (cb_start b + 1)) (length x) (cb_mem b) = x"
    and "stored (cb_mem b) (cb_size b - (1 + cb_mtu b)) (cb_start b + 1 + bdivide_up (length x) 4) zs e"
    and "e = (if wrapped b then cb_wrap b else cb_start b + cb_used b)"
    and "cb_start b + bdivide_up (length x) 4 + 1 \<le> e" and "first_packet_fits b"
    and "cb_start b \<le> cb_size b - (1 + cb_mtu b)"
proof -
  define e where "e = (if wrapped b then cb_wrap b else cb_start b + cb_used b)"
  have s: "stored (cb_mem b) (cb_size b - (1 + cb_mtu b)) (cb_start b) xs e"
    using l by (auto simp: cb_layout_def cb_defs e_def split: if_splits)
  have "cb_start b \<noteq> e" using a u by (auto simp: e_def cb_defs)
  then obtain x zs where x: "xs = x # zs" using stored_nonempty [OF s] by (cases xs) auto
  have n: "cb_start b + 1 + bdivide_up (length x) 4 \<le> e" using s x by (auto dest: stored_le)
  have "e \<le> cb_size b" using a by (auto simp: e_def cb_defs)
  then have "4 * bdivide_up (length x) 4 \<le> 4 * cb_size b" using n by simp
  then have "int (length x) \<le> INT_MAX" using bdivide_up_4 [of "length x"] len(2) by linarith
  moreover have "bdivide_up (length x) 4 + 1 \<le> cb_used b" "cb_start b + bdivide_up (length x) 4 + 1 \<le> cb_wrap b"
    using n a by (auto simp: e_def cb_defs split: if_splits)
  ultimately have "first_packet_fits b" using s x by (simp add: first_packet_fits_def Let_def)
  then show ?thesis using that [of x zs e] s x n by (simp add: e_def)
qed

lemma layout_empty:
  "cb_layout b xs ys \<Longrightarrow> ChunkBuffer2_assert_buffer b \<Longrightarrow> xs @ ys = [] \<longleftrightarrow> cb_used b = 0"
  by (auto simp: cb_layout_def cb_defs split: if_splits dest: stored_nonempty)

lemma layout_fits:
  assumes "cb_layout b xs ys" and "ChunkBuffer2_assert_buffer b"
    and "length (cb_mem b) = 4 * cb_size b" "int (4 * cb_size b) \<le> INT_MAX"
  shows "first_packet_fits b"
proof (cases "cb_used b > 0")
  case True
  then show ?thesis using layout_first [OF assms True] by blast
qed (simp add: first_packet_fits_def)

text \<open>The end of the stored packets leaves room for a packet of maximal size.\<close>

lemma layout_end:
  assumes "cb_layout b xs ys" and "ChunkBuffer2_assert_buffer b" and "1 + cb_mtu b \<le> cb_size b"
  shows "ChunkBuffer2_end b + 1 + cb_mtu b \<le> cb_size b"
proof (cases "wrapped b")
  case True
  then have "cb_start b \<le> cb_size b - (1 + cb_mtu b)" "ChunkBuffer2_end b \<le> cb_start b"
    using assms by (auto simp: cb_layout_def cb_defs intro: stored_start_le)
  then show ?thesis using assms(3) by simp
qed (use assms in \<open>auto simp: cb_layout_def Let_def\<close>)

lemma holds_input:
  assumes "cb_holds b q"
  shows "cb_input b = (if free_limit b > ChunkBuffer2_end b
    then Some (4 * (ChunkBuffer2_end b + 1), 4 * (free_limit b - ChunkBuffer2_end b - 1)) else None)"
proof -
  from assms obtain xs ys where "cb_layout b xs ys" by (auto simp: cb_holds_def)
  then have "ChunkBuffer2_end b + 1 + cb_mtu b \<le> cb_size b"
    using assms layout_end by (auto simp: cb_holds_def)
  then show ?thesis
    using assms by (auto simp: cb_holds_def ChunkBuffer2_assert_io_def input_area_def Let_def free_limit_def)
qed

lemma holds_output:
  assumes h: "cb_holds b (x # q)"
  shows "cb_output b = Some (4 * (cb_start b + 1), length x)"
    and "mem_read (4 * (cb_start b + 1)) (length x) (cb_mem b) = x"
proof -
  obtain xs ys where q: "x # q = xs @ ys" and l: "cb_layout b xs ys"
    using h by (metis cb_holds_def)
  have h': "ChunkBuffer2_assert_buffer b" "length (cb_mem b) = 4 * cb_size b"
    "int (4 * cb_size b) \<le> INT_MAX" "ChunkBuffer2_assert_io b" using h by (simp_all add: cb_holds_def)
  have u: "cb_used b > 0" using layout_empty [OF l h'(1)] q by (cases "cb_used b") auto
  obtain y zs where "xs = y # zs" "block_len (cb_start b) (cb_mem b) = length y"
    "mem_read (4 * (cb_start b + 1)) (length y) (cb_mem b) = y"
    by (rule layout_first [OF l h'(1-3) u])
  then show "cb_output b = Some (4 * (cb_start b + 1), length x)"
    "mem_read (4 * (cb_start b + 1)) (length x) (cb_mem b) = x"
    using q h'(4) u by (simp_all add: ChunkBuffer2_assert_io_def output_area_def)
qed

lemma holds_no_output: "cb_holds b [] \<Longrightarrow> cb_output b = None"
  using layout_empty [of b "[]" "[]"]
  by (auto simp: cb_holds_def ChunkBuffer2_assert_io_def output_area_def)

lemma holds_front: "cb_holds b q \<Longrightarrow> cb_front b = (case q of [] \<Rightarrow> None | x # _ \<Rightarrow> Some x)"
  using holds_no_output holds_output by (cases q) (auto simp: cb_front_def)

text \<open>The areas are computed from the other fields.\<close>

lemma io_fields [simp]:
  "wrapped (b\<lparr>cb_input := i\<rparr>) = wrapped b" "wrapped (b\<lparr>cb_output := j\<rparr>) = wrapped b"
  "ChunkBuffer2_end (b\<lparr>cb_input := i\<rparr>) = ChunkBuffer2_end b"
  "ChunkBuffer2_end (b\<lparr>cb_output := j\<rparr>) = ChunkBuffer2_end b"
  "ChunkBuffer2_assert_buffer (b\<lparr>cb_input := i\<rparr>) = ChunkBuffer2_assert_buffer b"
  "ChunkBuffer2_assert_buffer (b\<lparr>cb_output := j\<rparr>) = ChunkBuffer2_assert_buffer b"
  "input_area (b\<lparr>cb_input := i\<rparr>) = input_area b" "input_area (b\<lparr>cb_output := j\<rparr>) = input_area b"
  "output_area (b\<lparr>cb_input := i\<rparr>) = output_area b" "output_area (b\<lparr>cb_output := j\<rparr>) = output_area b"
  "first_packet_fits (b\<lparr>cb_input := i\<rparr>) = first_packet_fits b"
  "first_packet_fits (b\<lparr>cb_output := j\<rparr>) = first_packet_fits b"
  by (simp_all add: wrapped_def ChunkBuffer2_end_def ChunkBuffer2_assert_buffer_def input_area_def
      output_area_def first_packet_fits_def)

lemma io_layout [simp]:
  "cb_layout (b\<lparr>cb_input := i\<rparr>) = cb_layout b" "cb_layout (b\<lparr>cb_output := j\<rparr>) = cb_layout b"
  by (simp_all add: cb_layout_def fun_eq_iff)

text \<open>A ring with good geometry and layout is good once its areas are recomputed.\<close>

lemma holds_refresh:
  assumes "ChunkBuffer2_assert_buffer t" "cb_layout t xs ys"
    "length (cb_mem t) = 4 * cb_size t" "int (4 * cb_size t) \<le> INT_MAX" "1 + cb_mtu t \<le> cb_size t"
    "cb_wrap t < cb_size t \<longrightarrow> cb_size t < cb_wrap t + 1 + cb_mtu t"
  defines "u \<equiv> t\<lparr>cb_input := input_area t, cb_output := output_area t\<rparr>"
  shows "cb_holds u (xs @ ys)" "ChunkBuffer2_assert_io u" "first_packet_fits t"
proof -
  show f: "first_packet_fits t" by (rule layout_fits) (rule assms)+
  then show "ChunkBuffer2_assert_io u" by (simp add: u_def ChunkBuffer2_assert_io_def)
  then show "cb_holds u (xs @ ys)" using assms(1-6) unfolding cb_holds_def by (auto simp: u_def)
qed

section \<open>Storing a packet\<close>

text \<open>The fields after a packet of \<open>n\<close> data blocks has been stored at the end \<open>e\<close>.\<close>

definition cb_grow :: "nat \<Rightarrow> bytes \<Rightarrow> ChunkBuffer2 \<Rightarrow> ChunkBuffer2" where
  "cb_grow n m b =
     (let e = ChunkBuffer2_end b;
          b1 = b\<lparr>cb_mem := m, cb_used := cb_used b + (1 + n)\<rparr>
      in if cb_used b1 + cb_start b1 \<le> cb_wrap b1 \<and> cb_mtu b1 + (e + 1 + n) + 1 > cb_size b1
         then b1\<lparr>cb_wrap := e + 1 + n\<rparr> else b1)"

lemma cb_grow_simps [simp]:
  "cb_size (cb_grow n m b) = cb_size b" "cb_mtu (cb_grow n m b) = cb_mtu b"
  "cb_start (cb_grow n m b) = cb_start b" "cb_mem (cb_grow n m b) = m"
  "cb_used (cb_grow n m b) = cb_used b + (1 + n)" "cb_output (cb_grow n m b) = cb_output b"
  by (simp_all add: cb_grow_def Let_def)

lemma grow_layout:
  assumes a: "ChunkBuffer2_assert_buffer b" and mtu: "1 + cb_mtu b \<le> cb_size b"
    and w: "cb_wrap b < cb_size b \<longrightarrow> cb_size b < cb_wrap b + 1 + cb_mtu b"
    and l: "cb_layout (b\<lparr>cb_mem := m\<rparr>) xs ys"
    and n: "ChunkBuffer2_end b + 1 + n \<le> free_limit b" "n = bdivide_up (length d) 4"
    and d: "block_len (ChunkBuffer2_end b) m = length d"
      "mem_read (4 * (ChunkBuffer2_end b + 1)) (length d) m = d"
  defines "t \<equiv> cb_grow n m b"
  shows "ChunkBuffer2_assert_buffer t \<and> (cb_wrap t < cb_size t \<longrightarrow> cb_size t < cb_wrap t + 1 + cb_mtu t) \<and>
    (\<exists>xs' ys'. xs' @ ys' = (xs @ ys) @ [d] \<and> cb_layout t xs' ys')"
proof -
  let ?lim = "cb_size b - (1 + cb_mtu b)" and ?e = "ChunkBuffer2_end b"
  have sh: "wrapped (b\<lparr>cb_mem := m\<rparr>) = wrapped b" "ChunkBuffer2_end (b\<lparr>cb_mem := m\<rparr>) = ?e"
    by (simp_all add: wrapped_def ChunkBuffer2_end_def)
  have e: "?e \<le> ?lim"
    using layout_end [OF l] a mtu by (simp add: sh ChunkBuffer2_assert_buffer_def)
  show ?thesis
  proof (cases "wrapped b")
    case True
    have s: "stored m ?lim (cb_start b) xs (cb_wrap b)" "stored m ?lim 0 ys ?e"
      using l True by (simp_all add: cb_layout_def sh Let_def)
    have t: "t = b\<lparr>cb_mem := m, cb_used := cb_used b + (1 + n)\<rparr>"
      using True by (simp add: t_def cb_grow_def wrapped_def Let_def)
    have w': "wrapped t" "ChunkBuffer2_end t = ?e + 1 + n"
      using True a by (simp_all add: t wrapped_def ChunkBuffer2_end_def)
    have "cb_layout t xs (ys @ [d])"
      using s stored_snoc [OF s(2) e d] n True w' by (simp add: cb_layout_def t free_limit_def)
    moreover have "cb_used b + (1 + n) \<le> cb_wrap b"
      using a n(1) True by (simp add: cb_defs free_limit_def)
    ultimately show ?thesis using a w w'(1) True
      by (intro conjI) (auto simp: ChunkBuffer2_assert_buffer_def t)
  next
    case False
    have s: "stored m ?lim (cb_start b) xs ?e" "ys = []"
      using l False by (simp_all add: cb_layout_def sh Let_def)
    have g: "cb_wrap b = cb_size b" "?e = cb_start b + cb_used b" "?e + 1 + n \<le> cb_size b"
      using a False n(1) by (simp_all add: cb_defs free_limit_def)
    have s': "stored m ?lim (cb_start b) (xs @ [d]) (?e + 1 + n)"
      using stored_snoc [OF s(1) e d] n(2) by simp
    show ?thesis
    proof (cases "cb_mtu b + (?e + 1 + n) + 1 > cb_size b")
      case True
      have t: "t = b\<lparr>cb_mem := m, cb_used := cb_used b + (1 + n), cb_wrap := ?e + 1 + n\<rparr>"
        using True g by (simp add: t_def cb_grow_def Let_def)
      have w': "wrapped t" "ChunkBuffer2_end t = 0"
        using g by (simp_all add: t wrapped_def ChunkBuffer2_end_def)
      have "cb_layout t (xs @ [d]) []" using s' w' by (simp add: cb_layout_def t)
      then show ?thesis using g s True w' a
        by (intro conjI) (auto simp: ChunkBuffer2_assert_buffer_def t intro: exI [of _ "[]"])
    next
      case nf: False
      have t: "t = b\<lparr>cb_mem := m, cb_used := cb_used b + (1 + n)\<rparr>"
        using nf by (simp add: t_def cb_grow_def Let_def)
      have w': "\<not> wrapped t" "ChunkBuffer2_end t = ?e + 1 + n"
        using nf g by (simp_all add: t wrapped_def ChunkBuffer2_end_def)
      have "cb_layout t (xs @ [d]) []" using s' w' nf by (simp add: cb_layout_def t)
      then show ?thesis using g s nf a
        by (intro conjI) (auto simp: ChunkBuffer2_assert_buffer_def t intro: exI [of _ "[]"])
    qed
  qed
qed

lemma submit_ok:
  assumes h: "cb_holds b q" and i: "cb_input b = Some (dest, avail)" "length d \<le> avail"
    and d: "mem_read dest (length d) (cb_mem b) = d"
  shows "\<exists>t. ChunkBuffer2_SubmitPacket (length d) b = Some t \<and> cb_holds t (q @ [d]) \<and>
    cb_mtu t = cb_mtu b \<and> cb_size t = cb_size b \<and> cb_start t = cb_start b"
proof -
  let ?e = "ChunkBuffer2_end b" and ?n = "bdivide_up (length d) 4"
  define m where "m = set_block_len ?e (length d) (cb_mem b)"
  define t where "t = cb_grow ?n m b"
  obtain xs ys where q: "q = xs @ ys" and l: "cb_layout b xs ys" using h by (auto simp: cb_holds_def)
  have a: "ChunkBuffer2_assert_buffer b" "length (cb_mem b) = 4 * cb_size b"
    "int (4 * cb_size b) \<le> INT_MAX" "1 + cb_mtu b \<le> cb_size b"
    "cb_wrap b < cb_size b \<longrightarrow> cb_size b < cb_wrap b + 1 + cb_mtu b"
    "ChunkBuffer2_assert_io b"
    using h by (simp_all add: cb_holds_def)
  have fl: "?e + 1 + ?n \<le> free_limit b" "dest = 4 * (?e + 1)" "free_limit b \<le> cb_size b"
    using holds_input [OF h] i bdivide_up_4_le [of "length d" "free_limit b - ?e - 1"] a(1)
    by (auto simp: free_limit_def cb_defs split: if_splits)
  have in_mem: "4 * ?e + 4 \<le> length (cb_mem b)" using fl a(2) by simp
  have small: "length d < 2 ^ 32" using i(2) holds_input [OF h] i(1) fl a(3) by (auto split: if_splits)
  have len: "length m = length (cb_mem b)" using in_mem by (simp add: m_def)
  have same: "m ! j = cb_mem b ! j" if "j < length m" "j < 4 * ?e \<or> 4 * ?e + 4 \<le> j" for j
    using that len in_mem by (auto simp: m_def set_block_len_def nth_mem_write)
  have lm: "cb_layout (b\<lparr>cb_mem := m\<rparr>) xs ys"
    by (rule layout_frame [OF l a(1,2) len a(4)]) (use same fl in auto)
  have "mem_read dest (length d) m = mem_read dest (length d) (cb_mem b)"
    by (rule mem_read_cong [OF len]) (use fl a(2) len bdivide_up_4 [of "length d"] same in auto)
  then have dm: "mem_read (4 * (?e + 1)) (length d) m = d" using d fl(2) by simp
  have bl: "block_len ?e m = length d" using block_len_set [OF in_mem small] by (simp add: m_def)
  obtain xs' ys' where g: "ChunkBuffer2_assert_buffer t"
    "cb_wrap t < cb_size t \<longrightarrow> cb_size t < cb_wrap t + 1 + cb_mtu t" "xs' @ ys' = q @ [d]" "cb_layout t xs' ys'"
    using grow_layout [OF a(1,4,5) lm fl(1) refl bl dm] unfolding t_def q by blast
  have tl: "length (cb_mem t) = 4 * cb_size t" "int (4 * cb_size t) \<le> INT_MAX"
    using a len by (simp_all add: t_def)
  define u where "u = t\<lparr>cb_input := input_area t, cb_output := output_area t\<rparr>"
  have mt: "1 + cb_mtu t \<le> cb_size t" using a(4) by (simp add: t_def)
  note u = holds_refresh [OF g(1,4) tl mt g(2), folded u_def]
  have "cb_holds u (q @ [d])" using u(1) g(3) by simp
  moreover have "ChunkBuffer2_SubmitPacket (length d) b = Some u"
  proof -
    have out: "cb_output t = output_area t" if "cb_used b \<noteq> 0"
    proof -
      have pos: "?e + 1 \<le> cb_start b \<or> cb_start b + 1 \<le> ?e" "cb_start b + 1 \<le> cb_size b"
        using a(1) fl(1) that by (auto simp: cb_defs free_limit_def split: if_splits)
      have "m ! j = cb_mem b ! j" if "4 * cb_start b \<le> j" "j < 4 * cb_start b + 4" for j
        by (rule same) (use that pos len a(2) in auto)
      then have "mem_read (4 * cb_start b) 4 m = mem_read (4 * cb_start b) 4 (cb_mem b)"
        using a(1,2) by (intro mem_read_cong [OF len]) (auto simp: cb_defs)
      then show ?thesis using a(6) that
        by (simp add: ChunkBuffer2_assert_io_def output_area_def t_def block_len_def)
    qed
    have c: "\<not> wrapped b \<or> ?e + 1 + ?n \<le> cb_start b" "?e + 1 + ?n \<le> cb_size b"
      using fl by (auto simp: free_limit_def split: if_splits)
    have fits: "first_packet_fits (ChunkBuffer2_update_input t)"
      using u(3) by (simp add: ChunkBuffer2_update_input_def)
    have b4: "(if cb_used (ChunkBuffer2_update_input t) = 1 + ?n
        then ChunkBuffer2_update_output (ChunkBuffer2_update_input t)
        else Some (ChunkBuffer2_update_input t)) = Some u"
      using out fits
      by (auto simp: ChunkBuffer2_update_input_def ChunkBuffer2_update_output_def u_def t_def output_area_def)
    show ?thesis
      unfolding ChunkBuffer2_SubmitPacket_def Let_def
      unfolding m_def [symmetric] cb_grow_def [unfolded Let_def, symmetric] t_def [symmetric] b4
      using a i c in_mem g(1) u(2) by simp
  qed
  ultimately show ?thesis by (auto simp: u_def t_def)
qed

lemma fill_ok:
  assumes h: "cb_holds b q" and i: "cb_input b = Some (dest, avail)" "length d \<le> avail"
  shows "\<exists>t. cb_fill d b = Some t \<and> cb_holds t q \<and> cb_input t = cb_input b \<and>
    mem_read dest (length d) (cb_mem t) = d \<and> cb_mtu t = cb_mtu b \<and> cb_size t = cb_size b \<and>
    cb_start t = cb_start b"
proof -
  let ?e = "ChunkBuffer2_end b"
  define m where "m = mem_write dest d (cb_mem b)"
  obtain xs ys where q: "q = xs @ ys" and l: "cb_layout b xs ys" using h by (auto simp: cb_holds_def)
  have a: "ChunkBuffer2_assert_buffer b" "length (cb_mem b) = 4 * cb_size b"
    "int (4 * cb_size b) \<le> INT_MAX" "1 + cb_mtu b \<le> cb_size b"
    "cb_wrap b < cb_size b \<longrightarrow> cb_size b < cb_wrap b + 1 + cb_mtu b"
    "ChunkBuffer2_assert_io b"
    using h by (simp_all add: cb_holds_def)
  have fl: "dest = 4 * (?e + 1)" "avail = 4 * (free_limit b - ?e - 1)" "free_limit b > ?e"
    using holds_input [OF h] i(1) by (auto split: if_splits)
  have fs: "free_limit b \<le> cb_size b" using a(1) by (auto simp: free_limit_def cb_defs)
  have in_mem: "dest + length d \<le> length (cb_mem b)" using fl fs i(2) a(2) by simp
  have len: "length m = length (cb_mem b)" using in_mem by (simp add: m_def)
  have same: "m ! j = cb_mem b ! j" if "j < length m" "j < 4 * ?e + 4 \<or> 4 * free_limit b \<le> j" for j
    using that len in_mem fl i(2) by (auto simp: m_def nth_mem_write)
  have lm: "cb_layout (b\<lparr>cb_mem := m\<rparr>) xs ys"
    by (rule layout_frame [OF l a(1,2) len a(4)]) (use same in auto)
  have "block_len (cb_start b) m = block_len (cb_start b) (cb_mem b)" if "cb_used b > 0"
  proof -
    have "mem_read (4 * cb_start b) 4 m = mem_read (4 * cb_start b) 4 (cb_mem b)"
      using a(1,2) that
      by (intro mem_read_cong [OF len] same) (auto simp: cb_defs free_limit_def len split: if_splits)
    then show ?thesis by (simp add: block_len_def)
  qed
  then have "output_area (b\<lparr>cb_mem := m\<rparr>) = output_area b"
    "first_packet_fits (b\<lparr>cb_mem := m\<rparr>) = first_packet_fits b"
    by (auto simp: output_area_def first_packet_fits_def)
  moreover have "input_area (b\<lparr>cb_mem := m\<rparr>) = input_area b"
    "ChunkBuffer2_assert_buffer (b\<lparr>cb_mem := m\<rparr>)"
    using a(1) by (simp_all add: input_area_def cb_defs)
  ultimately have "cb_holds (b\<lparr>cb_mem := m\<rparr>) q"
    using a q lm len unfolding cb_holds_def ChunkBuffer2_assert_io_def by auto
  then show ?thesis
    using i in_mem mem_read_write_same [OF in_mem] by (auto simp: cb_fill_def m_def)
qed

lemma put_ok:
  assumes h: "cb_holds b q" and r: "cb_room b = Some r" "length d \<le> r"
  shows "\<exists>t. cb_put d b = Some t \<and> cb_holds t (q @ [d]) \<and> cb_mtu t = cb_mtu b \<and> cb_size t = cb_size b"
proof -
  obtain dest where i: "cb_input b = Some (dest, r)" using r by (auto simp: cb_room_def)
  from fill_ok [OF h i r(2)] obtain t where t: "cb_fill d b = Some t" "cb_holds t q"
    "cb_input t = Some (dest, r)" "mem_read dest (length d) (cb_mem t) = d" "cb_mtu t = cb_mtu b"
    "cb_size t = cb_size b" using i by auto
  from submit_ok [OF t(2,3) r(2) t(4)] t show ?thesis by (auto simp: cb_put_def)
qed

section \<open>Removing a packet\<close>

lemma removed_layout:
  assumes l: "cb_layout b xs ys" and a: "ChunkBuffer2_assert_buffer b" and mtu: "1 + cb_mtu b \<le> cb_size b"
    and w: "cb_wrap b < cb_size b \<longrightarrow> cb_size b < cb_wrap b + 1 + cb_mtu b"
    and x: "xs = x # zs"
    and z: "stored (cb_mem b) (cb_size b - (1 + cb_mtu b)) (cb_start b + 1 + n) zs e"
    and e: "e = (if wrapped b then cb_wrap b else cb_start b + cb_used b)"
    and f: "cb_start b + n + 1 \<le> cb_wrap b" "n + 1 \<le> cb_used b"
    and st: "cb_start b \<le> cb_size b - (1 + cb_mtu b)"
  defines "t \<equiv> (let b1 = b\<lparr>cb_start := cb_start b + (1 + n), cb_used := cb_used b - (1 + n)\<rparr>
    in if cb_start b1 = cb_wrap b1 then b1\<lparr>cb_start := 0, cb_wrap := cb_size b1\<rparr> else b1)"
  shows "ChunkBuffer2_assert_buffer t \<and> (cb_wrap t < cb_size t \<longrightarrow> cb_size t < cb_wrap t + 1 + cb_mtu t) \<and>
    (\<exists>xs' ys'. zs @ ys = xs' @ ys' \<and> cb_layout t xs' ys') \<and> (\<not> wrapped b \<longrightarrow> input_area t = input_area b) \<and>
    ChunkBuffer2_end t = ChunkBuffer2_end b \<and> free_limit b \<le> free_limit t"
proof (cases "wrapped b")
  case True
  let ?e = "ChunkBuffer2_end b" and ?lim = "cb_size b - (1 + cb_mtu b)"
  have y: "stored (cb_mem b) ?lim 0 ys ?e" "?e \<le> cb_start b" "e = cb_wrap b"
    using l True e by (simp_all add: cb_layout_def Let_def)
  have u: "cb_used b + cb_start b = ?e + cb_wrap b" using True by (simp add: wrapped_def ChunkBuffer2_end_def)
  show ?thesis
  proof (cases "cb_start b + (1 + n) = cb_wrap b")
    case reset: True
    have "zs = []" using stored_nonempty [OF z] y(3) reset by simp
    have t: "t = b\<lparr>cb_start := 0, cb_used := ?e, cb_wrap := cb_size b\<rparr>"
      using reset u by (simp add: t_def)
    have "?e < cb_size b" using y(2) st mtu by linarith
    then have w': "\<not> wrapped t" "ChunkBuffer2_end t = ?e"
      by (simp_all add: t wrapped_def ChunkBuffer2_end_def)
    have "cb_layout t ys []" using y st w' by (simp add: cb_layout_def t)
    moreover have "free_limit b \<le> free_limit t" using w' True st by (simp add: free_limit_def t)
    ultimately show ?thesis using \<open>?e < cb_size b\<close> \<open>zs = []\<close> True w'(2)
      by (intro conjI) (auto simp: ChunkBuffer2_assert_buffer_def t intro: exI [of _ "[]"])
  next
    case False
    have t: "t = b\<lparr>cb_start := cb_start b + (1 + n), cb_used := cb_used b - (1 + n)\<rparr>"
      using False by (simp add: t_def Let_def)
    have w': "wrapped t" "ChunkBuffer2_end t = ?e"
      using True f by (simp_all add: t wrapped_def ChunkBuffer2_end_def)
    have "cb_layout t zs ys" using y z w' by (simp add: cb_layout_def t)
    moreover have "free_limit b \<le> free_limit t" using w' True by (simp add: free_limit_def t)
    ultimately show ?thesis using a w w' f False True
      by (intro conjI) (auto simp: ChunkBuffer2_assert_buffer_def t)
  qed
next
  case False
  have g: "cb_wrap b = cb_size b" "cb_start b + cb_used b < cb_wrap b" "ys = []"
    "cb_start b + cb_used b \<le> cb_size b - (1 + cb_mtu b)"
    using a l False by (auto simp: cb_defs cb_layout_def)
  have t: "t = b\<lparr>cb_start := cb_start b + (1 + n), cb_used := cb_used b - (1 + n)\<rparr>"
    using g f by (simp add: t_def Let_def)
  have w': "\<not> wrapped t" "ChunkBuffer2_end t = cb_start b + cb_used b"
    using g f by (simp_all add: t wrapped_def ChunkBuffer2_end_def)
  have "cb_layout t zs []" using z e g False w' by (simp add: cb_layout_def t)
  moreover have "input_area t = input_area b"
    using w' False g by (simp add: input_area_def ChunkBuffer2_end_def t)
  moreover have "free_limit b \<le> free_limit t" "ChunkBuffer2_end t = ChunkBuffer2_end b"
    using w' False by (simp_all add: free_limit_def t ChunkBuffer2_end_def)
  ultimately show ?thesis using g f a
    by (intro conjI) (auto simp: ChunkBuffer2_assert_buffer_def t)
qed

lemma consume_ok:
  assumes h: "cb_holds b (x # q)"
  shows "\<exists>t. ChunkBuffer2_ConsumePacket b = Some t \<and> cb_holds t q \<and> cb_mtu t = cb_mtu b \<and>
    cb_size t = cb_size b \<and> cb_mem t = cb_mem b \<and>
    (\<forall>dest avail. cb_input b = Some (dest, avail) \<longrightarrow> (\<exists>avail'. cb_input t = Some (dest, avail') \<and> avail \<le> avail'))"
proof -
  let ?lim = "cb_size b - (1 + cb_mtu b)"
  obtain xs ys where q: "x # q = xs @ ys" and l: "cb_layout b xs ys"
    using h by (metis cb_holds_def)
  have a: "ChunkBuffer2_assert_buffer b" "length (cb_mem b) = 4 * cb_size b"
    "int (4 * cb_size b) \<le> INT_MAX" "1 + cb_mtu b \<le> cb_size b"
    "cb_wrap b < cb_size b \<longrightarrow> cb_size b < cb_wrap b + 1 + cb_mtu b"
    "ChunkBuffer2_assert_io b"
    using h by (simp_all add: cb_holds_def)
  have u: "cb_used b > 0" using layout_empty [OF l a(1)] q by (cases "cb_used b") auto
  obtain x' zs e where x: "xs = x' # zs" "block_len (cb_start b) (cb_mem b) = length x'"
    "stored (cb_mem b) ?lim (cb_start b + 1 + bdivide_up (length x') 4) zs e"
    "e = (if wrapped b then cb_wrap b else cb_start b + cb_used b)"
    "cb_start b + bdivide_up (length x') 4 + 1 \<le> e" "cb_start b \<le> ?lim" "first_packet_fits b"
    by (rule layout_first [OF l a(1-3) u])
  let ?n = "bdivide_up (length x') 4"
  define t where "t = (let b1 = b\<lparr>cb_start := cb_start b + (1 + ?n), cb_used := cb_used b - (1 + ?n)\<rparr>
    in if cb_start b1 = cb_wrap b1 then b1\<lparr>cb_start := 0, cb_wrap := cb_size b1\<rparr> else b1)"
  have fits: "cb_start b + ?n + 1 \<le> cb_wrap b" "?n + 1 \<le> cb_used b"
    using x(2,7) u by (simp_all add: first_packet_fits_def Let_def)
  have g: "ChunkBuffer2_assert_buffer t \<and> (cb_wrap t < cb_size t \<longrightarrow> cb_size t < cb_wrap t + 1 + cb_mtu t) \<and>
    (\<exists>xs' ys'. q = xs' @ ys' \<and> cb_layout t xs' ys') \<and> (\<not> wrapped b \<longrightarrow> input_area t = input_area b) \<and>
    ChunkBuffer2_end t = ChunkBuffer2_end b \<and> free_limit b \<le> free_limit t"
    using removed_layout [OF l a(1,4,5) x(1,3) x(4) fits x(6)] q x(1) unfolding t_def by simp
  have tl: "length (cb_mem t) = 4 * cb_size t" "int (4 * cb_size t) \<le> INT_MAX" "1 + cb_mtu t \<le> cb_size t"
    "cb_input t = cb_input b" "cb_mtu t = cb_mtu b" "cb_size t = cb_size b"
    using a by (simp_all add: t_def Let_def)
  obtain xs' ys' where g': "q = xs' @ ys'" "cb_layout t xs' ys'" using g by blast
  define v where "v = t\<lparr>cb_input := input_area t, cb_output := output_area t\<rparr>"
  note v = holds_refresh [OF conjunct1 [OF g] g'(2) tl(1-3) conjunct1 [OF conjunct2 [OF g]], folded v_def]
  have b3: "(if wrapped b then ChunkBuffer2_update_input t else t) = t\<lparr>cb_input := input_area t\<rparr>"
  proof (cases "wrapped b")
    case False
    then have "cb_input t = input_area t" using g a(6) tl(4) by (simp add: ChunkBuffer2_assert_io_def)
    then show ?thesis using False by (cases t) simp
  qed (simp add: ChunkBuffer2_update_input_def)
  have "cb_output b \<noteq> None" using a(6) u by (simp add: ChunkBuffer2_assert_io_def output_area_def)
  then have "ChunkBuffer2_ConsumePacket b = Some v"
    unfolding ChunkBuffer2_ConsumePacket_def Let_def x(2)
    unfolding t_def [unfolded Let_def, symmetric] b3
    using a(1,6) fits u g v by (simp add: ChunkBuffer2_update_output_def v_def)
  moreover have "\<exists>avail'. cb_input v = Some (dest, avail') \<and> avail \<le> avail'"
    if i: "cb_input b = Some (dest, avail)" for dest avail
  proof -
    have "ChunkBuffer2_end v = ChunkBuffer2_end b" "free_limit b \<le> free_limit v"
      using g by (simp_all add: v_def free_limit_def split: if_splits)
    then show ?thesis using i holds_input [OF h] holds_input [OF v(1)] by (auto split: if_splits)
  qed
  moreover have "cb_mem v = cb_mem b" by (simp add: v_def t_def Let_def)
  ultimately show ?thesis using v(1) g'(1) tl by (auto simp: v_def)
qed


section \<open>Initialization and capacity\<close>

lemma calc_blocks_eq:
  "ChunkBuffer2_calc_blocks c n = Some k \<Longrightarrow>
   k = (1 + bdivide_up c 4) * (n + 1) \<and> int k \<le> INT_MAX"
proof -
  assume k: "ChunkBuffer2_calc_blocks c n = Some k"
  then have "int (1 + bdivide_up c 4) \<le> INT_MAX div int (n + 1)" and e: "k = (1 + bdivide_up c 4) * (n + 1)"
    by (simp_all add: ChunkBuffer2_calc_blocks_def Let_def split: if_splits)
  then have "int (1 + bdivide_up c 4) * int (n + 1) \<le> INT_MAX div int (n + 1) * int (n + 1)"
    by (intro mult_right_mono) simp_all
  also have "\<dots> \<le> INT_MAX"
    using pos_mod_sign [of "int (n + 1)" INT_MAX] by (simp add: minus_mod_eq_div_mult [symmetric])
  finally have "int (1 + bdivide_up c 4) * int (n + 1) \<le> INT_MAX" .
  then show ?thesis using e by (simp add: algebra_simps)
qed

lemma init_ok:
  assumes "length m = 4 * k" "int (4 * k) \<le> INT_MAX" "1 + bdivide_up mtu 4 \<le> k"
  shows "\<exists>b. ChunkBuffer2_Init m k mtu = Some b \<and> cb_holds b [] \<and> cb_mtu b = bdivide_up mtu 4 \<and> cb_size b = k"
proof -
  define t where "t = \<lparr>cb_mem = m, cb_size = k, cb_wrap = k, cb_start = 0, cb_used = 0,
    cb_mtu = bdivide_up mtu 4, cb_input = None, cb_output = None\<rparr>"
  have w: "\<not> wrapped t" "ChunkBuffer2_end t = 0" using assms(3) by (simp_all add: t_def wrapped_def ChunkBuffer2_end_def)
  have a: "ChunkBuffer2_assert_buffer t" using assms(3) by (simp add: t_def cb_defs)
  have l: "cb_layout t [] []" using w by (simp add: cb_layout_def t_def)
  note h = holds_refresh [OF a l]
  have "cb_holds (t\<lparr>cb_input := input_area t, cb_output := output_area t\<rparr>) []"
    "ChunkBuffer2_assert_io (t\<lparr>cb_input := input_area t, cb_output := output_area t\<rparr>)" "first_packet_fits t"
    using h assms by (simp_all add: t_def)
  then show ?thesis using a assms(3)
    by (auto simp: ChunkBuffer2_Init_def ChunkBuffer2_update_input_def ChunkBuffer2_update_output_def
        t_def Let_def)
qed

text \<open>A ring for \<open>num\<close> packets of \<open>mtu\<close> bytes with the packets \<open>q\<close> in it.\<close>

definition ring :: "nat \<Rightarrow> nat \<Rightarrow> ChunkBuffer2 \<Rightarrow> bytes list \<Rightarrow> bool" where
  "ring mtu num b q \<longleftrightarrow>
     cb_holds b q \<and> cb_mtu b = bdivide_up mtu 4 \<and> cb_size b = (1 + bdivide_up mtu 4) * (num + 1) \<and>
     (\<forall>x \<in> set q. length x \<le> mtu)"

lemma bdivide_up_mono: "a \<le> b \<Longrightarrow> bdivide_up a 4 \<le> bdivide_up b 4"
  using bdivide_up_4 [of b] by (simp add: bdivide_up_4_le)

lemma ring_capacity:
  assumes r: "ring mtu num b q" and n: "length q < num"
  shows "\<exists>r. cb_room b = Some r \<and> mtu \<le> r"
proof -
  let ?k = "bdivide_up mtu 4" and ?e = "ChunkBuffer2_end b"
  have h: "cb_holds b q" "cb_mtu b = ?k" "cb_size b = (1 + ?k) * (num + 1)"
    "\<forall>x \<in> set q. bdivide_up (length x) 4 \<le> ?k"
    using r by (auto simp: ring_def intro: bdivide_up_mono)
  obtain xs ys where q: "q = xs @ ys" and l: "cb_layout b xs ys" using h(1) by (auto simp: cb_holds_def)
  have a: "ChunkBuffer2_assert_buffer b" "1 + cb_mtu b \<le> cb_size b"
    "cb_wrap b < cb_size b \<longrightarrow> cb_size b < cb_wrap b + 1 + cb_mtu b"
    using h(1) by (simp_all add: cb_holds_def)
  have "?e + 1 + ?k \<le> free_limit b"
  proof (cases "wrapped b")
    case True
    then have s: "stored (cb_mem b) (cb_size b - (1 + ?k)) (cb_start b) xs (cb_wrap b)"
      "stored (cb_mem b) (cb_size b - (1 + ?k)) 0 ys ?e"
      using l h(2) by (simp_all add: cb_layout_def Let_def)
    have "cb_wrap b \<le> cb_start b + (1 + ?k) * length xs" "?e \<le> 0 + (1 + ?k) * length ys"
      using stored_size [OF s(1)] stored_size [OF s(2)] h(4) q by auto
    then have "cb_wrap b + ?e \<le> cb_start b + (1 + ?k) * length q" using q by (simp add: algebra_simps)
    also have "(1 + ?k) * length q \<le> (1 + ?k) * (num - 1)" using n by (intro mult_le_mono) auto
    finally have "cb_wrap b + ?e + (1 + ?k) \<le> cb_start b + (1 + ?k) * num"
      using n by (cases num) (auto simp: algebra_simps)
    moreover have "(1 + ?k) * num < cb_wrap b + 1"
      using a h by (cases "cb_wrap b < cb_size b") (auto simp: cb_defs algebra_simps)
    ultimately have "?e + (1 + ?k) \<le> cb_start b" by linarith
    then show ?thesis using True by (simp add: free_limit_def)
  next
    case False
    then show ?thesis using layout_end [OF l a(1,2)] h(2) by (simp add: free_limit_def)
  qed
  then have "cb_room b = Some (4 * (free_limit b - ?e - 1))" "4 * ?k \<le> 4 * (free_limit b - ?e - 1)"
    using holds_input [OF h(1)] by (auto simp: cb_room_def)
  then show ?thesis using bdivide_up_4 [of mtu] by auto
qed

section \<open>Bounded queues of packets\<close>

text \<open>
  The contract of a bounded queue of packets, as its producers and consumers see it: there is
  room for a packet of maximal size while fewer than \<open>num\<close> packets are stored, and packets come
  out in the order in which they went in.
\<close>

locale packet_fifo =
  fixes holds :: "nat \<Rightarrow> nat \<Rightarrow> 's \<Rightarrow> bytes list \<Rightarrow> bool"
    and put :: "bytes \<Rightarrow> 's \<Rightarrow> 's option"
    and get :: "'s \<Rightarrow> 's option"
    and front :: "'s \<Rightarrow> bytes option"
    and room :: "'s \<Rightarrow> nat option"
  assumes put_law: "holds mtu num s q \<Longrightarrow> room s = Some r \<Longrightarrow> length d \<le> r \<Longrightarrow> length d \<le> mtu \<Longrightarrow>
      \<exists>t. put d s = Some t \<and> holds mtu num t (q @ [d])"
    and get_law: "holds mtu num s (x # q) \<Longrightarrow> \<exists>t. get s = Some t \<and> holds mtu num t q"
    and front_law: "holds mtu num s q \<Longrightarrow> front s = (case q of [] \<Rightarrow> None | x # _ \<Rightarrow> Some x)"
    and room_law: "holds mtu num s q \<Longrightarrow> length q < num \<Longrightarrow> \<exists>r. room s = Some r \<and> mtu \<le> r"

datatype queue_op = Put bytes | Get

text \<open>A sequence of operations, with the packets taken out.\<close>

fun queue_run :: "(bytes \<Rightarrow> 's \<Rightarrow> 's option) \<Rightarrow> ('s \<Rightarrow> 's option) \<Rightarrow> ('s \<Rightarrow> bytes option) \<Rightarrow>
    queue_op list \<Rightarrow> 's \<Rightarrow> (bytes list \<times> 's) option" where
  "queue_run put get front [] s = Some ([], s)"
| "queue_run put get front (Put d # ops) s =
     do { t \<leftarrow> put d s; queue_run put get front ops t }"
| "queue_run put get front (Get # ops) s =
     do { x \<leftarrow> front s; t \<leftarrow> get s; (xs, u) \<leftarrow> queue_run put get front ops t; Some (x # xs, u) }"

text \<open>
  A sequence that a careful user issues when \<open>n\<close> packets are stored: packets of at most \<open>mtu\<close>
  bytes, put only while fewer than \<open>num\<close> are stored, and taken out only when there is one.
\<close>

fun careful :: "nat \<Rightarrow> nat \<Rightarrow> nat \<Rightarrow> queue_op list \<Rightarrow> bool" where
  "careful mtu num n [] \<longleftrightarrow> True"
| "careful mtu num n (Put d # ops) \<longleftrightarrow> n < num \<and> length d \<le> mtu \<and> careful mtu num (Suc n) ops"
| "careful mtu num n (Get # ops) \<longleftrightarrow> 0 < n \<and> careful mtu num (n - 1) ops"

fun puts :: "queue_op list \<Rightarrow> bytes list" where
  "puts [] = []"
| "puts (Put d # ops) = d # puts ops"
| "puts (Get # ops) = puts ops"

context packet_fifo
begin

lemma run_fifo:
  "holds mtu num s q \<Longrightarrow> careful mtu num (length q) ops \<Longrightarrow>
   \<exists>out t q'. queue_run put get front ops s = Some (out, t) \<and> holds mtu num t q' \<and>
     q @ puts ops = out @ q'"
proof (induction ops arbitrary: s q)
  case (Cons op ops)
  show ?case
  proof (cases op)
    case (Put d)
    obtain r where r: "room s = Some r" "mtu \<le> r" using room_law [OF Cons.prems(1)] Cons.prems(2) Put by auto
    obtain t where t: "put d s = Some t" "holds mtu num t (q @ [d])"
      using put_law [OF Cons.prems(1) r(1), of d] r(2) Cons.prems(2) Put by auto
    show ?thesis using Cons.IH [OF t(2)] Cons.prems(2) t(1) Put by auto
  next
    case Get
    then obtain x q1 where q: "q = x # q1" using Cons.prems(2) by (cases q) auto
    obtain t where t: "get s = Some t" "holds mtu num t q1" using get_law Cons.prems(1) q by blast
    show ?thesis using Cons.IH [OF t(2)] Cons.prems(2) t(1) Get q front_law [OF Cons.prems(1)] by auto
  qed
qed auto

end

interpretation cb: packet_fifo ring cb_put ChunkBuffer2_ConsumePacket cb_front cb_room
proof unfold_locales
  fix mtu num b q r and d :: bytes
  assume "ring mtu num b q" "cb_room b = Some r" "length d \<le> r" "length d \<le> mtu"
  then show "\<exists>t. cb_put d b = Some t \<and> ring mtu num t (q @ [d])"
    using put_ok [of b q r d] by (auto simp: ring_def)
next
  fix mtu num b x q
  assume "ring mtu num b (x # q)"
  then show "\<exists>t. ChunkBuffer2_ConsumePacket b = Some t \<and> ring mtu num t q"
    using consume_ok [of b x q] by (auto simp: ring_def)
next
  fix mtu num b q
  assume "ring mtu num b q"
  then show "cb_front b = (case q of [] \<Rightarrow> None | x # _ \<Rightarrow> Some x)"
    using holds_front by (simp add: ring_def)
qed (rule ring_capacity)

lemma ring_init:
  assumes "ChunkBuffer2_calc_blocks mtu num = Some k" "length m = 4 * k" "int (4 * k) \<le> INT_MAX"
  shows "\<exists>b. ChunkBuffer2_Init m k mtu = Some b \<and> ring mtu num b []"
proof -
  have k: "k = (1 + bdivide_up mtu 4) * (num + 1)" using calc_blocks_eq [OF assms(1)] by simp
  then have "1 + bdivide_up mtu 4 \<le> k" by simp
  from init_ok [OF assms(2,3) this] k show ?thesis by (auto simp: ring_def)
qed

section \<open>Properties\<close>

text \<open>
  C8 The ring is a bounded queue: in a ring allocated for \<open>num\<close> packets of \<open>mtu\<close> bytes, every sequence
  of stores and removals that never exceeds \<open>num\<close> packets or \<open>mtu\<close> bytes goes through all assertions
  of the ring, touches no byte outside the allocated blocks, and hands out the stored packets
  unchanged and in order, whatever their sizes and however the ring wraps.
\<close>

theorem ring_is_fifo:
  assumes "ChunkBuffer2_calc_blocks mtu num = Some k" and "length m = 4 * k" and "int (4 * k) \<le> INT_MAX"
    and "careful mtu num 0 ops"
  shows "\<exists>b out t rest. ChunkBuffer2_Init m k mtu = Some b \<and>
    queue_run cb_put ChunkBuffer2_ConsumePacket cb_front ops b = Some (out, t) \<and>
    puts ops = out @ rest"
  using ring_init [OF assms(1-3)] cb.run_fifo [of mtu num _ "[]" ops] assms(4) by fastforce

theorem ring_is_fifo_witness:
  "\<exists>b out t rest. ChunkBuffer2_Init (replicate 24 0) 6 4 = Some b \<and>
    queue_run cb_put ChunkBuffer2_ConsumePacket cb_front
      [Put [1, 2, 3], Put [4], Get, Put [5, 6, 7, 8], Get, Put [], Get] b = Some (out, t) \<and>
    [[1, 2, 3], [4], [5, 6, 7, 8], []] = out @ rest"
  using ring_is_fifo [of 4 2 6 "replicate 24 0" "[Put [1, 2, 3], Put [4], Get, Put [5, 6, 7, 8], Get, Put [], Get]"]
  by (simp add: ChunkBuffer2_calc_blocks_def bdivide_up_def)

text \<open>
  Capacity: a ring with the block count of \<open>ChunkBuffer2_calc_blocks mtu num\<close> offers room for a packet
  of \<open>mtu\<close> bytes whenever fewer than \<open>num\<close> packets are in it, so a producer that waits for room
  never waits while the ring is not full.
\<close>

theorem ring_room_below_capacity:
  assumes "ring mtu num b q" and "length q < num"
  shows "\<exists>r. cb_room b = Some r \<and> mtu \<le> r"
  by (rule cb.room_law [OF assms])

theorem ring_room_below_capacity_witness:
  "\<exists>b r. ChunkBuffer2_Init (replicate 16 0) 4 4 = Some b \<and> cb_room b = Some r \<and> 4 \<le> r"
proof -
  have "ChunkBuffer2_calc_blocks 4 1 = Some 4" by (simp add: ChunkBuffer2_calc_blocks_def bdivide_up_def)
  from ring_init [OF this, of "replicate 16 0"] obtain b
    where "ChunkBuffer2_Init (replicate 16 0) 4 4 = Some b" "ring 4 1 b []" by auto
  then show ?thesis using ring_room_below_capacity [of 4 1 b "[]"] by auto
qed

end
