(* ===== verification/Flow.thy ===== *)
theory Flow
  imports Pending ChunkBuffer
begin

text \<open>
  The flow layer between packet producers and consumers: the interfaces \<open>PacketPassInterface\<close> and
  \<open>PacketRecvInterface\<close> with their jobs, \<open>BufferWriter\<close>, \<open>PacketBuffer\<close> and \<open>SinglePacketBuffer\<close>
  (\<open>flow/*.c\<close> and \<open>flow/*.h\<close>).

  An interface couples a user and a provider through jobs of the reactor's group; the record holds the
  identities of its jobs, and every operation passes the group along.  A pointer to packet data is a
  byte offset into the memory it points to.  The handlers that an interface calls are called by the
  definitions that run its jobs, \<open>sp_job\<close> and \<open>rp_job\<close> below, for the two chains that the program
  builds: writer, buffer, datagram socket, and datagram socket, single buffer, receiver.
\<close>

section \<open>Interfaces\<close>

datatype if_state = STATE_NONE | OPERATION_PENDING | BUSY | DONE_PENDING

record 'j PacketPassInterface =
  ppi_mtu :: nat
  ppi_has_cancel :: bool
  ppi_has_user :: bool
  ppi_job_operation :: 'j
  ppi_data :: nat
  ppi_len :: nat
  ppi_job_requestcancel :: 'j
  ppi_job_done :: 'j
  ppi_state :: if_state
  ppi_cancel_requested :: bool

record 'j PacketRecvInterface =
  pri_mtu :: nat
  pri_has_user :: bool
  pri_job_operation :: 'j
  pri_data :: nat
  pri_job_done :: 'j
  pri_done_len :: nat
  pri_state :: if_state

definition PacketPassInterface_Init :: "nat \<Rightarrow> 'j \<Rightarrow> 'j \<Rightarrow> 'j \<Rightarrow> 'j BPendingGroup \<Rightarrow>
    ('j PacketPassInterface \<times> 'j BPendingGroup) option" where
  "PacketPassInterface_Init mtu jo jr jd g =
     do {
       g \<leftarrow> BPending_Init jo g;
       g \<leftarrow> BPending_Init jr g;
       g \<leftarrow> BPending_Init jd g;
       Some (\<lparr>ppi_mtu = mtu, ppi_has_cancel = False, ppi_has_user = False, ppi_job_operation = jo,
              ppi_data = 0, ppi_len = 0, ppi_job_requestcancel = jr, ppi_job_done = jd,
              ppi_state = STATE_NONE, ppi_cancel_requested = False\<rparr>, g) }"

definition PacketPassInterface_Free :: "'j PacketPassInterface \<Rightarrow> 'j BPendingGroup \<Rightarrow> 'j BPendingGroup option" where
  "PacketPassInterface_Free i g =
     do { g \<leftarrow> BPending_Free (ppi_job_done i) g;
          g \<leftarrow> BPending_Free (ppi_job_requestcancel i) g;
          BPending_Free (ppi_job_operation i) g }"

definition PacketPassInterface_EnableCancel :: "'j PacketPassInterface \<Rightarrow> 'j PacketPassInterface option" where
  "PacketPassInterface_EnableCancel i =
     ASSERT (\<not> ppi_has_cancel i) (ASSERT (\<not> ppi_has_user i) (Some (i\<lparr>ppi_has_cancel := True\<rparr>)))"

definition PacketPassInterface_Done :: "'j PacketPassInterface \<Rightarrow> 'j BPendingGroup \<Rightarrow>
    ('j PacketPassInterface \<times> 'j BPendingGroup) option" where
  "PacketPassInterface_Done i g =
     ASSERT (ppi_state i = BUSY) (
     do { g \<leftarrow> BPending_Unset (ppi_job_requestcancel i) g;
          g \<leftarrow> BPending_Set (ppi_job_done i) g;
          Some (i\<lparr>ppi_state := DONE_PENDING\<rparr>, g) })"

definition PacketPassInterface_Sender_Init :: "'j PacketPassInterface \<Rightarrow> 'j PacketPassInterface option" where
  "PacketPassInterface_Sender_Init i = ASSERT (\<not> ppi_has_user i) (Some (i\<lparr>ppi_has_user := True\<rparr>))"

definition PacketPassInterface_Sender_Send :: "nat \<Rightarrow> nat \<Rightarrow> 'j PacketPassInterface \<Rightarrow> 'j BPendingGroup \<Rightarrow>
    ('j PacketPassInterface \<times> 'j BPendingGroup) option" where
  "PacketPassInterface_Sender_Send data len i g =
     ASSERT (len \<le> ppi_mtu i) (
     ASSERT (ppi_state i = STATE_NONE) (
     ASSERT (ppi_has_user i) (
     do { g \<leftarrow> BPending_Set (ppi_job_operation i) g;
          Some (i\<lparr>ppi_data := data, ppi_len := len, ppi_state := OPERATION_PENDING,
                  ppi_cancel_requested := False\<rparr>, g) })))"

definition PacketPassInterface_Sender_RequestCancel :: "'j PacketPassInterface \<Rightarrow> 'j BPendingGroup \<Rightarrow>
    ('j PacketPassInterface \<times> 'j BPendingGroup) option" where
  "PacketPassInterface_Sender_RequestCancel i g =
     ASSERT (ppi_state i \<noteq> STATE_NONE) (
     ASSERT (ppi_has_cancel i) (
     if ppi_cancel_requested i then Some (i, g)
     else let i = i\<lparr>ppi_cancel_requested := True\<rparr>
          in if ppi_state i = OPERATION_PENDING then
               do { g \<leftarrow> BPending_Unset (ppi_job_operation i) g;
                    g \<leftarrow> BPending_Set (ppi_job_done i) g;
                    Some (i\<lparr>ppi_state := DONE_PENDING\<rparr>, g) }
             else if ppi_state i = BUSY then
               do { g \<leftarrow> BPending_Set (ppi_job_requestcancel i) g; Some (i, g) }
             else Some (i, g)))"

text \<open>The jobs of an interface, up to the call of the handler.\<close>

definition PacketPassInterface_job_operation :: "'j PacketPassInterface \<Rightarrow> 'j PacketPassInterface option" where
  "PacketPassInterface_job_operation i =
     ASSERT (ppi_state i = OPERATION_PENDING) (Some (i\<lparr>ppi_state := BUSY\<rparr>))"

definition PacketPassInterface_job_requestcancel :: "'j PacketPassInterface \<Rightarrow> 'j PacketPassInterface option" where
  "PacketPassInterface_job_requestcancel i =
     ASSERT (ppi_state i = BUSY \<and> ppi_cancel_requested i \<and> ppi_has_cancel i) (Some i)"

definition PacketPassInterface_job_done :: "'j PacketPassInterface \<Rightarrow> 'j PacketPassInterface option" where
  "PacketPassInterface_job_done i =
     ASSERT (ppi_state i = DONE_PENDING) (Some (i\<lparr>ppi_state := STATE_NONE\<rparr>))"

definition PacketRecvInterface_Init :: "nat \<Rightarrow> 'j \<Rightarrow> 'j \<Rightarrow> 'j BPendingGroup \<Rightarrow>
    ('j PacketRecvInterface \<times> 'j BPendingGroup) option" where
  "PacketRecvInterface_Init mtu jo jd g =
     do {
       g \<leftarrow> BPending_Init jo g;
       g \<leftarrow> BPending_Init jd g;
       Some (\<lparr>pri_mtu = mtu, pri_has_user = False, pri_job_operation = jo, pri_data = 0,
              pri_job_done = jd, pri_done_len = 0, pri_state = STATE_NONE\<rparr>, g) }"

definition PacketRecvInterface_Free :: "'j PacketRecvInterface \<Rightarrow> 'j BPendingGroup \<Rightarrow> 'j BPendingGroup option" where
  "PacketRecvInterface_Free i g =
     do { g \<leftarrow> BPending_Free (pri_job_done i) g; BPending_Free (pri_job_operation i) g }"

definition PacketRecvInterface_Done :: "nat \<Rightarrow> 'j PacketRecvInterface \<Rightarrow> 'j BPendingGroup \<Rightarrow>
    ('j PacketRecvInterface \<times> 'j BPendingGroup) option" where
  "PacketRecvInterface_Done len i g =
     ASSERT (len \<le> pri_mtu i) (
     ASSERT (pri_state i = BUSY) (
     do { g \<leftarrow> BPending_Set (pri_job_done i) g;
          Some (i\<lparr>pri_done_len := len, pri_state := DONE_PENDING\<rparr>, g) }))"

definition PacketRecvInterface_Receiver_Init :: "'j PacketRecvInterface \<Rightarrow> 'j PacketRecvInterface option" where
  "PacketRecvInterface_Receiver_Init i = ASSERT (\<not> pri_has_user i) (Some (i\<lparr>pri_has_user := True\<rparr>))"

definition PacketRecvInterface_Receiver_Recv :: "nat \<Rightarrow> 'j PacketRecvInterface \<Rightarrow> 'j BPendingGroup \<Rightarrow>
    ('j PacketRecvInterface \<times> 'j BPendingGroup) option" where
  "PacketRecvInterface_Receiver_Recv data i g =
     ASSERT (pri_state i = STATE_NONE) (
     ASSERT (pri_has_user i) (
     do { g \<leftarrow> BPending_Set (pri_job_operation i) g;
          Some (i\<lparr>pri_data := data, pri_state := OPERATION_PENDING\<rparr>, g) }))"

definition PacketRecvInterface_job_operation :: "'j PacketRecvInterface \<Rightarrow> 'j PacketRecvInterface option" where
  "PacketRecvInterface_job_operation i =
     ASSERT (pri_state i = OPERATION_PENDING) (Some (i\<lparr>pri_state := BUSY\<rparr>))"

definition PacketRecvInterface_job_done :: "'j PacketRecvInterface \<Rightarrow> 'j PacketRecvInterface option" where
  "PacketRecvInterface_job_done i =
     ASSERT (pri_state i = DONE_PENDING) (Some (i\<lparr>pri_state := STATE_NONE\<rparr>))"

section \<open>The sending chain: \<open>BufferWriter\<close>, \<open>PacketBuffer\<close>\<close>

record 'j send_path =
  sp_input :: "'j PacketRecvInterface"
  out_have :: bool
  bw_out :: nat
  d_writing :: bool
  pb_input_mtu :: nat
  pb_buf :: ChunkBuffer2
  sp_output :: "'j PacketPassInterface"

definition BufferWriter_output_handler_recv :: "nat \<Rightarrow> 'j send_path \<Rightarrow> 'j send_path option" where
  "BufferWriter_output_handler_recv data p =
     ASSERT (\<not> out_have p) (Some (p\<lparr>out_have := True, bw_out := data\<rparr>))"

text \<open>\<open>BufferWriter_StartPacket\<close>: whether a packet can be written; it goes to \<open>bw_out\<close>.\<close>

definition BufferWriter_StartPacket :: "'j send_path \<Rightarrow> (bool \<times> 'j send_path) option" where
  "BufferWriter_StartPacket p =
     ASSERT (\<not> d_writing p)
       (if \<not> out_have p then Some (False, p) else Some (True, p\<lparr>d_writing := True\<rparr>))"

text \<open>The bytes that the user of the writer stores from \<open>out\<close> on; they must stay inside the ring's free part.\<close>

definition write_out :: "bytes \<Rightarrow> 'j send_path \<Rightarrow> 'j send_path option" where
  "write_out d p =
     ASSERT (map_option fst (cb_input (pb_buf p)) = Some (bw_out p))
       (do { b \<leftarrow> cb_fill d (pb_buf p); Some (p\<lparr>pb_buf := b\<rparr>) })"

definition BufferWriter_EndPacket :: "nat \<Rightarrow> 'j send_path \<Rightarrow> 'j BPendingGroup \<Rightarrow>
    ('j send_path \<times> 'j BPendingGroup) option" where
  "BufferWriter_EndPacket len p g =
     ASSERT (len \<le> pri_mtu (sp_input p)) (
     ASSERT (out_have p) (
     ASSERT (d_writing p) (
     do { (i, g) \<leftarrow> PacketRecvInterface_Done len (sp_input p) g;
          Some (p\<lparr>out_have := False, sp_input := i, d_writing := False\<rparr>, g) })))"

definition pb_recv :: "'j send_path \<Rightarrow> 'j BPendingGroup \<Rightarrow> ('j send_path \<times> 'j BPendingGroup) option" where
  "pb_recv p g =
     (case cb_input (pb_buf p) of
        Some (dest, avail) \<Rightarrow>
          if avail \<ge> pb_input_mtu p then
            do { (i, g) \<leftarrow> PacketRecvInterface_Receiver_Recv dest (sp_input p) g;
                 Some (p\<lparr>sp_input := i\<rparr>, g) }
          else Some (p, g)
      | None \<Rightarrow> Some (p, g))"

definition pb_send :: "'j send_path \<Rightarrow> 'j BPendingGroup \<Rightarrow> ('j send_path \<times> 'j BPendingGroup) option" where
  "pb_send p g =
     (case cb_output (pb_buf p) of
        Some (dest, avail) \<Rightarrow>
          do { (i, g) \<leftarrow> PacketPassInterface_Sender_Send dest avail (sp_output p) g;
               Some (p\<lparr>sp_output := i\<rparr>, g) }
      | None \<Rightarrow> Some (p, g))"

definition PacketBuffer_input_handler_done :: "nat \<Rightarrow> 'j send_path \<Rightarrow> 'j BPendingGroup \<Rightarrow>
    ('j send_path \<times> 'j BPendingGroup) option" where
  "PacketBuffer_input_handler_done in_len p g =
     ASSERT (in_len \<le> pb_input_mtu p) (
     let was_empty = (cb_output (pb_buf p) = None)
     in do {
       b \<leftarrow> ChunkBuffer2_SubmitPacket in_len (pb_buf p);
       let p = p\<lparr>pb_buf := b\<rparr>;
       (p, g) \<leftarrow> pb_recv p g;
       if was_empty then pb_send p g else Some (p, g) })"

definition PacketBuffer_output_handler_done :: "'j send_path \<Rightarrow> 'j BPendingGroup \<Rightarrow>
    ('j send_path \<times> 'j BPendingGroup) option" where
  "PacketBuffer_output_handler_done p g =
     (let was_full = (case cb_input (pb_buf p) of None \<Rightarrow> True | Some (_, avail) \<Rightarrow> avail < pb_input_mtu p)
      in do {
        b \<leftarrow> ChunkBuffer2_ConsumePacket (pb_buf p);
        let p = p\<lparr>pb_buf := b\<rparr>;
        (p, g) \<leftarrow> (if was_full then pb_recv p g else Some (p, g));
        pb_send p g })"

text \<open>
  \<open>BufferWriter_Init\<close> and \<open>PacketBuffer_Init\<close> on an output interface; \<open>alloc\<close> is what the allocator
  returns for the ring, \<^term>\<open>None\<close> when it fails.  The result is \<^term>\<open>None\<close> inside \<^term>\<open>Some\<close> when the
  initialization reports failure.
\<close>

definition BufferWriter_Init :: "nat \<Rightarrow> 'j \<Rightarrow> 'j \<Rightarrow> 'j BPendingGroup \<Rightarrow>
    ('j PacketRecvInterface \<times> 'j BPendingGroup) option" where
  "BufferWriter_Init mtu jo jd g = PacketRecvInterface_Init mtu jo jd g"

definition PacketBuffer_Init :: "(nat \<Rightarrow> bytes option) \<Rightarrow> 'j PacketRecvInterface \<Rightarrow> 'j PacketPassInterface \<Rightarrow>
    nat \<Rightarrow> 'j BPendingGroup \<Rightarrow> ('j send_path \<times> 'j BPendingGroup) option option" where
  "PacketBuffer_Init alloc input output num_packets g =
     ASSERT (ppi_mtu output \<ge> pri_mtu input) (
     ASSERT (num_packets > 0) (
     do {
       input \<leftarrow> PacketRecvInterface_Receiver_Init input;
       output \<leftarrow> PacketPassInterface_Sender_Init output;
       (case ChunkBuffer2_calc_blocks (pri_mtu input) num_packets of
          None \<Rightarrow> Some None
        | Some num_blocks \<Rightarrow>
            (case alloc (4 * num_blocks) of
               None \<Rightarrow> Some None
             | Some buf_data \<Rightarrow>
                 do {
                   b \<leftarrow> ChunkBuffer2_Init buf_data num_blocks (pri_mtu input);
                   (i, g) \<leftarrow> PacketRecvInterface_Receiver_Recv
                     (case cb_input b of Some (dest, _) \<Rightarrow> dest | None \<Rightarrow> 0) input g;
                   Some (Some (\<lparr>sp_input = i, out_have = False, bw_out = 0, d_writing = False,
                           pb_input_mtu = pri_mtu input, pb_buf = b, sp_output = output\<rparr>, g)) })) }))"

text \<open>The jobs of the two interfaces of the chain, with the handlers they call.\<close>

definition sp_job_recv_operation :: "'j send_path \<Rightarrow> 'j send_path option" where
  "sp_job_recv_operation p =
     do { i \<leftarrow> PacketRecvInterface_job_operation (sp_input p);
          BufferWriter_output_handler_recv (pri_data i) (p\<lparr>sp_input := i\<rparr>) }"

definition sp_job_recv_done :: "'j send_path \<Rightarrow> 'j BPendingGroup \<Rightarrow> ('j send_path \<times> 'j BPendingGroup) option" where
  "sp_job_recv_done p g =
     do { i \<leftarrow> PacketRecvInterface_job_done (sp_input p);
          PacketBuffer_input_handler_done (pri_done_len i) (p\<lparr>sp_input := i\<rparr>) g }"

text \<open>The packet that the provider of the output gets to send.\<close>

definition sp_job_send_operation :: "'j send_path \<Rightarrow> (bytes \<times> 'j send_path) option" where
  "sp_job_send_operation p =
     do { i \<leftarrow> PacketPassInterface_job_operation (sp_output p);
          Some (mem_read (ppi_data i) (ppi_len i) (cb_mem (pb_buf p)), p\<lparr>sp_output := i\<rparr>) }"

definition sp_sent :: "'j send_path \<Rightarrow> 'j BPendingGroup \<Rightarrow> ('j send_path \<times> 'j BPendingGroup) option" where
  "sp_sent p g =
     do { (i, g) \<leftarrow> PacketPassInterface_Done (sp_output p) g; Some (p\<lparr>sp_output := i\<rparr>, g) }"

definition sp_job_send_done :: "'j send_path \<Rightarrow> 'j BPendingGroup \<Rightarrow> ('j send_path \<times> 'j BPendingGroup) option" where
  "sp_job_send_done p g =
     do { i \<leftarrow> PacketPassInterface_job_done (sp_output p);
          PacketBuffer_output_handler_done (p\<lparr>sp_output := i\<rparr>) g }"

section \<open>The receiving chain: \<open>SinglePacketBuffer\<close>\<close>

record 'j recv_path =
  rp_input :: "'j PacketRecvInterface"
  spb_buf :: bytes
  rp_output :: "'j PacketPassInterface"

definition SinglePacketBuffer_input_handler_done :: "nat \<Rightarrow> 'j recv_path \<Rightarrow> 'j BPendingGroup \<Rightarrow>
    ('j recv_path \<times> 'j BPendingGroup) option" where
  "SinglePacketBuffer_input_handler_done in_len p g =
     do { (i, g) \<leftarrow> PacketPassInterface_Sender_Send 0 in_len (rp_output p) g;
          Some (p\<lparr>rp_output := i\<rparr>, g) }"

definition SinglePacketBuffer_output_handler_done :: "'j recv_path \<Rightarrow> 'j BPendingGroup \<Rightarrow>
    ('j recv_path \<times> 'j BPendingGroup) option" where
  "SinglePacketBuffer_output_handler_done p g =
     do { (i, g) \<leftarrow> PacketRecvInterface_Receiver_Recv 0 (rp_input p) g;
          Some (p\<lparr>rp_input := i\<rparr>, g) }"

definition SinglePacketBuffer_Init :: "(nat \<Rightarrow> bytes option) \<Rightarrow> 'j PacketRecvInterface \<Rightarrow> 'j PacketPassInterface \<Rightarrow>
    'j BPendingGroup \<Rightarrow> ('j recv_path \<times> 'j BPendingGroup) option option" where
  "SinglePacketBuffer_Init alloc input output g =
     ASSERT (ppi_mtu output \<ge> pri_mtu input) (
     do {
       input \<leftarrow> PacketRecvInterface_Receiver_Init input;
       output \<leftarrow> PacketPassInterface_Sender_Init output;
       (case alloc (pri_mtu input) of
          None \<Rightarrow> Some None
        | Some buf \<Rightarrow>
            do { (i, g) \<leftarrow> PacketRecvInterface_Receiver_Recv 0 input g;
                 Some (Some (\<lparr>rp_input = i, spb_buf = buf, rp_output = output\<rparr>, g)) }) })"

definition rp_job_recv_operation :: "'j recv_path \<Rightarrow> 'j recv_path option" where
  "rp_job_recv_operation p =
     do { i \<leftarrow> PacketRecvInterface_job_operation (rp_input p); Some (p\<lparr>rp_input := i\<rparr>) }"

text \<open>The provider of the input received the datagram \<open>d\<close>.\<close>

definition rp_received :: "bytes \<Rightarrow> 'j recv_path \<Rightarrow> 'j BPendingGroup \<Rightarrow> ('j recv_path \<times> 'j BPendingGroup) option" where
  "rp_received d p g =
     ASSERT (pri_data (rp_input p) + length d \<le> length (spb_buf p)) (
     do { (i, g) \<leftarrow> PacketRecvInterface_Done (length d) (rp_input p) g;
          Some (p\<lparr>rp_input := i, spb_buf := mem_write (pri_data (rp_input p)) d (spb_buf p)\<rparr>, g) })"

definition rp_job_recv_done :: "'j recv_path \<Rightarrow> 'j BPendingGroup \<Rightarrow> ('j recv_path \<times> 'j BPendingGroup) option" where
  "rp_job_recv_done p g =
     do { i \<leftarrow> PacketRecvInterface_job_done (rp_input p);
          SinglePacketBuffer_input_handler_done (pri_done_len i) (p\<lparr>rp_input := i\<rparr>) g }"

definition rp_job_send_operation :: "'j recv_path \<Rightarrow> (bytes \<times> 'j recv_path) option" where
  "rp_job_send_operation p =
     do { i \<leftarrow> PacketPassInterface_job_operation (rp_output p);
          Some (mem_read (ppi_data i) (ppi_len i) (spb_buf p), p\<lparr>rp_output := i\<rparr>) }"

definition rp_accept :: "'j recv_path \<Rightarrow> 'j BPendingGroup \<Rightarrow> ('j recv_path \<times> 'j BPendingGroup) option" where
  "rp_accept p g =
     do { (i, g) \<leftarrow> PacketPassInterface_Done (rp_output p) g; Some (p\<lparr>rp_output := i\<rparr>, g) }"

definition rp_job_send_done :: "'j recv_path \<Rightarrow> 'j BPendingGroup \<Rightarrow> ('j recv_path \<times> 'j BPendingGroup) option" where
  "rp_job_send_done p g =
     do { i \<leftarrow> PacketPassInterface_job_done (rp_output p);
          SinglePacketBuffer_output_handler_done (p\<lparr>rp_output := i\<rparr>) g }"


section \<open>Invariants of the chains\<close>

text \<open>The pending jobs of an interface are what its state says.\<close>

definition pri_jobs :: "'j PacketRecvInterface \<Rightarrow> 'j set \<Rightarrow> bool" where
  "pri_jobs i js \<longleftrightarrow>
     (pri_job_operation i \<in> js \<longleftrightarrow> pri_state i = OPERATION_PENDING) \<and>
     (pri_job_done i \<in> js \<longleftrightarrow> pri_state i = DONE_PENDING)"

definition ppi_jobs :: "'j PacketPassInterface \<Rightarrow> 'j set \<Rightarrow> bool" where
  "ppi_jobs i js \<longleftrightarrow>
     (ppi_job_operation i \<in> js \<longleftrightarrow> ppi_state i = OPERATION_PENDING) \<and>
     (ppi_job_done i \<in> js \<longleftrightarrow> ppi_state i = DONE_PENDING) \<and>
     (ppi_job_requestcancel i \<in> js \<longrightarrow> ppi_state i = BUSY \<and> ppi_has_cancel i \<and> ppi_cancel_requested i)"

definition pri_ids :: "'j PacketRecvInterface \<Rightarrow> 'j list" where
  "pri_ids i = [pri_job_operation i, pri_job_done i]"

definition ppi_ids :: "'j PacketPassInterface \<Rightarrow> 'j list" where
  "ppi_ids i = [ppi_job_operation i, ppi_job_requestcancel i, ppi_job_done i]"

definition sp_ids :: "'j send_path \<Rightarrow> 'j list" where
  "sp_ids p = pri_ids (sp_input p) @ ppi_ids (sp_output p)"

definition rp_ids :: "'j recv_path \<Rightarrow> 'j list" where
  "rp_ids p = pri_ids (rp_input p) @ ppi_ids (rp_output p)"

definition sp_jobs :: "'j send_path \<Rightarrow> 'j BPendingGroup \<Rightarrow> bool" where
  "sp_jobs p g \<longleftrightarrow>
     pri_jobs (sp_input p) (set (pg_jobs g)) \<and> ppi_jobs (sp_output p) (set (pg_jobs g)) \<and>
     distinct (sp_ids p) \<and> set (sp_ids p) \<subseteq> pg_objs g"

definition rp_jobs :: "'j recv_path \<Rightarrow> 'j BPendingGroup \<Rightarrow> bool" where
  "rp_jobs p g \<longleftrightarrow>
     pri_jobs (rp_input p) (set (pg_jobs g)) \<and> ppi_jobs (rp_output p) (set (pg_jobs g)) \<and>
     distinct (rp_ids p) \<and> set (rp_ids p) \<subseteq> pg_objs g"

text \<open>The input side of the buffer: \<open>pend\<close> is the packet that is written but not yet stored.\<close>

definition has_room :: "'j send_path \<Rightarrow> nat \<Rightarrow> bool" where
  "has_room p dest \<longleftrightarrow> (\<exists>avail. cb_input (pb_buf p) = Some (dest, avail) \<and> pb_input_mtu p \<le> avail)"

definition sp_input_ok :: "'j send_path \<Rightarrow> bytes option \<Rightarrow> bool" where
  "sp_input_ok p pend \<longleftrightarrow>
     pri_has_user (sp_input p) \<and> pri_mtu (sp_input p) = pb_input_mtu p \<and> \<not> d_writing p \<and>
     (case pri_state (sp_input p) of
        STATE_NONE \<Rightarrow> \<not> out_have p \<and> pend = None \<and> (\<forall>dest. \<not> has_room p dest)
      | OPERATION_PENDING \<Rightarrow> \<not> out_have p \<and> pend = None \<and> has_room p (pri_data (sp_input p))
      | BUSY \<Rightarrow> out_have p \<and> pend = None \<and> has_room p (bw_out p)
      | DONE_PENDING \<Rightarrow> \<not> out_have p \<and>
          (\<exists>d dest. pend = Some d \<and> pri_done_len (sp_input p) = length d \<and> length d \<le> pb_input_mtu p \<and>
             has_room p dest \<and> mem_read dest (length d) (cb_mem (pb_buf p)) = d))"

text \<open>The output side: a packet is being sent whenever there is one.\<close>

definition sp_output_ok :: "'j send_path \<Rightarrow> bytes list \<Rightarrow> bool" where
  "sp_output_ok p q \<longleftrightarrow>
     ppi_has_user (sp_output p) \<and> pb_input_mtu p \<le> ppi_mtu (sp_output p) \<and>
     \<not> ppi_has_cancel (sp_output p) \<and>
     (case q of
        [] \<Rightarrow> ppi_state (sp_output p) = STATE_NONE
      | x # _ \<Rightarrow> ppi_state (sp_output p) \<noteq> STATE_NONE \<and> ppi_len (sp_output p) = length x \<and>
          ppi_data (sp_output p) = 4 * (cb_start (pb_buf p) + 1))"

definition sp_inv :: "nat \<Rightarrow> 'j send_path \<Rightarrow> 'j BPendingGroup \<Rightarrow> bytes list \<Rightarrow> bytes option \<Rightarrow> bool" where
  "sp_inv num p g q pend \<longleftrightarrow>
     ring (pb_input_mtu p) num (pb_buf p) q \<and> sp_input_ok p pend \<and> sp_output_ok p q \<and> sp_jobs p g"

text \<open>The packets of the chain that the output has not finished.\<close>

definition sp_unsent :: "'j send_path \<Rightarrow> bytes list \<Rightarrow> bytes option \<Rightarrow> bytes list" where
  "sp_unsent p q pend =
     (if ppi_state (sp_output p) = DONE_PENDING then tl q else q) @ (case pend of None \<Rightarrow> [] | Some d \<Rightarrow> [d])"

section \<open>Lemmas\<close>

lemma set_fresh: "p \<notin> set (pg_jobs g) \<Longrightarrow> p \<in> pg_objs g \<Longrightarrow> BPending_Set p g = Some (g\<lparr>pg_jobs := p # pg_jobs g\<rparr>)"
  by (simp add: pending_defs)

lemma unset_absent: "p \<notin> set (pg_jobs g) \<Longrightarrow> p \<in> pg_objs g \<Longrightarrow> BPending_Unset p g = Some g"
  by (simp add: pending_defs remove1_idem)

lemma group_jobs_eq: "g\<lparr>pg_jobs := pg_jobs g\<rparr> = g"
  by simp

lemmas ids_defs = sp_ids_def rp_ids_def pri_ids_def ppi_ids_def

lemmas if_op_defs = PacketPassInterface_Done_def PacketPassInterface_Sender_Send_def
  PacketPassInterface_job_operation_def PacketPassInterface_job_done_def PacketRecvInterface_Done_def
  PacketRecvInterface_Receiver_Recv_def PacketRecvInterface_job_operation_def PacketRecvInterface_job_done_def

text \<open>The receive job of the chain: the writer gets its place.\<close>

lemma sp_recv_operation_ok:
  assumes i: "sp_inv num p g q pend" and j: "pg_jobs g = pri_job_operation (sp_input p) # js"
    and d: "distinct (pg_jobs g)"
  shows "\<exists>t. sp_job_recv_operation p = Some t \<and> sp_inv num t (g\<lparr>pg_jobs := js\<rparr>) q pend \<and>
    sp_ids t = sp_ids p \<and> sp_unsent t q pend = sp_unsent p q pend \<and> out_have t \<and>
    pb_input_mtu t = pb_input_mtu p \<and> sp_output t = sp_output p"
proof -
  have s: "pri_state (sp_input p) = OPERATION_PENDING" using i j by (simp add: sp_inv_def sp_jobs_def pri_jobs_def)
  define t where "t = p\<lparr>sp_input := (sp_input p)\<lparr>pri_state := BUSY\<rparr>, out_have := True, bw_out := pri_data (sp_input p)\<rparr>"
  have "sp_job_recv_operation p = Some t"
    using i s by (simp add: sp_job_recv_operation_def if_op_defs BufferWriter_output_handler_recv_def t_def
        sp_inv_def sp_input_ok_def)
  moreover have "sp_inv num t (g\<lparr>pg_jobs := js\<rparr>) q pend"
    using i s j d unfolding sp_inv_def sp_input_ok_def sp_output_ok_def sp_jobs_def pri_jobs_def ppi_jobs_def
    by (auto simp: t_def ids_defs has_room_def split: list.splits)
  ultimately show ?thesis by (auto simp: t_def ids_defs sp_unsent_def)
qed

text \<open>Handing the packet at the front to the provider of the output.\<close>

lemma sp_send_operation_ok:
  assumes i: "sp_inv num p g q pend" and j: "pg_jobs g = ppi_job_operation (sp_output p) # js"
    and d: "distinct (pg_jobs g)"
  shows "\<exists>t x q'. sp_job_send_operation p = Some (x, t) \<and> q = x # q' \<and>
    sp_inv num t (g\<lparr>pg_jobs := js\<rparr>) q pend \<and> sp_ids t = sp_ids p \<and> sp_unsent t q pend = sp_unsent p q pend \<and>
    ppi_state (sp_output t) = BUSY \<and> pb_input_mtu t = pb_input_mtu p"
proof -
  have s: "ppi_state (sp_output p) = OPERATION_PENDING" using i j by (simp add: sp_inv_def sp_jobs_def ppi_jobs_def)
  then obtain x q' where q: "q = x # q'" "ppi_len (sp_output p) = length x"
    "ppi_data (sp_output p) = 4 * (cb_start (pb_buf p) + 1)"
    using i by (auto simp: sp_inv_def sp_output_ok_def split: list.splits)
  have r: "cb_holds (pb_buf p) (x # q')" using i q by (simp add: sp_inv_def ring_def)
  define t where "t = p\<lparr>sp_output := (sp_output p)\<lparr>ppi_state := BUSY\<rparr>\<rparr>"
  have "sp_job_send_operation p = Some (x, t)"
    using s q holds_output(2) [OF r] by (simp add: sp_job_send_operation_def if_op_defs t_def)
  moreover have "sp_inv num t (g\<lparr>pg_jobs := js\<rparr>) q pend"
    using i s j d q unfolding sp_inv_def sp_input_ok_def sp_output_ok_def sp_jobs_def pri_jobs_def ppi_jobs_def
    by (auto simp: t_def ids_defs has_room_def split: if_state.splits)
  ultimately show ?thesis using q s by (auto simp: t_def ids_defs sp_unsent_def)
qed

lemma sp_sent_ok:
  assumes i: "sp_inv num p g q pend" and b: "ppi_state (sp_output p) = BUSY"
  shows "\<exists>t. sp_sent p g = Some (t, g\<lparr>pg_jobs := ppi_job_done (sp_output p) # pg_jobs g\<rparr>) \<and>
    sp_inv num t (g\<lparr>pg_jobs := ppi_job_done (sp_output p) # pg_jobs g\<rparr>) q pend \<and> sp_ids t = sp_ids p \<and>
    sp_unsent p q pend = hd q # sp_unsent t q pend \<and> q \<noteq> [] \<and> pb_input_mtu t = pb_input_mtu p"
proof -
  let ?o = "sp_output p"
  define t where "t = p\<lparr>sp_output := (sp_output p)\<lparr>ppi_state := DONE_PENDING\<rparr>\<rparr>"
  have m: "ppi_job_done ?o \<notin> set (pg_jobs g)" "ppi_job_done ?o \<in> pg_objs g"
    "ppi_job_requestcancel ?o \<notin> set (pg_jobs g)" "ppi_job_requestcancel ?o \<in> pg_objs g"
    using i b by (auto simp: sp_inv_def sp_jobs_def ppi_jobs_def sp_output_ok_def ids_defs)
  have q: "q \<noteq> []" using i b by (auto simp: sp_inv_def sp_output_ok_def)
  have "sp_sent p g = Some (t, g\<lparr>pg_jobs := ppi_job_done ?o # pg_jobs g\<rparr>)"
    using b m by (simp add: sp_sent_def if_op_defs set_fresh unset_absent t_def)
  moreover have "sp_inv num t (g\<lparr>pg_jobs := ppi_job_done ?o # pg_jobs g\<rparr>) q pend"
    using i b q unfolding sp_inv_def sp_input_ok_def sp_output_ok_def sp_jobs_def pri_jobs_def ppi_jobs_def
    by (auto simp: t_def ids_defs has_room_def split: if_state.splits list.splits)
  ultimately show ?thesis using q b by (cases q) (auto simp: t_def ids_defs sp_unsent_def)
qed


text \<open>Asking for the next packet, and sending the one at the front, after the ring changed.\<close>

lemma pb_recv_ok:
  assumes p: "pri_state (sp_input p) = STATE_NONE" "pri_has_user (sp_input p)" "pri_mtu (sp_input p) = pb_input_mtu p"
      "\<not> d_writing p" "\<not> out_have p"
    and j: "sp_jobs p g"
  shows "\<exists>t news. pb_recv p g = Some (t, g\<lparr>pg_jobs := news @ pg_jobs g\<rparr>) \<and> sp_input_ok t None \<and>
    sp_jobs t (g\<lparr>pg_jobs := news @ pg_jobs g\<rparr>) \<and> sp_ids t = sp_ids p \<and> pb_buf t = pb_buf p \<and>
    pb_input_mtu t = pb_input_mtu p \<and> sp_output t = sp_output p \<and> distinct news \<and>
    set news \<subseteq> set (sp_ids p) - set (pg_jobs g)"
proof (cases "\<exists>dest. has_room p dest")
  case True
  then obtain dest avail where r: "cb_input (pb_buf p) = Some (dest, avail)" "pb_input_mtu p \<le> avail"
    by (auto simp: has_room_def)
  let ?j = "pri_job_operation (sp_input p)"
  let ?t = "p\<lparr>sp_input := (sp_input p)\<lparr>pri_data := dest, pri_state := OPERATION_PENDING\<rparr>\<rparr>"
  have m: "?j \<notin> set (pg_jobs g)" "?j \<in> pg_objs g"
    using j p(1) by (auto simp: sp_jobs_def pri_jobs_def ids_defs)
  have "pb_recv p g = Some (?t, g\<lparr>pg_jobs := [?j] @ pg_jobs g\<rparr>)"
    using r p m by (simp add: pb_recv_def if_op_defs set_fresh)
  moreover have "sp_input_ok ?t None" using p r by (simp add: sp_input_ok_def has_room_def)
  moreover have "sp_jobs ?t (g\<lparr>pg_jobs := [?j] @ pg_jobs g\<rparr>)"
    using j p(1) unfolding sp_jobs_def pri_jobs_def ppi_jobs_def by (auto simp: ids_defs)
  ultimately show ?thesis using m by (intro exI [of _ ?t] exI [of _ "[?j]"]) (simp add: ids_defs)
next
  case False
  then have "pb_recv p g = Some (p, g)"
    by (auto simp: pb_recv_def has_room_def split: option.splits)
  then show ?thesis using False p j
    by (intro exI [of _ p] exI [of _ "[]"]) (simp add: sp_input_ok_def)
qed

lemma pb_send_ok:
  assumes p: "ppi_state (sp_output p) = STATE_NONE" "ppi_has_user (sp_output p)" "\<not> ppi_has_cancel (sp_output p)"
      "pb_input_mtu p \<le> ppi_mtu (sp_output p)"
    and r: "ring (pb_input_mtu p) num (pb_buf p) q" and j: "sp_jobs p g"
  shows "\<exists>t news. pb_send p g = Some (t, g\<lparr>pg_jobs := news @ pg_jobs g\<rparr>) \<and> sp_output_ok t q \<and>
    sp_jobs t (g\<lparr>pg_jobs := news @ pg_jobs g\<rparr>) \<and> sp_ids t = sp_ids p \<and> pb_buf t = pb_buf p \<and>
    pb_input_mtu t = pb_input_mtu p \<and> sp_input t = sp_input p \<and> out_have t = out_have p \<and> bw_out t = bw_out p \<and>
    d_writing t = d_writing p \<and> ppi_state (sp_output t) \<noteq> DONE_PENDING \<and> distinct news \<and>
    set news \<subseteq> set (ppi_ids (sp_output p)) - set (pg_jobs g)"
proof (cases q)
  case Nil
  then have "pb_send p g = Some (p, g)" using r by (simp add: pb_send_def ring_def holds_no_output)
  then show ?thesis using Nil p j by (intro exI [of _ p] exI [of _ "[]"]) (simp add: sp_output_ok_def)
next
  case (Cons x q')
  let ?j = "ppi_job_operation (sp_output p)" and ?d = "4 * (cb_start (pb_buf p) + 1)"
  let ?t = "p\<lparr>sp_output := (sp_output p)\<lparr>ppi_data := ?d, ppi_len := length x, ppi_state := OPERATION_PENDING,
    ppi_cancel_requested := False\<rparr>\<rparr>"
  have h: "cb_holds (pb_buf p) (x # q')" "length x \<le> pb_input_mtu p" using r Cons by (simp_all add: ring_def)
  have m: "?j \<notin> set (pg_jobs g)" "?j \<in> pg_objs g"
    using j p(1) by (auto simp: sp_jobs_def ppi_jobs_def ids_defs)
  have "pb_send p g = Some (?t, g\<lparr>pg_jobs := [?j] @ pg_jobs g\<rparr>)"
    using holds_output(1) [OF h(1)] h(2) p m by (simp add: pb_send_def if_op_defs set_fresh)
  moreover have "sp_output_ok ?t q" using p Cons by (simp add: sp_output_ok_def)
  moreover have "sp_jobs ?t (g\<lparr>pg_jobs := [?j] @ pg_jobs g\<rparr>)"
    using j p(1,3) unfolding sp_jobs_def pri_jobs_def ppi_jobs_def by (auto simp: ids_defs)
  ultimately show ?thesis using m by (intro exI [of _ ?t] exI [of _ "[?j]"]) (simp add: ids_defs)
qed

lemma sp_input_ok_cong:
  "sp_input t = sp_input p \<Longrightarrow> out_have t = out_have p \<Longrightarrow> bw_out t = bw_out p \<Longrightarrow> d_writing t = d_writing p \<Longrightarrow>
   pb_buf t = pb_buf p \<Longrightarrow> pb_input_mtu t = pb_input_mtu p \<Longrightarrow> sp_input_ok t pend = sp_input_ok p pend"
  by (simp add: sp_input_ok_def has_room_def cong: if_state.case_cong)

lemma sp_output_ok_cong:
  "sp_output t = sp_output p \<Longrightarrow> pb_buf t = pb_buf p \<Longrightarrow> pb_input_mtu t = pb_input_mtu p \<Longrightarrow>
   sp_output_ok t q = sp_output_ok p q"
  by (simp add: sp_output_ok_def cong: list.case_cong)

text \<open>A job of the chain leaves new jobs of the chain in front of the old ones.\<close>

definition sp_ends :: "nat \<Rightarrow> 'j send_path \<Rightarrow> 'j BPendingGroup \<Rightarrow> bytes list \<Rightarrow> bytes option \<Rightarrow>
    bytes list \<Rightarrow> ('j send_path \<times> 'j BPendingGroup) option \<Rightarrow> bool" where
  "sp_ends num p g q pend unsent r \<longleftrightarrow>
     (\<exists>t news. r = Some (t, g\<lparr>pg_jobs := news @ pg_jobs g\<rparr>) \<and>
        sp_inv num t (g\<lparr>pg_jobs := news @ pg_jobs g\<rparr>) q pend \<and> sp_ids t = sp_ids p \<and>
        pb_input_mtu t = pb_input_mtu p \<and> distinct news \<and>
        set news \<subseteq> set (sp_ids p) - set (pg_jobs g) \<and> sp_unsent t q pend = unsent)"

lemma sp_recv_done_ok:
  assumes i: "sp_inv num p g q pend" and j: "pg_jobs g = pri_job_done (sp_input p) # js"
    and dj: "distinct (pg_jobs g)"
  shows "\<exists>d. pend = Some d \<and>
    sp_ends num p (g\<lparr>pg_jobs := js\<rparr>) (q @ [d]) None (sp_unsent p q pend) (sp_job_recv_done p (g\<lparr>pg_jobs := js\<rparr>))"
proof -
  let ?g = "g\<lparr>pg_jobs := js\<rparr>"
  have s: "pri_state (sp_input p) = DONE_PENDING" using i j by (simp add: sp_inv_def sp_jobs_def pri_jobs_def)
  then obtain d dest avail where d: "pend = Some d" "pri_done_len (sp_input p) = length d" "length d \<le> pb_input_mtu p"
    "cb_input (pb_buf p) = Some (dest, avail)" "pb_input_mtu p \<le> avail"
    "mem_read dest (length d) (cb_mem (pb_buf p)) = d" "\<not> out_have p" "\<not> d_writing p"
    "pri_has_user (sp_input p)" "pri_mtu (sp_input p) = pb_input_mtu p"
    using i by (auto simp: sp_inv_def sp_input_ok_def has_room_def)
  have r: "ring (pb_input_mtu p) num (pb_buf p) q" "cb_holds (pb_buf p) q" and out: "sp_output_ok p q"
    using i by (auto simp: sp_inv_def ring_def)
  have "length d \<le> avail" using d by simp
  from submit_ok [OF r(2) d(4) this d(6)] obtain b where b: "ChunkBuffer2_SubmitPacket (length d) (pb_buf p) = Some b"
    "cb_holds b (q @ [d])" "cb_mtu b = cb_mtu (pb_buf p)" "cb_size b = cb_size (pb_buf p)"
    "cb_start b = cb_start (pb_buf p)" by blast
  have rb: "ring (pb_input_mtu p) num b (q @ [d])" using r b d(3) by (auto simp: ring_def)
  define p1 where "p1 = p\<lparr>sp_input := (sp_input p)\<lparr>pri_state := STATE_NONE\<rparr>, pb_buf := b\<rparr>"
  have p1: "pri_state (sp_input p1) = STATE_NONE" "pri_has_user (sp_input p1)" "pri_mtu (sp_input p1) = pb_input_mtu p1"
    "\<not> d_writing p1" "\<not> out_have p1" "pb_buf p1 = b" "sp_output p1 = sp_output p" "sp_ids p1 = sp_ids p"
    "pb_input_mtu p1 = pb_input_mtu p" using d by (simp_all add: p1_def ids_defs)
  have jobs1: "sp_jobs p1 ?g"
    using i s j dj unfolding sp_inv_def sp_jobs_def pri_jobs_def ppi_jobs_def by (auto simp: p1_def ids_defs)
  from pb_recv_ok [OF p1(1-5) jobs1] obtain t1 news1 where t1: "pb_recv p1 ?g = Some (t1, g\<lparr>pg_jobs := news1 @ js\<rparr>)"
    "sp_input_ok t1 None" "sp_jobs t1 (g\<lparr>pg_jobs := news1 @ js\<rparr>)" "sp_ids t1 = sp_ids p" "pb_buf t1 = b"
    "pb_input_mtu t1 = pb_input_mtu p" "sp_output t1 = sp_output p" "distinct news1"
    "set news1 \<subseteq> set (sp_ids p) - set js"
    using p1 by auto
  show ?thesis
  proof (cases q)
    case Nil
    have o1: "ppi_state (sp_output t1) = STATE_NONE" "ppi_has_user (sp_output t1)" "\<not> ppi_has_cancel (sp_output t1)"
      "pb_input_mtu t1 \<le> ppi_mtu (sp_output t1)" using out Nil t1 by (simp_all add: sp_output_ok_def)
    have r1: "ring (pb_input_mtu t1) num (pb_buf t1) (q @ [d])" using rb t1 by simp
    from pb_send_ok [OF o1 r1 t1(3)] obtain t news where t: "pb_send t1 (g\<lparr>pg_jobs := news1 @ js\<rparr>) =
        Some (t, g\<lparr>pg_jobs := news @ news1 @ js\<rparr>)" "sp_output_ok t (q @ [d])"
      "sp_jobs t (g\<lparr>pg_jobs := news @ news1 @ js\<rparr>)" "sp_ids t = sp_ids t1" "pb_buf t = pb_buf t1"
      "pb_input_mtu t = pb_input_mtu t1" "sp_input t = sp_input t1" "out_have t = out_have t1" "bw_out t = bw_out t1"
      "d_writing t = d_writing t1" "ppi_state (sp_output t) \<noteq> DONE_PENDING" "distinct news"
      "set news \<subseteq> set (ppi_ids (sp_output t1)) - set (news1 @ js)" by auto
    have "cb_output (pb_buf p) = None" using r(2) Nil holds_no_output by simp
    then have run: "sp_job_recv_done p ?g = Some (t, g\<lparr>pg_jobs := (news @ news1) @ js\<rparr>)"
      using s d b t1(1) t(1)
      by (simp add: sp_job_recv_done_def if_op_defs PacketBuffer_input_handler_done_def p1_def)
    have "sp_input_ok t None" using t1(2) sp_input_ok_cong [of t t1] t by simp
    then have "sp_inv num t (g\<lparr>pg_jobs := (news @ news1) @ js\<rparr>) (q @ [d]) None"
      using t t1 rb by (simp add: sp_inv_def)
    moreover have "set news \<subseteq> set (sp_ids p) - set js" "distinct (news @ news1)"
      using t t1 by (auto simp: sp_ids_def)
    moreover have "sp_unsent t (q @ [d]) None = sp_unsent p q pend"
      using t(11) Nil d(1) by (simp add: sp_unsent_def)
    ultimately show ?thesis using run t t1 d(1) unfolding sp_ends_def
      by (intro exI [of _ d] conjI exI [of _ t] exI [of _ "news @ news1"]) auto
  next
    case (Cons x q')
    then obtain a where "cb_output (pb_buf p) = Some a" using r(2) holds_output(1) by fastforce
    then have run: "sp_job_recv_done p ?g = Some (t1, g\<lparr>pg_jobs := news1 @ js\<rparr>)"
      using s d b t1(1) by (simp add: sp_job_recv_done_def if_op_defs PacketBuffer_input_handler_done_def p1_def)
    have "sp_output_ok t1 (q @ [d])" using out Cons t1 b(5) by (simp add: sp_output_ok_def)
    then have "sp_inv num t1 (g\<lparr>pg_jobs := news1 @ js\<rparr>) (q @ [d]) None"
      using t1 rb by (simp add: sp_inv_def)
    moreover have "sp_unsent t1 (q @ [d]) None = sp_unsent p q pend"
      using t1(7) d(1) Cons by (simp add: sp_unsent_def)
    ultimately show ?thesis using run t1 d(1) unfolding sp_ends_def
      by (intro exI [of _ d] conjI exI [of _ t1] exI [of _ news1]) auto
  qed
qed

lemma sp_send_done_ok:
  assumes i: "sp_inv num p g q pend" and j: "pg_jobs g = ppi_job_done (sp_output p) # js"
    and dj: "distinct (pg_jobs g)"
  shows "\<exists>x q'. q = x # q' \<and>
    sp_ends num p (g\<lparr>pg_jobs := js\<rparr>) q' pend (sp_unsent p q pend) (sp_job_send_done p (g\<lparr>pg_jobs := js\<rparr>))"
proof -
  let ?g = "g\<lparr>pg_jobs := js\<rparr>"
  have s: "ppi_state (sp_output p) = DONE_PENDING" using i j by (simp add: sp_inv_def sp_jobs_def ppi_jobs_def)
  then obtain x q' where q: "q = x # q'" using i by (auto simp: sp_inv_def sp_output_ok_def split: list.splits)
  have r: "ring (pb_input_mtu p) num (pb_buf p) q" "cb_holds (pb_buf p) (x # q')" and inp: "sp_input_ok p pend"
    and out: "sp_output_ok p q" using i q by (auto simp: sp_inv_def ring_def)
  from consume_ok [OF r(2)] obtain b where b: "ChunkBuffer2_ConsumePacket (pb_buf p) = Some b" "cb_holds b q'"
    "cb_mtu b = cb_mtu (pb_buf p)" "cb_size b = cb_size (pb_buf p)" "cb_mem b = cb_mem (pb_buf p)"
    "\<forall>dest avail. cb_input (pb_buf p) = Some (dest, avail) \<longrightarrow> (\<exists>avail'. cb_input b = Some (dest, avail') \<and> avail \<le> avail')"
    by blast
  have rb: "ring (pb_input_mtu p) num b q'" using r b q by (auto simp: ring_def)
  define p1 where "p1 = p\<lparr>sp_output := (sp_output p)\<lparr>ppi_state := STATE_NONE\<rparr>, pb_buf := b\<rparr>"
  have p1: "ppi_state (sp_output p1) = STATE_NONE" "sp_ids p1 = sp_ids p" "pb_buf p1 = b" "sp_input p1 = sp_input p"
    "pb_input_mtu p1 = pb_input_mtu p" "ppi_ids (sp_output p1) = ppi_ids (sp_output p)"
    by (simp_all add: p1_def ids_defs)
  have jobs1: "sp_jobs p1 ?g"
    using i s j dj unfolding sp_inv_def sp_jobs_def pri_jobs_def ppi_jobs_def by (auto simp: p1_def ids_defs)
  have grow: "has_room p1 dest" if "has_room p dest" for dest
    using that b(6) unfolding has_room_def p1_def by fastforce
  define full where "full = (case cb_input (pb_buf p) of None \<Rightarrow> True | Some (_, avail) \<Rightarrow> avail < pb_input_mtu p)"
  have full: "full \<longleftrightarrow> (\<forall>dest. \<not> has_room p dest)"
    by (auto simp: full_def has_room_def split: option.splits)
  have "\<exists>t1 news1. (if full then pb_recv p1 ?g else Some (p1, ?g)) = Some (t1, g\<lparr>pg_jobs := news1 @ js\<rparr>) \<and>
    sp_input_ok t1 pend \<and> sp_jobs t1 (g\<lparr>pg_jobs := news1 @ js\<rparr>) \<and> sp_ids t1 = sp_ids p \<and> pb_buf t1 = b \<and>
    pb_input_mtu t1 = pb_input_mtu p \<and> sp_output t1 = sp_output p1 \<and> distinct news1 \<and>
    set news1 \<subseteq> set (sp_ids p) - set js"
  proof (cases full)
    case True
    then have st: "pri_state (sp_input p1) = STATE_NONE" "pri_has_user (sp_input p1)" "pri_mtu (sp_input p1) = pb_input_mtu p1"
      "\<not> d_writing p1" "\<not> out_have p1" "pend = None"
      using full inp by (auto simp: sp_input_ok_def p1_def split: if_state.splits)
    from pb_recv_ok [OF st(1-5) jobs1] show ?thesis using True p1 st(6) by auto
  next
    case False
    then have "sp_input_ok p1 pend" using full inp grow b(5) unfolding sp_input_ok_def
      by (auto simp: p1_def split: if_state.splits)
    then show ?thesis using False p1 jobs1 by (intro exI [of _ p1] exI [of _ "[]"]) simp
  qed
  then obtain t1 news1 where t1: "(if full then pb_recv p1 ?g else Some (p1, ?g)) = Some (t1, g\<lparr>pg_jobs := news1 @ js\<rparr>)"
    "sp_input_ok t1 pend" "sp_jobs t1 (g\<lparr>pg_jobs := news1 @ js\<rparr>)" "sp_ids t1 = sp_ids p" "pb_buf t1 = b"
    "pb_input_mtu t1 = pb_input_mtu p" "sp_output t1 = sp_output p1" "distinct news1"
    "set news1 \<subseteq> set (sp_ids p) - set js" by blast
  have o1: "ppi_state (sp_output t1) = STATE_NONE" "ppi_has_user (sp_output t1)" "\<not> ppi_has_cancel (sp_output t1)"
    "pb_input_mtu t1 \<le> ppi_mtu (sp_output t1)" using out t1 by (simp_all add: sp_output_ok_def p1_def)
  have r1: "ring (pb_input_mtu t1) num (pb_buf t1) q'" using rb t1 by simp
  from pb_send_ok [OF o1 r1 t1(3)] obtain t news where t: "pb_send t1 (g\<lparr>pg_jobs := news1 @ js\<rparr>) =
      Some (t, g\<lparr>pg_jobs := news @ news1 @ js\<rparr>)" "sp_output_ok t q'"
    "sp_jobs t (g\<lparr>pg_jobs := news @ news1 @ js\<rparr>)" "sp_ids t = sp_ids t1" "pb_buf t = pb_buf t1"
    "pb_input_mtu t = pb_input_mtu t1" "sp_input t = sp_input t1" "out_have t = out_have t1" "bw_out t = bw_out t1"
    "d_writing t = d_writing t1" "ppi_state (sp_output t) \<noteq> DONE_PENDING" "distinct news"
    "set news \<subseteq> set (ppi_ids (sp_output t1)) - set (news1 @ js)" by auto
  have run: "sp_job_send_done p ?g = Some (t, g\<lparr>pg_jobs := (news @ news1) @ js\<rparr>)"
  proof -
    let ?p0 = "p\<lparr>sp_output := (sp_output p)\<lparr>ppi_state := STATE_NONE\<rparr>\<rparr>"
    have f0: "full = (case cb_input (pb_buf ?p0) of None \<Rightarrow> True | Some (_, avail) \<Rightarrow> avail < pb_input_mtu ?p0)"
      by (simp add: full_def split: option.splits)
    have "PacketBuffer_output_handler_done ?p0 ?g = Some (t, g\<lparr>pg_jobs := (news @ news1) @ js\<rparr>)"
      unfolding PacketBuffer_output_handler_done_def Let_def f0 [symmetric]
      using b(1) t1(1) t(1) by (cases full) (auto simp: p1_def)
    then show ?thesis using s by (simp add: sp_job_send_done_def if_op_defs)
  qed
  have "sp_input_ok t pend" using t1(2) sp_input_ok_cong [of t t1] t by simp
  then have "sp_inv num t (g\<lparr>pg_jobs := (news @ news1) @ js\<rparr>) q' pend"
    using t t1 rb by (simp add: sp_inv_def)
  moreover have "set news \<subseteq> set (sp_ids p) - set js" "distinct (news @ news1)"
    using t(12,13) t1(7,8) p1(6) by (auto simp: sp_ids_def)
  moreover have "sp_unsent t q' pend = sp_unsent p q pend"
    using t(11) q s by (simp add: sp_unsent_def)
  ultimately show ?thesis using run t t1 q unfolding sp_ends_def
    by (intro exI [of _ x] exI [of _ q'] conjI exI [of _ t] exI [of _ "news @ news1"]) auto
qed


text \<open>Writing a packet of at most the writer's MTU.\<close>

lemma sp_write_ok:
  assumes i: "sp_inv num p g q pend" and h: "out_have p" and d: "length d \<le> pb_input_mtu p"
  shows "\<exists>p1 p2 t. BufferWriter_StartPacket p = Some (True, p1) \<and> write_out d p1 = Some p2 \<and>
    BufferWriter_EndPacket (length d) p2 g = Some (t, g\<lparr>pg_jobs := pri_job_done (sp_input p) # pg_jobs g\<rparr>) \<and>
    sp_inv num t (g\<lparr>pg_jobs := pri_job_done (sp_input p) # pg_jobs g\<rparr>) q (Some d) \<and> sp_ids t = sp_ids p \<and>
    pb_input_mtu t = pb_input_mtu p \<and> sp_unsent t q (Some d) = sp_unsent p q pend @ [d]"
proof -
  let ?j = "pri_job_done (sp_input p)"
  have b: "pri_state (sp_input p) = BUSY" "pend = None" "has_room p (bw_out p)" "pri_has_user (sp_input p)"
    "pri_mtu (sp_input p) = pb_input_mtu p" "\<not> d_writing p"
    using i h by (auto simp: sp_inv_def sp_input_ok_def split: if_state.splits)
  then obtain avail where a: "cb_input (pb_buf p) = Some (bw_out p, avail)" "pb_input_mtu p \<le> avail"
    by (auto simp: has_room_def)
  have r: "ring (pb_input_mtu p) num (pb_buf p) q" "cb_holds (pb_buf p) q" using i by (auto simp: sp_inv_def ring_def)
  have "length d \<le> avail" using a d by simp
  from fill_ok [OF r(2) a(1) this] obtain c where c: "cb_fill d (pb_buf p) = Some c" "cb_holds c q"
    "cb_input c = cb_input (pb_buf p)" "mem_read (bw_out p) (length d) (cb_mem c) = d" "cb_mtu c = cb_mtu (pb_buf p)"
    "cb_size c = cb_size (pb_buf p)" "cb_start c = cb_start (pb_buf p)" by blast
  have m: "?j \<notin> set (pg_jobs g)" "?j \<in> pg_objs g"
    using i b(1) by (auto simp: sp_inv_def sp_jobs_def pri_jobs_def ids_defs)
  let ?p1 = "p\<lparr>d_writing := True\<rparr>" and ?p2 = "p\<lparr>d_writing := True, pb_buf := c\<rparr>"
  define t where "t = p\<lparr>pb_buf := c, out_have := False,
    sp_input := (sp_input p)\<lparr>pri_done_len := length d, pri_state := DONE_PENDING\<rparr>\<rparr>"
  have "BufferWriter_StartPacket p = Some (True, ?p1)" using h b by (simp add: BufferWriter_StartPacket_def)
  moreover have "write_out d ?p1 = Some ?p2" using a c(1) by (simp add: write_out_def)
  moreover have "BufferWriter_EndPacket (length d) ?p2 g = Some (t, g\<lparr>pg_jobs := ?j # pg_jobs g\<rparr>)"
    using b d h m by (simp add: BufferWriter_EndPacket_def if_op_defs set_fresh t_def)
  moreover have "sp_inv num t (g\<lparr>pg_jobs := ?j # pg_jobs g\<rparr>) q (Some d)"
  proof -
    have "ring (pb_input_mtu t) num (pb_buf t) q" using r c by (simp add: ring_def t_def)
    moreover have "sp_input_ok t (Some d)"
      using a b c d by (auto simp: sp_input_ok_def has_room_def t_def)
    moreover have "sp_output_ok t q"
      using i c(7) by (simp add: sp_inv_def sp_output_ok_def t_def split: list.splits)
    moreover have "sp_jobs t (g\<lparr>pg_jobs := ?j # pg_jobs g\<rparr>)"
      using i b(1) unfolding sp_inv_def sp_jobs_def pri_jobs_def ppi_jobs_def by (auto simp: ids_defs t_def)
    ultimately show ?thesis by (simp add: sp_inv_def)
  qed
  ultimately show ?thesis using b(2) by (auto simp: t_def ids_defs sp_unsent_def)
qed

text \<open>The invariant only looks at the chain's own jobs.\<close>

lemma sp_inv_frame:
  assumes "sp_inv num p g q pend" and "\<And>j. j \<in> set (sp_ids p) \<Longrightarrow> j \<in> set (pg_jobs h) \<longleftrightarrow> j \<in> set (pg_jobs g)"
    and "set (sp_ids p) \<subseteq> pg_objs h"
  shows "sp_inv num p h q pend"
  using assms by (simp add: sp_inv_def sp_jobs_def pri_jobs_def ppi_jobs_def ids_defs)

text \<open>The buffers start empty, with a receive scheduled.\<close>

lemma PacketBuffer_Init_ok:
  assumes i: "pri_state i = STATE_NONE" "\<not> pri_has_user i" "pri_mtu i \<le> ppi_mtu ou" "\<not> ppi_has_user ou"
    and n: "0 < num" "num \<le> 1000" "pri_mtu i \<le> 65535"
    and a: "\<And>n m. alloc n = Some m \<Longrightarrow> length m = n"
    and j: "pri_job_operation i \<notin> set (pg_jobs g)" "pri_job_operation i \<in> pg_objs g"
  shows "PacketBuffer_Init alloc i ou num g = Some None \<or>
    (\<exists>p dest. PacketBuffer_Init alloc i ou num g = Some (Some (p, g\<lparr>pg_jobs := pri_job_operation i # pg_jobs g\<rparr>)) \<and>
      sp_input p = i\<lparr>pri_has_user := True, pri_data := dest, pri_state := OPERATION_PENDING\<rparr> \<and>
      sp_output p = ou\<lparr>ppi_has_user := True\<rparr> \<and> ring (pri_mtu i) num (pb_buf p) [] \<and> has_room p dest \<and>
      \<not> out_have p \<and> \<not> d_writing p \<and> pb_input_mtu p = pri_mtu i)"
proof (cases "ChunkBuffer2_calc_blocks (pri_mtu i) num")
  case None
  then show ?thesis using i n
    by (simp add: PacketBuffer_Init_def PacketRecvInterface_Receiver_Init_def PacketPassInterface_Sender_Init_def)
next
  case (Some k)
  show ?thesis
  proof (cases "alloc (4 * k)")
    case None
    then show ?thesis using i n Some
      by (simp add: PacketBuffer_Init_def PacketRecvInterface_Receiver_Init_def PacketPassInterface_Sender_Init_def)
  next
    case m: (Some m)
    have "k = (1 + bdivide_up (pri_mtu i) 4) * (num + 1)" using calc_blocks_eq [OF Some] by simp
    moreover have "bdivide_up (pri_mtu i) 4 \<le> 16384" using n(3) by (simp add: bdivide_up_4_le)
    moreover have "(1 + bdivide_up (pri_mtu i) 4) * (num + 1) \<le> (1 + 16384) * (1000 + 1)"
      by (rule mult_le_mono) (use calculation(2) n(2) in simp_all)
    ultimately have "k \<le> (1 + 16384) * (1000 + 1)" by simp
    then have "int (4 * k) \<le> INT_MAX" by simp
    from ring_init [OF Some a [OF m] this] obtain b where b: "ChunkBuffer2_Init m k (pri_mtu i) = Some b"
      "ring (pri_mtu i) num b []" by blast
    from ring_capacity [OF b(2)] n(1) obtain dest r where r: "cb_input b = Some (dest, r)" "pri_mtu i \<le> r"
      by (auto simp: cb_room_def)
    let ?p = "\<lparr>sp_input = i\<lparr>pri_has_user := True, pri_data := dest, pri_state := OPERATION_PENDING\<rparr>, out_have = False,
      bw_out = 0, d_writing = False, pb_input_mtu = pri_mtu i, pb_buf = b, sp_output = ou\<lparr>ppi_has_user := True\<rparr>\<rparr>"
    have "PacketBuffer_Init alloc i ou num g = Some (Some (?p, g\<lparr>pg_jobs := pri_job_operation i # pg_jobs g\<rparr>))"
      using i n Some m b r j
      by (simp add: PacketBuffer_Init_def PacketRecvInterface_Receiver_Init_def PacketPassInterface_Sender_Init_def
          PacketRecvInterface_Receiver_Recv_def set_fresh)
    then show ?thesis using b(2) r by (intro disjI2 exI [of _ ?p] exI [of _ dest]) (simp add: has_room_def)
  qed
qed

lemma SinglePacketBuffer_Init_ok:
  assumes i: "pri_state i = STATE_NONE" "\<not> pri_has_user i" "pri_mtu i \<le> ppi_mtu ou" "\<not> ppi_has_user ou"
    and j: "pri_job_operation i \<notin> set (pg_jobs g)" "pri_job_operation i \<in> pg_objs g"
  shows "SinglePacketBuffer_Init alloc i ou g =
    Some (case alloc (pri_mtu i) of None \<Rightarrow> None
      | Some m \<Rightarrow> Some (\<lparr>rp_input = i\<lparr>pri_has_user := True, pri_data := 0, pri_state := OPERATION_PENDING\<rparr>,
          spb_buf = m, rp_output = ou\<lparr>ppi_has_user := True\<rparr>\<rparr>, g\<lparr>pg_jobs := pri_job_operation i # pg_jobs g\<rparr>))"
  using i j by (simp add: SinglePacketBuffer_Init_def PacketRecvInterface_Receiver_Init_def
      PacketPassInterface_Sender_Init_def PacketRecvInterface_Receiver_Recv_def set_fresh split: option.splits)

section \<open>The receiving chain\<close>

text \<open>
  Exactly one side of the single buffer is active; \<open>pend\<close> is the datagram in the buffer, from its
  arrival until it is handed on.
\<close>

definition rp_inv :: "'j recv_path \<Rightarrow> 'j BPendingGroup \<Rightarrow> bytes option \<Rightarrow> bool" where
  "rp_inv p g pend \<longleftrightarrow>
     pri_has_user (rp_input p) \<and> ppi_has_user (rp_output p) \<and> pri_mtu (rp_input p) \<le> ppi_mtu (rp_output p) \<and>
     length (spb_buf p) = pri_mtu (rp_input p) \<and> \<not> ppi_has_cancel (rp_output p) \<and> rp_jobs p g \<and>
     (pri_state (rp_input p) = STATE_NONE \<longleftrightarrow> ppi_state (rp_output p) \<noteq> STATE_NONE) \<and>
     (pri_state (rp_input p) \<noteq> STATE_NONE \<longrightarrow> pri_data (rp_input p) = 0) \<and>
     (pend \<noteq> None \<longleftrightarrow> pri_state (rp_input p) = DONE_PENDING \<or> ppi_state (rp_output p) = OPERATION_PENDING) \<and>
     (\<forall>d. pend = Some d \<longrightarrow> length d \<le> pri_mtu (rp_input p) \<and> mem_read 0 (length d) (spb_buf p) = d) \<and>
     (\<forall>d. pend = Some d \<longrightarrow> pri_state (rp_input p) = DONE_PENDING \<longrightarrow> pri_done_len (rp_input p) = length d) \<and>
     (\<forall>d. pend = Some d \<longrightarrow> ppi_state (rp_output p) = OPERATION_PENDING \<longrightarrow>
        ppi_len (rp_output p) = length d \<and> ppi_data (rp_output p) = 0)"

lemma rp_inv_frame:
  assumes "rp_inv p g pend" and "\<And>j. j \<in> set (rp_ids p) \<Longrightarrow> j \<in> set (pg_jobs h) \<longleftrightarrow> j \<in> set (pg_jobs g)"
    and "set (rp_ids p) \<subseteq> pg_objs h"
  shows "rp_inv p h pend"
proof -
  have "rp_jobs p g" using assms(1) by (simp add: rp_inv_def)
  then have "rp_jobs p h" using assms(2,3) by (simp add: rp_jobs_def pri_jobs_def ppi_jobs_def ids_defs)
  then show ?thesis using assms(1) by (simp add: rp_inv_def)
qed

lemma rp_jobs_states:
  assumes "rp_jobs p g"
  shows "pri_job_operation (rp_input p) \<in> set (pg_jobs g) \<longleftrightarrow> pri_state (rp_input p) = OPERATION_PENDING"
    "pri_job_done (rp_input p) \<in> set (pg_jobs g) \<longleftrightarrow> pri_state (rp_input p) = DONE_PENDING"
    "ppi_job_operation (rp_output p) \<in> set (pg_jobs g) \<longleftrightarrow> ppi_state (rp_output p) = OPERATION_PENDING"
    "ppi_job_done (rp_output p) \<in> set (pg_jobs g) \<longleftrightarrow> ppi_state (rp_output p) = DONE_PENDING"
    "set (rp_ids p) \<subseteq> pg_objs g"
  using assms by (simp_all add: rp_jobs_def pri_jobs_def ppi_jobs_def)

lemma rp_recv_operation_ok:
  assumes i: "rp_inv p g pend" and j: "pg_jobs g = pri_job_operation (rp_input p) # js" and d: "distinct (pg_jobs g)"
  shows "\<exists>t. rp_job_recv_operation p = Some t \<and> rp_inv t (g\<lparr>pg_jobs := js\<rparr>) pend \<and> rp_ids t = rp_ids p \<and>
    pri_state (rp_input t) = BUSY \<and> rp_output t = rp_output p \<and> pri_mtu (rp_input t) = pri_mtu (rp_input p)"
proof -
  have s: "pri_state (rp_input p) = OPERATION_PENDING" using i j by (simp add: rp_inv_def rp_jobs_def pri_jobs_def)
  let ?t = "p\<lparr>rp_input := (rp_input p)\<lparr>pri_state := BUSY\<rparr>\<rparr>"
  have "rp_jobs ?t (g\<lparr>pg_jobs := js\<rparr>)"
    using i s j d unfolding rp_inv_def rp_jobs_def pri_jobs_def ppi_jobs_def by (auto simp: ids_defs)
  then have "rp_inv ?t (g\<lparr>pg_jobs := js\<rparr>) pend" using i s by (simp add: rp_inv_def)
  then show ?thesis using s by (simp add: rp_job_recv_operation_def if_op_defs ids_defs)
qed

lemma rp_received_ok:
  assumes i: "rp_inv p g pend" and b: "pri_state (rp_input p) = BUSY" and d: "length d \<le> pri_mtu (rp_input p)"
  defines "j \<equiv> pri_job_done (rp_input p)"
  shows "\<exists>t. rp_received d p g = Some (t, g\<lparr>pg_jobs := j # pg_jobs g\<rparr>) \<and>
    rp_inv t (g\<lparr>pg_jobs := j # pg_jobs g\<rparr>) (Some d) \<and> rp_ids t = rp_ids p \<and> j \<notin> set (pg_jobs g) \<and>
    pri_mtu (rp_input t) = pri_mtu (rp_input p)"
proof -
  let ?t = "p\<lparr>rp_input := (rp_input p)\<lparr>pri_done_len := length d, pri_state := DONE_PENDING\<rparr>,
    spb_buf := mem_write 0 d (spb_buf p)\<rparr>"
  have f: "j \<notin> set (pg_jobs g)" "j \<in> pg_objs g" "pri_data (rp_input p) = 0" "length (spb_buf p) = pri_mtu (rp_input p)"
    using i b by (auto simp: rp_inv_def rp_jobs_def pri_jobs_def ids_defs j_def)
  have "rp_jobs ?t (g\<lparr>pg_jobs := j # pg_jobs g\<rparr>)"
    using i b unfolding rp_inv_def rp_jobs_def pri_jobs_def ppi_jobs_def by (auto simp: ids_defs j_def)
  moreover have "mem_read 0 (length d) (mem_write 0 d (spb_buf p)) = d"
    by (rule mem_read_write_same) (use f d in simp)
  ultimately have "rp_inv ?t (g\<lparr>pg_jobs := j # pg_jobs g\<rparr>) (Some d)"
    using i b d f by (simp add: rp_inv_def)
  moreover have "rp_received d p g = Some (?t, g\<lparr>pg_jobs := j # pg_jobs g\<rparr>)"
    using f b d by (simp add: rp_received_def if_op_defs set_fresh flip: j_def)
  ultimately show ?thesis using f by (simp add: ids_defs)
qed

lemma rp_recv_done_ok:
  assumes i: "rp_inv p g pend" and j: "pg_jobs g = pri_job_done (rp_input p) # js" and d: "distinct (pg_jobs g)"
  defines "k \<equiv> ppi_job_operation (rp_output p)"
  shows "\<exists>t. rp_job_recv_done p (g\<lparr>pg_jobs := js\<rparr>) = Some (t, g\<lparr>pg_jobs := k # js\<rparr>) \<and>
    rp_inv t (g\<lparr>pg_jobs := k # js\<rparr>) pend \<and> rp_ids t = rp_ids p \<and> k \<notin> set js \<and>
    pri_mtu (rp_input t) = pri_mtu (rp_input p)"
proof -
  have s: "pri_state (rp_input p) = DONE_PENDING" using i j by (simp add: rp_inv_def rp_jobs_def pri_jobs_def)
  then obtain x where x: "pend = Some x" "pri_done_len (rp_input p) = length x" "length x \<le> pri_mtu (rp_input p)"
    using i by (auto simp: rp_inv_def)
  have o1: "ppi_state (rp_output p) = STATE_NONE" "ppi_has_user (rp_output p)" "length x \<le> ppi_mtu (rp_output p)"
    using i s x by (auto simp: rp_inv_def)
  let ?t = "p\<lparr>rp_input := (rp_input p)\<lparr>pri_state := STATE_NONE\<rparr>,
    rp_output := (rp_output p)\<lparr>ppi_data := 0, ppi_len := length x, ppi_state := OPERATION_PENDING, ppi_cancel_requested := False\<rparr>\<rparr>"
  have f: "k \<notin> set (pg_jobs g)" "k \<in> pg_objs g"
    using i o1 by (auto simp: rp_inv_def rp_jobs_def ppi_jobs_def ids_defs k_def)
  have "rp_jobs ?t (g\<lparr>pg_jobs := k # js\<rparr>)"
    using i s o1 j d unfolding rp_inv_def rp_jobs_def pri_jobs_def ppi_jobs_def by (auto simp: ids_defs k_def)
  then have "rp_inv ?t (g\<lparr>pg_jobs := k # js\<rparr>) pend" using i s o1 x by (auto simp: rp_inv_def)
  moreover have "rp_job_recv_done p (g\<lparr>pg_jobs := js\<rparr>) = Some (?t, g\<lparr>pg_jobs := k # js\<rparr>)"
    using s x o1 f j by (simp add: rp_job_recv_done_def if_op_defs SinglePacketBuffer_input_handler_done_def
        set_fresh flip: k_def)
  ultimately show ?thesis using f j by (simp add: ids_defs)
qed

text \<open>The receiver takes the datagram and accepts it at once.\<close>

lemma rp_accept_ok:
  assumes i: "rp_inv p g pend" and j: "pg_jobs g = ppi_job_operation (rp_output p) # js" and d: "distinct (pg_jobs g)"
  defines "k \<equiv> ppi_job_done (rp_output p)"
  shows "\<exists>x p1 t. pend = Some x \<and> length x \<le> pri_mtu (rp_input p) \<and> rp_job_send_operation p = Some (x, p1) \<and>
    rp_accept p1 (g\<lparr>pg_jobs := js\<rparr>) = Some (t, g\<lparr>pg_jobs := k # js\<rparr>) \<and>
    rp_inv t (g\<lparr>pg_jobs := k # js\<rparr>) None \<and> rp_ids t = rp_ids p \<and> k \<notin> set js \<and>
    pri_mtu (rp_input t) = pri_mtu (rp_input p)"
proof -
  have s: "ppi_state (rp_output p) = OPERATION_PENDING" using i j by (simp add: rp_inv_def rp_jobs_def ppi_jobs_def)
  then obtain x where x: "pend = Some x" "ppi_len (rp_output p) = length x" "ppi_data (rp_output p) = 0"
    "mem_read 0 (length x) (spb_buf p) = x" "length x \<le> pri_mtu (rp_input p)"
    using i by (auto simp: rp_inv_def)
  let ?p1 = "p\<lparr>rp_output := (rp_output p)\<lparr>ppi_state := BUSY\<rparr>\<rparr>"
  let ?t = "p\<lparr>rp_output := (rp_output p)\<lparr>ppi_state := DONE_PENDING\<rparr>\<rparr>"
  have f: "k \<notin> set (pg_jobs g)" "k \<in> pg_objs g" "ppi_job_requestcancel (rp_output p) \<notin> set (pg_jobs g)"
    "ppi_job_requestcancel (rp_output p) \<in> pg_objs g"
    using i s by (auto simp: rp_inv_def rp_jobs_def ppi_jobs_def ids_defs k_def)
  have "rp_jobs ?t (g\<lparr>pg_jobs := k # js\<rparr>)"
    using i s j d unfolding rp_inv_def rp_jobs_def pri_jobs_def ppi_jobs_def by (auto simp: ids_defs k_def)
  then have "rp_inv ?t (g\<lparr>pg_jobs := k # js\<rparr>) None" using i s by (auto simp: rp_inv_def)
  moreover have "rp_job_send_operation p = Some (x, ?p1)"
    using s x by (simp add: rp_job_send_operation_def if_op_defs)
  moreover have "rp_accept ?p1 (g\<lparr>pg_jobs := js\<rparr>) = Some (?t, g\<lparr>pg_jobs := k # js\<rparr>)"
    using f j by (simp add: rp_accept_def if_op_defs set_fresh unset_absent flip: k_def)
  ultimately show ?thesis using x f j by (auto simp: ids_defs)
qed

lemma rp_send_done_ok:
  assumes i: "rp_inv p g pend" and j: "pg_jobs g = ppi_job_done (rp_output p) # js" and d: "distinct (pg_jobs g)"
  defines "k \<equiv> pri_job_operation (rp_input p)"
  shows "\<exists>t. rp_job_send_done p (g\<lparr>pg_jobs := js\<rparr>) = Some (t, g\<lparr>pg_jobs := k # js\<rparr>) \<and>
    rp_inv t (g\<lparr>pg_jobs := k # js\<rparr>) pend \<and> rp_ids t = rp_ids p \<and> k \<notin> set js \<and>
    pri_mtu (rp_input t) = pri_mtu (rp_input p)"
proof -
  have s: "ppi_state (rp_output p) = DONE_PENDING" using i j by (simp add: rp_inv_def rp_jobs_def ppi_jobs_def)
  have o1: "pri_state (rp_input p) = STATE_NONE" "pri_has_user (rp_input p)" "pend = None"
    using i s by (auto simp: rp_inv_def)
  let ?t = "p\<lparr>rp_output := (rp_output p)\<lparr>ppi_state := STATE_NONE\<rparr>,
    rp_input := (rp_input p)\<lparr>pri_data := 0, pri_state := OPERATION_PENDING\<rparr>\<rparr>"
  have f: "k \<notin> set (pg_jobs g)" "k \<in> pg_objs g"
    using i o1 by (auto simp: rp_inv_def rp_jobs_def pri_jobs_def ids_defs k_def)
  have "rp_jobs ?t (g\<lparr>pg_jobs := k # js\<rparr>)"
    using i s o1 j d unfolding rp_inv_def rp_jobs_def pri_jobs_def ppi_jobs_def by (auto simp: ids_defs k_def)
  then have "rp_inv ?t (g\<lparr>pg_jobs := k # js\<rparr>) pend" using i s o1 by (auto simp: rp_inv_def)
  moreover have "rp_job_send_done p (g\<lparr>pg_jobs := js\<rparr>) = Some (?t, g\<lparr>pg_jobs := k # js\<rparr>)"
    using s o1 f j by (simp add: rp_job_send_done_def if_op_defs SinglePacketBuffer_output_handler_done_def
        set_fresh flip: k_def)
  ultimately show ?thesis using f j by (simp add: ids_defs)
qed

end
