(* ===== verification/SocksUdpGw.thy ===== *)
theory SocksUdpGw
  imports Flow SocksClient
begin

text \<open>
  The UDP relay of the Android build: \<open>tun2socks/SocksUdpGwClient.c\<close> with the header of
  \<open>protocol/udpgw_proto.h\<close>.  Every local address has a connection with a datagram socket; packets
  go through a \<open>BufferWriter\<close> and a \<open>PacketBuffer\<close> to the socket, and datagrams come back through a
  \<open>SinglePacketBuffer\<close>.

  Connections live in a heap indexed by their identity; an identity is never used again, so a stale
  reference is a lookup that gives \<^term>\<open>None\<close>.  The tree of connections is the list of its nodes, and an
  exact lookup finds the node whose key compares equal; the least recently used connection is the first
  of \<open>connections_list\<close>.  All jobs are in the group of the reactor, which runs the first one; the sockets
  and the device only report events when no job is pending.
\<close>

section \<open>State\<close>

definition CONNECTION_UDP_BUFFER_SIZE :: nat where
  "CONNECTION_UDP_BUFFER_SIZE = 64"

record SocksUdpGwClient_conaddr =
  local_addr :: BAddr
  remote_addr :: BAddr

text \<open>The job objects inside a connection, in the order of its fields.\<close>

datatype con_job =
    J_first
  | J_send_op | J_send_cancel | J_send_done
  | J_recv_op | J_recv_done
  | J_writer_op | J_writer_done
  | J_user_op | J_user_cancel | J_user_done

type_synonym ug_job = "nat \<times> con_job"

record SocksUdpGwClient_connection =
  conaddr :: SocksUdpGwClient_conaddr
  first_data :: bytes
  con_is_dns :: bool
  dgram_dest :: BAddr
  con_send :: "ug_job send_path"
  con_recv :: "ug_job recv_path"
  con_accepted :: "bytes list"
  con_sent :: "bytes list"

record SocksUdpGwClient =
  ug_udp_mtu :: nat
  socks_server_addr :: BAddr
  ug_dnsgw :: BAddr
  udpgw_mtu :: int
  num_connections :: int
  max_connections :: int
  connections_tree :: "nat list"
  connections_list :: "nat list"
  ug_heap :: "nat \<Rightarrow> SocksUdpGwClient_connection option"
  ug_next :: nat
  ug_group :: "ug_job BPendingGroup"
  ug_delivered :: "(BAddr \<times> BAddr \<times> bytes) list"

text \<open>
  What the system answers while a connection is created: \<open>malloc\<close>, the socket, its option, the two buffers, and
  the contents of fresh memory.
\<close>

record ug_env =
  env_malloc :: bool
  env_dgram :: bool
  env_reuse :: bool
  env_ring_ok :: bool
  env_buf_ok :: bool
  env_junk :: "nat \<Rightarrow> u8"

definition env_ring :: "ug_env \<Rightarrow> nat \<Rightarrow> bytes option" where
  "env_ring e n = (if env_ring_ok e then Some (map (env_junk e) [0..<n]) else None)"

definition env_buf :: "ug_env \<Rightarrow> nat \<Rightarrow> bytes option" where
  "env_buf e n = (if env_buf_ok e then Some (map (env_junk e) [0..<n]) else None)"

section \<open>Messages\<close>

definition udpgw_compute_mtu :: "int \<Rightarrow> int" where
  "udpgw_compute_mtu dgram_mtu =
     (let s = 4 + (max 6 18 + dgram_mtu) in if s > INT_MAX then -1 else s)"

text \<open>\<open>struct socks_udp_header\<close> and the address that follows it.\<close>

definition socks_udp_header :: "u16 \<Rightarrow> u8 \<Rightarrow> u8 \<Rightarrow> bytes" where
  "socks_udp_header rsv frag atyp = store16 rsv @ [frag, atyp]"

definition udp_message :: "bool \<Rightarrow> BAddr \<Rightarrow> bytes \<Rightarrow> bytes" where
  "udp_message is_dns remote data =
     (if is_dns then data
      else socks_udp_header 0 0 (case remote of BADDR_IPV4 _ _ \<Rightarrow> SOCKS_ATYP_IPV4 | _ \<Rightarrow> SOCKS_ATYP_IPV6) @
           (case remote of
              BADDR_IPV4 ip port \<Rightarrow> store32 ip @ store16 port
            | BADDR_IPV6 ip port \<Rightarrow> ip @ store16 port
            | _ \<Rightarrow> []) @ data)"

text \<open>The header and address of a datagram from the server: the remote address and the payload.\<close>

definition parse_udp_reply :: "bytes \<Rightarrow> (BAddr \<times> bytes) option" where
  "parse_udp_reply data =
     (if length data < 4 then None
      else let frag = data ! 2; atyp = data ! 3; data = drop 4 data
           in if frag \<noteq> 0 then None
              else if atyp = SOCKS_ATYP_IPV6 then
                (if length data < 18 then None
                 else Some (BADDR_IPV6 (take 16 data) (load16 (drop 16 data)), drop 18 data))
              else
                (if length data < 6 then None
                 else Some (BADDR_IPV4 (load32 data) (load16 (drop 4 data)), drop 6 data)))"

section \<open>Operations on a connection\<close>

definition conaddr_comparator :: "SocksUdpGwClient_conaddr \<Rightarrow> SocksUdpGwClient_conaddr \<Rightarrow> int" where
  "conaddr_comparator v1 v2 = BAddr_CompareOrder (local_addr v1) (local_addr v2)"

text \<open>\<open>connection_send\<close>: the result is \<open>True\<close> when the packet was dropped for lack of space.\<close>

definition connection_send :: "bytes \<Rightarrow> SocksUdpGwClient_connection \<Rightarrow> ug_job BPendingGroup \<Rightarrow>
    (bool \<times> SocksUdpGwClient_connection \<times> ug_job BPendingGroup) option" where
  "connection_send data c g =
     do {
       (ok, p) \<leftarrow> BufferWriter_StartPacket (con_send c);
       if \<not> ok then Some (True, c, g)
       else do {
         let out = udp_message (con_is_dns c) (remote_addr (conaddr c)) data;
         p \<leftarrow> write_out out p;
         (p, g) \<leftarrow> BufferWriter_EndPacket (length out) p g;
         Some (False, c\<lparr>con_send := p, con_accepted := con_accepted c @ [out]\<rparr>, g) } }"

definition connection_first_job_handler :: "SocksUdpGwClient_connection \<Rightarrow> ug_job BPendingGroup \<Rightarrow>
    (SocksUdpGwClient_connection \<times> ug_job BPendingGroup) option" where
  "connection_first_job_handler c g =
     do { (_, c, g) \<leftarrow> connection_send (first_data c) c g; Some (c, g) }"

definition reset_connection :: "SocksUdpGwClient_conaddr \<Rightarrow> bool \<Rightarrow> SocksUdpGwClient_connection \<Rightarrow>
    SocksUdpGwClient_connection" where
  "reset_connection ca is_dns c = c\<lparr>conaddr := ca, con_is_dns := is_dns\<rparr>"

text \<open>A datagram that \<open>udp_recv_if\<close> hands over: the packet is accepted, then parsed and submitted to the user.\<close>

definition dgram_handler_received :: "nat \<Rightarrow> int \<Rightarrow> bytes \<Rightarrow> SocksUdpGwClient_connection \<Rightarrow> ug_job BPendingGroup \<Rightarrow>
    (SocksUdpGwClient_connection \<times> ug_job BPendingGroup \<times> (BAddr \<times> BAddr \<times> bytes) option) option" where
  "dgram_handler_received mtu gw_mtu data c g =
     ASSERT (int (length data) \<le> gw_mtu) (
     do {
       (p, g) \<leftarrow> rp_accept (con_recv c) g;
       let c = c\<lparr>con_recv := p\<rparr>;
       (case (if con_is_dns c then Some (remote_addr (conaddr c), data) else parse_udp_reply data) of
          None \<Rightarrow> Some (c, g, None)
        | Some (remote, payload) \<Rightarrow>
            let c = c\<lparr>conaddr := (conaddr c)\<lparr>remote_addr := remote\<rparr>\<rparr>
            in if length payload > mtu then Some (c, g, None)
               else Some (c, g, Some (local_addr (conaddr c), remote, payload))) })"

section \<open>Operations on the client\<close>

definition set_con :: "nat \<Rightarrow> SocksUdpGwClient_connection \<Rightarrow> ug_job BPendingGroup \<Rightarrow> SocksUdpGwClient \<Rightarrow> SocksUdpGwClient" where
  "set_con k c g s = s\<lparr>ug_heap := (ug_heap s)(k := Some c), ug_group := g\<rparr>"

text \<open>\<open>BAVL_LookupExact\<close> on the tree, and \<open>find_connection\<close> with its test as the code has it: the
  pointer is never null there, so the test never fails.\<close>

fun tree_lookup :: "(nat \<Rightarrow> SocksUdpGwClient_connection option) \<Rightarrow> SocksUdpGwClient_conaddr \<Rightarrow> nat list \<Rightarrow> nat option" where
  "tree_lookup h ca [] = None"
| "tree_lookup h ca (k # ks) =
     (case h k of
        None \<Rightarrow> tree_lookup h ca ks
      | Some c \<Rightarrow> if conaddr_comparator ca (conaddr c) = 0 then Some k else tree_lookup h ca ks)"

definition find_connection :: "SocksUdpGwClient_conaddr \<Rightarrow> bool \<Rightarrow> SocksUdpGwClient \<Rightarrow> nat option" where
  "find_connection ca is_dns s =
     (case tree_lookup (ug_heap s) ca (connections_tree s) of
        None \<Rightarrow> None
      | Some k \<Rightarrow>
          let con = ug_heap s k
          in if con = None \<and> con_is_dns (the con) \<noteq> is_dns then None else Some k)"

definition con_ids :: "nat \<Rightarrow> ug_job list" where
  "con_ids k = map (Pair k) [J_first, J_send_op, J_send_cancel, J_send_done, J_recv_op, J_recv_done,
     J_writer_op, J_writer_done, J_user_op, J_user_cancel, J_user_done]"

definition connection_free :: "nat \<Rightarrow> SocksUdpGwClient \<Rightarrow> SocksUdpGwClient option" where
  "connection_free k s =
     do {
       c \<leftarrow> ug_heap s k;
       ASSERT (k \<in> set (connections_list s) \<and> k \<in> set (connections_tree s)) (do {
         g \<leftarrow> PacketPassInterface_Free (rp_output (con_recv c)) (ug_group s);
         g \<leftarrow> PacketRecvInterface_Free (sp_input (con_send c)) g;
         g \<leftarrow> PacketRecvInterface_Free (rp_input (con_recv c)) g;
         g \<leftarrow> PacketPassInterface_Free (sp_output (con_send c)) g;
         Some (s\<lparr>num_connections := num_connections s - 1,
                 connections_list := remove1 k (connections_list s),
                 connections_tree := remove1 k (connections_tree s),
                 ug_heap := (ug_heap s)(k := None), ug_group := g\<rparr>) }) }"

definition remove_lru_connection :: "SocksUdpGwClient_conaddr \<Rightarrow> bool \<Rightarrow> SocksUdpGwClient \<Rightarrow> SocksUdpGwClient option" where
  "remove_lru_connection ca is_dns s =
     ASSERT (find_connection ca is_dns s = None) (
     ASSERT (num_connections s > 0) (
     case connections_list s of [] \<Rightarrow> None | k # _ \<Rightarrow> connection_free k s))"

text \<open>
  \<open>connection_init\<close>: the result is \<^term>\<open>None\<close> inside when it reports failure; the state then only has a
  used up identity, since everything that was set up is released again.
\<close>

definition connection_init :: "ug_env \<Rightarrow> SocksUdpGwClient_conaddr \<Rightarrow> bytes \<Rightarrow> bool \<Rightarrow> SocksUdpGwClient \<Rightarrow>
    (nat option \<times> SocksUdpGwClient) option" where
  "connection_init e ca data is_dns s =
     (if \<not> env_malloc e then Some (None, s)
      else let k = ug_next s; s = s\<lparr>ug_next := k + 1\<rparr>; mtu = ug_udp_mtu s in
        do {
          g \<leftarrow> BPending_Init (k, J_first) (ug_group s);
          g \<leftarrow> BPending_Set (k, J_first) g;
          if \<not> env_dgram e \<or> \<not> env_reuse e then
            do { g \<leftarrow> BPending_Free (k, J_first) g; Some (None, s\<lparr>ug_group := g\<rparr>) }
          else do {
            let dest = (if is_dns then ug_dnsgw s else socks_server_addr s);
            (send_if, g) \<leftarrow> PacketPassInterface_Init mtu (k, J_send_op) (k, J_send_cancel) (k, J_send_done) g;
            (recv_if, g) \<leftarrow> PacketRecvInterface_Init mtu (k, J_recv_op) (k, J_recv_done) g;
            (writer, g) \<leftarrow> BufferWriter_Init mtu (k, J_writer_op) (k, J_writer_done) g;
            b \<leftarrow> PacketBuffer_Init (env_ring e) writer send_if CONNECTION_UDP_BUFFER_SIZE g;
            (case b of
               None \<Rightarrow>
                 do { g \<leftarrow> PacketRecvInterface_Free writer g;
                      g \<leftarrow> PacketRecvInterface_Free recv_if g;
                      g \<leftarrow> PacketPassInterface_Free send_if g;
                      g \<leftarrow> BPending_Free (k, J_first) g;
                      Some (None, s\<lparr>ug_group := g\<rparr>) }
             | Some (sp, g) \<Rightarrow>
                 do {
                   (user_if, g) \<leftarrow> PacketPassInterface_Init mtu (k, J_user_op) (k, J_user_cancel) (k, J_user_done) g;
                   r \<leftarrow> SinglePacketBuffer_Init (env_buf e) recv_if user_if g;
                   (case r of
                      None \<Rightarrow>
                        do { g \<leftarrow> PacketPassInterface_Free user_if g;
                             g \<leftarrow> PacketRecvInterface_Free (sp_input sp) g;
                             g \<leftarrow> PacketRecvInterface_Free recv_if g;
                             g \<leftarrow> PacketPassInterface_Free (sp_output sp) g;
                             g \<leftarrow> BPending_Free (k, J_first) g;
                             Some (None, s\<lparr>ug_group := g\<rparr>) }
                    | Some (rp, g) \<Rightarrow>
                        ASSERT (tree_lookup (ug_heap s) ca (connections_tree s) = None)
                          (Some (Some k,
                             s\<lparr>ug_heap := (ug_heap s)(k := Some
                                 \<lparr>conaddr = ca, first_data = data, con_is_dns = is_dns, dgram_dest = dest,
                                  con_send = sp, con_recv = rp, con_accepted = [], con_sent = []\<rparr>),
                               connections_tree := connections_tree s @ [k],
                               connections_list := connections_list s @ [k],
                               num_connections := num_connections s + 1, ug_group := g\<rparr>))) }) } })"

definition is_ip :: "BAddr \<Rightarrow> bool" where
  "is_ip a \<longleftrightarrow> (case a of BADDR_IPV4 _ _ \<Rightarrow> True | BADDR_IPV6 _ _ \<Rightarrow> True | _ \<Rightarrow> False)"

definition SocksUdpGwClient_SubmitPacket :: "ug_env \<Rightarrow> BAddr \<Rightarrow> BAddr \<Rightarrow> bool \<Rightarrow> bytes \<Rightarrow> SocksUdpGwClient \<Rightarrow>
    SocksUdpGwClient option" where
  "SocksUdpGwClient_SubmitPacket e local remote is_dns data s =
     ASSERT (is_ip local) (
     ASSERT (is_ip remote) (
     ASSERT (length data \<le> ug_udp_mtu s) (
     let ca = \<lparr>local_addr = local, remote_addr = remote\<rparr>;
         con = find_connection ca is_dns s
     in do {
       s \<leftarrow> (if con = None \<and> num_connections s = max_connections s
             then remove_lru_connection ca is_dns s else Some s);
       (case con of
          None \<Rightarrow> do { (_, s) \<leftarrow> connection_init e ca data is_dns s; Some s }
        | Some k \<Rightarrow>
            do {
              c \<leftarrow> ug_heap s k;
              (dropped, c, g) \<leftarrow> connection_send data (reset_connection ca is_dns c) (ug_group s);
              let s = set_con k c g s;
              Some (if dropped then s
                    else s\<lparr>connections_list := remove1 k (connections_list s) @ [k]\<rparr>) }) })))"

definition SocksUdpGwClient_Init :: "nat \<Rightarrow> int \<Rightarrow> BAddr \<Rightarrow> BAddr \<Rightarrow> SocksUdpGwClient option" where
  "SocksUdpGwClient_Init mtu max_cons server dns =
     ASSERT (\<not> BAddr_IsInvalid server)
       (Some \<lparr>ug_udp_mtu = mtu, socks_server_addr = server, ug_dnsgw = dns,
              udpgw_mtu = udpgw_compute_mtu (int mtu), num_connections = 0,
              max_connections = (if max_cons > UINT16_MAX + 1 then UINT16_MAX + 1 else max_cons),
              connections_tree = [], connections_list = [], ug_heap = (\<lambda>_. None), ug_next = 0,
              ug_group = BPendingGroup_Init, ug_delivered = []\<rparr>)"

text \<open>The loop of \<open>SocksUdpGwClient_Free\<close>: it frees the first connection of the list until there is none.\<close>

fun free_cons :: "nat list \<Rightarrow> SocksUdpGwClient \<Rightarrow> SocksUdpGwClient option" where
  "free_cons [] s = Some s"
| "free_cons (k # ks) s = do { s \<leftarrow> connection_free k s; free_cons ks s }"

definition SocksUdpGwClient_Free :: "SocksUdpGwClient \<Rightarrow> SocksUdpGwClient option" where
  "SocksUdpGwClient_Free s = free_cons (connections_list s) s"

section \<open>Jobs and events\<close>

text \<open>
  The job at the head of the group, with its handlers.  When the socket is asked to send or receive, it
  may finish at once (\<open>now\<close> and \<open>d\<close>) or later, by an event of its file descriptor.
\<close>

definition dgram_sent :: "SocksUdpGwClient_connection \<Rightarrow> ug_job BPendingGroup \<Rightarrow>
    (SocksUdpGwClient_connection \<times> ug_job BPendingGroup) option" where
  "dgram_sent c g =
     do { let x = mem_read (ppi_data (sp_output (con_send c))) (ppi_len (sp_output (con_send c)))
            (cb_mem (pb_buf (con_send c)));
          (p, g) \<leftarrow> sp_sent (con_send c) g;
          Some (c\<lparr>con_send := p, con_sent := con_sent c @ [x]\<rparr>, g) }"

definition dgram_received :: "bytes \<Rightarrow> SocksUdpGwClient_connection \<Rightarrow> ug_job BPendingGroup \<Rightarrow>
    (SocksUdpGwClient_connection \<times> ug_job BPendingGroup) option" where
  "dgram_received d c g =
     do { (p, g) \<leftarrow> rp_received d (con_recv c) g; Some (c\<lparr>con_recv := p\<rparr>, g) }"

definition put_send :: "SocksUdpGwClient_connection \<Rightarrow> (ug_job send_path \<times> ug_job BPendingGroup) option \<Rightarrow>
    (SocksUdpGwClient_connection \<times> ug_job BPendingGroup) option" where
  "put_send c r = map_option (\<lambda>(p, g). (c\<lparr>con_send := p\<rparr>, g)) r"

definition put_recv :: "SocksUdpGwClient_connection \<Rightarrow> (ug_job recv_path \<times> ug_job BPendingGroup) option \<Rightarrow>
    (SocksUdpGwClient_connection \<times> ug_job BPendingGroup) option" where
  "put_recv c r = map_option (\<lambda>(p, g). (c\<lparr>con_recv := p\<rparr>, g)) r"

definition con_run_job :: "bool \<Rightarrow> bytes option \<Rightarrow> nat \<Rightarrow> int \<Rightarrow> con_job \<Rightarrow> SocksUdpGwClient_connection \<Rightarrow>
    ug_job BPendingGroup \<Rightarrow>
    (SocksUdpGwClient_connection \<times> ug_job BPendingGroup \<times> (BAddr \<times> BAddr \<times> bytes) option) option" where
  "con_run_job now d mtu gw_mtu j c g =
     (let quiet = map_option (\<lambda>(c, g). (c, g, None))
      in case j of
        J_first \<Rightarrow> quiet (connection_first_job_handler c g)
      | J_writer_op \<Rightarrow> quiet (put_send c (map_option (\<lambda>p. (p, g)) (sp_job_recv_operation (con_send c))))
      | J_writer_done \<Rightarrow> quiet (put_send c (sp_job_recv_done (con_send c) g))
      | J_send_op \<Rightarrow>
          do { (_, p) \<leftarrow> sp_job_send_operation (con_send c);
               let c = c\<lparr>con_send := p\<rparr>;
               if now then quiet (dgram_sent c g) else Some (c, g, None) }
      | J_send_done \<Rightarrow> quiet (put_send c (sp_job_send_done (con_send c) g))
      | J_recv_op \<Rightarrow>
          do { p \<leftarrow> rp_job_recv_operation (con_recv c);
               let c = c\<lparr>con_recv := p\<rparr>;
               (case d of None \<Rightarrow> Some (c, g, None) | Some x \<Rightarrow> quiet (dgram_received x c g)) }
      | J_recv_done \<Rightarrow> quiet (put_recv c (rp_job_recv_done (con_recv c) g))
      | J_user_op \<Rightarrow>
          do { (x, p) \<leftarrow> rp_job_send_operation (con_recv c);
               dgram_handler_received mtu gw_mtu x (c\<lparr>con_recv := p\<rparr>) g }
      | J_user_done \<Rightarrow> quiet (put_recv c (rp_job_send_done (con_recv c) g))
      | J_send_cancel \<Rightarrow> None
      | J_user_cancel \<Rightarrow> None)"

definition run_head :: "bool \<Rightarrow> bytes option \<Rightarrow> SocksUdpGwClient \<Rightarrow> SocksUdpGwClient option" where
  "run_head now d s =
     do {
       ((k, j), g) \<leftarrow> BPendingGroup_ExecuteJob (ug_group s);
       c \<leftarrow> ug_heap s k;
       (c, g, out) \<leftarrow> con_run_job now d (ug_udp_mtu s) (udpgw_mtu s) j c g;
       Some (set_con k c g (s\<lparr>ug_delivered := ug_delivered s @ (case out of None \<Rightarrow> [] | Some x \<Rightarrow> [x])\<rparr>)) }"

datatype ug_event =
    Submit ug_env BAddr BAddr bool bytes
  | RunJob bool "bytes option"
  | DgramSent nat
  | DgramReceived nat bytes

text \<open>
  A packet that leaves room for the header in a datagram of \<open>udp_mtu\<close> bytes.
\<close>

definition header_fits :: "nat \<Rightarrow> BAddr \<Rightarrow> bool \<Rightarrow> bytes \<Rightarrow> bool" where
  "header_fits mtu remote is_dns data \<longleftrightarrow> length (udp_message is_dns remote data) \<le> mtu"

text \<open>A socket gets no datagram before it has sent one: it is only bound then.\<close>

definition has_sent :: "nat \<Rightarrow> SocksUdpGwClient \<Rightarrow> bool" where
  "has_sent k s \<longleftrightarrow> (case ug_heap s k of None \<Rightarrow> False | Some c \<Rightarrow> con_sent c \<noteq> [])"

fun ug_enabled :: "ug_event \<Rightarrow> SocksUdpGwClient \<Rightarrow> bool" where
  "ug_enabled (Submit e local remote is_dns data) s \<longleftrightarrow>
     pg_jobs (ug_group s) = [] \<and> is_ip local \<and> ip_wf local \<and> is_ip remote \<and> ip_wf remote \<and>
     length data \<le> ug_udp_mtu s \<and> header_fits (ug_udp_mtu s) remote is_dns data"
| "ug_enabled (RunJob now d) s \<longleftrightarrow>
     (case pg_jobs (ug_group s) of
        [] \<Rightarrow> False
      | (k, _) # _ \<Rightarrow>
          (case d of None \<Rightarrow> True | Some x \<Rightarrow> length x \<le> ug_udp_mtu s \<and> has_sent k s))"
| "ug_enabled (DgramSent k) s \<longleftrightarrow>
     pg_jobs (ug_group s) = [] \<and>
     (case ug_heap s k of None \<Rightarrow> False | Some c \<Rightarrow> ppi_state (sp_output (con_send c)) = BUSY)"
| "ug_enabled (DgramReceived k d) s \<longleftrightarrow>
     pg_jobs (ug_group s) = [] \<and> length d \<le> ug_udp_mtu s \<and> has_sent k s \<and>
     (case ug_heap s k of None \<Rightarrow> False | Some c \<Rightarrow> pri_state (rp_input (con_recv c)) = BUSY)"

fun ug_run :: "ug_event \<Rightarrow> SocksUdpGwClient \<Rightarrow> SocksUdpGwClient option" where
  "ug_run (Submit e local remote is_dns data) s = SocksUdpGwClient_SubmitPacket e local remote is_dns data s"
| "ug_run (RunJob now d) s = run_head now d s"
| "ug_run (DgramSent k) s =
     do { c \<leftarrow> ug_heap s k; (c, g) \<leftarrow> dgram_sent c (ug_group s); Some (set_con k c g s) }"
| "ug_run (DgramReceived k d) s =
     do { c \<leftarrow> ug_heap s k; (c, g) \<leftarrow> dgram_received d c (ug_group s); Some (set_con k c g s) }"

inductive ug_step :: "SocksUdpGwClient \<Rightarrow> SocksUdpGwClient \<Rightarrow> bool" where
  "ug_enabled ev s \<Longrightarrow> ug_run ev s = Some t \<Longrightarrow> ug_step s t"

text \<open>The client as \<open>main\<close> creates it: a positive limit, and an MTU for which the ring's size is an \<open>int\<close>.\<close>

definition ug_init :: "SocksUdpGwClient \<Rightarrow> bool" where
  "ug_init s \<longleftrightarrow>
     (\<exists>mtu m server dns. SocksUdpGwClient_Init mtu m server dns = Some s \<and> m > 0 \<and> mtu \<le> 65535)"

end
