(* ===== verification/SocksUdpGw_Inv.thy ===== *)
theory SocksUdpGw_Inv
  imports SocksUdpGw
begin

text \<open>
  The invariant of the UDP relay of \<open>tun2socks/SocksUdpGwClient.c\<close> and the proofs that every event keeps it,
  one lemma per job and operation.
\<close>

section \<open>The invariant\<close>

definition send_ids :: "nat \<Rightarrow> ug_job list" where
  "send_ids k = map (Pair k) [J_writer_op, J_writer_done, J_send_op, J_send_cancel, J_send_done]"

definition recv_ids :: "nat \<Rightarrow> ug_job list" where
  "recv_ids k = map (Pair k) [J_recv_op, J_recv_done, J_user_op, J_user_cancel, J_user_done]"

text \<open>A connection without regard to its first packet.\<close>

definition con_core :: "nat \<Rightarrow> nat \<Rightarrow> SocksUdpGwClient_connection \<Rightarrow> ug_job BPendingGroup \<Rightarrow> bool" where
  "con_core mtu k c g \<longleftrightarrow>
     sp_ids (con_send c) = send_ids k \<and> rp_ids (con_recv c) = recv_ids k \<and>
     pb_input_mtu (con_send c) = mtu \<and> pri_mtu (rp_input (con_recv c)) = mtu \<and>
     (\<exists>q pend. sp_inv CONNECTION_UDP_BUFFER_SIZE (con_send c) g q pend \<and>
        con_accepted c = con_sent c @ sp_unsent (con_send c) q pend) \<and>
     (\<exists>pend. rp_inv (con_recv c) g pend) \<and> (k, J_first) \<in> pg_objs g"

definition runs_before :: "'a \<Rightarrow> 'a \<Rightarrow> 'a list \<Rightarrow> bool" where
  "runs_before x y js \<longleftrightarrow> (\<exists>pre post. js = pre @ y # post \<and> x \<in> set pre)"

text \<open>
  While the first packet waits for its job, nothing else has happened to the connection, and the job that
  gives the writer its place runs before.
\<close>

definition first_ok :: "nat \<Rightarrow> nat \<Rightarrow> SocksUdpGwClient_connection \<Rightarrow> ug_job list \<Rightarrow> bool" where
  "first_ok mtu k c js \<longleftrightarrow>
     ((k, J_first) \<in> set js \<longrightarrow>
        con_accepted c = [] \<and> header_fits mtu (remote_addr (conaddr c)) (con_is_dns c) (first_data c) \<and>
        ppi_state (sp_output (con_send c)) = STATE_NONE \<and> ppi_state (rp_output (con_recv c)) = STATE_NONE \<and>
        pri_state (rp_input (con_recv c)) \<noteq> DONE_PENDING \<and>
        (out_have (con_send c) \<or> runs_before (k, J_writer_op) (k, J_first) js))"

definition con_inv :: "nat \<Rightarrow> nat \<Rightarrow> SocksUdpGwClient_connection \<Rightarrow> ug_job BPendingGroup \<Rightarrow> bool" where
  "con_inv mtu k c g \<longleftrightarrow>
     con_core mtu k c g \<and> first_ok mtu k c (pg_jobs g) \<and> is_ip (local_addr (conaddr c)) \<and> ip_wf (local_addr (conaddr c))"

section \<open>Frame lemmas\<close>

lemma runs_before_append: "runs_before x y js \<Longrightarrow> runs_before x y (news @ js)"
proof -
  assume "runs_before x y js"
  then obtain pre post where "js = pre @ y # post" "x \<in> set pre" by (auto simp: runs_before_def)
  then have "news @ js = (news @ pre) @ y # post \<and> x \<in> set (news @ pre)" by simp
  then show ?thesis unfolding runs_before_def by blast
qed

lemma runs_before_pop: "runs_before x y (z # js) \<Longrightarrow> z \<noteq> x \<Longrightarrow> z \<noteq> y \<Longrightarrow> runs_before x y js"
  unfolding runs_before_def by (auto simp: Cons_eq_append_conv)

lemma runs_before_not_head: "runs_before x y (y # js) \<Longrightarrow> distinct (y # js) \<Longrightarrow> False"
  unfolding runs_before_def by (auto simp: Cons_eq_append_conv)

text \<open>The jobs of one connection change in front of the others.\<close>

lemma con_inv_frame:
  assumes c: "con_inv mtu k c g" and n: "\<And>j. j \<in> set news \<Longrightarrow> fst j \<noteq> k"
    and old: "pg_jobs g = js \<or> (\<exists>j. pg_jobs g = j # js \<and> fst j \<noteq> k)"
  shows "con_inv mtu k c (g\<lparr>pg_jobs := news @ js\<rparr>)"
proof -
  let ?g = "g\<lparr>pg_jobs := news @ js\<rparr>"
  have mem: "(k, j) \<in> set (news @ js) \<longleftrightarrow> (k, j) \<in> set (pg_jobs g)" for j
    using n old by (auto dest: n)
  have core: "con_core mtu k c ?g"
  proof -
    obtain q pend r where i: "sp_inv CONNECTION_UDP_BUFFER_SIZE (con_send c) g q pend"
      "con_accepted c = con_sent c @ sp_unsent (con_send c) q pend" "rp_inv (con_recv c) g r"
      and ids: "sp_ids (con_send c) = send_ids k" "rp_ids (con_recv c) = recv_ids k"
      using c by (auto simp: con_inv_def con_core_def)
    have "sp_inv CONNECTION_UDP_BUFFER_SIZE (con_send c) ?g q pend"
      by (rule sp_inv_frame [OF i(1)]) (use mem ids i(1) in \<open>auto simp: send_ids_def sp_inv_def sp_jobs_def\<close>)
    moreover have "rp_inv (con_recv c) ?g r"
      by (rule rp_inv_frame [OF i(3)]) (use mem ids i(3) in \<open>auto simp: recv_ids_def rp_inv_def rp_jobs_def\<close>)
    ultimately show ?thesis using c i(2) unfolding con_inv_def con_core_def by auto
  qed
  have "runs_before (k, J_writer_op) (k, J_first) (news @ js)"
    if "runs_before (k, J_writer_op) (k, J_first) (pg_jobs g)"
    using old that by (auto intro!: runs_before_append dest!: runs_before_pop)
  then have "first_ok mtu k c (news @ js)" using c mem unfolding con_inv_def first_ok_def by auto
  then show ?thesis using c core by (simp add: con_inv_def)
qed

text \<open>Changes of one of the two chains.\<close>

lemma core_put_send:
  assumes c: "con_core mtu k c g" and t: "sp_inv CONNECTION_UDP_BUFFER_SIZE t h q pend" "sp_ids t = sp_ids (con_send c)"
      "pb_input_mtu t = pb_input_mtu (con_send c)" "acc = sent @ sp_unsent t q pend"
    and h: "\<And>j. j \<in> set (recv_ids k) \<Longrightarrow> j \<in> set (pg_jobs h) \<longleftrightarrow> j \<in> set (pg_jobs g)" "pg_objs h = pg_objs g"
  shows "con_core mtu k (c\<lparr>con_send := t, con_accepted := acc, con_sent := sent\<rparr>) h"
proof -
  obtain r where r: "rp_inv (con_recv c) g r" using c by (auto simp: con_core_def)
  have "rp_inv (con_recv c) h r"
    by (rule rp_inv_frame [OF r]) (use h c r in \<open>auto simp: con_core_def rp_inv_def rp_jobs_def\<close>)
  then show ?thesis using c t h(2) unfolding con_core_def by auto
qed

lemma core_put_recv:
  assumes c: "con_core mtu k c g" and t: "rp_inv t h r" "rp_ids t = rp_ids (con_recv c)"
      "pri_mtu (rp_input t) = pri_mtu (rp_input (con_recv c))"
    and h: "\<And>j. j \<in> set (send_ids k) \<Longrightarrow> j \<in> set (pg_jobs h) \<longleftrightarrow> j \<in> set (pg_jobs g)" "pg_objs h = pg_objs g"
  shows "con_core mtu k (c\<lparr>con_recv := t\<rparr>) h"
proof -
  obtain q pend where s: "sp_inv CONNECTION_UDP_BUFFER_SIZE (con_send c) g q pend"
    "con_accepted c = con_sent c @ sp_unsent (con_send c) q pend" using c by (auto simp: con_core_def)
  have "sp_inv CONNECTION_UDP_BUFFER_SIZE (con_send c) h q pend"
    by (rule sp_inv_frame [OF s(1)]) (use h c s(1) in \<open>auto simp: con_core_def sp_inv_def sp_jobs_def\<close>)
  then show ?thesis using c t s(2) h(2) unfolding con_core_def by auto
qed

lemma core_conaddr: "con_core mtu k (c\<lparr>conaddr := a\<rparr>) g = con_core mtu k c g"
  "con_core mtu k (c\<lparr>con_is_dns := b\<rparr>) g = con_core mtu k c g"
  by (simp_all add: con_core_def)

lemma ids_disjoint: "j \<in> set (send_ids k) \<Longrightarrow> j \<notin> set (recv_ids k)" "j \<in> set (recv_ids k) \<Longrightarrow> j \<notin> set (send_ids k)"
  "(k, J_first) \<notin> set (send_ids k)" "(k, J_first) \<notin> set (recv_ids k)"
  by (auto simp: send_ids_def recv_ids_def)

lemma ids_fst: "j \<in> set (send_ids k) \<Longrightarrow> fst j = k" "j \<in> set (recv_ids k) \<Longrightarrow> fst j = k"
  by (auto simp: send_ids_def recv_ids_def)

lemma send_ids_fields:
  assumes "sp_ids p = send_ids k"
  shows "pri_job_operation (sp_input p) = (k, J_writer_op)" "pri_job_done (sp_input p) = (k, J_writer_done)"
    "ppi_job_operation (sp_output p) = (k, J_send_op)" "ppi_job_requestcancel (sp_output p) = (k, J_send_cancel)"
    "ppi_job_done (sp_output p) = (k, J_send_done)"
  using assms by (simp_all add: ids_defs send_ids_def)

lemma recv_ids_fields:
  assumes "rp_ids p = recv_ids k"
  shows "pri_job_operation (rp_input p) = (k, J_recv_op)" "pri_job_done (rp_input p) = (k, J_recv_done)"
    "ppi_job_operation (rp_output p) = (k, J_user_op)" "ppi_job_requestcancel (rp_output p) = (k, J_user_cancel)"
    "ppi_job_done (rp_output p) = (k, J_user_done)"
  using assms by (simp_all add: ids_defs recv_ids_def)

section \<open>Jobs of a connection\<close>

text \<open>What a job does: it goes through, keeps the connection in order, and sets jobs of its connection only.\<close>

definition job_ends :: "nat \<Rightarrow> nat \<Rightarrow> SocksUdpGwClient_connection \<Rightarrow> ug_job BPendingGroup \<Rightarrow> ug_job list \<Rightarrow>
    (SocksUdpGwClient_connection \<times> ug_job BPendingGroup \<times> (BAddr \<times> BAddr \<times> bytes) option) option \<Rightarrow> bool" where
  "job_ends mtu k c g js r \<longleftrightarrow>
     (\<exists>t news out. r = Some (t, g\<lparr>pg_jobs := news @ js\<rparr>, out) \<and> con_inv mtu k t (g\<lparr>pg_jobs := news @ js\<rparr>) \<and>
        distinct (news @ js) \<and> (\<forall>j \<in> set news. fst j = k) \<and>
        local_addr (conaddr t) = local_addr (conaddr c))"

lemma first_absent: "con_inv mtu k c g \<Longrightarrow>
    ppi_state (sp_output (con_send c)) \<noteq> STATE_NONE \<or> ppi_state (rp_output (con_recv c)) \<noteq> STATE_NONE \<or>
    pri_state (rp_input (con_recv c)) = DONE_PENDING \<or> con_accepted c \<noteq> [] \<Longrightarrow> (k, J_first) \<notin> set (pg_jobs g)"
  by (auto simp: con_inv_def first_ok_def)

lemma first_ok_absent: "(k, J_first) \<notin> set js \<Longrightarrow> first_ok mtu k c js"
  by (simp add: first_ok_def)

lemma job_writer_op:
  assumes c: "con_inv mtu k c g" and j: "pg_jobs g = (k, J_writer_op) # js" and d: "distinct (pg_jobs g)"
  shows "job_ends mtu k c g js (con_run_job now x mtu gw J_writer_op c (g\<lparr>pg_jobs := js\<rparr>))"
proof -
  have core: "con_core mtu k c g" using c by (simp add: con_inv_def)
  then obtain q pend where s: "sp_inv CONNECTION_UDP_BUFFER_SIZE (con_send c) g q pend"
    "con_accepted c = con_sent c @ sp_unsent (con_send c) q pend" "sp_ids (con_send c) = send_ids k"
    by (auto simp: con_core_def)
  have "pg_jobs g = pri_job_operation (sp_input (con_send c)) # js" using j send_ids_fields [OF s(3)] by simp
  from sp_recv_operation_ok [OF s(1) this d] obtain t where t: "sp_job_recv_operation (con_send c) = Some t"
    "sp_inv CONNECTION_UDP_BUFFER_SIZE t (g\<lparr>pg_jobs := js\<rparr>) q pend" "sp_ids t = sp_ids (con_send c)"
    "sp_unsent t q pend = sp_unsent (con_send c) q pend" "out_have t" "pb_input_mtu t = pb_input_mtu (con_send c)"
    "sp_output t = sp_output (con_send c)" by blast
  have acc: "con_accepted c = con_sent c @ sp_unsent t q pend" using s(2) t(4) by simp
  have mem: "i \<in> set (pg_jobs (g\<lparr>pg_jobs := js\<rparr>)) \<longleftrightarrow> i \<in> set (pg_jobs g)" if "i \<in> set (recv_ids k)" for i
    using that j by (auto simp: recv_ids_def)
  have "con_core mtu k (c\<lparr>con_send := t\<rparr>) (g\<lparr>pg_jobs := js\<rparr>)"
    using core_put_send [OF core t(2,3,6) acc mem] by simp
  moreover have "first_ok mtu k (c\<lparr>con_send := t\<rparr>) js" using c t j by (auto simp: con_inv_def first_ok_def)
  ultimately have "con_inv mtu k (c\<lparr>con_send := t\<rparr>) (g\<lparr>pg_jobs := js\<rparr>)" using c by (simp add: con_inv_def)
  moreover have "con_run_job now x mtu gw J_writer_op c (g\<lparr>pg_jobs := js\<rparr>) = Some (c\<lparr>con_send := t\<rparr>, g\<lparr>pg_jobs := js\<rparr>, None)"
    using t(1) by (simp add: con_run_job_def put_send_def)
  ultimately show ?thesis using d j unfolding job_ends_def
    by (intro exI [of _ "c\<lparr>con_send := t\<rparr>"] exI [of _ "[]"] exI [of _ None]) simp
qed


lemma first_writer:
  assumes "con_inv mtu k c g" "(k, J_first) \<in> set (pg_jobs g)"
  shows "pri_state (sp_input (con_send c)) = OPERATION_PENDING \<or> pri_state (sp_input (con_send c)) = BUSY"
proof -
  obtain q pend where s: "sp_inv CONNECTION_UDP_BUFFER_SIZE (con_send c) g q pend" "sp_ids (con_send c) = send_ids k"
    using assms(1) by (auto simp: con_inv_def con_core_def)
  consider "out_have (con_send c)" | "(k, J_writer_op) \<in> set (pg_jobs g)"
    using assms by (auto simp: con_inv_def first_ok_def runs_before_def)
  then show ?thesis
  proof cases
    case 1
    then show ?thesis using s(1) by (auto simp: sp_inv_def sp_input_ok_def split: if_state.splits)
  next
    case 2
    then show ?thesis using s(1) send_ids_fields [OF s(2)] by (simp add: sp_inv_def sp_jobs_def pri_jobs_def)
  qed
qed

text \<open>A job of the sending chain, after the first packet was sent.\<close>

lemma send_job_ends:
  assumes c: "con_inv mtu k c g" and j: "pg_jobs g = i # js" "i \<in> set (send_ids k)" and d: "distinct (pg_jobs g)"
    and f: "(k, J_first) \<notin> set (pg_jobs g)"
    and e: "sp_ends CONNECTION_UDP_BUFFER_SIZE (con_send c) (g\<lparr>pg_jobs := js\<rparr>) q pend unsent r"
    and acc: "con_accepted c = con_sent c @ unsent"
  shows "job_ends mtu k c g js (map_option (\<lambda>(c, g). (c, g, None)) (put_send c r))"
proof -
  have core: "con_core mtu k c g" using c by (simp add: con_inv_def)
  obtain t news where t: "r = Some (t, g\<lparr>pg_jobs := news @ js\<rparr>)"
    "sp_inv CONNECTION_UDP_BUFFER_SIZE t (g\<lparr>pg_jobs := news @ js\<rparr>) q pend" "sp_ids t = sp_ids (con_send c)"
    "pb_input_mtu t = pb_input_mtu (con_send c)" "distinct news" "set news \<subseteq> set (sp_ids (con_send c)) - set js"
    "sp_unsent t q pend = unsent" using e by (auto simp: sp_ends_def)
  have ids: "set news \<subseteq> set (send_ids k)" using t(6) core by (auto simp: con_core_def)
  have acc': "con_accepted c = con_sent c @ sp_unsent t q pend" using acc t(7) by simp
  have mem: "x \<in> set (pg_jobs (g\<lparr>pg_jobs := news @ js\<rparr>)) \<longleftrightarrow> x \<in> set (pg_jobs g)" if "x \<in> set (recv_ids k)" for x
  proof -
    have "x \<notin> set news" "x \<noteq> i" using ids_disjoint(2) [OF that] ids j(2) by blast+
    then show ?thesis using j(1) by simp
  qed
  have "con_core mtu k (c\<lparr>con_send := t\<rparr>) (g\<lparr>pg_jobs := news @ js\<rparr>)"
    using core_put_send [OF core t(2,3,4) acc' mem] by simp
  moreover have "(k, J_first) \<notin> set (news @ js)" using f j ids ids_disjoint(3) by auto
  ultimately have "con_inv mtu k (c\<lparr>con_send := t\<rparr>) (g\<lparr>pg_jobs := news @ js\<rparr>)"
    using c by (simp add: con_inv_def first_ok_absent)
  moreover have "distinct (news @ js)" using t(5,6) d j by auto
  ultimately show ?thesis using t(1) ids ids_fst unfolding job_ends_def put_send_def
    by (intro exI [of _ "c\<lparr>con_send := t\<rparr>"] exI [of _ news] exI [of _ None]) auto
qed

lemma job_writer_done:
  assumes c: "con_inv mtu k c g" and j: "pg_jobs g = (k, J_writer_done) # js" and d: "distinct (pg_jobs g)"
  shows "job_ends mtu k c g js (con_run_job now x mtu gw J_writer_done c (g\<lparr>pg_jobs := js\<rparr>))"
proof -
  obtain q pend where s: "sp_inv CONNECTION_UDP_BUFFER_SIZE (con_send c) g q pend"
    "con_accepted c = con_sent c @ sp_unsent (con_send c) q pend" "sp_ids (con_send c) = send_ids k"
    using c by (auto simp: con_inv_def con_core_def)
  have jj: "pg_jobs g = pri_job_done (sp_input (con_send c)) # js" using j send_ids_fields [OF s(3)] by simp
  then have "pri_state (sp_input (con_send c)) = DONE_PENDING" using s(1) by (simp add: sp_inv_def sp_jobs_def pri_jobs_def)
  then have f: "(k, J_first) \<notin> set (pg_jobs g)" using first_writer [OF c] by auto
  have i: "(k, J_writer_done) \<in> set (send_ids k)" by (simp add: send_ids_def)
  from sp_recv_done_ok [OF s(1) jj d] send_job_ends [OF c j i d f _ s(2)]
  show ?thesis by (auto simp: con_run_job_def)
qed

lemma job_send_done:
  assumes c: "con_inv mtu k c g" and j: "pg_jobs g = (k, J_send_done) # js" and d: "distinct (pg_jobs g)"
  shows "job_ends mtu k c g js (con_run_job now x mtu gw J_send_done c (g\<lparr>pg_jobs := js\<rparr>))"
proof -
  obtain q pend where s: "sp_inv CONNECTION_UDP_BUFFER_SIZE (con_send c) g q pend"
    "con_accepted c = con_sent c @ sp_unsent (con_send c) q pend" "sp_ids (con_send c) = send_ids k"
    using c by (auto simp: con_inv_def con_core_def)
  have jj: "pg_jobs g = ppi_job_done (sp_output (con_send c)) # js" using j send_ids_fields [OF s(3)] by simp
  then have "ppi_state (sp_output (con_send c)) = DONE_PENDING" using s(1) by (simp add: sp_inv_def sp_jobs_def ppi_jobs_def)
  then have f: "(k, J_first) \<notin> set (pg_jobs g)" using first_absent [OF c] by auto
  have i: "(k, J_send_done) \<in> set (send_ids k)" by (simp add: send_ids_def)
  from sp_send_done_ok [OF s(1) jj d] send_job_ends [OF c j i d f _ s(2)]
  show ?thesis by (auto simp: con_run_job_def)
qed

text \<open>The socket reports that the packet is sent.\<close>

lemma dgram_sent_ok:
  assumes c: "con_core mtu k c g" and b: "ppi_state (sp_output (con_send c)) = BUSY"
  shows "\<exists>t. dgram_sent c g = Some (t, g\<lparr>pg_jobs := (k, J_send_done) # pg_jobs g\<rparr>) \<and>
    con_core mtu k t (g\<lparr>pg_jobs := (k, J_send_done) # pg_jobs g\<rparr>) \<and> conaddr t = conaddr c \<and>
    (k, J_send_done) \<notin> set (pg_jobs g)"
proof -
  let ?p = "con_send c" and ?g = "g\<lparr>pg_jobs := (k, J_send_done) # pg_jobs g\<rparr>"
  obtain q pend where s: "sp_inv CONNECTION_UDP_BUFFER_SIZE ?p g q pend"
    "con_accepted c = con_sent c @ sp_unsent ?p q pend" "sp_ids ?p = send_ids k"
    using c by (auto simp: con_core_def)
  note ids = send_ids_fields [OF s(3)]
  from sp_sent_ok [OF s(1) b] obtain t where t: "sp_sent ?p g = Some (t, ?g)" "sp_inv CONNECTION_UDP_BUFFER_SIZE t ?g q pend"
    "sp_ids t = sp_ids ?p" "sp_unsent ?p q pend = hd q # sp_unsent t q pend" "q \<noteq> []" "pb_input_mtu t = pb_input_mtu ?p"
    using ids by auto
  have "cb_holds (pb_buf ?p) q" using s(1) by (simp add: sp_inv_def ring_def)
  then have x: "mem_read (ppi_data (sp_output ?p)) (ppi_len (sp_output ?p)) (cb_mem (pb_buf ?p)) = hd q"
    using s(1) t(5) holds_output(2) by (cases q) (auto simp: sp_inv_def sp_output_ok_def)
  have acc: "con_accepted c = (con_sent c @ [hd q]) @ sp_unsent t q pend" using s(2) t(4) by simp
  have mem: "i \<in> set (pg_jobs ?g) \<longleftrightarrow> i \<in> set (pg_jobs g)" if "i \<in> set (recv_ids k)" for i
    using that by (auto simp: recv_ids_def)
  have "con_core mtu k (c\<lparr>con_send := t, con_sent := con_sent c @ [hd q]\<rparr>) ?g"
    using core_put_send [OF c t(2,3,6) acc mem] by simp
  moreover have "(k, J_send_done) \<notin> set (pg_jobs g)"
    using s(1) b ids by (simp add: sp_inv_def sp_jobs_def ppi_jobs_def)
  ultimately show ?thesis using t(1) x by (simp add: dgram_sent_def)
qed

lemma job_send_op:
  assumes c: "con_inv mtu k c g" and j: "pg_jobs g = (k, J_send_op) # js" and d: "distinct (pg_jobs g)"
  shows "job_ends mtu k c g js (con_run_job now x mtu gw J_send_op c (g\<lparr>pg_jobs := js\<rparr>))"
proof -
  let ?g = "g\<lparr>pg_jobs := js\<rparr>"
  have core: "con_core mtu k c g" using c by (simp add: con_inv_def)
  then obtain q pend where s: "sp_inv CONNECTION_UDP_BUFFER_SIZE (con_send c) g q pend"
    "con_accepted c = con_sent c @ sp_unsent (con_send c) q pend" "sp_ids (con_send c) = send_ids k"
    by (auto simp: con_core_def)
  have jj: "pg_jobs g = ppi_job_operation (sp_output (con_send c)) # js" using j send_ids_fields [OF s(3)] by simp
  then have "ppi_state (sp_output (con_send c)) = OPERATION_PENDING"
    using s(1) by (simp add: sp_inv_def sp_jobs_def ppi_jobs_def)
  then have f: "(k, J_first) \<notin> set js" using first_absent [OF c] j by auto
  from sp_send_operation_ok [OF s(1) jj d] obtain t y where t: "sp_job_send_operation (con_send c) = Some (y, t)"
    "sp_inv CONNECTION_UDP_BUFFER_SIZE t ?g q pend" "sp_ids t = sp_ids (con_send c)"
    "sp_unsent t q pend = sp_unsent (con_send c) q pend" "ppi_state (sp_output t) = BUSY"
    "pb_input_mtu t = pb_input_mtu (con_send c)" by blast
  have acc: "con_accepted c = con_sent c @ sp_unsent t q pend" using s(2) t(4) by simp
  have mem: "i \<in> set (pg_jobs ?g) \<longleftrightarrow> i \<in> set (pg_jobs g)" if "i \<in> set (recv_ids k)" for i
    using that j by (auto simp: recv_ids_def)
  have cc: "con_core mtu k (c\<lparr>con_send := t\<rparr>) ?g" using core_put_send [OF core t(2,3,6) acc mem] by simp
  show ?thesis
  proof (cases now)
    case True
    from dgram_sent_ok [OF cc] obtain u where u: "dgram_sent (c\<lparr>con_send := t\<rparr>) ?g = Some (u, g\<lparr>pg_jobs := (k, J_send_done) # js\<rparr>)"
      "con_core mtu k u (g\<lparr>pg_jobs := (k, J_send_done) # js\<rparr>)" "conaddr u = conaddr c" "(k, J_send_done) \<notin> set js"
      using t(5) by auto
    have "con_inv mtu k u (g\<lparr>pg_jobs := (k, J_send_done) # js\<rparr>)"
      using u c f by (simp add: con_inv_def first_ok_absent)
    then show ?thesis using t(1) u d j True unfolding job_ends_def con_run_job_def
      by (intro exI [of _ u] exI [of _ "[(k, J_send_done)]"] exI [of _ None]) simp
  next
    case False
    have "con_inv mtu k (c\<lparr>con_send := t\<rparr>) ?g" using cc c f by (simp add: con_inv_def first_ok_absent)
    then show ?thesis using t(1) d j False unfolding job_ends_def con_run_job_def
      by (intro exI [of _ "c\<lparr>con_send := t\<rparr>"] exI [of _ "[]"] exI [of _ None]) simp
  qed
qed

lemma connection_send_ok:
  assumes c: "con_core mtu k c g" and h: "header_fits mtu (remote_addr (conaddr c)) (con_is_dns c) data"
    and o1: "out_have (con_send c)"
  defines "m \<equiv> udp_message (con_is_dns c) (remote_addr (conaddr c)) data"
  shows "\<exists>t. connection_send data c g = Some (False, t, g\<lparr>pg_jobs := (k, J_writer_done) # pg_jobs g\<rparr>) \<and>
    con_core mtu k t (g\<lparr>pg_jobs := (k, J_writer_done) # pg_jobs g\<rparr>) \<and> conaddr t = conaddr c \<and>
    con_accepted t = con_accepted c @ [m] \<and> (k, J_writer_done) \<notin> set (pg_jobs g) \<and>
    dgram_dest t = dgram_dest c \<and> con_is_dns t = con_is_dns c \<and> con_sent t = con_sent c"
proof -
  let ?p = "con_send c" and ?g = "g\<lparr>pg_jobs := (k, J_writer_done) # pg_jobs g\<rparr>"
  obtain q pend where s: "sp_inv CONNECTION_UDP_BUFFER_SIZE ?p g q pend"
    "con_accepted c = con_sent c @ sp_unsent ?p q pend" "sp_ids ?p = send_ids k" "pb_input_mtu ?p = mtu"
    using c by (auto simp: con_core_def)
  note ids = send_ids_fields [OF s(3)]
  have len: "length m \<le> pb_input_mtu ?p" using h s(4) by (simp add: header_fits_def m_def)
  from sp_write_ok [OF s(1) o1 len] obtain p1 p2 t where t: "BufferWriter_StartPacket ?p = Some (True, p1)"
    "write_out m p1 = Some p2" "BufferWriter_EndPacket (length m) p2 g = Some (t, ?g)"
    "sp_inv CONNECTION_UDP_BUFFER_SIZE t ?g q (Some m)" "sp_ids t = sp_ids ?p" "pb_input_mtu t = pb_input_mtu ?p"
    "sp_unsent t q (Some m) = sp_unsent ?p q pend @ [m]" using ids by auto
  have acc: "con_accepted c @ [m] = con_sent c @ sp_unsent t q (Some m)" using s(2) t(7) by simp
  have mem: "i \<in> set (pg_jobs ?g) \<longleftrightarrow> i \<in> set (pg_jobs g)" if "i \<in> set (recv_ids k)" for i
    using that by (auto simp: recv_ids_def)
  have "con_core mtu k (c\<lparr>con_send := t, con_accepted := con_accepted c @ [m]\<rparr>) ?g"
    using core_put_send [OF c t(4,5,6) acc mem] by simp
  moreover have "pri_state (sp_input ?p) = BUSY" using s(1) o1 by (auto simp: sp_inv_def sp_input_ok_def split: if_state.splits)
  then have "(k, J_writer_done) \<notin> set (pg_jobs g)"
    using s(1) ids by (simp add: sp_inv_def sp_jobs_def pri_jobs_def)
  ultimately show ?thesis using t(1-3) by (simp add: connection_send_def flip: m_def)
qed

lemma connection_send_full:
  assumes "con_core mtu k c g" "\<not> out_have (con_send c)"
  shows "connection_send data c g = Some (True, c, g)"
proof -
  have "\<not> d_writing (con_send c)" using assms(1) by (auto simp: con_core_def sp_inv_def sp_input_ok_def)
  then show ?thesis using assms(2) by (simp add: connection_send_def BufferWriter_StartPacket_def)
qed

text \<open>When the job of the first packet runs, the writer has its place.\<close>

lemma first_send_ok:
  assumes c: "con_inv mtu k c g" and j: "pg_jobs g = (k, J_first) # js" and d: "distinct (pg_jobs g)"
  shows "\<exists>t. connection_send (first_data c) c (g\<lparr>pg_jobs := js\<rparr>) =
      Some (False, t, g\<lparr>pg_jobs := (k, J_writer_done) # js\<rparr>) \<and>
    con_core mtu k t (g\<lparr>pg_jobs := (k, J_writer_done) # js\<rparr>) \<and> conaddr t = conaddr c \<and> (k, J_writer_done) \<notin> set js \<and>
    con_accepted t = [udp_message (con_is_dns c) (remote_addr (conaddr c)) (first_data c)]"
proof -
  let ?g = "g\<lparr>pg_jobs := js\<rparr>"
  have f: "header_fits mtu (remote_addr (conaddr c)) (con_is_dns c) (first_data c)" "con_accepted c = []"
    "out_have (con_send c) \<or> runs_before (k, J_writer_op) (k, J_first) (pg_jobs g)"
    using c j by (auto simp: con_inv_def first_ok_def)
  have o1: "out_have (con_send c)" using f(3) runs_before_not_head d j by metis
  have core: "con_core mtu k c g" using c by (simp add: con_inv_def)
  have "con_core mtu k c ?g"
  proof -
    obtain q pend r where s: "sp_inv CONNECTION_UDP_BUFFER_SIZE (con_send c) g q pend" "rp_inv (con_recv c) g r"
      "con_accepted c = con_sent c @ sp_unsent (con_send c) q pend"
      "sp_ids (con_send c) = send_ids k" "rp_ids (con_recv c) = recv_ids k" using core by (auto simp: con_core_def)
    have "sp_inv CONNECTION_UDP_BUFFER_SIZE (con_send c) ?g q pend"
      by (rule sp_inv_frame [OF s(1)]) (use j s(1,4) in \<open>auto simp: send_ids_def sp_inv_def sp_jobs_def\<close>)
    moreover have "rp_inv (con_recv c) ?g r"
      by (rule rp_inv_frame [OF s(2)]) (use j s(2,5) in \<open>auto simp: recv_ids_def rp_inv_def rp_jobs_def\<close>)
    ultimately show ?thesis using core s(3) unfolding con_core_def by auto
  qed
  from connection_send_ok [OF this f(1) o1] f(2) show ?thesis by auto
qed

lemma job_first:
  assumes c: "con_inv mtu k c g" and j: "pg_jobs g = (k, J_first) # js" and d: "distinct (pg_jobs g)"
  shows "job_ends mtu k c g js (con_run_job now x mtu gw J_first c (g\<lparr>pg_jobs := js\<rparr>))"
proof -
  obtain t where t: "connection_send (first_data c) c (g\<lparr>pg_jobs := js\<rparr>) = Some (False, t, g\<lparr>pg_jobs := (k, J_writer_done) # js\<rparr>)"
    "con_core mtu k t (g\<lparr>pg_jobs := (k, J_writer_done) # js\<rparr>)" "conaddr t = conaddr c" "(k, J_writer_done) \<notin> set js"
    using first_send_ok [OF assms] by blast
  have "(k, J_first) \<notin> set js" using d j by simp
  then have "con_inv mtu k t (g\<lparr>pg_jobs := (k, J_writer_done) # js\<rparr>)"
    using t c by (simp add: con_inv_def first_ok_absent)
  then show ?thesis
    using t d j unfolding job_ends_def con_run_job_def connection_first_job_handler_def
    by (intro exI [of _ t] exI [of _ "[(k, J_writer_done)]"] exI [of _ None]) simp
qed

text \<open>Jobs of the receiving chain.\<close>

lemma recv_put:
  assumes c: "con_inv mtu k c g" and j: "pg_jobs g = js \<or> (\<exists>i \<in> set (recv_ids k). pg_jobs g = i # js)"
    and t: "rp_inv t (g\<lparr>pg_jobs := news @ js\<rparr>) r" "rp_ids t = rp_ids (con_recv c)"
      "pri_mtu (rp_input t) = pri_mtu (rp_input (con_recv c))"
    and n: "set news \<subseteq> set (recv_ids k)"
  shows "con_core mtu k (c\<lparr>con_recv := t\<rparr>) (g\<lparr>pg_jobs := news @ js\<rparr>)"
proof -
  have core: "con_core mtu k c g" using c by (simp add: con_inv_def)
  have mem: "x \<in> set (pg_jobs (g\<lparr>pg_jobs := news @ js\<rparr>)) \<longleftrightarrow> x \<in> set (pg_jobs g)" if "x \<in> set (send_ids k)" for x
  proof -
    have "x \<notin> set news" "x \<notin> set (recv_ids k)" using ids_disjoint(1) [OF that] n by blast+
    then show ?thesis using j by auto
  qed
  show ?thesis by (rule core_put_recv [OF core t mem]) simp_all
qed

lemma recv_inv_obtain:
  assumes "con_inv mtu k c g"
  obtains r where "rp_inv (con_recv c) g r" and "rp_ids (con_recv c) = recv_ids k"
    and "pri_mtu (rp_input (con_recv c)) = mtu" and "rp_jobs (con_recv c) g"
proof -
  obtain r where r: "rp_inv (con_recv c) g r" using assms by (auto simp: con_inv_def con_core_def)
  moreover have "rp_jobs (con_recv c) g" using r by (simp add: rp_inv_def)
  ultimately show ?thesis using that assms by (simp add: con_inv_def con_core_def)
qed

lemma dgram_received_ok:
  assumes c: "con_inv mtu k c g" and b: "pri_state (rp_input (con_recv c)) = BUSY" and x: "length x \<le> mtu"
    and a: "con_sent c \<noteq> []"
  shows "\<exists>t. dgram_received x c g = Some (t, g\<lparr>pg_jobs := (k, J_recv_done) # pg_jobs g\<rparr>) \<and>
    con_inv mtu k t (g\<lparr>pg_jobs := (k, J_recv_done) # pg_jobs g\<rparr>) \<and> conaddr t = conaddr c \<and>
    (k, J_recv_done) \<notin> set (pg_jobs g)"
proof -
  obtain r where r: "rp_inv (con_recv c) g r" "rp_ids (con_recv c) = recv_ids k"
    "pri_mtu (rp_input (con_recv c)) = mtu" using recv_inv_obtain [OF c] by blast
  from rp_received_ok [OF r(1) b, of x] obtain t where t: "rp_received x (con_recv c) g =
      Some (t, g\<lparr>pg_jobs := (k, J_recv_done) # pg_jobs g\<rparr>)"
    "rp_inv t (g\<lparr>pg_jobs := (k, J_recv_done) # pg_jobs g\<rparr>) (Some x)" "rp_ids t = rp_ids (con_recv c)"
    "(k, J_recv_done) \<notin> set (pg_jobs g)" "pri_mtu (rp_input t) = pri_mtu (rp_input (con_recv c))"
    using x r(3) recv_ids_fields [OF r(2)] by auto
  have "con_core mtu k (c\<lparr>con_recv := t\<rparr>) (g\<lparr>pg_jobs := [(k, J_recv_done)] @ pg_jobs g\<rparr>)"
    by (rule recv_put [OF c _ _ t(3,5)]) (use t(2) in \<open>auto simp: recv_ids_def\<close>)
  moreover have "(k, J_first) \<notin> set (pg_jobs g)"
  proof -
    have "con_accepted c \<noteq> []" using c a by (auto simp: con_inv_def con_core_def)
    then show ?thesis using first_absent [OF c] by blast
  qed
  ultimately have "con_inv mtu k (c\<lparr>con_recv := t\<rparr>) (g\<lparr>pg_jobs := (k, J_recv_done) # pg_jobs g\<rparr>)"
    using c by (simp add: con_inv_def first_ok_absent)
  then show ?thesis using t(1,4) by (simp add: dgram_received_def)
qed

lemma job_recv_op:
  assumes c: "con_inv mtu k c g" and j: "pg_jobs g = (k, J_recv_op) # js" and d: "distinct (pg_jobs g)"
    and x: "\<And>y. x = Some y \<Longrightarrow> length y \<le> mtu \<and> con_sent c \<noteq> []"
  shows "job_ends mtu k c g js (con_run_job now x mtu gw J_recv_op c (g\<lparr>pg_jobs := js\<rparr>))"
proof -
  let ?g = "g\<lparr>pg_jobs := js\<rparr>"
  obtain r where r: "rp_inv (con_recv c) g r" "rp_ids (con_recv c) = recv_ids k" using recv_inv_obtain [OF c] by blast
  have jj: "pg_jobs g = pri_job_operation (rp_input (con_recv c)) # js" using j recv_ids_fields [OF r(2)] by simp
  from rp_recv_operation_ok [OF r(1) jj d] obtain t where t: "rp_job_recv_operation (con_recv c) = Some t"
    "rp_inv t ?g r" "rp_ids t = rp_ids (con_recv c)" "pri_state (rp_input t) = BUSY" "rp_output t = rp_output (con_recv c)"
    "pri_mtu (rp_input t) = pri_mtu (rp_input (con_recv c))" by blast
  have "con_core mtu k (c\<lparr>con_recv := t\<rparr>) (g\<lparr>pg_jobs := [] @ js\<rparr>)"
    by (rule recv_put [OF c _ _ t(3,6)]) (use t(2) j in \<open>auto simp: recv_ids_def\<close>)
  moreover have "first_ok mtu k (c\<lparr>con_recv := t\<rparr>) js"
    using c t(4,5) j unfolding con_inv_def first_ok_def by (auto dest: runs_before_pop)
  ultimately have ci: "con_inv mtu k (c\<lparr>con_recv := t\<rparr>) ?g" using c by (simp add: con_inv_def)
  show ?thesis
  proof (cases x)
    case None
    then show ?thesis using ci t(1) d j unfolding job_ends_def con_run_job_def
      by (intro exI [of _ "c\<lparr>con_recv := t\<rparr>"] exI [of _ "[]"] exI [of _ None]) simp
  next
    case (Some y)
    from dgram_received_ok [OF ci, of y] obtain u where u: "dgram_received y (c\<lparr>con_recv := t\<rparr>) ?g =
        Some (u, g\<lparr>pg_jobs := (k, J_recv_done) # js\<rparr>)" "con_inv mtu k u (g\<lparr>pg_jobs := (k, J_recv_done) # js\<rparr>)"
      "conaddr u = conaddr c" "(k, J_recv_done) \<notin> set js" using t(4) x [OF Some] by auto
    then show ?thesis using t(1) d j Some unfolding job_ends_def con_run_job_def
      by (intro exI [of _ u] exI [of _ "[(k, J_recv_done)]"] exI [of _ None]) simp
  qed
qed

text \<open>A quiet job of the receiving chain that sets one job.\<close>

lemma recv_job_ends:
  assumes c: "con_inv mtu k c g" and j: "pg_jobs g = i # js" "i \<in> set (recv_ids k)" and d: "distinct (pg_jobs g)"
    and f: "(k, J_first) \<notin> set (pg_jobs g)" and n: "n \<in> set (recv_ids k)"
    and t: "\<exists>t. r = Some (t, g\<lparr>pg_jobs := n # js\<rparr>) \<and> rp_inv t (g\<lparr>pg_jobs := n # js\<rparr>) pend \<and>
      rp_ids t = rp_ids (con_recv c) \<and> n \<notin> set js \<and> pri_mtu (rp_input t) = pri_mtu (rp_input (con_recv c))"
  shows "job_ends mtu k c g js (map_option (\<lambda>(c, g). (c, g, None)) (put_recv c r))"
proof -
  from t obtain t where t: "r = Some (t, g\<lparr>pg_jobs := n # js\<rparr>)" "rp_inv t (g\<lparr>pg_jobs := n # js\<rparr>) pend"
    "rp_ids t = rp_ids (con_recv c)" "n \<notin> set js" "pri_mtu (rp_input t) = pri_mtu (rp_input (con_recv c))" by blast
  have "con_core mtu k (c\<lparr>con_recv := t\<rparr>) (g\<lparr>pg_jobs := [n] @ js\<rparr>)"
    by (rule recv_put [OF c _ _ t(3,5)]) (use t(2) j n in auto)
  moreover have "(k, J_first) \<notin> set ([n] @ js)" using f j n ids_disjoint(4) by auto
  ultimately have "con_inv mtu k (c\<lparr>con_recv := t\<rparr>) (g\<lparr>pg_jobs := [n] @ js\<rparr>)"
    using c by (simp add: con_inv_def first_ok_absent)
  then show ?thesis using t(1,4) d j n ids_fst(2) unfolding job_ends_def put_recv_def
    by (intro exI [of _ "c\<lparr>con_recv := t\<rparr>"] exI [of _ "[n]"] exI [of _ None]) simp
qed

lemma job_recv_done:
  assumes c: "con_inv mtu k c g" and j: "pg_jobs g = (k, J_recv_done) # js" and d: "distinct (pg_jobs g)"
  shows "job_ends mtu k c g js (con_run_job now x mtu gw J_recv_done c (g\<lparr>pg_jobs := js\<rparr>))"
proof -
  obtain r where r: "rp_inv (con_recv c) g r" "rp_ids (con_recv c) = recv_ids k" "rp_jobs (con_recv c) g"
    using recv_inv_obtain [OF c] by blast
  have jj: "pg_jobs g = pri_job_done (rp_input (con_recv c)) # js" using j recv_ids_fields [OF r(2)] by simp
  then have "pri_state (rp_input (con_recv c)) = DONE_PENDING" using rp_jobs_states [OF r(3)] by simp
  then have f: "(k, J_first) \<notin> set (pg_jobs g)" using first_absent [OF c] by blast
  have i: "(k, J_recv_done) \<in> set (recv_ids k)" "(k, J_user_op) \<in> set (recv_ids k)" by (simp_all add: recv_ids_def)
  show ?thesis
    using recv_job_ends [OF c j i(1) d f i(2)] rp_recv_done_ok [OF r(1) jj d] recv_ids_fields [OF r(2)]
    by (simp add: con_run_job_def)
qed

lemma job_user_done:
  assumes c: "con_inv mtu k c g" and j: "pg_jobs g = (k, J_user_done) # js" and d: "distinct (pg_jobs g)"
  shows "job_ends mtu k c g js (con_run_job now x mtu gw J_user_done c (g\<lparr>pg_jobs := js\<rparr>))"
proof -
  obtain r where r: "rp_inv (con_recv c) g r" "rp_ids (con_recv c) = recv_ids k" "rp_jobs (con_recv c) g"
    using recv_inv_obtain [OF c] by blast
  have jj: "pg_jobs g = ppi_job_done (rp_output (con_recv c)) # js" using j recv_ids_fields [OF r(2)] by simp
  then have "ppi_state (rp_output (con_recv c)) = DONE_PENDING" using rp_jobs_states [OF r(3)] by simp
  then have f: "(k, J_first) \<notin> set (pg_jobs g)" using first_absent [OF c] by auto
  have i: "(k, J_user_done) \<in> set (recv_ids k)" "(k, J_recv_op) \<in> set (recv_ids k)" by (simp_all add: recv_ids_def)
  show ?thesis
    using recv_job_ends [OF c j i(1) d f i(2)] rp_send_done_ok [OF r(1) jj d] recv_ids_fields [OF r(2)]
    by (simp add: con_run_job_def)
qed

lemma job_user_op:
  assumes c: "con_inv mtu k c g" and j: "pg_jobs g = (k, J_user_op) # js" and d: "distinct (pg_jobs g)"
    and gw: "int mtu \<le> gw"
  shows "job_ends mtu k c g js (con_run_job now x mtu gw J_user_op c (g\<lparr>pg_jobs := js\<rparr>))"
proof -
  let ?g = "g\<lparr>pg_jobs := (k, J_user_done) # js\<rparr>"
  obtain r where r: "rp_inv (con_recv c) g r" "rp_ids (con_recv c) = recv_ids k" "rp_jobs (con_recv c) g"
    "pri_mtu (rp_input (con_recv c)) = mtu" using recv_inv_obtain [OF c] by blast
  have jj: "pg_jobs g = ppi_job_operation (rp_output (con_recv c)) # js" using j recv_ids_fields [OF r(2)] by simp
  then have "ppi_state (rp_output (con_recv c)) = OPERATION_PENDING" using rp_jobs_states [OF r(3)] by simp
  then have f: "(k, J_first) \<notin> set (pg_jobs g)" using first_absent [OF c] by auto
  from rp_accept_ok [OF r(1) jj d] obtain y p1 t where t: "length y \<le> mtu" "rp_job_send_operation (con_recv c) = Some (y, p1)"
    "rp_accept p1 (g\<lparr>pg_jobs := js\<rparr>) = Some (t, ?g)" "rp_inv t ?g None" "rp_ids t = rp_ids (con_recv c)"
    "(k, J_user_done) \<notin> set js" "pri_mtu (rp_input t) = pri_mtu (rp_input (con_recv c))"
    using recv_ids_fields [OF r(2)] r(4) by auto
  have core: "con_core mtu k (c\<lparr>con_recv := t\<rparr>) (g\<lparr>pg_jobs := [(k, J_user_done)] @ js\<rparr>)"
    by (rule recv_put [OF c _ _ t(5,7)]) (use t(4) j in \<open>auto simp: recv_ids_def\<close>)
  have ci: "con_inv mtu k (c\<lparr>con_recv := t, conaddr := (conaddr c)\<lparr>remote_addr := a\<rparr>\<rparr>) ?g"
    "con_inv mtu k (c\<lparr>con_recv := t\<rparr>) ?g" for a
    using core c f j by (auto simp: con_inv_def core_conaddr first_ok_absent)
  have len: "int (length y) \<le> gw" using t(1) gw by simp
  show ?thesis using t(2,3,6) ci d j len unfolding job_ends_def con_run_job_def dgram_handler_received_def Let_def
    by (cases "if con_is_dns c then Some (remote_addr (conaddr c), y) else parse_udp_reply y")
      (auto intro!: exI [of _ "[(k, J_user_done)]"])
qed

lemma con_run_job_ok:
  assumes c: "con_inv mtu k c g" and j: "pg_jobs g = (k, i) # js" and d: "distinct (pg_jobs g)"
    and x: "\<And>y. x = Some y \<Longrightarrow> length y \<le> mtu \<and> con_sent c \<noteq> []" and gw: "int mtu \<le> gw"
  shows "job_ends mtu k c g js (con_run_job now x mtu gw i c (g\<lparr>pg_jobs := js\<rparr>))"
proof (cases i)
  case J_send_cancel
  obtain q pend where s: "sp_inv CONNECTION_UDP_BUFFER_SIZE (con_send c) g q pend" "sp_ids (con_send c) = send_ids k"
    using c by (auto simp: con_inv_def con_core_def)
  then show ?thesis using j J_send_cancel send_ids_fields [OF s(2)]
    by (auto simp: sp_inv_def sp_jobs_def ppi_jobs_def sp_output_ok_def)
next
  case J_user_cancel
  obtain r where r: "rp_inv (con_recv c) g r" "rp_ids (con_recv c) = recv_ids k" using recv_inv_obtain [OF c] by blast
  then show ?thesis using j J_user_cancel recv_ids_fields [OF r(2)]
    by (auto simp: rp_inv_def rp_jobs_def ppi_jobs_def)
qed (use job_first [OF c] job_send_op [OF c] job_send_done [OF c] job_recv_op [OF c] job_recv_done [OF c]
      job_writer_op [OF c] job_writer_done [OF c] job_user_op [OF c] job_user_done [OF c] j d x gw in auto)

end
