(* ===== verification/SocksUdpGw_Relay.thy ===== *)
theory SocksUdpGw_Relay
  imports SocksUdpGw_Inv
begin

text \<open>
  The UDP relay as a state machine: the invariant of the whole client, its preservation by every event, and
  the properties of \<open>tun2socks/SocksUdpGwClient.c\<close> that follow.
\<close>

section \<open>The invariant of the client\<close>

text \<open>List, tree and heap agree, and no two connections have the same local address.\<close>

definition ug_table :: "SocksUdpGwClient \<Rightarrow> bool" where
  "ug_table s \<longleftrightarrow>
     distinct (connections_list s) \<and> set (connections_list s) = dom (ug_heap s) \<and>
     distinct (connections_tree s) \<and> set (connections_tree s) = dom (ug_heap s) \<and>
     num_connections s = int (length (connections_list s)) \<and> num_connections s \<le> max_connections s \<and>
     0 < max_connections s \<and>
     (\<forall>k k' c c'. ug_heap s k = Some c \<longrightarrow> ug_heap s k' = Some c' \<longrightarrow>
        local_addr (conaddr c) = local_addr (conaddr c') \<longrightarrow> k = k')"

definition ug_jobs :: "SocksUdpGwClient \<Rightarrow> bool" where
  "ug_jobs s \<longleftrightarrow>
     pending_wf (ug_group s) \<and> (\<forall>j \<in> set (pg_jobs (ug_group s)). fst j \<in> dom (ug_heap s)) \<and>
     (\<forall>j \<in> pg_objs (ug_group s). fst j < ug_next s)"

definition ug_inv :: "SocksUdpGwClient \<Rightarrow> bool" where
  "ug_inv s \<longleftrightarrow>
     ug_table s \<and> ug_jobs s \<and> ug_udp_mtu s \<le> 65535 \<and> udpgw_mtu s = int (ug_udp_mtu s) + 22 \<and>
     (\<forall>k c. ug_heap s k = Some c \<longrightarrow> con_inv (ug_udp_mtu s) k c (ug_group s))"

section \<open>Changing one connection\<close>

lemma set_con_simps [simp]:
  "ug_heap (set_con k c g s) = (ug_heap s)(k := Some c)" "ug_group (set_con k c g s) = g"
  "connections_list (set_con k c g s) = connections_list s" "connections_tree (set_con k c g s) = connections_tree s"
  "num_connections (set_con k c g s) = num_connections s" "max_connections (set_con k c g s) = max_connections s"
  "ug_udp_mtu (set_con k c g s) = ug_udp_mtu s" "udpgw_mtu (set_con k c g s) = udpgw_mtu s"
  "ug_next (set_con k c g s) = ug_next s"
  by (simp_all add: set_con_def)

lemma ug_inv_ghost: "ug_inv (s\<lparr>ug_delivered := d\<rparr>) = ug_inv s"
  by (simp add: ug_inv_def ug_table_def ug_jobs_def)

lemma ug_inv_reorder: "set l = set (connections_list s) \<Longrightarrow> distinct l \<Longrightarrow> length l = length (connections_list s) \<Longrightarrow>
  ug_inv s \<Longrightarrow> ug_inv (s\<lparr>connections_list := l\<rparr>)"
  by (simp add: ug_inv_def ug_table_def ug_jobs_def)

lemma con_ids_objs:
  assumes "con_inv mtu k c g" shows "set (send_ids k) \<subseteq> pg_objs g" "set (recv_ids k) \<subseteq> pg_objs g" "(k, J_first) \<in> pg_objs g"
  using assms by (auto simp: con_inv_def con_core_def sp_inv_def sp_jobs_def rp_inv_def rp_jobs_def)

lemma ug_inv_ghost_set: "ug_inv (set_con k t g (s\<lparr>ug_delivered := d\<rparr>)) = ug_inv (set_con k t g s)"
  by (simp add: ug_inv_def ug_table_def ug_jobs_def)

lemma con_ids_all: "(k, i) \<in> set (con_ids k)"
  by (cases i) (simp_all add: con_ids_def)

lemma ug_inv_update:
  assumes s: "ug_inv s" and k: "ug_heap s k = Some c"
    and j: "pg_jobs (ug_group s) = js \<or> (\<exists>i. pg_jobs (ug_group s) = (k, i) # js)"
    and t: "con_inv (ug_udp_mtu s) k t ((ug_group s)\<lparr>pg_jobs := news @ js\<rparr>)" "local_addr (conaddr t) = local_addr (conaddr c)"
    and n: "distinct (news @ js)" "\<forall>j \<in> set news. fst j = k" "set news \<subseteq> pg_objs (ug_group s)"
  shows "ug_inv (set_con k t ((ug_group s)\<lparr>pg_jobs := news @ js\<rparr>) s)"
proof -
  let ?g = "ug_group s" and ?h = "(ug_group s)\<lparr>pg_jobs := news @ js\<rparr>"
  have "ug_table (set_con k t ?h s)"
  proof -
    have "dom ((ug_heap s)(k := Some t)) = dom (ug_heap s)" using k by auto
    then show ?thesis using s k t(2) unfolding ug_inv_def ug_table_def by auto
  qed
  moreover have "ug_jobs (set_con k t ?h s)"
    using s j n k unfolding ug_inv_def ug_jobs_def pending_wf_def by auto
  moreover have "con_inv (ug_udp_mtu s) k' c' ?h" if "k' \<noteq> k" "ug_heap s k' = Some c'" for k' c'
    by (rule con_inv_frame [of _ _ _ ?g]) (use s that n j in \<open>auto simp: ug_inv_def\<close>)
  ultimately show ?thesis using s t(1) by (auto simp: ug_inv_def)
qed

lemma con_of:
  assumes "ug_inv s" "ug_heap s k = Some c"
  shows "con_inv (ug_udp_mtu s) k c (ug_group s)" "con_core (ug_udp_mtu s) k c (ug_group s)"
  using assms by (auto simp: ug_inv_def con_inv_def)

text \<open>When no job is pending, a connection only depends on its job objects.\<close>

lemma con_inv_idle:
  assumes c: "con_inv mtu k c g" and j: "pg_jobs g = []" and h: "\<And>j. j \<in> set (pg_jobs h) \<Longrightarrow> fst j \<noteq> k"
    and o1: "set (send_ids k) \<subseteq> pg_objs h" "set (recv_ids k) \<subseteq> pg_objs h" "(k, J_first) \<in> pg_objs h"
  shows "con_inv mtu k c h"
proof -
  obtain q pend r where i: "sp_inv CONNECTION_UDP_BUFFER_SIZE (con_send c) g q pend"
    "con_accepted c = con_sent c @ sp_unsent (con_send c) q pend" "rp_inv (con_recv c) g r"
    "sp_ids (con_send c) = send_ids k" "rp_ids (con_recv c) = recv_ids k"
    using c by (auto simp: con_inv_def con_core_def)
  have n: "x \<notin> set (pg_jobs h)" if "x \<in> set (send_ids k) \<or> x \<in> set (recv_ids k) \<or> x = (k, J_first)" for x
    using that h [of x] ids_fst by fastforce
  have "sp_inv CONNECTION_UDP_BUFFER_SIZE (con_send c) h q pend"
    by (rule sp_inv_frame [OF i(1)]) (use i(4) o1(1) n j in auto)
  moreover have "rp_inv (con_recv c) h r"
    by (rule rp_inv_frame [OF i(3)]) (use i(5) o1(2) n j in auto)
  ultimately show ?thesis using c i o1(3) n unfolding con_inv_def con_core_def by (auto simp: first_ok_absent)
qed

section \<open>Jobs and socket events\<close>

lemma run_head_ok:
  assumes s: "ug_inv s" and e: "ug_enabled (RunJob now d) s"
  shows "\<exists>t. run_head now d s = Some t \<and> ug_inv t"
proof -
  obtain k i js where j: "pg_jobs (ug_group s) = (k, i) # js" using e by (auto split: list.splits)
  obtain c where c: "ug_heap s k = Some c" using s j by (auto simp: ug_inv_def ug_jobs_def)
  note ci = con_of [OF s c]
  have dist: "distinct (pg_jobs (ug_group s))" using s by (simp add: ug_inv_def ug_jobs_def pending_wf_def)
  have x: "length y \<le> ug_udp_mtu s \<and> con_sent c \<noteq> []" if "d = Some y" for y
    using e that j c by (auto simp: has_sent_def)
  have gw: "int (ug_udp_mtu s) \<le> udpgw_mtu s" using s by (simp add: ug_inv_def)
  from con_run_job_ok [OF ci(1) j dist x gw, where now = now] obtain t news out where t:
    "con_run_job now d (ug_udp_mtu s) (udpgw_mtu s) i c ((ug_group s)\<lparr>pg_jobs := js\<rparr>) =
       Some (t, (ug_group s)\<lparr>pg_jobs := news @ js\<rparr>, out)"
    "con_inv (ug_udp_mtu s) k t ((ug_group s)\<lparr>pg_jobs := news @ js\<rparr>)" "distinct (news @ js)" "\<forall>j \<in> set news. fst j = k"
    "local_addr (conaddr t) = local_addr (conaddr c)" unfolding job_ends_def by blast
  have objs: "set news \<subseteq> pg_objs (ug_group s)"
  proof
    fix n assume "n \<in> set news"
    then have "n = (k, snd n)" using t(4) by (metis prod.collapse)
    then have "n \<in> set (con_ids k)" using con_ids_all by metis
    then show "n \<in> pg_objs (ug_group s)" using con_ids_objs [OF ci(1)]
      by (auto simp: con_ids_def send_ids_def recv_ids_def)
  qed
  have "ug_inv (set_con k t ((ug_group s)\<lparr>pg_jobs := news @ js\<rparr>) s)"
    by (rule ug_inv_update [OF s c _ t(2,5,3,4) objs]) (use j in auto)
  then show ?thesis using j c t(1) by (simp add: run_head_def BPendingGroup_ExecuteJob_def ug_inv_ghost_set)
qed

lemma sent_event_ok:
  assumes s: "ug_inv s" and e: "ug_enabled (DgramSent k) s"
  shows "\<exists>t. ug_run (DgramSent k) s = Some t \<and> ug_inv t"
proof -
  obtain c where c: "ug_heap s k = Some c" "ppi_state (sp_output (con_send c)) = BUSY" "pg_jobs (ug_group s) = []"
    using e by (auto split: option.splits)
  note ci = con_of [OF s c(1)]
  from dgram_sent_ok [OF ci(2) c(2)] c(3) obtain t where t: "dgram_sent c (ug_group s) =
      Some (t, (ug_group s)\<lparr>pg_jobs := [(k, J_send_done)]\<rparr>)" "con_core (ug_udp_mtu s) k t ((ug_group s)\<lparr>pg_jobs := [(k, J_send_done)]\<rparr>)"
    "conaddr t = conaddr c" by auto
  have "ug_inv (set_con k t ((ug_group s)\<lparr>pg_jobs := [(k, J_send_done)] @ []\<rparr>) s)"
    by (rule ug_inv_update [OF s c(1)])
      (use c(3) t ci(1) con_ids_objs [OF ci(1)] in \<open>auto simp: con_inv_def first_ok_absent send_ids_def\<close>)
  then show ?thesis using c(1) t(1) by simp
qed

lemma received_event_ok:
  assumes s: "ug_inv s" and e: "ug_enabled (DgramReceived k d) s"
  shows "\<exists>t. ug_run (DgramReceived k d) s = Some t \<and> ug_inv t"
proof -
  obtain c where c: "ug_heap s k = Some c" "pri_state (rp_input (con_recv c)) = BUSY" "pg_jobs (ug_group s) = []"
    "length d \<le> ug_udp_mtu s" "con_sent c \<noteq> []"
    using e by (auto simp: has_sent_def split: option.splits)
  note ci = con_of [OF s c(1)]
  from dgram_received_ok [OF ci(1) c(2,4,5)] c(3) obtain t where t: "dgram_received d c (ug_group s) =
      Some (t, (ug_group s)\<lparr>pg_jobs := [(k, J_recv_done)]\<rparr>)" "con_inv (ug_udp_mtu s) k t ((ug_group s)\<lparr>pg_jobs := [(k, J_recv_done)]\<rparr>)"
    "conaddr t = conaddr c" by auto
  have "ug_inv (set_con k t ((ug_group s)\<lparr>pg_jobs := [(k, J_recv_done)] @ []\<rparr>) s)"
    by (rule ug_inv_update [OF s c(1)])
      (use c(3) t con_ids_objs [OF ci(1)] in \<open>auto simp: recv_ids_def\<close>)
  then show ?thesis using c(1) t(1) by simp
qed

section \<open>Finding a connection\<close>

lemma tree_lookup_Some:
  "tree_lookup h ca ks = Some k \<Longrightarrow> k \<in> set ks \<and> (\<exists>c. h k = Some c \<and> conaddr_comparator ca (conaddr c) = 0)"
  by (induction ks) (auto split: option.splits if_splits)

lemma tree_lookup_None:
  "tree_lookup h ca ks = None \<longleftrightarrow> (\<forall>k \<in> set ks. \<forall>c. h k = Some c \<longrightarrow> conaddr_comparator ca (conaddr c) \<noteq> 0)"
  by (induction ks) (auto split: option.splits)

text \<open>The lookup finds the connection of a local address, whatever it was created for.\<close>

lemma find_connection_iff:
  assumes s: "ug_inv s" and l: "ip_wf (local_addr ca)"
  shows "find_connection ca is_dns s = Some k \<longleftrightarrow>
    (\<exists>c. ug_heap s k = Some c \<and> local_addr (conaddr c) = local_addr ca)"
    and "find_connection ca is_dns s = None \<longleftrightarrow>
    (\<forall>k c. ug_heap s k = Some c \<longrightarrow> local_addr (conaddr c) \<noteq> local_addr ca)"
proof -
  have cmp: "conaddr_comparator ca (conaddr c) = 0 \<longleftrightarrow> local_addr (conaddr c) = local_addr ca" if "ug_heap s k = Some c" for k c
    using con_of(1) [OF s that] l baddr.compare_zero by (auto simp: conaddr_comparator_def con_inv_def)
  have tab: "set (connections_tree s) = dom (ug_heap s)"
    "\<And>k k' c c'. ug_heap s k = Some c \<Longrightarrow> ug_heap s k' = Some c' \<Longrightarrow>
       local_addr (conaddr c) = local_addr (conaddr c') \<Longrightarrow> k = k'"
    using s by (auto simp: ug_inv_def ug_table_def)
  let ?l = "tree_lookup (ug_heap s) ca (connections_tree s)"
  have f: "find_connection ca is_dns s = ?l"
    by (auto simp: find_connection_def split: option.splits dest: tree_lookup_Some)
  show n: "find_connection ca is_dns s = None \<longleftrightarrow>
    (\<forall>k c. ug_heap s k = Some c \<longrightarrow> local_addr (conaddr c) \<noteq> local_addr ca)"
    unfolding f tree_lookup_None tab(1) using cmp by (metis domI)
  show "find_connection ca is_dns s = Some k \<longleftrightarrow> (\<exists>c. ug_heap s k = Some c \<and> local_addr (conaddr c) = local_addr ca)"
  proof
    assume "find_connection ca is_dns s = Some k"
    then show "\<exists>c. ug_heap s k = Some c \<and> local_addr (conaddr c) = local_addr ca"
      unfolding f using tree_lookup_Some cmp by blast
  next
    assume "\<exists>c. ug_heap s k = Some c \<and> local_addr (conaddr c) = local_addr ca"
    then obtain c where c: "ug_heap s k = Some c" "local_addr (conaddr c) = local_addr ca" by blast
    then obtain k' where k': "find_connection ca is_dns s = Some k'" using n by (cases "find_connection ca is_dns s") auto
    then obtain c' where "ug_heap s k' = Some c'" "local_addr (conaddr c') = local_addr ca"
      unfolding f using tree_lookup_Some cmp by blast
    then show "find_connection ca is_dns s = Some k" using tab(2) c k' by metis
  qed
qed


section \<open>Sending on an existing connection\<close>

lemma submit_existing_ok:
  assumes s: "ug_inv s" and k: "ug_heap s k = Some c" and j: "pg_jobs (ug_group s) = []"
    and a: "local_addr ca = local_addr (conaddr c)" and h: "header_fits (ug_udp_mtu s) (remote_addr ca) is_dns data"
  shows "\<exists>dropped t g. connection_send data (reset_connection ca is_dns c) (ug_group s) = Some (dropped, t, g) \<and>
    ug_inv (set_con k t g s) \<and> dropped = (\<not> out_have (con_send c)) \<and> dgram_dest t = dgram_dest c \<and>
    con_accepted t = con_accepted c @ (if dropped then [] else [udp_message is_dns (remote_addr ca) data])"
proof -
  let ?c = "reset_connection ca is_dns c"
  note ci = con_of [OF s k]
  have core: "con_core (ug_udp_mtu s) k ?c (ug_group s)" using ci(2) by (simp add: reset_connection_def core_conaddr)
  have f: "remote_addr (conaddr ?c) = remote_addr ca" "con_is_dns ?c = is_dns" "conaddr ?c = ca"
    "con_send ?c = con_send c" "dgram_dest ?c = dgram_dest c" "con_accepted ?c = con_accepted c"
    by (simp_all add: reset_connection_def)
  have ok: "con_inv (ug_udp_mtu s) k t ((ug_group s)\<lparr>pg_jobs := news @ []\<rparr>)"
    if "con_core (ug_udp_mtu s) k t ((ug_group s)\<lparr>pg_jobs := news\<rparr>)" "conaddr t = ca" "(k, J_first) \<notin> set news" for t news
    using that ci(1) a by (simp add: con_inv_def first_ok_absent)
  have upd: "ug_inv (set_con k t ((ug_group s)\<lparr>pg_jobs := news @ []\<rparr>) s)"
    if "con_core (ug_udp_mtu s) k t ((ug_group s)\<lparr>pg_jobs := news\<rparr>)" "conaddr t = ca" "set news \<subseteq> set (send_ids k)" "distinct news" for t news
  proof (rule ug_inv_update [OF s k])
    show "con_inv (ug_udp_mtu s) k t ((ug_group s)\<lparr>pg_jobs := news @ []\<rparr>)"
      by (rule ok [OF that(1,2)]) (use that(3) ids_disjoint(3) in blast)
  qed (use that j a con_ids_objs [OF ci(1)] ids_fst(1) in \<open>auto\<close>)
  show ?thesis
  proof (cases "out_have (con_send c)")
    case True
    from connection_send_ok [OF core, of data] obtain t where t:
      "connection_send data ?c (ug_group s) = Some (False, t, (ug_group s)\<lparr>pg_jobs := [(k, J_writer_done)]\<rparr>)"
      "con_core (ug_udp_mtu s) k t ((ug_group s)\<lparr>pg_jobs := [(k, J_writer_done)]\<rparr>)" "conaddr t = ca"
      "con_accepted t = con_accepted c @ [udp_message is_dns (remote_addr ca) data]" "dgram_dest t = dgram_dest c"
      using True h j f by auto
    have "ug_inv (set_con k t ((ug_group s)\<lparr>pg_jobs := [(k, J_writer_done)]\<rparr>) s)"
      using upd [OF t(2,3)] by (simp add: send_ids_def)
    then show ?thesis using t True by (intro exI [of _ False]) simp
  next
    case False
    have g: "(ug_group s)\<lparr>pg_jobs := []\<rparr> = ug_group s" using j by simp
    have "ug_inv (set_con k ?c ((ug_group s)\<lparr>pg_jobs := [] @ []\<rparr>) s)"
      by (rule upd) (use core f g in simp_all)
    then show ?thesis using connection_send_full [OF core, of data] False f g by (intro exI [of _ True]) simp
  qed
qed

section \<open>Releasing a connection\<close>

lemma pending_free_ok:
  assumes "pending_wf g" "p \<in> pg_objs g"
  shows "\<exists>h. BPending_Free p g = Some h \<and> pending_wf h \<and> pg_objs h = pg_objs g - {p} \<and>
    set (pg_jobs h) = set (pg_jobs g) - {p} \<and> (pg_jobs g = [] \<longrightarrow> pg_jobs h = [])"
proof -
  have "pending_ctr g > 0" using assms by (auto simp: pending_wf_def card_gt_0_iff)
  then have e: "BPending_Free p g = Some (g\<lparr>pg_jobs := remove1 p (pg_jobs g), pg_objs := pg_objs g - {p}, pending_ctr := pending_ctr g - 1\<rparr>)"
    using assms(2) by (simp add: pending_defs)
  then show ?thesis using pending_do_wf [OF assms(1), of "PFree p"] assms(1)
    by (auto simp: pending_wf_def)
qed

lemma pri_free_ok:
  assumes "pending_wf g" "set (pri_ids i) \<subseteq> pg_objs g" "distinct (pri_ids i)"
  shows "\<exists>h. PacketRecvInterface_Free i g = Some h \<and> pending_wf h \<and> pg_objs h = pg_objs g - set (pri_ids i) \<and>
    set (pg_jobs h) = set (pg_jobs g) - set (pri_ids i) \<and> (pg_jobs g = [] \<longrightarrow> pg_jobs h = [])"
proof -
  from assms pending_free_ok [of g "pri_job_done i"] obtain h where h: "BPending_Free (pri_job_done i) g = Some h" "pending_wf h"
    "pg_objs h = pg_objs g - {pri_job_done i}" "set (pg_jobs h) = set (pg_jobs g) - {pri_job_done i}"
    "pg_jobs g = [] \<longrightarrow> pg_jobs h = []" by (auto simp: pri_ids_def)
  from assms h pending_free_ok [OF h(2), of "pri_job_operation i"] show ?thesis
    by (auto simp: PacketRecvInterface_Free_def pri_ids_def)
qed

lemma ppi_free_ok:
  assumes "pending_wf g" "set (ppi_ids i) \<subseteq> pg_objs g" "distinct (ppi_ids i)"
  shows "\<exists>h. PacketPassInterface_Free i g = Some h \<and> pending_wf h \<and> pg_objs h = pg_objs g - set (ppi_ids i) \<and>
    set (pg_jobs h) = set (pg_jobs g) - set (ppi_ids i) \<and> (pg_jobs g = [] \<longrightarrow> pg_jobs h = [])"
proof -
  from assms pending_free_ok [of g "ppi_job_done i"] obtain h where h: "BPending_Free (ppi_job_done i) g = Some h" "pending_wf h"
    "pg_objs h = pg_objs g - {ppi_job_done i}" "set (pg_jobs h) = set (pg_jobs g) - {ppi_job_done i}"
    "pg_jobs g = [] \<longrightarrow> pg_jobs h = []" by (auto simp: ppi_ids_def)
  from assms h pending_free_ok [OF h(2), of "ppi_job_requestcancel i"] obtain h2 where
    h2: "BPending_Free (ppi_job_requestcancel i) h = Some h2" "pending_wf h2"
    "pg_objs h2 = pg_objs h - {ppi_job_requestcancel i}" "set (pg_jobs h2) = set (pg_jobs h) - {ppi_job_requestcancel i}"
    "pg_jobs h = [] \<longrightarrow> pg_jobs h2 = []" by (auto simp: ppi_ids_def)
  from assms h h2 pending_free_ok [OF h2(2), of "ppi_job_operation i"] show ?thesis
    by (auto simp: PacketPassInterface_Free_def ppi_ids_def)
qed

lemma connection_free_ok:
  assumes w: "pending_wf (ug_group s)" and k: "ug_heap s k = Some c" "k \<in> set (connections_list s)" "k \<in> set (connections_tree s)"
    and ids: "sp_ids (con_send c) = send_ids k" "rp_ids (con_recv c) = recv_ids k"
    and o1: "set (send_ids k) \<subseteq> pg_objs (ug_group s)" "set (recv_ids k) \<subseteq> pg_objs (ug_group s)"
  shows "\<exists>g. connection_free k s = Some (s\<lparr>num_connections := num_connections s - 1,
      connections_list := remove1 k (connections_list s), connections_tree := remove1 k (connections_tree s),
      ug_heap := (ug_heap s)(k := None), ug_group := g\<rparr>) \<and> pending_wf g \<and>
    pg_objs g = pg_objs (ug_group s) - set (send_ids k) - set (recv_ids k) \<and>
    (pg_jobs (ug_group s) = [] \<longrightarrow> pg_jobs g = [])"
proof -
  let ?g = "ug_group s"
  note f = send_ids_fields [OF ids(1)] recv_ids_fields [OF ids(2)]
  have i: "pri_ids (sp_input (con_send c)) = [(k, J_writer_op), (k, J_writer_done)]"
    "ppi_ids (sp_output (con_send c)) = [(k, J_send_op), (k, J_send_cancel), (k, J_send_done)]"
    "pri_ids (rp_input (con_recv c)) = [(k, J_recv_op), (k, J_recv_done)]"
    "ppi_ids (rp_output (con_recv c)) = [(k, J_user_op), (k, J_user_cancel), (k, J_user_done)]"
    using f by (simp_all add: pri_ids_def ppi_ids_def)
  note o2 = o1 [unfolded send_ids_def recv_ids_def, simplified]
  obtain g1 where g1: "PacketPassInterface_Free (rp_output (con_recv c)) ?g = Some g1" "pending_wf g1"
    "pg_objs g1 = pg_objs ?g - {(k, J_user_op), (k, J_user_cancel), (k, J_user_done)}" "pg_jobs ?g = [] \<longrightarrow> pg_jobs g1 = []"
    using ppi_free_ok [OF w, of "rp_output (con_recv c)"] i o2 by auto
  obtain g2 where g2: "PacketRecvInterface_Free (sp_input (con_send c)) g1 = Some g2" "pending_wf g2"
    "pg_objs g2 = pg_objs g1 - {(k, J_writer_op), (k, J_writer_done)}" "pg_jobs g1 = [] \<longrightarrow> pg_jobs g2 = []"
    using pri_free_ok [OF g1(2), of "sp_input (con_send c)"] i o2 g1(3) by auto
  obtain g3 where g3: "PacketRecvInterface_Free (rp_input (con_recv c)) g2 = Some g3" "pending_wf g3"
    "pg_objs g3 = pg_objs g2 - {(k, J_recv_op), (k, J_recv_done)}" "pg_jobs g2 = [] \<longrightarrow> pg_jobs g3 = []"
    using pri_free_ok [OF g2(2), of "rp_input (con_recv c)"] i o2 g1(3) g2(3) by auto
  obtain g4 where g4: "PacketPassInterface_Free (sp_output (con_send c)) g3 = Some g4" "pending_wf g4"
    "pg_objs g4 = pg_objs g3 - {(k, J_send_op), (k, J_send_cancel), (k, J_send_done)}" "pg_jobs g3 = [] \<longrightarrow> pg_jobs g4 = []"
    using ppi_free_ok [OF g3(2), of "sp_output (con_send c)"] i o2 g1(3) g2(3) g3(3) by auto
  have "pg_objs g4 = pg_objs ?g - set (send_ids k) - set (recv_ids k)"
    unfolding g4(3) g3(3) g2(3) g1(3) send_ids_def recv_ids_def by auto
  then show ?thesis using k g1 g2 g3 g4 by (intro exI [of _ g4]) (simp add: connection_free_def)
qed

text \<open>The least recently used connection makes room for a new one.\<close>

lemma remove_lru_ok:
  assumes s: "ug_inv s" and j: "pg_jobs (ug_group s) = []" and n: "num_connections s = max_connections s"
    and f: "find_connection ca is_dns s = None" and l: "ip_wf (local_addr ca)"
  shows "\<exists>k ks t. connections_list s = k # ks \<and> remove_lru_connection ca is_dns s = Some t \<and> ug_inv t \<and>
    pg_jobs (ug_group t) = [] \<and> connections_list t = ks \<and> ug_heap t = (ug_heap s)(k := None) \<and>
    num_connections t < max_connections t \<and> find_connection ca is_dns t = None \<and> ug_udp_mtu t = ug_udp_mtu s"
proof -
  have tab: "distinct (connections_list s)" "set (connections_list s) = dom (ug_heap s)" "distinct (connections_tree s)"
    "set (connections_tree s) = dom (ug_heap s)" "num_connections s = int (length (connections_list s))"
    "0 < max_connections s" using s by (auto simp: ug_inv_def ug_table_def)
  obtain k ks where k: "connections_list s = k # ks" using tab n by (cases "connections_list s") auto
  then obtain c where c: "ug_heap s k = Some c" using tab(2) by auto
  note ci = con_of [OF s c]
  have w: "pending_wf (ug_group s)" using s by (simp add: ug_inv_def ug_jobs_def)
  have kt: "k \<in> set (connections_list s)" "k \<in> set (connections_tree s)" using k tab by auto
  have ids: "sp_ids (con_send c) = send_ids k" "rp_ids (con_recv c) = recv_ids k" using ci(2) by (auto simp: con_core_def)
  from connection_free_ok [OF w c kt ids con_ids_objs(1,2) [OF ci(1)]] obtain g where
    g: "connection_free k s = Some (s\<lparr>num_connections := num_connections s - 1,
      connections_list := remove1 k (connections_list s), connections_tree := remove1 k (connections_tree s),
      ug_heap := (ug_heap s)(k := None), ug_group := g\<rparr>)" "pending_wf g"
    "pg_objs g = pg_objs (ug_group s) - set (send_ids k) - set (recv_ids k)" "pg_jobs g = []" using j by auto
  let ?t = "s\<lparr>num_connections := num_connections s - 1,
      connections_list := remove1 k (connections_list s), connections_tree := remove1 k (connections_tree s),
      ug_heap := (ug_heap s)(k := None), ug_group := g\<rparr>"
  have "ug_table ?t"
    using s c k unfolding ug_inv_def ug_table_def by (auto simp: set_remove1_eq split: if_splits)
  moreover have "ug_jobs ?t" using s g unfolding ug_inv_def ug_jobs_def by auto
  moreover have "con_inv (ug_udp_mtu s) k' c' g" if "k' \<noteq> k" "ug_heap s k' = Some c'" for k' c'
    by (rule con_inv_idle [OF con_of(1) [OF s that(2)] j])
      (use g con_ids_objs [OF con_of(1) [OF s that(2)]] that(1) in \<open>auto simp: send_ids_def recv_ids_def\<close>)
  ultimately have inv: "ug_inv ?t" using s by (auto simp: ug_inv_def split: if_splits)
  moreover have "find_connection ca is_dns ?t = None"
    using find_connection_iff(2) [OF inv l] find_connection_iff(2) [OF s l, of is_dns] f by (auto split: if_splits)
  ultimately show ?thesis using f n tab k g by (auto simp: remove_lru_connection_def)
qed



section \<open>Creating a connection\<close>

text \<open>The group \<open>g\<close> with further job objects \<open>ids\<close> of a new connection, and with the pending jobs \<open>js\<close>.\<close>

definition with_objs :: "'j list \<Rightarrow> 'j list \<Rightarrow> 'j BPendingGroup \<Rightarrow> 'j BPendingGroup" where
  "with_objs js ids g = g\<lparr>pg_jobs := js, pg_objs := set ids \<union> pg_objs g, pending_ctr := pending_ctr g + length ids\<rparr>"

lemma with_objs_init:
  "p \<notin> set ids \<Longrightarrow> p \<notin> pg_objs g \<Longrightarrow> BPending_Init p (with_objs js ids g) = Some (with_objs js (p # ids) g)"
  by (simp add: pending_defs with_objs_def)

lemma with_objs_set:
  "p \<in> set ids \<Longrightarrow> p \<notin> set js \<Longrightarrow> BPending_Set p (with_objs js ids g) = Some (with_objs (p # js) ids g)"
  by (simp add: pending_defs with_objs_def)

lemma with_objs_free:
  assumes "p \<in> set ids" "p \<notin> pg_objs g" "distinct ids"
  shows "BPending_Free p (with_objs js ids g) = Some (with_objs (remove1 p js) (remove1 p ids) g)"
proof -
  have o1: "set ids \<union> pg_objs g - {p} = set (remove1 p ids) \<union> pg_objs g" using assms by (auto simp: set_remove1_eq)
  have l: "0 < length ids" using assms(1) by (cases ids) auto
  have c: "pending_ctr g + length ids - 1 = pending_ctr g + length (remove1 p ids)"
    using assms(1) l length_remove1 [of p ids] by (simp del: length_greater_0_conv)
  show ?thesis unfolding BPending_Free_def BSmallPending_Free_def BSmallPending_IsSet_def with_objs_def
    using assms(1) l o1 c by (simp add: remove1_idem)
qed

lemma with_objs_simps [simp]:
  "pg_jobs (with_objs js ids g) = js" "pg_objs (with_objs js ids g) = set ids \<union> pg_objs g"
  "(with_objs js ids g)\<lparr>pg_jobs := js'\<rparr> = with_objs js' ids g" "with_objs (pg_jobs g) [] g = g"
  by (simp_all add: with_objs_def)

lemmas with_objs_ops = with_objs_init with_objs_set with_objs_free PacketPassInterface_Init_def PacketRecvInterface_Init_def
  BufferWriter_Init_def PacketRecvInterface_Free_def PacketPassInterface_Free_def

lemma connection_init_cases:
  assumes j: "pg_jobs (ug_group s) = []" and fr: "\<And>i. (ug_next s, i) \<notin> pg_objs (ug_group s)"
    and l: "tree_lookup (ug_heap s) ca (connections_tree s) = None" and m: "ug_udp_mtu s \<le> 65535"
  defines "h \<equiv> with_objs [(ug_next s, J_recv_op), (ug_next s, J_writer_op), (ug_next s, J_first)]
    (rev (map (Pair (ug_next s)) [J_first, J_send_op, J_send_cancel, J_send_done, J_recv_op, J_recv_done,
       J_writer_op, J_writer_done, J_user_op, J_user_cancel, J_user_done])) (ug_group s)"
  shows "connection_init e ca data is_dns s = Some (None, s) \<or>
    connection_init e ca data is_dns s = Some (None, s\<lparr>ug_next := ug_next s + 1\<rparr>) \<or>
    (\<exists>sp rp. connection_init e ca data is_dns s = Some (Some (ug_next s),
       s\<lparr>ug_next := ug_next s + 1,
         ug_heap := (ug_heap s)(ug_next s := Some
           \<lparr>conaddr = ca, first_data = data, con_is_dns = is_dns,
            dgram_dest = (if is_dns then ug_dnsgw s else socks_server_addr s),
            con_send = sp, con_recv = rp, con_accepted = [], con_sent = []\<rparr>),
         connections_tree := connections_tree s @ [ug_next s], connections_list := connections_list s @ [ug_next s],
         num_connections := num_connections s + 1, ug_group := h\<rparr>) \<and>
       sp_inv CONNECTION_UDP_BUFFER_SIZE sp h [] None \<and> rp_inv rp h None \<and>
       sp_ids sp = send_ids (ug_next s) \<and> rp_ids rp = recv_ids (ug_next s) \<and>
       pb_input_mtu sp = ug_udp_mtu s \<and> pri_mtu (rp_input rp) = ug_udp_mtu s \<and>
       ppi_state (sp_output sp) = STATE_NONE \<and> ppi_state (rp_output rp) = STATE_NONE \<and>
       pri_state (rp_input rp) = OPERATION_PENDING)" (is "?fail1 \<or> ?fail2 \<or> ?ok")
proof (cases "env_malloc e")
  case True
  let ?k = "ug_next s" and ?g = "ug_group s" and ?mtu = "ug_udp_mtu s"
  have g0: "?g = with_objs [] [] ?g" using with_objs_simps(4) [of ?g] j by simp
  have same: "s\<lparr>ug_next := n, ug_group := ?g\<rparr> = s\<lparr>ug_next := n\<rparr>" for n by simp
  define send_if :: "ug_job PacketPassInterface" where "send_if = \<lparr>ppi_mtu = ?mtu, ppi_has_cancel = False, ppi_has_user = False,
    ppi_job_operation = (?k, J_send_op), ppi_data = 0, ppi_len = 0, ppi_job_requestcancel = (?k, J_send_cancel),
    ppi_job_done = (?k, J_send_done), ppi_state = STATE_NONE, ppi_cancel_requested = False\<rparr>"
  define recv_if :: "ug_job PacketRecvInterface" where "recv_if = \<lparr>pri_mtu = ?mtu, pri_has_user = False, pri_job_operation = (?k, J_recv_op),
    pri_data = 0, pri_job_done = (?k, J_recv_done), pri_done_len = 0, pri_state = STATE_NONE\<rparr>"
  define writer :: "ug_job PacketRecvInterface" where "writer = \<lparr>pri_mtu = ?mtu, pri_has_user = False, pri_job_operation = (?k, J_writer_op),
    pri_data = 0, pri_job_done = (?k, J_writer_done), pri_done_len = 0, pri_state = STATE_NONE\<rparr>"
  define user_if :: "ug_job PacketPassInterface" where "user_if = \<lparr>ppi_mtu = ?mtu, ppi_has_cancel = False, ppi_has_user = False,
    ppi_job_operation = (?k, J_user_op), ppi_data = 0, ppi_len = 0, ppi_job_requestcancel = (?k, J_user_cancel),
    ppi_job_done = (?k, J_user_done), ppi_state = STATE_NONE, ppi_cancel_requested = False\<rparr>"
  note defs = send_if_def recv_if_def writer_def user_if_def
  let ?i1 = "[(?k, J_first)]"
  let ?i4 = "[(?k, J_writer_done), (?k, J_writer_op), (?k, J_recv_done), (?k, J_recv_op), (?k, J_send_done), (?k, J_send_cancel), (?k, J_send_op), (?k, J_first)]"
  let ?g4 = "with_objs [(?k, J_first)] ?i4 ?g"
  let ?g5 = "with_objs [(?k, J_writer_op), (?k, J_first)] ?i4 ?g"
  let ?g6 = "with_objs [(?k, J_writer_op), (?k, J_first)] ([(?k, J_user_done), (?k, J_user_cancel), (?k, J_user_op)] @ ?i4) ?g"
  have first: "BPending_Init (?k, J_first) ?g = Some (with_objs [] ?i1 ?g)"
    "BPending_Set (?k, J_first) (with_objs [] ?i1 ?g) = Some (with_objs [(?k, J_first)] ?i1 ?g)"
    "BPending_Free (?k, J_first) (with_objs [(?k, J_first)] ?i1 ?g) = Some ?g"
    using with_objs_init [of "(?k, J_first)" "[]" ?g "[]"] fr g0
    by (simp_all add: with_objs_set with_objs_free flip: g0)
  have ifs: "PacketPassInterface_Init ?mtu (?k, J_send_op) (?k, J_send_cancel) (?k, J_send_done) (with_objs [(?k, J_first)] ?i1 ?g)
      = Some (send_if, with_objs [(?k, J_first)] [(?k, J_send_done), (?k, J_send_cancel), (?k, J_send_op), (?k, J_first)] ?g)"
    "PacketRecvInterface_Init ?mtu (?k, J_recv_op) (?k, J_recv_done) (with_objs [(?k, J_first)] [(?k, J_send_done), (?k, J_send_cancel), (?k, J_send_op), (?k, J_first)] ?g)
      = Some (recv_if, with_objs [(?k, J_first)] [(?k, J_recv_done), (?k, J_recv_op), (?k, J_send_done), (?k, J_send_cancel), (?k, J_send_op), (?k, J_first)] ?g)"
    "BufferWriter_Init ?mtu (?k, J_writer_op) (?k, J_writer_done) (with_objs [(?k, J_first)] [(?k, J_recv_done), (?k, J_recv_op), (?k, J_send_done), (?k, J_send_cancel), (?k, J_send_op), (?k, J_first)] ?g)
      = Some (writer, ?g4)"
    "PacketPassInterface_Init ?mtu (?k, J_user_op) (?k, J_user_cancel) (?k, J_user_done) ?g5 = Some (user_if, ?g6)"
    using fr by (simp_all add: with_objs_ops defs)
  have pb: "PacketBuffer_Init (env_ring e) writer send_if CONNECTION_UDP_BUFFER_SIZE ?g4 = Some None \<or>
    (\<exists>p dest. PacketBuffer_Init (env_ring e) writer send_if CONNECTION_UDP_BUFFER_SIZE ?g4 = Some (Some (p, ?g5)) \<and>
      sp_input p = writer\<lparr>pri_has_user := True, pri_data := dest, pri_state := OPERATION_PENDING\<rparr> \<and>
      sp_output p = send_if\<lparr>ppi_has_user := True\<rparr> \<and> ring ?mtu CONNECTION_UDP_BUFFER_SIZE (pb_buf p) [] \<and> has_room p dest \<and>
      \<not> out_have p \<and> \<not> d_writing p \<and> pb_input_mtu p = ?mtu)"
  proof -
    have al: "length b = n" if "env_ring e n = Some b" for n b
      using that by (auto simp: env_ring_def split: if_splits)
    show ?thesis using PacketBuffer_Init_ok [of writer send_if CONNECTION_UDP_BUFFER_SIZE "env_ring e" ?g4] m al
      by (simp add: defs CONNECTION_UDP_BUFFER_SIZE_def)
  qed
  show ?thesis
  proof (cases "env_dgram e \<and> env_reuse e")
    case False
    then have ?fail2 using True first by (auto simp: connection_init_def Let_def same)
    then show ?thesis by blast
  next
    case dg: True
    from pb show ?thesis
    proof (elim disjE exE conjE)
      assume n: "PacketBuffer_Init (env_ring e) writer send_if CONNECTION_UDP_BUFFER_SIZE ?g4 = Some None"
      have "(do { g \<leftarrow> PacketRecvInterface_Free writer ?g4; g \<leftarrow> PacketRecvInterface_Free recv_if g;
          g \<leftarrow> PacketPassInterface_Free send_if g; BPending_Free (?k, J_first) g }) = Some ?g"
        using fr g0 by (simp add: with_objs_ops defs flip: g0)
      then have ?fail2 using True dg first ifs n
        by (auto simp: connection_init_def Let_def same bind_Some_iff split: option.splits)
      then show ?thesis by blast
    next
      fix p dest
      assume p: "PacketBuffer_Init (env_ring e) writer send_if CONNECTION_UDP_BUFFER_SIZE ?g4 = Some (Some (p, ?g5))"
        "sp_input p = writer\<lparr>pri_has_user := True, pri_data := dest, pri_state := OPERATION_PENDING\<rparr>"
        "sp_output p = send_if\<lparr>ppi_has_user := True\<rparr>" "ring ?mtu CONNECTION_UDP_BUFFER_SIZE (pb_buf p) []"
        "has_room p dest" "\<not> out_have p" "\<not> d_writing p" "pb_input_mtu p = ?mtu"
      have pre: "pri_state recv_if = STATE_NONE" "\<not> pri_has_user recv_if" "pri_mtu recv_if \<le> ppi_mtu user_if"
        "\<not> ppi_has_user user_if" "pri_job_operation recv_if \<notin> set (pg_jobs ?g6)" "pri_job_operation recv_if \<in> pg_objs ?g6"
        "pri_mtu recv_if = ?mtu" by (simp_all add: defs)
      have hh: "?g6\<lparr>pg_jobs := pri_job_operation recv_if # pg_jobs ?g6\<rparr> = h" by (simp add: defs h_def)
      have rp: "SinglePacketBuffer_Init (env_buf e) recv_if user_if ?g6 =
        Some (case env_buf e ?mtu of None \<Rightarrow> None
          | Some m \<Rightarrow> Some (\<lparr>rp_input = recv_if\<lparr>pri_has_user := True, pri_data := 0, pri_state := OPERATION_PENDING\<rparr>,
              spb_buf = m, rp_output = user_if\<lparr>ppi_has_user := True\<rparr>\<rparr>, h))"
        using SinglePacketBuffer_Init_ok [OF pre(1-6), of "env_buf e"] unfolding hh pre(7) .
      show ?thesis
      proof (cases "env_buf e ?mtu")
        case None
        have "(do { g \<leftarrow> PacketPassInterface_Free user_if ?g6; g \<leftarrow> PacketRecvInterface_Free (sp_input p) g;
            g \<leftarrow> PacketRecvInterface_Free recv_if g; g \<leftarrow> PacketPassInterface_Free (sp_output p) g;
            BPending_Free (?k, J_first) g }) = Some ?g"
          using fr g0 p(2,3) by (simp add: with_objs_ops defs flip: g0)
        then have ?fail2 using True dg first ifs p(1) rp None
          by (auto simp: connection_init_def Let_def same bind_Some_iff split: option.splits)
        then show ?thesis by blast
      next
        case (Some b)
        let ?r = "\<lparr>rp_input = recv_if\<lparr>pri_has_user := True, pri_data := 0, pri_state := OPERATION_PENDING\<rparr>,
              spb_buf = b, rp_output = user_if\<lparr>ppi_has_user := True\<rparr>\<rparr>"
        have "length b = ?mtu" using Some by (auto simp: env_buf_def split: if_splits)
        then have ri: "rp_inv ?r h None" "rp_ids ?r = recv_ids ?k"
          by (simp_all add: rp_inv_def rp_jobs_def pri_jobs_def ppi_jobs_def ids_defs defs h_def recv_ids_def)
        have si: "sp_inv CONNECTION_UDP_BUFFER_SIZE p h [] None" "sp_ids p = send_ids ?k"
          using p(2-8) by (simp_all add: sp_inv_def sp_input_ok_def sp_output_ok_def sp_jobs_def pri_jobs_def
              ppi_jobs_def ids_defs defs h_def send_ids_def)
        have ?ok
          by (intro exI [of _ p] exI [of _ ?r] conjI ri si)
            (use True dg first ifs p rp Some l in \<open>simp_all add: connection_init_def Let_def defs\<close>)
        then show ?thesis by blast
      qed
    qed
  qed
qed (simp add: connection_init_def)


lemma pending_wf_with_objs:
  assumes "pending_wf g" "distinct ids" "set ids \<inter> pg_objs g = {}" "distinct js" "set js \<subseteq> set ids \<union> pg_objs g"
  shows "pending_wf (with_objs js ids g)"
  using assms by (auto simp: pending_wf_def with_objs_def card_Un_disjoint distinct_card)

lemma connection_new_ok:
  assumes s: "ug_inv s" and j: "pg_jobs (ug_group s) = []" and n: "num_connections s < max_connections s"
    and f: "find_connection ca is_dns s = None"
    and l: "is_ip (local_addr ca)" "ip_wf (local_addr ca)"
    and hd: "header_fits (ug_udp_mtu s) (remote_addr ca) is_dns data"
  shows "\<exists>r t. connection_init e ca data is_dns s = Some (r, t) \<and> ug_inv t \<and>
    (r = None \<longrightarrow> connections_list t = connections_list s \<and> ug_heap t = ug_heap s) \<and>
    (\<forall>k. r = Some k \<longrightarrow> connections_list t = connections_list s @ [k] \<and> k \<notin> dom (ug_heap s) \<and>
      (\<exists>c. ug_heap t = (ug_heap s)(k \<mapsto> c) \<and> conaddr c = ca \<and> con_is_dns c = is_dns \<and> first_data c = data \<and>
         dgram_dest c = (if is_dns then ug_dnsgw s else socks_server_addr s) \<and> (k, J_first) \<in> set (pg_jobs (ug_group t))))"
proof -
  let ?k = "ug_next s" and ?g = "ug_group s"
  have w: "pending_wf ?g" "\<forall>x \<in> pg_objs ?g. fst x < ?k" "ug_udp_mtu s \<le> 65535"
    using s by (auto simp: ug_inv_def ug_jobs_def)
  have fr: "(?k, i) \<notin> pg_objs ?g" for i using w(2) by force
  have nk: "ug_heap s ?k = None"
  proof (rule ccontr)
    assume "ug_heap s ?k \<noteq> None"
    then obtain c where "ug_heap s ?k = Some c" by auto
    from con_ids_objs(3) [OF con_of(1) [OF s this]] show False using fr by simp
  qed
  have lk: "tree_lookup (ug_heap s) ca (connections_tree s) = None"
    using f by (auto simp: find_connection_def split: option.splits dest: tree_lookup_Some)
  define h where "h = with_objs [(?k, J_recv_op), (?k, J_writer_op), (?k, J_first)]
    (rev (map (Pair ?k) [J_first, J_send_op, J_send_cancel, J_send_done, J_recv_op, J_recv_done,
       J_writer_op, J_writer_done, J_user_op, J_user_cancel, J_user_done])) ?g"
  from connection_init_cases [OF j fr lk w(3), where e = e and data = data and is_dns = is_dns, folded h_def]
  show ?thesis
  proof (elim disjE exE conjE)
    assume "connection_init e ca data is_dns s = Some (None, s)"
    then show ?thesis using s by auto
  next
    assume "connection_init e ca data is_dns s = Some (None, s\<lparr>ug_next := ?k + 1\<rparr>)"
    moreover have "ug_inv (s\<lparr>ug_next := ?k + 1\<rparr>)"
      using s by (auto simp: ug_inv_def ug_table_def ug_jobs_def intro: less_SucI)
    ultimately show ?thesis by auto
  next
    fix sp rp
    let ?c = "\<lparr>conaddr = ca, first_data = data, con_is_dns = is_dns,
       dgram_dest = (if is_dns then ug_dnsgw s else socks_server_addr s),
       con_send = sp, con_recv = rp, con_accepted = [], con_sent = []\<rparr>"
    let ?t = "s\<lparr>ug_next := ?k + 1, ug_heap := (ug_heap s)(?k := Some ?c), connections_tree := connections_tree s @ [?k],
       connections_list := connections_list s @ [?k], num_connections := num_connections s + 1, ug_group := h\<rparr>"
    assume i: "connection_init e ca data is_dns s = Some (Some ?k, ?t)"
      and c: "sp_inv CONNECTION_UDP_BUFFER_SIZE sp h [] None" "rp_inv rp h None"
       "sp_ids sp = send_ids ?k" "rp_ids rp = recv_ids ?k" "pb_input_mtu sp = ug_udp_mtu s" "pri_mtu (rp_input rp) = ug_udp_mtu s"
       "ppi_state (sp_output sp) = STATE_NONE" "ppi_state (rp_output rp) = STATE_NONE" "pri_state (rp_input rp) = OPERATION_PENDING"
    have hj: "pg_jobs h = [(?k, J_recv_op), (?k, J_writer_op), (?k, J_first)]"
      "pg_objs h = set (con_ids ?k) \<union> pg_objs ?g" by (auto simp: h_def con_ids_def)
    have "pending_wf h" unfolding h_def
      by (rule pending_wf_with_objs [OF w(1)]) (use fr in auto)
    then have "ug_jobs ?t" using s hj unfolding ug_inv_def ug_jobs_def by (auto simp: con_ids_def)
    moreover have "ug_table ?t"
    proof -
      have "local_addr (conaddr c') \<noteq> local_addr ca" if "ug_heap s k' = Some c'" for k' c'
        using find_connection_iff(2) [OF s l(2), of is_dns] f that by blast
      then show ?thesis using s n nk unfolding ug_inv_def ug_table_def by (fastforce split: if_splits)
    qed
    moreover have "con_inv (ug_udp_mtu s) ?k ?c h"
    proof -
      have "runs_before (?k, J_writer_op) (?k, J_first) (pg_jobs h)"
        unfolding runs_before_def hj by (intro exI [of _ "[(?k, J_recv_op), (?k, J_writer_op)]"] exI [of _ "[]"]) simp
      then have "first_ok (ug_udp_mtu s) ?k ?c (pg_jobs h)" using c hd by (simp add: first_ok_def)
      moreover have "con_core (ug_udp_mtu s) ?k ?c h"
        using c hj unfolding con_core_def by (auto simp: sp_unsent_def con_ids_def intro!: exI [of _ "[]"])
      ultimately show ?thesis using l by (simp add: con_inv_def)
    qed
    moreover have "con_inv (ug_udp_mtu s) k' c' h" if "k' \<noteq> ?k" "ug_heap s k' = Some c'" for k' c'
      by (rule con_inv_idle [OF con_of(1) [OF s that(2)] j])
        (use hj con_ids_objs [OF con_of(1) [OF s that(2)]] that(1) in auto)
    ultimately have "ug_inv ?t" using s by (auto simp: ug_inv_def split: if_splits)
    then show ?thesis using i nk hj by (auto intro!: exI [of _ ?t])
  qed
qed

section \<open>Submitting a packet\<close>

text \<open>Making room in the table.\<close>

lemma prepare_ok:
  assumes s: "ug_inv s" and j: "pg_jobs (ug_group s) = []" and f: "find_connection ca is_dns s = None" and l: "ip_wf (local_addr ca)"
  shows "\<exists>t. (if num_connections s = max_connections s then remove_lru_connection ca is_dns s else Some s) = Some t \<and>
    ug_inv t \<and> pg_jobs (ug_group t) = [] \<and> num_connections t < max_connections t \<and>
    find_connection ca is_dns t = None \<and> ug_udp_mtu t = ug_udp_mtu s \<and>
    connections_list t = (if num_connections s = max_connections s then tl (connections_list s) else connections_list s)"
proof (cases "num_connections s = max_connections s")
  case True
  then show ?thesis using remove_lru_ok [OF s j True f l] by auto
next
  case False
  then show ?thesis using s j f by (auto simp: ug_inv_def ug_table_def)
qed

lemma ug_submit_ok:
  assumes s: "ug_inv s" and en: "ug_enabled (Submit e local remote is_dns data) s"
  shows "\<exists>t. SocksUdpGwClient_SubmitPacket e local remote is_dns data s = Some t \<and> ug_inv t"
proof -
  let ?ca = "\<lparr>local_addr = local, remote_addr = remote\<rparr>"
  have p: "pg_jobs (ug_group s) = []" "is_ip local" "ip_wf local" "is_ip remote" "length data \<le> ug_udp_mtu s"
    "header_fits (ug_udp_mtu s) remote is_dns data" using en by simp_all
  have l: "ip_wf (local_addr ?ca)" "is_ip (local_addr ?ca)" using p by simp_all
  show ?thesis
  proof (cases "find_connection ?ca is_dns s")
    case None
    from prepare_ok [OF s p(1) None l(1)] obtain t where t: "(if num_connections s = max_connections s then remove_lru_connection ?ca is_dns s else Some s) = Some t"
      "ug_inv t" "pg_jobs (ug_group t) = []" "num_connections t < max_connections t"
      "find_connection ?ca is_dns t = None" "ug_udp_mtu t = ug_udp_mtu s" by blast
    have "header_fits (ug_udp_mtu t) (remote_addr ?ca) is_dns data" using p(6) t(6) by simp
    from connection_new_ok [OF t(2,3,4,5) l(2,1) this] obtain r u where
      "connection_init e ?ca data is_dns t = Some (r, u)" "ug_inv u" by blast
    then show ?thesis using p t(1) None by (auto simp: SocksUdpGwClient_SubmitPacket_def Let_def)
  next
    case (Some k)
    then obtain c where c: "ug_heap s k = Some c" "local_addr (conaddr c) = local"
      using find_connection_iff(1) [OF s l(1)] by auto
    have a: "local_addr ?ca = local_addr (conaddr c)" "header_fits (ug_udp_mtu s) (remote_addr ?ca) is_dns data"
      using c(2) p(6) by simp_all
    from submit_existing_ok [OF s c(1) p(1) a] obtain dropped t g where t:
      "connection_send data (reset_connection ?ca is_dns c) (ug_group s) = Some (dropped, t, g)" "ug_inv (set_con k t g s)"
      by blast
    have tab: "distinct (connections_list s)" "k \<in> set (connections_list s)" using s c(1) by (auto simp: ug_inv_def ug_table_def)
    have "ug_inv ((set_con k t g s)\<lparr>connections_list := remove1 k (connections_list s) @ [k]\<rparr>)"
      by (rule ug_inv_reorder) (use t(2) tab length_pos_if_in_set [OF tab(2)] in \<open>auto simp: set_remove1_eq length_remove1\<close>)
    then show ?thesis using p Some c(1) t by (simp add: SocksUdpGwClient_SubmitPacket_def Let_def)
  qed
qed

lemma ug_run_ok:
  assumes "ug_inv s" "ug_enabled ev s"
  shows "\<exists>t. ug_run ev s = Some t \<and> ug_inv t"
proof (cases ev)
  case (Submit e l r d x)
  then show ?thesis using ug_submit_ok [of s e l r d x] assms by simp
next
  case (RunJob now d)
  then show ?thesis using run_head_ok [of s now d] assms by simp
next
  case (DgramSent k)
  then show ?thesis using sent_event_ok [of s k] assms by simp
next
  case (DgramReceived k d)
  then show ?thesis using received_event_ok [of s k d] assms by simp
qed

lemma ug_inv_init: "ug_init s \<Longrightarrow> ug_inv s"
  using pending_wf_init by (auto simp: ug_init_def SocksUdpGwClient_Init_def ug_inv_def ug_table_def ug_jobs_def udpgw_compute_mtu_def
      BPendingGroup_Init_def Let_def)

interpretation udp_relay: inductive_invariant ug_init ug_step ug_inv
proof
  show "ug_inv s" if "ug_init s" for s using that by (rule ug_inv_init)
  show "ug_inv t" if "ug_inv s" "ug_step s t" for s t
    using that(2)
  proof cases
    case (1 ev)
    then show ?thesis using ug_run_ok [OF that(1) 1(1)] by simp
  qed
qed


section \<open>Releasing the client\<close>

lemma free_cons_ok:
  assumes "pending_wf (ug_group s)" "distinct ks" "connections_list s = ks" "set (connections_tree s) = set ks" "distinct (connections_tree s)"
    "num_connections s = int (length ks)" "dom (ug_heap s) = set ks"
    "\<And>k c. ug_heap s k = Some c \<Longrightarrow> sp_ids (con_send c) = send_ids k \<and> rp_ids (con_recv c) = recv_ids k \<and>
       set (send_ids k) \<subseteq> pg_objs (ug_group s) \<and> set (recv_ids k) \<subseteq> pg_objs (ug_group s)"
  shows "\<exists>t. free_cons ks s = Some t \<and> ug_heap t = (\<lambda>_. None) \<and> connections_list t = [] \<and> num_connections t = 0 \<and>
    pending_wf (ug_group t) \<and> (\<forall>k. (k, J_first) \<in> pg_objs (ug_group s) \<longrightarrow> (k, J_first) \<in> pg_objs (ug_group t)) \<and>
    (\<forall>k \<in> set ks. set (send_ids k) \<inter> pg_objs (ug_group t) = {} \<and> set (recv_ids k) \<inter> pg_objs (ug_group t) = {}) \<and>
    pg_objs (ug_group t) \<subseteq> pg_objs (ug_group s)"
  using assms
proof (induction ks arbitrary: s)
  case Nil
  then have "ug_heap s = (\<lambda>_. None)" by auto
  then show ?case using Nil by auto
next
  case (Cons k ks)
  then have "k \<in> dom (ug_heap s)" by simp
  then obtain c where c: "ug_heap s k = Some c" by blast
  have kt: "k \<in> set (connections_list s)" "k \<in> set (connections_tree s)" using Cons.prems by auto
  note ids = Cons.prems(8) [OF c]
  from connection_free_ok [OF Cons.prems(1) c kt conjunct1 [OF ids] conjunct1 [OF conjunct2 [OF ids]]] ids obtain g where g:
    "connection_free k s = Some (s\<lparr>num_connections := num_connections s - 1,
      connections_list := remove1 k (connections_list s), connections_tree := remove1 k (connections_tree s),
      ug_heap := (ug_heap s)(k := None), ug_group := g\<rparr>)" "pending_wf g"
    "pg_objs g = pg_objs (ug_group s) - set (send_ids k) - set (recv_ids k)" by blast
  let ?u = "s\<lparr>num_connections := num_connections s - 1,
      connections_list := remove1 k (connections_list s), connections_tree := remove1 k (connections_tree s),
      ug_heap := (ug_heap s)(k := None), ug_group := g\<rparr>"
  have du: "dom (ug_heap ?u) = set ks" using Cons.prems(2,7) by auto
  have "\<exists>t. free_cons ks ?u = Some t \<and> ug_heap t = (\<lambda>_. None) \<and> connections_list t = [] \<and> num_connections t = 0 \<and>
    pending_wf (ug_group t) \<and> (\<forall>k. (k, J_first) \<in> pg_objs (ug_group ?u) \<longrightarrow> (k, J_first) \<in> pg_objs (ug_group t)) \<and>
    (\<forall>k \<in> set ks. set (send_ids k) \<inter> pg_objs (ug_group t) = {} \<and> set (recv_ids k) \<inter> pg_objs (ug_group t) = {}) \<and>
    pg_objs (ug_group t) \<subseteq> pg_objs (ug_group ?u)"
  proof (rule Cons.IH)
    fix k' c'
    assume "ug_heap ?u k' = Some c'"
    then have k': "k' \<noteq> k" "ug_heap s k' = Some c'" by (auto split: if_splits)
    have "set (send_ids k') \<inter> set (send_ids k) = {}" "set (send_ids k') \<inter> set (recv_ids k) = {}"
      "set (recv_ids k') \<inter> set (send_ids k) = {}" "set (recv_ids k') \<inter> set (recv_ids k) = {}"
      using k'(1) by (auto simp: send_ids_def recv_ids_def)
    then show "sp_ids (con_send c') = send_ids k' \<and> rp_ids (con_recv c') = recv_ids k' \<and>
       set (send_ids k') \<subseteq> pg_objs (ug_group ?u) \<and> set (recv_ids k') \<subseteq> pg_objs (ug_group ?u)"
      using Cons.prems(8) [OF k'(2)] g(3) by auto
  next
    show "dom (ug_heap ?u) = set ks" by (rule du)
  qed (use Cons.prems(2-6) g(2) in \<open>auto simp: set_remove1_eq\<close>)
  then obtain t where t: "free_cons ks ?u = Some t" "ug_heap t = (\<lambda>_. None)" "connections_list t = []" "num_connections t = 0"
    "pending_wf (ug_group t)" "\<forall>k. (k, J_first) \<in> pg_objs (ug_group ?u) \<longrightarrow> (k, J_first) \<in> pg_objs (ug_group t)"
    "\<forall>k \<in> set ks. set (send_ids k) \<inter> pg_objs (ug_group t) = {} \<and> set (recv_ids k) \<inter> pg_objs (ug_group t) = {}"
    "pg_objs (ug_group t) \<subseteq> pg_objs (ug_group ?u)" by blast
  have "(x, J_first) \<in> pg_objs g" if "(x, J_first) \<in> pg_objs (ug_group s)" for x
    using that g(3) by (auto simp: send_ids_def recv_ids_def)
  moreover have "pg_objs g \<inter> set (send_ids k) = {}" "pg_objs g \<inter> set (recv_ids k) = {}" using g(3) by auto
  ultimately show ?case using g(1,3) t by (intro exI [of _ t]) auto
qed

section \<open>Idle states\<close>

lemma sp_idle:
  assumes i: "sp_inv num p g q pend"
  shows "pg_jobs g = [] \<longrightarrow>
    (sp_unsent p q pend \<noteq> [] \<longrightarrow> ppi_state (sp_output p) = BUSY) \<and> (length (sp_unsent p q pend) < num \<longrightarrow> out_have p)"
proof
  assume j: "pg_jobs g = []"
  then have s: "pri_state (sp_input p) \<noteq> OPERATION_PENDING" "pri_state (sp_input p) \<noteq> DONE_PENDING"
    "ppi_state (sp_output p) \<noteq> OPERATION_PENDING" "ppi_state (sp_output p) \<noteq> DONE_PENDING"
    using i by (auto simp: sp_inv_def sp_jobs_def pri_jobs_def ppi_jobs_def)
  have pend: "pend = None" using i s by (auto simp: sp_inv_def sp_input_ok_def split: if_state.splits)
  then have u: "sp_unsent p q pend = q" using s(4) by (simp add: sp_unsent_def)
  have "ppi_state (sp_output p) = BUSY" if "q \<noteq> []"
    using i s that by (cases "ppi_state (sp_output p)") (auto simp: sp_inv_def sp_output_ok_def split: list.splits)
  moreover have "out_have p" if "length q < num"
  proof -
    have "ring (pb_input_mtu p) num (pb_buf p) q" using i by (simp add: sp_inv_def)
    from ring_capacity [OF this that] have "\<exists>dest. has_room p dest" by (auto simp: cb_room_def has_room_def)
    then show ?thesis using i s by (auto simp: sp_inv_def sp_input_ok_def split: if_state.splits)
  qed
  ultimately show "(sp_unsent p q pend \<noteq> [] \<longrightarrow> ppi_state (sp_output p) = BUSY) \<and>
    (length (sp_unsent p q pend) < num \<longrightarrow> out_have p)" using u by simp
qed

section \<open>An example run\<close>

fun ug_exec :: "ug_event list \<Rightarrow> SocksUdpGwClient \<Rightarrow> SocksUdpGwClient option" where
  "ug_exec [] s = Some s"
| "ug_exec (ev # evs) s = (if ug_enabled ev s then do { t \<leftarrow> ug_run ev s; ug_exec evs t } else None)"

definition ex_env :: ug_env where
  "ex_env = \<lparr>env_malloc = True, env_dgram = True, env_reuse = True, env_ring_ok = True, env_buf_ok = True,
     env_junk = (\<lambda>_. 0)\<rparr>"

definition ex_ug_init :: SocksUdpGwClient where
  "ex_ug_init = the (SocksUdpGwClient_Init 12 1 (BADDR_IPV4 1 2) (BADDR_IPV4 3 4))"

definition ex_submit :: ug_event where
  "ex_submit = Submit ex_env (BADDR_IPV4 10 20) (BADDR_IPV4 30 40) False [7, 8]"

text \<open>The first packet is about to be written, and the connection is idle after it.\<close>

definition ex_first :: SocksUdpGwClient where
  "ex_first = the (ug_exec (ex_submit # replicate 2 (RunJob False None)) ex_ug_init)"

definition ex_idle :: SocksUdpGwClient where
  "ex_idle = the (ug_exec (ex_submit # replicate 6 (RunJob False None)) ex_ug_init)"

definition ex_con :: SocksUdpGwClient_connection where
  "ex_con = the (ug_heap ex_idle 0)"

lemma ug_exec_reach:
  "reach ug_init ug_step s \<Longrightarrow> ug_exec evs s = Some t \<Longrightarrow> reach ug_init ug_step t"
proof (induction evs arbitrary: s)
  case (Cons ev evs)
  then obtain u where u: "ug_enabled ev s" "ug_run ev s = Some u" "ug_exec evs u = Some t"
    by (auto simp: bind_Some_iff split: if_splits)
  then have "reach ug_init ug_step u" using Cons.prems(1) by (blast intro: reach_step ug_step.intros)
  then show ?case using Cons.IH [of u] u(3) by auto
qed simp

lemma ex_ug_reach:
  assumes "ug_exec (ex_submit # replicate n (RunJob False None)) ex_ug_init \<noteq> None"
  shows "reach ug_init ug_step (the (ug_exec (ex_submit # replicate n (RunJob False None)) ex_ug_init))"
proof -
  have "SocksUdpGwClient_Init 12 1 (BADDR_IPV4 1 2) (BADDR_IPV4 3 4) = Some ex_ug_init"
    by (simp add: ex_ug_init_def SocksUdpGwClient_Init_def BAddr_IsInvalid_def baddr_type_def)
  then have "ug_init ex_ug_init" unfolding ug_init_def
    by (intro exI [of _ 12] exI [of _ 1] exI [of _ "BADDR_IPV4 1 2"] exI [of _ "BADDR_IPV4 3 4"]) simp
  then have "reach ug_init ug_step ex_ug_init" by (rule reach_init)
  moreover obtain t where "ug_exec (ex_submit # replicate n (RunJob False None)) ex_ug_init = Some t"
    using assms by blast
  ultimately show ?thesis using ug_exec_reach by (metis option.sel)
qed

lemma ex_first_reach: "reach ug_init ug_step ex_first"
proof -
  have "ug_exec (ex_submit # replicate 2 (RunJob False None)) ex_ug_init \<noteq> None" by code_simp
  from ex_ug_reach [OF this] show ?thesis unfolding ex_first_def .
qed

text \<open>What the examples use of the idle state, computed in one evaluation.\<close>

definition ex_view :: "SocksUdpGwClient option \<Rightarrow> (bool \<times> ug_job list \<times> BAddr \<times> nat \<times> int \<times> int \<times> nat list \<times> nat option) option" where
  "ex_view r = do { s \<leftarrow> r; c \<leftarrow> ug_heap s 0;
     Some (out_have (con_send c), pg_jobs (ug_group s), local_addr (conaddr c), ug_udp_mtu s,
       num_connections s, max_connections s, connections_list s,
       find_connection \<lparr>local_addr = BADDR_IPV4 11 20, remote_addr = BADDR_IPV4 30 40\<rparr> False s) }"

lemma ex_idle_view: "ex_view (ug_exec (ex_submit # replicate 6 (RunJob False None)) ex_ug_init) =
    Some (True, [], BADDR_IPV4 10 20, 12, 1, 1, [0], None)"
  by code_simp

lemma ex_view_Some: "ex_view r = Some v \<Longrightarrow> r = Some (the r)"
  by (auto simp: ex_view_def bind_Some_iff)

lemma ex_idle_run: "ug_exec (ex_submit # replicate 6 (RunJob False None)) ex_ug_init = Some ex_idle"
  unfolding ex_idle_def by (rule ex_view_Some [OF ex_idle_view])

lemma ex_idle_reach: "reach ug_init ug_step ex_idle"
proof -
  have "ug_exec (ex_submit # replicate 6 (RunJob False None)) ex_ug_init \<noteq> None"
    unfolding ex_idle_run by (rule option.distinct)
  from ex_ug_reach [OF this] show ?thesis unfolding ex_idle_run option.sel .
qed

lemma ex_con_heap: "ug_heap ex_idle 0 = Some ex_con"
  using ex_idle_view unfolding ex_idle_run by (auto simp: ex_view_def ex_con_def bind_Some_iff)

lemma ex_idle_facts: "out_have (con_send ex_con)" "pg_jobs (ug_group ex_idle) = []"
  "local_addr (conaddr ex_con) = BADDR_IPV4 10 20" "ug_udp_mtu ex_idle = 12"
  "num_connections ex_idle = 1" "max_connections ex_idle = 1" "connections_list ex_idle = [0]"
  "find_connection \<lparr>local_addr = BADDR_IPV4 11 20, remote_addr = BADDR_IPV4 30 40\<rparr> False ex_idle = None"
  using ex_idle_view unfolding ex_idle_run by (simp_all add: ex_view_def ex_con_heap)

section \<open>Properties\<close>



text \<open>
  C4 The relay neither loses, reorders nor changes the packets it accepted: what a connection's socket has sent is a
  prefix of the messages accepted for the connection, and it never stalls: when no job is pending and a
  message is waiting, the socket is busy sending, and the writer takes another message unless 64 are waiting.
\<close>

theorem udp_relay_integrity:
  assumes "reach ug_init ug_step s" and "ug_heap s k = Some c"
  shows "\<exists>rest. con_accepted c = con_sent c @ rest \<and>
    (pg_jobs (ug_group s) = [] \<longrightarrow>
       (rest \<noteq> [] \<longrightarrow> ppi_state (sp_output (con_send c)) = BUSY) \<and>
       (length rest < CONNECTION_UDP_BUFFER_SIZE \<longrightarrow> out_have (con_send c)))"
proof -
  have core: "con_core (ug_udp_mtu s) k c (ug_group s)" by (rule con_of(2) [OF udp_relay.always [OF assms(1)] assms(2)])
  then obtain q pend where i: "sp_inv CONNECTION_UDP_BUFFER_SIZE (con_send c) (ug_group s) q pend"
    "con_accepted c = con_sent c @ sp_unsent (con_send c) q pend" by (auto simp: con_core_def)
  from sp_idle [OF i(1)] i(2) show ?thesis by blast
qed

theorem udp_relay_integrity_witness:
  "\<exists>rest. con_accepted ex_con = con_sent ex_con @ rest \<and> (length rest < 64 \<longrightarrow> out_have (con_send ex_con))"
  using udp_relay_integrity [OF ex_idle_reach ex_con_heap] ex_idle_facts(2)
  by (auto simp: CONNECTION_UDP_BUFFER_SIZE_def)

text \<open>
  C34 The first packet of a new connection is not lost, although the buffer is not ready when the connection is created:
  whenever the job that sends it runs, the writer has been given its place, and the message is accepted.
\<close>

theorem udp_first_packet_accepted:
  assumes "reach ug_init ug_step s" and "pg_jobs (ug_group s) = (k, J_first) # js"
  shows "\<exists>c t g. ug_heap s k = Some c \<and>
    connection_send (first_data c) c ((ug_group s)\<lparr>pg_jobs := js\<rparr>) = Some (False, t, g) \<and>
    con_accepted t = [udp_message (con_is_dns c) (remote_addr (conaddr c)) (first_data c)]"
proof -
  note i = udp_relay.always [OF assms(1)]
  obtain c where c: "ug_heap s k = Some c" using i assms(2) by (auto simp: ug_inv_def ug_jobs_def)
  have "distinct (pg_jobs (ug_group s))" using i by (simp add: ug_inv_def ug_jobs_def pending_wf_def)
  from first_send_ok [OF con_of(1) [OF i c] assms(2) this] c show ?thesis by blast
qed

theorem udp_first_packet_accepted_witness:
  "\<exists>c t g. ug_heap ex_first 0 = Some c \<and>
    connection_send (first_data c) c ((ug_group ex_first)\<lparr>pg_jobs := []\<rparr>) = Some (False, t, g)"
proof -
  have "pg_jobs (ug_group ex_first) = [(0, J_first)]" by code_simp
  from udp_first_packet_accepted [OF ex_first_reach this] show ?thesis by blast
qed

text \<open>
  C33 The table of connections: its counter, list, tree and heap agree, it never exceeds the limit, and no two
  connections have the same local address.
\<close>

theorem udp_connections_bounded:
  assumes "reach ug_init ug_step s"
  shows "num_connections s = int (length (connections_list s)) \<and> num_connections s \<le> max_connections s \<and>
    distinct (connections_list s) \<and> set (connections_list s) = dom (ug_heap s) \<and>
    set (connections_tree s) = dom (ug_heap s) \<and>
    inj_on (\<lambda>k. local_addr (conaddr (the (ug_heap s k)))) (dom (ug_heap s))"
  using udp_relay.always [OF assms] by (auto simp: ug_inv_def ug_table_def inj_on_def)

theorem udp_connections_bounded_witness: "num_connections ex_idle \<le> max_connections ex_idle"
  using udp_connections_bounded [OF ex_idle_reach] by blast



text \<open>
  C39 Releasing the client frees every connection, but not the job of its first packet: the job objects stay
  registered, so that the group of the reactor cannot be freed in a debug build once a connection existed.
\<close>

theorem udp_free_leaves_first_jobs:
  assumes "reach ug_init ug_step s"
  shows "\<exists>t. SocksUdpGwClient_Free s = Some t \<and> ug_heap t = (\<lambda>_. None) \<and> num_connections t = 0 \<and>
    (\<forall>k \<in> dom (ug_heap s). \<forall>i. (k, i) \<in> pg_objs (ug_group t) \<longleftrightarrow> i = J_first) \<and>
    (dom (ug_heap s) \<noteq> {} \<longrightarrow> BPendingGroup_Free (ug_group t) = None)"
proof -
  note i = udp_relay.always [OF assms]
  have tab: "pending_wf (ug_group s)" "distinct (connections_list s)" "set (connections_tree s) = set (connections_list s)"
    "distinct (connections_tree s)" "num_connections s = int (length (connections_list s))" "dom (ug_heap s) = set (connections_list s)"
    using i by (auto simp: ug_inv_def ug_table_def ug_jobs_def)
  have ids: "sp_ids (con_send c) = send_ids k \<and> rp_ids (con_recv c) = recv_ids k \<and>
       set (send_ids k) \<subseteq> pg_objs (ug_group s) \<and> set (recv_ids k) \<subseteq> pg_objs (ug_group s)" if "ug_heap s k = Some c" for k c
    using con_of(2) [OF i that] con_ids_objs [OF con_of(1) [OF i that]] by (auto simp: con_core_def)
  from free_cons_ok [OF tab(1,2) refl tab(3,4,5,6) ids] obtain t where t: "free_cons (connections_list s) s = Some t"
    "ug_heap t = (\<lambda>_. None)" "num_connections t = 0" "pending_wf (ug_group t)"
    "\<forall>k. (k, J_first) \<in> pg_objs (ug_group s) \<longrightarrow> (k, J_first) \<in> pg_objs (ug_group t)"
    "\<forall>k \<in> dom (ug_heap s). set (send_ids k) \<inter> pg_objs (ug_group t) = {} \<and> set (recv_ids k) \<inter> pg_objs (ug_group t) = {}"
    using tab(6) by auto
  have f: "(k, J_first) \<in> pg_objs (ug_group t)" if "k \<in> dom (ug_heap s)" for k
    using that t(5) con_ids_objs(3) con_of(1) [OF i] by blast
  have l: "(k, i) \<in> pg_objs (ug_group t) \<longleftrightarrow> i = J_first" if "k \<in> dom (ug_heap s)" for k i
    using f [OF that] t(6) that by (cases i) (auto simp: send_ids_def recv_ids_def)
  have "BPendingGroup_Free (ug_group t) = None" if "dom (ug_heap s) \<noteq> {}"
  proof -
    have "pg_objs (ug_group t) \<noteq> {}" using that f by blast
    then have "pending_ctr (ug_group t) \<noteq> 0" using t(4) by (auto simp: pending_wf_def)
    then show ?thesis by (simp add: BPendingGroup_Free_def ASSERT_def)
  qed
  then show ?thesis using t(1,2,3) l by (intro exI [of _ t]) (simp add: SocksUdpGwClient_Free_def)
qed


theorem udp_free_leaves_first_jobs_witness:
  "\<exists>t. SocksUdpGwClient_Free ex_idle = Some t \<and> BPendingGroup_Free (ug_group t) = None"
proof -
  have "dom (ug_heap ex_idle) \<noteq> {}" using ex_con_heap by blast
  then show ?thesis using udp_free_leaves_first_jobs [OF ex_idle_reach] by blast
qed



text \<open>
  C37 The destination of a connection's socket is fixed when the connection is created: a later packet from the same local
  address is written with or without the SOCKS header according to its own kind, but goes to the old
  destination, so a DNS query after other traffic reaches the SOCKS server without a header, and other
  traffic after a DNS query reaches the DNS gateway with one.
\<close>

theorem udp_kind_change_keeps_destination:
  assumes r: "reach ug_init ug_step s" and en: "ug_enabled (Submit e local remote is_dns data) s"
    and k: "ug_heap s k = Some c" "local_addr (conaddr c) = local" "out_have (con_send c)"
  shows "\<exists>t c'. ug_run (Submit e local remote is_dns data) s = Some t \<and> ug_heap t k = Some c' \<and>
    con_accepted c' = con_accepted c @ [udp_message is_dns remote data] \<and> dgram_dest c' = dgram_dest c"
proof -
  let ?ca = "\<lparr>local_addr = local, remote_addr = remote\<rparr>"
  note i = udp_relay.always [OF r]
  have p: "pg_jobs (ug_group s) = []" "is_ip local" "ip_wf local" "is_ip remote" "length data \<le> ug_udp_mtu s"
    "header_fits (ug_udp_mtu s) remote is_dns data" using en by simp_all
  have l: "ip_wf (local_addr ?ca)" using p by simp
  have f: "find_connection ?ca is_dns s = Some k" using find_connection_iff(1) [OF i l] k by auto
  have a: "local_addr ?ca = local_addr (conaddr c)" "header_fits (ug_udp_mtu s) (remote_addr ?ca) is_dns data"
    using k(2) p(6) by simp_all
  show ?thesis using submit_existing_ok [OF i k(1) p(1) a] p f k
    by (auto simp: SocksUdpGwClient_SubmitPacket_def Let_def)
qed

theorem udp_kind_change_keeps_destination_witness:
  "\<exists>t c. ug_run (Submit ex_env (BADDR_IPV4 10 20) (BADDR_IPV4 30 40) True [9]) ex_idle = Some t \<and>
    ug_heap t 0 = Some c \<and> con_accepted c = con_accepted ex_con @ [[9]] \<and> dgram_dest c = BADDR_IPV4 1 2"
proof -
  have en: "ug_enabled (Submit ex_env (BADDR_IPV4 10 20) (BADDR_IPV4 30 40) True [9]) ex_idle" by code_simp
  have "dgram_dest ex_con = BADDR_IPV4 1 2" by code_simp
  then show ?thesis
    using udp_kind_change_keeps_destination [OF ex_idle_reach en ex_con_heap ex_idle_facts(3,1)]
    by (simp add: udp_message_def)
qed

text \<open>
  C38 The bound that the buffers do not have room for: a packet of at most \<open>udp_mtu\<close> bytes, which the callers are allowed to
  submit, fails in the writer when its message with the SOCKS header is longer than \<open>udp_mtu\<close>, because the
  writer, the ring and the socket were all created for \<open>udp_mtu\<close> bytes.
\<close>

theorem udp_header_overflows_writer:
  assumes r: "reach ug_init ug_step s" and j: "pg_jobs (ug_group s) = []"
    and k: "ug_heap s k = Some c" "out_have (con_send c)"
    and big: "length data \<le> ug_udp_mtu s" "ug_udp_mtu s < length (udp_message is_dns remote data)"
  shows "SocksUdpGwClient_SubmitPacket e (local_addr (conaddr c)) remote is_dns data s = None"
proof -
  let ?ca = "\<lparr>local_addr = local_addr (conaddr c), remote_addr = remote\<rparr>"
  note i = udp_relay.always [OF r]
  have ci: "con_inv (ug_udp_mtu s) k c (ug_group s)" by (rule con_of(1) [OF i k(1)])
  then have l: "ip_wf (local_addr ?ca)" by (simp add: con_inv_def)
  have f: "find_connection ?ca is_dns s = Some k" using find_connection_iff(1) [OF i l] k by auto
  have m: "pri_mtu (sp_input (con_send c)) = ug_udp_mtu s" "\<not> d_writing (con_send c)"
    using ci by (auto simp: con_inv_def con_core_def sp_inv_def sp_input_ok_def)
  have w: "sp_input p = sp_input (con_send c)" if "write_out x ((con_send c)\<lparr>d_writing := True\<rparr>) = Some p" for x p
    using that by (auto simp: write_out_def bind_Some_iff)
  have "connection_send data (reset_connection ?ca is_dns c) (ug_group s) = None"
  proof (cases "write_out (udp_message is_dns remote data) ((con_send c)\<lparr>d_writing := True\<rparr>)")
    case None
    then show ?thesis using m k(2)
      by (simp add: connection_send_def reset_connection_def BufferWriter_StartPacket_def Let_def)
  next
    case (Some p)
    then show ?thesis using big(2) m k(2) w [OF Some]
      by (simp add: connection_send_def reset_connection_def BufferWriter_StartPacket_def BufferWriter_EndPacket_def Let_def)
  qed
  then show ?thesis using f k(1) by (auto simp: SocksUdpGwClient_SubmitPacket_def Let_def ASSERT_def)
qed

theorem udp_header_overflows_writer_witness:
  "SocksUdpGwClient_SubmitPacket ex_env (BADDR_IPV4 10 20) (BADDR_IPV4 30 40) False (replicate 12 0) ex_idle = None"
  using udp_header_overflows_writer [OF ex_idle_reach ex_idle_facts(2) ex_con_heap ex_idle_facts(1),
      of "replicate 12 0" False "BADDR_IPV4 30 40" ex_env] ex_idle_facts(3,4)
  by (simp add: udp_message_def socks_udp_header_def)

end
