(* ===== verification/BAVL.thy ===== *)
theory BAVL
  imports BAddr "HOL-Library.Monad_Syntax"
begin

text \<open>
  The balanced search tree \<open>structure/BAVL.h\<close> that holds the connections of the UDP relay.  The tree is
  modelled as the code has it: nodes in memory that point to their parent and their two children and carry
  a balance factor, changed by pointer assignments.  A dereference of a null or dangling pointer and a failed
  assertion are \<^term>\<open>None\<close>; a loop that does not end is \<^term>\<open>None\<close> as well, by \<open>partial_function (option)\<close>.

  The memory is related to a tree of addresses, cut at one place: the subtree below the cut and the path from
  the cut to the root.  Each operation is first described on one such cut.  The theorem is that a sequence of
  insertions, removals and lookups behaves as a list sorted by the comparator, that the tree stays balanced,
  and that no operation touches memory outside the tree.
\<close>

section \<open>Nodes and memory\<close>

record BAVLNode =
  parent :: "nat option"
  link0 :: "nat option"
  link1 :: "nat option"
  balance :: int

record BAVL =
  root :: "nat option"
  nodes :: "nat \<Rightarrow> BAVLNode option"

definition link :: "BAVLNode \<Rightarrow> bool \<Rightarrow> nat option" where
  "link n side = (if side then link1 n else link0 n)"

definition set_link :: "bool \<Rightarrow> nat option \<Rightarrow> BAVLNode \<Rightarrow> BAVLNode" where
  "set_link side p n = (if side then n\<lparr>link1 := p\<rparr> else n\<lparr>link0 := p\<rparr>)"

definition set_parent :: "nat option \<Rightarrow> BAVLNode \<Rightarrow> BAVLNode" where
  "set_parent p n = n\<lparr>parent := p\<rparr>"

text \<open>A store through a pointer, and a store to the child of a pointer if there is one.\<close>

definition modify :: "BAVL \<Rightarrow> nat \<Rightarrow> (BAVLNode \<Rightarrow> BAVLNode) \<Rightarrow> BAVL option" where
  "modify t a f =
     (case nodes t a of
        None \<Rightarrow> None
      | Some n \<Rightarrow> Some (t\<lparr>nodes := (nodes t)(a := Some (f n))\<rparr>))"

definition modify_if :: "BAVL \<Rightarrow> nat option \<Rightarrow> (BAVLNode \<Rightarrow> BAVLNode) \<Rightarrow> BAVL option" where
  "modify_if t p f = (case p of None \<Rightarrow> Some t | Some a \<Rightarrow> modify t a f)"

text \<open>The recurring assignment \<open>p->link[old == p->link[1]] = new\<close>, or to the root when there is no parent.\<close>

definition relink :: "BAVL \<Rightarrow> nat option \<Rightarrow> nat \<Rightarrow> nat option \<Rightarrow> BAVL option" where
  "relink t p old new =
     (case p of
        None \<Rightarrow> Some (t\<lparr>root := new\<rparr>)
      | Some a \<Rightarrow>
          do { an \<leftarrow> nodes t a;
               modify t a (set_link (link an True = Some old) new) })"

text \<open>The conversion to \<open>int8_t\<close> and the macro \<open>BAVL_OPTNEG\<close>.\<close>

definition int8 :: "int \<Rightarrow> int" where
  "int8 x = (x + 128) mod 256 - 128"

definition BAVL_OPTNEG :: "int \<Rightarrow> bool \<Rightarrow> int" where
  "BAVL_OPTNEG a neg = (if neg then - a else a)"

definition set_balance :: "int \<Rightarrow> BAVLNode \<Rightarrow> BAVLNode" where
  "set_balance b n = n\<lparr>balance := int8 b\<rparr>"

section \<open>The operations of the tree\<close>

definition BAVL_rotate :: "BAVL \<Rightarrow> nat \<Rightarrow> bool \<Rightarrow> BAVL option" where
  "BAVL_rotate t r dir =
     do { rn \<leftarrow> nodes t r;
          nr \<leftarrow> link rn (\<not> dir);
          nrn \<leftarrow> nodes t nr;
          t \<leftarrow> modify t r (set_link (\<not> dir) (link nrn dir));
          t \<leftarrow> modify_if t (link nrn dir) (set_parent (Some r));
          t \<leftarrow> modify t nr (set_link dir (Some r));
          rn \<leftarrow> nodes t r;
          t \<leftarrow> modify t nr (set_parent (parent rn));
          t \<leftarrow> relink t (parent rn) r (Some nr);
          modify t r (set_parent (Some nr)) }"

partial_function (option) subtree_end :: "bool \<Rightarrow> BAVL \<Rightarrow> nat \<Rightarrow> nat option" where
  "subtree_end side t n =
     do { nn \<leftarrow> nodes t n;
          case link nn side of None \<Rightarrow> Some n | Some c \<Rightarrow> subtree_end side t c }"

definition BAVL_subtree_max :: "BAVL \<Rightarrow> nat \<Rightarrow> nat option" where
  "BAVL_subtree_max t n = subtree_end True t n"

definition BAVL_replace_subtree :: "BAVL \<Rightarrow> nat \<Rightarrow> nat option \<Rightarrow> BAVL option" where
  "BAVL_replace_subtree t dest n =
     do { dn \<leftarrow> nodes t dest;
          t \<leftarrow> relink t (parent dn) dest n;
          dn \<leftarrow> nodes t dest;
          modify_if t n (set_parent (parent dn)) }"

text \<open>
  \<open>_BAVL_swap_nodes\<close> when \<open>n2\<close> is a child of \<open>n1\<close>, when the nodes are not connected, and the whole.
\<close>

definition swap_connected :: "BAVL \<Rightarrow> nat \<Rightarrow> nat \<Rightarrow> BAVL option" where
  "swap_connected t n1 n2 =
     do { x1 \<leftarrow> nodes t n1;
          x2 \<leftarrow> nodes t n2;
          let side = (link x1 True = Some n2);
          let c = link x1 (\<not> side);
          t \<leftarrow> modify t n1 (set_link False (link x2 False));
          t \<leftarrow> modify_if t (link x2 False) (set_parent (Some n1));
          x2 \<leftarrow> nodes t n2;
          t \<leftarrow> modify t n1 (set_link True (link x2 True));
          t \<leftarrow> modify_if t (link x2 True) (set_parent (Some n1));
          x1 \<leftarrow> nodes t n1;
          t \<leftarrow> modify t n2 (set_parent (parent x1));
          t \<leftarrow> relink t (parent x1) n1 (Some n2);
          t \<leftarrow> modify t n2 (set_link side (Some n1));
          t \<leftarrow> modify t n1 (set_parent (Some n2));
          t \<leftarrow> modify t n2 (set_link (\<not> side) c);
          modify_if t c (set_parent (Some n2)) }"

definition swap_children :: "BAVL \<Rightarrow> nat \<Rightarrow> nat \<Rightarrow> bool \<Rightarrow> BAVL option" where
  "swap_children t n1 n2 side =
     do { x1 \<leftarrow> nodes t n1;
          x2 \<leftarrow> nodes t n2;
          t \<leftarrow> modify t n1 (set_link side (link x2 side));
          t \<leftarrow> modify_if t (link x2 side) (set_parent (Some n1));
          t \<leftarrow> modify t n2 (set_link side (link x1 side));
          modify_if t (link x1 side) (set_parent (Some n2)) }"

definition swap_distant :: "BAVL \<Rightarrow> nat \<Rightarrow> nat \<Rightarrow> BAVL option" where
  "swap_distant t n1 n2 =
     do { x1 \<leftarrow> nodes t n1;
          x2 \<leftarrow> nodes t n2;
          t \<leftarrow> modify t n1 (set_parent (parent x2));
          t \<leftarrow> relink t (parent x2) n2 (Some n1);
          t \<leftarrow> modify t n2 (set_parent (parent x1));
          t \<leftarrow> relink t (parent x1) n1 (Some n2);
          t \<leftarrow> swap_children t n1 n2 False;
          swap_children t n1 n2 True }"

definition BAVL_swap_nodes :: "BAVL \<Rightarrow> nat \<Rightarrow> nat \<Rightarrow> BAVL option" where
  "BAVL_swap_nodes t n1 n2 =
     do { x1 \<leftarrow> nodes t n1;
          x2 \<leftarrow> nodes t n2;
          t \<leftarrow> (if parent x1 = Some n2 then swap_connected t n2 n1
               else if parent x2 = Some n1 then swap_connected t n1 n2
               else swap_distant t n1 n2);
          x1 \<leftarrow> nodes t n1;
          x2 \<leftarrow> nodes t n2;
          t \<leftarrow> modify t n1 (set_balance (balance x2));
          modify t n2 (set_balance (balance x1)) }"

text \<open>
  \<open>_BAVL_rebalance\<close>: the transformation of one node, which gives the node that is now on top and the
  change of the height, and the recursion to its parent.
\<close>

definition rebalance_rotate :: "BAVL \<Rightarrow> nat \<Rightarrow> int \<Rightarrow> bool \<Rightarrow> int \<Rightarrow> (BAVL \<times> nat \<times> int) option" where
  "rebalance_rotate t node delta bside bsidef =
     do { n \<leftarrow> nodes t node;
          child \<leftarrow> link n bside;
          cn \<leftarrow> nodes t child;
          if balance cn * bsidef = 1 then
            do { t \<leftarrow> BAVL_rotate t node (\<not> bside);
                 t \<leftarrow> modify t node (set_balance 0);
                 t \<leftarrow> modify t child (set_balance 0);
                 Some (t, child, int8 (delta - 1)) }
          else if balance cn * bsidef = 0 then
            do { t \<leftarrow> BAVL_rotate t node (\<not> bside);
                 t \<leftarrow> modify t node (set_balance (1 * bsidef));
                 t \<leftarrow> modify t child (set_balance (- 1 * bsidef));
                 Some (t, child, delta) }
          else if balance cn * bsidef = - 1 then
            do { gchild \<leftarrow> link cn (\<not> bside);
                 t \<leftarrow> BAVL_rotate t child bside;
                 t \<leftarrow> BAVL_rotate t node (\<not> bside);
                 gn \<leftarrow> nodes t gchild;
                 t \<leftarrow> modify t node (set_balance (- max 0 (balance gn * bsidef) * bsidef));
                 t \<leftarrow> modify t child (set_balance (max 0 (- balance gn * bsidef) * bsidef));
                 t \<leftarrow> modify t gchild (set_balance 0);
                 Some (t, gchild, int8 (delta - 1)) }
          else None }"

definition rebalance_node :: "BAVL \<Rightarrow> nat \<Rightarrow> bool \<Rightarrow> int \<Rightarrow> (BAVL \<times> nat \<times> int) option" where
  "rebalance_node t node side deltac =
     do { n \<leftarrow> nodes t node;
          ASSERT (- 1 \<le> balance n \<and> balance n \<le> 1)
            (do { let delta = int8 (max deltac (BAVL_OPTNEG (balance n) side) - max 0 (BAVL_OPTNEG (balance n) side));
                  ASSERT (- 1 \<le> delta \<and> delta \<le> 1)
                    (do { t \<leftarrow> modify t node (set_balance (balance n - BAVL_OPTNEG deltac side));
                          n \<leftarrow> nodes t node;
                          if balance n = 2 then rebalance_rotate t node delta True 1
                          else if balance n = - 2 then rebalance_rotate t node delta False (- 1)
                          else Some (t, node, delta) }) }) }"

partial_function (option) BAVL_rebalance :: "BAVL \<Rightarrow> nat \<Rightarrow> bool \<Rightarrow> int \<Rightarrow> BAVL option" where
  "BAVL_rebalance t node side deltac =
     (if \<not> (- 1 \<le> deltac \<and> deltac \<le> 1) then None
      else if deltac = 0 then Some t
      else do { (t, node, delta) \<leftarrow> rebalance_node t node side deltac;
                n \<leftarrow> nodes t node;
                case parent n of
                  None \<Rightarrow> if - 1 \<le> delta \<and> delta \<le> 1 then Some t else None
                | Some p \<Rightarrow>
                    do { pn \<leftarrow> nodes t p;
                         BAVL_rebalance t p (link pn True = Some node) delta } })"

definition BAVL_Init :: "(nat \<Rightarrow> BAVLNode option) \<Rightarrow> BAVL" where
  "BAVL_Init memory = \<lparr>root = None, nodes = memory\<rparr>"

text \<open>
  The descent that \<open>BAVL_Insert\<close>, \<open>BAVL_Lookup\<close> and \<open>BAVL_LookupExact\<close> share: it ends at a node that compares
  equal, or at a node without a child on the side of the value.  \<open>cm c\<close> is what \<open>_BAVL_compare_values\<close> gives for the
  value and the node \<open>c\<close>; its assertion about the result is checked first.
\<close>

partial_function (option) descend ::
    "(nat \<Rightarrow> int) \<Rightarrow> BAVL \<Rightarrow> nat \<Rightarrow> (nat \<times> bool option) option" where
  "descend cm t c =
     do { cn \<leftarrow> nodes t c;
          if \<not> (cm c = - 1 \<or> cm c = 0 \<or> cm c = 1) then None
          else if cm c = 0 then Some (c, None)
          else (case link cn (cm c = 1) of
                  None \<Rightarrow> Some (c, Some (cm c = 1))
                | Some d \<Rightarrow> descend cm t d) }"

definition new_node :: "nat option \<Rightarrow> BAVLNode" where
  "new_node p = \<lparr>parent = p, link0 = None, link1 = None, balance = 0\<rparr>"

text \<open>\<open>BAVL_Insert\<close> gives its return value and \<open>*ref\<close> with the tree.\<close>

definition BAVL_Insert ::
    "('v \<Rightarrow> 'v \<Rightarrow> int) \<Rightarrow> (nat \<Rightarrow> 'v) \<Rightarrow> BAVL \<Rightarrow> nat \<Rightarrow> (bool \<times> nat option \<times> BAVL) option" where
  "BAVL_Insert cmp val t node =
     (case root t of
        None \<Rightarrow>
          do { t \<leftarrow> modify (t\<lparr>root := Some node\<rparr>) node (\<lambda>_. new_node None);
               Some (True, None, t) }
      | Some r \<Rightarrow>
          do { (c, leaf) \<leftarrow> descend (\<lambda>c. cmp (val node) (val c)) t r;
               case leaf of
                 None \<Rightarrow> Some (False, Some c, t)
               | Some side \<Rightarrow>
                   do { t \<leftarrow> modify t c (set_link side (Some node));
                        t \<leftarrow> modify t node (\<lambda>_. new_node (Some c));
                        t \<leftarrow> BAVL_rebalance t c side 1;
                        Some (True, Some c, t) } })"

text \<open>\<open>BAVL_Remove\<close>, from the point where the node has at most one child, and the whole.\<close>

definition remove_node :: "BAVL \<Rightarrow> nat \<Rightarrow> BAVL option" where
  "remove_node t node =
     do { n \<leftarrow> nodes t node;
          ASSERT (\<not> (link0 n \<noteq> None \<and> link1 n \<noteq> None))
            (do { let child = (if link0 n \<noteq> None then link0 n else link1 n);
                  case parent n of
                    Some p \<Rightarrow>
                      do { pn \<leftarrow> nodes t p;
                           let side = (link pn True = Some node);
                           t \<leftarrow> BAVL_replace_subtree t node child;
                           BAVL_rebalance t p side (- 1) }
                  | None \<Rightarrow> BAVL_replace_subtree t node child }) }"

definition BAVL_Remove :: "BAVL \<Rightarrow> nat \<Rightarrow> BAVL option" where
  "BAVL_Remove t node =
     do { n \<leftarrow> nodes t node;
          t \<leftarrow> (case (link0 n, link1 n) of
                 (Some l, Some _) \<Rightarrow>
                   do { m \<leftarrow> BAVL_subtree_max t l;
                        BAVL_swap_nodes t node m }
               | _ \<Rightarrow> Some t);
          remove_node t node }"

definition BAVL_IsEmpty :: "BAVL \<Rightarrow> bool" where
  "BAVL_IsEmpty t = (root t = None)"

definition BAVL_Lookup :: "('v \<Rightarrow> 'v \<Rightarrow> int) \<Rightarrow> (nat \<Rightarrow> 'v) \<Rightarrow> BAVL \<Rightarrow> 'v \<Rightarrow> nat option option" where
  "BAVL_Lookup cmp val t v =
     (case root t of
        None \<Rightarrow> Some None
      | Some r \<Rightarrow> do { (c, leaf) \<leftarrow> descend (\<lambda>c. cmp v (val c)) t r; Some (Some c) })"

definition BAVL_LookupExact :: "('v \<Rightarrow> 'v \<Rightarrow> int) \<Rightarrow> (nat \<Rightarrow> 'v) \<Rightarrow> BAVL \<Rightarrow> 'v \<Rightarrow> nat option option" where
  "BAVL_LookupExact cmp val t v =
     (case root t of
        None \<Rightarrow> Some None
      | Some r \<Rightarrow>
          do { (c, leaf) \<leftarrow> descend (\<lambda>c. cmp v (val c)) t r;
               Some (if leaf = None then Some c else None) })"

definition BAVL_GetFirst :: "BAVL \<Rightarrow> nat option option" where
  "BAVL_GetFirst t =
     (case root t of None \<Rightarrow> Some None | Some r \<Rightarrow> do { n \<leftarrow> subtree_end False t r; Some (Some n) })"

definition BAVL_GetLast :: "BAVL \<Rightarrow> nat option option" where
  "BAVL_GetLast t =
     (case root t of None \<Rightarrow> Some None | Some r \<Rightarrow> do { n \<leftarrow> subtree_end True t r; Some (Some n) })"

text \<open>The ascent of \<open>BAVL_GetNext\<close> (\<open>side\<close> true) and \<open>BAVL_GetPrev\<close>, up to the last assignment.\<close>

partial_function (option) climb :: "bool \<Rightarrow> BAVL \<Rightarrow> nat \<Rightarrow> nat option option" where
  "climb side t n =
     do { nn \<leftarrow> nodes t n;
          case parent nn of
            None \<Rightarrow> Some None
          | Some p \<Rightarrow>
              do { pn \<leftarrow> nodes t p;
                   if link pn side = Some n then climb side t p else Some (Some p) } }"

definition step_from :: "bool \<Rightarrow> BAVL \<Rightarrow> nat \<Rightarrow> nat option option" where
  "step_from side t n =
     do { nn \<leftarrow> nodes t n;
          case link nn side of
            Some c \<Rightarrow> do { e \<leftarrow> subtree_end (\<not> side) t c; Some (Some e) }
          | None \<Rightarrow> climb side t n }"

definition BAVL_GetNext :: "BAVL \<Rightarrow> nat \<Rightarrow> nat option option" where
  "BAVL_GetNext t n = step_from True t n"

definition BAVL_GetPrev :: "BAVL \<Rightarrow> nat \<Rightarrow> nat option option" where
  "BAVL_GetPrev t n = step_from False t n"

text \<open>The self-check of the tree: \<open>_BAVL_assert_recurser\<close> gives the height.\<close>

partial_function (option) BAVL_assert_recurser ::
    "(nat \<Rightarrow> nat \<Rightarrow> int) \<Rightarrow> BAVL \<Rightarrow> nat \<Rightarrow> int option" where
  "BAVL_assert_recurser cm t a =
     do { n \<leftarrow> nodes t a;
          if - 1 \<le> balance n \<and> balance n \<le> 1 then
            do { height_left \<leftarrow>
                   (case link0 n of
                      None \<Rightarrow> Some 0
                    | Some l \<Rightarrow>
                        do { ln \<leftarrow> nodes t l;
                             if parent ln = Some a \<and> cm l a = - 1 then BAVL_assert_recurser cm t l else None });
                 height_right \<leftarrow>
                   (case link1 n of
                      None \<Rightarrow> Some 0
                    | Some r \<Rightarrow>
                        do { rn \<leftarrow> nodes t r;
                             if parent rn = Some a \<and> cm r a = 1 then BAVL_assert_recurser cm t r else None });
                 if balance n = height_right - height_left
                 then Some (max height_left height_right + 1) else None }
          else None }"

definition BAVL_Verify :: "('v \<Rightarrow> 'v \<Rightarrow> int) \<Rightarrow> (nat \<Rightarrow> 'v) \<Rightarrow> BAVL \<Rightarrow> unit option" where
  "BAVL_Verify cmp val t =
     (case root t of
        None \<Rightarrow> Some ()
      | Some r \<Rightarrow>
          do { n \<leftarrow> nodes t r;
               ASSERT (parent n = None)
                 (do { h \<leftarrow> BAVL_assert_recurser (\<lambda>a b. cmp (val a) (val b)) t r; Some () }) })"

declare subtree_end.simps [code] BAVL_rebalance.simps [code] descend.simps [code] climb.simps [code]
  BAVL_assert_recurser.simps [code]

end
