(* ===== verification/BAVL_Heap.thy ===== *)
theory BAVL_Heap
  imports BAVL
begin

text \<open>
  The nodes of \<open>structure/BAVL.h\<close> in memory as a tree of addresses, and what each pointer operation does to
  that tree: rotation, replacement of a subtree, the swap of two nodes, descent and ascent.
\<close>

section \<open>Trees in memory\<close>

datatype tree = Leaf | Node tree nat int tree

text \<open>
  A path from a subtree to the root, from the bottom up: the side on which the subtree hangs, the node, its
  balance factor and the other subtree.
\<close>

type_synonym path = "(bool \<times> nat \<times> int \<times> tree) list"

fun ptr :: "tree \<Rightarrow> nat option" where
  "ptr Leaf = None"
| "ptr (Node l a b r) = Some a"

fun addrs :: "tree \<Rightarrow> nat list" where
  "addrs Leaf = []"
| "addrs (Node l a b r) = addrs l @ a # addrs r"

fun rep :: "(nat \<Rightarrow> BAVLNode option) \<Rightarrow> nat option \<Rightarrow> tree \<Rightarrow> bool" where
  "rep m p Leaf = True"
| "rep m p (Node l a b r) =
     (m a = Some \<lparr>parent = p, link0 = ptr l, link1 = ptr r, balance = b\<rparr> \<and> rep m (Some a) l \<and> rep m (Some a) r)"

fun upper :: "nat option \<Rightarrow> path \<Rightarrow> nat option" where
  "upper q [] = q"
| "upper q ((s, a, b, u) # C) = Some a"

fun seg :: "(nat \<Rightarrow> BAVLNode option) \<Rightarrow> nat option \<Rightarrow> nat option \<Rightarrow> path \<Rightarrow> nat option \<Rightarrow> bool" where
  "seg m q f [] g \<longleftrightarrow> g = f"
| "seg m q f ((s, a, b, u) # C) g \<longleftrightarrow>
     m a = Some \<lparr>parent = upper q C, link0 = if s then ptr u else f, link1 = if s then f else ptr u, balance = b\<rparr> \<and>
     rep m (Some a) u \<and> seg m q (Some a) C g"

fun path_addrs :: "path \<Rightarrow> nat list" where
  "path_addrs [] = []"
| "path_addrs ((s, a, b, u) # C) = a # addrs u @ path_addrs C"

text \<open>The memory holds the tree \<open>x\<close> below the path \<open>C\<close>.\<close>

definition tree_cut :: "BAVL \<Rightarrow> path \<Rightarrow> tree \<Rightarrow> bool" where
  "tree_cut t C x \<longleftrightarrow>
     rep (nodes t) (upper None C) x \<and> seg (nodes t) None (ptr x) C (root t) \<and> distinct (path_addrs C @ addrs x)"

text \<open>The tree with \<open>x\<close> on side \<open>s\<close> of the node and \<open>y\<close> on the other.\<close>

definition join :: "bool \<Rightarrow> tree \<Rightarrow> nat \<Rightarrow> int \<Rightarrow> tree \<Rightarrow> tree" where
  "join s x a b y = (if s then Node y a b x else Node x a b y)"

fun plug :: "path \<Rightarrow> tree \<Rightarrow> tree" where
  "plug [] x = x"
| "plug ((s, a, b, u) # C) x = plug C (join s x a b u)"

fun lefts :: "path \<Rightarrow> nat list" where
  "lefts [] = []"
| "lefts ((s, a, b, u) # C) = lefts C @ (if s then addrs u @ [a] else [])"

fun rights :: "path \<Rightarrow> nat list" where
  "rights [] = []"
| "rights ((s, a, b, u) # C) = (if s then [] else a # addrs u) @ rights C"

definition same_outside :: "nat set \<Rightarrow> BAVL \<Rightarrow> BAVL \<Rightarrow> bool" where
  "same_outside A t t' \<longleftrightarrow> (\<forall>a. a \<notin> A \<longrightarrow> nodes t' a = nodes t a)"

text \<open>The operation \<open>f\<close> takes the cut at \<open>C\<close>, \<open>x\<close> to the cut at \<open>D\<close>, \<open>y\<close> and leaves all other memory as it is.\<close>

definition takes :: "BAVL \<Rightarrow> BAVL option \<Rightarrow> nat set \<Rightarrow> path \<Rightarrow> tree \<Rightarrow> bool" where
  "takes t f A D y \<longleftrightarrow> (\<exists>t'. f = Some t' \<and> tree_cut t' D y \<and> same_outside A t t')"

section \<open>Frame lemmas\<close>

lemma rep_upd [simp]: "a \<notin> set (addrs x) \<Longrightarrow> rep (m(a := v)) p x = rep m p x"
  by (induction x arbitrary: p) auto

lemma seg_upd [simp]: "a \<notin> set (path_addrs C) \<Longrightarrow> seg (m(a := v)) q f C g = seg m q f C g"
  by (induction C arbitrary: f rule: path_addrs.induct) auto

lemma ptr_outside [simp]: "a \<notin> set (addrs x) \<Longrightarrow> ptr x \<noteq> Some a"
  by (cases x) auto

lemma addrs_plug: "addrs (plug C x) = lefts C @ addrs x @ rights C"
  by (induction C x rule: plug.induct) (auto simp: join_def)

lemma set_path_addrs: "set (path_addrs C) = set (lefts C) \<union> set (rights C)"
  by (induction C rule: path_addrs.induct) auto

lemma cut_join: "tree_cut t ((s, a, b, u) # C) x \<longleftrightarrow> tree_cut t C (join s x a b u)"
  by (auto simp: tree_cut_def join_def)

lemma cut_plug: "tree_cut t C x \<longleftrightarrow> tree_cut t [] (plug C x)"
  by (induction C x rule: plug.induct) (auto simp: cut_join)

lemma same_outside_refl [simp]: "same_outside A t t"
  by (simp add: same_outside_def)

lemma same_outside_trans: "same_outside A t t' \<Longrightarrow> same_outside A t' t'' \<Longrightarrow> same_outside A t t''"
  by (simp add: same_outside_def)

lemma takes_bind:
  assumes "takes t f A D y" and "\<And>t'. tree_cut t' D y \<Longrightarrow> takes t' (g t') A E z"
  shows "takes t (Option.bind f g) A E z"
  using assms unfolding takes_def by (fastforce intro: same_outside_trans)

lemmas memory_simps =
  modify_def modify_if_def relink_def link_def set_link_def set_parent_def takes_def tree_cut_def same_outside_def

section \<open>Rotation\<close>

lemma rotate_takes:
  assumes "tree_cut t C (join d x r b (join d y nr c z))"
    and "set (path_addrs C) \<union> set (addrs x) \<union> {r} \<union> set (addrs y) \<union> {nr} \<union> set (addrs z) \<subseteq> A"
  shows "takes t (BAVL_rotate t r d) A C (join d (join d x r b y) nr c z)"
proof (cases C)
  case Nil
  then show ?thesis
    using assms by (cases d; cases y) (auto simp: BAVL_rotate_def join_def memory_simps)
next
  case (Cons p C')
  then show ?thesis
    using assms by (cases p; cases "fst p"; cases d; cases y) (auto simp: BAVL_rotate_def join_def memory_simps)
qed

lemma cut_nodes:
  "tree_cut t C (Node l a b r) \<Longrightarrow>
   nodes t a = Some \<lparr>parent = upper None C, link0 = ptr l, link1 = ptr r, balance = b\<rparr>"
  by (simp add: tree_cut_def)

lemma balance_takes:
  "tree_cut t C (join d x a b y) \<Longrightarrow> a \<in> A \<Longrightarrow>
   takes t (modify t a (set_balance v)) A C (join d x a (int8 v) y)"
  by (auto simp: join_def set_balance_def memory_simps)

section \<open>Balance\<close>

fun height :: "tree \<Rightarrow> int" where
  "height Leaf = 0"
| "height (Node l a b r) = 1 + max (height l) (height r)"

fun avl :: "tree \<Rightarrow> bool" where
  "avl Leaf = True"
| "avl (Node l a b r) \<longleftrightarrow> avl l \<and> avl r \<and> b = height r - height l \<and> - 1 \<le> b \<and> b \<le> 1"

fun path_avl :: "path \<Rightarrow> int \<Rightarrow> bool" where
  "path_avl [] h = True"
| "path_avl ((s, a, b, u) # C) h \<longleftrightarrow>
     avl u \<and> b = (if s then h - height u else height u - h) \<and> - 1 \<le> b \<and> b \<le> 1 \<and> path_avl C (1 + max h (height u))"

definition sgn_of :: "bool \<Rightarrow> int" where
  "sgn_of s = (if s then 1 else - 1)"

lemma height_nonneg [simp]: "0 \<le> height x"
  by (induction x) auto

lemma height_zero [simp]: "height x = 0 \<longleftrightarrow> x = Leaf"
  by (cases x) (auto simp: add_nonneg_eq_0_iff max_def)

lemma height_join [simp]: "height (join s x a b y) = 1 + max (height x) (height y)"
  by (simp add: join_def max.commute)

lemma avl_join: "avl (join s x a b y) \<longleftrightarrow>
   avl x \<and> avl y \<and> b = sgn_of s * (height x - height y) \<and> \<bar>height x - height y\<bar> \<le> 1"
  by (auto simp: join_def sgn_of_def)

lemma avl_plug: "avl (plug C x) \<longleftrightarrow> avl x \<and> path_avl C (height x)"
  by (induction C x rule: plug.induct) (auto simp: avl_join sgn_of_def max.commute)

lemma join_not: "join (\<not> s) x a b y = join s y a b x"
  by (simp add: join_def)

lemma tree_join: "x \<noteq> Leaf \<Longrightarrow> \<exists>y a b z. x = join s y a b z"
  by (cases x; cases s) (auto simp: join_def)

lemma int8_id [simp]: "- 128 \<le> x \<Longrightarrow> x < 128 \<Longrightarrow> int8 x = x"
  by (simp add: int8_def)

lemma set_addrs_join [simp]: "set (addrs (join s x a b y)) = insert a (set (addrs x) \<union> set (addrs y))"
  by (auto simp: join_def)

lemma ptr_join [simp]: "ptr (join s x a b y) = Some a"
  by (simp add: join_def)

lemma join_nodes:
  "tree_cut t C (join s x a b y) \<Longrightarrow>
   \<exists>n. nodes t a = Some n \<and> parent n = upper None C \<and> link n s = ptr x \<and> link n (\<not> s) = ptr y \<and> balance n = b"
  by (auto simp: join_def link_def dest!: cut_nodes split: if_splits)

end
