(* ===== verification/BAVL_Balance.thy ===== *)
theory BAVL_Balance
  imports BAVL_Heap
begin

text \<open>
  Rebalancing of \<open>structure/BAVL.h\<close>: when a subtree has changed its height by one, \<open>_BAVL_rebalance\<close> ends in a balanced
  tree with the same nodes in the same order.
\<close>

lemma takesE:
  assumes "takes t f A D y"
  obtains t' where "f = Some t'" and "tree_cut t' D y" and "same_outside A t t'"
  using assms by (auto simp: takes_def)

definition addresses :: "path \<Rightarrow> tree \<Rightarrow> nat set" where
  "addresses C x = set (path_addrs C) \<union> set (addrs x)"

lemma addresses_join: "addresses ((s, a, b, u) # C) x = addresses C (join s x a b u)"
  by (auto simp: addresses_def)

text \<open>The two balance factors below and at the top of a subtree.\<close>

lemma balance_two:
  assumes "tree_cut t C (join d (join e x a b y) c k z)" "a \<in> A" "c \<in> A"
  shows "takes t (Option.bind (modify t a (set_balance v)) (\<lambda>t. modify t c (set_balance w))) A C
           (join d (join e x a (int8 v) y) c (int8 w) z)"
proof (rule takes_bind)
  show "takes t (modify t a (set_balance v)) A ((d, c, k, z) # C) (join e x a (int8 v) y)"
    using assms by (intro balance_takes) (simp_all add: cut_join)
qed (use assms in \<open>simp add: cut_join balance_takes\<close>)

lemma rotate_single:
  assumes "tree_cut t C (join s (join s x c cb y) a b v)" and "addresses C (join s (join s x c cb y) a b v) \<subseteq> A"
  shows "takes t (do { t \<leftarrow> BAVL_rotate t a (\<not> s);
                       t \<leftarrow> modify t a (set_balance p);
                       modify t c (set_balance q) }) A C
           (join s x c (int8 q) (join s y a (int8 p) v))"
proof (rule takes_bind)
  show "takes t (BAVL_rotate t a (\<not> s)) A C (join (\<not> s) (join (\<not> s) v a b y) c cb x)"
    using assms by (intro rotate_takes) (auto simp: join_not addresses_def)
next
  fix t' assume "tree_cut t' C (join (\<not> s) (join (\<not> s) v a b y) c cb x)"
  from balance_two [OF this, of A p q]
  show "takes t' (Option.bind (modify t' a (set_balance p)) (\<lambda>t. modify t c (set_balance q))) A C
          (join s x c (int8 q) (join s y a (int8 p) v))"
    using assms by (simp add: join_not addresses_def)
qed

lemma rotate_double:
  assumes "tree_cut t C (join s (join s x c cb (join s y g gb z)) a b v)"
    and "addresses C (join s (join s x c cb (join s y g gb z)) a b v) \<subseteq> A"
  shows "takes t (do { t \<leftarrow> BAVL_rotate t c s; BAVL_rotate t a (\<not> s) }) A C
           (join s (join s x c cb y) g gb (join s z a b v))"
proof (rule takes_bind)
  show "takes t (BAVL_rotate t c s) A ((s, a, b, v) # C) (join s (join s x c cb y) g gb z)"
    using assms by (intro rotate_takes) (auto simp: cut_join addresses_def)
next
  fix t' assume "tree_cut t' ((s, a, b, v) # C) (join s (join s x c cb y) g gb z)"
  then have "tree_cut t' C (join (\<not> s) v a b (join (\<not> s) z g gb (join s x c cb y)))"
    by (simp add: cut_join join_not)
  then have "takes t' (BAVL_rotate t' a (\<not> s)) A C (join (\<not> s) (join (\<not> s) v a b z) g gb (join s x c cb y))"
    using assms by (intro rotate_takes) (auto simp: addresses_def)
  then show "takes t' (BAVL_rotate t' a (\<not> s)) A C (join s (join s x c cb y) g gb (join s z a b v))"
    by (simp add: join_not)
qed

lemma balance_three:
  assumes "tree_cut t C (join s (join s x c cb y) g gb (join s z a b v))" "a \<in> A" "c \<in> A" "g \<in> A"
  shows "takes t (do { t \<leftarrow> modify t a (set_balance p);
                       t \<leftarrow> modify t c (set_balance q);
                       modify t g (set_balance r) }) A C
           (join s (join s x c (int8 q) y) g (int8 r) (join s z a (int8 p) v))"
proof (rule takes_bind)
  show "takes t (modify t a (set_balance p)) A ((\<not> s, g, gb, join s x c cb y) # C) (join s z a (int8 p) v)"
    using assms by (intro balance_takes) (simp_all add: cut_join join_not)
next
  fix t' assume "tree_cut t' ((\<not> s, g, gb, join s x c cb y) # C) (join s z a (int8 p) v)"
  then have "tree_cut t' C (join s (join s x c cb y) g gb (join s z a (int8 p) v))"
    by (simp add: cut_join join_not)
  from balance_two [OF this] assms
  show "takes t' (Option.bind (modify t' c (set_balance q)) (\<lambda>t. modify t g (set_balance r))) A C
          (join s (join s x c (int8 q) y) g (int8 r) (join s z a (int8 p) v))"
    by simp
qed

lemma join_not_Leaf [simp]: "join s x a b y \<noteq> Leaf" "Leaf \<noteq> join s x a b y"
  by (simp_all add: join_def)

lemma addrs_rotated: "addrs (join s x c p (join s y a q v)) = addrs (join s (join s x c k y) a l v)"
  by (simp add: join_def)

lemma height_pos: "0 < height x \<Longrightarrow> x \<noteq> Leaf"
  by auto

text \<open>
  A node whose subtree on the side \<open>s\<close> is two higher than the other is turned into a balanced tree with the
  same addresses in the same order.
\<close>

lemma rebalance_rotate_ok:
  assumes "tree_cut t C (join s w a (2 * sgn_of s) v)" and A: "addresses C (join s w a (2 * sgn_of s) v) \<subseteq> A"
    and avl: "avl w" "avl v" and h: "height w = height v + 2"
  shows "\<exists>t' y d. rebalance_rotate t a delta s (sgn_of s) = Some (t', the (ptr y), d) \<and> y \<noteq> Leaf \<and>
           tree_cut t' C y \<and> same_outside A t t' \<and> avl y \<and> addrs y = addrs (join s w a 0 v) \<and>
           (height y = height w + 1 \<and> d = delta \<or> height y = height w \<and> d = int8 (delta - 1))"
proof -
  have "w \<noteq> Leaf" using h by (intro height_pos) (use height_nonneg [of v] in linarith)
  then obtain x c cb y where w: "w = join s x c cb y" using tree_join by blast
  obtain n where n: "nodes t a = Some n" "link n s = Some c" using join_nodes [OF assms(1)] w by auto
  have "tree_cut t ((s, a, 2 * sgn_of s, v) # C) (join s x c cb y)" using assms(1) w by (simp add: cut_join)
  then obtain cn where cn: "nodes t c = Some cn" "balance cn = cb" "link cn (\<not> s) = ptr y"
    using join_nodes by blast
  have cb: "cb * sgn_of s = height x - height y" using avl(1) w by (auto simp: avl_join sgn_of_def)
  consider (one) "height x = height y + 1" | (zero) "height x = height y" | (minus) "height x = height y - 1"
    using avl(1) w by (fastforce simp: avl_join abs_if split: if_splits)
  then show ?thesis
  proof cases
    case one
    obtain t' where "do { t \<leftarrow> BAVL_rotate t a (\<not> s); t \<leftarrow> modify t a (set_balance 0); modify t c (set_balance 0) } = Some t'"
      "tree_cut t' C (join s x c 0 (join s y a 0 v))" "same_outside A t t'"
      using rotate_single [OF assms(1) [unfolded w], of A 0 0] A w by (auto elim!: takesE)
    then show ?thesis
      using one avl h w n cn cb
      by (intro exI [of _ t'] exI [of _ "join s x c 0 (join s y a 0 v)"])
        (auto simp: rebalance_rotate_def avl_join sgn_of_def bind_Some_iff intro: addrs_rotated)
  next
    case zero
    define p where "p = sgn_of s"
    have p: "int8 p = p" "int8 (- p) = - p" by (simp_all add: p_def sgn_of_def)
    obtain t' where "do { t \<leftarrow> BAVL_rotate t a (\<not> s); t \<leftarrow> modify t a (set_balance p); modify t c (set_balance (- p)) } = Some t'"
      "tree_cut t' C (join s x c (- p) (join s y a p v))" "same_outside A t t'"
      using rotate_single [OF assms(1) [unfolded w], of A p "- p"] A w p by (auto elim!: takesE)
    then show ?thesis
      using zero avl h w n cn cb
      by (intro exI [of _ t'] exI [of _ "join s x c (- p) (join s y a p v)"])
        (auto simp: rebalance_rotate_def avl_join sgn_of_def bind_Some_iff p_def intro: addrs_rotated)
  next
    case minus
    then have "y \<noteq> Leaf" by (intro height_pos) (use height_nonneg [of x] in linarith)
    then obtain y1 g gb y2 where y: "y = join s y1 g gb y2" using tree_join by blast
    obtain t1 where t1: "do { t \<leftarrow> BAVL_rotate t c s; BAVL_rotate t a (\<not> s) } = Some t1"
      "tree_cut t1 C (join s (join s x c cb y1) g gb (join s y2 a (2 * sgn_of s) v))" "same_outside A t t1"
      using rotate_double [OF assms(1) [unfolded w y], of A] A w y by (auto elim!: takesE)
    obtain gn where gn: "nodes t1 g = Some gn" "balance gn = gb" using join_nodes [OF t1(2)] by blast
    have gb: "gb * sgn_of s = height y1 - height y2" "- 1 \<le> height y1 - height y2" "height y1 - height y2 \<le> 1"
      using avl(1) w y by (auto simp: avl_join sgn_of_def)
    define p where "p = - max 0 (gb * sgn_of s) * sgn_of s"
    define q where "q = max 0 (- gb * sgn_of s) * sgn_of s"
    have pq: "int8 p = p" "int8 q = q" using gb by (auto simp: p_def q_def sgn_of_def max_def)
    obtain t' where t': "do { t \<leftarrow> modify t1 a (set_balance p); t \<leftarrow> modify t c (set_balance q); modify t g (set_balance 0) } = Some t'"
      "tree_cut t' C (join s (join s x c q y1) g 0 (join s y2 a p v))" "same_outside A t1 t'"
      using balance_three [OF t1(2), of A p q 0] A w y pq by (auto simp: addresses_def elim!: takesE)
    have "avl (join s (join s x c q y1) g 0 (join s y2 a p v))"
      using avl w y minus h gb 
      by (cases s) (auto simp: avl_join p_def q_def sgn_of_def max_def split: if_splits)
    moreover have "height (join s (join s x c q y1) g 0 (join s y2 a p v)) = height w"
      using w y minus h by (simp add: max_def split: if_splits)
    moreover have "addrs (join s (join s x c q y1) g 0 (join s y2 a p v)) = addrs (join s w a 0 v)"
      by (simp add: w y join_def)
    moreover have "same_outside A t t'" using t1(3) t'(3) by (rule same_outside_trans)
    moreover have "rebalance_rotate t a delta s (sgn_of s) = Some (t', g, int8 (delta - 1))"
      using t1(1) t'(1) n cn cb minus y gn
      by (auto simp: rebalance_rotate_def bind_Some_iff p_def q_def sgn_of_def)
    ultimately show ?thesis
      using t'(2) by (intro exI [of _ t'] exI [of _ "join s (join s x c q y1) g 0 (join s y2 a p v)"]) auto
  qed
qed

text \<open>One level of \<open>_BAVL_rebalance\<close>.\<close>

lemma rebalance_node_ok:
  assumes cut: "tree_cut t ((s, a, b, u) # C) x" and A: "addresses ((s, a, b, u) # C) x \<subseteq> A"
    and avl: "avl x" "path_avl ((s, a, b, u) # C) h" and h: "height x = h + dc" and dc: "dc = 1 \<or> dc = - 1"
  shows "\<exists>t' y d. rebalance_node t a s dc = Some (t', the (ptr y), d) \<and> y \<noteq> Leaf \<and> tree_cut t' C y \<and>
           same_outside A t t' \<and> avl y \<and> addrs y = addrs (join s x a b u) \<and>
           height y = 1 + max h (height u) + d \<and> - 1 \<le> d \<and> d \<le> 1"
proof -
  define e where "e = h - height u"
  have u: "avl u" and b: "b = sgn_of s * e" and e: "- 1 \<le> e" "e \<le> 1"
    using avl by (auto simp: sgn_of_def e_def split: if_splits)
  define delta where "delta = max dc (- e) - max 0 (- e)"
  define b' where "b' = sgn_of s * (e + dc)"
  obtain n where n: "nodes t a = Some n" "balance n = b"
    using join_nodes cut unfolding cut_join by blast
  have delta: "int8 (max dc (BAVL_OPTNEG b s) - max 0 (BAVL_OPTNEG b s)) = delta" "- 1 \<le> delta" "delta \<le> 1"
    using dc e by (auto simp: delta_def b sgn_of_def BAVL_OPTNEG_def max_def)
  have b': "int8 (b - BAVL_OPTNEG dc s) = b'"
    using dc e by (auto simp: b'_def b sgn_of_def BAVL_OPTNEG_def)
  obtain t1 where t1: "modify t a (set_balance (b - BAVL_OPTNEG dc s)) = Some t1"
    "tree_cut t1 C (join s x a b' u)" "same_outside A t t1"
    using balance_takes [OF cut [unfolded cut_join], of A "b - BAVL_OPTNEG dc s"] A b'
    by (auto simp: addresses_def elim: takesE)
  obtain n1 where n1: "nodes t1 a = Some n1" "balance n1 = b'" using join_nodes [OF t1(2)] by blast
  have start: "rebalance_node t a s dc =
      (if b' = 2 then rebalance_rotate t1 a delta True 1
       else if b' = - 2 then rebalance_rotate t1 a delta False (- 1) else Some (t1, a, delta))"
    using n n1 t1(1) delta b e by (auto simp: rebalance_node_def sgn_of_def Let_def)
  have turn: "rebalance_node t a s dc = rebalance_rotate t1 a delta k (sgn_of k)" if "b' = 2 * sgn_of k" for k
    using that by (simp add: start sgn_of_def split: if_splits)
  consider (calm) "- 1 \<le> e + dc" "e + dc \<le> 1" | (grown) "e = 1" "dc = 1" | (shrunk) "e = - 1" "dc = - 1"
    using e dc by linarith
  then show ?thesis
  proof cases
    case calm
    then have "rebalance_node t a s dc = Some (t1, a, delta)" by (auto simp: start b'_def sgn_of_def)
    moreover have "avl (join s x a b' u)"
      using avl u h calm by (simp add: avl_join b'_def e_def)
    moreover have "height (join s x a b' u) = 1 + max h (height u) + delta"
      using h calm dc e by (auto simp: delta_def e_def max_def)
    ultimately show ?thesis
      using t1 delta by (intro exI [of _ t1] exI [of _ "join s x a b' u"]) (simp add: join_def)
  next
    case grown
    then have b2: "b' = 2 * sgn_of s" by (simp add: b'_def)
    have d1: "delta = 1" using grown by (simp add: delta_def)
    have hx: "height x = height u + 2" and hu: "h = height u + 1" using grown h by (auto simp: e_def)
    obtain t' y d where y: "rebalance_rotate t1 a delta s (sgn_of s) = Some (t', the (ptr y), d)" "y \<noteq> Leaf"
      "tree_cut t' C y" "same_outside A t1 t'" "avl y" "addrs y = addrs (join s x a 0 u)"
      "height y = height x + 1 \<and> d = delta \<or> height y = height x \<and> d = int8 (delta - 1)"
      using rebalance_rotate_ok [OF t1(2) [unfolded b2] _ avl(1) u hx, of A delta] A by (auto simp: addresses_def)
    show ?thesis
      using y turn [OF b2] same_outside_trans [OF t1(3) y(4)] d1 hx hu
      by (intro exI [of _ t'] exI [of _ y] exI [of _ d]) (auto simp: join_def)
  next
    case shrunk
    then have b2: "b' = 2 * sgn_of (\<not> s)" by (simp add: b'_def sgn_of_def)
    have d1: "delta = 0" using shrunk by (simp add: delta_def)
    have hx: "height u = height x + 2" and hu: "height u = h + 1" using shrunk h by (auto simp: e_def)
    have cut': "tree_cut t1 C (join (\<not> s) u a (2 * sgn_of (\<not> s)) x)" using t1(2) b2 by (simp add: join_not)
    obtain t' y d where y: "rebalance_rotate t1 a delta (\<not> s) (sgn_of (\<not> s)) = Some (t', the (ptr y), d)" "y \<noteq> Leaf"
      "tree_cut t' C y" "same_outside A t1 t'" "avl y" "addrs y = addrs (join (\<not> s) u a 0 x)"
      "height y = height u + 1 \<and> d = delta \<or> height y = height u \<and> d = int8 (delta - 1)"
      using rebalance_rotate_ok [OF cut' _ u avl(1) hx, of A delta] A by (auto simp: addresses_def)
    show ?thesis
      using y turn [OF b2] same_outside_trans [OF t1(3) y(4)] d1 hx hu
      by (intro exI [of _ t'] exI [of _ y] exI [of _ d]) (auto simp: join_def)
  qed
qed

text \<open>
  The whole of \<open>_BAVL_rebalance\<close>: when a subtree below a balanced path has changed its height by \<open>dc\<close>, the code
  ends, in a balanced tree with the same addresses in the same order.
\<close>

lemma BAVL_rebalance_ok:
  assumes "tree_cut t C x" "C = (s, a, b, u) # C'" "addresses C x \<subseteq> A" "avl x" "path_avl C h"
    and "height x = h + dc" "- 1 \<le> dc" "dc \<le> 1"
  shows "\<exists>t' y. BAVL_rebalance t a s dc = Some t' \<and> tree_cut t' [] y \<and> same_outside A t t' \<and> avl y \<and>
           addrs y = addrs (plug C x)"
  using assms
proof (induction C arbitrary: t x s a b u C' h dc)
  case Nil
  then show ?case by simp
next
  case (Cons c C0)
  note IH = Cons.IH
  have C0: "c = (s, a, b, u)" "C' = C0" using Cons.prems(2) by auto
  have path: "path_avl C0 (1 + max h (height u))" using Cons.prems(5) C0 by simp
  show ?case
  proof (cases "dc = 0")
    case True
    have "avl (plug (c # C0) x)" using Cons.prems True by (simp only: avl_plug) simp
    then show ?thesis
      using Cons.prems True cut_plug [of t "c # C0" x]
      by (intro exI [of _ t] exI [of _ "plug (c # C0) x"]) (simp add: BAVL_rebalance.simps)
  next
    case False
    then have dc: "dc = 1 \<or> dc = - 1" using Cons.prems by linarith
    obtain t1 y d where y: "rebalance_node t a s dc = Some (t1, the (ptr y), d)" "y \<noteq> Leaf" "tree_cut t1 C0 y"
      "same_outside A t t1" "avl y" "addrs y = addrs (join s x a b u)" "height y = 1 + max h (height u) + d"
      "- 1 \<le> d" "d \<le> 1"
      using rebalance_node_ok [of t s a b u C0 x A h dc] Cons.prems dc C0 by auto
    obtain l p k r where top: "y = Node l p k r" using y(2) by (cases y) auto
    have same: "addrs (plug C0 y) = addrs (plug (c # C0) x)" using y(6) C0 by (simp add: addrs_plug)
    have in_A: "addresses C0 y \<subseteq> A" using Cons.prems(3) C0 y(6) by (simp add: addresses_join addresses_def)
    note n = cut_nodes [OF y(3) [unfolded top]]
    show ?thesis
    proof (cases C0)
      case Nil
      then show ?thesis
        using y n top same dc
        by (intro exI [of _ t1] exI [of _ y]) (auto simp: BAVL_rebalance.simps [of t])
    next
      case (Cons f C1)
      obtain s1 a1 b1 u1 where f: "f = (s1, a1, b1, u1)" by (cases f) auto
      have C1: "C0 = (s1, a1, b1, u1) # C1" using Cons f by simp
      have pn: "\<exists>pn. nodes t1 a1 = Some pn \<and> (link pn True = Some p) = s1"
        using y(3) top Cons f by (cases s1) (auto simp: tree_cut_def link_def)
      obtain t' z where z: "BAVL_rebalance t1 a1 s1 d = Some t'" "tree_cut t' [] z" "same_outside A t1 t'" "avl z"
        "addrs z = addrs (plug C0 y)"
        using IH [OF y(3) C1 in_A y(5) path y(7) y(8,9)] by blast
      show ?thesis
        using y(1) n z same dc pn top Cons f same_outside_trans [OF y(4) z(3)]
        by (intro exI [of _ t'] exI [of _ z]) (auto simp: BAVL_rebalance.simps [of t])
    qed
  qed
qed

end
