(* ===== verification/BAVL_Ops.thy ===== *)
theory BAVL_Ops
  imports BAVL_Balance
begin

text \<open>
  The pointer operations behind removal: \<open>_BAVL_replace_subtree\<close> and \<open>_BAVL_swap_nodes\<close>.
\<close>

section \<open>Replacing a subtree and swapping two nodes\<close>

lemma upper_outside [simp]: "a \<notin> set (path_addrs C) \<Longrightarrow> upper None C \<noteq> Some a"
  by (cases C rule: path_addrs.cases) auto

lemma replace_takes:
  assumes "tree_cut t C (join s c a b Leaf)" and "addresses C (join s c a b Leaf) \<subseteq> A"
  shows "takes t (BAVL_replace_subtree t a (ptr c)) A C c"
proof (cases C)
  case Nil
  then show ?thesis
    using assms by (cases c; cases s) (auto simp: BAVL_replace_subtree_def join_def addresses_def memory_simps)
next
  case (Cons p C')
  then show ?thesis
    using assms by (cases p; cases "fst p"; cases c; cases s)
      (auto simp: BAVL_replace_subtree_def join_def addresses_def memory_simps)
qed

fun seg_top :: "nat option \<Rightarrow> path \<Rightarrow> nat option" where
  "seg_top f [] = f"
| "seg_top f ((s, a, b, u) # D) = seg_top (Some a) D"

lemma seg_append:
  "seg m q f (D @ E) g \<longleftrightarrow> seg m (upper q E) f D (seg_top f D) \<and> seg m q (seg_top f D) E g"
proof (induction D arbitrary: f)
  case (Cons c D)
  then show ?case by (cases c; cases D) auto
qed simp

lemma path_addrs_append [simp]: "path_addrs (D @ E) = path_addrs D @ path_addrs E"
  by (induction D rule: path_addrs.induct) auto

lemma upper_append: "upper q (D @ E) = upper (upper q E) D"
  by (cases D rule: path_addrs.cases) auto

text \<open>
  For the swap of two nodes the stores to the parents of the subtrees and to the node above are kept symbolic.
\<close>

definition adopt :: "(nat \<Rightarrow> BAVLNode option) \<Rightarrow> nat option \<Rightarrow> nat option \<Rightarrow> nat \<Rightarrow> BAVLNode option" where
  "adopt m x q = (case x of None \<Rightarrow> m | Some a \<Rightarrow> m(a := map_option (set_parent q) (m a)))"

definition hang :: "(nat \<Rightarrow> BAVLNode option) \<Rightarrow> path \<Rightarrow> nat option \<Rightarrow> nat \<Rightarrow> BAVLNode option" where
  "hang m C f = (case C of [] \<Rightarrow> m | (s, a, b, u) # D \<Rightarrow> m(a := map_option (set_link s f) (m a)))"

definition hang_root :: "path \<Rightarrow> nat option \<Rightarrow> nat option \<Rightarrow> nat option" where
  "hang_root C f g = (if C = [] then f else g)"

definition is_node :: "(nat \<Rightarrow> BAVLNode option) \<Rightarrow> nat option \<Rightarrow> bool" where
  "is_node m x = (\<forall>a. x = Some a \<longrightarrow> m a \<noteq> None)"

lemma adopt_upd [simp]: "x \<noteq> Some a \<Longrightarrow> adopt (m(a := v)) x q = (adopt m x q)(a := v)"
  by (cases x) (auto simp: adopt_def)

lemma adopt_apply [simp]: "x \<noteq> Some a \<Longrightarrow> adopt m x q a = m a"
  by (cases x) (auto simp: adopt_def)

lemma hang_upd [simp]: "a \<notin> set (path_addrs C) \<Longrightarrow> hang (m(a := v)) C f = (hang m C f)(a := v)"
  by (cases C rule: path_addrs.cases) (auto simp: hang_def fun_upd_twist)

lemma hang_apply [simp]: "a \<notin> set (path_addrs C) \<Longrightarrow> hang m C f a = m a"
  by (cases C rule: path_addrs.cases) (auto simp: hang_def)

lemma hang_adopt [simp]:
  "x \<noteq> None \<longrightarrow> the x \<notin> set (path_addrs C) \<Longrightarrow> hang (adopt m x q) C f = adopt (hang m C f) x q"
  by (cases x; cases C rule: path_addrs.cases) (auto simp: hang_def adopt_def fun_upd_twist)

lemma is_node_upd [simp]: "x \<noteq> Some a \<Longrightarrow> is_node (m(a := v)) x = is_node m x"
  by (auto simp: is_node_def)

lemma is_node_adopt [simp]: "is_node (adopt m y q) x = is_node m x"
  by (cases y) (auto simp: is_node_def adopt_def)

lemma is_node_hang [simp]: "is_node (hang m C f) x = is_node m x"
  by (cases C rule: path_addrs.cases) (auto simp: is_node_def hang_def)

lemma is_node_rep: "rep m p x \<Longrightarrow> is_node m (ptr x)"
  by (cases x) (auto simp: is_node_def)

lemma modify_if_adopt:
  "is_node (nodes t) x \<Longrightarrow> modify_if t x (set_parent q) = Some (t\<lparr>nodes := adopt (nodes t) x q\<rparr>)"
  by (cases x) (auto simp: modify_if_def modify_def adopt_def is_node_def)

lemma rep_adopt_other [simp]: "x \<noteq> None \<longrightarrow> the x \<notin> set (addrs y) \<Longrightarrow> rep (adopt m x q) p y = rep m p y"
  by (cases x) (auto simp: adopt_def)

lemma seg_adopt_other [simp]: "x \<noteq> None \<longrightarrow> the x \<notin> set (path_addrs C) \<Longrightarrow> seg (adopt m x q) p f C g = seg m p f C g"
  by (cases x) (auto simp: adopt_def)

lemma rep_adopt: "rep m p x \<Longrightarrow> distinct (addrs x) \<Longrightarrow> rep (adopt m (ptr x) q) q x"
  by (cases x) (auto simp: adopt_def set_parent_def)

lemma relink_hang:
  "seg (nodes t) None (Some old) C g \<Longrightarrow> old \<notin> set (path_addrs C) \<Longrightarrow>
   relink t (upper None C) old f = Some (t\<lparr>root := hang_root C f (root t), nodes := hang (nodes t) C f\<rparr>)"
  by (cases C rule: path_addrs.cases) (auto simp: relink_def modify_def hang_def hang_root_def link_def)

lemma relink_Some: "nodes t a = Some n \<Longrightarrow> relink t (Some a) old f = modify t a (set_link (link n True = Some old) f)"
  by (simp add: relink_def)

lemma modify_if_Some: "modify_if t (Some a) g = modify t a g"
  by (simp add: modify_if_def)

lemma modify_if_None: "modify_if t None g = Some t"
  by (simp add: modify_if_def)

lemmas swap_simps = BAVL_swap_nodes_def swap_connected_def Let_def swap_distant_def swap_children_def relink_Some relink_hang
  modify_if_Some modify_if_None modify_if_adopt modify_def link_def set_link_def set_parent_def set_balance_def

lemma seg_hang:
  "seg m None old C g \<Longrightarrow> distinct (path_addrs C) \<Longrightarrow> seg (hang m C f) None f C (hang_root C f g)"
  by (cases C rule: path_addrs.cases) (auto simp: hang_def hang_root_def set_link_def)

lemma seg_hang_other [simp]: "set (path_addrs C) \<inter> set (path_addrs D) = {} \<Longrightarrow> seg (hang m C f) p h D g = seg m p h D g"
  by (cases C rule: path_addrs.cases) (auto simp: hang_def)

lemma rep_hang_other [simp]: "set (path_addrs C) \<inter> set (addrs y) = {} \<Longrightarrow> rep (hang m C f) p y = rep m p y"
  by (cases C rule: path_addrs.cases) (auto simp: hang_def)

definition rehung ::
    "(nat \<Rightarrow> BAVLNode option) \<Rightarrow> path \<Rightarrow> nat option \<Rightarrow> tree \<Rightarrow> nat \<Rightarrow> tree \<Rightarrow> nat \<Rightarrow> nat \<Rightarrow> BAVLNode option" where
  "rehung m C f l p r q = adopt (adopt (hang m C f) (ptr l) (Some p)) (ptr r) (Some q)"

lemma ptr_in: "ptr x \<noteq> None \<Longrightarrow> the (ptr x) \<in> set (addrs x)"
  by (cases x) auto

lemma rehung_same:
  assumes "x \<notin> set (path_addrs C) \<union> set (addrs l) \<union> set (addrs r)"
  shows "rehung m C f l p r q x = m x"
  using assms by (simp add: rehung_def)

lemma rehung_rep:
  assumes "set (addrs u) \<inter> (set (path_addrs C) \<union> set (addrs l) \<union> set (addrs r)) = {}"
  shows "rep (rehung m C f l p r q) y u = rep m y u"
  using assms ptr_in [of l] ptr_in [of r] unfolding rehung_def
  by (subst rep_adopt_other, blast)+ (simp add: Int_Un_distrib Int_commute)

lemma rehung_seg:
  assumes "set (path_addrs D) \<inter> (set (path_addrs C) \<union> set (addrs l) \<union> set (addrs r)) = {}"
  shows "seg (rehung m C f l p r q) y h D g = seg m y h D g"
  using assms ptr_in [of l] ptr_in [of r] unfolding rehung_def
  by (subst seg_adopt_other, blast)+ (simp add: Int_Un_distrib Int_commute)

lemma rehung_parts:
  assumes "rep m p0 l" "rep m q0 r" "seg m None old C g" "distinct (path_addrs C @ addrs l @ addrs r)"
  shows "rep (rehung m C f l p r q) (Some p) l" "rep (rehung m C f l p r q) (Some q) r"
    "seg (rehung m C f l p r q) None f C (hang_root C f g)"
proof -
  have l: "rep (hang m C f) p0 l" and r: "rep (hang m C f) q0 r"
    using assms by (simp_all add: Int_Un_distrib)
  have ptrs: "ptr l \<noteq> None \<longrightarrow> the (ptr l) \<notin> set (addrs r)" "ptr r \<noteq> None \<longrightarrow> the (ptr r) \<notin> set (addrs l)"
    "ptr l \<noteq> None \<longrightarrow> the (ptr l) \<notin> set (path_addrs C)" "ptr r \<noteq> None \<longrightarrow> the (ptr r) \<notin> set (path_addrs C)"
    using assms(4) ptr_in [of l] ptr_in [of r] by auto
  show "rep (rehung m C f l p r q) (Some p) l"
    using rep_adopt [OF l] assms(4) ptrs by (simp add: rehung_def)
  show "rep (rehung m C f l p r q) (Some q) r"
    unfolding rehung_def by (rule rep_adopt) (use r assms(4) ptrs in simp_all)
  show "seg (rehung m C f l p r q) None f C (hang_root C f g)"
    using seg_hang [OF assms(3)] assms(4) ptrs by (simp add: rehung_def)
qed

lemma distinct_swap: "distinct (xs @ a # ys @ [m]) = distinct (xs @ m # ys @ [a])"
  by auto

lemma swap_next_takes:
  assumes cut: "tree_cut t ((True, w, wb, u) # (False, a, b, r) # C) (Node l m k Leaf)"
    and A: "addresses ((True, w, wb, u) # (False, a, b, r) # C) (Node l m k Leaf) \<subseteq> A"
    and i8: "int8 b = b" "int8 k = k"
  shows "takes t (BAVL_swap_nodes t a m) A ((True, w, wb, u) # (False, m, b, r) # C) (Node l a k Leaf)"
proof -
  have M: "nodes t a = Some \<lparr>parent = upper None C, link0 = Some w, link1 = ptr r, balance = b\<rparr>"
    "nodes t m = Some \<lparr>parent = Some w, link0 = ptr l, link1 = None, balance = k\<rparr>"
    "nodes t w = Some \<lparr>parent = Some a, link0 = ptr u, link1 = Some m, balance = wb\<rparr>"
    "seg (nodes t) None (Some a) C (root t)"
    and lr: "rep (nodes t) (Some m) l" "rep (nodes t) (Some a) r" "rep (nodes t) (Some w) u"
    and ds: "distinct (w # addrs u @ a # addrs r @ path_addrs C @ addrs l @ [m])"
    using cut by (auto simp: tree_cut_def)
  have neq: "w \<noteq> a" "w \<noteq> m" "a \<noteq> m" "a \<notin> set (path_addrs C)" "m \<notin> set (path_addrs C)" "w \<notin> set (path_addrs C)"
    "ptr l \<noteq> Some a" "ptr l \<noteq> Some m" "ptr l \<noteq> Some w" "ptr r \<noteq> Some a" "ptr r \<noteq> Some m" "ptr r \<noteq> Some w"
    using ds by auto
  have disj: "distinct (path_addrs C @ addrs l @ addrs r)"
    "set (addrs u) \<inter> (set (path_addrs C) \<union> set (addrs l) \<union> set (addrs r)) = {}"
    using ds by (simp_all add: Int_Un_distrib Int_commute)
  note parts = rehung_parts [OF lr(1,2) M(4) disj(1)] and rest = rehung_rep [OF disj(2)]
  define N where "N = (rehung (nodes t) C (Some m) l a r m)
    (w := Some \<lparr>parent = Some m, link0 = ptr u, link1 = Some a, balance = wb\<rparr>,
     a := Some \<lparr>parent = Some w, link0 = ptr l, link1 = None, balance = k\<rparr>,
     m := Some \<lparr>parent = upper None C, link0 = Some w, link1 = ptr r, balance = b\<rparr>)"
  have "BAVL_swap_nodes t a m = Some (t\<lparr>root := hang_root C (Some m) (root t), nodes := N\<rparr>)"
    using M neq is_node_rep [OF lr(1)] is_node_rep [OF lr(2)] i8
    by (simp add: swap_simps N_def rehung_def fun_upd_twist)
  moreover have "rep N (Some a) l" "rep N (Some m) r" "rep N (Some w) u" "seg N None (Some m) C (hang_root C (Some m) (root t))"
    using parts rest lr ds by (simp_all add: N_def)
  moreover have "N x = nodes t x" if "x \<notin> A" for x
    using that A by (subst N_def) (auto simp: addresses_def intro!: rehung_same)
  ultimately show ?thesis
    using neq ds by (auto simp: takes_def tree_cut_def same_outside_def N_def)
qed

lemma swap_far_takes:
  assumes cut: "tree_cut t ((True, p, pb, pu) # D @ (True, w, wb, u) # (False, a, b, r) # C) (Node l m k Leaf)"
    and A: "addresses ((True, p, pb, pu) # D @ (True, w, wb, u) # (False, a, b, r) # C) (Node l m k Leaf) \<subseteq> A"
    and i8: "int8 b = b" "int8 k = k"
  shows "takes t (BAVL_swap_nodes t a m) A ((True, p, pb, pu) # D @ (True, w, wb, u) # (False, m, b, r) # C) (Node l a k Leaf)"
proof -
  have M: "nodes t a = Some \<lparr>parent = upper None C, link0 = Some w, link1 = ptr r, balance = b\<rparr>"
    "nodes t m = Some \<lparr>parent = Some p, link0 = ptr l, link1 = None, balance = k\<rparr>"
    "nodes t p = Some \<lparr>parent = upper (Some w) D, link0 = ptr pu, link1 = Some m, balance = pb\<rparr>"
    "nodes t w = Some \<lparr>parent = Some a, link0 = ptr u, link1 = seg_top (Some p) D, balance = wb\<rparr>"
    "seg (nodes t) None (Some a) C (root t)" "seg (nodes t) (Some w) (Some p) D (seg_top (Some p) D)"
    and lr: "rep (nodes t) (Some m) l" "rep (nodes t) (Some a) r" "rep (nodes t) (Some w) u" "rep (nodes t) (Some p) pu"
    and ds: "distinct (p # addrs pu @ path_addrs D @ w # addrs u @ a # addrs r @ path_addrs C @ addrs l @ [m])"
    using cut by (auto simp: tree_cut_def seg_append upper_append)
  have neq: "w \<noteq> a" "w \<noteq> m" "a \<noteq> m" "p \<noteq> a" "p \<noteq> m" "p \<noteq> w"
    "a \<notin> set (path_addrs C)" "m \<notin> set (path_addrs C)" "w \<notin> set (path_addrs C)" "p \<notin> set (path_addrs C)"
    "ptr l \<noteq> Some a" "ptr l \<noteq> Some m" "ptr l \<noteq> Some w" "ptr l \<noteq> Some p"
    "ptr r \<noteq> Some a" "ptr r \<noteq> Some m" "ptr r \<noteq> Some w" "ptr r \<noteq> Some p"
    using ds by auto
  have disj: "distinct (path_addrs C @ addrs l @ addrs r)"
    "set (addrs u) \<inter> (set (path_addrs C) \<union> set (addrs l) \<union> set (addrs r)) = {}"
    "set (addrs pu) \<inter> (set (path_addrs C) \<union> set (addrs l) \<union> set (addrs r)) = {}"
    "set (path_addrs D) \<inter> (set (path_addrs C) \<union> set (addrs l) \<union> set (addrs r)) = {}"
    using ds by (simp_all add: Int_Un_distrib Int_commute)
  note parts = rehung_parts [OF lr(1,2) M(5) disj(1)]
    and rest = rehung_rep [OF disj(2)] rehung_rep [OF disj(3)] rehung_seg [OF disj(4)]
  define N where "N = (rehung (nodes t) C (Some m) l a r m)
    (w := Some \<lparr>parent = Some m, link0 = ptr u, link1 = seg_top (Some p) D, balance = wb\<rparr>,
     p := Some \<lparr>parent = upper (Some w) D, link0 = ptr pu, link1 = Some a, balance = pb\<rparr>,
     a := Some \<lparr>parent = Some p, link0 = ptr l, link1 = None, balance = k\<rparr>,
     m := Some \<lparr>parent = upper None C, link0 = Some w, link1 = ptr r, balance = b\<rparr>)"
  have "BAVL_swap_nodes t a m = Some (t\<lparr>root := hang_root C (Some m) (root t), nodes := N\<rparr>)"
    using M neq is_node_rep [OF lr(1)] is_node_rep [OF lr(2)] i8
    by (simp add: swap_simps N_def rehung_def fun_upd_twist)
  moreover have "rep N (Some a) l" "rep N (Some m) r" "rep N (Some w) u" "rep N (Some p) pu"
    "seg N None (Some m) C (hang_root C (Some m) (root t))" "seg N (Some w) (Some p) D (seg_top (Some p) D)"
    using parts rest lr M(6) ds by (simp_all add: N_def)
  moreover have "N x = nodes t x" if "x \<notin> A" for x
    using that A by (subst N_def) (auto simp: addresses_def intro!: rehung_same)
  moreover have "distinct (p # addrs pu @ path_addrs D @ w # addrs u @ m # addrs r @ path_addrs C @ addrs l @ [a])"
    using ds distinct_swap [of "p # addrs pu @ path_addrs D @ w # addrs u" a "addrs r @ path_addrs C @ addrs l" m] by simp
  moreover have "N p = Some \<lparr>parent = upper (Some w) D, link0 = ptr pu, link1 = Some a, balance = pb\<rparr>"
    "N w = Some \<lparr>parent = Some m, link0 = ptr u, link1 = seg_top (Some p) D, balance = wb\<rparr>"
    "N a = Some \<lparr>parent = Some p, link0 = ptr l, link1 = None, balance = k\<rparr>"
    "N m = Some \<lparr>parent = upper None C, link0 = Some w, link1 = ptr r, balance = b\<rparr>"
    using neq by (simp_all add: N_def)
  ultimately show ?thesis
    by (simp add: takes_def tree_cut_def same_outside_def seg_append upper_append)
qed

lemma swap_connected_takes:
  assumes cut: "tree_cut t ((False, a, b, r) # C) (Node l m k Leaf)"
    and A: "addresses ((False, a, b, r) # C) (Node l m k Leaf) \<subseteq> A"
    and i8: "int8 b = b" "int8 k = k"
  shows "takes t (BAVL_swap_nodes t a m) A ((False, m, b, r) # C) (Node l a k Leaf)"
proof -
  have M: "nodes t a = Some \<lparr>parent = upper None C, link0 = Some m, link1 = ptr r, balance = b\<rparr>"
    "nodes t m = Some \<lparr>parent = Some a, link0 = ptr l, link1 = None, balance = k\<rparr>"
    "seg (nodes t) None (Some a) C (root t)"
    and lr: "rep (nodes t) (Some m) l" "rep (nodes t) (Some a) r"
    and ds: "distinct (a # addrs r @ path_addrs C @ addrs l @ [m])"
    using cut by (auto simp: tree_cut_def)
  have neq: "a \<noteq> m" "a \<notin> set (path_addrs C)" "m \<notin> set (path_addrs C)"
    "ptr l \<noteq> Some a" "ptr l \<noteq> Some m" "ptr r \<noteq> Some a" "ptr r \<noteq> Some m"
    "ptr l \<noteq> None \<longrightarrow> the (ptr l) \<notin> set (path_addrs C)"
    using ds ptr_in [of l] by auto
  have disj: "distinct (path_addrs C @ addrs l @ addrs r)" using ds by auto
  note parts = rehung_parts [OF lr M(3) disj]
  define N where "N = (rehung (nodes t) C (Some m) l a r m)
    (a := Some \<lparr>parent = Some m, link0 = ptr l, link1 = None, balance = k\<rparr>,
     m := Some \<lparr>parent = upper None C, link0 = Some a, link1 = ptr r, balance = b\<rparr>)"
  have "BAVL_swap_nodes t a m = Some (t\<lparr>root := hang_root C (Some m) (root t), nodes := N\<rparr>)"
    using M neq is_node_rep [OF lr(1)] is_node_rep [OF lr(2)] i8
    by (simp add: swap_simps N_def rehung_def fun_upd_twist)
  moreover have "rep N (Some a) l" "rep N (Some m) r" "seg N None (Some m) C (hang_root C (Some m) (root t))"
    using parts ds by (simp_all add: N_def)
  moreover have "N x = nodes t x" if "x \<notin> A" for x
    using that A by (subst N_def) (auto simp: addresses_def intro!: rehung_same)
  ultimately show ?thesis
    using neq ds by (auto simp: takes_def tree_cut_def same_outside_def N_def)
qed

end
