(* ===== verification/BAVL_Set.thy ===== *)
theory BAVL_Set
  imports BAVL_Ops
begin

text \<open>
  The operations of the search tree on the sequence of its nodes: removal, descent, insertion, the neighbours of a node
  and the self-check.
\<close>

section \<open>Removal\<close>

lemma swap_takes:
  assumes "tree_cut t (D @ (False, a, b, r) # C) (Node l m k Leaf)" "\<forall>c\<in>set D. fst c"
    and "addresses (D @ (False, a, b, r) # C) (Node l m k Leaf) \<subseteq> A" "int8 b = b" "int8 k = k"
  shows "takes t (BAVL_swap_nodes t a m) A (D @ (False, m, b, r) # C) (Node l a k Leaf)"
proof (cases D)
  case Nil
  then show ?thesis using assms swap_connected_takes by simp
next
  case D: (Cons c D')
  then obtain p pb pu where c: "c = (True, p, pb, pu)" using assms(2) by (cases c) auto
  show ?thesis
  proof (cases D' rule: rev_cases)
    case Nil
    then show ?thesis using assms D c swap_next_takes by simp
  next
    case (snoc D1 d)
    then obtain w wb u where "d = (True, w, wb, u)" using assms(2) D by (cases d) auto
    then show ?thesis using assms D c snoc swap_far_takes by simp
  qed
qed

lemma plug_append: "plug (D @ E) x = plug E (plug D x)"
  by (induction D arbitrary: x rule: path_addrs.induct) simp_all

lemma lefts_append: "lefts (D @ E) = lefts E @ lefts D"
  by (induction D rule: path_addrs.induct) simp_all

lemma rights_append: "rights (D @ E) = rights D @ rights E"
  by (induction D rule: path_addrs.induct) simp_all

lemma path_avl_append: "path_avl (D @ E) h \<longleftrightarrow> path_avl D h \<and> path_avl E (height (plug D x))" if "height x = h"
  using that
proof (induction D arbitrary: x h)
  case (Cons c D)
  obtain s a b u where c: "c = (s, a, b, u)" by (cases c) auto
  show ?case using Cons.IH [of "join s x a b u"] Cons.prems c by simp
qed simp

text \<open>The outermost node of a subtree on one side.\<close>

lemma subtree_end_ok:
  assumes "rep (nodes t) p x" "x \<noteq> Leaf"
  shows "\<exists>D y e k. x = plug D (join s Leaf e k y) \<and> (\<forall>c\<in>set D. fst c = s) \<and> subtree_end s t (the (ptr x)) = Some e"
  using assms
proof (induction x arbitrary: p)
  case (Node l a b r)
  define c where "c = (if s then r else l)"
  define u where "u = (if s then l else r)"
  have x: "Node l a b r = join s c a b u" and c: "rep (nodes t) (Some a) c"
    using Node.prems by (auto simp: join_def c_def u_def)
  obtain n where n: "nodes t a = Some n" "link n s = ptr c" using Node.prems by (auto simp: link_def c_def)
  show ?case
  proof (cases "c = Leaf")
    case True
    then show ?thesis
      using x n by (intro exI [of _ "[]"] exI [of _ u] exI [of _ a] exI [of _ b]) (simp add: subtree_end.simps)
  next
    case False
    then obtain D y e k where D: "c = plug D (join s Leaf e k y)" "\<forall>c\<in>set D. fst c = s"
      "subtree_end s t (the (ptr c)) = Some e"
      using Node.IH c unfolding c_def by (cases s) (auto split: if_splits, blast+)
    obtain d where "ptr c = Some d" using False by (cases c) auto
    then have "subtree_end s t a = Some e" using n D(3) by (simp add: subtree_end.simps [of s t a])
    then show ?thesis
      using x D(1,2) by (intro exI [of _ "D @ [(s, a, b, u)]"] exI [of _ y] exI [of _ e] exI [of _ k])
        (simp add: plug_append)
  qed
qed simp

lemma set_addrs_plug: "set (addrs (plug C x)) = addresses C x"
  by (auto simp: addresses_def addrs_plug set_path_addrs)

lemma find_path: "a \<in> set (addrs x) \<Longrightarrow> \<exists>C l b r. x = plug C (Node l a b r)"
proof (induction x)
  case (Node l c b r)
  then consider "a \<in> set (addrs l)" | "a = c" | "a \<in> set (addrs r)" by auto
  then show ?case
  proof cases
    case 1
    then obtain C l' b' r' where "l = plug C (Node l' a b' r')" using Node.IH by blast
    then have "Node l c b r = plug (C @ [(False, c, b, r)]) (Node l' a b' r')" by (simp add: plug_append join_def)
    then show ?thesis by blast
  next
    case 2
    then have "Node l c b r = plug [] (Node l a b r)" by simp
    then show ?thesis by blast
  next
    case 3
    then obtain C l' b' r' where "r = plug C (Node l' a b' r')" using Node.IH by blast
    then have "Node l c b r = plug (C @ [(True, c, b, l)]) (Node l' a b' r')" by (simp add: plug_append join_def)
    then show ?thesis by blast
  qed
qed simp

lemma remove_node_ok:
  assumes cut: "tree_cut t C (join s c a b Leaf)" and avl: "avl (plug C (join s c a b Leaf))"
    and A: "addresses C (join s c a b Leaf) \<subseteq> A"
  shows "\<exists>t' y. remove_node t a = Some t' \<and> tree_cut t' [] y \<and> same_outside A t t' \<and> avl y \<and>
           addrs y = lefts C @ addrs c @ rights C"
proof -
  obtain n where n: "nodes t a = Some n" "parent n = upper None C"
    "link0 n = (if s then None else ptr c)" "link1 n = (if s then ptr c else None)"
    using cut by (cases s) (auto simp: join_def dest: cut_nodes)
  have child: "(if link0 n \<noteq> None then link0 n else link1 n) = ptr c" "\<not> (link0 n \<noteq> None \<and> link1 n \<noteq> None)"
    using n by (auto split: if_splits)
  obtain t1 where t1: "BAVL_replace_subtree t a (ptr c) = Some t1" "tree_cut t1 C c" "same_outside A t t1"
    using replace_takes [OF cut A] by (auto elim: takesE)
  have c: "avl c" "path_avl C (1 + height c)"
    using avl by (simp_all add: avl_plug avl_join max.absorb1)
  show ?thesis
  proof (cases C rule: path_addrs.cases)
    case 1
    then show ?thesis
      using n child t1 c by (intro exI [of _ t1] exI [of _ c]) (simp add: remove_node_def Let_def)
  next
    case (2 d p q u C')
    obtain pn where pn: "nodes t p = Some pn" "(link pn True = Some a) = d"
      using cut 2 by (cases d; cases s) (auto simp: tree_cut_def link_def join_def)
    have AC: "addresses C c \<subseteq> A" using A by (auto simp: addresses_def)
    obtain t' y where y: "BAVL_rebalance t1 p d (- 1) = Some t'" "tree_cut t' [] y" "same_outside A t1 t'" "avl y"
      "addrs y = addrs (plug C c)"
      using BAVL_rebalance_ok [OF t1(2) 2 AC c, of "- 1"] by auto
    have "remove_node t a = Some t'"
      using n child t1(1) pn 2 y(1) by (simp add: remove_node_def Let_def)
    then show ?thesis
      using y(2,4,5) same_outside_trans [OF t1(3) y(3)] by (simp add: addrs_plug) blast
  qed
qed

lemma path_avl_readdress: "path_avl (D @ (s, m, b, r) # C) h = path_avl (D @ (s, a, b, r) # C) h"
  by (induction D arbitrary: h rule: path_addrs.induct) simp_all

lemma BAVL_Remove_ok:
  assumes cut: "tree_cut t [] x" and avl: "avl x" and a: "a \<in> set (addrs x)"
  shows "\<exists>t' y. BAVL_Remove t a = Some t' \<and> tree_cut t' [] y \<and> same_outside (set (addrs x)) t t' \<and> avl y \<and>
           addrs y = remove1 a (addrs x)"
proof -
  obtain C l b r where x: "x = plug C (Node l a b r)" using find_path [OF a] by blast
  have cutC: "tree_cut t C (Node l a b r)" using cut x cut_plug by blast
  have rem: "remove1 a (addrs x) = lefts C @ addrs l @ addrs r @ rights C"
    using cutC by (auto simp: x addrs_plug tree_cut_def set_path_addrs remove1_append)
  have A: "addresses C (Node l a b r) \<subseteq> set (addrs x)"
    by (auto simp: x addresses_def addrs_plug set_path_addrs)
  note n = cut_nodes [OF cutC]
  show ?thesis
  proof (cases "l = Leaf \<or> r = Leaf")
    case True
    then obtain s c where c: "Node l a b r = join s c a b Leaf" "addrs c = addrs l @ addrs r"
      by (cases "l = Leaf") (auto simp: join_def intro: that [of True] that [of False])
    have "BAVL_Remove t a = remove_node t a"
      using True n by (cases l; cases r) (auto simp: BAVL_Remove_def)
    then show ?thesis
      using remove_node_ok [OF cutC [unfolded c(1)] avl [unfolded x c(1)] A [unfolded c(1)]] by (simp add: rem c(2))
  next
    case False
    then obtain l0 r0 where ptrs: "ptr l = Some l0" "ptr r = Some r0" by (cases l; cases r) auto
    have "rep (nodes t) (Some a) l" using cutC by (simp add: tree_cut_def)
    then obtain D y m k where D: "l = plug D (join True Leaf m k y)" "\<forall>c\<in>set D. fst c = True"
      "subtree_end True t l0 = Some m"
      using subtree_end_ok [of t "Some a" l True] False ptrs by auto
    let ?E = "D @ (False, a, b, r) # C" and ?F = "D @ (False, m, b, r) # C"
    have plugE: "plug ?E (Node y m k Leaf) = x" by (simp add: x D(1) plug_append join_def)
    then have cutE: "tree_cut t ?E (Node y m k Leaf)" using cut cut_plug by metis
    have avlE: "avl (Node y m k Leaf)" "path_avl ?E (height (Node y m k Leaf))"
      using avl avl_plug plugE by blast+
    have AE: "addresses ?E (Node y m k Leaf) \<subseteq> set (addrs x)"
      using plugE addrs_plug [of ?E "Node y m k Leaf"] by (auto simp: addresses_def set_path_addrs simp del: path_addrs_append)
    have i8: "int8 b = b" "int8 k = k" using avlE avl x by (auto simp: avl_plug)
    obtain t1 where t1: "BAVL_swap_nodes t a m = Some t1" "tree_cut t1 ?F (Node y a k Leaf)" "same_outside (set (addrs x)) t t1"
      using swap_takes [OF cutE _ AE i8] D(2) by (auto elim: takesE)
    have R: "BAVL_Remove t a = remove_node t1 a"
      using n ptrs D(3) t1(1) by (simp add: BAVL_Remove_def BAVL_subtree_max_def)
    have F: "Node y a k Leaf = join False y a k Leaf" by (simp add: join_def)
    have "avl (plug ?F (join False y a k Leaf))"
      using avlE by (simp add: avl_plug avl_join path_avl_readdress [of D False m b r C _ a] sgn_of_def)
    moreover have "addresses ?F (join False y a k Leaf) \<subseteq> set (addrs x)"
      using AE by (auto simp: addresses_def join_def)
    ultimately obtain t' z where z: "remove_node t1 a = Some t'" "tree_cut t' [] z" "same_outside (set (addrs x)) t1 t'"
      "avl z" "addrs z = lefts ?F @ addrs y @ rights ?F"
      using remove_node_ok [OF t1(2) [unfolded F]] by blast
    have "rights D = []" using D(2) by (induction D rule: path_addrs.induct) auto
    then have "addrs z = remove1 a (addrs x)"
      by (simp add: z(5) rem D(1) addrs_plug lefts_append rights_append join_def)
    then show ?thesis
      using R z same_outside_trans [OF t1(3) z(3)] by auto
  qed
qed

section \<open>Descent, insertion and neighbours\<close>

text \<open>
  \<open>cm y\<close> is the comparison of the value that is searched with the value of \<open>y\<close>.  Along the nodes of a search tree
  it is first 1, then 0 at most once, then -1.
\<close>

definition falls :: "(nat \<Rightarrow> int) \<Rightarrow> nat \<Rightarrow> nat \<Rightarrow> bool" where
  "falls cm y z \<longleftrightarrow> (cm y \<le> 0 \<longrightarrow> cm z = - 1) \<and> (0 \<le> cm z \<longrightarrow> cm y = 1)"

lemma descend_ok:
  assumes "rep (nodes t) p x" "x \<noteq> Leaf" "sorted_wrt (falls cm) (addrs x)" "\<forall>y\<in>set (addrs x). cm y \<in> {- 1, 0, 1}"
  shows "(\<exists>e\<in>set (addrs x). cm e = 0 \<and> descend cm t (the (ptr x)) = Some (e, None)) \<or>
         (\<exists>s c b u D. x = plug ((s, c, b, u) # D) Leaf \<and> descend cm t (the (ptr x)) = Some (c, Some s) \<and>
            (\<forall>y\<in>set (lefts ((s, c, b, u) # D)). cm y = 1) \<and> (\<forall>y\<in>set (rights ((s, c, b, u) # D)). cm y = - 1))"
  using assms
proof (induction x arbitrary: p)
  case (Node l a b r)
  define s where "s = (cm a = 1)"
  define c where "c = (if s then r else l)"
  define u where "u = (if s then l else r)"
  have x: "Node l a b r = join s c a b u" and c: "rep (nodes t) (Some a) c" "sorted_wrt (falls cm) (addrs c)"
    "\<forall>y\<in>set (addrs c). cm y \<in> {- 1, 0, 1}"
    using Node.prems by (auto simp: join_def c_def u_def sorted_wrt_append)
  obtain n where n: "nodes t a = Some n" "link n s = ptr c" using Node.prems by (auto simp: link_def c_def)
  have lr: "c = l \<or> c = r" by (simp add: c_def)
  have rng: "cm a = - 1 \<or> cm a = 0 \<or> cm a = 1" using Node.prems(4) by auto
  have other: "cm a \<noteq> 0 \<Longrightarrow> \<forall>y\<in>insert a (set (addrs u)). cm y = (if s then 1 else - 1)"
    using Node.prems(3,4) by (auto simp: u_def s_def sorted_wrt_append falls_def)
  show ?case
  proof (cases "cm a = 0")
    case True
    then have "descend cm t a = Some (a, None)" using n rng by (simp add: descend.simps)
    then show ?thesis using True by simp
  next
    case nonzero: False
    show ?thesis
    proof (cases "c = Leaf")
      case True
      then have "descend cm t a = Some (a, Some s)" using n nonzero rng by (simp add: descend.simps s_def)
      then show ?thesis
        using x True other [OF nonzero]
        by (intro disjI2 exI [of _ s] exI [of _ a] exI [of _ b] exI [of _ u] exI [of _ "[]"]) auto
    next
      case False
      then obtain d where "ptr c = Some d" by (cases c) auto
      then have d: "descend cm t a = descend cm t (the (ptr c))"
        using n nonzero rng by (simp add: descend.simps [of cm t a] s_def)
      have "(\<exists>e\<in>set (addrs c). cm e = 0 \<and> descend cm t (the (ptr c)) = Some (e, None)) \<or>
         (\<exists>s c0 b u D. c = plug ((s, c0, b, u) # D) Leaf \<and> descend cm t (the (ptr c)) = Some (c0, Some s) \<and>
            (\<forall>y\<in>set (lefts ((s, c0, b, u) # D)). cm y = 1) \<and> (\<forall>y\<in>set (rights ((s, c0, b, u) # D)). cm y = - 1))"
        using lr
      proof
        assume "c = l"
        show ?thesis using c False unfolding \<open>c = l\<close> by (intro Node.IH(1))
      next
        assume "c = r"
        show ?thesis using c False unfolding \<open>c = r\<close> by (intro Node.IH(2))
      qed
      then show ?thesis
      proof (elim disjE exE conjE bexE)
        fix e assume "e \<in> set (addrs c)" "cm e = 0" "descend cm t (the (ptr c)) = Some (e, None)"
        then show ?thesis using d by (intro disjI1 bexI [of _ e]) (auto simp: c_def split: if_splits)
      next
        fix s1 :: bool and c1 :: nat and b1 :: int and u1 :: tree and D :: path
        let ?D = "(s1, c1, b1, u1) # D"
        assume D: "c = plug ?D Leaf" "descend cm t (the (ptr c)) = Some (c1, Some s1)"
          "\<forall>y\<in>set (lefts ?D). cm y = 1" "\<forall>y\<in>set (rights ?D). cm y = - 1"
        have "Node l a b r = plug (?D @ [(s, a, b, u)]) Leaf" using x D(1) by (simp add: plug_append)
        moreover have "\<forall>y\<in>set (lefts (?D @ [(s, a, b, u)])). cm y = 1" "\<forall>y\<in>set (rights (?D @ [(s, a, b, u)])). cm y = - 1"
          unfolding lefts_append rights_append using D(3,4) other [OF nonzero] by (cases s; auto)+
        moreover have "descend cm t (the (ptr (Node l a b r))) = Some (c1, Some s1)" using d D(2) by simp
        ultimately show ?thesis unfolding append_Cons by blast
      qed
    qed
  qed
qed simp

lemma insert_leaf_takes:
  assumes cut: "tree_cut t ((s, c, b, u) # D) Leaf" and k: "k \<notin> addresses ((s, c, b, u) # D) Leaf" and m: "nodes t k \<noteq> None"
    and A: "insert k (addresses ((s, c, b, u) # D) Leaf) \<subseteq> A"
  shows "takes t (do { t \<leftarrow> modify t c (set_link s (Some k)); modify t k (\<lambda>_. new_node (Some c)) }) A
           ((s, c, b, u) # D) (Node Leaf k 0 Leaf)"
  using assms by (cases s) (auto simp: addresses_def new_node_def memory_simps)

lemma BAVL_Insert_ok:
  assumes cut: "tree_cut t [] x" and avl: "avl x" and k: "k \<notin> set (addrs x)" "nodes t k \<noteq> None"
    and cm: "cm = (\<lambda>c. cmp (val k) (val c))" and srt: "sorted_wrt (falls cm) (addrs x)" "\<forall>y\<in>set (addrs x). cm y \<in> {- 1, 0, 1}"
  shows "(\<exists>e\<in>set (addrs x). cm e = 0 \<and> BAVL_Insert cmp val t k = Some (False, Some e, t)) \<or>
         (\<exists>ref t' y ls rs. BAVL_Insert cmp val t k = Some (True, ref, t') \<and> tree_cut t' [] y \<and> avl y \<and>
            same_outside (insert k (set (addrs x))) t t' \<and> addrs x = ls @ rs \<and> addrs y = ls @ k # rs \<and>
            (\<forall>z\<in>set ls. cm z = 1) \<and> (\<forall>z\<in>set rs. cm z = - 1) \<and>
            (ref = None \<and> ls = [] \<and> rs = [] \<or> ls \<noteq> [] \<and> ref = Some (last ls) \<or> rs \<noteq> [] \<and> ref = Some (hd rs)))"
proof (cases "x = Leaf")
  case True
  have "\<exists>t'. BAVL_Insert cmp val t k = Some (True, None, t') \<and> tree_cut t' [] (Node Leaf k 0 Leaf) \<and> same_outside {k} t t'"
    using cut k True by (auto simp: BAVL_Insert_def tree_cut_def modify_def new_node_def same_outside_def)
  then show ?thesis using True by (intro disjI2) (fastforce simp: True)
next
  case False
  have cutx: "rep (nodes t) None x" "root t = ptr x" using cut by (auto simp: tree_cut_def)
  then obtain r where r: "root t = Some r" "ptr x = Some r" using False by (cases x) auto
  consider (found) e where "e \<in> set (addrs x)" "cm e = 0" "descend cm t r = Some (e, None)"
    | (leaf) s c b u D where "x = plug ((s, c, b, u) # D) Leaf" "descend cm t r = Some (c, Some s)"
        "\<forall>y\<in>set (lefts ((s, c, b, u) # D)). cm y = 1" "\<forall>y\<in>set (rights ((s, c, b, u) # D)). cm y = - 1"
    using descend_ok [OF cutx(1) False srt] r by auto
  then show ?thesis
  proof cases
    case found
    then have "BAVL_Insert cmp val t k = Some (False, Some e, t)" using r cm by (simp add: BAVL_Insert_def)
    then show ?thesis using found by blast
  next
    case leaf
    let ?C = "(s, c, b, u) # D"
    have in_x: "set (addrs x) = addresses ?C Leaf"
      unfolding leaf(1) by (rule set_addrs_plug)
    have cutC: "tree_cut t ?C Leaf" using cut leaf(1) cut_plug by blast
    obtain t1 where t1: "do { t \<leftarrow> modify t c (set_link s (Some k)); modify t k (\<lambda>_. new_node (Some c)) } = Some t1"
      "tree_cut t1 ?C (Node Leaf k 0 Leaf)" "same_outside (insert k (set (addrs x))) t t1"
      using insert_leaf_takes [OF cutC _ k(2), of "insert k (set (addrs x))"] k(1) in_x by (auto elim: takesE)
    have "path_avl ?C 0" using avl leaf(1) avl_plug [of ?C Leaf] by simp
    moreover have "addresses ?C (Node Leaf k 0 Leaf) \<subseteq> insert k (set (addrs x))"
      unfolding in_x by (auto simp: addresses_def)
    ultimately obtain t' y where y: "BAVL_rebalance t1 c s 1 = Some t'" "tree_cut t' [] y"
      "same_outside (insert k (set (addrs x))) t1 t'" "avl y" "addrs y = addrs (plug ?C (Node Leaf k 0 Leaf))"
      using BAVL_rebalance_ok [OF t1(2) refl, of "insert k (set (addrs x))" 0 1] by auto
    have ins: "BAVL_Insert cmp val t k = Some (True, Some c, t')"
      using r leaf(2) t1(1) y(1) cm by (auto simp: BAVL_Insert_def bind_Some_iff)
    have lists: "addrs x = lefts ?C @ rights ?C" "addrs y = lefts ?C @ k # rights ?C"
      unfolding leaf(1) y(5) by (simp_all only: addrs_plug) simp_all
    have "lefts ?C \<noteq> [] \<and> c = last (lefts ?C) \<or> rights ?C \<noteq> [] \<and> c = hd (rights ?C)" by (cases s) auto
    then show ?thesis
      using ins y(2,4) lists leaf(3,4) same_outside_trans [OF t1(3) y(3)] by blast
  qed
qed

lemma find_zero:
  assumes "sorted_wrt (falls cm) xs" "e \<in> set xs" "cm e = 0"
  shows "find (\<lambda>y. cm y = 0) xs = Some e"
proof -
  obtain ys zs where xs: "xs = ys @ e # zs" using assms(2) by (meson split_list)
  have "\<forall>y\<in>set ys. cm y \<noteq> 0" using assms(1,3) by (auto simp: xs sorted_wrt_append falls_def)
  then have "find (\<lambda>y. cm y = 0) (ys @ e # zs) = Some e" using assms(3) by (induction ys) auto
  then show ?thesis by (simp add: xs)
qed

text \<open>The node at the border between the smaller and the greater ones.\<close>

definition beside :: "nat list \<Rightarrow> nat list \<Rightarrow> nat \<Rightarrow> bool" where
  "beside ls rs c \<longleftrightarrow> ls \<noteq> [] \<and> c = last ls \<or> rs \<noteq> [] \<and> c = hd rs"

definition near :: "(nat \<Rightarrow> int) \<Rightarrow> nat list \<Rightarrow> nat \<Rightarrow> bool" where
  "near cm xs c \<longleftrightarrow>
     (\<exists>ls rs. xs = ls @ rs \<and> (\<forall>y\<in>set ls. cm y = 1) \<and> (\<forall>y\<in>set rs. cm y = - 1) \<and> beside ls rs c)"

lemma near_nonzero: "near cm xs c \<Longrightarrow> y \<in> set xs \<Longrightarrow> cm y \<noteq> 0"
  by (auto simp: near_def)

lemma path_beside: "beside (lefts ((s, c, b, u) # D)) (rights ((s, c, b, u) # D)) c"
  by (cases s) (auto simp: beside_def)

lemma descend_root:
  assumes cut: "tree_cut t [] x" and x: "x \<noteq> Leaf"
    and srt: "sorted_wrt (falls cm) (addrs x)" "\<forall>y\<in>set (addrs x). cm y \<in> {- 1, 0, 1}"
  shows "\<exists>c leaf. descend cm t (the (root t)) = Some (c, leaf) \<and> root t \<noteq> None \<and>
           (leaf = None \<longrightarrow> c \<in> set (addrs x) \<and> cm c = 0) \<and>
           (leaf \<noteq> None \<longrightarrow> near cm (addrs x) c)"
proof -
  have r: "rep (nodes t) None x" "root t = ptr x" "ptr x \<noteq> None"
    using cut x by (auto simp: tree_cut_def, cases x, auto)
  consider (found) e where "e \<in> set (addrs x)" "cm e = 0" "descend cm t (the (ptr x)) = Some (e, None)"
    | (leaf) s c b u D where "x = plug ((s, c, b, u) # D) Leaf" "descend cm t (the (ptr x)) = Some (c, Some s)"
        "\<forall>y\<in>set (lefts ((s, c, b, u) # D)). cm y = 1" "\<forall>y\<in>set (rights ((s, c, b, u) # D)). cm y = - 1"
    using descend_ok [OF r(1) x srt] by blast
  then show ?thesis
  proof cases
    case found
    then show ?thesis using r by auto
  next
    case leaf
    have "addrs x = lefts ((s, c, b, u) # D) @ rights ((s, c, b, u) # D)"
      unfolding leaf(1) addrs_plug by simp
    then have "near cm (addrs x) c" using leaf(3,4) path_beside unfolding near_def by blast
    then show ?thesis using r leaf(2) by auto
  qed
qed

lemma LookupExact_ok:
  assumes cut: "tree_cut t [] x" and cm: "cm = (\<lambda>c. cmp v (val c))"
    and srt: "sorted_wrt (falls cm) (addrs x)" "\<forall>y\<in>set (addrs x). cm y \<in> {- 1, 0, 1}"
  shows "BAVL_LookupExact cmp val t v = Some (find (\<lambda>y. cmp v (val y) = 0) (addrs x))"
proof (cases "x = Leaf")
  case True
  then show ?thesis using cut by (simp add: tree_cut_def BAVL_LookupExact_def)
next
  case False
  obtain c leaf where c: "descend cm t (the (root t)) = Some (c, leaf)" "root t \<noteq> None"
    "leaf = None \<Longrightarrow> c \<in> set (addrs x) \<and> cm c = 0"
    "leaf \<noteq> None \<Longrightarrow> \<forall>y\<in>set (addrs x). cm y \<noteq> 0"
    using descend_root [OF cut False srt] near_nonzero by blast
  have "find (\<lambda>y. cm y = 0) (addrs x) = (if leaf = None then Some c else None)"
    using c(3,4) find_zero [OF srt(1)] by (cases leaf) (auto simp: find_None_iff)
  then show ?thesis using c(1,2) by (auto simp: BAVL_LookupExact_def cm)
qed

lemma Lookup_ok:
  assumes cut: "tree_cut t [] x" and cm: "cm = (\<lambda>c. cmp v (val c))"
    and srt: "sorted_wrt (falls cm) (addrs x)" "\<forall>y\<in>set (addrs x). cm y \<in> {- 1, 0, 1}"
  shows "\<exists>res. BAVL_Lookup cmp val t v = Some res \<and>
           (case res of
              None \<Rightarrow> addrs x = []
            | Some c \<Rightarrow> c \<in> set (addrs x) \<and> cm c = 0 \<or> near cm (addrs x) c)"
proof (cases "x = Leaf")
  case True
  then show ?thesis using cut by (simp add: tree_cut_def BAVL_Lookup_def)
next
  case False
  then show ?thesis
    using descend_root [OF cut False srt] by (auto simp: BAVL_Lookup_def cm)
qed

section \<open>First, last, next and previous\<close>

definition first_of :: "'a list \<Rightarrow> 'a option" where
  "first_of xs = (case xs of [] \<Rightarrow> None | x # _ \<Rightarrow> Some x)"

lemma first_of_simps [simp]: "first_of [] = None" "first_of (x # xs) = Some x"
  by (simp_all add: first_of_def)

lemma first_of_append: "first_of (xs @ ys) = (if xs = [] then first_of ys else first_of xs)"
  by (cases xs) simp_all

definition towards :: "bool \<Rightarrow> 'a list \<Rightarrow> 'a list" where
  "towards s xs = (if s then rev xs else xs)"

lemma end_first: "\<forall>c\<in>set D. fst c = s \<Longrightarrow> first_of (towards s (addrs (plug D (join s Leaf e k y)))) = Some e"
proof -
  assume D: "\<forall>c\<in>set D. fst c = s"
  have "(if s then rights D else lefts D) = []"
    using D by (induction D rule: path_addrs.induct) auto
  then show ?thesis by (cases s) (auto simp: addrs_plug towards_def join_def)
qed

lemma subtree_end_first:
  "rep (nodes t) p x \<Longrightarrow> x \<noteq> Leaf \<Longrightarrow> subtree_end s t (the (ptr x)) = first_of (towards s (addrs x))"
  using subtree_end_ok [of t p x s] end_first by metis

lemma first_of_bind: "xs \<noteq> [] \<Longrightarrow> Option.bind (first_of xs) (\<lambda>n. Some (Some n)) = Some (first_of xs)"
  by (cases xs) auto

lemma GetFirst_ok: "tree_cut t [] x \<Longrightarrow> BAVL_GetFirst t = Some (first_of (addrs x))"
  using subtree_end_first [of t None x False]
  by (cases x) (auto simp: BAVL_GetFirst_def tree_cut_def towards_def first_of_append first_of_bind)

lemma GetLast_ok: "tree_cut t [] x \<Longrightarrow> BAVL_GetLast t = Some (first_of (rev (addrs x)))"
  using subtree_end_first [of t None x True]
  by (cases x) (auto simp: BAVL_GetLast_def tree_cut_def towards_def first_of_append first_of_bind)

lemma climb_ok:
  "tree_cut t C x \<Longrightarrow> ptr x = Some a \<Longrightarrow> climb s t a = Some (first_of (if s then rights C else rev (lefts C)))"
proof (induction C arbitrary: x a)
  case Nil
  then show ?case by (cases x) (auto simp: climb.simps tree_cut_def)
next
  case (Cons c C)
  obtain d p b u where c: "c = (d, p, b, u)" by (cases c) auto
  obtain n where n: "nodes t a = Some n" "parent n = Some p" using Cons.prems c by (cases x) (auto dest: cut_nodes)
  have a: "a \<notin> set (addrs u)" using Cons.prems c by (cases x) (auto simp: tree_cut_def)
  have up: "tree_cut t C (join d x p b u)" using Cons.prems(1) c by (simp add: cut_join)
  obtain pn where pn: "nodes t p = Some pn" "link pn d = ptr x" "link pn (\<not> d) = ptr u"
    using join_nodes [OF up] by blast
  have "link pn s = Some a \<longleftrightarrow> d = s" using pn a Cons.prems(2) by (cases "d = s") auto
  then show ?case
    using n pn Cons.IH [OF up] c by (cases d; cases s) (auto simp: climb.simps [of _ t a])
qed

text \<open>The element after a given one.\<close>

fun next_in :: "nat list \<Rightarrow> nat \<Rightarrow> nat option" where
  "next_in [] a = None"
| "next_in (y # ys) a = (if y = a then first_of ys else next_in ys a)"

lemma next_in_append: "a \<notin> set ys \<Longrightarrow> next_in (ys @ a # zs) a = first_of zs"
  by (induction ys) auto

lemma step_from_ok:
  assumes cut: "tree_cut t [] x" and a: "a \<in> set (addrs x)"
  shows "step_from s t a = Some (next_in (if s then addrs x else rev (addrs x)) a)"
proof -
  obtain C l b r where x: "x = plug C (Node l a b r)" using find_path [OF a] by blast
  have cutC: "tree_cut t C (Node l a b r)" using cut x cut_plug by blast
  have notin: "a \<notin> set (lefts C) \<union> set (addrs l) \<union> set (addrs r) \<union> set (rights C)"
    using cutC set_path_addrs [of C] by (auto simp: tree_cut_def)
  define c where "c = (if s then r else l)"
  have c: "rep (nodes t) (Some a) c" using cutC by (simp add: tree_cut_def c_def)
  obtain n where n: "nodes t a = Some n" "link n s = ptr c"
    using cut_nodes [OF cutC] by (simp add: c_def link_def)
  have nxt: "next_in (if s then addrs x else rev (addrs x)) a =
      first_of (towards (\<not> s) (addrs c) @ (if s then rights C else rev (lefts C)))"
    using notin next_in_append [of a "lefts C @ addrs l" "addrs r @ rights C"]
      next_in_append [of a "rev (rights C) @ rev (addrs r)" "rev (addrs l) @ rev (lefts C)"]
    by (simp add: x addrs_plug c_def towards_def)
  show ?thesis
  proof (cases c)
    case Leaf
    then show ?thesis
      using n climb_ok [OF cutC, of a s] nxt by (simp add: step_from_def towards_def)
  next
    case (Node cl ca cb cr)
    then show ?thesis
      using n nxt subtree_end_first [OF c, of "\<not> s"]
      by (auto simp: step_from_def first_of_append first_of_bind towards_def split: if_splits)
  qed
qed

section \<open>The self-check\<close>

lemma assert_recurser_ok:
  assumes "rep (nodes t) p x" "x \<noteq> Leaf" "avl x" "sorted_wrt (\<lambda>a b. cm a b = - 1 \<and> cm b a = 1) (addrs x)"
  shows "BAVL_assert_recurser cm t (the (ptr x)) = Some (height x)"
  using assms
proof (induction x arbitrary: p)
  case (Node l a b r)
  have l: "l = Leaf \<or> (\<exists>c ln. ptr l = Some c \<and> nodes t c = Some ln \<and> parent ln = Some a \<and> cm c a = - 1 \<and>
      BAVL_assert_recurser cm t c = Some (height l))"
    using Node.prems Node.IH(1) [of "Some a"] by (cases l) (auto simp: sorted_wrt_append)
  have r: "r = Leaf \<or> (\<exists>c rn. ptr r = Some c \<and> nodes t c = Some rn \<and> parent rn = Some a \<and> cm c a = 1 \<and>
      BAVL_assert_recurser cm t c = Some (height r))"
    using Node.prems Node.IH(2) [of "Some a"] by (cases r) (auto simp: sorted_wrt_append)
  show ?case
    using l r Node.prems by (auto simp: BAVL_assert_recurser.simps [of cm t a] max.commute)
qed simp

lemma Verify_ok:
  assumes "tree_cut t [] x" "avl x" "sorted_wrt (\<lambda>a b. cmp (val a) (val b) = - 1 \<and> cmp (val b) (val a) = 1) (addrs x)"
  shows "BAVL_Verify cmp val t = Some ()"
proof (cases x)
  case Leaf
  then show ?thesis using assms by (simp add: BAVL_Verify_def tree_cut_def)
next
  case (Node l a b r)
  have "BAVL_assert_recurser (\<lambda>a b. cmp (val a) (val b)) t a = Some (height x)"
    using assert_recurser_ok [of t None x "\<lambda>a b. cmp (val a) (val b)"] assms Node by (simp add: tree_cut_def)
  then show ?thesis using assms(1) Node by (simp add: BAVL_Verify_def tree_cut_def)
qed

text \<open>The height of a balanced tree is at most twice the logarithm of its size.\<close>

lemma avl_size: "avl x \<Longrightarrow> 2 ^ (nat (height x) div 2) \<le> length (addrs x) + 1"
proof (induction x)
  case (Node l a b r)
  define M where "M = nat (max (height l) (height r))"
  have h: "nat (height (Node l a b r)) = Suc M" "M - 1 \<le> nat (height l)" "M - 1 \<le> nat (height r)"
    using Node.prems by (auto simp: M_def max_def nat_add_distrib)
  have mono: "2 ^ ((M - 1) div 2) \<le> (2::nat) ^ (nat (height y) div 2)" if "M - 1 \<le> nat (height y)" for y
    using that by (intro power_increasing div_le_mono) auto
  have "2 ^ ((M - 1) div 2) \<le> length (addrs l) + 1" "2 ^ ((M - 1) div 2) \<le> length (addrs r) + 1"
    using Node.prems order_trans [OF mono [OF h(2)] Node.IH(1)] order_trans [OF mono [OF h(3)] Node.IH(2)] by simp_all
  moreover have "(2::nat) ^ (Suc M div 2) \<le> 2 * 2 ^ ((M - 1) div 2)" by (cases M) simp_all
  ultimately show ?case unfolding h(1) by simp
qed simp

end
