(* ===== verification/BAVL_Refine.thy ===== *)
theory BAVL_Refine
  imports BAVL_Set
begin

text \<open>
  The contract of the search tree: for a comparator that orders the values, a sequence of operations on the
  tree gives the results of the same operations on a list of nodes sorted by value.
\<close>

section \<open>The sorted list\<close>

text \<open>
  A client allocates a node (with whatever \<open>malloc\<close> left in it), sets its value and inserts it, and frees a node
  after removing it.
\<close>

datatype 'v tree_op =
    Insert nat BAVLNode 'v
  | Remove nat
  | Lookup 'v
  | LookupExact 'v
  | IsEmpty
  | GetFirst
  | GetLast
  | GetNext nat
  | GetPrev nat

datatype tree_result = Inserted bool "nat option" | Removed | Found "nat option" | Empty bool

type_synonym 'v tree_store = "BAVL \<times> (nat \<Rightarrow> 'v)"

fun tree_exec :: "('v \<Rightarrow> 'v \<Rightarrow> int) \<Rightarrow> 'v tree_op \<Rightarrow> 'v tree_store \<Rightarrow> (tree_result \<times> 'v tree_store) option" where
  "tree_exec cmp (Insert k g v) (t, val) =
     do { (inserted, ref, t) \<leftarrow> BAVL_Insert cmp (val(k := v)) (t\<lparr>nodes := (nodes t)(k := Some g)\<rparr>) k;
          Some (Inserted inserted ref, t, val(k := v)) }"
| "tree_exec cmp (Remove k) (t, val) =
     do { t \<leftarrow> BAVL_Remove t k; Some (Removed, t\<lparr>nodes := (nodes t)(k := None)\<rparr>, val) }"
| "tree_exec cmp (Lookup v) (t, val) = do { r \<leftarrow> BAVL_Lookup cmp val t v; Some (Found r, t, val) }"
| "tree_exec cmp (LookupExact v) (t, val) = do { r \<leftarrow> BAVL_LookupExact cmp val t v; Some (Found r, t, val) }"
| "tree_exec cmp IsEmpty (t, val) = Some (Empty (BAVL_IsEmpty t), t, val)"
| "tree_exec cmp GetFirst (t, val) = do { r \<leftarrow> BAVL_GetFirst t; Some (Found r, t, val) }"
| "tree_exec cmp GetLast (t, val) = do { r \<leftarrow> BAVL_GetLast t; Some (Found r, t, val) }"
| "tree_exec cmp (GetNext k) (t, val) = do { r \<leftarrow> BAVL_GetNext t k; Some (Found r, t, val) }"
| "tree_exec cmp (GetPrev k) (t, val) = do { r \<leftarrow> BAVL_GetPrev t k; Some (Found r, t, val) }"

fun tree_run :: "('v \<Rightarrow> 'v \<Rightarrow> int) \<Rightarrow> 'v tree_op list \<Rightarrow> 'v tree_store \<Rightarrow> (tree_result list \<times> 'v tree_store) option" where
  "tree_run cmp [] s = Some ([], s)"
| "tree_run cmp (x # xs) s =
     do { (r, s) \<leftarrow> tree_exec cmp x s;
          (rs, s) \<leftarrow> tree_run cmp xs s;
          Some (r # rs, s) }"

text \<open>The same on a list of nodes with their values.\<close>

definition equal_node :: "('v \<Rightarrow> 'v \<Rightarrow> int) \<Rightarrow> 'v \<Rightarrow> (nat \<times> 'v) list \<Rightarrow> nat option" where
  "equal_node cmp v xs = map_option fst (find (\<lambda>(k, w). cmp v w = 0) xs)"

fun list_after :: "('v \<Rightarrow> 'v \<Rightarrow> int) \<Rightarrow> 'v tree_op \<Rightarrow> (nat \<times> 'v) list \<Rightarrow> (nat \<times> 'v) list" where
  "list_after cmp (Insert k g v) xs =
     (if equal_node cmp v xs = None
      then takeWhile (\<lambda>(j, w). cmp v w = 1) xs @ (k, v) # dropWhile (\<lambda>(j, w). cmp v w = 1) xs
      else xs)"
| "list_after cmp (Remove k) xs = filter (\<lambda>(j, w). j \<noteq> k) xs"
| "list_after cmp _ xs = xs"

text \<open>The last node below a value or the first one above it; the tree gives one of the two.\<close>

definition neighbour :: "('v \<Rightarrow> 'v \<Rightarrow> int) \<Rightarrow> 'v \<Rightarrow> (nat \<times> 'v) list \<Rightarrow> nat option \<Rightarrow> bool" where
  "neighbour cmp v xs r =
     (let ls = filter (\<lambda>(k, w). cmp v w = 1) xs; rs = filter (\<lambda>(k, w). cmp v w = - 1) xs
      in r = None \<and> xs = [] \<or> ls \<noteq> [] \<and> r = Some (fst (last ls)) \<or> rs \<noteq> [] \<and> r = Some (fst (hd rs)))"

fun result_ok :: "('v \<Rightarrow> 'v \<Rightarrow> int) \<Rightarrow> 'v tree_op \<Rightarrow> (nat \<times> 'v) list \<Rightarrow> tree_result \<Rightarrow> bool" where
  "result_ok cmp (Insert k g v) xs r =
     (case r of
        Inserted True ref \<Rightarrow> equal_node cmp v xs = None \<and> neighbour cmp v xs ref
      | Inserted False ref \<Rightarrow> ref \<noteq> None \<and> ref = equal_node cmp v xs
      | _ \<Rightarrow> False)"
| "result_ok cmp (Remove k) xs r = (r = Removed)"
| "result_ok cmp (Lookup v) xs r =
     (case r of
        Found n \<Rightarrow> if equal_node cmp v xs = None then neighbour cmp v xs n else n = equal_node cmp v xs
      | _ \<Rightarrow> False)"
| "result_ok cmp (LookupExact v) xs r = (r = Found (equal_node cmp v xs))"
| "result_ok cmp IsEmpty xs r = (r = Empty (xs = []))"
| "result_ok cmp GetFirst xs r = (r = Found (first_of (map fst xs)))"
| "result_ok cmp GetLast xs r = (r = Found (first_of (rev (map fst xs))))"
| "result_ok cmp (GetNext k) xs r = (r = Found (next_in (map fst xs) k))"
| "result_ok cmp (GetPrev k) xs r = (r = Found (next_in (rev (map fst xs)) k))"

fun results_ok :: "('v \<Rightarrow> 'v \<Rightarrow> int) \<Rightarrow> 'v tree_op list \<Rightarrow> (nat \<times> 'v) list \<Rightarrow> tree_result list \<Rightarrow> bool" where
  "results_ok cmp [] xs [] = True"
| "results_ok cmp (x # ops) xs (r # rs) = (result_ok cmp x xs r \<and> results_ok cmp ops (list_after cmp x xs) rs)"
| "results_ok cmp _ xs _ = False"

text \<open>What the callers guarantee: a new node is not in the tree, a given node is, and the values are valid.\<close>

fun op_allowed :: "('v \<Rightarrow> bool) \<Rightarrow> 'v tree_op \<Rightarrow> (nat \<times> 'v) list \<Rightarrow> bool" where
  "op_allowed good (Insert k g v) xs = (k \<notin> set (map fst xs) \<and> good v)"
| "op_allowed good (Remove k) xs = (k \<in> set (map fst xs))"
| "op_allowed good (Lookup v) xs = good v"
| "op_allowed good (LookupExact v) xs = good v"
| "op_allowed good (GetNext k) xs = (k \<in> set (map fst xs))"
| "op_allowed good (GetPrev k) xs = (k \<in> set (map fst xs))"
| "op_allowed good _ xs = True"

fun run_allowed :: "('v \<Rightarrow> bool) \<Rightarrow> ('v \<Rightarrow> 'v \<Rightarrow> int) \<Rightarrow> 'v tree_op list \<Rightarrow> (nat \<times> 'v) list \<Rightarrow> bool" where
  "run_allowed good cmp [] xs = True"
| "run_allowed good cmp (x # ops) xs = (op_allowed good x xs \<and> run_allowed good cmp ops (list_after cmp x xs))"

fun list_run :: "('v \<Rightarrow> 'v \<Rightarrow> int) \<Rightarrow> 'v tree_op list \<Rightarrow> (nat \<times> 'v) list \<Rightarrow> (nat \<times> 'v) list" where
  "list_run cmp [] xs = xs"
| "list_run cmp (x # ops) xs = list_run cmp ops (list_after cmp x xs)"

section \<open>The tree implements the list\<close>

text \<open>The memory holds a balanced tree with the nodes \<open>ks\<close> in order.\<close>

definition holds_nodes :: "BAVL \<Rightarrow> nat list \<Rightarrow> bool" where
  "holds_nodes t ks \<longleftrightarrow> (\<exists>x. tree_cut t [] x \<and> avl x \<and> addrs x = ks)"

lemma equal_node_pairs: "equal_node cmp v (map (\<lambda>k. (k, val k)) ks) = find (\<lambda>k. cmp v (val k) = 0) ks"
  by (induction ks) (auto simp: equal_node_def)

lemma near_neighbour:
  assumes "near (\<lambda>k. cmp v (val k)) ks c"
  shows "neighbour cmp v (map (\<lambda>k. (k, val k)) ks) (Some c)"
proof -
  obtain ls rs where ks: "ks = ls @ rs" "\<forall>y\<in>set ls. cmp v (val y) = 1" "\<forall>y\<in>set rs. cmp v (val y) = - 1" "beside ls rs c"
    using assms unfolding near_def by blast
  have "filter (\<lambda>k. cmp v (val k) = 1) ks = ls" "filter (\<lambda>k. cmp v (val k) = - 1) ks = rs"
    using ks(2,3) by (auto simp: ks(1) filter_empty_conv filter_id_conv)
  then show ?thesis
    using ks(4) by (auto simp: neighbour_def Let_def beside_def filter_map comp_def last_map hd_map)
qed

lemma split_first: "\<forall>z\<in>set rs. f z = (- 1 :: int) \<Longrightarrow> takeWhile (\<lambda>z. f z = 1) rs = []"
  "\<forall>z\<in>set rs. f z = (- 1 :: int) \<Longrightarrow> dropWhile (\<lambda>z. f z = 1) rs = rs"
  by (cases rs; simp)+

locale value_order =
  fixes wf :: "'v \<Rightarrow> bool" and cmp :: "'v \<Rightarrow> 'v \<Rightarrow> int"
  assumes cmp_range: "wf a \<Longrightarrow> wf b \<Longrightarrow> cmp a b \<in> {- 1, 0, 1}"
    and cmp_swap: "wf a \<Longrightarrow> wf b \<Longrightarrow> cmp b a = - cmp a b"
    and cmp_trans: "wf a \<Longrightarrow> wf b \<Longrightarrow> wf c \<Longrightarrow> cmp a b \<le> 0 \<Longrightarrow> cmp b c \<le> 0 \<Longrightarrow> cmp a c \<le> 0"
begin

definition ordered :: "(nat \<Rightarrow> 'v) \<Rightarrow> nat list \<Rightarrow> bool" where
  "ordered val ks \<longleftrightarrow> (\<forall>k\<in>set ks. wf (val k)) \<and> sorted_wrt (\<lambda>a b. cmp (val a) (val b) = - 1) ks"

lemma cmp_neg: "wf a \<Longrightarrow> wf b \<Longrightarrow> cmp a b < 0 \<Longrightarrow> cmp a b = - 1"
  using cmp_range [of a b] by fastforce

lemma less_le_trans:
  assumes "wf a" "wf b" "wf c" "cmp a b = - 1" "cmp b c \<le> 0"
  shows "cmp a c = - 1"
proof -
  have "\<not> cmp c a \<le> 0"
  proof
    assume "cmp c a \<le> 0"
    from cmp_trans [OF assms(2,3,1,5) this] show False using cmp_swap [OF assms(1,2)] assms(4) by simp
  qed
  then have "cmp a c < 0" using cmp_swap [OF assms(1,3)] by simp
  then show ?thesis by (rule cmp_neg [OF assms(1,3)])
qed

lemma le_less_trans:
  assumes "wf a" "wf b" "wf c" "cmp a b \<le> 0" "cmp b c = - 1"
  shows "cmp a c = - 1"
proof -
  have "\<not> cmp c a \<le> 0"
  proof
    assume "cmp c a \<le> 0"
    from cmp_trans [OF assms(3,1,2) this assms(4)] show False using cmp_swap [OF assms(2,3)] assms(5) by simp
  qed
  then have "cmp a c < 0" using cmp_swap [OF assms(1,3)] by simp
  then show ?thesis by (rule cmp_neg [OF assms(1,3)])
qed

lemma ordered_falls:
  assumes "ordered val ks" "wf v"
  shows "sorted_wrt (falls (\<lambda>k. cmp v (val k))) ks" "\<forall>k\<in>set ks. cmp v (val k) \<in> {- 1, 0, 1}"
proof -
  have "falls (\<lambda>k. cmp v (val k)) a b" if "wf (val a)" "wf (val b)" "cmp (val a) (val b) = - 1" for a b
    using le_less_trans [OF assms(2) that(1,2) _ that(3)] less_le_trans [OF that(1,2) assms(2) that(3)]
    unfolding falls_def cmp_swap [OF assms(2) that(1)] cmp_swap [OF assms(2) that(2)] by auto
  then show "sorted_wrt (falls (\<lambda>k. cmp v (val k))) ks"
    using assms(1) sorted_wrt_mono_rel [of ks "\<lambda>a b. cmp (val a) (val b) = - 1" "falls (\<lambda>k. cmp v (val k))"]
    by (simp add: ordered_def)
  show "\<forall>k\<in>set ks. cmp v (val k) \<in> {- 1, 0, 1}"
  proof
    fix k assume "k \<in> set ks"
    then show "cmp v (val k) \<in> {- 1, 0, 1}" using assms by (intro cmp_range) (auto simp: ordered_def)
  qed
qed

lemma ordered_both: "ordered val ks \<Longrightarrow> sorted_wrt (\<lambda>a b. cmp (val a) (val b) = - 1 \<and> cmp (val b) (val a) = 1) ks"
proof (rule sorted_wrt_mono_rel)
  fix a b assume "ordered val ks" "a \<in> set ks" "b \<in> set ks" "cmp (val a) (val b) = - 1"
  then show "cmp (val a) (val b) = - 1 \<and> cmp (val b) (val a) = 1"
    using cmp_swap [of "val a" "val b"] by (simp add: ordered_def)
qed (simp add: ordered_def)

definition sim :: "'v tree_store \<Rightarrow> (nat \<times> 'v) list \<Rightarrow> bool" where
  "sim s xs \<longleftrightarrow> (\<exists>ks. xs = map (\<lambda>k. (k, snd s k)) ks \<and> holds_nodes (fst s) ks \<and> ordered (snd s) ks)"

lemma simI: "xs = map (\<lambda>k. (k, val k)) ks \<Longrightarrow> holds_nodes t ks \<Longrightarrow> ordered val ks \<Longrightarrow> sim (t, val) xs"
  by (auto simp: sim_def)

lemma lookup_exec_ok:
  assumes h: "holds_nodes t ks" and o: "ordered val ks" and v: "wf v"
  shows "BAVL_LookupExact cmp val t v = Some (equal_node cmp v (map (\<lambda>k. (k, val k)) ks))"
    "\<exists>r. BAVL_Lookup cmp val t v = Some r \<and> result_ok cmp (Lookup v) (map (\<lambda>k. (k, val k)) ks) (Found r)"
proof -
  obtain x where x: "tree_cut t [] x" "addrs x = ks" using h by (auto simp: holds_nodes_def)
  note f = ordered_falls [OF o v, folded x(2)]
  show "BAVL_LookupExact cmp val t v = Some (equal_node cmp v (map (\<lambda>k. (k, val k)) ks))"
    using LookupExact_ok [of t x "\<lambda>c. cmp v (val c)" cmp v val, OF x(1) refl f] x(2) by (simp add: equal_node_pairs)
  obtain r where r: "BAVL_Lookup cmp val t v = Some r"
    "case r of None \<Rightarrow> ks = [] | Some c \<Rightarrow> c \<in> set ks \<and> cmp v (val c) = 0 \<or> near (\<lambda>k. cmp v (val k)) ks c"
    using Lookup_ok [of t x "\<lambda>c. cmp v (val c)" cmp v val, OF x(1) refl f] x(2) by auto
  show "\<exists>r. BAVL_Lookup cmp val t v = Some r \<and> result_ok cmp (Lookup v) (map (\<lambda>k. (k, val k)) ks) (Found r)"
  proof (cases r)
    case None
    then show ?thesis using r by (simp add: equal_node_def neighbour_def)
  next
    case (Some c)
    then consider "c \<in> set ks" "cmp v (val c) = 0" | "near (\<lambda>k. cmp v (val k)) ks c" using r(2) by auto
    then show ?thesis
    proof cases
      case 1
      then have "find (\<lambda>k. cmp v (val k) = 0) ks = Some c"
        using find_zero [of "\<lambda>k. cmp v (val k)" ks c] f x(2) by simp
      then show ?thesis using r(1) Some by (simp add: equal_node_pairs)
    next
      case 2
      then have "find (\<lambda>k. cmp v (val k) = 0) ks = None" using near_nonzero by (fastforce simp: find_None_iff)
      then show ?thesis using r(1) Some near_neighbour [of cmp v val ks c, OF 2] by (simp add: equal_node_pairs)
    qed
  qed
qed

lemma ordered_upd: "ordered val ks \<Longrightarrow> k \<notin> set ks \<Longrightarrow> ordered (val(k := v)) ks"
  unfolding ordered_def
  by (auto elim!: sorted_wrt_mono_rel [rotated])

lemma ordered_insert:
  assumes "ordered w (ls @ rs)" "wf (w k)" "\<forall>z\<in>set ls. cmp (w k) (w z) = 1" "\<forall>z\<in>set rs. cmp (w k) (w z) = - 1"
  shows "ordered w (ls @ k # rs)"
proof -
  have "cmp (w z) (w k) = - 1" if "z \<in> set ls" for z
    using that assms(1-3) cmp_swap [of "w k" "w z"] by (auto simp: ordered_def)
  then show ?thesis using assms by (auto simp: ordered_def sorted_wrt_append)
qed

lemma insert_exec_ok:
  assumes h: "holds_nodes t ks" and o: "ordered val ks" and k: "k \<notin> set ks" and v: "wf v"
  shows "\<exists>r s'. tree_exec cmp (Insert k g v) (t, val) = Some (r, s') \<and>
           result_ok cmp (Insert k g v) (map (\<lambda>k. (k, val k)) ks) r \<and>
           sim s' (list_after cmp (Insert k g v) (map (\<lambda>k. (k, val k)) ks))"
proof -
  define t0 where "t0 = t\<lparr>nodes := (nodes t)(k := Some g)\<rparr>"
  define w where "w = val(k := v)"
  have pairs: "map (\<lambda>k. (k, val k)) ks = map (\<lambda>k. (k, w k)) ks" using k by (auto simp: w_def)
  have ow: "ordered w ks" using o k unfolding w_def by (rule ordered_upd)
  obtain x where x: "tree_cut t0 [] x" "avl x" "addrs x = ks"
    using h k by (auto simp: holds_nodes_def tree_cut_def t0_def)
  have k0: "nodes t0 k \<noteq> None" by (simp add: t0_def)
  have wk: "w k = v" by (simp add: w_def)
  note f = ordered_falls [OF ow v, folded x(3)]
  have kx: "k \<notin> set (addrs x)" using k x(3) by simp
  consider (found) e where "e \<in> set ks" "cmp v (w e) = 0" "BAVL_Insert cmp w t0 k = Some (False, Some e, t0)"
    | (new) ref t' y ls rs where "BAVL_Insert cmp w t0 k = Some (True, ref, t')" "tree_cut t' [] y" "avl y"
        "ks = ls @ rs" "addrs y = ls @ k # rs" "\<forall>z\<in>set ls. cmp v (w z) = 1" "\<forall>z\<in>set rs. cmp v (w z) = - 1"
        "ref = None \<and> ls = [] \<and> rs = [] \<or> ls \<noteq> [] \<and> ref = Some (last ls) \<or> rs \<noteq> [] \<and> ref = Some (hd rs)"
    using BAVL_Insert_ok [of t0 x k "\<lambda>c. cmp v (w c)" cmp w, OF x(1,2) kx k0 _ f] x(3) wk by auto
  then show ?thesis
  proof cases
    case found
    then have "find (\<lambda>k. cmp v (w k) = 0) ks = Some e"
      using find_zero [of "\<lambda>k. cmp v (w k)" ks e] f x(3) by simp
    then have eq: "equal_node cmp v (map (\<lambda>k. (k, w k)) ks) = Some e" by (simp add: equal_node_pairs)
    have "sim (t0, w) (map (\<lambda>k. (k, w k)) ks)" using x ow by (intro simI) (auto simp: holds_nodes_def)
    then show ?thesis
      unfolding pairs using found(3) eq by (simp add: t0_def w_def)
  next
    case new
    have none: "find (\<lambda>k. cmp v (w k) = 0) ks = None" using new(4,6,7) by (fastforce simp: find_None_iff)
    have "takeWhile (\<lambda>k. cmp v (w k) = 1) ks = ls" "dropWhile (\<lambda>k. cmp v (w k) = 1) ks = rs"
      using new(4,6,7) by (auto simp: takeWhile_append dropWhile_append takeWhile_eq_all_conv dropWhile_eq_Nil_conv split_first)
    then have after: "list_after cmp (Insert k g v) (map (\<lambda>k. (k, w k)) ks) = map (\<lambda>k. (k, w k)) (ls @ k # rs)"
      using none wk by (simp add: equal_node_pairs takeWhile_map dropWhile_map comp_def)
    have "neighbour cmp v (map (\<lambda>k. (k, w k)) ks) ref"
    proof (cases ref)
      case None
      then show ?thesis using new(4,8) by (simp add: neighbour_def)
    next
      case (Some c)
      then have "near (\<lambda>k. cmp v (w k)) ks c" using new(4,6-8) by (auto simp: near_def beside_def)
      then show ?thesis using Some near_neighbour [of cmp v w ks c] by simp
    qed
    moreover have "sim (t', w) (map (\<lambda>k. (k, w k)) (ls @ k # rs))"
      using new(2,3,5) ordered_insert [of w ls rs k] ow new(4,6,7) wk v by (intro simI) (auto simp: holds_nodes_def)
    ultimately show ?thesis
      unfolding pairs after using new(1) none by (simp add: t0_def w_def equal_node_pairs)
  qed
qed

lemma remove_exec_ok:
  assumes h: "holds_nodes t ks" and o: "ordered val ks" and k: "k \<in> set ks"
  shows "\<exists>s'. tree_exec cmp (Remove k) (t, val) = Some (Removed, s') \<and>
           sim s' (list_after cmp (Remove k) (map (\<lambda>k. (k, val k)) ks))"
proof -
  obtain x where x: "tree_cut t [] x" "avl x" "addrs x = ks" using h by (auto simp: holds_nodes_def)
  obtain t' y where y: "BAVL_Remove t k = Some t'" "tree_cut t' [] y" "avl y" "addrs y = remove1 k ks"
    using BAVL_Remove_ok [OF x(1,2)] k x(3) by blast
  have "distinct ks" using x by (simp add: tree_cut_def)
  then have rest: "remove1 k ks = filter (\<lambda>j. j \<noteq> k) ks"
    by (simp add: distinct_remove1_removeAll removeAll_filter_not_eq) (metis (full_types))
  have "holds_nodes (t'\<lparr>nodes := (nodes t')(k := None)\<rparr>) (filter (\<lambda>j. j \<noteq> k) ks)"
    unfolding holds_nodes_def using y rest by (intro exI [of _ y]) (simp add: tree_cut_def)
  moreover have "ordered val (filter (\<lambda>j. j \<noteq> k) ks)"
    using o by (auto simp: ordered_def sorted_wrt_filter)
  ultimately have "sim (t'\<lparr>nodes := (nodes t')(k := None)\<rparr>, val) (map (\<lambda>k. (k, val k)) (filter (\<lambda>j. j \<noteq> k) ks))"
    by (intro simI) auto
  then show ?thesis using y(1) by (simp add: filter_map comp_def)
qed

text \<open>The two changes as a client uses them: a value that is not there yet, and a node of the tree.\<close>

lemma insert_new:
  assumes "holds_nodes t ks" "ordered val ks" "k \<notin> set ks" "wf v" "\<forall>j\<in>set ks. cmp v (val j) \<noteq> 0"
  shows "\<exists>ref t' ks'. BAVL_Insert cmp (val(k := v)) (t\<lparr>nodes := (nodes t)(k := Some g)\<rparr>) k = Some (True, ref, t') \<and>
           holds_nodes t' ks' \<and> ordered (val(k := v)) ks' \<and> set ks' = insert k (set ks)"
proof -
  let ?xs = "map (\<lambda>k. (k, val k)) ks"
  have none: "equal_node cmp v ?xs = None" using assms(5) by (simp add: equal_node_pairs find_None_iff)
  obtain r s' where r: "tree_exec cmp (Insert k g v) (t, val) = Some (r, s')" "result_ok cmp (Insert k g v) ?xs r"
    "sim s' (list_after cmp (Insert k g v) ?xs)"
    using insert_exec_ok [OF assms(1-4)] by blast
  then obtain ref t' where i: "BAVL_Insert cmp (val(k := v)) (t\<lparr>nodes := (nodes t)(k := Some g)\<rparr>) k = Some (True, ref, t')"
    "s' = (t', val(k := v))"
    using none by (auto simp: bind_Some_iff split: bool.splits)
  have "map fst (list_after cmp (Insert k g v) ?xs) = takeWhile (\<lambda>j. cmp v (val j) = 1) ks @ k # dropWhile (\<lambda>j. cmp v (val j) = 1) ks"
    using none by (simp add: takeWhile_map dropWhile_map comp_def)
  then have keys: "set (map fst (list_after cmp (Insert k g v) ?xs)) = insert k (set ks)"
    using takeWhile_dropWhile_id [of "\<lambda>j. cmp v (val j) = 1" ks] set_append by (metis Un_insert_right list.simps(15))
  obtain ks' where "list_after cmp (Insert k g v) ?xs = map (\<lambda>j. (j, (val(k := v)) j)) ks'"
    "holds_nodes t' ks'" "ordered (val(k := v)) ks'"
    using r(3) i(2) by (auto simp: sim_def)
  then show ?thesis using i(1) keys by (auto simp: comp_def)
qed

lemma remove_held:
  assumes "holds_nodes t ks" "ordered val ks" "k \<in> set ks"
  shows "\<exists>t' ks'. BAVL_Remove t k = Some t' \<and> holds_nodes (t'\<lparr>nodes := (nodes t')(k := None)\<rparr>) ks' \<and>
           ordered val ks' \<and> set ks' = set ks - {k}"
proof -
  obtain s' where "tree_exec cmp (Remove k) (t, val) = Some (Removed, s')"
    "sim s' (filter (\<lambda>(j, w). j \<noteq> k) (map (\<lambda>k. (k, val k)) ks))"
    using remove_exec_ok [OF assms] by auto
  then obtain t' ks' where "BAVL_Remove t k = Some t'" "holds_nodes (t'\<lparr>nodes := (nodes t')(k := None)\<rparr>) ks'" "ordered val ks'"
    "map (\<lambda>k. (k, val k)) (filter (\<lambda>j. j \<noteq> k) ks) = map (\<lambda>k. (k, val k)) ks'"
    by (auto simp: bind_Some_iff sim_def filter_map comp_def)
  moreover from this(4) have "filter (\<lambda>j. j \<noteq> k) ks = ks'" using map_inj_on by (metis (no_types, lifting) inj_onI prod.inject)
  ultimately show ?thesis by auto
qed

lemma exec_ok:
  assumes s: "sim s xs" and a: "op_allowed wf x xs"
  shows "\<exists>r s'. tree_exec cmp x s = Some (r, s') \<and> result_ok cmp x xs r \<and> sim s' (list_after cmp x xs)"
proof -
  obtain t val where st: "s = (t, val)" by (cases s)
  obtain ks where ks: "xs = map (\<lambda>k. (k, val k)) ks" "holds_nodes t ks" "ordered val ks"
    using s st by (auto simp: sim_def)
  obtain y where y: "tree_cut t [] y" "addrs y = ks" using ks(2) by (auto simp: holds_nodes_def)
  have keys: "map fst xs = ks" by (simp add: ks(1) comp_def)
  have empty: "BAVL_IsEmpty t = (xs = [])" using y ks(1) by (cases y) (auto simp: BAVL_IsEmpty_def tree_cut_def)
  show ?thesis
  proof (cases x)
    case (Insert k g v)
    then show ?thesis using insert_exec_ok [OF ks(2,3)] a st ks(1) keys by (metis op_allowed.simps(1))
  next
    case (Remove k)
    then show ?thesis using remove_exec_ok [OF ks(2,3)] a st ks(1) keys by (metis op_allowed.simps(2) result_ok.simps(2))
  next
    case (Lookup v)
    then show ?thesis using lookup_exec_ok(2) [OF ks(2,3), of v] a s st ks(1) by auto
  next
    case (LookupExact v)
    then show ?thesis using lookup_exec_ok(1) [OF ks(2,3), of v] a s st ks(1) by auto
  next
    case IsEmpty
    then show ?thesis using empty s st by simp
  next
    case GetFirst
    then show ?thesis using GetFirst_ok [OF y(1)] y(2) keys s st by simp
  next
    case GetLast
    then show ?thesis using GetLast_ok [OF y(1)] y(2) keys s st by simp
  next
    case (GetNext k)
    then show ?thesis using step_from_ok [OF y(1), of k True] y(2) keys s st a by (simp add: BAVL_GetNext_def)
  next
    case (GetPrev k)
    then show ?thesis using step_from_ok [OF y(1), of k False] y(2) keys s st a by (simp add: BAVL_GetPrev_def)
  qed
qed

lemma run_ok:
  "sim s xs \<Longrightarrow> run_allowed wf cmp ops xs \<Longrightarrow>
   \<exists>rs s'. tree_run cmp ops s = Some (rs, s') \<and> results_ok cmp ops xs rs \<and> sim s' (list_run cmp ops xs)"
proof (induction ops arbitrary: s xs)
  case (Cons x ops)
  then obtain r s1 where "tree_exec cmp x s = Some (r, s1)" "result_ok cmp x xs r" "sim s1 (list_after cmp x xs)"
    using exec_ok by (metis run_allowed.simps(2))
  then show ?case using Cons.IH [of s1 "list_after cmp x xs"] Cons.prems(2) by fastforce
qed simp

lemma sim_init: "sim (BAVL_Init memory, val) []"
  by (auto simp: sim_def holds_nodes_def ordered_def BAVL_Init_def tree_cut_def intro!: exI [of _ Leaf])

text \<open>Every reachable tree passes the tree's own check and is flat.\<close>

lemma sim_verified:
  assumes "sim (t, val) xs"
  shows "BAVL_Verify cmp val t = Some ()"
    "root t = Some a \<Longrightarrow> \<exists>h. BAVL_assert_recurser (\<lambda>a b. cmp (val a) (val b)) t a = Some h \<and> 2 ^ (nat h div 2) \<le> length xs + 1"
    "sorted_wrt (\<lambda>(j, v) (k, w). cmp v w = - 1) xs"
proof -
  obtain ks x where ks: "xs = map (\<lambda>k. (k, val k)) ks" "ordered val ks" and x: "tree_cut t [] x" "avl x" "addrs x = ks"
    using assms by (auto simp: sim_def holds_nodes_def)
  note o = ordered_both [OF ks(2)]
  show "BAVL_Verify cmp val t = Some ()" using Verify_ok [OF x(1,2)] o x(3) by simp
  show "\<exists>h. BAVL_assert_recurser (\<lambda>a b. cmp (val a) (val b)) t a = Some h \<and> 2 ^ (nat h div 2) \<le> length xs + 1" if "root t = Some a"
  proof -
    have "x \<noteq> Leaf" "ptr x = Some a" using x(1) that by (auto simp: tree_cut_def)
    then show ?thesis
      using assert_recurser_ok [of t None x "\<lambda>a b. cmp (val a) (val b)"] x o avl_size [OF x(2)] ks(1)
      by (simp add: tree_cut_def)
  qed
  show "sorted_wrt (\<lambda>(j, v) (k, w). cmp v w = - 1) xs" using ks by (simp add: ordered_def sorted_wrt_map)
qed

end

end
