(* ===== verification/SocksUdpGw_Tree.thy ===== *)
theory SocksUdpGw_Tree
  imports SocksUdpGw_Relay BAVL_Refine
begin

text \<open>
  The tree of connections of the UDP relay: \<open>structure/BAVL.h\<close> with the comparator of
  \<open>tun2socks/SocksUdpGwClient.c\<close>.
\<close>

section \<open>The comparator orders the connections\<close>

lemma CompareOrder_range: "ip_wf a \<Longrightarrow> ip_wf b \<Longrightarrow> BAddr_CompareOrder a b \<in> {- 1, 0, 1}"
  by (simp only: CompareOrder_key B_COMPARE_cases) simp

lemma CompareOrder_le_trans:
  assumes "ip_wf a" "ip_wf b" "ip_wf c" "BAddr_CompareOrder a b \<le> 0" "BAddr_CompareOrder b c \<le> 0"
  shows "BAddr_CompareOrder a c \<le> 0"
proof (cases "a = b \<or> b = c")
  case True
  then show ?thesis using assms by auto
next
  case False
  then have "BAddr_CompareOrder a b < 0" "BAddr_CompareOrder b c < 0"
    using assms baddr.compare_zero by (auto simp: order_le_less)
  then show ?thesis using baddr.compare_trans [OF assms(1-3)] by simp
qed

interpretation con_order: value_order "\<lambda>ca. ip_wf (local_addr ca)" conaddr_comparator
proof (unfold_locales, unfold conaddr_comparator_def, goal_cases)
  case (1 a b)
  then show ?case by (rule CompareOrder_range)
next
  case (2 a b)
  then show ?case by (rule baddr.compare_swap)
next
  case (3 a b c)
  then show ?case by (rule CompareOrder_le_trans)
qed

section \<open>The tree of the relay\<close>

text \<open>
  The lookup of the relay is the lookup in the tree: with the connections of a state of the relay as nodes, in
  whatever shape the tree has, \<open>BAVL_LookupExact\<close> gives what the model of the relay uses.  A later change of the remote address of a
  connection inside the tree does not matter, because the comparator reads the local address only.
\<close>

definition con_key :: "SocksUdpGwClient \<Rightarrow> nat \<Rightarrow> SocksUdpGwClient_conaddr" where
  "con_key s k = conaddr (the (ug_heap s k))"

definition same_locals :: "(nat \<Rightarrow> SocksUdpGwClient_conaddr) \<Rightarrow> SocksUdpGwClient \<Rightarrow> bool" where
  "same_locals val s \<longleftrightarrow> (\<forall>k \<in> dom (ug_heap s). local_addr (val k) = local_addr (con_key s k))"

lemma relay_lookup_is_tree_lookup:
  assumes s: "ug_inv s" and t: "con_order.sim (t, val) xs" and xs: "set (map fst xs) = set (connections_tree s)"
    and v: "same_locals val s" and l: "ip_wf (local_addr ca)"
  shows "BAVL_LookupExact conaddr_comparator val t ca = Some (find_connection ca is_dns s)"
proof -
  obtain ks where ks: "xs = map (\<lambda>k. (k, val k)) ks" "holds_nodes t ks" "con_order.ordered val ks"
    using t by (auto simp: con_order.sim_def)
  have dom: "set ks = dom (ug_heap s)" using xs ks(1) s by (simp add: comp_def ug_inv_def ug_table_def)
  have hit: "conaddr_comparator ca (val k) = 0 \<longleftrightarrow> local_addr (conaddr c) = local_addr ca" if "ug_heap s k = Some c" for k c
  proof -
    have "local_addr (val k) = local_addr (conaddr c)"
      using v that by (simp add: same_locals_def con_key_def dom_def)
    moreover have "ip_wf (local_addr (conaddr c))" using con_of(1) [OF s that] by (simp add: con_inv_def)
    ultimately show ?thesis
      using l baddr.compare_zero by (auto simp: conaddr_comparator_def)
  qed
  have "find (\<lambda>k. conaddr_comparator ca (val k) = 0) ks = find_connection ca is_dns s"
  proof (cases "find_connection ca is_dns s")
    case None
    then show ?thesis
      using find_connection_iff(2) [OF s l] hit dom by (fastforce simp: find_None_iff)
  next
    case (Some k)
    then obtain c where c: "ug_heap s k = Some c" "local_addr (conaddr c) = local_addr ca"
      using find_connection_iff(1) [OF s l] by blast
    have "find (\<lambda>k. conaddr_comparator ca (val k) = 0) ks = Some k"
      using con_order.ordered_falls(1) [OF ks(3) l] dom c hit [OF c(1)]
      by (intro find_zero [where cm = "\<lambda>k. conaddr_comparator ca (val k)"]) auto
    then show ?thesis using Some by simp
  qed
  then show ?thesis
    using con_order.lookup_exec_ok(1) [OF ks(2,3) l] by (simp add: equal_node_pairs)
qed

section \<open>Every use of the tree\<close>

text \<open>
  C5 The tree of connections implements a sorted list: from an empty tree, every sequence of insertions of new nodes,
  removals of nodes of the tree and queries with valid addresses ends, uses no null or freed pointer and fails no
  assertion; every result is the one of the list of nodes sorted by the comparator, on which an insertion puts
  the node between the smaller and the greater ones or reports the equal one; the tree passes its own check \<open>BAVL_Verify\<close>, and
  its height is at most twice the binary logarithm of the number of nodes plus one.
\<close>

theorem connections_tree_refines_list:
  assumes "run_allowed (\<lambda>ca. ip_wf (local_addr ca)) conaddr_comparator ops []"
  shows "\<exists>rs t val. tree_run conaddr_comparator ops (BAVL_Init memory, values) = Some (rs, t, val) \<and>
    results_ok conaddr_comparator ops [] rs \<and>
    sorted_wrt (\<lambda>(j, v) (k, w). conaddr_comparator v w = - 1) (list_run conaddr_comparator ops []) \<and>
    BAVL_Verify conaddr_comparator val t = Some () \<and>
    (\<forall>a. root t = Some a \<longrightarrow> (\<exists>h. BAVL_assert_recurser (\<lambda>a b. conaddr_comparator (val a) (val b)) t a = Some h \<and>
       2 ^ (nat h div 2) \<le> length (list_run conaddr_comparator ops []) + 1))"
proof -
  obtain rs t val where "tree_run conaddr_comparator ops (BAVL_Init memory, values) = Some (rs, t, val)"
    "results_ok conaddr_comparator ops [] rs" and s: "con_order.sim (t, val) (list_run conaddr_comparator ops [])"
    using con_order.run_ok [OF con_order.sim_init assms] by (metis surj_pair)
  then show ?thesis using con_order.sim_verified [OF s] by blast
qed

definition ex_conaddr :: "nat \<Rightarrow> SocksUdpGwClient_conaddr" where
  "ex_conaddr n = \<lparr>local_addr = BADDR_IPV4 0 (of_nat n), remote_addr = BADDR_NONE\<rparr>"

definition ex_tree_ops :: "SocksUdpGwClient_conaddr tree_op list" where
  "ex_tree_ops = map (\<lambda>n. Insert n (new_node None) (ex_conaddr n)) [1, 2, 3] @
     [Insert 9 (new_node None) (ex_conaddr 2), LookupExact (ex_conaddr 3), Remove 2, LookupExact (ex_conaddr 2), GetNext 1, GetLast]"

lemma ex_tree_run: "map_option fst (tree_run conaddr_comparator ex_tree_ops (BAVL_Init (\<lambda>_. None), \<lambda>_. ex_conaddr 0)) =
  Some [Inserted True None, Inserted True (Some 1), Inserted True (Some 2), Inserted False (Some 2),
    Found (Some 3), Removed, Found None, Found (Some 3), Found (Some 3)]"
  by code_simp

theorem connections_tree_refines_list_witness:
  "run_allowed (\<lambda>ca. ip_wf (local_addr ca)) conaddr_comparator ex_tree_ops [] \<and>
   (\<exists>rs t val. tree_run conaddr_comparator ex_tree_ops (BAVL_Init (\<lambda>_. None), \<lambda>_. ex_conaddr 0) = Some (rs, t, val) \<and>
      results_ok conaddr_comparator ex_tree_ops [] rs \<and> BAVL_Verify conaddr_comparator val t = Some () \<and>
      rs = [Inserted True None, Inserted True (Some 1), Inserted True (Some 2), Inserted False (Some 2),
        Found (Some 3), Removed, Found None, Found (Some 3), Found (Some 3)])"
proof -
  have a: "run_allowed (\<lambda>ca. ip_wf (local_addr ca)) conaddr_comparator ex_tree_ops []" by code_simp
  from connections_tree_refines_list [OF this, of "\<lambda>_. None" "\<lambda>_. ex_conaddr 0"] obtain rs t val where
    "tree_run conaddr_comparator ex_tree_ops (BAVL_Init (\<lambda>_. None), \<lambda>_. ex_conaddr 0) = Some (rs, t, val)"
    "results_ok conaddr_comparator ex_tree_ops [] rs" "BAVL_Verify conaddr_comparator val t = Some ()"
    by blast
  then show ?thesis using a ex_tree_run by auto
qed

end
