(* ===== verification/Numbers.thy ===== *)
theory Numbers
  imports BAddr "HOL-Library.Monad_Syntax"
begin

text \<open>
  Numbers as text: \<open>misc/parse_number.h\<close>.  A \<open>MemRef\<close> (pointer and length) is a \<open>string\<close>, a
  \<open>uintmax_t\<close> is a 64 bit word, and the results returned through a pointer are options.  The parsers are
  shown to agree with the value of a numeral over the natural numbers, overflow included.
\<close>

section \<open>The parsers\<close>

definition decode_decimal_digit :: "char \<Rightarrow> int" where
  "decode_decimal_digit c =
     (case map_of (zip ''0123456789'' [0, 1, 2, 3, 4, 5, 6, 7, 8, 9]) c of Some d \<Rightarrow> d | None \<Rightarrow> -1)"

definition decode_hex_digit :: "char \<Rightarrow> int" where
  "decode_hex_digit c =
     (case map_of (zip ''0123456789'' [0, 1, 2, 3, 4, 5, 6, 7, 8, 9] @
                   zip ''AaBbCcDdEeFf'' [10, 10, 11, 11, 12, 12, 13, 13, 14, 14, 15, 15]) c of
        Some d \<Rightarrow> d | None \<Rightarrow> -1)"

definition UINTMAX_MAX :: u64 where
  "UINTMAX_MAX = 18446744073709551615"

definition parse_number_uintmax_max_str :: string where
  "parse_number_uintmax_max_str = ''18446744073709551615''"

fun parse_no_overflow :: "string \<Rightarrow> u64 \<Rightarrow> u64 option" where
  "parse_no_overflow [] n = Some n"
| "parse_no_overflow (c # str) n =
     (if of_char c < (48 :: nat) \<or> of_char c > (57 :: nat) then None
      else parse_no_overflow str (10 * n + (of_char c - 48)))"

definition parse_unsigned_integer :: "string \<Rightarrow> u64 option" where
  "parse_unsigned_integer str =
     (if length str = 0 then None
      else let str = dropWhile (\<lambda>c. c = CHR ''0'') str
           in if length str > length parse_number_uintmax_max_str \<or>
                 length str = length parse_number_uintmax_max_str \<and>
                   memcmp (map of_char str) (map of_char parse_number_uintmax_max_str) > 0
              then None
              else parse_no_overflow str 0)"

fun parse_hex_loop :: "string \<Rightarrow> u64 \<Rightarrow> u64 option" where
  "parse_hex_loop [] n = Some n"
| "parse_hex_loop (c # str) n =
     (let digit = decode_hex_digit c
      in if digit < 0 then None
         else if n > UINTMAX_MAX div 16 then None
         else let n = n * 16
              in if word_of_int digit > UINTMAX_MAX - n then None
                 else parse_hex_loop str (n + word_of_int digit))"

definition parse_unsigned_hex_integer :: "string \<Rightarrow> u64 option" where
  "parse_unsigned_hex_integer str = (if length str = 0 then None else parse_hex_loop str 0)"

definition parse_signmag_integer :: "string \<Rightarrow> (int \<times> u64) option" where
  "parse_signmag_integer str =
     (let signed = length str > 0 \<and> (hd str = CHR ''+'' \<or> hd str = CHR ''-'');
          sign = (if signed then 1 - 2 * of_bool (hd str = CHR ''-'') else 1)
      in map_option (Pair sign) (parse_unsigned_integer (if signed then tl str else str)))"

text \<open>The generators.  \<open>generate_decimal_repr\<close> fills a buffer of \<open>repr_size\<close> characters from its end.\<close>

lemma word_div10_less: "0 < (x :: u64) div 10 \<Longrightarrow> unat (x div 10) < unat x"
  by (cases "x = 0") (auto simp: unat_div unat_gt_0)

function compute_decimal_repr_size :: "u64 \<Rightarrow> nat" where
  "compute_decimal_repr_size x = (if x div 10 > 0 then 1 + compute_decimal_repr_size (x div 10) else 1)"
  by auto
termination
  by (relation "measure unat") (simp_all add: word_div10_less)

function generate_loop :: "u64 \<Rightarrow> nat \<Rightarrow> string \<Rightarrow> string option" where
  "generate_loop x pos out =
     ASSERT (0 < pos \<and> pos \<le> length out) (
     let out = out[pos - 1 := char_of (48 + unat (x mod 10))]
     in if x div 10 > 0 then generate_loop (x div 10) (pos - 1) out else Some out)"
  by auto
termination
  by (relation "measure (\<lambda>(x, _, _). unat x)") (simp_all add: word_div10_less)

definition generate_decimal_repr :: "u64 \<Rightarrow> string \<Rightarrow> nat \<Rightarrow> string option" where
  "generate_decimal_repr x out repr_size =
     ASSERT (repr_size = compute_decimal_repr_size x) (generate_loop x repr_size out)"

text \<open>The string that \<open>generate_decimal_repr_string\<close> leaves in front of the terminating null character.\<close>

definition generate_decimal_repr_string :: "u64 \<Rightarrow> string \<Rightarrow> (nat \<times> string) option" where
  "generate_decimal_repr_string x out =
     (let repr_size = compute_decimal_repr_size x
      in do { out \<leftarrow> generate_decimal_repr x out repr_size;
              ASSERT (repr_size < length out)
                (Some (repr_size, out[repr_size := CHR 0x00])) })"

declare compute_decimal_repr_size.simps [simp del] generate_loop.simps [simp del]

section \<open>The value of a numeral\<close>

definition dec_digit :: "char \<Rightarrow> bool" where
  "dec_digit c \<longleftrightarrow> of_char c \<in> {48..57 :: nat}"

definition base_value :: "nat \<Rightarrow> (char \<Rightarrow> nat) \<Rightarrow> string \<Rightarrow> nat" where
  "base_value b f s = foldl (\<lambda>n c. b * n + f c) 0 s"

abbreviation dec_value :: "string \<Rightarrow> nat" where
  "dec_value \<equiv> base_value 10 (\<lambda>c. of_char c - 48)"

abbreviation hex_value :: "string \<Rightarrow> nat" where
  "hex_value \<equiv> base_value 16 (\<lambda>c. nat (decode_hex_digit c))"

lemma base_value_Nil [simp]: "base_value b f [] = 0"
  by (simp add: base_value_def)

lemma foldl_value: "foldl (\<lambda>n c. b * n + f c) n s = n * b ^ length s + base_value b f s"
proof (induction s arbitrary: n)
  case (Cons c s)
  show ?case using Cons.IH [of "b * n + f c"] Cons.IH [of "f c"]
    by (simp add: base_value_def algebra_simps)
qed simp

lemma base_value_Cons [simp]: "base_value b f (c # s) = f c * b ^ length s + base_value b f s"
  using foldl_value [of b f "f c" s] by (simp add: base_value_def)

lemma base_value_append: "base_value b f (s @ t) = base_value b f s * b ^ length t + base_value b f t"
  using foldl_value [of b f "base_value b f s" t] by (simp add: base_value_def)

lemma base_value_less:
  assumes "\<forall>c \<in> set s. f c < b" shows "base_value b f s < b ^ length s"
  using assms
proof (induction s)
  case (Cons c s)
  then have "base_value b f s < b ^ length s" "f c + 1 \<le> b" by auto
  moreover have "(f c + 1) * b ^ length s \<le> b * b ^ length s" using \<open>f c + 1 \<le> b\<close> by (rule mult_le_mono1)
  ultimately show ?case by simp
qed simp

lemma dec_digit_less: "dec_digit c \<Longrightarrow> of_char c - 48 < (10 :: nat)"
  by (auto simp: dec_digit_def)

lemma dec_value_less: "list_all dec_digit s \<Longrightarrow> dec_value s < 10 ^ length s"
  by (rule base_value_less) (auto simp: list_all_iff dest: dec_digit_less)

lemma dec_value_drop_zeros: "dec_value (dropWhile (\<lambda>c. c = CHR ''0'') s) = dec_value s"
  by (induction s) auto

lemma dec_digits_drop_zeros:
  "list_all dec_digit (dropWhile (\<lambda>c. c = CHR ''0'') s) \<longleftrightarrow> list_all dec_digit s"
  by (induction s) (auto simp: dec_digit_def)

section \<open>The parsers compute the value\<close>

lemma parse_no_overflow_value:
  "parse_no_overflow s n =
     (if list_all dec_digit s then Some (word_of_nat (unat n * 10 ^ length s + dec_value s)) else None)"
proof (induction s arbitrary: n)
  case (Cons c s)
  show ?case
  proof (cases "dec_digit c")
    case True
    define x where "x = (of_char c - 48 :: nat)"
    have d: "(of_char c :: u64) - 48 = word_of_nat x"
      using True by (auto simp: x_def dec_digit_def of_nat_diff of_nat_of_char)
    have "word_of_nat (unat (10 * n + word_of_nat x) * 10 ^ length s + dec_value s)
        = (word_of_nat (unat n * 10 ^ length (c # s) + dec_value (c # s)) :: u64)"
      by (simp add: algebra_simps flip: x_def)
    then show ?thesis using True Cons.IH [of "10 * n + word_of_nat x"] by (auto simp: dec_digit_def d)
  qed (auto simp: dec_digit_def)
qed simp

lemma memcmp_digits:
  assumes "length s = length t" "list_all dec_digit s" "list_all dec_digit t"
  shows "memcmp (map of_char s) (map of_char t) > 0 \<longleftrightarrow> dec_value s > dec_value t"
  using assms
proof (induction s t rule: list_induct2)
  case (Cons c s d t)
  then have l: "dec_value s < 10 ^ length s" "dec_value t < 10 ^ length s" using dec_value_less [of s] dec_value_less [of t] by auto
  define x y where "x = (of_char c - 48 :: nat)" and "y = (of_char d - 48 :: nat)"
  have b: "of_char c = x + 48" "of_char d = y + 48" "x < 10" "y < 10"
    using Cons.prems by (auto simp: dec_digit_def x_def y_def)
  have u: "(of_char c :: u8) = word_of_nat (x + 48)" "(of_char d :: u8) = word_of_nat (y + 48)"
    using b by (metis of_nat_of_char)+
  have eq: "(of_char c :: u8) = of_char d \<longleftrightarrow> x = y" and lt: "(of_char c :: u8) < of_char d \<longleftrightarrow> x < y"
    unfolding u using b(3,4) by (simp_all add: word_unat_eq_iff word_less_nat_alt unat_of_nat del: of_nat_add of_nat_numeral)
  have gr: "x * 10 ^ length s + dec_value s < y * 10 ^ length s + dec_value t" if "x < y"
  proof -
    have "(x + 1) * 10 ^ length s \<le> y * 10 ^ length s" using that by (intro mult_le_mono1) simp
    then show ?thesis using l by simp
  qed
  have gr': "y * 10 ^ length s + dec_value t < x * 10 ^ length s + dec_value s" if "y < x"
  proof -
    have "(y + 1) * 10 ^ length s \<le> x * 10 ^ length s" using that by (intro mult_le_mono1) simp
    then show ?thesis using l by simp
  qed
  from gr gr' show ?case using Cons eq lt by (cases x y rule: linorder_cases) (auto simp flip: x_def y_def)
qed simp

lemma uintmax_str: "list_all dec_digit parse_number_uintmax_max_str" "length parse_number_uintmax_max_str = 20"
  "dec_value parse_number_uintmax_max_str = 18446744073709551615"
  by (simp_all add: parse_number_uintmax_max_str_def dec_digit_def)

lemma dec_value_ge:
  assumes "list_all dec_digit (c # s)" "c \<noteq> CHR ''0''" shows "10 ^ length s \<le> dec_value (c # s)"
proof -
  have "of_char c \<noteq> (of_char (CHR ''0'') :: nat)" using assms(2) by (metis char_of_char)
  then have "1 \<le> (of_char c - 48 :: nat)" using assms(1) by (auto simp: dec_digit_def)
  then show ?thesis by (simp add: trans_le_add1)
qed

lemma dropWhile_head: "dropWhile P s = c # t \<Longrightarrow> \<not> P c"
  using hd_dropWhile [of P s] by auto

lemma parse_unsigned_integer_value:
  "parse_unsigned_integer s =
     (if s \<noteq> [] \<and> list_all dec_digit s \<and> dec_value s < 2 ^ 64 then Some (word_of_nat (dec_value s)) else None)"
proof (cases "s \<noteq> [] \<and> list_all dec_digit s")
  case False
  then show ?thesis
    using dec_digits_drop_zeros [of s] by (auto simp: parse_unsigned_integer_def Let_def parse_no_overflow_value)
next
  case True
  define t where "t = dropWhile (\<lambda>c. c = CHR ''0'') s"
  have t: "list_all dec_digit t" "dec_value t = dec_value s"
    using True by (simp_all add: t_def dec_digits_drop_zeros dec_value_drop_zeros)
  have "(20 < length t \<or> length t = 20 \<and> memcmp (map of_char t) (map of_char parse_number_uintmax_max_str) > 0)
      \<longleftrightarrow> 2 ^ 64 \<le> dec_value t"
  proof (cases "length t" "20 :: nat" rule: linorder_cases)
    case less
    then have "(10 :: nat) ^ length t \<le> 10 ^ 19" by (intro power_increasing) auto
    then have "dec_value t < 10 ^ 19" using dec_value_less [OF t(1)] by linarith
    then show ?thesis using less by simp
  next
    case equal
    then have "memcmp (map of_char t) (map of_char parse_number_uintmax_max_str) > 0 \<longleftrightarrow>
        dec_value t > 18446744073709551615"
      using memcmp_digits [OF _ t(1) uintmax_str(1)] uintmax_str(2,3) by metis
    then show ?thesis using equal by (simp add: Suc_le_eq [symmetric])
  next
    case greater
    then obtain c u where u: "t = c # u" by (cases t) auto
    then have "c \<noteq> CHR ''0''" using dropWhile_head [OF t_def [symmetric, unfolded u]] by simp
    then have "10 ^ length u \<le> dec_value t" using dec_value_ge t(1) unfolding u by blast
    moreover have "(10 :: nat) ^ 20 \<le> 10 ^ length u" using greater u by (intro power_increasing) auto
    ultimately have "10 ^ 20 \<le> dec_value t" by (rule order.trans [rotated])
    then have "2 ^ 64 \<le> dec_value t" by simp
    then show ?thesis using greater by simp
  qed
  then have "parse_unsigned_integer s = (if 2 ^ 64 \<le> dec_value t then None else parse_no_overflow t 0)"
    using True by (simp only: parse_unsigned_integer_def Let_def uintmax_str(2) length_0_conv if_False t_def)
  then show ?thesis using True t by (simp add: parse_no_overflow_value not_less)
qed

section \<open>Hexadecimal numbers\<close>

definition hex_digit :: "char \<Rightarrow> bool" where
  "hex_digit c \<longleftrightarrow> c \<in> set ''0123456789AaBbCcDdEeFf''"

lemma decode_hex_digit_range: "hex_digit c \<Longrightarrow> decode_hex_digit c \<in> {0..15}"
  unfolding hex_digit_def by (auto simp: decode_hex_digit_def)

lemma decode_hex_digit_none: "\<not> hex_digit c \<Longrightarrow> decode_hex_digit c = -1"
  by (auto simp: hex_digit_def decode_hex_digit_def)

lemma parse_hex_loop_value:
  "parse_hex_loop s n =
     (if list_all hex_digit s \<and> unat n * 16 ^ length s + hex_value s < 2 ^ 64
      then Some (word_of_nat (unat n * 16 ^ length s + hex_value s)) else None)"
proof (induction s arbitrary: n)
  case Nil
  show ?case using unsigned_less [of n, where ?'a = nat] by simp
next
  case (Cons c s)
  show ?case
  proof (cases "hex_digit c")
    case False
    then show ?thesis by (simp add: decode_hex_digit_none)
  next
    case True
    define d where "d = nat (decode_hex_digit c)"
    have d: "decode_hex_digit c = int d" "d < 16" using decode_hex_digit_range [OF True] by (auto simp: d_def)
    have c: "n > UINTMAX_MAX div 16 \<longleftrightarrow> 2 ^ 64 \<le> unat n * 16"
      by (auto simp: UINTMAX_MAX_def word_less_nat_alt unat_div)
    show ?thesis
    proof (cases "2 ^ 64 \<le> unat n * 16")
      case True
      have "unat n * 16 \<le> unat n * 16 ^ length (c # s)" by simp
      then have "\<not> unat n * 16 ^ length (c # s) + hex_value (c # s) < 2 ^ 64" using True by linarith
      then show ?thesis using c True d by (simp add: Let_def)
    next
      case False
      have u: "unat (n * 16) = unat n * 16" using False by (intro unat_mult_lem [THEN iffD1, of n 16, simplified]) simp
      have "unat n * 16 \<le> 2 ^ 64 - 16"
      proof -
        have "unat n \<le> 1152921504606846975" using False by simp
        then show ?thesis by simp
      qed
      then have v: "unat (n * 16 + word_of_nat d) = unat n * 16 + d"
        using d(2) u by (subst unat_add_lem [THEN iffD1]) (auto simp: unat_of_nat)
      have "unat (UINTMAX_MAX - n * 16) = 18446744073709551615 - unat n * 16"
        using u unat_sub [of "n * 16" UINTMAX_MAX] \<open>unat n * 16 \<le> _\<close>
        by (simp add: UINTMAX_MAX_def word_le_nat_alt)
      then have "\<not> word_of_int (decode_hex_digit c) > UINTMAX_MAX - n * 16"
        using d \<open>unat n * 16 \<le> _\<close> by (simp add: word_less_nat_alt unat_of_nat)
      moreover have "(unat n * 16 + d) * 16 ^ length s + hex_value s = unat n * 16 ^ length (c # s) + hex_value (c # s)"
        by (simp add: d_def algebra_simps)
      ultimately show ?thesis using True c False d(1) Cons.IH [of "n * 16 + word_of_nat d"] v
        by (simp add: Let_def)
    qed
  qed
qed

section \<open>The generators\<close>

text \<open>The decimal numeral of a number, as \<open>printf\<close> prints it as well.\<close>

fun dec_str :: "nat \<Rightarrow> string" where
  "dec_str n = (if n < 10 then [char_of (48 + n)] else dec_str (n div 10) @ [char_of (48 + n mod 10)])"

declare dec_str.simps [simp del]

lemma of_char_digit: "d < 10 \<Longrightarrow> of_char (char_of (48 + d) :: char) = (48 + d :: nat)"
  by (simp add: of_char_of)

lemma dec_str_digits: "list_all dec_digit (dec_str n)"
proof (induction n rule: dec_str.induct)
  case (1 n)
  show ?case
  proof (cases "n < 10")
    case True
    then show ?thesis using of_char_digit [of n] by (simp add: dec_str.simps [of n] dec_digit_def)
  next
    case False
    then show ?thesis using 1 of_char_digit [of "n mod 10"] by (simp add: dec_str.simps [of n] dec_digit_def)
  qed
qed

lemma dec_str_value: "dec_value (dec_str n) = n"
proof (induction n rule: dec_str.induct)
  case (1 n)
  show ?case
  proof (cases "n < 10")
    case True
    then show ?thesis using of_char_digit [of n] by (simp add: dec_str.simps [of n])
  next
    case False
    then show ?thesis using 1 of_char_digit [of "n mod 10"] by (simp add: dec_str.simps [of n] base_value_append)
  qed
qed

lemma dec_str_nonempty [simp]: "dec_str n \<noteq> []"
  by (simp add: dec_str.simps [of n])

lemma repr_size_length: "compute_decimal_repr_size x = length (dec_str (unat x))"
proof (induction x rule: compute_decimal_repr_size.induct)
  case (1 x)
  have "x div 10 > 0 \<longleftrightarrow> \<not> unat x < 10"
    by (simp add: word_greater_zero_iff word_unat_eq_iff unat_div div_greater_zero_iff not_less)
  then show ?case using 1
    by (subst compute_decimal_repr_size.simps) (auto simp: dec_str.simps [of "unat x"] unat_div)
qed

lemma generate_loop_value:
  "length (dec_str (unat x)) = pos \<Longrightarrow> pos \<le> length out \<Longrightarrow>
   generate_loop x pos out = Some (dec_str (unat x) @ drop pos out)"
proof (induction x pos out rule: generate_loop.induct)
  case (1 x pos out)
  let ?d = "char_of (48 + unat (x mod 10)) :: char"
  have z: "x div 10 > 0 \<longleftrightarrow> \<not> unat x < 10"
    by (simp add: word_greater_zero_iff word_unat_eq_iff unat_div div_greater_zero_iff not_less)
  have p: "0 < pos" using 1(2) by auto
  show ?case
  proof (cases "unat x < 10")
    case True
    then have "pos = 1" using 1(2) by (simp add: dec_str.simps [of "unat x"])
    then show ?thesis using True z p 1(3)
      by (subst generate_loop.simps) (cases out, auto simp: dec_str.simps [of "unat x"] unat_mod)
  next
    case False
    have l: "length (dec_str (unat (x div 10))) = pos - 1" using 1(2) False
      by (simp add: dec_str.simps [of "unat x"] unat_div)
    have "generate_loop (x div 10) (pos - 1) (out[pos - 1 := ?d]) =
        Some (dec_str (unat (x div 10)) @ drop (pos - 1) (out[pos - 1 := ?d]))"
      by (rule 1(1)) (use l False z p 1(3) in auto)
    moreover have "drop (pos - 1) (out[pos - 1 := ?d]) = ?d # drop pos out"
      using p 1(3) by (subst Cons_nth_drop_Suc [symmetric]) auto
    ultimately show ?thesis using False z p 1(3)
      by (subst generate_loop.simps) (simp add: Let_def dec_str.simps [of "unat x"] unat_div unat_mod)
  qed
qed

lemma generate_string_value:
  assumes "length (dec_str (unat x)) < length out"
  shows "generate_decimal_repr_string x out =
    Some (length (dec_str (unat x)), dec_str (unat x) @ CHR 0x00 # drop (length (dec_str (unat x)) + 1) out)"
proof -
  let ?n = "length (dec_str (unat x))"
  have "(dec_str (unat x) @ drop ?n out)[?n := CHR 0x00] = dec_str (unat x) @ CHR 0x00 # drop (?n + 1) out"
    using assms by (simp add: list_update_append Cons_nth_drop_Suc [symmetric])
  then show ?thesis using assms
    by (simp add: generate_decimal_repr_string_def generate_decimal_repr_def repr_size_length generate_loop_value Let_def)
qed

lemma dec_str_u64_length: "length (dec_str (unat (x :: u64))) \<le> 20"
proof (rule ccontr)
  assume "\<not> ?thesis"
  moreover have "dec_str n = c # s \<Longrightarrow> s \<noteq> [] \<Longrightarrow> c \<noteq> CHR ''0''" for n c s
  proof (induction n arbitrary: s rule: dec_str.induct)
    case (1 n)
    show ?case
    proof (cases "n < 10")
      case True
      then show ?thesis using 1(2,3) by (simp add: dec_str.simps [of n])
    next
      case False
      then obtain u where u: "dec_str (n div 10) = c # u"
        using 1(2) by (cases "dec_str (n div 10)") (auto simp: dec_str.simps [of n])
      show ?thesis
      proof (cases u)
        case Nil
        then have "n div 10 < 10" using u by (auto simp: dec_str.simps [of "n div 10"] split: if_splits)
        then have "c = char_of (48 + n div 10)" "n div 10 \<noteq> 0" using u False by (auto simp: dec_str.simps [of "n div 10"])
        then have "of_char c \<noteq> (48 :: nat)" using of_char_digit [OF \<open>n div 10 < 10\<close>] by simp
        then show ?thesis by auto
      qed (use 1(1) False u in auto)
    qed
  qed
  moreover obtain c s where cs: "dec_str (unat x) = c # s" using dec_str_nonempty by (meson neq_Nil_conv)
  ultimately have "c \<noteq> CHR ''0''" "20 \<le> length s" by force+
  then have "10 ^ length s \<le> unat x" using dec_value_ge [of c s] dec_str_digits [of "unat x"] dec_str_value [of "unat x"] cs by simp
  moreover have "(10 :: nat) ^ 20 \<le> 10 ^ length s" using \<open>20 \<le> length s\<close> by (intro power_increasing) auto
  ultimately have "10 ^ 20 \<le> unat x" by (rule order.trans [rotated])
  then show False using unsigned_less [of x, where ?'a = nat] by simp
qed

section \<open>Properties\<close>

text \<open>
  C23 The number parsers compute the value of the numeral over the natural numbers: a string is accepted exactly when it
  is a nonempty string of digits whose value is below 2^64, however many leading zeros it has, and then
  the result is that value; overflow is never mistaken for a value.
\<close>

theorem parse_integers_exact:
  "(parse_unsigned_integer s = Some n \<longleftrightarrow> s \<noteq> [] \<and> list_all dec_digit s \<and> dec_value s = unat n) \<and>
   (parse_unsigned_hex_integer s = Some n \<longleftrightarrow> s \<noteq> [] \<and> list_all hex_digit s \<and> hex_value s = unat n)"
proof -
  have n: "(k < 2 ^ 64 \<and> word_of_nat k = n) \<longleftrightarrow> k = unat n" for k
    using unsigned_less [of n, where ?'a = nat] by (auto simp: unat_of_nat take_bit_nat_eq_self)
  have "parse_unsigned_integer s = Some n \<longleftrightarrow> s \<noteq> [] \<and> list_all dec_digit s \<and> (dec_value s < 2 ^ 64 \<and> word_of_nat (dec_value s) = n)"
    unfolding parse_unsigned_integer_value by (simp only: if_split_asm option.distinct option.inject split: if_split) blast
  moreover have "parse_unsigned_hex_integer s = Some n \<longleftrightarrow>
      s \<noteq> [] \<and> list_all hex_digit s \<and> (hex_value s < 2 ^ 64 \<and> word_of_nat (hex_value s) = n)"
    unfolding parse_unsigned_hex_integer_def parse_hex_loop_value
    by (simp only: unat_0 mult_0 add_0 length_0_conv option.distinct option.inject split: if_split) blast
  ultimately show ?thesis unfolding n by blast
qed

text \<open>
  Printing and parsing a number are inverse: for every 64 bit number the generator fits a buffer of 21 characters,
  writes nothing outside it, terminates the string, and the parser reads the same number back.
\<close>

theorem number_roundtrip:
  assumes "20 < length out"
  shows "\<exists>n res. generate_decimal_repr_string x out = Some (n, res) \<and> n \<le> 20 \<and> length res = length out \<and>
    res ! n = CHR 0x00 \<and> parse_unsigned_integer (take n res) = Some x"
proof -
  let ?s = "dec_str (unat x)"
  have n: "length ?s \<le> 20" by (rule dec_str_u64_length)
  have "unat x < 2 ^ 64" using unsigned_less [of x, where ?'a = nat] by simp
  then have "parse_unsigned_integer ?s = Some x"
    by (simp add: parse_unsigned_integer_value dec_str_digits dec_str_value)
  moreover have "generate_decimal_repr_string x out = Some (length ?s, ?s @ CHR 0x00 # drop (length ?s + 1) out)"
    by (rule generate_string_value) (use assms n in simp)
  ultimately show ?thesis using n assms
    by (intro exI [of _ "length ?s"] exI [of _ "?s @ CHR 0x00 # drop (length ?s + 1) out"]) simp
qed

theorem number_roundtrip_witness:
  "\<exists>n res. generate_decimal_repr_string 4096 (replicate 21 CHR ''x'') = Some (n, res) \<and>
    parse_unsigned_integer (take n res) = Some 4096"
  using number_roundtrip [of "replicate 21 CHR ''x''" 4096] by auto

end
