(* ===== verification/IpAddr.thy ===== *)
theory IpAddr
  imports Numbers
begin

text \<open>
  IP addresses, prefixes and masks as text and as numbers: \<open>misc/ipaddr.h\<close> and \<open>misc/ipaddr6.h\<close>.  An IPv4
  address is a word in network byte order, an IPv6 address its sixteen bytes.
\<close>

unbundle bit_operations_syntax

section \<open>IPv4\<close>

lemma octet_shorter: "takeWhile P xs \<noteq> [] \<Longrightarrow> length xs - Suc n < length xs"
  by (cases xs) auto

function parse_octets :: "nat \<Rightarrow> string \<Rightarrow> bytes option" where
  "parse_octets i name =
     (let j = length (takeWhile (\<lambda>c. c \<noteq> CHR ''.'') name)
      in if j = length name \<and> i < 3 \<or> j < length name \<and> i = 3 then None
         else if j < 1 \<or> j > 3 then None
         else case parse_unsigned_integer (take j name) of
             None \<Rightarrow> None
           | Some d \<Rightarrow>
               if d > 255 then None
               else if i = 3 then Some [ucast d]
               else map_option (\<lambda>bs. ucast d # bs) (parse_octets (i + 1) (drop (j + 1) name)))"
  by auto
termination
  by (relation "measure (\<lambda>(_, name). length name)") (auto intro: octet_shorter)

declare parse_octets.simps [simp del]

definition ipaddr_parse_ipv4_addr :: "string \<Rightarrow> u32 option" where
  "ipaddr_parse_ipv4_addr name = map_option load32 (parse_octets 0 name)"

definition ipaddr_parse_ipv4_prefix :: "string \<Rightarrow> nat option" where
  "ipaddr_parse_ipv4_prefix str =
     (case parse_unsigned_integer str of
        None \<Rightarrow> None
      | Some d \<Rightarrow> if d > 32 then None else Some (unat d))"

definition MemRef_FindChar :: "string \<Rightarrow> char \<Rightarrow> nat option" where
  "MemRef_FindChar s c =
     (let i = length (takeWhile (\<lambda>x. x \<noteq> c) s) in if i < length s then Some i else None)"

record ipv4_ifaddr =
  v4_addr :: u32
  v4_prefix :: nat

definition ipaddr_parse_ipv4_ifaddr :: "string \<Rightarrow> ipv4_ifaddr option" where
  "ipaddr_parse_ipv4_ifaddr str =
     do {
       slash_pos \<leftarrow> MemRef_FindChar str CHR ''/'';
       a \<leftarrow> ipaddr_parse_ipv4_addr (take slash_pos str);
       p \<leftarrow> ipaddr_parse_ipv4_prefix (drop (slash_pos + 1) str);
       Some \<lparr>v4_addr = a, v4_prefix = p\<rparr> }"

text \<open>The loop that sets the upper bits of a word one after the other.\<close>

fun high_bits :: "nat \<Rightarrow> nat \<Rightarrow> 'a::len word" where
  "high_bits w 0 = 0"
| "high_bits w (Suc i) = high_bits w i OR push_bit (w - i - 1) 1"

definition ipaddr_ipv4_mask_from_prefix :: "nat \<Rightarrow> u32 option" where
  "ipaddr_ipv4_mask_from_prefix prefix = ASSERT (prefix \<le> 32) (Some (hton32 (high_bits 32 prefix)))"

text \<open>The search for the first number of upper bits that gives \<open>m\<close>.\<close>

definition find_high_bits :: "nat \<Rightarrow> 'a::len word \<Rightarrow> nat option" where
  "find_high_bits w m = find (\<lambda>i. m = high_bits w i) [0..<w + 1]"

definition ipaddr_ipv4_prefix_from_mask :: "u32 \<Rightarrow> nat option" where
  "ipaddr_ipv4_prefix_from_mask netmask = find_high_bits 32 (ntoh32 netmask)"

definition ipaddr_ipv4_ifaddr_from_addr_mask :: "u32 \<Rightarrow> u32 \<Rightarrow> ipv4_ifaddr option" where
  "ipaddr_ipv4_ifaddr_from_addr_mask addr netmask =
     map_option (\<lambda>p. \<lparr>v4_addr = addr, v4_prefix = p\<rparr>) (ipaddr_ipv4_prefix_from_mask netmask)"

definition ipaddr_ipv4_addrs_in_network :: "u32 \<Rightarrow> u32 \<Rightarrow> nat \<Rightarrow> bool option" where
  "ipaddr_ipv4_addrs_in_network addr1 addr2 netprefix =
     ASSERT (netprefix \<le> 32)
       (do { netmask \<leftarrow> ipaddr_ipv4_mask_from_prefix netprefix;
             Some (addr1 AND netmask = addr2 AND netmask) })"

definition ipaddr_print_addr :: "u32 \<Rightarrow> string" where
  "ipaddr_print_addr addr =
     (let b = store32 addr
      in dec_str (unat (b ! 0)) @ ''.'' @ dec_str (unat (b ! 1)) @ ''.'' @
         dec_str (unat (b ! 2)) @ ''.'' @ dec_str (unat (b ! 3)))"

definition ipaddr_print_ifaddr :: "ipv4_ifaddr \<Rightarrow> string option" where
  "ipaddr_print_ifaddr a =
     ASSERT (v4_prefix a \<le> 32) (Some (ipaddr_print_addr (v4_addr a) @ ''/'' @ dec_str (v4_prefix a)))"

section \<open>IPv6\<close>

text \<open>The state of the loop over the characters of an IPv6 address; \<open>v6_bytes\<close> is the output buffer.\<close>

record parse6 =
  v6_bytes :: bytes
  num_blocks :: nat
  compress_pos :: "nat option"
  v6_block :: u16
  v6_empty :: bool

text \<open>Storing the current block; writing outside the sixteen bytes is a failure.\<close>

definition store_block :: "parse6 \<Rightarrow> parse6 option" where
  "store_block p =
     ASSERT (2 * num_blocks p + 1 < length (v6_bytes p))
       (Some (p\<lparr>v6_bytes := (v6_bytes p)[2 * num_blocks p := ucast (drop_bit 8 (v6_block p)),
                                        2 * num_blocks p + 1 := ucast (v6_block p AND 0xFF)],
                num_blocks := num_blocks p + 1\<rparr>))"

datatype parse6_end = End6 | Ipv4Ending nat

text \<open>
  The main loop, from position \<open>i\<close>: \<open>Some None\<close> is \<open>return 0\<close>; otherwise the loop ends at the end of the
  name or jumps to \<open>ipv4_ending\<close>.
\<close>

function parse6_loop :: "string \<Rightarrow> nat \<Rightarrow> parse6 \<Rightarrow> (parse6 \<times> parse6_end) option option" where
  "parse6_loop name i p =
     (if i < length name then
        if name ! i = CHR ''.'' then Some (Some (p, Ipv4Ending i))
        else if name ! i = CHR '':'' then
          let is_double = i + 1 < length name \<and> name ! (i + 1) = CHR '':''
          in if i > 0 \<and> (v6_empty p \<or> num_blocks p = 7) then Some None
             else if i = 0 \<and> \<not> is_double then Some None
             else do {
               p \<leftarrow> (if i > 0 then map_option (\<lambda>p. p\<lparr>v6_block := 0, v6_empty := True\<rparr>) (store_block p) else Some p);
               if is_double \<and> compress_pos p \<noteq> None then Some None
               else let p = (if is_double then p\<lparr>compress_pos := Some (num_blocks p)\<rparr> else p)
                    in parse6_loop name (i + 1 + of_bool is_double) p }
        else
          let digit = decode_hex_digit (name ! i)
          in if digit < 0 then Some None
             else if int (unat (v6_block p)) > UINT16_MAX div 16 then Some None
             else let block = v6_block p * 16
                  in if digit > UINT16_MAX - int (unat block) then Some None
                     else parse6_loop name (i + 1)
                            (p\<lparr>v6_block := block + word_of_int digit, v6_empty := False\<rparr>)
      else Some (Some (p, End6)))"
  by pat_completeness auto
termination
  by (relation "measure (\<lambda>(name, i, _). length name - i)") auto

declare parse6_loop.simps [simp del]

text \<open>The decimal ending, from the character after the last colon on.\<close>

fun parse4_loop :: "string \<Rightarrow> nat \<Rightarrow> u8 \<Rightarrow> bool \<Rightarrow> bytes \<Rightarrow> (bytes \<times> nat \<times> u8 \<times> bool) option" where
  "parse4_loop [] cur_byte byte blank bs = Some (bs, cur_byte, byte, blank)"
| "parse4_loop (c # name) cur_byte byte blank bs =
     (if c = CHR ''.'' then
        if blank \<or> cur_byte = 3 then None
        else parse4_loop name (cur_byte + 1) 0 True (bs[cur_byte := byte])
      else if \<not> blank \<and> byte = 0 then None
      else let digit = decode_decimal_digit c
           in if digit < 0 then None
              else if byte > 255 div 10 then None
              else let byte = byte * 10
                   in if digit > 255 - int (unat byte) then None
                      else parse4_loop name cur_byte (byte + word_of_int digit) False bs)"

text \<open>\<open>memmove\<close> inside a buffer and \<open>memset\<close> with zero; both fail outside the buffer.\<close>

definition memmove :: "nat \<Rightarrow> nat \<Rightarrow> nat \<Rightarrow> bytes \<Rightarrow> bytes option" where
  "memmove dst src n m =
     ASSERT (dst + n \<le> length m \<and> src + n \<le> length m)
       (Some (take dst m @ take n (drop src m) @ drop (dst + n) m))"

definition memset0 :: "nat \<Rightarrow> nat \<Rightarrow> bytes \<Rightarrow> bytes option" where
  "memset0 dst n m =
     ASSERT (dst + n \<le> length m) (Some (take dst m @ replicate n 0 @ drop (dst + n) m))"

text \<open>The part from label \<open>ipv4_done\<close> on: the blocks behind the compression move to the end.\<close>

definition parse6_done :: "parse6 \<Rightarrow> bytes option option" where
  "parse6_done p =
     (if compress_pos p = None \<and> num_blocks p \<noteq> 8 then Some None
      else let pos = (case compress_pos p of None \<Rightarrow> 0 | Some c \<Rightarrow> c);
               num_rear = num_blocks p - pos
           in ASSERT (pos \<le> num_blocks p \<and> num_blocks p \<le> 8) (do {
                m \<leftarrow> memmove (2 * (8 - num_rear)) (2 * pos) (2 * num_rear) (v6_bytes p);
                m \<leftarrow> memset0 (2 * pos) (2 * (8 - num_rear - pos)) m;
                Some (Some m) }))"

text \<open>The part from label \<open>ipv4_ending\<close> on; the loop back to the colon must find one.\<close>

definition parse6_ipv4 :: "string \<Rightarrow> nat \<Rightarrow> parse6 \<Rightarrow> bytes option option" where
  "parse6_ipv4 name i p =
     (if v6_empty p \<or> num_blocks p = 0 \<and> compress_pos p = None then Some None
      else ASSERT (CHR '':'' \<in> set (take i name)) (
        let rest = drop i name;
            back = rev (takeWhile (\<lambda>c. c \<noteq> CHR '':'') (rev (take i name)))
        in case parse4_loop (back @ rest) 0 0 True [0, 0, 0, 0] of
             None \<Rightarrow> Some None
           | Some (bs, cur_byte, byte, blank) \<Rightarrow>
               if cur_byte \<noteq> 3 \<or> blank then Some None
               else if 8 - int (num_blocks p) < 2 then Some None
               else ASSERT (2 * num_blocks p + 4 \<le> length (v6_bytes p))
                 (parse6_done (p\<lparr>v6_bytes := take (2 * num_blocks p) (v6_bytes p) @ bs[cur_byte := byte] @
                                    drop (2 * num_blocks p + 4) (v6_bytes p),
                                 num_blocks := num_blocks p + 2\<rparr>))))"

text \<open>\<open>out\<close> is what the output buffer holds at the call.\<close>

definition ipaddr6_parse_ipv6_addr :: "string \<Rightarrow> bytes \<Rightarrow> bytes option option" where
  "ipaddr6_parse_ipv6_addr name out =
     do {
       r \<leftarrow> parse6_loop name 0
              \<lparr>v6_bytes = out, num_blocks = 0, compress_pos = None, v6_block = 0, v6_empty = True\<rparr>;
       (case r of
          None \<Rightarrow> Some None
        | Some (p, Ipv4Ending i) \<Rightarrow> parse6_ipv4 name i p
        | Some (p, End6) \<Rightarrow>
            if \<not> v6_empty p then do { p \<leftarrow> store_block p; parse6_done p }
            else if Some (num_blocks p) \<noteq> compress_pos p then Some None
            else parse6_done p) }"

definition ipaddr6_parse_ipv6_prefix :: "string \<Rightarrow> nat option" where
  "ipaddr6_parse_ipv6_prefix str =
     (case parse_unsigned_integer str of
        None \<Rightarrow> None
      | Some d \<Rightarrow> if d > 128 then None else Some (unat d))"

record ipv6_ifaddr =
  ifaddr6_addr :: bytes
  ifaddr6_prefix :: nat

definition ipaddr6_parse_ipv6_ifaddr :: "string \<Rightarrow> bytes \<Rightarrow> ipv6_ifaddr option option" where
  "ipaddr6_parse_ipv6_ifaddr str out =
     (case MemRef_FindChar str CHR ''/'' of
        None \<Rightarrow> Some None
      | Some slash_pos \<Rightarrow>
          do {
            a \<leftarrow> ipaddr6_parse_ipv6_addr (take slash_pos str) out;
            Some (do {
              a \<leftarrow> a;
              p \<leftarrow> ipaddr6_parse_ipv6_prefix (drop (slash_pos + 1) str);
              Some \<lparr>ifaddr6_addr = a, ifaddr6_prefix = p\<rparr> }) })"

text \<open>Setting the upper \<open>rem\<close> bits of byte \<open>quot\<close> does not touch the buffer when \<open>rem\<close> is zero.\<close>

definition ipaddr6_ipv6_mask_from_prefix :: "nat \<Rightarrow> bytes option" where
  "ipaddr6_ipv6_mask_from_prefix prefix =
     ASSERT (prefix \<le> 128) (
     let quot = prefix div 8; rm = prefix mod 8;
         m = replicate quot 0xFF @ replicate (16 - quot) 0
     in if rm = 0 then Some m
        else ASSERT (quot < length m) (Some (m[quot := m ! quot OR high_bits 8 rm])))"

definition ipaddr6_ipv6_prefix_from_mask :: "bytes \<Rightarrow> nat option" where
  "ipaddr6_ipv6_prefix_from_mask m =
     (let i = length (takeWhile (\<lambda>b. b = 0xFF) m)
      in if i < 16 then
           case find_high_bits 8 (m ! i) of
             None \<Rightarrow> None
           | Some j \<Rightarrow> if list_all (\<lambda>b. b = 0) (drop (i + 1) m) then Some (8 * i + j) else None
         else Some (8 * i))"

definition ipaddr6_ipv6_ifaddr_from_addr_mask :: "bytes \<Rightarrow> bytes \<Rightarrow> ipv6_ifaddr option" where
  "ipaddr6_ipv6_ifaddr_from_addr_mask addr m =
     map_option (\<lambda>p. \<lparr>ifaddr6_addr = addr, ifaddr6_prefix = p\<rparr>) (ipaddr6_ipv6_prefix_from_mask m)"

definition ipaddr6_ipv6_addrs_in_network :: "bytes \<Rightarrow> bytes \<Rightarrow> nat \<Rightarrow> bool option" where
  "ipaddr6_ipv6_addrs_in_network addr1 addr2 netprefix =
     ASSERT (netprefix \<le> 128) (
     let quot = netprefix div 8; rm = netprefix mod 8
     in if memcmp (take quot addr1) (take quot addr2) \<noteq> 0 then Some False
        else if rm = 0 then Some True
        else let t = high_bits 8 rm :: u8
             in ASSERT (quot < length addr1 \<and> quot < length addr2)
                  (Some (addr1 ! quot AND t = addr2 ! quot AND t)))"

section \<open>Printing IPv6 addresses\<close>

text \<open>\<open>%x\<close> of \<open>printf\<close>.\<close>

definition hex_char :: "nat \<Rightarrow> char" where
  "hex_char d = ''0123456789abcdef'' ! d"

fun hex_str :: "nat \<Rightarrow> string" where
  "hex_str n = (if n < 16 then [hex_char n] else hex_str (n div 16) @ [hex_char (n mod 16)])"

declare hex_str.simps [simp del]

definition addr_block :: "bytes \<Rightarrow> nat \<Rightarrow> u16" where
  "addr_block a i = push_bit 8 (ucast (a ! (2 * i))) OR ucast (a ! (2 * i + 1))"

record zero_run =
  largest_start :: nat
  largest_len :: nat
  current_start :: nat
  current_len :: nat

definition zero_run_step :: "bytes \<Rightarrow> nat \<Rightarrow> zero_run \<Rightarrow> zero_run" where
  "zero_run_step a i z =
     (if a ! (2 * i) = 0 \<and> a ! (2 * i + 1) = 0 then
        let z = z\<lparr>current_len := current_len z + 1\<rparr>
        in if current_len z > largest_len z
           then z\<lparr>largest_start := current_start z, largest_len := current_len z\<rparr> else z
      else z\<lparr>current_start := i + 1, current_len := 0\<rparr>)"

definition find_zero_run :: "bytes \<Rightarrow> zero_run" where
  "find_zero_run a =
     fold (zero_run_step a) [0..<8]
       \<lparr>largest_start = 0, largest_len = 0, current_start = 0, current_len = 0\<rparr>"

definition ipaddr6_print_addr :: "bytes \<Rightarrow> string" where
  "ipaddr6_print_addr a =
     (let z = find_zero_run a; block = (\<lambda>i. hex_str (unat (addr_block a i)))
      in if largest_len z > 1 then
           concat (map (\<lambda>i. block i @ '':'') [0..<largest_start z]) @
           (if largest_start z = 0 then '':'' else []) @
           concat (map (\<lambda>i. '':'' @ block i) [largest_start z + largest_len z..<8]) @
           (if largest_start z + largest_len z = 8 then '':'' else [])
         else block 0 @ concat (map (\<lambda>i. '':'' @ block i) [1..<8]))"

definition ipaddr6_print_ifaddr :: "ipv6_ifaddr \<Rightarrow> string option" where
  "ipaddr6_print_ifaddr a =
     ASSERT (ifaddr6_prefix a \<le> 128)
       (Some (ipaddr6_print_addr (ifaddr6_addr a) @ ''/'' @ dec_str (ifaddr6_prefix a)))"

end
