(* ===== verification/IpText.thy ===== *)
theory IpText
  imports IpAddr
begin

text \<open>
  Properties of the textual IP addresses of theory \<open>IpAddr\<close>: the IPv6 parser stays inside its buffer
  on every input, and reads back what the printer writes; the IPv4 forms likewise.
\<close>

section \<open>The IPv6 parser stays inside its buffer\<close>

definition parse6_inv :: "string \<Rightarrow> nat \<Rightarrow> parse6 \<Rightarrow> bool" where
  "parse6_inv name i p \<longleftrightarrow>
     length (v6_bytes p) = 16 \<and> num_blocks p \<le> 7 \<and>
     (\<forall>c. compress_pos p = Some c \<longrightarrow> c \<le> num_blocks p) \<and>
     (num_blocks p > 0 \<or> compress_pos p \<noteq> None \<longrightarrow> CHR '':'' \<in> set (take i name))"

definition stays_inside :: "bytes option option \<Rightarrow> bool" where
  "stays_inside r \<longleftrightarrow> (\<exists>x. r = Some x \<and> (\<forall>a. x = Some a \<longrightarrow> length a = 16))"

lemma colon_seen: "i < length name \<Longrightarrow> name ! i = c \<Longrightarrow> i < j \<Longrightarrow> c \<in> set (take j name)"
  by (auto simp: in_set_conv_nth intro!: exI [of _ i])

lemma colon_kept: "c \<in> set (take i name) \<Longrightarrow> i \<le> j \<Longrightarrow> c \<in> set (take j name)"
  using set_take_subset_set_take [of i j name] by blast

lemma parse6_loop_inv:
  "parse6_inv name i p \<Longrightarrow>
   \<exists>r. parse6_loop name i p = Some r \<and>
     (\<forall>q e. r = Some (q, e) \<longrightarrow> (case e of End6 \<Rightarrow> parse6_inv name (length name) q | Ipv4Ending j \<Rightarrow> parse6_inv name j q))"
proof (induction name i p rule: parse6_loop.induct)
  case (1 name i p)
  note inv = 1(3)
  show ?case
  proof (cases "i < length name")
    case False
    then have "parse6_inv name (length name) p" using inv by (simp add: parse6_inv_def)
    then show ?thesis using False by (subst parse6_loop.simps) simp
  next
    case len: True
    consider (dot) "name ! i = CHR ''.''" | (colon) "name ! i = CHR '':''" | (digit) "name ! i \<noteq> CHR ''.''" "name ! i \<noteq> CHR '':''"
      by blast
    then show ?thesis
    proof cases
      case dot
      then show ?thesis using len inv by (subst parse6_loop.simps) simp
    next
      case digit
      have "parse6_inv name (i + 1) (p\<lparr>v6_block := b, v6_empty := False\<rparr>)" for b
        using inv by (auto simp: parse6_inv_def intro: colon_kept)
      then show ?thesis using len digit 1(2) [OF len digit]
        by (subst parse6_loop.simps) (auto simp: Let_def)
    next
      case colon
      define is_double where "is_double = (i + 1 < length name \<and> name ! (i + 1) = CHR '':'')"
      define fresh where "fresh = (\<lambda>p :: parse6. p\<lparr>v6_block := 0, v6_empty := True\<rparr>)"
      have nd: "name ! i \<noteq> CHR ''.''" using colon by simp
      have seen: "CHR '':'' \<in> set (take j name)" if "i < j" for j using colon_seen [OF len colon that] .
      show ?thesis
      proof (cases "i > 0 \<and> (v6_empty p \<or> num_blocks p = 7) \<or> i = 0 \<and> \<not> is_double")
        case True
        then show ?thesis using len colon by (subst parse6_loop.simps) (auto simp: Let_def is_double_def)
      next
        case False
        have "\<exists>q. (if i > 0 then map_option fresh (store_block p) else Some p) = Some q \<and>
          length (v6_bytes q) = 16 \<and> num_blocks q \<le> 7 \<and> (\<forall>c. compress_pos q = Some c \<longrightarrow> c \<le> num_blocks q)"
        proof (cases "i > 0")
          case True
          then show ?thesis using False inv by (auto simp: parse6_inv_def store_block_def fresh_def intro: le_SucI)
        next
          case False
          then show ?thesis using inv by (simp add: parse6_inv_def)
        qed
        then obtain q where q: "(if i > 0 then map_option fresh (store_block p) else Some p) = Some q"
          "length (v6_bytes q) = 16" "num_blocks q \<le> 7" "\<forall>c. compress_pos q = Some c \<longrightarrow> c \<le> num_blocks q" by blast
        define t where "t = (if is_double then q\<lparr>compress_pos := Some (num_blocks q)\<rparr> else q)"
        have "parse6_inv name (i + 1 + of_bool is_double) t"
          using q seen by (auto simp: t_def parse6_inv_def)
        moreover have "parse6_loop name i p =
            (if is_double \<and> compress_pos q \<noteq> None then Some None else parse6_loop name (i + 1 + of_bool is_double) t)"
          using len colon False q(1) unfolding is_double_def fresh_def
          by (subst parse6_loop.simps) (auto simp: Let_def t_def is_double_def)
        ultimately show ?thesis
          using 1(1) [OF len nd colon is_double_def, of q t] False q(1) [unfolded fresh_def]
          by (cases "is_double \<and> compress_pos q \<noteq> None") (auto simp: t_def)
      qed
    qed
  qed
qed

lemma parse6_done_value:
  assumes "length (v6_bytes p) = 16" "num_blocks p \<le> 8" "\<not> (compress_pos p = None \<and> num_blocks p \<noteq> 8)"
    "c = (case compress_pos p of None \<Rightarrow> 0 | Some c \<Rightarrow> c)" "c \<le> num_blocks p"
  shows "parse6_done p = Some (Some (take (2 * c) (v6_bytes p) @ replicate (2 * (8 - num_blocks p)) 0 @
    take (2 * (num_blocks p - c)) (drop (2 * c) (v6_bytes p))))"
proof -
  define r z where "r = num_blocks p - c" and "z = 8 - num_blocks p"
  have n: "num_blocks p = c + r" "c + r + z = 8" "8 - r = c + z" "z = 8 - (c + r)"
    using assms(2,5) by (auto simp: r_def z_def)
  have l: "length (v6_bytes p) = 2 * c + 2 * r + 2 * z" using assms(1) n(2) by simp
  have "memmove (2 * (8 - r)) (2 * c) (2 * r) (v6_bytes p) =
      Some (take (2 * (8 - r)) (v6_bytes p) @ take (2 * r) (drop (2 * c) (v6_bytes p)))"
    using l unfolding n(3) by (simp add: memmove_def)
  moreover have "memset0 (2 * c) (2 * z) (take (2 * (8 - r)) (v6_bytes p) @ take (2 * r) (drop (2 * c) (v6_bytes p))) =
      Some (take (2 * c) (v6_bytes p) @ replicate (2 * z) 0 @ take (2 * r) (drop (2 * c) (v6_bytes p)))"
    using l unfolding n(3) by (simp add: memset0_def min_def)
  moreover have "8 - r - c = z" using n by simp
  ultimately show ?thesis using assms(2,3,5)
    unfolding parse6_done_def Let_def assms(4) [symmetric] r_def [symmetric] z_def [symmetric] by auto
qed

lemma parse6_done_inside:
  assumes "length (v6_bytes p) = 16" "num_blocks p \<le> 8" "\<forall>c. compress_pos p = Some c \<longrightarrow> c \<le> num_blocks p"
  shows "stays_inside (parse6_done p)"
proof (cases "compress_pos p = None \<and> num_blocks p \<noteq> 8")
  case True
  then show ?thesis by (simp add: parse6_done_def stays_inside_def)
next
  case False
  let ?c = "case compress_pos p of None \<Rightarrow> 0 | Some c \<Rightarrow> c"
  have "?c \<le> num_blocks p" using assms(3) by (auto split: option.split)
  then show ?thesis using parse6_done_value [OF assms(1,2) False refl] assms(1,2) by (simp add: stays_inside_def)
qed

lemma parse4_loop_length: "parse4_loop s i b e bs = Some (bs', r) \<Longrightarrow> length bs' = length bs"
  by (induction s i b e bs rule: parse4_loop.induct) (auto simp: Let_def split: if_splits)

lemma parse6_ipv4_inside: "parse6_inv name i p \<Longrightarrow> stays_inside (parse6_ipv4 name i p)"
proof -
  assume i: "parse6_inv name i p"
  have "stays_inside (parse6_done (p\<lparr>v6_bytes := m, num_blocks := num_blocks p + 2\<rparr>))"
    if "length m = 16" "num_blocks p \<le> 6" for m
    by (rule parse6_done_inside) (use i that in \<open>auto simp: parse6_inv_def intro: le_SucI\<close>)
  moreover have "stays_inside (Some None)" by (simp add: stays_inside_def)
  ultimately show ?thesis using i unfolding parse6_ipv4_def
    by (auto simp: parse6_inv_def Let_def dest!: parse4_loop_length split: option.splits)
qed

lemma ipaddr6_parse_inside: "length out = 16 \<Longrightarrow> stays_inside (ipaddr6_parse_ipv6_addr name out)"
proof -
  assume "length out = 16"
  then have "parse6_inv name 0 \<lparr>v6_bytes = out, num_blocks = 0, compress_pos = None, v6_block = 0, v6_empty = True\<rparr>"
    by (simp add: parse6_inv_def)
  from parse6_loop_inv [OF this] obtain r where r: "parse6_loop name 0
      \<lparr>v6_bytes = out, num_blocks = 0, compress_pos = None, v6_block = 0, v6_empty = True\<rparr> = Some r"
    "\<And>q e. r = Some (q, e) \<Longrightarrow> (case e of End6 \<Rightarrow> parse6_inv name (length name) q | Ipv4Ending j \<Rightarrow> parse6_inv name j q)"
    by blast
  show ?thesis
  proof (cases r)
    case None
    then show ?thesis using r(1) by (simp add: ipaddr6_parse_ipv6_addr_def stays_inside_def)
  next
    case (Some x)
    then obtain q e where x: "r = Some (q, e)" by (cases x) auto
    show ?thesis
    proof (cases e)
      case (Ipv4Ending j)
      then show ?thesis using r(1) r(2) [OF x] x parse6_ipv4_inside by (simp add: ipaddr6_parse_ipv6_addr_def)
    next
      case End6
      then have q: "parse6_inv name (length name) q" using r(2) [OF x] by simp
      have "\<exists>t. store_block q = Some t \<and> stays_inside (parse6_done t)"
        using q by (auto simp: store_block_def parse6_inv_def intro!: parse6_done_inside intro: le_SucI)
      moreover have "stays_inside (parse6_done q)" "stays_inside (Some None)"
        using q parse6_done_inside [of q] by (simp_all add: parse6_inv_def stays_inside_def)
      ultimately show ?thesis using r(1) x End6 by (auto simp: ipaddr6_parse_ipv6_addr_def)
    qed
  qed
qed

section \<open>Hexadecimal blocks\<close>

lemma hex_char_digit: "d < 16 \<Longrightarrow> hex_digit (hex_char d) \<and> decode_hex_digit (hex_char d) = int d"
proof -
  assume "d < 16"
  then have "d \<in> set [0..<16]" by simp
  moreover have "\<forall>d \<in> set [0..<16]. hex_digit (hex_char d) \<and> decode_hex_digit (hex_char d) = int d"
    by code_simp
  ultimately show ?thesis by blast
qed

lemma hex_str_digits: "list_all hex_digit (hex_str n) \<and> hex_value (hex_str n) = n \<and> hex_str n \<noteq> []"
proof (induction n rule: hex_str.induct)
  case (1 n)
  show ?case
  proof (cases "n < 16")
    case True
    then show ?thesis using hex_char_digit [of n] by (simp add: hex_str.simps [of n])
  next
    case False
    then show ?thesis using 1 hex_char_digit [of "n mod 16"] by (simp add: hex_str.simps [of n] base_value_append)
  qed
qed

lemma hex_digit_plain: "hex_digit c \<Longrightarrow> c \<noteq> CHR ''.'' \<and> c \<noteq> CHR '':''"
  by (auto simp: hex_digit_def)

lemma parse6_digits:
  assumes "list_all hex_digit h" "unat (v6_block p) * 16 ^ length h + hex_value h < 65536"
  shows "parse6_loop (pre @ h @ rest) (length pre) p =
    parse6_loop (pre @ h @ rest) (length pre + length h)
      (p\<lparr>v6_block := word_of_nat (unat (v6_block p) * 16 ^ length h + hex_value h), v6_empty := (h = [] \<and> v6_empty p)\<rparr>)"
  using assms
proof (induction h arbitrary: pre p)
  case (Cons c h)
  define d where "d = nat (decode_hex_digit c)"
  have d: "decode_hex_digit c = int d" "d < 16" using decode_hex_digit_range [of c] Cons.prems(1) by (auto simp: d_def)
  let ?b = "unat (v6_block p)" and ?q = "p\<lparr>v6_block := v6_block p * 16 + word_of_nat d, v6_empty := False\<rparr>"
  have val: "?b * 16 ^ length (c # h) + hex_value (c # h) = (?b * 16 + d) * 16 ^ length h + hex_value h"
    by (simp add: d_def algebra_simps)
  have "?b * 16 + d \<le> (?b * 16 + d) * 16 ^ length h" by simp
  then have b: "?b * 16 + d < 65536" using Cons.prems(2) val by linarith
  have u16: "unat (v6_block p * 16) = ?b * 16" using b unat_mult_lem [of "v6_block p" 16] by simp
  have chk: "\<not> int (unat (v6_block p)) > 4095" "\<not> int d > 65535 - int (unat (v6_block p * 16))" using b u16 by linarith+
  have u: "unat (v6_block p * 16 + word_of_nat d) = ?b * 16 + d"
    using b d(2) u16 by (subst unat_add_lem [THEN iffD1]) (auto simp: unat_of_nat)
  have "parse6_loop (pre @ (c # h) @ rest) (length pre) p = parse6_loop (pre @ (c # h) @ rest) (length pre + 1) ?q"
    using hex_digit_plain [of c] Cons.prems(1) d chk
    by (subst parse6_loop.simps) (simp add: Let_def nth_append)
  moreover have "parse6_loop ((pre @ [c]) @ h @ rest) (length (pre @ [c])) ?q =
      parse6_loop ((pre @ [c]) @ h @ rest) (length (pre @ [c]) + length h)
       (?q\<lparr>v6_block := word_of_nat (unat (v6_block ?q) * 16 ^ length h + hex_value h), v6_empty := (h = [] \<and> v6_empty ?q)\<rparr>)"
    by (rule Cons.IH) (use Cons.prems val u in auto)
  ultimately show ?case using u by (simp add: algebra_simps flip: d_def)
qed simp

section \<open>Blocks between colons\<close>

definition blk_bytes :: "u16 \<Rightarrow> bytes" where
  "blk_bytes w = [ucast (drop_bit 8 w), ucast (w AND 0xFF)]"

fun join :: "string list \<Rightarrow> string" where
  "join [] = []"
| "join [x] = x"
| "join (x # y # xs) = x @ '':'' @ join (y # xs)"

abbreviation blocks_str :: "u16 list \<Rightarrow> string" where
  "blocks_str ws \<equiv> join (map (\<lambda>w. hex_str (unat w)) ws)"

text \<open>The parser's state when a block can start, and after the blocks \<open>ws\<close> were stored.\<close>

definition ready :: "parse6 \<Rightarrow> bool" where
  "ready p \<longleftrightarrow> v6_block p = 0 \<and> v6_empty p \<and> length (v6_bytes p) = 16"

definition put_blocks :: "u16 list \<Rightarrow> parse6 \<Rightarrow> parse6" where
  "put_blocks ws p = p\<lparr>v6_bytes := take (2 * num_blocks p) (v6_bytes p) @ concat (map blk_bytes ws) @
       drop (2 * (num_blocks p + length ws)) (v6_bytes p), num_blocks := num_blocks p + length ws\<rparr>"

lemma length_blk [simp]: "length (blk_bytes w) = 2"
  by (simp add: blk_bytes_def)

lemma length_blk_bytes [simp]: "length (concat (map blk_bytes ws)) = 2 * length ws"
  by (induction ws) simp_all

lemma put_blocks_Nil [simp]: "put_blocks [] p = p"
  by (simp add: put_blocks_def)

lemma put_blocks_Cons:
  "length (v6_bytes p) = 16 \<Longrightarrow> num_blocks p + length (w # ws) \<le> 8 \<Longrightarrow> put_blocks (w # ws) p = put_blocks ws (put_blocks [w] p)"
  by (simp add: put_blocks_def min_def ac_simps)

lemma put_blocks_sel [simp]: "num_blocks (put_blocks ws p) = num_blocks p + length ws"
  "compress_pos (put_blocks ws p) = compress_pos p" "v6_block (put_blocks ws p) = v6_block p"
  "v6_empty (put_blocks ws p) = v6_empty p"
  "put_blocks ws (p\<lparr>compress_pos := c\<rparr>) = (put_blocks ws p)\<lparr>compress_pos := c\<rparr>"
  by (simp_all add: put_blocks_def)

lemma put_blocks_length:
  "length (v6_bytes p) = 16 \<Longrightarrow> num_blocks p + length ws \<le> 8 \<Longrightarrow> length (v6_bytes (put_blocks ws p)) = 16"
  by (auto simp: put_blocks_def min_def)

lemma ready_put: "ready p \<Longrightarrow> num_blocks p + length ws \<le> 8 \<Longrightarrow> ready (put_blocks ws p)"
  by (simp add: ready_def put_blocks_length)

lemma list_update_pair: "k + 1 < length m \<Longrightarrow> m[k := a, k + 1 := b] = take k m @ [a, b] @ drop (k + 2) m"
proof (induction k arbitrary: m)
  case 0
  then show ?case by (cases m; cases "tl m") auto
next
  case (Suc k)
  then show ?case by (cases m) auto
qed

lemma store_block_put:
  assumes "ready p" "num_blocks p \<le> 7"
  shows "store_block (p\<lparr>v6_block := w, v6_empty := False\<rparr>) = Some ((put_blocks [w] p)\<lparr>v6_block := w, v6_empty := False\<rparr>)"
proof -
  let ?k = "2 * num_blocks p" and ?m = "v6_bytes p"
  have l: "?k + 1 < length ?m" using assms by (simp add: ready_def)
  have "?m[?k := a, ?k + 1 := b] = take ?k ?m @ [a, b] @ drop (?k + 2) ?m" for a b
    by (rule list_update_pair) (rule l)
  then show ?thesis using l by (simp add: store_block_def put_blocks_def blk_bytes_def)
qed

lemma parse6_block:
  assumes "ready p"
  shows "parse6_loop (pre @ hex_str (unat w) @ rest) (length pre) p =
    parse6_loop (pre @ hex_str (unat w) @ rest) (length pre + length (hex_str (unat w))) (p\<lparr>v6_block := w, v6_empty := False\<rparr>)"
  using parse6_digits [of "hex_str (unat w)" p pre rest] hex_str_digits [of "unat w"] assms unat_u16_lt [of w]
  by (simp add: ready_def)

lemma parse6_colon:
  assumes "ready p" "num_blocks p < 7" "pre \<noteq> []" "rest = [] \<or> hd rest \<noteq> CHR '':''"
  shows "parse6_loop (pre @ '':'' @ rest) (length pre) (p\<lparr>v6_block := w, v6_empty := False\<rparr>) =
    parse6_loop (pre @ '':'' @ rest) (length pre + 1) (put_blocks [w] p)"
proof -
  have q: "(put_blocks [w] p)\<lparr>v6_block := 0, v6_empty := True\<rparr> = put_blocks [w] p"
    using assms(1) by (simp add: ready_def put_blocks_def)
  have d: "\<not> (length pre + 1 < length (pre @ '':'' @ rest) \<and> (pre @ '':'' @ rest) ! (length pre + 1) = CHR '':'')"
    using assms(4) by (cases rest) (auto simp: nth_append)
  show ?thesis using assms(2,3) store_block_put [OF assms(1)] q d
    by (subst parse6_loop.simps) (auto simp: Let_def nth_append)
qed

lemma parse6_double_colon:
  assumes "ready p" "num_blocks p < 7" "pre \<noteq> []" "compress_pos p = None"
  shows "parse6_loop (pre @ ''::'' @ rest) (length pre) (p\<lparr>v6_block := w, v6_empty := False\<rparr>) =
    parse6_loop (pre @ ''::'' @ rest) (length pre + 2) ((put_blocks [w] p)\<lparr>compress_pos := Some (num_blocks p + 1)\<rparr>)"
proof -
  have q: "(put_blocks [w] p)\<lparr>v6_block := 0, v6_empty := True\<rparr> = put_blocks [w] p"
    using assms(1) by (simp add: ready_def put_blocks_def)
  show ?thesis using assms(2,3,4) store_block_put [OF assms(1)] q
    by (subst parse6_loop.simps) (simp add: Let_def nth_append)
qed

lemma join_head: "ws \<noteq> [] \<Longrightarrow> \<exists>c t. blocks_str ws = c # t \<and> c \<noteq> CHR '':''"
proof -
  assume "ws \<noteq> []"
  then obtain w ws' where ws: "ws = w # ws'" by (cases ws) auto
  obtain c t where c: "hex_str (unat w) = c # t" using hex_str_digits [of "unat w"] by (meson neq_Nil_conv)
  then have "c \<noteq> CHR '':''" using hex_str_digits [of "unat w"] hex_digit_plain [of c] by simp
  then show ?thesis using c ws by (cases ws') auto
qed

text \<open>The blocks in front of a double colon, and the last blocks of an address.\<close>

lemma parse6_front:
  assumes "ready p" "num_blocks p + length ws \<le> 7" "ws \<noteq> []" "compress_pos p = None"
  shows "parse6_loop (pre @ blocks_str ws @ ''::'' @ rest) (length pre) p =
    parse6_loop (pre @ blocks_str ws @ ''::'' @ rest) (length pre + length (blocks_str ws) + 2)
      ((put_blocks ws p)\<lparr>compress_pos := Some (num_blocks p + length ws)\<rparr>)"
  using assms
proof (induction ws arbitrary: pre p)
  case (Cons w ws)
  let ?h = "hex_str (unat w)" and ?q = "put_blocks [w] p"
  have h: "?h \<noteq> []" using hex_str_digits by blast
  have q: "ready ?q" using ready_put [OF Cons.prems(1), of "[w]"] Cons.prems(2) by simp
  show ?case
  proof (cases ws)
    case Nil
    then show ?thesis
      using parse6_block [OF Cons.prems(1), of pre w "''::'' @ rest"] parse6_double_colon [OF Cons.prems(1), of "pre @ ?h" rest w]
        Cons.prems(2,4) h by simp
  next
    case (Cons v vs)
    then obtain c t where ct: "blocks_str ws = c # t" "c \<noteq> CHR '':''" using join_head [of ws] by auto
    have b: "blocks_str (w # ws) = ?h @ '':'' @ blocks_str ws" using Cons by simp
    have "parse6_loop (pre @ blocks_str (w # ws) @ ''::'' @ rest) (length pre) p =
        parse6_loop (pre @ blocks_str (w # ws) @ ''::'' @ rest) (length (pre @ ?h @ '':'')) ?q"
      using parse6_block [OF Cons.prems(1), of pre w "'':'' @ blocks_str ws @ ''::'' @ rest"]
        parse6_colon [OF Cons.prems(1), of "pre @ ?h" "blocks_str ws @ ''::'' @ rest" w] Cons.prems(2) Cons h ct b
      by simp
    also have "\<dots> = parse6_loop (pre @ blocks_str (w # ws) @ ''::'' @ rest)
        (length (pre @ ?h @ '':'') + length (blocks_str ws) + 2) ((put_blocks ws ?q)\<lparr>compress_pos := Some (num_blocks ?q + length ws)\<rparr>)"
      using Cons.IH [OF q, of "pre @ ?h @ '':''"] Cons.prems(2,4) Cons b by simp
    finally show ?thesis using b put_blocks_Cons [of p w ws] Cons.prems(1,2) by (simp add: ready_def add.assoc)
  qed
qed simp

lemma parse6_rear:
  assumes "ready p" "num_blocks p + length ws \<le> 8" "ws \<noteq> []"
  shows "\<exists>q. parse6_loop (pre @ blocks_str ws) (length pre) p = Some (Some (q, End6)) \<and> \<not> v6_empty q \<and>
    (\<exists>w. store_block q = Some ((put_blocks ws p)\<lparr>v6_block := w, v6_empty := False\<rparr>))"
  using assms
proof (induction ws arbitrary: pre p)
  case (Cons w ws)
  let ?h = "hex_str (unat w)" and ?q = "put_blocks [w] p"
  have h: "?h \<noteq> []" using hex_str_digits by blast
  have q: "ready ?q" using ready_put [OF Cons.prems(1), of "[w]"] Cons.prems(2) by simp
  show ?case
  proof (cases ws)
    case Nil
    have "parse6_loop (pre @ ?h) (length pre) p = Some (Some (p\<lparr>v6_block := w, v6_empty := False\<rparr>, End6))"
      using parse6_block [OF Cons.prems(1), of pre w "[]"] by (subst (asm) (2) parse6_loop.simps) simp
    then show ?thesis using Nil store_block_put [OF Cons.prems(1), of w] Cons.prems(2) by auto
  next
    case (Cons v vs)
    then obtain c t where ct: "blocks_str ws = c # t" "c \<noteq> CHR '':''" using join_head [of ws] by auto
    have b: "blocks_str (w # ws) = ?h @ '':'' @ blocks_str ws" using Cons by simp
    have "parse6_loop (pre @ blocks_str (w # ws)) (length pre) p =
        parse6_loop ((pre @ ?h @ '':'') @ blocks_str ws) (length (pre @ ?h @ '':'')) ?q"
      using parse6_block [OF Cons.prems(1), of pre w "'':'' @ blocks_str ws"]
        parse6_colon [OF Cons.prems(1), of "pre @ ?h" "blocks_str ws" w] Cons.prems(2) Cons h ct b
      by simp
    moreover have "put_blocks (w # ws) p = put_blocks ws ?q"
      using put_blocks_Cons [of p w ws] Cons.prems(1,2) by (simp add: ready_def)
    ultimately show ?thesis using Cons.IH [OF q, of "pre @ ?h @ '':''"] Cons.prems(2) Cons by auto
  qed
qed simp

section \<open>Reading back a printed address\<close>

abbreviation parse6_start :: "bytes \<Rightarrow> parse6" where
  "parse6_start out \<equiv> \<lparr>v6_bytes = out, num_blocks = 0, compress_pos = None, v6_block = 0, v6_empty = True\<rparr>"

lemma ready_start: "length out = 16 \<Longrightarrow> ready (parse6_start out)"
  by (simp add: ready_def)

lemma parse6_all:
  assumes "length out = 16" "length ws = 8"
  shows "ipaddr6_parse_ipv6_addr (blocks_str ws) out = Some (Some (concat (map blk_bytes ws)))"
proof -
  let ?p = "parse6_start out"
  have "ws \<noteq> []" using assms(2) by auto
  with parse6_rear [OF ready_start [OF assms(1)], of ws "[]"] assms(2) obtain q w where
    q: "parse6_loop (blocks_str ws) 0 ?p = Some (Some (q, End6))" "\<not> v6_empty q"
      "store_block q = Some ((put_blocks ws ?p)\<lparr>v6_block := w, v6_empty := False\<rparr>)" by auto
  let ?t = "(put_blocks ws ?p)\<lparr>v6_block := w, v6_empty := False\<rparr>"
  have "parse6_done ?t = Some (Some (concat (map blk_bytes ws)))"
    using parse6_done_value [of ?t 0] assms by (simp add: put_blocks_def)
  then show ?thesis using q by (simp add: ipaddr6_parse_ipv6_addr_def)
qed

lemma parse6_compressed:
  assumes "length out = 16" "length fs + length rs \<le> 6"
  shows "ipaddr6_parse_ipv6_addr (blocks_str fs @ ''::'' @ blocks_str rs) out =
    Some (Some (concat (map blk_bytes fs) @ replicate (2 * (8 - (length fs + length rs))) 0 @ concat (map blk_bytes rs)))"
proof -
  let ?p = "parse6_start out" and ?f = "length fs" and ?name = "blocks_str fs @ ''::'' @ blocks_str rs"
  let ?q = "(put_blocks fs ?p)\<lparr>compress_pos := Some ?f\<rparr>"
  have start: "parse6_loop ?name 0 ?p = parse6_loop ?name (length (blocks_str fs @ ''::'')) ?q"
  proof (cases "fs = []")
    case True
    then show ?thesis by (subst parse6_loop.simps) (simp add: numeral_2_eq_2)
  next
    case False
    then show ?thesis using parse6_front [OF ready_start [OF assms(1)], of fs "[]" "blocks_str rs"] assms(2) by simp
  qed
  have q: "ready ?q" using ready_put [OF ready_start [OF assms(1)], of fs] assms(2) by (simp add: ready_def)
  have fin: "parse6_done t = Some (Some (concat (map blk_bytes fs) @ replicate (2 * (8 - (?f + length rs))) 0 @ concat (map blk_bytes rs)))"
    if "v6_bytes t = v6_bytes (put_blocks rs ?q)" "num_blocks t = ?f + length rs" "compress_pos t = Some ?f" for t
  proof -
    have l: "length (v6_bytes t) = 16" using that(1) put_blocks_length [of ?q rs] q assms(2) by (simp add: ready_def)
    have n: "num_blocks t \<le> 8" "\<not> (compress_pos t = None \<and> num_blocks t \<noteq> 8)"
      "?f = (case compress_pos t of None \<Rightarrow> 0 | Some c \<Rightarrow> c)" "?f \<le> num_blocks t" "num_blocks t - ?f = length rs"
      using that(2,3) assms(2) by simp_all
    have "take (2 * ?f) (v6_bytes t) = concat (map blk_bytes fs)"
      "take (2 * length rs) (drop (2 * ?f) (v6_bytes t)) = concat (map blk_bytes rs)"
      using that(1) assms by (simp_all add: put_blocks_def)
    then show ?thesis using parse6_done_value [OF l n(1-4)] unfolding n(5) that(2) by simp
  qed
  show ?thesis
  proof (cases "rs = []")
    case True
    then have "parse6_loop ?name 0 ?p = Some (Some (?q, End6))" using start by (subst (asm) (2) parse6_loop.simps) simp
    then show ?thesis using fin [of ?q] q True by (simp add: ipaddr6_parse_ipv6_addr_def ready_def)
  next
    case False
    from parse6_rear [OF q, of rs "blocks_str fs @ ''::''"] False assms(2) obtain u w where
      u: "parse6_loop ?name (length (blocks_str fs @ ''::'')) ?q = Some (Some (u, End6))" "\<not> v6_empty u"
        "store_block u = Some ((put_blocks rs ?q)\<lparr>v6_block := w, v6_empty := False\<rparr>)" by auto
    then show ?thesis using start fin [of "(put_blocks rs ?q)\<lparr>v6_block := w, v6_empty := False\<rparr>"]
      by (simp add: ipaddr6_parse_ipv6_addr_def)
  qed
qed

section \<open>The printed form of an IPv6 address\<close>

lemma blk_bytes_addr: "blk_bytes (addr_block a i) = [a ! (2 * i), a ! (2 * i + 1)]"
proof -
  have ff: "(0xFF :: u16) = mask 8" by (simp add: mask_eq_exp_minus_1)
  have "ucast (drop_bit 8 (push_bit 8 (ucast x) OR ucast y :: u16)) = x" "ucast ((push_bit 8 (ucast x) OR ucast y :: u16) AND 0xFF) = y"
    for x y :: u8
    unfolding ff by (rule bit_word_eqI; auto simp: bit_simps)+
  then show ?thesis by (simp add: blk_bytes_def addr_block_def)
qed

lemma addr_blocks:
  assumes "length a = 16" shows "concat (map (\<lambda>i. blk_bytes (addr_block a i)) [0..<8]) = a"
proof -
  have "2 * n \<le> length a \<Longrightarrow> concat (map (\<lambda>i. blk_bytes (addr_block a i)) [0..<n]) = take (2 * n) a" for n
    by (induction n) (auto simp: blk_bytes_addr take_Suc_conv_app_nth)
  from this [of 8] show ?thesis using assms by simp
qed

definition zero_run_ok :: "bytes \<Rightarrow> nat \<Rightarrow> zero_run \<Rightarrow> bool" where
  "zero_run_ok a i z \<longleftrightarrow>
     largest_start z + largest_len z \<le> i \<and> current_start z + current_len z = i \<and>
     (\<forall>j. largest_start z \<le> j \<and> j < largest_start z + largest_len z \<longrightarrow> a ! (2 * j) = 0 \<and> a ! (2 * j + 1) = 0) \<and>
     (\<forall>j. current_start z \<le> j \<and> j < i \<longrightarrow> a ! (2 * j) = 0 \<and> a ! (2 * j + 1) = 0)"

lemma zero_run_step_ok: "zero_run_ok a i z \<Longrightarrow> zero_run_ok a (Suc i) (zero_run_step a i z)"
  by (auto simp: zero_run_ok_def zero_run_step_def Let_def less_Suc_eq)

lemma find_zero_run_ok: "zero_run_ok a 8 (find_zero_run a)"
proof -
  have "zero_run_ok a n (fold (zero_run_step a) [0..<n] \<lparr>largest_start = 0, largest_len = 0, current_start = 0, current_len = 0\<rparr>)" for n
    by (induction n) (simp_all add: zero_run_ok_def [of _ 0] zero_run_step_ok)
  then show ?thesis unfolding find_zero_run_def .
qed

lemma concat_trailing_colon: "concat (map (\<lambda>x. f x @ '':'') xs) = (if xs = [] then [] else join (map f xs) @ '':'')"
proof (induction xs)
  case (Cons x xs)
  then show ?case by (cases xs) auto
qed simp

lemma concat_leading_colon: "concat (map (\<lambda>x. CHR '':'' # f x) xs) = (if xs = [] then [] else '':'' @ join (map f xs))"
proof (induction xs)
  case (Cons x xs)
  then show ?case by (cases xs) auto
qed simp

lemma print_addr_blocks:
  "ipaddr6_print_addr a =
     (let z = find_zero_run a
      in if largest_len z > 1
         then blocks_str (map (addr_block a) [0..<largest_start z]) @ ''::'' @
              blocks_str (map (addr_block a) [largest_start z + largest_len z..<8])
         else blocks_str (map (addr_block a) [0..<8]))"
proof (cases "largest_len (find_zero_run a) > 1")
  case True
  define s l where "s = largest_start (find_zero_run a)" and "l = largest_len (find_zero_run a)"
  have "s + l \<le> 8" using find_zero_run_ok [of a] by (simp add: zero_run_ok_def s_def l_def)
  then show ?thesis using True
    by (simp add: ipaddr6_print_addr_def Let_def concat_trailing_colon concat_leading_colon o_def
        del: upt_Suc flip: s_def l_def)
next
  case False
  have "[0..<8] = (0 :: nat) # [1..<8]" by (simp add: upt_rec)
  then show ?thesis using False
    by (simp add: ipaddr6_print_addr_def Let_def concat_leading_colon o_def upt_rec)
qed

lemma parse6_print:
  assumes "length a = 16" "length out = 16"
  shows "ipaddr6_parse_ipv6_addr (ipaddr6_print_addr a) out = Some (Some a)"
proof (cases "largest_len (find_zero_run a) > 1")
  case False
  then show ?thesis using parse6_all [OF assms(2), of "map (addr_block a) [0..<8]"] addr_blocks [OF assms(1)]
    by (simp add: print_addr_blocks o_def del: upt_Suc)
next
  case True
  define s l where "s = largest_start (find_zero_run a)" and "l = largest_len (find_zero_run a)"
  have z: "s + l \<le> 8" "l > 1" "\<forall>j. s \<le> j \<and> j < s + l \<longrightarrow> a ! (2 * j) = 0 \<and> a ! (2 * j + 1) = 0"
    using True find_zero_run_ok [of a] by (simp_all add: zero_run_ok_def s_def l_def)
  let ?B = "\<lambda>is. concat (map (\<lambda>i. blk_bytes (addr_block a i)) is)"
  have zeros: "?B [m..<m + k] = replicate (2 * k) 0" if "\<forall>j. m \<le> j \<and> j < m + k \<longrightarrow> a ! (2 * j) = 0 \<and> a ! (2 * j + 1) = 0" for m k
    using that
  proof (induction k)
    case (Suc k)
    have "blk_bytes (addr_block a (m + k)) = [0, 0]"
      using Suc.prems [rule_format, of "m + k"] by (simp add: blk_bytes_addr)
    then show ?case using Suc by (simp add: replicate_append_same flip: append_Cons) (simp add: replicate_app_Cons_same)
  qed simp
  have "a = ?B [0..<s] @ ?B [s..<s + l] @ ?B [s + l..<8]"
  proof -
    have "[0..<8] = [0..<s] @ [s..<s + l] @ [s + l..<8]"
      using z(1) upt_add_eq_append [of 0 s "8 - s"] upt_add_eq_append [of s "s + l" "8 - (s + l)"] by simp
    then show ?thesis using addr_blocks [OF assms(1)] by (simp only: map_append concat_append)
  qed
  also have "?B [s..<s + l] = replicate (2 * l) 0" by (rule zeros [OF z(3)])
  finally have a: "?B [0..<s] @ replicate (2 * l) 0 @ ?B [s + l..<8] = a" by simp
  have "8 - (s + (8 - (s + l))) = l" using z(1) by simp
  then show ?thesis
    using parse6_compressed [OF assms(2), of "map (addr_block a) [0..<s]" "map (addr_block a) [s + l..<8]"] z(1,2) a True
    by (simp add: print_addr_blocks Let_def o_def flip: s_def l_def)
qed

section \<open>IPv4\<close>

lemma dec_str_no_dot: "c \<in> set (dec_str n) \<Longrightarrow> c \<noteq> CHR ''.'' \<and> c \<noteq> CHR ''/''"
  using dec_str_digits [of n] by (auto simp: list_all_iff dec_digit_def)

lemma dec_str_octet_length: "n < 256 \<Longrightarrow> 1 \<le> length (dec_str n) \<and> length (dec_str n) \<le> 3"
  by (simp add: dec_str.simps [of n] dec_str.simps [of "n div 10"] dec_str.simps [of "n div 10 div 10"])

lemma takeWhile_dec_str:
  "takeWhile (\<lambda>c. c \<noteq> CHR ''.'') (dec_str n @ CHR ''.'' # rest) = dec_str n"
  "takeWhile (\<lambda>c. c \<noteq> CHR ''.'') (dec_str n) = dec_str n"
  using dec_str_no_dot [of _ n] by (auto simp: takeWhile_append2 takeWhile_eq_all_conv)

lemma parse_octet:
  "parse_unsigned_integer (dec_str (unat (b :: u8))) = Some (ucast b)"
proof -
  have "unat b < 2 ^ 64" using unat_u8_lt [of b] by simp
  then show ?thesis by (simp add: parse_unsigned_integer_value dec_str_digits dec_str_value)
qed

lemma octet_range: "\<not> (ucast (b :: u8) :: u64) > 255" "ucast (ucast b :: u64) = b"
proof -
  have "unat (ucast b :: u64) = unat b" using unat_u8_lt [of b] by (simp add: unsigned_ucast_eq take_bit_nat_eq_self)
  then show "\<not> (ucast b :: u64) > 255" using unat_u8_lt [of b] by (simp add: word_less_nat_alt)
  show "ucast (ucast b :: u64) = b" by (rule bit_word_eqI) (auto simp: bit_simps)
qed

lemma parse_octets_step:
  "i < 3 \<Longrightarrow> parse_octets i (dec_str (unat b) @ CHR ''.'' # rest) = map_option ((#) b) (parse_octets (i + 1) rest)"
  using dec_str_octet_length [OF unat_u8_lt, of b] parse_octet [of b] octet_range [of b]
  by (subst parse_octets.simps) (simp add: takeWhile_dec_str Let_def o_def)

lemma parse_octets_last: "parse_octets 3 (dec_str (unat b)) = Some [b]"
  using dec_str_octet_length [OF unat_u8_lt, of b] parse_octet [of b] octet_range [of b]
  by (subst parse_octets.simps) (simp add: takeWhile_dec_str Let_def)

lemma parse4_print: "ipaddr_parse_ipv4_addr (ipaddr_print_addr x) = Some x"
proof -
  have "parse_octets 0 (ipaddr_print_addr x) = Some (store32 x)"
    using parse_octets_last [of "store32 x ! 3"]
    by (simp add: ipaddr_print_addr_def Let_def parse_octets_step numeral_2_eq_2 numeral_3_eq_3) (simp add: store32_def)
  then show ?thesis by (simp add: ipaddr_parse_ipv4_addr_def)
qed

section \<open>Addresses with a prefix\<close>

lemma takeWhile_until: "c \<notin> set s \<Longrightarrow> takeWhile (\<lambda>x. x \<noteq> c) (s @ c # t) = s"
  by (induction s) auto

lemma FindChar_append: "c \<notin> set s \<Longrightarrow> MemRef_FindChar (s @ c # t) c = Some (length s)"
  by (simp add: MemRef_FindChar_def takeWhile_until)

lemma parse_prefix_print:
  "n < 2 ^ 64 \<Longrightarrow> parse_unsigned_integer (dec_str n) = Some (word_of_nat n)"
  by (simp add: parse_unsigned_integer_value dec_str_digits dec_str_value)

lemma print4_no_slash: "CHR ''/'' \<notin> set (ipaddr_print_addr x)"
  using dec_str_no_dot by (auto simp: ipaddr_print_addr_def Let_def)

lemma print6_no_slash: "CHR ''/'' \<notin> set (ipaddr6_print_addr a)"
proof -
  have h: "CHR ''/'' \<notin> set (hex_str n)" for n
    using hex_str_digits [of n] by (auto simp: list_all_iff hex_digit_def)
  have "CHR ''/'' \<notin> set (join xs)" if "\<forall>x \<in> set xs. CHR ''/'' \<notin> set x" for xs
    using that by (induction xs rule: join.induct) auto
  then have "CHR ''/'' \<notin> set (blocks_str ws)" for ws using h by auto
  then show ?thesis by (auto simp: print_addr_blocks Let_def simp del: map_map)
qed

lemma parse4_ifaddr_print:
  "v4_prefix a \<le> 32 \<Longrightarrow> ipaddr_parse_ipv4_ifaddr (ipaddr_print_addr (v4_addr a) @ ''/'' @ dec_str (v4_prefix a)) = Some a"
  using FindChar_append [OF print4_no_slash] parse_prefix_print [of "v4_prefix a"]
  by (simp add: ipaddr_parse_ipv4_ifaddr_def parse4_print ipaddr_parse_ipv4_prefix_def word_less_nat_alt unat_of_nat
      take_bit_nat_eq_self)

lemma parse6_ifaddr_print:
  assumes "ifaddr6_prefix a \<le> 128" "length (ifaddr6_addr a) = 16" "length out = 16"
  shows "ipaddr6_parse_ipv6_ifaddr (ipaddr6_print_addr (ifaddr6_addr a) @ ''/'' @ dec_str (ifaddr6_prefix a)) out = Some (Some a)"
  using FindChar_append [OF print6_no_slash] parse_prefix_print [of "ifaddr6_prefix a"] assms
  by (simp add: ipaddr6_parse_ipv6_ifaddr_def parse6_print ipaddr6_parse_ipv6_prefix_def word_less_nat_alt unat_of_nat
      take_bit_nat_eq_self)

section \<open>Masks\<close>

lemma bit_high_bits:
  "n \<le> LENGTH('a) \<Longrightarrow> bit (high_bits LENGTH('a) n :: 'a::len word) k \<longleftrightarrow> LENGTH('a) - n \<le> k \<and> k < LENGTH('a)"
  by (induction n) (auto simp: bit_simps)

lemma high_bits_inj:
  assumes "m \<le> LENGTH('a)" "n \<le> LENGTH('a)" "high_bits LENGTH('a) m = (high_bits LENGTH('a) n :: 'a::len word)"
  shows "m = n"
proof -
  have "\<not> i < j" if "i \<le> LENGTH('a)" "j \<le> LENGTH('a)" "high_bits LENGTH('a) i = (high_bits LENGTH('a) j :: 'a word)" for i j
  proof
    assume "i < j"
    then have "bit (high_bits LENGTH('a) j :: 'a word) (LENGTH('a) - j)" "\<not> bit (high_bits LENGTH('a) i :: 'a word) (LENGTH('a) - j)"
      using that(1,2) by (auto simp: bit_high_bits)
    then show False using that(3) by simp
  qed
  from this [OF assms] this [OF assms(2,1) assms(3) [symmetric]] show ?thesis by linarith
qed

lemma find_high_bits_iff:
  "find_high_bits LENGTH('a) (m :: 'a::len word) = Some n \<longleftrightarrow> n \<le> LENGTH('a) \<and> m = high_bits LENGTH('a) n"
proof -
  have found: "k \<le> LENGTH('a) \<and> m = high_bits LENGTH('a) k" if "find_high_bits LENGTH('a) m = Some k" for k
  proof -
    from that have "k \<in> set [0..<LENGTH('a) + 1]" "m = high_bits LENGTH('a) k"
      unfolding find_high_bits_def by (auto simp: find_Some_iff in_set_conv_nth simp del: upt_Suc)
    then show ?thesis by auto
  qed
  have "find_high_bits LENGTH('a) m \<noteq> None" if "n \<le> LENGTH('a)" "m = high_bits LENGTH('a) n"
    using that by (auto simp: find_high_bits_def find_None_iff less_Suc_eq_le simp del: upt_Suc)
  then show ?thesis using found high_bits_inj [where ?'a = 'a] by (metis option.exhaust)
qed

lemma mask4_iff: "ipaddr_ipv4_prefix_from_mask m = Some p \<longleftrightarrow> ipaddr_ipv4_mask_from_prefix p = Some m"
proof -
  have "ntoh32 m = high_bits 32 p \<longleftrightarrow> hton32 (high_bits 32 p) = m" by (metis hton32_involution ntoh32_def)
  then show ?thesis
    using find_high_bits_iff [where ?'a = 32, of "ntoh32 m" p]
    by (auto simp: ipaddr_ipv4_prefix_from_mask_def ipaddr_ipv4_mask_from_prefix_def)
qed

lemma high_bits8_full: "n \<le> 8 \<Longrightarrow> high_bits 8 n = (0xFF :: u8) \<longleftrightarrow> n = 8"
proof -
  assume "n \<le> 8"
  moreover have "high_bits 8 8 = (0xFF :: u8)" by (simp add: numeral_eq_Suc)
  ultimately show ?thesis using high_bits_inj [where ?'a = 8, of n 8] by auto
qed

text \<open>The bytes of an IPv6 mask.\<close>

definition mask6 :: "nat \<Rightarrow> bytes" where
  "mask6 p = replicate (p div 8) 0xFF @ (if p < 128 then high_bits 8 (p mod 8) # replicate (15 - p div 8) 0 else [])"

lemma mask6_from_prefix: "ipaddr6_ipv6_mask_from_prefix p = (if p \<le> 128 then Some (mask6 p) else None)"
proof (cases "p < 128")
  case True
  then have q: "p div 8 < 16" by simp
  then have "16 - p div 8 = Suc (15 - p div 8)" by simp
  then have r: "replicate (16 - p div 8) (0 :: u8) = 0 # replicate (15 - p div 8) 0" by simp
  show ?thesis using True q by (auto simp: ipaddr6_ipv6_mask_from_prefix_def mask6_def Let_def r nth_append list_update_append)
next
  case False
  then show ?thesis by (auto simp: ipaddr6_ipv6_mask_from_prefix_def mask6_def Let_def)
qed

lemma takeWhile_replicate_Cons: "x \<noteq> c \<Longrightarrow> takeWhile (\<lambda>b. b = c) (replicate n c @ x # xs) = replicate n c"
  by (induction n) auto

lemma mask6_prefix: "p \<le> 128 \<Longrightarrow> ipaddr6_ipv6_prefix_from_mask (mask6 p) = Some p"
proof (cases "p < 128")
  case True
  have r: "p mod 8 < 8" by simp
  then have "high_bits 8 (p mod 8) \<noteq> (0xFF :: u8)" using high_bits8_full [of "p mod 8"] by simp
  then have "takeWhile (\<lambda>b. b = 0xFF) (mask6 p) = replicate (p div 8) 0xFF"
    using True by (simp add: mask6_def takeWhile_replicate_Cons)
  moreover have "find_high_bits 8 (high_bits 8 (p mod 8) :: u8) = Some (p mod 8)"
    using find_high_bits_iff [where ?'a = 8, of "high_bits 8 (p mod 8)" "p mod 8"] by (simp add: less_imp_le)
  moreover have "p div 8 < 16" using True by simp
  ultimately show ?thesis using True
    by (simp add: ipaddr6_ipv6_prefix_from_mask_def mask6_def Let_def nth_append list_all_iff)
next
  case False
  moreover assume "p \<le> 128"
  ultimately show ?thesis by (simp add: ipaddr6_ipv6_prefix_from_mask_def mask6_def Let_def)
qed

lemma all_const_replicate: "list_all (\<lambda>b. b = c) xs \<longleftrightarrow> xs = replicate (length xs) c"
  by (induction xs) auto

lemma prefix6_mask:
  assumes "length m = 16" "ipaddr6_ipv6_prefix_from_mask m = Some p"
  shows "p \<le> 128 \<and> m = mask6 p"
proof -
  define i where "i = length (takeWhile (\<lambda>b. b = 0xFF) m)"
  have t: "take i m = replicate i 0xFF"
    using set_takeWhileD [of _ "\<lambda>b. b = 0xFF" m] unfolding i_def takeWhile_eq_take [symmetric]
    by (metis replicate_length_same)
  have le: "i \<le> 16" using assms(1) length_takeWhile_le [of _ m] by (simp add: i_def)
  show ?thesis
  proof (cases "i < 16")
    case False
    then show ?thesis using assms t le by (auto simp: ipaddr6_ipv6_prefix_from_mask_def Let_def mask6_def simp flip: i_def)
  next
    case True
    then obtain j where j: "find_high_bits 8 (m ! i) = Some j" "list_all (\<lambda>b. b = 0) (drop (i + 1) m)" "p = 8 * i + j"
      using assms(2) by (auto simp: ipaddr6_ipv6_prefix_from_mask_def Let_def simp flip: i_def split: option.splits if_splits)
    have h: "j \<le> 8" "m ! i = high_bits 8 j" using j(1) find_high_bits_iff [where ?'a = 8, of "m ! i" j] by simp_all
    have "m ! i \<noteq> 0xFF" using nth_length_takeWhile [of "\<lambda>b. b = 0xFF" m] True assms(1) by (simp flip: i_def)
    then have "j < 8" using h high_bits8_full [of j] by auto
    moreover have "drop (i + 1) m = replicate (15 - i) 0" using j(2) assms(1) all_const_replicate [of 0 "drop (i + 1) m"] by simp
    moreover have "m = take i m @ m ! i # drop (i + 1) m" using id_take_nth_drop [of i m] True assms(1) by simp
    ultimately show ?thesis using True j(3) h(2) t by (simp add: mask6_def)
  qed
qed

lemma mask6_iff:
  "length m = 16 \<Longrightarrow> ipaddr6_ipv6_prefix_from_mask m = Some p \<longleftrightarrow> ipaddr6_ipv6_mask_from_prefix p = Some m"
  using mask6_prefix prefix6_mask by (auto simp: mask6_from_prefix split: if_splits)

section \<open>Networks\<close>

text \<open>The bits of a byte string, most significant first.\<close>

definition byte_bits :: "u8 \<Rightarrow> bool list" where
  "byte_bits b = map (\<lambda>i. bit b (7 - i)) [0..<8]"

definition addr_bits :: "bytes \<Rightarrow> bool list" where
  "addr_bits a = concat (map byte_bits a)"

lemma and_high_bits:
  assumes "n \<le> LENGTH('a)"
  shows "(a :: 'a::len word) AND high_bits LENGTH('a) n = b AND high_bits LENGTH('a) n \<longleftrightarrow>
    drop_bit (LENGTH('a) - n) a = drop_bit (LENGTH('a) - n) b"
proof
  assume e: "a AND high_bits LENGTH('a) n = b AND high_bits LENGTH('a) n"
  show "drop_bit (LENGTH('a) - n) a = drop_bit (LENGTH('a) - n) b"
  proof (rule bit_word_eqI)
    fix k
    have "bit (a AND high_bits LENGTH('a) n) (LENGTH('a) - n + k) = bit (b AND high_bits LENGTH('a) n) (LENGTH('a) - n + k)"
      by (simp only: e)
    then show "bit (drop_bit (LENGTH('a) - n) a) k = bit (drop_bit (LENGTH('a) - n) b) k"
      using assms by (auto simp: bit_simps bit_high_bits dest: bit_imp_le_length)
  qed
next
  assume e: "drop_bit (LENGTH('a) - n) a = drop_bit (LENGTH('a) - n) b"
  show "a AND high_bits LENGTH('a) n = b AND high_bits LENGTH('a) n"
  proof (rule bit_word_eqI)
    fix k
    have "bit (drop_bit (LENGTH('a) - n) a) (k - (LENGTH('a) - n)) = bit (drop_bit (LENGTH('a) - n) b) (k - (LENGTH('a) - n))"
      by (simp only: e)
    then show "bit (a AND high_bits LENGTH('a) n) k = bit (b AND high_bits LENGTH('a) n) k"
      using assms by (auto simp: bit_simps bit_high_bits)
  qed
qed

lemma hton32_and: "hton32 (x AND y) = hton32 x AND hton32 y"
  by (rule bit_word_eqI) (auto simp: hton32_def badvpn_reverse32_def store_defs read_write_defs bit_simps)

lemma network4:
  assumes "p \<le> 32"
  shows "ipaddr_ipv4_addrs_in_network a b p = Some (drop_bit (32 - p) (ntoh32 a) = drop_bit (32 - p) (ntoh32 b))"
proof -
  have "a AND hton32 (high_bits 32 p) = b AND hton32 (high_bits 32 p) \<longleftrightarrow>
      hton32 (a AND hton32 (high_bits 32 p)) = hton32 (b AND hton32 (high_bits 32 p))"
    by (metis hton32_involution)
  also have "\<dots> \<longleftrightarrow> ntoh32 a AND high_bits 32 p = ntoh32 b AND high_bits 32 p"
    by (simp add: hton32_and ntoh32_def)
  also have "\<dots> \<longleftrightarrow> drop_bit (32 - p) (ntoh32 a) = drop_bit (32 - p) (ntoh32 b)"
    using and_high_bits [where ?'a = 32, of p "ntoh32 a" "ntoh32 b"] assms by simp
  finally show ?thesis using assms
    by (simp add: ipaddr_ipv4_addrs_in_network_def ipaddr_ipv4_mask_from_prefix_def)
qed

lemma length_byte_bits [simp]: "length (byte_bits b) = 8"
  by (simp add: byte_bits_def)

lemma length_addr_bits [simp]: "length (addr_bits a) = 8 * length a"
  by (induction a) (simp_all add: addr_bits_def)

lemma addr_bits_append: "addr_bits (a @ b) = addr_bits a @ addr_bits b"
  by (simp add: addr_bits_def)

lemma take_byte_bits:
  assumes "r \<le> 8" shows "take r (byte_bits x) = take r (byte_bits y) \<longleftrightarrow> x AND high_bits 8 r = y AND high_bits 8 r"
proof -
  have "take r (byte_bits x) = take r (byte_bits y) \<longleftrightarrow> (\<forall>i < r. bit x (7 - i) = bit y (7 - i))"
    using assms by (simp add: byte_bits_def list_eq_iff_nth_eq del: upt_Suc)
  also have "\<dots> \<longleftrightarrow> (\<forall>k. 8 - r \<le> k \<and> k < 8 \<longrightarrow> bit x k = bit y k)"
  proof safe
    fix k assume "\<forall>i < r. bit x (7 - i) = bit y (7 - i)" "8 - r \<le> k" "k < 8"
    from this(1) [rule_format, of "7 - k"] this(2,3) show "bit x k \<Longrightarrow> bit y k" "bit y k \<Longrightarrow> bit x k" using assms by auto
  next
    fix i assume "\<forall>k. 8 - r \<le> k \<and> k < 8 \<longrightarrow> bit x k = bit y k" "i < r"
    moreover from this(2) have "8 - r \<le> 7 - i \<and> 7 - i < 8" using assms by arith
    ultimately show "bit x (7 - i) \<Longrightarrow> bit y (7 - i)" "bit y (7 - i) \<Longrightarrow> bit x (7 - i)" by blast+
  qed
  also have "\<dots> \<longleftrightarrow> x AND high_bits 8 r = y AND high_bits 8 r"
    using assms bit_high_bits [where ?'a = 8, of r] by (auto simp: bit_eq_iff bit_simps)
  finally show ?thesis .
qed

lemma addr_bits_inj: "length a = length b \<Longrightarrow> addr_bits a = addr_bits b \<longleftrightarrow> a = b"
proof (induction a b rule: list_induct2)
  case (Cons x a y b)
  have "z AND high_bits 8 8 = z" for z :: u8
    by (rule bit_word_eqI) (use bit_high_bits [where ?'a = 8, of 8] in \<open>auto simp: bit_simps\<close>)
  then have "byte_bits x = byte_bits y \<longleftrightarrow> x = y" using take_byte_bits [of 8 x y] by simp
  then show ?case using Cons by (auto simp: addr_bits_def)
qed simp

lemma network6:
  assumes "length a = 16" "length b = 16" "p \<le> 128"
  shows "ipaddr6_ipv6_addrs_in_network a b p = Some (take p (addr_bits a) = take p (addr_bits b))"
proof -
  let ?q = "p div 8" and ?r = "p mod 8"
  have q: "?q \<le> 16" "8 * ?q + ?r = p" using assms(3) by simp_all
  have split: "take p (addr_bits c) = addr_bits (take ?q c) @ take ?r (addr_bits (drop ?q c))" if "length c = 16" for c
  proof -
    have "addr_bits c = addr_bits (take ?q c) @ addr_bits (drop ?q c)" by (simp flip: addr_bits_append)
    moreover have "p - length (addr_bits (take ?q c)) = ?r" "length (addr_bits (take ?q c)) \<le> p"
      using that q(1) by (simp_all add: minus_mult_div_eq_mod)
    ultimately show ?thesis by (metis take_append take_all)
  qed
  have eq: "take p (addr_bits a) = take p (addr_bits b) \<longleftrightarrow>
      take ?q a = take ?q b \<and> take ?r (addr_bits (drop ?q a)) = take ?r (addr_bits (drop ?q b))"
    using assms by (simp add: split addr_bits_inj)
  show ?thesis
  proof (cases "?r = 0")
    case True
    then show ?thesis using assms eq by (simp add: ipaddr6_ipv6_addrs_in_network_def Let_def)
  next
    case False
    then have l: "?q < 16" using assms(3) by presburger
    then have "take ?r (addr_bits (drop ?q c)) = take ?r (byte_bits (c ! ?q))" if "length c = 16" for c
      using that by (simp add: addr_bits_def Cons_nth_drop_Suc [symmetric])
    then have "take ?r (addr_bits (drop ?q a)) = take ?r (addr_bits (drop ?q b)) \<longleftrightarrow>
        a ! ?q AND high_bits 8 ?r = b ! ?q AND high_bits 8 ?r"
      using take_byte_bits [of ?r "a ! ?q" "b ! ?q"] assms by (simp add: less_imp_le)
    then show ?thesis using assms eq False l by (simp add: ipaddr6_ipv6_addrs_in_network_def Let_def)
  qed
qed

section \<open>Properties\<close>



text \<open>
  C22 Printing an address with its prefix and parsing the text gives the address back, for IPv4 and for IPv6 with
  its longest run of zero blocks compressed, whatever the result buffer held before.
\<close>

theorem ip_text_roundtrip:
  assumes "v4_prefix a \<le> 32" "ifaddr6_prefix b \<le> 128" "length (ifaddr6_addr b) = 16" "length out = 16"
  shows "(\<exists>s. ipaddr_print_ifaddr a = Some s \<and> ipaddr_parse_ipv4_ifaddr s = Some a) \<and>
    (\<exists>s. ipaddr6_print_ifaddr b = Some s \<and> ipaddr6_parse_ipv6_ifaddr s out = Some (Some b)) \<and>
    ipaddr6_parse_ipv6_addr (ipaddr6_print_addr (ifaddr6_addr b)) out = Some (Some (ifaddr6_addr b))"
  using assms parse4_ifaddr_print [of a] parse6_ifaddr_print [of b out] parse6_print [of "ifaddr6_addr b" out]
  by (simp add: ipaddr_print_ifaddr_def ipaddr6_print_ifaddr_def)

theorem ip_text_roundtrip_witness:
  "\<exists>s. ipaddr6_print_ifaddr \<lparr>ifaddr6_addr = [0xFE, 0x80] @ replicate 13 0 @ [1], ifaddr6_prefix = 64\<rparr> = Some s \<and>
    ipaddr6_parse_ipv6_ifaddr s (replicate 16 7) =
      Some (Some \<lparr>ifaddr6_addr = [0xFE, 0x80] @ replicate 13 0 @ [1], ifaddr6_prefix = 64\<rparr>)"
  using ip_text_roundtrip [of "\<lparr>v4_addr = 0, v4_prefix = 0\<rparr>"
      "\<lparr>ifaddr6_addr = [0xFE, 0x80] @ replicate 13 0 @ [1], ifaddr6_prefix = 64\<rparr>" "replicate 16 7"] by simp

text \<open>
  Prefix lengths and masks correspond one to one: the search for the prefix of a mask finds a prefix exactly when the
  mask is the one built from that prefix, and reports failure for every other mask.
\<close>

theorem mask_prefix_inverse:
  assumes "length m = 16"
  shows "(ipaddr_ipv4_prefix_from_mask m4 = Some p \<longleftrightarrow> ipaddr_ipv4_mask_from_prefix p = Some m4) \<and>
    (ipaddr6_ipv6_prefix_from_mask m = Some p \<longleftrightarrow> ipaddr6_ipv6_mask_from_prefix p = Some m)"
  using mask4_iff mask6_iff [OF assms] by blast

theorem mask_prefix_inverse_witness:
  "ipaddr6_ipv6_prefix_from_mask (replicate 16 0) = Some 0 \<longleftrightarrow> ipaddr6_ipv6_mask_from_prefix 0 = Some (replicate 16 0)"
  using mask_prefix_inverse [of "replicate 16 0" _ 0] by simp

text \<open>
  Membership in a network compares exactly the leading bits of the two addresses that the prefix names, for every
  prefix length from none to all bits.
\<close>

theorem in_network_compares_prefix:
  assumes "p \<le> 32" "length a6 = 16" "length b6 = 16" "q \<le> 128"
  shows "ipaddr_ipv4_addrs_in_network a b p = Some (drop_bit (32 - p) (ntoh32 a) = drop_bit (32 - p) (ntoh32 b)) \<and>
    ipaddr6_ipv6_addrs_in_network a6 b6 q = Some (take q (addr_bits a6) = take q (addr_bits b6))"
  using network4 [OF assms(1)] network6 [OF assms(2-4)] by blast

theorem in_network_compares_prefix_witness:
  "ipaddr6_ipv6_addrs_in_network (replicate 16 1) (replicate 15 1 @ [0]) 120 =
    Some (take 120 (addr_bits (replicate 16 1)) = take 120 (addr_bits (replicate 15 1 @ [0])))"
  using in_network_compares_prefix [of 0 "replicate 16 1" "replicate 15 1 @ [0]" 120] by simp

end
