(* ===== verification/AddrText.thy ===== *)
theory AddrText
  imports IpText
begin

text \<open>
  Socket addresses as text (\<open>system/BAddr.h\<close>) and log levels (\<open>misc/loglevel.h\<close>).  \<open>getaddrinfo\<close> is a
  parameter: \<open>gai4\<close> and \<open>gai6\<close> give the first address it returns for the address family, from the
  \<open>AI_NUMERICHOST\<close> flag and the host name.
\<close>

section \<open>The C library\<close>

definition isspace :: "char \<Rightarrow> bool" where
  "isspace c \<longleftrightarrow> c = CHR '' '' \<or> of_char c \<in> {9 :: nat..13}"

text \<open>
  \<open>strtol\<close> in base ten: the value and the rest of the string.  The value is not bounded; the bounds of
  \<open>long\<close> lie outside all ranges that the callers accept.
\<close>

definition strtol :: "string \<Rightarrow> int \<times> string" where
  "strtol s =
     (let t = dropWhile isspace s;
          neg = (t \<noteq> [] \<and> hd t = CHR ''-'');
          u = (if t \<noteq> [] \<and> (hd t = CHR ''-'' \<or> hd t = CHR ''+'') then tl t else t);
          ds = takeWhile dec_digit u
      in if ds = [] then (0, s)
         else ((if neg then - int (dec_value ds) else int (dec_value ds)), dropWhile dec_digit u))"

text \<open>\<open>atoi\<close>, which is undefined outside the range of \<open>int\<close>.\<close>

definition atoi :: "string \<Rightarrow> int option" where
  "atoi s = (let n = fst (strtol s) in if - INT_MAX - 1 \<le> n \<and> n \<le> INT_MAX then Some n else None)"

definition int_str :: "int \<Rightarrow> string" where
  "int_str n = (if n < 0 then ''-'' @ dec_str (nat (- n)) else dec_str (nat n))"

section \<open>Log levels\<close>

definition parse_loglevel :: "string \<Rightarrow> int" where
  "parse_loglevel str =
     (if str = ''none'' then 0
      else if str = ''error'' then 1
      else if str = ''warning'' then 2
      else if str = ''notice'' then 3
      else if str = ''info'' then 4
      else if str = ''debug'' then 5
      else let (res, endptr) = strtol str
           in if str \<noteq> [] \<and> endptr = [] \<and> res \<ge> 0 \<and> res \<le> 5 then res else -1)"

section \<open>Printing addresses\<close>

definition BIPAddr_Print :: "BIPAddr \<Rightarrow> string" where
  "BIPAddr_Print addr =
     (case addr of
        BIP_NONE \<Rightarrow> ''(none)''
      | BIP_IPV4 ip \<Rightarrow>
          (let b = store32 ip
           in dec_str (unat (b ! 0)) @ ''.'' @ dec_str (unat (b ! 1)) @ ''.'' @
              dec_str (unat (b ! 2)) @ ''.'' @ dec_str (unat (b ! 3)))
      | BIP_IPV6 ip \<Rightarrow>
          (let block = (\<lambda>i. hex_str (unat (badvpn_read_be16 (drop i ip))))
           in block 0 @ '':'' @ block 2 @ '':'' @ block 4 @ '':'' @ block 6 @ '':'' @
              block 8 @ '':'' @ block 10 @ '':'' @ block 12 @ '':'' @ block 14))"

definition hex02 :: "u8 \<Rightarrow> string" where
  "hex02 b = [hex_char (unat b div 16), hex_char (unat b mod 16)]"

definition BAddr_Print :: "BAddr \<Rightarrow> string option" where
  "BAddr_Print addr =
     (case addr of
        BADDR_NONE \<Rightarrow> Some ''(none)''
      | BADDR_IPV4 ip port \<Rightarrow> Some (BIPAddr_Print (BIP_IPV4 ip) @ '':'' @ dec_str (unat (ntoh16 port)))
      | BADDR_IPV6 ip port \<Rightarrow> Some (BIPAddr_Print (BIP_IPV6 ip) @ '':'' @ dec_str (unat (ntoh16 port)))
      | BADDR_PACKET p \<Rightarrow>
          ASSERT (header_type p = 1)
            (Some (''proto='' @ dec_str (unat (phys_proto p)) @ '',ifindex='' @ int_str (interface_index p) @
                   '',htype=eth,ptype='' @ int_str (packet_type p) @ '',addr='' @
                   hex02 (phys_addr p ! 0) @ '':'' @ hex02 (phys_addr p ! 1) @ '':'' @ hex02 (phys_addr p ! 2) @ '':'' @
                   hex02 (phys_addr p ! 3) @ '':'' @ hex02 (phys_addr p ! 4) @ '':'' @ hex02 (phys_addr p ! 5))))"

section \<open>Parsing addresses\<close>

record resolver =
  gai4 :: "bool \<Rightarrow> string \<Rightarrow> u32 option"
  gai6 :: "bool \<Rightarrow> string \<Rightarrow> bytes option"

definition BIPAddr_Resolve :: "resolver \<Rightarrow> string \<Rightarrow> bool \<Rightarrow> BIPAddr option" where
  "BIPAddr_Resolve net str noresolve =
     (let len = length str;
          v6 = (len \<ge> 1 \<and> hd str = CHR ''['' \<and> last str = CHR '']'');
          addr_len = (if v6 then int len - 2 else int len);
          addr_str = (if v6 then butlast (tl str) else str)
      in if addr_len > 128 then None
         else if v6 then map_option BIP_IPV6 (gai6 net noresolve addr_str)
         else map_option BIP_IPV4 (gai4 net noresolve addr_str))"

text \<open>
  The split of \<open>BAddr_Parse2\<close> into family, host and port; \<^term>\<open>None\<close> is a return with failure.
\<close>

definition split_addr :: "string \<Rightarrow> (bool \<times> string \<times> string) option" where
  "split_addr str =
     (if length str < 1 \<or> length str > 1000 then None
      else if hd str = CHR ''['' then
        let i = 1 + length (takeWhile (\<lambda>c. c \<noteq> CHR '']'') (tl str))
        in if i \<ge> length str then None
           else if i + 1 \<ge> length str \<or> str ! (i + 1) \<noteq> CHR '':'' then None
           else Some (True, take (i - 1) (drop 1 str), drop (i + 2) str)
      else
        let i = length (takeWhile (\<lambda>c. c \<noteq> CHR '':'') str)
        in if i \<ge> length str then None else Some (False, take i str, drop (i + 1) str))"

definition parse_port :: "string \<Rightarrow> u16 option" where
  "parse_port port_str =
     (if length port_str \<ge> 6 then None
      else let (conv_res, err) = strtol port_str
           in if port_str = [] \<or> err \<noteq> [] then None
              else if conv_res < 0 \<or> conv_res > UINT16_MAX then None
              else Some (hton16 (word_of_int conv_res)))"

text \<open>The optional size is that of the buffer \<open>name\<close>; the string is what is copied there.\<close>

definition BAddr_Parse2 :: "resolver \<Rightarrow> string \<Rightarrow> nat option \<Rightarrow> bool \<Rightarrow> (BAddr \<times> string) option" where
  "BAddr_Parse2 net str name_len noresolve =
     do {
       (v6, addr_str, port_str) \<leftarrow> split_addr str;
       if length addr_str \<ge> 128 then None
       else do {
         port \<leftarrow> parse_port port_str;
         addr \<leftarrow> (if v6 then map_option (\<lambda>ip. BADDR_IPV6 ip port) (gai6 net noresolve addr_str)
                  else map_option (\<lambda>ip. BADDR_IPV4 ip port) (gai4 net noresolve addr_str));
         if (case name_len of None \<Rightarrow> False | Some n \<Rightarrow> length addr_str \<ge> n) then None
         else Some (addr, addr_str) } }"

definition BAddr_Parse :: "resolver \<Rightarrow> string \<Rightarrow> nat option \<Rightarrow> (BAddr \<times> string) option" where
  "BAddr_Parse net str name_len = BAddr_Parse2 net str name_len False"

section \<open>Lemmas\<close>

lemma dec_str_length_bound: "n < 10 ^ k \<Longrightarrow> 0 < k \<Longrightarrow> length (dec_str n) \<le> k"
proof (induction k arbitrary: n)
  case (Suc k)
  show ?case
  proof (cases "n < 10")
    case True
    then show ?thesis by (simp add: dec_str.simps [of n])
  next
    case False
    then have "n div 10 < 10 ^ k" "0 < k" using Suc.prems by (auto simp: less_mult_imp_div_less mult.commute intro: ccontr)
    then show ?thesis using Suc.IH [of "n div 10"] False by (simp add: dec_str.simps [of n])
  qed
qed simp

lemma hex_str_length_bound: "n < 16 ^ k \<Longrightarrow> 0 < k \<Longrightarrow> length (hex_str n) \<le> k"
proof (induction k arbitrary: n)
  case (Suc k)
  show ?case
  proof (cases "n < 16")
    case True
    then show ?thesis by (simp add: hex_str.simps [of n])
  next
    case False
    then have "n div 16 < 16 ^ k" "0 < k" using Suc.prems by (auto simp: less_mult_imp_div_less mult.commute intro: ccontr)
    then show ?thesis using Suc.IH [of "n div 16"] False by (simp add: hex_str.simps [of n])
  qed
qed simp

lemma print_lengths: "length (dec_str (unat (b :: u8))) \<le> 3" "length (dec_str (unat (p :: u16))) \<le> 5"
  "length (hex_str (unat p)) \<le> 4" "\<bar>i\<bar> \<le> 2147483648 \<Longrightarrow> length (int_str i) \<le> 11"
proof -
  show "length (dec_str (unat b)) \<le> 3" using unat_u8_lt [of b] by (intro dec_str_length_bound) auto
  show "length (dec_str (unat p)) \<le> 5" using unat_u16_lt [of p] by (intro dec_str_length_bound) auto
  show "length (hex_str (unat p)) \<le> 4" using unat_u16_lt [of p] by (intro hex_str_length_bound) auto
  assume "\<bar>i\<bar> \<le> 2147483648"
  then have "length (dec_str (nat \<bar>i\<bar>)) \<le> 10" by (intro dec_str_length_bound) auto
  then show "length (int_str i) \<le> 11" by (auto simp: int_str_def)
qed

lemma dec_digits_all: "takeWhile dec_digit (dec_str n) = dec_str n" "dropWhile dec_digit (dec_str n) = []"
  using dec_str_digits [of n] by (auto simp: list_all_iff)

lemma dec_digit_plain: "dec_digit c \<Longrightarrow> \<not> isspace c \<and> c \<noteq> CHR ''-'' \<and> c \<noteq> CHR ''+'' \<and> c \<noteq> CHR '':''"
  by (auto simp: dec_digit_def isspace_def)

lemma strtol_dec_str: "strtol (dec_str n) = (int n, [])"
proof -
  let ?s = "dec_str n"
  have "hd ?s \<in> set ?s" by simp
  then have "dec_digit (hd ?s)" using dec_str_digits [of n] by (auto simp: list_all_iff)
  then have h: "\<not> isspace (hd ?s)" "hd ?s \<noteq> CHR ''-''" "hd ?s \<noteq> CHR ''+''" using dec_digit_plain by blast+
  then have "dropWhile isspace ?s = ?s" by (cases ?s) auto
  then show ?thesis using h by (simp add: strtol_def Let_def dec_digits_all dec_str_value)
qed

lemma parse_port_print: "parse_port (dec_str (unat (ntoh16 p))) = Some p"
proof -
  have "int (unat (ntoh16 p)) \<le> UINT16_MAX" using unat_u16_lt [of "ntoh16 p"] by linarith
  then show ?thesis using print_lengths(2) [of "ntoh16 p"] by (simp add: parse_port_def strtol_dec_str ntoh16_def)
qed

lemma print4_no_colon: "CHR '':'' \<notin> set (ipaddr_print_addr ip)"
  using dec_str_digits dec_digit_plain by (auto simp: ipaddr_print_addr_def Let_def list_all_iff)

lemma BIPAddr_Print_v4: "BIPAddr_Print (BIP_IPV4 ip) = ipaddr_print_addr ip"
  by (simp add: BIPAddr_Print_def ipaddr_print_addr_def Let_def)

lemma print4_head: "ipaddr_print_addr ip \<noteq> [] \<and> hd (ipaddr_print_addr ip) \<noteq> CHR ''[''"
proof -
  let ?s = "dec_str (unat (store32 ip ! 0))"
  have "hd ?s \<in> set ?s" by simp
  then have "dec_digit (hd ?s)" using dec_str_digits [of "unat (store32 ip ! 0)"] by (auto simp: list_all_iff)
  then show ?thesis by (auto simp: ipaddr_print_addr_def Let_def dec_digit_def)
qed

lemma print4_length: "length (ipaddr_print_addr ip) \<le> 15"
  using print_lengths(1) [of "store32 ip ! 0"] print_lengths(1) [of "store32 ip ! 1"]
    print_lengths(1) [of "store32 ip ! 2"] print_lengths(1) [of "store32 ip ! 3"]
  by (simp add: ipaddr_print_addr_def Let_def)

lemma split_print4: "split_addr (ipaddr_print_addr ip @ CHR '':'' # dec_str (unat (p :: u16))) =
    Some (False, ipaddr_print_addr ip, dec_str (unat p))"
  using print4_head [of ip] print4_length [of ip] print_lengths(2) [of p] takeWhile_until [OF print4_no_colon [of ip]]
  by (simp add: split_addr_def Let_def hd_append)

lemma BAddr_Parse2_print4:
  assumes "gai4 net noresolve (ipaddr_print_addr ip) = Some ip"
  shows "BAddr_Parse2 net (ipaddr_print_addr ip @ CHR '':'' # dec_str (unat (ntoh16 port))) None noresolve =
    Some (BADDR_IPV4 ip port, ipaddr_print_addr ip)"
  using assms print4_length [of ip] by (simp add: BAddr_Parse2_def split_print4 parse_port_print)

lemma read_be16_block: "badvpn_read_be16 (drop (2 * i) a) = addr_block a i" if "2 * i + 1 < length a"
  using that by (simp add: badvpn_read_be16_def addr_block_def)

lemma BIPAddr_Print_v6:
  assumes "length ip = 16" shows "BIPAddr_Print (BIP_IPV6 ip) = blocks_str (map (addr_block ip) [0..<8])"
proof -
  have "[0..<8] = [0, 1, 2, 3, 4, 5, 6, 7 :: nat]" by (simp add: upt_rec)
  then show ?thesis using assms read_be16_block [of 0 ip] read_be16_block [of 1 ip] read_be16_block [of 2 ip]
      read_be16_block [of 3 ip] read_be16_block [of 4 ip] read_be16_block [of 5 ip] read_be16_block [of 6 ip] read_be16_block [of 7 ip]
    by (simp add: BIPAddr_Print_def Let_def)
qed

lemma BIPAddr_Print_v6_length: "length (BIPAddr_Print (BIP_IPV6 ip)) \<le> 39"
  using print_lengths(3) [of "badvpn_read_be16 (drop 0 ip)"] print_lengths(3) [of "badvpn_read_be16 (drop 2 ip)"]
    print_lengths(3) [of "badvpn_read_be16 (drop 4 ip)"] print_lengths(3) [of "badvpn_read_be16 (drop 6 ip)"]
    print_lengths(3) [of "badvpn_read_be16 (drop 8 ip)"] print_lengths(3) [of "badvpn_read_be16 (drop 10 ip)"]
    print_lengths(3) [of "badvpn_read_be16 (drop 12 ip)"] print_lengths(3) [of "badvpn_read_be16 (drop 14 ip)"]
  by (simp add: BIPAddr_Print_def Let_def)

text \<open>The fields of a packet socket address that are C \<open>int\<close>s.\<close>

definition packet_ints :: "BAddr \<Rightarrow> bool" where
  "packet_ints a \<longleftrightarrow> (case a of BADDR_PACKET p \<Rightarrow> header_type p = 1 \<and> \<bar>interface_index p\<bar> \<le> 2147483648 \<and>
     \<bar>packet_type p\<bar> \<le> 2147483648 | _ \<Rightarrow> True)"

section \<open>Properties\<close>



end
