(* ===== verification/Options.thy ===== *)
theory Options
  imports AddrText SocksClient
begin

text \<open>
  The command line: \<open>parse_arguments\<close> and \<open>process_arguments\<close> of \<open>tun2socks/tun2socks.c\<close> in the Android build.
  Fallible steps return an option: \<^term>\<open>Some None\<close> is the error return of the code, and \<^term>\<open>None\<close> an
  argument of \<open>atoi\<close> outside the range of \<open>int\<close>, where the C library leaves the result undefined.
  The names of the log channels, which the build generates, are a parameter.
\<close>

section \<open>Options\<close>

datatype logger = LOGGER_STDOUT | LOGGER_SYSLOG

record options =
  opt_help :: bool
  opt_version :: bool
  opt_logger :: logger
  logger_syslog_facility :: string
  logger_syslog_ident :: string
  loglevel :: int
  loglevels :: "int list"
  opt_netif_ipaddr :: "string option"
  opt_netif_netmask :: "string option"
  opt_netif_ip6addr :: "string option"
  opt_socks_server_addr :: "string option"
  opt_username :: "string option"
  opt_password :: "string option"
  opt_password_file :: "string option"
  append_source_to_username :: bool
  opt_udpgw_remote_server_addr :: "string option"
  udpgw_max_connections :: int
  udpgw_connection_buffer_size :: int
  udpgw_transparent_dns :: bool
  tun_mtu :: int
  fake_proc :: bool
  opt_sock_path :: "string option"
  opt_pid :: "string option"
  opt_dnsgw :: "string option"

definition DEFAULT_UDPGW_MAX_CONNECTIONS :: int where
  "DEFAULT_UDPGW_MAX_CONNECTIONS = 256"

definition DEFAULT_UDPGW_CONNECTION_BUFFER_SIZE :: int where
  "DEFAULT_UDPGW_CONNECTION_BUFFER_SIZE = 8"

text \<open>\<open>BLogGlobal_GetChannelByName\<close> on the generated list of names.\<close>

definition BLogGlobal_GetChannelByName :: "string list \<Rightarrow> string \<Rightarrow> nat option" where
  "BLogGlobal_GetChannelByName channels name =
     (let i = length (takeWhile (\<lambda>n. n \<noteq> name) channels) in if i < length channels then Some i else None)"

text \<open>The values before the first argument is read; \<open>options.dnsgw\<close> keeps what the static object holds.\<close>

definition default_options :: "string list \<Rightarrow> string \<Rightarrow> string option \<Rightarrow> options" where
  "default_options channels argv0 dnsgw0 =
     \<lparr>opt_help = False, opt_version = False, opt_logger = LOGGER_STDOUT, logger_syslog_facility = ''daemon'',
      logger_syslog_ident = argv0, loglevel = -1, loglevels = replicate (length channels) (-1),
      opt_netif_ipaddr = None, opt_netif_netmask = None, opt_netif_ip6addr = None,
      opt_socks_server_addr = None, opt_username = None, opt_password = None, opt_password_file = None,
      append_source_to_username = False, opt_udpgw_remote_server_addr = None,
      udpgw_max_connections = DEFAULT_UDPGW_MAX_CONNECTIONS,
      udpgw_connection_buffer_size = DEFAULT_UDPGW_CONNECTION_BUFFER_SIZE,
      udpgw_transparent_dns = False, tun_mtu = 1500, fake_proc = False, opt_sock_path = None,
      opt_pid = None, opt_dnsgw = dnsgw0\<rparr>"

section \<open>One argument\<close>

definition with_arg :: "string list \<Rightarrow> (string \<Rightarrow> options option option) \<Rightarrow> (options \<times> string list) option option" where
  "with_arg rest f =
     (case rest of
        [] \<Rightarrow> Some None
      | a # rest \<Rightarrow> map_option (map_option (\<lambda>opts. (opts, rest))) (f a))"

definition with_string :: "string list \<Rightarrow> (string \<Rightarrow> options) \<Rightarrow> (options \<times> string list) option option" where
  "with_string rest f = with_arg rest (\<lambda>a. Some (Some (f a)))"

definition positive_int :: "string \<Rightarrow> (int \<Rightarrow> options) \<Rightarrow> options option option" where
  "positive_int a f = map_option (\<lambda>n. if n \<le> 0 then None else Some (f n)) (atoi a)"

definition flag :: "string list \<Rightarrow> options \<Rightarrow> (options \<times> string list) option option" where
  "flag rest opts = Some (Some (opts, rest))"

definition parse_one :: "string list \<Rightarrow> string \<Rightarrow> string list \<Rightarrow> options \<Rightarrow> (options \<times> string list) option option" where
  "parse_one channels arg rest opts =
     (if arg = ''--help'' then flag rest (opts\<lparr>opt_help := True\<rparr>)
      else if arg = ''--version'' then flag rest (opts\<lparr>opt_version := True\<rparr>)
      else if arg = ''--logger'' then
        with_arg rest (\<lambda>a. Some (if a = ''stdout'' then Some (opts\<lparr>opt_logger := LOGGER_STDOUT\<rparr>)
                                else if a = ''syslog'' then Some (opts\<lparr>opt_logger := LOGGER_SYSLOG\<rparr>)
                                else None))
      else if arg = ''--syslog-facility'' then with_string rest (\<lambda>a. opts\<lparr>logger_syslog_facility := a\<rparr>)
      else if arg = ''--syslog-ident'' then with_string rest (\<lambda>a. opts\<lparr>logger_syslog_ident := a\<rparr>)
      else if arg = ''--loglevel'' then
        with_arg rest (\<lambda>a. let n = parse_loglevel a in Some (if n < 0 then None else Some (opts\<lparr>loglevel := n\<rparr>)))
      else if arg = ''--channel-loglevel'' then
        (case rest of
           a # b # rest \<Rightarrow>
             (case BLogGlobal_GetChannelByName channels a of
                None \<Rightarrow> Some None
              | Some channel \<Rightarrow>
                  let n = parse_loglevel b
                  in if n < 0 then Some None
                     else Some (Some (opts\<lparr>loglevels := (loglevels opts)[channel := n]\<rparr>, rest)))
         | _ \<Rightarrow> Some None)
      else if arg = ''--fake-proc'' then flag rest (opts\<lparr>fake_proc := True\<rparr>)
      else if arg = ''--tunmtu'' then with_arg rest (\<lambda>a. positive_int a (\<lambda>n. opts\<lparr>tun_mtu := n\<rparr>))
      else if arg = ''--dnsgw'' then with_string rest (\<lambda>a. opts\<lparr>opt_dnsgw := Some a\<rparr>)
      else if arg = ''--sock-path'' then with_string rest (\<lambda>a. opts\<lparr>opt_sock_path := Some a\<rparr>)
      else if arg = ''--pid'' then with_string rest (\<lambda>a. opts\<lparr>opt_pid := Some a\<rparr>)
      else if arg = ''--netif-ipaddr'' then with_string rest (\<lambda>a. opts\<lparr>opt_netif_ipaddr := Some a\<rparr>)
      else if arg = ''--netif-netmask'' then with_string rest (\<lambda>a. opts\<lparr>opt_netif_netmask := Some a\<rparr>)
      else if arg = ''--netif-ip6addr'' then with_string rest (\<lambda>a. opts\<lparr>opt_netif_ip6addr := Some a\<rparr>)
      else if arg = ''--socks-server-addr'' then with_string rest (\<lambda>a. opts\<lparr>opt_socks_server_addr := Some a\<rparr>)
      else if arg = ''--username'' then with_string rest (\<lambda>a. opts\<lparr>opt_username := Some a\<rparr>)
      else if arg = ''--password'' then with_string rest (\<lambda>a. opts\<lparr>opt_password := Some a\<rparr>)
      else if arg = ''--password-file'' then with_string rest (\<lambda>a. opts\<lparr>opt_password_file := Some a\<rparr>)
      else if arg = ''--append-source-to-username'' then flag rest (opts\<lparr>append_source_to_username := True\<rparr>)
      else if arg = ''--enable-udprelay'' then flag rest (opts\<lparr>opt_udpgw_remote_server_addr := Some ''0.0.0.0:0''\<rparr>)
      else if arg = ''--udprelay-max-connections'' then
        with_arg rest (\<lambda>a. positive_int a (\<lambda>n. opts\<lparr>udpgw_max_connections := n\<rparr>))
      else Some None)"

lemma with_arg_SomeD:
  "with_arg rest f = Some (Some (u, r)) \<Longrightarrow> \<exists>a. rest = a # r \<and> f a = Some (Some u)"
  by (auto simp: with_arg_def split: list.splits)

lemmas one_arg_defs = with_string_def flag_def positive_int_def

lemma parse_one_shorter: "parse_one channels arg rest opts = Some (Some (u, r)) \<Longrightarrow> length r \<le> length rest"
  unfolding parse_one_def one_arg_defs
  by (auto dest!: with_arg_SomeD simp: Let_def split: if_splits list.splits option.splits)

function parse_loop :: "string list \<Rightarrow> string list \<Rightarrow> options \<Rightarrow> options option option" where
  "parse_loop channels [] opts = Some (Some opts)"
| "parse_loop channels (arg # rest) opts =
     (case parse_one channels arg rest opts of
        None \<Rightarrow> None
      | Some None \<Rightarrow> Some None
      | Some (Some (opts, rest)) \<Rightarrow> parse_loop channels rest opts)"
  by pat_completeness auto
termination
  by (relation "measure (\<lambda>(_, args, _). length args)") (auto dest: parse_one_shorter)

text \<open>The checks after the loop.\<close>

definition check_options :: "options \<Rightarrow> options option" where
  "check_options opts =
     (if opt_help opts \<or> opt_version opts then Some opts
      else if opt_netif_ipaddr opts = None then None
      else if opt_socks_server_addr opts = None then None
      else if opt_username opts \<noteq> None \<and> opt_password opts = None \<and> opt_password_file opts = None then None
      else if opt_username opts \<noteq> None \<and> opt_password opts \<noteq> None \<and> opt_password_file opts \<noteq> None then None
      else Some opts)"

definition parse_arguments :: "string list \<Rightarrow> string list \<Rightarrow> string option \<Rightarrow> options option option" where
  "parse_arguments channels argv dnsgw0 =
     (case argv of
        [] \<Rightarrow> Some None
      | argv0 # args \<Rightarrow>
          do { r \<leftarrow> parse_loop channels args (default_options channels argv0 dnsgw0);
               Some (Option.bind r check_options) })"

section \<open>Resolving the options\<close>

record settings =
  netif_ipaddr :: BIPAddr
  netif_ip6addr :: bytes
  set_socks_server_addr :: BAddr
  socks_auth_info :: "BSocksClient_auth_info list"
  password_file_contents :: "bytes option"
  udpgw_remote_server_addr :: BAddr
  set_dnsgw :: BAddr

text \<open>The static objects before \<open>process_arguments\<close>.\<close>

definition zero_settings :: settings where
  "zero_settings = \<lparr>netif_ipaddr = BIP_NONE, netif_ip6addr = replicate 16 0, set_socks_server_addr = BADDR_NONE,
     socks_auth_info = [], password_file_contents = None, udpgw_remote_server_addr = BADDR_NONE, set_dnsgw = BADDR_NONE\<rparr>"

abbreviation str_bytes :: "string \<Rightarrow> bytes" where
  "str_bytes s \<equiv> map of_char s"

text \<open>
  \<open>process_arguments\<close>: \<open>read_file\<close> gives the contents of a file.  The state is returned also with the error
  return, since the password file may have been read by then.  The pointers that \<open>parse_arguments\<close> has
  checked must not be null.
\<close>

definition add_password :: "(string \<Rightarrow> bytes option) \<Rightarrow> options \<Rightarrow> settings \<Rightarrow> (bool \<times> settings) option" where
  "add_password read_file opts s =
     (case opt_username opts of
        None \<Rightarrow> Some (True, s)
      | Some u \<Rightarrow>
          (case opt_password opts of
             Some p \<Rightarrow>
               Some (True, s\<lparr>socks_auth_info := socks_auth_info s @ [BSocksClient_auth_password (str_bytes u) (str_bytes p)]\<rparr>)
           | None \<Rightarrow>
               do { file \<leftarrow> opt_password_file opts;
                    Some (case read_file file of
                        None \<Rightarrow> (False, s)
                      | Some p \<Rightarrow>
                          (True, s\<lparr>password_file_contents := Some p,
                                   socks_auth_info := socks_auth_info s @ [BSocksClient_auth_password (str_bytes u) p]\<rparr>)) }))"

definition resolve_udpgw :: "resolver \<Rightarrow> options \<Rightarrow> settings \<Rightarrow> bool \<times> settings" where
  "resolve_udpgw net opts s =
     (case opt_udpgw_remote_server_addr opts of
        None \<Rightarrow> (True, s)
      | Some a \<Rightarrow>
          (case BAddr_Parse2 net a None False of
             None \<Rightarrow> (False, s)
           | Some (addr, _) \<Rightarrow> (True, s\<lparr>udpgw_remote_server_addr := addr\<rparr>)))"

definition resolve_dnsgw :: "resolver \<Rightarrow> options \<Rightarrow> settings \<Rightarrow> bool \<times> settings" where
  "resolve_dnsgw net opts s =
     (case opt_dnsgw opts of
        None \<Rightarrow> (True, s)
      | Some a \<Rightarrow>
          (case BAddr_Parse2 net a None False of
             None \<Rightarrow> (False, s)
           | Some (addr, _) \<Rightarrow> (baddr_type addr = 1, s\<lparr>set_dnsgw := addr\<rparr>)))"

text \<open>The IPv6 address of the interface, or the current one when the option is not given.\<close>

definition parse_netif_ip6addr :: "options \<Rightarrow> bytes \<Rightarrow> bytes option option" where
  "parse_netif_ip6addr opts current =
     (case opt_netif_ip6addr opts of
        None \<Rightarrow> Some (Some current)
      | Some t \<Rightarrow> ipaddr6_parse_ipv6_addr t current)"

definition process_arguments :: "resolver \<Rightarrow> (string \<Rightarrow> bytes option) \<Rightarrow> options \<Rightarrow> settings \<Rightarrow> (bool \<times> settings) option" where
  "process_arguments net read_file opts s =
     ASSERT (password_file_contents s = None) (
     do {
       ip \<leftarrow> opt_netif_ipaddr opts;
       (case BIPAddr_Resolve net ip False of
          None \<Rightarrow> Some (False, s)
        | Some a \<Rightarrow>
            let s = s\<lparr>netif_ipaddr := a\<rparr> in
            if bipaddr_type a \<noteq> 1 then Some (False, s)
            else do {
              six \<leftarrow> parse_netif_ip6addr opts (netif_ip6addr s);
              (case six of
                 None \<Rightarrow> Some (False, s)
               | Some b \<Rightarrow>
                   let s = s\<lparr>netif_ip6addr := b\<rparr> in
                   do {
                     srv \<leftarrow> opt_socks_server_addr opts;
                     (case BAddr_Parse2 net srv None False of
                        None \<Rightarrow> Some (False, s)
                      | Some (addr, _) \<Rightarrow>
                          do {
                            (ok, s) \<leftarrow> add_password read_file opts
                               (s\<lparr>set_socks_server_addr := addr, socks_auth_info := [BSocksClient_auth_none]\<rparr>);
                            if \<not> ok then Some (False, s)
                            else let (ok, s) = resolve_udpgw net opts s
                                 in if \<not> ok then Some (False, s) else Some (resolve_dnsgw net opts s) }) }) }) })"

section \<open>What the parser accepts\<close>

definition options_ok :: "string list \<Rightarrow> options \<Rightarrow> bool" where
  "options_ok channels opts \<longleftrightarrow>
     0 < tun_mtu opts \<and> 0 < udpgw_max_connections opts \<and> loglevel opts \<in> {-1..5} \<and>
     length (loglevels opts) = length channels \<and> (\<forall>l \<in> set (loglevels opts). l \<in> {-1..5})"

lemma parse_loglevel_range: "parse_loglevel s \<in> {-1..5}"
  by (auto simp: parse_loglevel_def split: prod.splits)

lemma default_options_ok: "options_ok channels (default_options channels argv0 d)"
  by (auto simp: options_ok_def default_options_def DEFAULT_UDPGW_MAX_CONNECTIONS_def)

lemma loglevels_update_ok:
  "options_ok channels opts \<Longrightarrow> n \<in> {-1..5} \<Longrightarrow> options_ok channels (opts\<lparr>loglevels := (loglevels opts)[i := n]\<rparr>)"
  using set_update_subset_insert [of "loglevels opts" i n] by (auto simp: options_ok_def)

lemma options_ok_upd:
  "options_ok ch (opts\<lparr>opt_help := b\<rparr>) = options_ok ch opts" "options_ok ch (opts\<lparr>opt_version := b\<rparr>) = options_ok ch opts"
  "options_ok ch (opts\<lparr>opt_logger := l\<rparr>) = options_ok ch opts" "options_ok ch (opts\<lparr>logger_syslog_facility := s\<rparr>) = options_ok ch opts"
  "options_ok ch (opts\<lparr>logger_syslog_ident := s\<rparr>) = options_ok ch opts" "options_ok ch (opts\<lparr>fake_proc := b\<rparr>) = options_ok ch opts"
  "options_ok ch (opts\<lparr>opt_dnsgw := t\<rparr>) = options_ok ch opts" "options_ok ch (opts\<lparr>opt_sock_path := t\<rparr>) = options_ok ch opts"
  "options_ok ch (opts\<lparr>opt_pid := t\<rparr>) = options_ok ch opts" "options_ok ch (opts\<lparr>opt_netif_ipaddr := t\<rparr>) = options_ok ch opts"
  "options_ok ch (opts\<lparr>opt_netif_netmask := t\<rparr>) = options_ok ch opts" "options_ok ch (opts\<lparr>opt_netif_ip6addr := t\<rparr>) = options_ok ch opts"
  "options_ok ch (opts\<lparr>opt_socks_server_addr := t\<rparr>) = options_ok ch opts" "options_ok ch (opts\<lparr>opt_username := t\<rparr>) = options_ok ch opts"
  "options_ok ch (opts\<lparr>opt_password := t\<rparr>) = options_ok ch opts" "options_ok ch (opts\<lparr>opt_password_file := t\<rparr>) = options_ok ch opts"
  "options_ok ch (opts\<lparr>append_source_to_username := b\<rparr>) = options_ok ch opts"
  "options_ok ch (opts\<lparr>opt_udpgw_remote_server_addr := t\<rparr>) = options_ok ch opts"
  by (simp_all add: options_ok_def)

lemma options_ok_num:
  "options_ok ch opts \<Longrightarrow> 0 < n \<Longrightarrow> options_ok ch (opts\<lparr>tun_mtu := n\<rparr>)"
  "options_ok ch opts \<Longrightarrow> 0 < n \<Longrightarrow> options_ok ch (opts\<lparr>udpgw_max_connections := n\<rparr>)"
  "options_ok ch opts \<Longrightarrow> options_ok ch (opts\<lparr>loglevel := parse_loglevel a\<rparr>)"
  "options_ok ch opts \<Longrightarrow> options_ok ch (opts\<lparr>loglevels := (loglevels opts)[i := parse_loglevel a]\<rparr>)"
  subgoal by (simp add: options_ok_def)
  subgoal by (simp add: options_ok_def)
  subgoal using parse_loglevel_range [of a] by (simp add: options_ok_def)
  subgoal by (rule loglevels_update_ok) (use parse_loglevel_range [of a] in auto)
  done

lemma positive_intD: "positive_int a f = Some (Some v) \<Longrightarrow> \<exists>n > 0. v = f n"
  by (auto simp: positive_int_def not_le split: if_splits)

lemma parse_one_ok:
  assumes "options_ok channels opts" "parse_one channels arg rest opts = Some (Some (u, r))"
  shows "options_ok channels u"
  using assms(2) unfolding parse_one_def with_string_def flag_def Let_def
  by (auto dest!: with_arg_SomeD positive_intD simp: options_ok_upd assms(1)
      intro: options_ok_num [OF assms(1)] split: if_splits list.splits option.splits)

lemma parse_loop_ok:
  "options_ok channels opts \<Longrightarrow> parse_loop channels args opts = Some (Some u) \<Longrightarrow> options_ok channels u"
  by (induction channels args opts rule: parse_loop.induct)
    (auto dest: parse_one_ok split: option.splits)

section \<open>Writing options as arguments\<close>

text \<open>Parsing a complete group of arguments does not depend on what follows.\<close>

lemma with_arg_append: "with_arg rest f = Some (Some (u, r)) \<Longrightarrow> with_arg (rest @ later) f = Some (Some (u, r @ later))"
  by (auto simp: with_arg_def split: list.splits)

lemma parse_one_append:
  "parse_one channels arg rest opts = Some (Some (u, r)) \<Longrightarrow>
   parse_one channels arg (rest @ later) opts = Some (Some (u, r @ later))"
  unfolding parse_one_def with_string_def flag_def
  by (auto intro: with_arg_append simp: Let_def split: if_splits list.splits option.splits)

lemma parse_loop_append:
  "parse_loop channels args opts = Some (Some u) \<Longrightarrow> parse_loop channels (args @ later) opts = parse_loop channels later u"
proof (induction channels args opts rule: parse_loop.induct)
  case (2 channels arg rest opts)
  then obtain v r where "parse_one channels arg rest opts = Some (Some (v, r))" "parse_loop channels r v = Some (Some u)"
    by (auto split: option.splits)
  with parse_one_append [OF this(1), of later] 2(1) [OF this(1) refl refl this(2)] show ?case by simp
qed simp

definition arg_opt :: "string \<Rightarrow> string option \<Rightarrow> string list" where
  "arg_opt name v = (case v of None \<Rightarrow> [] | Some a \<Rightarrow> [name, a])"

definition arg_flag :: "string \<Rightarrow> bool \<Rightarrow> string list" where
  "arg_flag name b = (if b then [name] else [])"

definition arg_level :: "string list \<Rightarrow> int list \<Rightarrow> nat \<Rightarrow> string list" where
  "arg_level channels ls i =
     (if ls ! i < 0 then [] else [''--channel-loglevel'', channels ! i, int_str (ls ! i)])"

definition render :: "string list \<Rightarrow> options \<Rightarrow> string list" where
  "render channels opts =
     arg_flag ''--help'' (opt_help opts) @ arg_flag ''--version'' (opt_version opts) @
     [''--logger'', case opt_logger opts of LOGGER_STDOUT \<Rightarrow> ''stdout'' | LOGGER_SYSLOG \<Rightarrow> ''syslog''] @
     [''--syslog-facility'', logger_syslog_facility opts] @ [''--syslog-ident'', logger_syslog_ident opts] @
     (if loglevel opts < 0 then [] else [''--loglevel'', int_str (loglevel opts)]) @
     concat (map (arg_level channels (loglevels opts)) [0..<length channels]) @
     arg_opt ''--netif-ipaddr'' (opt_netif_ipaddr opts) @ arg_opt ''--netif-netmask'' (opt_netif_netmask opts) @
     arg_opt ''--netif-ip6addr'' (opt_netif_ip6addr opts) @ arg_opt ''--socks-server-addr'' (opt_socks_server_addr opts) @
     arg_opt ''--username'' (opt_username opts) @ arg_opt ''--password'' (opt_password opts) @
     arg_opt ''--password-file'' (opt_password_file opts) @
     arg_flag ''--append-source-to-username'' (append_source_to_username opts) @
     arg_flag ''--enable-udprelay'' (opt_udpgw_remote_server_addr opts \<noteq> None) @
     [''--udprelay-max-connections'', int_str (udpgw_max_connections opts)] @
     [''--tunmtu'', int_str (tun_mtu opts)] @ arg_flag ''--fake-proc'' (fake_proc opts) @
     arg_opt ''--sock-path'' (opt_sock_path opts) @ arg_opt ''--pid'' (opt_pid opts) @ arg_opt ''--dnsgw'' (opt_dnsgw opts)"

text \<open>One lemma per option: its arguments set its field and no other.\<close>

lemmas parse_defs = parse_one_def with_string_def with_arg_def flag_def arg_opt_def arg_flag_def

lemma parse_opt_groups:
  "opt_netif_ipaddr opts = None \<Longrightarrow> parse_loop ch (arg_opt ''--netif-ipaddr'' v) opts = Some (Some (opts\<lparr>opt_netif_ipaddr := v\<rparr>))"
  "opt_netif_netmask opts = None \<Longrightarrow> parse_loop ch (arg_opt ''--netif-netmask'' v) opts = Some (Some (opts\<lparr>opt_netif_netmask := v\<rparr>))"
  "opt_netif_ip6addr opts = None \<Longrightarrow> parse_loop ch (arg_opt ''--netif-ip6addr'' v) opts = Some (Some (opts\<lparr>opt_netif_ip6addr := v\<rparr>))"
  "opt_socks_server_addr opts = None \<Longrightarrow> parse_loop ch (arg_opt ''--socks-server-addr'' v) opts = Some (Some (opts\<lparr>opt_socks_server_addr := v\<rparr>))"
  "opt_username opts = None \<Longrightarrow> parse_loop ch (arg_opt ''--username'' v) opts = Some (Some (opts\<lparr>opt_username := v\<rparr>))"
  "opt_password opts = None \<Longrightarrow> parse_loop ch (arg_opt ''--password'' v) opts = Some (Some (opts\<lparr>opt_password := v\<rparr>))"
  "opt_password_file opts = None \<Longrightarrow> parse_loop ch (arg_opt ''--password-file'' v) opts = Some (Some (opts\<lparr>opt_password_file := v\<rparr>))"
  "opt_sock_path opts = None \<Longrightarrow> parse_loop ch (arg_opt ''--sock-path'' v) opts = Some (Some (opts\<lparr>opt_sock_path := v\<rparr>))"
  "opt_pid opts = None \<Longrightarrow> parse_loop ch (arg_opt ''--pid'' v) opts = Some (Some (opts\<lparr>opt_pid := v\<rparr>))"
  "opt_dnsgw opts = None \<Longrightarrow> parse_loop ch (arg_opt ''--dnsgw'' v) opts = Some (Some (opts\<lparr>opt_dnsgw := v\<rparr>))"
  by (cases v; cases opts; simp add: parse_defs)+

lemma parse_flag_groups:
  "\<not> opt_help opts \<Longrightarrow> parse_loop ch (arg_flag ''--help'' b) opts = Some (Some (opts\<lparr>opt_help := b\<rparr>))"
  "\<not> opt_version opts \<Longrightarrow> parse_loop ch (arg_flag ''--version'' b) opts = Some (Some (opts\<lparr>opt_version := b\<rparr>))"
  "\<not> append_source_to_username opts \<Longrightarrow> parse_loop ch (arg_flag ''--append-source-to-username'' b) opts = Some (Some (opts\<lparr>append_source_to_username := b\<rparr>))"
  "\<not> fake_proc opts \<Longrightarrow> parse_loop ch (arg_flag ''--fake-proc'' b) opts = Some (Some (opts\<lparr>fake_proc := b\<rparr>))"
  by (cases b; cases opts; simp add: parse_defs)+

lemma int_str_nat: "0 \<le> n \<Longrightarrow> int_str n = dec_str (nat n)"
  by (simp add: int_str_def)

lemma atoi_int_str: "0 \<le> n \<Longrightarrow> n \<le> INT_MAX \<Longrightarrow> atoi (int_str n) = Some n"
  by (simp add: atoi_def int_str_nat strtol_dec_str)

lemma parse_loglevel_int_str: "0 \<le> n \<Longrightarrow> n \<le> 5 \<Longrightarrow> parse_loglevel (int_str n) = n"
proof -
  assume "0 \<le> n" "n \<le> 5"
  then have "n \<in> set [0, 1, 2, 3, 4, 5]" by auto
  moreover have "\<forall>n \<in> set [0, 1, 2, 3, 4, 5]. parse_loglevel (int_str n) = n" by code_simp
  ultimately show ?thesis by blast
qed

lemma parse_value_groups:
  "parse_loop ch [''--logger'', case l of LOGGER_STDOUT \<Rightarrow> ''stdout'' | LOGGER_SYSLOG \<Rightarrow> ''syslog''] opts =
     Some (Some (opts\<lparr>opt_logger := l\<rparr>))"
  "parse_loop ch [''--syslog-facility'', a] opts = Some (Some (opts\<lparr>logger_syslog_facility := a\<rparr>))"
  "parse_loop ch [''--syslog-ident'', a] opts = Some (Some (opts\<lparr>logger_syslog_ident := a\<rparr>))"
  "loglevel opts = -1 \<Longrightarrow> n \<in> {-1..5} \<Longrightarrow>
     parse_loop ch (if n < 0 then [] else [''--loglevel'', int_str n]) opts = Some (Some (opts\<lparr>loglevel := n\<rparr>))"
  "0 < n \<Longrightarrow> n \<le> INT_MAX \<Longrightarrow>
     parse_loop ch [''--udprelay-max-connections'', int_str n] opts = Some (Some (opts\<lparr>udpgw_max_connections := n\<rparr>))"
  "0 < n \<Longrightarrow> n \<le> INT_MAX \<Longrightarrow> parse_loop ch [''--tunmtu'', int_str n] opts = Some (Some (opts\<lparr>tun_mtu := n\<rparr>))"
  "opt_udpgw_remote_server_addr opts = None \<Longrightarrow> v = None \<or> v = Some ''0.0.0.0:0'' \<Longrightarrow>
     parse_loop ch (arg_flag ''--enable-udprelay'' (v \<noteq> None)) opts = Some (Some (opts\<lparr>opt_udpgw_remote_server_addr := v\<rparr>))"
  subgoal by (cases l) (simp_all add: parse_defs)
  subgoal by (simp add: parse_defs)
  subgoal by (simp add: parse_defs)
  subgoal using parse_loglevel_int_str [of n] by (cases "n < 0"; cases opts) (auto simp: parse_defs)
  subgoal using atoi_int_str [of n] by (simp add: parse_defs positive_int_def)
  subgoal using atoi_int_str [of n] by (simp add: parse_defs positive_int_def)
  subgoal by (cases opts) (auto simp: parse_defs)
  done

lemma channel_index: "distinct ch \<Longrightarrow> i < length ch \<Longrightarrow> BLogGlobal_GetChannelByName ch (ch ! i) = Some i"
proof -
  assume a: "distinct ch" "i < length ch"
  then have "ch = take i ch @ ch ! i # drop (i + 1) ch" by (simp add: id_take_nth_drop)
  moreover have "ch ! i \<notin> set (take i ch)" using a by (auto simp: in_set_conv_nth nth_eq_iff_index_eq)
  ultimately have "takeWhile (\<lambda>n. n \<noteq> ch ! i) ch = take i ch" by (metis takeWhile_until)
  then show ?thesis using a by (simp add: BLogGlobal_GetChannelByName_def)
qed

lemma parse_levels:
  assumes "distinct ch" "length ls = length ch" "\<forall>l \<in> set ls. l \<in> {-1..5}" "loglevels opts = replicate (length ch) (-1)"
  shows "k \<le> length ch \<Longrightarrow> parse_loop ch (concat (map (arg_level ch ls) [0..<k])) opts =
    Some (Some (opts\<lparr>loglevels := take k ls @ replicate (length ch - k) (-1)\<rparr>))"
proof (induction k)
  case 0
  then show ?case using assms(4) by (cases opts) simp
next
  case (Suc k)
  let ?o = "opts\<lparr>loglevels := take k ls @ replicate (length ch - k) (-1)\<rparr>"
  have l: "ls ! k \<in> {-1..5}" using assms(2,3) Suc.prems by simp
  have r: "replicate (length ch - k) (-1 :: int) = -1 # replicate (length ch - Suc k) (-1)"
    using Suc.prems by (metis Suc_diff_Suc Suc_le_lessD replicate_Suc)
  have t: "take (Suc k) ls = take k ls @ [ls ! k]" using Suc.prems assms(2) by (simp add: take_Suc_conv_app_nth)
  have "parse_loop ch (arg_level ch ls k) ?o = Some (Some (opts\<lparr>loglevels := take (Suc k) ls @ replicate (length ch - Suc k) (-1)\<rparr>))"
  proof (cases "ls ! k < 0")
    case True
    then have "ls ! k = -1" using l by simp
    then show ?thesis using True r t by (simp add: arg_level_def)
  next
    case False
    then show ?thesis
      using channel_index [OF assms(1), of k] parse_loglevel_int_str [of "ls ! k"] l Suc.prems assms(2) r t
      by (simp add: arg_level_def parse_defs list_update_append)
  qed
  then show ?case using parse_loop_append [OF Suc.IH] Suc.prems by simp
qed

text \<open>The options that the command line can express.\<close>

definition expressible :: "string list \<Rightarrow> options \<Rightarrow> bool" where
  "expressible channels opts \<longleftrightarrow>
     options_ok channels opts \<and> tun_mtu opts \<le> INT_MAX \<and> udpgw_max_connections opts \<le> INT_MAX \<and>
     (opt_udpgw_remote_server_addr opts = None \<or> opt_udpgw_remote_server_addr opts = Some ''0.0.0.0:0'') \<and>
     udpgw_connection_buffer_size opts = DEFAULT_UDPGW_CONNECTION_BUFFER_SIZE \<and> \<not> udpgw_transparent_dns opts \<and>
     check_options opts = Some opts"

lemma default_fields:
  "opt_help (default_options ch a d) = False" "opt_version (default_options ch a d) = False"
  "loglevel (default_options ch a d) = -1" "loglevels (default_options ch a d) = replicate (length ch) (-1)"
  "opt_netif_ipaddr (default_options ch a d) = None" "opt_netif_netmask (default_options ch a d) = None"
  "opt_netif_ip6addr (default_options ch a d) = None" "opt_socks_server_addr (default_options ch a d) = None"
  "opt_username (default_options ch a d) = None" "opt_password (default_options ch a d) = None"
  "opt_password_file (default_options ch a d) = None" "append_source_to_username (default_options ch a d) = False"
  "opt_udpgw_remote_server_addr (default_options ch a d) = None" "fake_proc (default_options ch a d) = False"
  "opt_sock_path (default_options ch a d) = None" "opt_pid (default_options ch a d) = None" "opt_dnsgw (default_options ch a d) = d"
  by (simp_all add: default_options_def)

lemma parse_render:
  assumes "distinct channels" "expressible channels opts"
  shows "parse_loop channels (render channels opts) (default_options channels argv0 None) = Some (Some opts)"
proof -
  have e: "0 < tun_mtu opts" "tun_mtu opts \<le> INT_MAX" "0 < udpgw_max_connections opts" "udpgw_max_connections opts \<le> INT_MAX"
    "loglevel opts \<in> {-1..5}" "length (loglevels opts) = length channels" "\<forall>l \<in> set (loglevels opts). l \<in> {-1..5}"
    "opt_udpgw_remote_server_addr opts = None \<or> opt_udpgw_remote_server_addr opts = Some ''0.0.0.0:0''"
    using assms(2) by (simp_all add: expressible_def options_ok_def)
  have lev: "loglevels o' = replicate (length channels) (-1) \<Longrightarrow>
      parse_loop channels (concat (map (arg_level channels (loglevels opts)) [0..<length channels])) o' =
        Some (Some (o'\<lparr>loglevels := loglevels opts\<rparr>))" for o'
    using parse_levels [OF assms(1) e(6,7), of o' "length channels"] e(6) by simp
  note steps = parse_flag_groups [THEN parse_loop_append] parse_opt_groups [THEN parse_loop_append]
    parse_value_groups(1-3) [THEN parse_loop_append] parse_value_groups(4) [OF _ e(5), THEN parse_loop_append]
    parse_value_groups(5) [OF e(3,4), THEN parse_loop_append] parse_value_groups(6) [OF e(1,2), THEN parse_loop_append]
    parse_value_groups(7) [OF _ e(8), THEN parse_loop_append] lev [THEN parse_loop_append]
  have "parse_loop channels (render channels opts) (default_options channels argv0 None) =
      Some (Some ((default_options channels argv0 None)\<lparr>opt_help := opt_help opts, opt_version := opt_version opts,
        opt_logger := opt_logger opts, logger_syslog_facility := logger_syslog_facility opts,
        logger_syslog_ident := logger_syslog_ident opts, loglevel := loglevel opts, loglevels := loglevels opts,
        opt_netif_ipaddr := opt_netif_ipaddr opts, opt_netif_netmask := opt_netif_netmask opts,
        opt_netif_ip6addr := opt_netif_ip6addr opts, opt_socks_server_addr := opt_socks_server_addr opts,
        opt_username := opt_username opts, opt_password := opt_password opts, opt_password_file := opt_password_file opts,
        append_source_to_username := append_source_to_username opts,
        opt_udpgw_remote_server_addr := opt_udpgw_remote_server_addr opts,
        udpgw_max_connections := udpgw_max_connections opts, tun_mtu := tun_mtu opts, fake_proc := fake_proc opts,
        opt_sock_path := opt_sock_path opts, opt_pid := opt_pid opts, opt_dnsgw := opt_dnsgw opts\<rparr>))"
    unfolding render_def
    by (simp add: steps parse_opt_groups default_fields
        del: append.simps append_Cons append_Nil parse_loop.simps not_None_eq split del: if_split)
  also have "\<dots> = Some (Some opts)"
    using assms(2) by (cases opts) (simp add: expressible_def default_options_def)
  finally show ?thesis .
qed

section \<open>Resolving never fails an assertion\<close>

lemma check_options_required:
  assumes "check_options opts = Some u" "\<not> opt_help opts" "\<not> opt_version opts"
  shows "u = opts \<and> opt_netif_ipaddr opts \<noteq> None \<and> opt_socks_server_addr opts \<noteq> None \<and>
    (opt_username opts \<noteq> None \<longrightarrow> (opt_password opts = None) \<noteq> (opt_password_file opts = None))"
  using assms by (auto simp: check_options_def split: if_splits)

text \<open>What the rest of the program relies on after \<open>process_arguments\<close> succeeds.\<close>

definition settings_ok :: "options \<Rightarrow> settings \<Rightarrow> bool" where
  "settings_ok opts s \<longleftrightarrow>
     bipaddr_type (netif_ipaddr s) = 1 \<and> length (netif_ip6addr s) = 16 \<and>
     \<not> BAddr_IsInvalid (set_socks_server_addr s) \<and>
     (case opt_username opts of
        None \<Rightarrow> socks_auth_info s = [BSocksClient_auth_none]
      | Some u \<Rightarrow> (\<exists>p. socks_auth_info s = [BSocksClient_auth_none, BSocksClient_auth_password (str_bytes u) p])) \<and>
     (opt_dnsgw opts \<noteq> None \<longrightarrow> baddr_type (set_dnsgw s) = 1)"

lemma Parse2_type: "BAddr_Parse2 net str nl nr = Some (addr, a) \<Longrightarrow> baddr_type addr = 1 \<or> baddr_type addr = 2"
  by (auto simp: BAddr_Parse2_def baddr_type_def bind_Some_iff split: if_splits prod.splits)

lemma add_password_ok:
  assumes "opt_username opts \<noteq> None \<longrightarrow> (opt_password opts = None) \<noteq> (opt_password_file opts = None)"
    "socks_auth_info s = [BSocksClient_auth_none]"
  shows "case add_password rf opts s of None \<Rightarrow> False
    | Some (ok, t) \<Rightarrow> netif_ipaddr t = netif_ipaddr s \<and> netif_ip6addr t = netif_ip6addr s \<and>
    set_socks_server_addr t = set_socks_server_addr s \<and>
    (ok \<longrightarrow> (case opt_username opts of None \<Rightarrow> socks_auth_info t = [BSocksClient_auth_none]
      | Some u \<Rightarrow> (\<exists>p. socks_auth_info t = [BSocksClient_auth_none, BSocksClient_auth_password (str_bytes u) p])))"
  using assms by (auto simp: add_password_def split: option.splits) blast

lemma resolve_fields:
  "resolve_udpgw net opts s = (ok, t) \<Longrightarrow> netif_ipaddr t = netif_ipaddr s \<and> netif_ip6addr t = netif_ip6addr s \<and>
     set_socks_server_addr t = set_socks_server_addr s \<and> socks_auth_info t = socks_auth_info s"
  "resolve_dnsgw net opts s = (ok, t) \<Longrightarrow> netif_ipaddr t = netif_ipaddr s \<and> netif_ip6addr t = netif_ip6addr s \<and>
     set_socks_server_addr t = set_socks_server_addr s \<and> socks_auth_info t = socks_auth_info s \<and>
     (ok \<and> opt_dnsgw opts \<noteq> None \<longrightarrow> baddr_type (set_dnsgw t) = 1)"
  by (auto simp: resolve_udpgw_def resolve_dnsgw_def split: option.splits)

lemma process_arguments_ok:
  assumes c: "opt_netif_ipaddr opts \<noteq> None" "opt_socks_server_addr opts \<noteq> None"
    "opt_username opts \<noteq> None \<longrightarrow> (opt_password opts = None) \<noteq> (opt_password_file opts = None)"
    and s: "length (netif_ip6addr s) = 16" "password_file_contents s = None"
  shows "case process_arguments net rf opts s of None \<Rightarrow> False | Some (ok, t) \<Rightarrow> ok \<longrightarrow> settings_ok opts t"
proof -
  obtain ip srv where o: "opt_netif_ipaddr opts = Some ip" "opt_socks_server_addr opts = Some srv" using c(1,2) by auto
  obtain six where six: "parse_netif_ip6addr opts (netif_ip6addr s) = Some six" "\<forall>b. six = Some b \<longrightarrow> length b = 16"
    using s(1) ipaddr6_parse_inside [OF s(1)]
    by (cases "opt_netif_ip6addr opts") (auto simp: stays_inside_def parse_netif_ip6addr_def)
  have final: "case (do { (ok, s) \<leftarrow> add_password rf opts u;
          if \<not> ok then Some (False, s)
          else let (ok, s) = resolve_udpgw net opts s
               in if \<not> ok then Some (False, s) else Some (resolve_dnsgw net opts s) }) of None \<Rightarrow> False | Some (ok, t) \<Rightarrow> ok \<longrightarrow> settings_ok opts t"
    if u: "socks_auth_info u = [BSocksClient_auth_none]" "bipaddr_type (netif_ipaddr u) = 1" "length (netif_ip6addr u) = 16"
      "\<not> BAddr_IsInvalid (set_socks_server_addr u)" for u
  proof -
    from add_password_ok [OF c(3) u(1), of rf] obtain ok t where t: "add_password rf opts u = Some (ok, t)"
      "netif_ipaddr t = netif_ipaddr u" "netif_ip6addr t = netif_ip6addr u" "set_socks_server_addr t = set_socks_server_addr u"
      "ok \<longrightarrow> (case opt_username opts of None \<Rightarrow> socks_auth_info t = [BSocksClient_auth_none]
        | Some u \<Rightarrow> (\<exists>p. socks_auth_info t = [BSocksClient_auth_none, BSocksClient_auth_password (str_bytes u) p]))"
      by (cases "add_password rf opts u") auto
    obtain ok1 v where v: "resolve_udpgw net opts t = (ok1, v)" by (cases "resolve_udpgw net opts t") auto
    obtain ok2 w where w: "resolve_dnsgw net opts v = (ok2, w)" by (cases "resolve_dnsgw net opts v") auto
    have "ok \<Longrightarrow> ok2 \<Longrightarrow> settings_ok opts w"
      using t u resolve_fields(1) [OF v] resolve_fields(2) [OF w] by (auto simp: settings_ok_def split: option.splits)
    then show ?thesis using t(1) v w by (cases ok; cases ok1) auto
  qed
  show ?thesis
  proof (cases "BIPAddr_Resolve net ip False")
    case None
    then show ?thesis using o s(2) by (simp add: process_arguments_def Let_def)
  next
    case (Some a)
    note a = this
    show ?thesis
    proof (cases "bipaddr_type a = 1")
      case False
      then show ?thesis using o s(2) a by (simp add: process_arguments_def Let_def)
    next
      case v4: True
      show ?thesis
      proof (cases six)
        case None
        then show ?thesis using o s(2) a v4 six by (simp add: process_arguments_def Let_def)
      next
        case (Some b)
        note b = this
        show ?thesis
        proof (cases "BAddr_Parse2 net srv None False")
          case None
          then show ?thesis using o s(2) a v4 six b by (simp add: process_arguments_def Let_def)
        next
          case (Some x)
          then obtain addr n where x: "BAddr_Parse2 net srv None False = Some (addr, n)" by (cases x) auto
          then have "\<not> BAddr_IsInvalid addr" using Parse2_type [OF x] by (auto simp: BAddr_IsInvalid_def)
          then show ?thesis using final [of "s\<lparr>netif_ipaddr := a, netif_ip6addr := b, set_socks_server_addr := addr,
              socks_auth_info := [BSocksClient_auth_none]\<rparr>"] o s(2) a v4 six b x
            by (simp add: process_arguments_def Let_def)
        qed
      qed
    qed
  qed
qed

section \<open>Properties\<close>

lemma parsed_options:
  assumes "parse_arguments channels argv dnsgw0 = Some (Some opts)"
  shows "options_ok channels opts"
    "\<not> opt_help opts \<Longrightarrow> \<not> opt_version opts \<Longrightarrow> opt_netif_ipaddr opts \<noteq> None \<and> opt_socks_server_addr opts \<noteq> None \<and>
       (opt_username opts \<noteq> None \<longrightarrow> (opt_password opts = None) \<noteq> (opt_password_file opts = None))"
proof -
  obtain argv0 args u where u: "parse_loop channels args (default_options channels argv0 dnsgw0) = Some (Some u)"
    "check_options u = Some opts"
    using assms by (auto simp: parse_arguments_def bind_Some_iff split: list.splits)
  then have eq: "opts = u" by (auto simp: check_options_def split: if_splits)
  show "options_ok channels opts" using parse_loop_ok [OF default_options_ok u(1)] eq by simp
  show "\<not> opt_help opts \<Longrightarrow> \<not> opt_version opts \<Longrightarrow> opt_netif_ipaddr opts \<noteq> None \<and> opt_socks_server_addr opts \<noteq> None \<and>
       (opt_username opts \<noteq> None \<longrightarrow> (opt_password opts = None) \<noteq> (opt_password_file opts = None))"
    using check_options_required [OF u(2)] eq by simp
qed

text \<open>
  C25 Every valid configuration can be written as a command line that the parser reads back to exactly that configuration:
  no option disturbs another, and only the checks after the loop can reject it.
\<close>

theorem options_roundtrip:
  assumes "distinct channels" "expressible channels opts"
  shows "parse_arguments channels (argv0 # render channels opts) None = Some (Some opts)"
  using parse_render [OF assms] assms(2) by (simp add: parse_arguments_def expressible_def)

theorem options_roundtrip_witness:
  "parse_arguments [''tun2socks'', ''BTap''] (''dvsec'' # render [''tun2socks'', ''BTap'']
     ((default_options [''tun2socks'', ''BTap''] ''dvsec'' None)\<lparr>opt_netif_ipaddr := Some ''172.19.0.2'',
       opt_socks_server_addr := Some ''127.0.0.1:1080'', tun_mtu := 1400, loglevels := [-1, 4], opt_dnsgw := Some ''127.0.0.1:5450''\<rparr>)) None =
   Some (Some ((default_options [''tun2socks'', ''BTap''] ''dvsec'' None)\<lparr>opt_netif_ipaddr := Some ''172.19.0.2'',
       opt_socks_server_addr := Some ''127.0.0.1:1080'', tun_mtu := 1400, loglevels := [-1, 4], opt_dnsgw := Some ''127.0.0.1:5450''\<rparr>))"
  by (rule options_roundtrip)
    (simp_all add: expressible_def options_ok_def default_options_def check_options_def DEFAULT_UDPGW_MAX_CONNECTIONS_def)

text \<open>
  C26 From the command line to the settings: whatever arguments the parser accepts, numbers are positive and levels are in
  range, and, unless help or version was asked for, resolving them never dereferences an option that was
  not given; when it succeeds, the SOCKS server address and the authentication methods satisfy what the
  SOCKS client asserts, and the gateway for DNS is an IPv4 address.
\<close>

theorem arguments_processed_safely:
  assumes "parse_arguments channels argv dnsgw0 = Some (Some opts)"
  shows "options_ok channels opts \<and>
    (opt_help opts \<or> opt_version opts \<or>
      (\<exists>ok s. process_arguments net read_file opts zero_settings = Some (ok, s) \<and>
        (ok \<longrightarrow> settings_ok opts s \<and>
          (\<forall>dest. baddr_type dest = 1 \<or> baddr_type dest = 2 \<longrightarrow>
             BSocksClient_Init connector_ok (set_socks_server_addr s) (socks_auth_info s) dest \<noteq> None))))"
proof -
  have ok: "options_ok channels opts" using parsed_options(1) [OF assms] .
  show ?thesis
  proof (cases "opt_help opts \<or> opt_version opts")
    case False
    then have r: "opt_netif_ipaddr opts \<noteq> None" "opt_socks_server_addr opts \<noteq> None"
      "opt_username opts \<noteq> None \<longrightarrow> (opt_password opts = None) \<noteq> (opt_password_file opts = None)"
      using parsed_options(2) [OF assms] by auto
    from process_arguments_ok [OF r, of zero_settings net read_file] obtain t s where
      s: "process_arguments net read_file opts zero_settings = Some (t, s)" "t \<longrightarrow> settings_ok opts s"
      by (auto simp: zero_settings_def split: option.splits)
    have "BSocksClient_Init connector_ok (set_socks_server_addr s) (socks_auth_info s) dest \<noteq> None"
      if "settings_ok opts s" "baddr_type dest = 1 \<or> baddr_type dest = 2" for dest
      using that by (cases connector_ok) (auto simp: settings_ok_def BSocksClient_Init_def BSocksClient_auth_none_def
          BSocksClient_auth_password_def split: option.splits)
    then show ?thesis using ok s by blast
  qed (use ok in blast)
qed

definition ex_argv :: "string list" where
  "ex_argv = [''dvsec'', ''--netif-ipaddr'', ''172.19.0.2'', ''--socks-server-addr'', ''127.0.0.1:1080'', ''--tunmtu'', ''1400'']"

definition ex_net :: resolver where
  "ex_net = \<lparr>gai4 = (\<lambda>_. ipaddr_parse_ipv4_addr), gai6 = (\<lambda>_ _. None)\<rparr>"

theorem arguments_processed_safely_witness:
  "\<exists>opts ok s. parse_arguments [''tun2socks''] ex_argv None = Some (Some opts) \<and> options_ok [''tun2socks''] opts \<and>
    process_arguments ex_net (\<lambda>_. None) opts zero_settings = Some (ok, s) \<and> (ok \<longrightarrow> settings_ok opts s)"
proof -
  have "(case parse_arguments [''tun2socks''] ex_argv None of Some (Some opts) \<Rightarrow> \<not> opt_help opts \<and> \<not> opt_version opts | _ \<Rightarrow> False)"
    by code_simp
  then obtain opts where o: "parse_arguments [''tun2socks''] ex_argv None = Some (Some opts)" "\<not> opt_help opts" "\<not> opt_version opts"
    by (auto split: option.splits)
  from arguments_processed_safely [OF o(1), of ex_net "\<lambda>_. None" True] o show ?thesis by blast
qed

end
