(* ===== verification/Tun2socks_Udp.thy ===== *)
theory Tun2socks_Udp
  imports BAddr
begin

text \<open>
  The UDP path of \<open>tun2socks/tun2socks.c\<close> between the TUN device and the UDP relay:
  \<open>process_device_udp_packet\<close>, which recognises a UDP packet read from the device and hands its
  payload to the relay, and \<open>udpgw_client_handler_received\<close>, which builds the IP packet for a
  payload that came back.  The two are shown to be inverse, the packets the second one builds
  to carry valid checksums, and the packets the first one accepts are characterised exactly.
\<close>

unbundle bit_operations_syntax

section \<open>Configuration read by the UDP path\<close>

record udp_env =
  have_udpgw :: bool
  have_dnsgw :: bool
  have_ip6addr :: bool
  env_udp_mtu :: int
  device_mtu :: int

section \<open>DNS header\<close>

text \<open>
  \<open>DnsHeader\<close> is laid out by the ABI of the target with the first bit field in the least
  significant bit: \<open>qr\<close> is the top bit of the third byte and \<open>rcode\<close> the low nibble of the
  fourth.
\<close>

definition sizeof_DnsHeader :: nat where "sizeof_DnsHeader = 12"

definition dns_qr :: "bytes \<Rightarrow> u8" where
  "dns_qr d = drop_bit 7 (d ! 2)"

definition dns_rcode :: "bytes \<Rightarrow> u8" where
  "dns_rcode d = d ! 3 AND 0x0F"

definition dns_ans_count :: "bytes \<Rightarrow> u16" where
  "dns_ans_count d = load16 (drop 6 d)"

definition dns_auth_count :: "bytes \<Rightarrow> u16" where
  "dns_auth_count d = load16 (drop 8 d)"

definition is_dns_query :: "bytes \<Rightarrow> bool" where
  "is_dns_query d =
     (if length d < sizeof_DnsHeader then False
      else dns_qr d = 0 \<and> dns_rcode d = 0 \<and> dns_ans_count d = 0 \<and> dns_auth_count d = 0)"

section \<open>From the device to the relay\<close>

text \<open>
  The result \<^term>\<open>Some (local_addr, remote_addr, is_dns, data)\<close> is the call of
  \<open>SocksUdpGwClient_SubmitPacket\<close> followed by \<open>return 1\<close>; \<^term>\<open>None\<close> is the label \<open>fail\<close>.
\<close>

type_synonym udp_submission = "BAddr \<times> BAddr \<times> bool \<times> bytes"

definition parse_udp4 :: "udp_env \<Rightarrow> bytes \<Rightarrow> udp_submission option" where
  "parse_udp4 env data =
     (if length data < sizeof_ipv4_header \<or> data ! 9 \<noteq> IPV4_PROTOCOL_UDP then None
      else case ipv4_check data of None \<Rightarrow> None | Some (iph, data) \<Rightarrow>
      (case udp_check data of None \<Rightarrow> None | Some (udph, data) \<Rightarrow>
        let checksum_in_packet = udp_cksum udph;
            udph = udph\<lparr>udp_cksum := 0\<rparr>;
            checksum_computed = udp_checksum udph data (source_address iph) (destination_address iph)
        in if checksum_in_packet \<noteq> checksum_computed then None
           else let is_dns = (have_dnsgw env \<and> dest_port udph = hton16 53);
                    is_dns = (if is_dns then is_dns_query data else is_dns)
                in Some (BAddr_MakeIPv4 (source_address iph) (source_port udph),
                         BAddr_MakeIPv4 (destination_address iph) (dest_port udph), is_dns, data)))"

definition parse_udp6 :: "udp_env \<Rightarrow> bytes \<Rightarrow> udp_submission option" where
  "parse_udp6 env data =
     (if \<not> have_ip6addr env then None
      else if length data < sizeof_ipv6_header \<or> data ! 6 \<noteq> IPV6_NEXT_UDP then None
      else case ipv6_check data of None \<Rightarrow> None | Some (iph, data) \<Rightarrow>
      (case udp_check data of None \<Rightarrow> None | Some (udph, data) \<Rightarrow>
        let checksum_in_packet = udp_cksum udph;
            udph = udph\<lparr>udp_cksum := 0\<rparr>;
            checksum_computed = udp_ip6_checksum udph data (source_address6 iph) (destination_address6 iph)
        in if checksum_in_packet \<noteq> checksum_computed then None
           else Some (BAddr_MakeIPv6 (source_address6 iph) (source_port udph),
                      BAddr_MakeIPv6 (destination_address6 iph) (dest_port udph), False, data)))"

definition process_device_udp_packet :: "udp_env \<Rightarrow> bytes \<Rightarrow> udp_submission option" where
  "process_device_udp_packet env data =
     (if \<not> have_udpgw env then None
      else let ip_version = (if 0 < length data then drop_bit 4 (data ! 0) else 0) in
      case (if ip_version = 4 then parse_udp4 env data
            else if ip_version = 6 then parse_udp6 env data
            else None) of
        None \<Rightarrow> None
      | Some (local_addr, remote_addr, is_dns, data) \<Rightarrow>
          if int (length data) > env_udp_mtu env then None
          else Some (local_addr, remote_addr, is_dns, data))"

section \<open>From the relay to the device\<close>

definition build_udp4 :: "u32 \<Rightarrow> u16 \<Rightarrow> u32 \<Rightarrow> u16 \<Rightarrow> bytes \<Rightarrow> bytes" where
  "build_udp4 lip lport rip rport data =
     (let iph = \<lparr>version4_ihl4 = IPV4_MAKE_VERSION_IHL sizeof_ipv4_header, ds = hton8 0,
                 total_length = hton16 (word_of_nat (sizeof_ipv4_header + sizeof_udp_header + length data)),
                 identification = hton16 0, flags3_fragmentoffset13 = hton16 0, ttl = hton8 64,
                 protocol = hton8 IPV4_PROTOCOL_UDP, ip_checksum = hton16 0,
                 source_address = rip, destination_address = lip\<rparr>;
          iph = iph\<lparr>ip_checksum := ipv4_checksum iph [] 0\<rparr>;
          udph = \<lparr>source_port = rport, dest_port = lport,
                  udp_length = hton16 (word_of_nat (sizeof_udp_header + length data)),
                  udp_cksum = hton16 0\<rparr>;
          udph = udph\<lparr>udp_cksum := udp_checksum udph data (source_address iph) (destination_address iph)\<rparr>
      in ipv4_header_bytes iph @ udp_header_bytes udph @ data)"

definition build_udp6 :: "bytes \<Rightarrow> u16 \<Rightarrow> bytes \<Rightarrow> u16 \<Rightarrow> bytes \<Rightarrow> bytes" where
  "build_udp6 lip lport rip rport data =
     (let iph = \<lparr>version4_tc4 = hton8 (push_bit 4 6), tc4_fl4 = hton8 0, fl = hton16 0,
                 payload_length = hton16 (word_of_nat (sizeof_udp_header + length data)),
                 next_header = hton8 IPV6_NEXT_UDP, hop_limit = hton8 64,
                 source_address6 = take 16 rip, destination_address6 = take 16 lip\<rparr>;
          udph = \<lparr>source_port = rport, dest_port = lport,
                  udp_length = hton16 (word_of_nat (sizeof_udp_header + length data)),
                  udp_cksum = hton16 0\<rparr>;
          udph = udph\<lparr>udp_cksum := udp_ip6_checksum udph data (source_address6 iph) (destination_address6 iph)\<rparr>
      in ipv6_header_bytes iph @ udp_header_bytes udph @ data)"

text \<open>
  The handler of packets coming back from the relay.  \<^term>\<open>Some None\<close> is an early return, and
  \<^term>\<open>Some (Some p)\<close> the call \<open>BTap_Send(&device, p)\<close>; \<^term>\<open>None\<close> is a failed assertion.
\<close>

definition udpgw_client_handler_received :: "udp_env \<Rightarrow> BAddr \<Rightarrow> BAddr \<Rightarrow> bytes \<Rightarrow> bytes option option" where
  "udpgw_client_handler_received env local_addr remote_addr data =
     ASSERT (have_udpgw env) (
     ASSERT (baddr_type local_addr = 1 \<or> baddr_type local_addr = 2) (
     ASSERT (baddr_type local_addr = baddr_type remote_addr) (
     let data_len = int (length data) in
     case (local_addr, remote_addr) of
       (BADDR_IPV4 lip lport, BADDR_IPV4 rip rport) \<Rightarrow>
         if data_len > UINT16_MAX - int (sizeof_ipv4_header + sizeof_udp_header) \<or>
            data_len > device_mtu env - int (sizeof_ipv4_header + sizeof_udp_header)
         then Some None
         else Some (Some (build_udp4 lip lport rip rport data))
     | (BADDR_IPV6 lip lport, BADDR_IPV6 rip rport) \<Rightarrow>
         if \<not> have_ip6addr env then Some None
         else if data_len > UINT16_MAX - int sizeof_udp_header \<or>
                 data_len > device_mtu env - int (sizeof_ipv6_header + sizeof_udp_header)
         then Some None
         else Some (Some (build_udp6 lip lport rip rport data))
     | _ \<Rightarrow> None)))"

text \<open>The largest payload \<open>udpgw_client_handler_received\<close> passes on, per address family.\<close>

definition udp_room :: "udp_env \<Rightarrow> BAddr \<Rightarrow> int" where
  "udp_room env a =
     (case a of
        BADDR_IPV4 _ _ \<Rightarrow> min 65507 (device_mtu env - 28)
      | BADDR_IPV6 _ _ \<Rightarrow> (if have_ip6addr env then min 65527 (device_mtu env - 48) else -1)
      | _ \<Rightarrow> -1)"

text \<open>What it means for a packet to carry a datagram over IPv4 between two addresses.\<close>

definition carries_udp4 :: "bytes \<Rightarrow> BAddr \<Rightarrow> BAddr \<Rightarrow> bytes \<Rightarrow> bool" where
  "carries_udp4 data l r pl =
     (let iph = ipv4_header_of data; hl = unat (IPV4_GET_IHL iph) * 4;
          udph = udp_header_of (drop hl data)
      in 20 \<le> hl \<and> hl + 8 + length pl \<le> unat (ntoh16 (total_length iph)) \<and>
         unat (ntoh16 (total_length iph)) \<le> length data \<and>
         protocol iph = IPV4_PROTOCOL_UDP \<and>
         be_sum (take hl data) mod 65535 = 0 \<and>
         l = BADDR_IPV4 (source_address iph) (source_port udph) \<and>
         r = BADDR_IPV4 (destination_address iph) (dest_port udph) \<and>
         unat (ntoh16 (udp_length udph)) = 8 + length pl \<and>
         pl = take (length pl) (drop (hl + 8) data) \<and>
         udp_total_sum udph pl (store32 (source_address iph)) (store32 (destination_address iph))
           mod 65535 = 0)"

definition built_udp4_field :: "bytes \<Rightarrow> u16" where
  "built_udp4_field pkt = ntoh16 (udp_cksum (udp_header_of (drop 20 pkt)))"

section \<open>Parsing what was built\<close>

lemma sum_loop_none [simp]: "sum_loop p i i t = t"
  by (simp add: sum_loop.simps)

lemma udp_check_built:
  assumes "udp_length h = hton16 (word_of_nat (8 + length data))" and "length data \<le> 65527"
  shows "udp_check (udp_header_bytes h @ data) = Some (h, data)"
proof -
  have "unat (ntoh16 (udp_length h)) = 8 + length data"
    using assms by (simp add: unat_8_plus)
  then show ?thesis
    by (simp add: udp_check_def Let_def sizeof_defs)
qed

lemma IPV4_built_header:
  "version4_ihl4 h = IPV4_MAKE_VERSION_IHL 20 \<Longrightarrow> IPV4_GET_VERSION h = 4"
  "version4_ihl4 h = IPV4_MAKE_VERSION_IHL 20 \<Longrightarrow> IPV4_GET_IHL h = 5"
  by (simp_all add: IPV4_GET_VERSION_def IPV4_GET_IHL_def IPV4_MAKE_VERSION_IHL_def)

lemma ipv4_checksum_no_extra: "ipv4_checksum h e 0 = ipv4_checksum h [] 0"
  by (simp add: ipv4_checksum_def)

lemma ipv4_check_built:
  assumes "version4_ihl4 h = IPV4_MAKE_VERSION_IHL 20"
    and "total_length h = hton16 (word_of_nat (20 + length pl))" and "length pl \<le> 65515"
    and "ip_checksum h = ipv4_checksum (h\<lparr>ip_checksum := 0\<rparr>) [] 0"
  shows "ipv4_check (ipv4_header_bytes h @ pl) = Some (h, pl)"
proof -
  have tot: "unat (ntoh16 (total_length h)) = 20 + length pl"
    using assms(2,3) unat_word16_of_nat [of "20 + length pl"] by (simp del: of_nat_add)
  have ihl: "unat (IPV4_GET_IHL h) * 4 = 20"
    using IPV4_built_header(2) [OF assms(1)] by simp
  have ck: "ipv4_checksum (h\<lparr>ip_checksum := 0\<rparr>) pl 0 = ip_checksum h"
    using assms(4) by (simp only: ipv4_checksum_no_extra [of _ pl])
  show ?thesis
    using IPV4_built_header(1) [OF assms(1)]
    by (simp add: ipv4_check_def Let_def sizeof_defs tot ihl ck)
qed

lemma ipv6_check_built:
  assumes "version4_tc4 h = hton8 (push_bit 4 6)"
    and "payload_length h = hton16 (word_of_nat (length pl))" and "length pl \<le> 65535"
    and "length (source_address6 h) = 16" and "length (destination_address6 h) = 16"
  shows "ipv6_check (ipv6_header_bytes h @ pl) = Some (h, pl)"
proof -
  have tot: "unat (ntoh16 (payload_length h)) = length pl"
    using assms(2,3) unat_word16_of_nat [of "length pl"] by (simp del: of_nat_add)
  have ver: "drop_bit 4 (ntoh8 (version4_tc4 h)) = 6"
    by (simp add: assms(1) ntoh8_def hton8_def)
  show ?thesis
    by (simp add: ipv6_check_def Let_def sizeof_defs tot ver assms(4,5))
qed

lemma parse_build_udp4:
  assumes "length data \<le> 65507"
  shows "parse_udp4 env (build_udp4 lip lport rip rport data) =
    Some (BAddr_MakeIPv4 rip rport, BAddr_MakeIPv4 lip lport,
          have_dnsgw env \<and> lport = hton16 53 \<and> is_dns_query data, data)"
proof -
  define udph0 where "udph0 = \<lparr>source_port = rport, dest_port = lport,
    udp_length = hton16 (word_of_nat (8 + length data)), udp_cksum = 0\<rparr>"
  define udph where "udph = udph0\<lparr>udp_cksum := udp_checksum udph0 data rip lip\<rparr>"
  define iph0 where "iph0 = \<lparr>version4_ihl4 = IPV4_MAKE_VERSION_IHL 20, ds = 0,
    total_length = hton16 (word_of_nat (28 + length data)), identification = 0,
    flags3_fragmentoffset13 = 0, ttl = 64, protocol = IPV4_PROTOCOL_UDP, ip_checksum = 0,
    source_address = rip, destination_address = lip\<rparr>"
  define iph where "iph = iph0\<lparr>ip_checksum := ipv4_checksum iph0 [] 0\<rparr>"
  have b: "build_udp4 lip lport rip rport data = ipv4_header_bytes iph @ udp_header_bytes udph @ data"
    by (simp add: build_udp4_def Let_def sizeof_defs hton8_def iph_def iph0_def udph_def udph0_def)
  have proto: "(ipv4_header_bytes iph @ udp_header_bytes udph @ data) ! 9 = IPV4_PROTOCOL_UDP"
    by (simp add: ipv4_header_bytes_def nth_append iph_def iph0_def)
  have c: "ipv4_check (ipv4_header_bytes iph @ udp_header_bytes udph @ data)
      = Some (iph, udp_header_bytes udph @ data)"
    by (rule ipv4_check_built) (use assms in \<open>simp_all add: iph_def iph0_def\<close>)
  have u: "udp_check (udp_header_bytes udph @ data) = Some (udph, data)"
    by (rule udp_check_built) (use assms in \<open>simp_all add: udph_def udph0_def\<close>)
  have z: "udph\<lparr>udp_cksum := 0\<rparr> = udph0"
    by (simp add: udph_def udph0_def)
  have f: "udp_cksum udph = udp_checksum udph0 data rip lip" "dest_port udph0 = lport"
    "source_port udph0 = rport" "source_address iph = rip" "destination_address iph = lip"
    by (simp_all add: udph_def udph0_def iph_def iph0_def)
  show ?thesis
    unfolding b parse_udp4_def proto c option.case prod.case u Let_def z f
    by (auto simp: sizeof_defs)
qed

lemma parse_build_udp6:
  assumes "length data \<le> 65527" and "have_ip6addr env" and "length lip = 16" and "length rip = 16"
  shows "parse_udp6 env (build_udp6 lip lport rip rport data) =
    Some (BAddr_MakeIPv6 rip rport, BAddr_MakeIPv6 lip lport, False, data)"
proof -
  define udph0 where "udph0 = \<lparr>source_port = rport, dest_port = lport,
    udp_length = hton16 (word_of_nat (8 + length data)), udp_cksum = 0\<rparr>"
  define udph where "udph = udph0\<lparr>udp_cksum := udp_ip6_checksum udph0 data rip lip\<rparr>"
  define iph where "iph = \<lparr>version4_tc4 = hton8 (push_bit 4 6), tc4_fl4 = 0, fl = 0,
    payload_length = hton16 (word_of_nat (8 + length data)), next_header = IPV6_NEXT_UDP,
    hop_limit = 64, source_address6 = rip, destination_address6 = lip\<rparr>"
  have b: "build_udp6 lip lport rip rport data = ipv6_header_bytes iph @ udp_header_bytes udph @ data"
    using assms by (simp add: build_udp6_def Let_def sizeof_defs hton8_def iph_def udph_def udph0_def)
  have proto: "(ipv6_header_bytes iph @ udp_header_bytes udph @ data) ! 6 = IPV6_NEXT_UDP"
    by (simp add: ipv6_header_bytes_def nth_append iph_def)
  have l: "length (ipv6_header_bytes iph) = 40"
    using assms by (simp add: iph_def)
  have c: "ipv6_check (ipv6_header_bytes iph @ udp_header_bytes udph @ data)
      = Some (iph, udp_header_bytes udph @ data)"
    by (rule ipv6_check_built) (use assms in \<open>simp_all add: iph_def\<close>)
  have u: "udp_check (udp_header_bytes udph @ data) = Some (udph, data)"
    by (rule udp_check_built) (use assms in \<open>simp_all add: udph_def udph0_def\<close>)
  have z: "udph\<lparr>udp_cksum := 0\<rparr> = udph0"
    by (simp add: udph_def udph0_def)
  have f: "udp_cksum udph = udp_ip6_checksum udph0 data rip lip" "dest_port udph0 = lport"
    "source_port udph0 = rport" "source_address6 iph = rip" "destination_address6 iph = lip"
    by (simp_all add: udph_def udph0_def iph_def)
  show ?thesis
    unfolding b parse_udp6_def proto c option.case prod.case u Let_def z f
    using assms l by (simp add: sizeof_defs)
qed

lemma build_udp4_version: "drop_bit 4 (build_udp4 lip lport rip rport data ! 0) = 4"
  by (simp add: build_udp4_def Let_def ipv4_header_bytes_def sizeof_defs IPV4_MAKE_VERSION_IHL_def)

lemma build_udp6_version: "drop_bit 4 (build_udp6 lip lport rip rport data ! 0) = 6"
  by (simp add: build_udp6_def Let_def ipv6_header_bytes_def hton8_def)

lemma length_build_udp4 [simp]: "length (build_udp4 lip lport rip rport data) = 28 + length data"
  by (simp add: build_udp4_def Let_def)

lemma length_build_udp6 [simp]:
  "length lip = 16 \<Longrightarrow> length rip = 16 \<Longrightarrow>
   length (build_udp6 lip lport rip rport data) = 48 + length data"
  by (simp add: build_udp6_def Let_def)

lemma build_udp4_nonempty [simp]: "build_udp4 lip lport rip rport data \<noteq> []"
  by (simp add: build_udp4_def Let_def ipv4_header_bytes_def)

lemma build_udp6_nonempty [simp]: "build_udp6 lip lport rip rport data \<noteq> []"
  by (simp add: build_udp6_def Let_def ipv6_header_bytes_def)

text \<open>
  C15 UDP relay round trip.  A payload that comes back from the relay for a local and a remote
  address of the same family, and that fits the device, is sent to the device as one packet no
  longer than the device MTU, and \<open>process_device_udp_packet\<close> recognises exactly that datagram
  in it: the same payload, from the remote to the local address.
\<close>

theorem udp_relay_roundtrip:
  assumes "have_udpgw env" and "ip_wf l" and "ip_wf r" and "l \<noteq> BADDR_NONE"
    and "baddr_type l = baddr_type r"
    and "int (length data) \<le> udp_room env l" and "int (length data) \<le> env_udp_mtu env"
  shows "\<exists>pkt. udpgw_client_handler_received env l r data = Some (Some pkt) \<and>
    int (length pkt) \<le> device_mtu env \<and>
    process_device_udp_packet env pkt = Some (r, l, have_dnsgw env \<and> baddr_type l = 1 \<and>
      BAddr_GetPort l = Some (hton16 53) \<and> is_dns_query data, data)"
proof (cases l)
  case (BADDR_IPV4 lip lport)
  then obtain rip rport where r: "r = BADDR_IPV4 rip rport"
    using assms by (cases r) (auto simp: baddr_type_def)
  let ?p = "build_udp4 lip lport rip rport data"
  have "int (length data) \<le> 65507" "int (length data) + 28 \<le> device_mtu env"
    using assms BADDR_IPV4 by (auto simp: udp_room_def)
  then show ?thesis using assms BADDR_IPV4 r
    by (simp add: udpgw_client_handler_received_def baddr_type_def Let_def sizeof_defs
        process_device_udp_packet_def build_udp4_version parse_build_udp4 make_addr_defs BAddr_GetPort_def)
next
  case (BADDR_IPV6 lip lport)
  then obtain rip rport where r: "r = BADDR_IPV6 rip rport"
    using assms by (cases r) (auto simp: baddr_type_def)
  have "int (length data) \<le> 65527" "int (length data) + 48 \<le> device_mtu env" "have_ip6addr env"
    using assms BADDR_IPV6 by (auto simp: udp_room_def split: if_splits)
  then show ?thesis using assms BADDR_IPV6 r
    by (simp add: udpgw_client_handler_received_def baddr_type_def Let_def sizeof_defs
        process_device_udp_packet_def build_udp6_version parse_build_udp6 make_addr_defs)
qed (use assms in auto)

theorem udp_relay_roundtrip_witness:
  "\<exists>pkt. udpgw_client_handler_received \<lparr>have_udpgw = True, have_dnsgw = True, have_ip6addr = False,
      env_udp_mtu = 1472, device_mtu = 1500\<rparr>
     (BADDR_IPV4 0x0100000A 0x3500) (BADDR_IPV4 0x08080808 0x3930) [1, 2, 3] = Some (Some pkt) \<and>
   int (length pkt) \<le> 1500 \<and>
   process_device_udp_packet \<lparr>have_udpgw = True, have_dnsgw = True, have_ip6addr = False,
      env_udp_mtu = 1472, device_mtu = 1500\<rparr> pkt
     = Some (BADDR_IPV4 0x08080808 0x3930, BADDR_IPV4 0x0100000A 0x3500, False, [1, 2, 3])"
  using udp_relay_roundtrip [of "\<lparr>have_udpgw = True, have_dnsgw = True, have_ip6addr = False,
      env_udp_mtu = 1472, device_mtu = 1500\<rparr>" "BADDR_IPV4 0x0100000A 0x3500"
      "BADDR_IPV4 0x08080808 0x3930" "[1, 2, 3]"]
  by (simp add: udp_room_def baddr_type_def is_dns_query_def sizeof_DnsHeader_def)

section \<open>What is accepted\<close>

lemma ipv4_check_SomeD:
  assumes "ipv4_check data = Some (h, pl)"
    and "hl = unat (IPV4_GET_IHL h) * 4" and "tot = unat (ntoh16 (total_length h))"
  shows "h = ipv4_header_of data" and "20 \<le> hl" and "hl \<le> tot" and "tot \<le> length data"
    and "pl = take (tot - hl) (drop hl data)"
    and "be_sum (take hl data) mod 65535 = 0"
proof -
  show h: "h = ipv4_header_of data"
    using assms(1) by (auto simp: ipv4_check_def Let_def split: if_splits)
  show hl: "20 \<le> hl" "hl \<le> tot" "tot \<le> length data"
    using assms by (auto simp: ipv4_check_def Let_def sizeof_defs split: if_splits)
  show "pl = take (tot - hl) (drop hl data)"
    using assms by (auto simp: ipv4_check_def Let_def sizeof_defs split: if_splits)
  have "20 \<le> length data" "IPV4_GET_VERSION (ipv4_header_of data) = 4"
    using assms by (auto simp: ipv4_check_def Let_def sizeof_defs split: if_splits)
  then show "be_sum (take hl data) mod 65535 = 0"
    using ipv4_check_accepts [of data hl tot] hl assms h by (simp split: if_splits)
qed

lemma udp_check_SomeD:
  assumes "udp_check data = Some (h, pl)"
  shows "h = udp_header_of data" and "8 + length pl \<le> length data"
    and "pl = take (length pl) (drop 8 data)" and "length pl \<le> 65527"
    and "unat (ntoh16 (udp_length h)) = 8 + length pl"
  using assms unat_u16_lt [of "ntoh16 (udp_length (udp_header_of data))"]
  by (auto simp: udp_check_def Let_def sizeof_defs split: if_splits)

lemma udp_header_of_take:
  assumes "8 \<le> n" and "n \<le> length d"
  shows "udp_header_of (take n d) = udp_header_of d"
proof -
  have t: "take n d = take 8 d @ drop 8 (take n d)"
    using assms by (metis append_take_drop_id min.absorb1 take_take)
  have d: "d = take 8 d @ drop 8 d" by simp
  have "udp_header_of (take 8 d @ x) = udp_header_of (take 8 d @ y)" for x y
    using assms by (simp add: udp_header_of_def read_write_defs nth_append)
  then show ?thesis using t d by metis
qed

lemma parse_udp4_sound:
  assumes "parse_udp4 env data = Some (l, r, dns, pl)"
  shows "carries_udp4 data l r pl" and "dns \<longrightarrow> have_dnsgw env \<and> BAddr_GetPort r = Some (hton16 53) \<and> is_dns_query pl"
proof -
  obtain iph d udph where c: "ipv4_check data = Some (iph, d)" "udp_check d = Some (udph, pl)"
    and a: "udp_cksum udph = udp_checksum (udph\<lparr>udp_cksum := 0\<rparr>) pl (source_address iph) (destination_address iph)"
    and p: "data ! 9 = IPV4_PROTOCOL_UDP"
    and lr: "l = BADDR_IPV4 (source_address iph) (source_port udph)"
      "r = BADDR_IPV4 (destination_address iph) (dest_port udph)"
    and dns: "dns \<longrightarrow> have_dnsgw env \<and> dest_port udph = hton16 53 \<and> is_dns_query pl"
    using assms
    by (auto simp: parse_udp4_def Let_def make_addr_defs split: if_splits option.splits prod.splits)
  define hl where "hl = unat (IPV4_GET_IHL iph) * 4"
  define tot where "tot = unat (ntoh16 (total_length iph))"
  note i = ipv4_check_SomeD [OF c(1) hl_def tot_def]
  note u = udp_check_SomeD [OF c(2)]
  have ul: "hl + 8 + length pl \<le> tot" "8 \<le> tot - hl"
    using u(2) i(3,4) by (simp_all add: i(5))
  have "udp_header_of d = udp_header_of (drop hl data)"
    using ul i(4) by (simp add: i(5) udp_header_of_take)
  moreover have "pl = take (length pl) (drop (hl + 8) data)"
    using u(3) ul by (simp add: i(5) drop_take add.commute)
  moreover have "udp_total_sum udph pl (store32 (source_address iph)) (store32 (destination_address iph)) mod 65535 = 0"
    using a udp_checksum_accepts [OF u(4)] by blast
  moreover have "protocol iph = IPV4_PROTOCOL_UDP"
    using p i(1) by (simp add: ipv4_header_of_def)
  ultimately show "carries_udp4 data l r pl"
    using i(1,2,4,6) u(1,5) ul(1) lr
    unfolding carries_udp4_def Let_def i(1) [symmetric] hl_def [symmetric] tot_def [symmetric]
    by simp
  show "dns \<longrightarrow> have_dnsgw env \<and> BAddr_GetPort r = Some (hton16 53) \<and> is_dns_query pl"
    using dns lr by (simp add: BAddr_GetPort_def)
qed

text \<open>
  C19 Soundness of the UDP classifier on IPv4.  Whatever \<open>process_device_udp_packet\<close> hands to the
  relay is a datagram the packet really carries: the header lengths are consistent and inside the
  packet, both one's complement sums are zero, the addresses are those of the headers, the
  payload is the right slice of the packet and within the relay's MTU, and it is flagged as DNS
  only if it is a query to port 53 and a DNS gateway is configured.
\<close>

theorem process_device_udp_packet_sound:
  assumes "process_device_udp_packet env data = Some (l, r, dns, pl)"
    and "drop_bit 4 (data ! 0) = 4"
  shows "have_udpgw env \<and> int (length pl) \<le> env_udp_mtu env \<and> carries_udp4 data l r pl \<and>
    (dns \<longrightarrow> have_dnsgw env \<and> BAddr_GetPort r = Some (hton16 53) \<and> is_dns_query pl)"
  using assms parse_udp4_sound [of env data l r dns pl]
  by (simp add: process_device_udp_packet_def Let_def split: if_splits option.splits prod.splits)

theorem process_device_udp_packet_sound_witness:
  "carries_udp4 (build_udp4 0x0100000A 0x3500 0x08080808 0x3930 [7])
     (BADDR_IPV4 0x08080808 0x3930) (BADDR_IPV4 0x0100000A 0x3500) [7]"
proof -
  let ?env = "\<lparr>have_udpgw = True, have_dnsgw = False, have_ip6addr = False, env_udp_mtu = 1472, device_mtu = 1500\<rparr>"
  have "process_device_udp_packet ?env (build_udp4 0x0100000A 0x3500 0x08080808 0x3930 [7])
    = Some (BADDR_IPV4 0x08080808 0x3930, BADDR_IPV4 0x0100000A 0x3500, False, [7])"
    by (simp add: process_device_udp_packet_def build_udp4_version parse_build_udp4 make_addr_defs)
  from process_device_udp_packet_sound [OF this build_udp4_version] show ?thesis by simp
qed

section \<open>The checksum the relay sends\<close>

lemma built_udp4_field_eq:
  "built_udp4_field (build_udp4 lip lport rip rport data) =
   ntoh16 (udp_checksum \<lparr>source_port = rport, dest_port = lport,
     udp_length = hton16 (word_of_nat (8 + length data)), udp_cksum = 0\<rparr> data rip lip)"
  by (simp add: built_udp4_field_def build_udp4_def Let_def sizeof_defs)

text \<open>
  C36 The UDP checksum of the packets sent to the device.  It is never \<open>0xFFFF\<close>, and it is zero
  exactly when the one's complement sum of the datagram is zero: the branch of \<open>udp_checksum\<close>
  that should replace a zero checksum by \<open>0xFFFF\<close> is never taken, because it tests the 32-bit
  complement, whose upper half is all ones.  On the wire zero means that the datagram carries no
  checksum.
\<close>

theorem udp4_checksum_sent:
  assumes "length data \<le> 65507"
  shows "built_udp4_field (build_udp4 lip lport rip rport data) \<noteq> 0xFFFF \<and>
    (built_udp4_field (build_udp4 lip lport rip rport data) = 0 \<longleftrightarrow>
     udp_total_sum \<lparr>source_port = rport, dest_port = lport,
        udp_length = hton16 (word_of_nat (8 + length data)), udp_cksum = 0\<rparr>
       data (store32 rip) (store32 lip) mod 65535 = 0)"
proof -
  let ?h = "\<lparr>source_port = rport, dest_port = lport,
      udp_length = hton16 (word_of_nat (8 + length data)), udp_cksum = 0\<rparr>"
  have e: "unat (built_udp4_field (build_udp4 lip lport rip rport data))
    = 65535 - ones_fold (udp_total_sum ?h data (store32 rip) (store32 lip))"
    using assms by (simp add: built_udp4_field_eq udp_checksum_eq)
  have pos: "0 < udp_total_sum ?h data (store32 rip) (store32 lip)"
    by (simp add: udp_total_sum_def udp_pseudo_sum_def)
  show ?thesis
    using e pos by (auto simp: word_unat_eq_iff ones_fold_def split: if_splits)
qed

theorem udp4_checksum_sent_witness:
  "built_udp4_field (build_udp4 0x0100000A 0x3500 0x08080808 0x3930 [0xB5, 0x5B]) = 0"
proof -
  have "udp_total_sum \<lparr>source_port = 0x3930, dest_port = 0x3500,
        udp_length = hton16 (word_of_nat (8 + length ([0xB5, 0x5B] :: bytes))), udp_cksum = 0\<rparr>
       [0xB5, 0x5B] (store32 0x08080808) (store32 0x0100000A) mod 65535 = 0"
    by (simp add: udp_total_sum_def udp_pseudo_sum_def udp_header_bytes_def store_defs hton16_def
        badvpn_reverse16_def read_write_defs)
  then show ?thesis
    using udp4_checksum_sent [of "[0xB5, 0x5B]" "0x0100000A" "0x3500" "0x08080808" "0x3930"] by simp
qed

end
