(* ===== verification/Device.thy ===== *)
theory Device
  imports Flow Tun2socks_Udp
begin

text \<open>
  The TUN device and the two paths between it and lwIP: \<open>tuntap/BTap.c\<close> (the Linux branch), the reader chain of
  device, \<open>SinglePacketBuffer\<close> and \<open>device_read_handler_send\<close>, and \<open>common_netif_output\<close> of
  \<open>tun2socks/tun2socks.c\<close>.  What the operating system, the allocator and lwIP answer is a parameter of each
  operation; the jobs are those of the reactor that belong to the device and to the set-up of lwIP.
\<close>

section \<open>The device\<close>

datatype BTap_dev_type = BTAP_DEV_TUN | BTAP_DEV_TAP

datatype BTap_init = BTAP_INIT_STRING "string option" | BTAP_INIT_FD int int

definition BTAP_ETHERNET_HEADER_LENGTH :: int where
  "BTAP_ETHERNET_HEADER_LENGTH = 14"

record BTap =
  tap_fd :: int
  frame_mtu :: nat
  close_fd :: bool
  poll_read :: bool
  output_packet :: "nat option"

text \<open>What the system calls of the initialisation answer.\<close>

record tap_sys =
  open_tun :: "int option"
  tunsetiff_ok :: bool
  dummy_socket :: "int option"
  ifmtu :: "int option"
  nonblock_ok :: bool
  add_fd_ok :: bool

text \<open>The descriptor and MTU, if the device could be opened, and the descriptors closed.\<close>

definition open_device :: "tap_sys \<Rightarrow> BTap_dev_type \<Rightarrow> BTap_init \<Rightarrow> ((int \<times> int) option \<times> int list) option" where
  "open_device sys dt i =
     (case i of
        BTAP_INIT_FD fd mtu \<Rightarrow>
          ASSERT (fd \<ge> 0) (
          ASSERT (mtu \<ge> 0) (
          ASSERT (dt \<noteq> BTAP_DEV_TAP \<or> mtu \<ge> BTAP_ETHERNET_HEADER_LENGTH)
            (Some (Some (fd, mtu), []))))
      | BTAP_INIT_STRING _ \<Rightarrow>
          Some (case open_tun sys of
                  None \<Rightarrow> (None, [])
                | Some fd \<Rightarrow>
                    if \<not> tunsetiff_ok sys then (None, [fd])
                    else case dummy_socket sys of
                        None \<Rightarrow> (None, [fd])
                      | Some sock \<Rightarrow>
                          (case ifmtu sys of
                             None \<Rightarrow> (None, [sock, fd])
                           | Some m \<Rightarrow>
                               (Some (fd, if dt = BTAP_DEV_TUN then m else m + BTAP_ETHERNET_HEADER_LENGTH), [sock]))))"

definition BTap_Init2 :: "tap_sys \<Rightarrow> BTap_dev_type \<Rightarrow> BTap_init \<Rightarrow> 'j \<Rightarrow> 'j \<Rightarrow> 'j BPendingGroup \<Rightarrow>
    ((BTap \<times> 'j PacketRecvInterface) option \<times> int list \<times> 'j BPendingGroup) option" where
  "BTap_Init2 sys dt i jo jd g =
     do {
       (opened, closed) \<leftarrow> open_device sys dt i;
       (case opened of
          None \<Rightarrow> Some (None, closed, g)
        | Some (fd, mtu) \<Rightarrow>
            let cl = (case i of BTAP_INIT_FD _ _ \<Rightarrow> False | _ \<Rightarrow> True) in
            if \<not> nonblock_ok sys \<or> \<not> add_fd_ok sys then Some (None, closed @ (if cl then [fd] else []), g)
            else do {
              (out, g) \<leftarrow> PacketRecvInterface_Init (nat mtu) jo jd g;
              Some (Some (\<lparr>tap_fd = fd, frame_mtu = nat mtu, close_fd = cl, poll_read = False, output_packet = None\<rparr>, out),
                    closed, g) }) }"

definition BTap_Free :: "BTap \<Rightarrow> 'j PacketRecvInterface \<Rightarrow> 'j BPendingGroup \<Rightarrow> (int list \<times> 'j BPendingGroup) option" where
  "BTap_Free o1 out g =
     do { g \<leftarrow> PacketRecvInterface_Free out g; Some (if close_fd o1 then [tap_fd o1] else [], g) }"

text \<open>
  \<open>BTap_Send\<close>: the packet is given to \<open>write\<close>, whose result only changes the log.
\<close>

definition BTap_Send :: "BTap \<Rightarrow> bytes \<Rightarrow> bytes option" where
  "BTap_Send o1 data = ASSERT (length data \<le> frame_mtu o1) (Some data)"

section \<open>From lwIP to the device\<close>

text \<open>
  The loop over the chunks of a packet: the new length, or \<^term>\<open>None\<close> when there is no space left, and the
  write buffer.  Writing behind the buffer is a failure.
\<close>

fun copy_chunks :: "nat \<Rightarrow> bytes list \<Rightarrow> nat \<Rightarrow> bytes \<Rightarrow> (nat option \<times> bytes) option" where
  "copy_chunks mtu [] len wb = Some (Some len, wb)"
| "copy_chunks mtu (c # p) len wb =
     (if int (length c) > int mtu - int len then Some (None, wb)
      else ASSERT (len + length c \<le> length wb) (copy_chunks mtu p (len + length c) (mem_write len c wb)))"

text \<open>\<open>device_write_buf\<close> afterwards, and the packet that was written.\<close>

definition common_netif_output :: "bool \<Rightarrow> BTap \<Rightarrow> bytes \<Rightarrow> bytes list \<Rightarrow> (bytes \<times> bytes option) option" where
  "common_netif_output is_quitting device wb p =
     (if is_quitting then Some (wb, None)
      else case p of
        [] \<Rightarrow> None
      | [c] \<Rightarrow>
          if length c > frame_mtu device then Some (wb, None)
          else do { sent \<leftarrow> BTap_Send device c; Some (wb, Some sent) }
      | _ \<Rightarrow>
          do { (len, wb) \<leftarrow> copy_chunks (frame_mtu device) p 0 wb;
               (case len of
                  None \<Rightarrow> Some (wb, None)
                | Some n \<Rightarrow> do { sent \<leftarrow> BTap_Send device (mem_read 0 n wb); Some (wb, Some sent) }) })"

section \<open>From the device to lwIP\<close>

datatype ip_input = IpInput bytes | Ip6Input bytes

text \<open>
  \<open>netif_input_func\<close>: the input function of lwIP that was called, whether the result is \<open>ERR_OK\<close>, and how
  often the packet buffer was freed.  \<open>input_ok\<close> is the result of lwIP's function.
\<close>

definition netif_input_func :: "bool \<Rightarrow> bool \<Rightarrow> bytes \<Rightarrow> ip_input option \<times> bool \<times> nat" where
  "netif_input_func ip6 input_ok p =
     (let ip_version = (if length p > 0 then drop_bit 4 (p ! 0) else 0)
      in if ip_version = 4 then (Some (IpInput p), input_ok, 0)
         else if ip_version = 6 \<and> ip6 then (Some (Ip6Input p), input_ok, 0)
         else (None, True, 1))"

datatype device_action =
    ToRelay udp_submission
  | ToLwip ip_input
  | Dropped

datatype read_result = ReadBytes bytes | ReadAgain | ReadError

text \<open>What the environment answers while an event is handled.\<close>

record dev_ans =
  ans_read :: read_result
  ans_env :: udp_env
  ans_pbuf :: bool
  ans_input :: bool
  ans_lwip :: bool

datatype dev_job = Dev_recv_op | Dev_recv_done | Dev_read_op | Dev_read_cancel | Dev_read_done | Lwip_init_job

text \<open>
  The device, the chain to the reader, and, for the theorems, what was read, what the handler did with
  each packet, and the packet buffers allocated, freed and kept by lwIP.
\<close>

record dev =
  tap :: BTap
  dev_path :: "dev_job recv_path"
  dev_group :: "dev_job BPendingGroup"
  dev_quitting :: bool
  dev_read :: "bytes list"
  dev_handled :: "(bytes \<times> device_action) list"
  pbufs_allocated :: nat
  pbufs_freed :: nat
  pbufs_in_lwip :: nat

definition terminate :: "dev \<Rightarrow> dev option" where
  "terminate s = ASSERT (\<not> dev_quitting s) (Some (s\<lparr>dev_quitting := True\<rparr>))"

definition device_error_handler :: "dev \<Rightarrow> dev option" where
  "device_error_handler s = ASSERT (\<not> dev_quitting s) (terminate s)"

definition signal_handler :: "dev \<Rightarrow> dev option" where
  "signal_handler s = ASSERT (\<not> dev_quitting s) (terminate s)"

definition BTap_report_error :: "dev \<Rightarrow> dev option" where
  "BTap_report_error s = device_error_handler s"

text \<open>Passing a packet to \<open>the_netif.input\<close> in a packet buffer of its own.\<close>

definition pass_to_lwip :: "dev_ans \<Rightarrow> bytes \<Rightarrow> dev \<Rightarrow> dev" where
  "pass_to_lwip a data s =
     (if int (length data) > UINT16_MAX \<or> \<not> ans_pbuf a then s\<lparr>dev_handled := dev_handled s @ [(data, Dropped)]\<rparr>
      else
        let (x, ok, freed) = netif_input_func (have_ip6addr (ans_env a)) (ans_input a) data;
            freed = (if \<not> ok then freed + 1 else freed)
        in s\<lparr>dev_handled := dev_handled s @ [(data, case x of None \<Rightarrow> Dropped | Some y \<Rightarrow> ToLwip y)],
             pbufs_allocated := pbufs_allocated s + 1, pbufs_freed := pbufs_freed s + freed,
             pbufs_in_lwip := pbufs_in_lwip s + (if x \<noteq> None \<and> ok then 1 else 0)\<rparr>)"

definition device_read_handler_send :: "dev_ans \<Rightarrow> bytes \<Rightarrow> dev \<Rightarrow> dev option" where
  "device_read_handler_send a data s =
     ASSERT (\<not> dev_quitting s) (
     do {
       (p, g) \<leftarrow> rp_accept (dev_path s) (dev_group s);
       let s = s\<lparr>dev_path := p, dev_group := g\<rparr>;
       Some (case process_device_udp_packet (ans_env a) data of
           Some sub \<Rightarrow> s\<lparr>dev_handled := dev_handled s @ [(data, ToRelay sub)]\<rparr>
         | None \<Rightarrow> pass_to_lwip a data s) })"

text \<open>The packet has been read into the buffer of the chain.\<close>

definition read_done :: "bytes \<Rightarrow> dev \<Rightarrow> dev option" where
  "read_done b s =
     ASSERT (length b \<le> frame_mtu (tap s)) (
     do {
       (p, g) \<leftarrow> rp_received b (dev_path s) (dev_group s);
       Some (s\<lparr>dev_path := p, dev_group := g, dev_read := dev_read s @ [b]\<rparr>) })"

definition output_handler_recv :: "dev_ans \<Rightarrow> nat \<Rightarrow> dev \<Rightarrow> dev option" where
  "output_handler_recv a data s =
     ASSERT (output_packet (tap s) = None) (
     case ans_read a of
       ReadError \<Rightarrow> BTap_report_error s
     | ReadAgain \<Rightarrow> Some (s\<lparr>tap := (tap s)\<lparr>output_packet := Some data, poll_read := True\<rparr>\<rparr>)
     | ReadBytes b \<Rightarrow>
         if b = [] then Some (s\<lparr>tap := (tap s)\<lparr>output_packet := Some data, poll_read := True\<rparr>\<rparr>)
         else read_done b s)"

definition fd_handler :: "dev_ans \<Rightarrow> bool \<Rightarrow> dev \<Rightarrow> dev option" where
  "fd_handler a readable s =
     (if \<not> readable then Some s
      else ASSERT (output_packet (tap s) \<noteq> None) (
        case ans_read a of
          ReadError \<Rightarrow> BTap_report_error s
        | ReadAgain \<Rightarrow> Some s
        | ReadBytes b \<Rightarrow>
            if b = [] then Some s
            else read_done b (s\<lparr>tap := (tap s)\<lparr>output_packet := None, poll_read := False\<rparr>\<rparr>)))"

section \<open>Jobs and events\<close>

definition set_path :: "dev \<Rightarrow> (dev_job recv_path \<times> dev_job BPendingGroup) option \<Rightarrow> dev option" where
  "set_path s r = map_option (\<lambda>(p, g). s\<lparr>dev_path := p, dev_group := g\<rparr>) r"

definition dev_run_job :: "dev_ans \<Rightarrow> dev_job \<Rightarrow> dev \<Rightarrow> dev option" where
  "dev_run_job a j s =
     (case j of
        Dev_recv_op \<Rightarrow>
          do { p \<leftarrow> rp_job_recv_operation (dev_path s);
               output_handler_recv a (pri_data (rp_input p)) (s\<lparr>dev_path := p\<rparr>) }
      | Dev_recv_done \<Rightarrow> set_path s (rp_job_recv_done (dev_path s) (dev_group s))
      | Dev_read_op \<Rightarrow>
          do { (x, p) \<leftarrow> rp_job_send_operation (dev_path s);
               device_read_handler_send a x (s\<lparr>dev_path := p\<rparr>) }
      | Dev_read_done \<Rightarrow> set_path s (rp_job_send_done (dev_path s) (dev_group s))
      | Dev_read_cancel \<Rightarrow> None
      | Lwip_init_job \<Rightarrow> if ans_lwip a then Some s else terminate s)"

datatype dev_event = DevJob dev_ans | DevFd dev_ans bool | DevSignal

text \<open>
  The reactor runs a job when one is pending and asks for events otherwise; it reports readability only
  when it was asked for.  A read gives at most as many bytes as it was asked for.  Nothing runs
  after \<open>BReactor_Quit\<close>.
\<close>

definition read_fits :: "dev_ans \<Rightarrow> dev \<Rightarrow> bool" where
  "read_fits a s = (case ans_read a of ReadBytes b \<Rightarrow> length b \<le> frame_mtu (tap s) | _ \<Rightarrow> True)"

fun dev_enabled :: "dev_event \<Rightarrow> dev \<Rightarrow> bool" where
  "dev_enabled (DevJob a) s \<longleftrightarrow> \<not> dev_quitting s \<and> pg_jobs (dev_group s) \<noteq> [] \<and> read_fits a s"
| "dev_enabled (DevFd a readable) s \<longleftrightarrow>
     \<not> dev_quitting s \<and> pg_jobs (dev_group s) = [] \<and> (readable \<longrightarrow> poll_read (tap s)) \<and> read_fits a s"
| "dev_enabled DevSignal s \<longleftrightarrow> \<not> dev_quitting s \<and> pg_jobs (dev_group s) = []"

fun dev_run :: "dev_event \<Rightarrow> dev \<Rightarrow> dev option" where
  "dev_run (DevJob a) s =
     do { (j, g) \<leftarrow> BPendingGroup_ExecuteJob (dev_group s); dev_run_job a j (s\<lparr>dev_group := g\<rparr>) }"
| "dev_run (DevFd a readable) s = fd_handler a readable s"
| "dev_run DevSignal s = signal_handler s"

inductive dev_step :: "dev \<Rightarrow> dev \<Rightarrow> bool" where
  dev_step_run: "dev_enabled e s \<Longrightarrow> dev_run e s = Some t \<Longrightarrow> dev_step s t"

text \<open>
  The part of \<open>main\<close> that sets the reader up: the device from a descriptor, the reader's interface, the
  buffer between them, and the job for lwIP.  The result is \<^term>\<open>None\<close> after a failed assertion and
  otherwise the state, if every step succeeded.
\<close>

definition device_setup :: "tap_sys \<Rightarrow> int \<Rightarrow> int \<Rightarrow> (nat \<Rightarrow> bytes option) \<Rightarrow> dev option option" where
  "device_setup sys fd mtu alloc =
     do {
       (r, closed, g) \<leftarrow> BTap_Init2 sys BTAP_DEV_TUN (BTAP_INIT_FD fd mtu) Dev_recv_op Dev_recv_done BPendingGroup_Init;
       (case r of
          None \<Rightarrow> Some None
        | Some (t, out) \<Rightarrow>
            do {
              (i, g) \<leftarrow> PacketPassInterface_Init (frame_mtu t) Dev_read_op Dev_read_cancel Dev_read_done g;
              b \<leftarrow> SinglePacketBuffer_Init alloc out i g;
              (case b of
                 None \<Rightarrow> Some None
               | Some (p, g) \<Rightarrow>
                   do {
                     g \<leftarrow> BPending_Init Lwip_init_job g;
                     g \<leftarrow> BPending_Set Lwip_init_job g;
                     Some (Some \<lparr>tap = t, dev_path = p, dev_group = g, dev_quitting = False, dev_read = [],
                                 dev_handled = [], pbufs_allocated = 0, pbufs_freed = 0, pbufs_in_lwip = 0\<rparr>) }) }) }"

definition dev_init :: "dev \<Rightarrow> bool" where
  "dev_init s \<longleftrightarrow> (\<exists>sys fd mtu alloc. device_setup sys fd mtu alloc = Some (Some s) \<and>
     (\<forall>n b. alloc n = Some b \<longrightarrow> length b = n))"


section \<open>The reader's invariant\<close>

text \<open>What the handler may do with a packet.\<close>

fun action_ok :: "bytes \<times> device_action \<Rightarrow> bool" where
  "action_ok (d, ToRelay sub) \<longleftrightarrow> (\<exists>env. process_device_udp_packet env d = Some sub)"
| "action_ok (d, ToLwip (IpInput p)) \<longleftrightarrow> p = d \<and> d \<noteq> [] \<and> drop_bit 4 (d ! 0) = 4 \<and> length d < 2 ^ 16"
| "action_ok (d, ToLwip (Ip6Input p)) \<longleftrightarrow> p = d \<and> d \<noteq> [] \<and> drop_bit 4 (d ! 0) = 6 \<and> length d < 2 ^ 16"
| "action_ok (d, Dropped) \<longleftrightarrow> True"

definition dev_jobs :: "dev_job list" where
  "dev_jobs = [Dev_recv_op, Dev_recv_done, Dev_read_op, Dev_read_cancel, Dev_read_done]"

definition accounts_ok :: "dev \<Rightarrow> bool" where
  "accounts_ok s \<longleftrightarrow>
     pbufs_allocated s = pbufs_freed s + pbufs_in_lwip s \<and> (\<forall>x \<in> set (dev_handled s). action_ok x)"

definition group_ok :: "dev_job BPendingGroup \<Rightarrow> bool" where
  "group_ok g \<longleftrightarrow> distinct (pg_jobs g) \<and> pg_objs g = set (Lwip_init_job # dev_jobs) \<and> set (pg_jobs g) \<subseteq> pg_objs g \<and>
     pending_ctr g = length (Lwip_init_job # dev_jobs)"

definition dev_inv :: "bytes option \<Rightarrow> dev \<Rightarrow> bool" where
  "dev_inv pend s \<longleftrightarrow>
     rp_inv (dev_path s) (dev_group s) pend \<and> group_ok (dev_group s) \<and> rp_ids (dev_path s) = dev_jobs \<and>
     pri_mtu (rp_input (dev_path s)) = frame_mtu (tap s) \<and>
     dev_read s = map fst (dev_handled s) @ (case pend of None \<Rightarrow> [] | Some d \<Rightarrow> [d]) \<and>
     (output_packet (tap s) \<noteq> None \<longleftrightarrow> poll_read (tap s)) \<and>
     (poll_read (tap s) \<longrightarrow> pri_state (rp_input (dev_path s)) = BUSY) \<and> ppi_state (rp_output (dev_path s)) \<noteq> BUSY \<and>
     (pri_state (rp_input (dev_path s)) = BUSY \<longrightarrow> \<not> dev_quitting s \<longrightarrow> poll_read (tap s)) \<and>
     accounts_ok s"

lemma dev_ids:
  assumes "rp_ids p = dev_jobs"
  shows "pri_job_operation (rp_input p) = Dev_recv_op" "pri_job_done (rp_input p) = Dev_recv_done"
    "ppi_job_operation (rp_output p) = Dev_read_op" "ppi_job_requestcancel (rp_output p) = Dev_read_cancel"
    "ppi_job_done (rp_output p) = Dev_read_done"
  using assms by (simp_all add: ids_defs dev_jobs_def)

lemma rp_inv_states:
  assumes "rp_inv p g pend"
  shows "rp_jobs p g" "pri_state (rp_input p) = STATE_NONE \<longleftrightarrow> ppi_state (rp_output p) \<noteq> STATE_NONE"
  using assms by (simp_all add: rp_inv_def)

lemma group_ok_jobs:
  assumes "group_ok g" "pg_jobs g = j # js"
  shows "group_ok (g\<lparr>pg_jobs := js\<rparr>)" "k \<notin> set js \<Longrightarrow> k \<in> set dev_jobs \<Longrightarrow> group_ok (g\<lparr>pg_jobs := k # js\<rparr>)"
  using assms by (auto simp: group_ok_def)

lemma group_ok_push: "group_ok g \<Longrightarrow> k \<notin> set (pg_jobs g) \<Longrightarrow> k \<in> set dev_jobs \<Longrightarrow> group_ok (g\<lparr>pg_jobs := k # pg_jobs g\<rparr>)"
  by (auto simp: group_ok_def)

lemma netif_input_ok:
  "netif_input_func ip6 inp d = (x, ok, n) \<Longrightarrow> length d < 2 ^ 16 \<Longrightarrow>
   action_ok (d, case x of None \<Rightarrow> Dropped | Some y \<Rightarrow> ToLwip y) \<and>
   n + (if \<not> ok then 1 else 0) + (if x \<noteq> None \<and> ok then 1 else 0) = 1"
  by (auto simp: netif_input_func_def Let_def split: if_splits)

lemma pass_to_lwip_ok:
  assumes "accounts_ok s"
  shows "accounts_ok (pass_to_lwip a d s)" "\<exists>x. dev_handled (pass_to_lwip a d s) = dev_handled s @ [(d, x)]"
    "tap (pass_to_lwip a d s) = tap s" "dev_path (pass_to_lwip a d s) = dev_path s"
    "dev_group (pass_to_lwip a d s) = dev_group s" "dev_quitting (pass_to_lwip a d s) = dev_quitting s"
    "dev_read (pass_to_lwip a d s) = dev_read s"
proof -
  obtain x ok n where n: "netif_input_func (have_ip6addr (ans_env a)) (ans_input a) d = (x, ok, n)"
    by (cases "netif_input_func (have_ip6addr (ans_env a)) (ans_input a) d") auto
  show "accounts_ok (pass_to_lwip a d s)"
  proof (cases "int (length d) > UINT16_MAX \<or> \<not> ans_pbuf a")
    case False
    then have "length d < 2 ^ 16" by simp
    from netif_input_ok [OF n this] show ?thesis
      using assms False by (auto simp: pass_to_lwip_def n accounts_ok_def split: if_splits)
  qed (use assms in \<open>auto simp: pass_to_lwip_def accounts_ok_def\<close>)
qed (auto simp: pass_to_lwip_def Let_def split: prod.splits)

section \<open>Every event keeps it\<close>

lemma read_done_ok:
  assumes i: "dev_inv pend s" and b: "pri_state (rp_input (dev_path s)) = BUSY" and l: "length d \<le> frame_mtu (tap s)"
  assumes t: "t = s\<lparr>tap := (tap s)\<lparr>output_packet := None, poll_read := False\<rparr>\<rparr>"
  shows "\<exists>u. read_done d t = Some u \<and> dev_inv (Some d) u \<and> pg_jobs (dev_group u) = Dev_recv_done # pg_jobs (dev_group s)"
proof -
  have r: "rp_inv (dev_path s) (dev_group s) pend" using i by (simp add: dev_inv_def)
  from b r have none: "pend = None" by (auto simp: rp_inv_def)
  from rp_received_ok [OF r b, of d] i l obtain p where
    p: "rp_received d (dev_path s) (dev_group s) =
        Some (p, (dev_group s)\<lparr>pg_jobs := Dev_recv_done # pg_jobs (dev_group s)\<rparr>)"
      "rp_inv p ((dev_group s)\<lparr>pg_jobs := Dev_recv_done # pg_jobs (dev_group s)\<rparr>) (Some d)"
      "rp_ids p = dev_jobs" "Dev_recv_done \<notin> set (pg_jobs (dev_group s))" "pri_mtu (rp_input p) = frame_mtu (tap s)"
    by (auto simp: dev_inv_def dev_ids)
  have g: "group_ok ((dev_group s)\<lparr>pg_jobs := Dev_recv_done # pg_jobs (dev_group s)\<rparr>)"
    using i p(4) by (intro group_ok_push) (auto simp: dev_inv_def dev_jobs_def)
  have "pri_state (rp_input p) = DONE_PENDING"
    using rp_jobs_states(2) [of p "(dev_group s)\<lparr>pg_jobs := Dev_recv_done # pg_jobs (dev_group s)\<rparr>"] p(2,3)
    by (simp add: rp_inv_def dev_ids)
  moreover from this have "ppi_state (rp_output p) \<noteq> BUSY" using p(2) by (auto simp: rp_inv_def)
  ultimately show ?thesis using i l p g none by (simp add: t read_done_def dev_inv_def accounts_ok_def)
qed

lemma poll_read_quitting:
  assumes "dev_inv pend s" "\<not> dev_quitting s"
  shows "\<exists>u. BTap_report_error s = Some u \<and> dev_inv pend u \<and> dev_group u = dev_group s"
    "\<exists>u. terminate s = Some u \<and> dev_inv pend u \<and> dev_group u = dev_group s"
    "\<exists>u. signal_handler s = Some u \<and> dev_inv pend u \<and> dev_group u = dev_group s"
  using assms by (auto simp: BTap_report_error_def device_error_handler_def signal_handler_def terminate_def dev_inv_def accounts_ok_def)


lemma recv_op_ok:
  assumes i: "dev_inv pend s" and j: "pg_jobs (dev_group s) = Dev_recv_op # js" and q: "\<not> dev_quitting s"
    and f: "read_fits a s"
  shows "\<exists>u pend. dev_run_job a Dev_recv_op (s\<lparr>dev_group := (dev_group s)\<lparr>pg_jobs := js\<rparr>\<rparr>) = Some u \<and> dev_inv pend u \<and>
    set (pg_jobs (dev_group u)) \<subseteq> set js \<union> set dev_jobs"
proof -
  let ?g = "(dev_group s)\<lparr>pg_jobs := js\<rparr>"
  have r: "rp_inv (dev_path s) (dev_group s) pend" and d: "distinct (pg_jobs (dev_group s))" "group_ok (dev_group s)"
    using i by (auto simp: dev_inv_def group_ok_def)
  have j': "pg_jobs (dev_group s) = pri_job_operation (rp_input (dev_path s)) # js"
    using i j by (simp add: dev_inv_def dev_ids)
  from rp_recv_operation_ok [OF r j' d(1)] i obtain p where
    p: "rp_job_recv_operation (dev_path s) = Some p" "rp_inv p ?g pend" "rp_ids p = dev_jobs"
      "pri_state (rp_input p) = BUSY" "pri_mtu (rp_input p) = frame_mtu (tap s)"
    by (auto simp: dev_inv_def)
  have "pri_state (rp_input (dev_path s)) = OPERATION_PENDING"
    using r j' rp_jobs_states(1) [of "dev_path s" "dev_group s"] by (simp add: rp_inv_def)
  then have idle: "output_packet (tap s) = None" "\<not> poll_read (tap s)"
    using i by (auto simp: dev_inv_def)
  define u where "u = s\<lparr>dev_group := ?g, dev_path := p\<rparr>"
  define w where "w = u\<lparr>tap := (tap u)\<lparr>output_packet := Some (pri_data (rp_input p)), poll_read := True\<rparr>\<rparr>"
  have ob: "ppi_state (rp_output p) \<noteq> BUSY" using p(2,4) by (auto simp: rp_inv_def)
  have w: "dev_inv pend w"
    using i p ob group_ok_jobs(1) [OF d(2) j] by (simp add: w_def u_def dev_inv_def accounts_ok_def)
  have undo: "u = w\<lparr>tap := (tap w)\<lparr>output_packet := None, poll_read := False\<rparr>\<rparr>"
    using idle by (simp add: w_def u_def)
  have bad: "\<exists>v. BTap_report_error u = Some v \<and> dev_inv pend v \<and> pg_jobs (dev_group v) = js"
    using i p q idle ob group_ok_jobs(1) [OF d(2) j]
    by (simp add: u_def BTap_report_error_def device_error_handler_def terminate_def dev_inv_def accounts_ok_def)
  have got: "\<exists>v. read_done b u = Some v \<and> dev_inv (Some b) v \<and> pg_jobs (dev_group v) = Dev_recv_done # js"
    if "length b \<le> frame_mtu (tap s)" for b
    using read_done_ok [OF w _ _ undo, of b] that p(4) by (simp add: w_def u_def)
  have run: "dev_run_job a Dev_recv_op (s\<lparr>dev_group := ?g\<rparr>) = output_handler_recv a (pri_data (rp_input p)) u"
    using p(1) by (simp add: dev_run_job_def u_def)
  show ?thesis
  proof (cases "ans_read a")
    case (ReadBytes b)
    then show ?thesis
      using got [of b] f w idle unfolding run
      by (cases "b = []") (auto simp: output_handler_recv_def read_fits_def u_def w_def dev_jobs_def)
  qed (use bad w idle in \<open>auto simp: run output_handler_recv_def u_def w_def\<close>)
qed

lemma fd_handler_ok:
  assumes i: "dev_inv pend s" and q: "\<not> dev_quitting s" and f: "read_fits a s" and rd: "readable \<longrightarrow> poll_read (tap s)"
  shows "\<exists>u pend. fd_handler a readable s = Some u \<and> dev_inv pend u \<and>
    set (pg_jobs (dev_group u)) \<subseteq> set (pg_jobs (dev_group s)) \<union> set dev_jobs"
proof (cases "readable \<and> (\<exists>b. ans_read a = ReadBytes b \<and> b \<noteq> [])")
  case True
  then obtain b where b: "ans_read a = ReadBytes b" "b \<noteq> []" by blast
  have "pri_state (rp_input (dev_path s)) = BUSY" using True i rd by (simp add: dev_inv_def)
  from read_done_ok [OF i this _ refl, of b] obtain u where
    "read_done b (s\<lparr>tap := (tap s)\<lparr>output_packet := None, poll_read := False\<rparr>\<rparr>) = Some u" "dev_inv (Some b) u"
    "pg_jobs (dev_group u) = Dev_recv_done # pg_jobs (dev_group s)"
    using b f by (auto simp: read_fits_def)
  moreover have "output_packet (tap s) \<noteq> None" using True i rd by (simp add: dev_inv_def)
  ultimately show ?thesis using True b by (auto simp: fd_handler_def dev_jobs_def)
next
  case False
  have "readable \<longrightarrow> output_packet (tap s) \<noteq> None" using i rd by (simp add: dev_inv_def)
  then show ?thesis
    using False i poll_read_quitting(1) [OF i q] by (cases "ans_read a") (auto simp: fd_handler_def)
qed

lemma read_op_ok:
  assumes i: "dev_inv pend s" and j: "pg_jobs (dev_group s) = Dev_read_op # js" and q: "\<not> dev_quitting s"
  shows "\<exists>u pend. dev_run_job a Dev_read_op (s\<lparr>dev_group := (dev_group s)\<lparr>pg_jobs := js\<rparr>\<rparr>) = Some u \<and> dev_inv pend u \<and>
    set (pg_jobs (dev_group u)) \<subseteq> set js \<union> set dev_jobs"
proof -
  let ?g = "(dev_group s)\<lparr>pg_jobs := js\<rparr>" and ?h = "(dev_group s)\<lparr>pg_jobs := Dev_read_done # js\<rparr>"
  have r: "rp_inv (dev_path s) (dev_group s) pend" and d: "distinct (pg_jobs (dev_group s))" "group_ok (dev_group s)"
    using i by (auto simp: dev_inv_def group_ok_def)
  have j': "pg_jobs (dev_group s) = ppi_job_operation (rp_output (dev_path s)) # js"
    using i j by (simp add: dev_inv_def dev_ids)
  from rp_accept_ok [OF r j' d(1)] i obtain x p1 p where
    p: "pend = Some x" "rp_job_send_operation (dev_path s) = Some (x, p1)" "rp_accept p1 ?g = Some (p, ?h)"
      "rp_inv p ?h None" "rp_ids p = dev_jobs" "Dev_read_done \<notin> set js" "pri_mtu (rp_input p) = frame_mtu (tap s)"
    by (auto simp: dev_inv_def dev_ids)
  have "ppi_state (rp_output (dev_path s)) = OPERATION_PENDING"
    using r j' rp_jobs_states(3) [of "dev_path s" "dev_group s"] by (simp add: rp_inv_def)
  moreover have dp: "ppi_state (rp_output p) = DONE_PENDING"
    using p(4,5) rp_jobs_states(4) [of p ?h] by (simp add: rp_inv_def dev_ids)
  ultimately have idle: "\<not> poll_read (tap s)" "pri_state (rp_input p) = STATE_NONE"
    using i r p(4) by (auto simp: dev_inv_def rp_inv_def)
  define u where "u = s\<lparr>dev_path := p, dev_group := ?h\<rparr>"
  have acc: "accounts_ok u" using i by (simp add: u_def dev_inv_def accounts_ok_def)
  have g: "group_ok ?h" using p(6) by (intro group_ok_jobs(2) [OF d(2) j]) (auto simp: dev_jobs_def)
  have fin: "dev_inv None v" if "accounts_ok v" "\<exists>y. dev_handled v = dev_handled s @ [(x, y)]" "tap v = tap s"
    "dev_path v = p" "dev_group v = ?h" "dev_read v = dev_read s" for v
    using that i p g idle dp by (auto simp: dev_inv_def)
  have run: "dev_run_job a Dev_read_op (s\<lparr>dev_group := ?g\<rparr>) =
    Some (case process_device_udp_packet (ans_env a) x of
            Some sub \<Rightarrow> u\<lparr>dev_handled := dev_handled s @ [(x, ToRelay sub)]\<rparr>
          | None \<Rightarrow> pass_to_lwip a x u)"
    using p q by (simp add: dev_run_job_def device_read_handler_send_def u_def split: option.splits)
  show ?thesis
  proof (cases "process_device_udp_packet (ans_env a) x")
    case None
    have "dev_inv None (pass_to_lwip a x u)"
      by (rule fin) (use pass_to_lwip_ok [OF acc, of a x] in \<open>simp_all add: u_def\<close>)
    then show ?thesis using pass_to_lwip_ok(5) [OF acc] unfolding run None by (auto simp: u_def dev_jobs_def)
  next
    case (Some sub)
    have "dev_inv None (u\<lparr>dev_handled := dev_handled s @ [(x, ToRelay sub)]\<rparr>)"
      using acc Some by (intro fin) (auto simp: u_def accounts_ok_def)
    then show ?thesis unfolding run Some by (auto simp: u_def dev_jobs_def)
  qed
qed


lemma done_ok:
  assumes i: "dev_inv pend s" and j: "pg_jobs (dev_group s) = k # js" and k: "k = Dev_recv_done \<or> k = Dev_read_done"
  shows "\<exists>u pend. dev_run_job a k (s\<lparr>dev_group := (dev_group s)\<lparr>pg_jobs := js\<rparr>\<rparr>) = Some u \<and> dev_inv pend u \<and>
    set (pg_jobs (dev_group u)) \<subseteq> set js \<union> set dev_jobs"
proof -
  have r: "rp_inv (dev_path s) (dev_group s) pend" and d: "distinct (pg_jobs (dev_group s))" "group_ok (dev_group s)"
    and ids: "rp_ids (dev_path s) = dev_jobs"
    using i by (auto simp: dev_inv_def group_ok_def)
  have st: "k \<in> set (pg_jobs (dev_group s))" using j by simp
  have idle: "\<not> poll_read (tap s)"
  proof -
    have "pri_state (rp_input (dev_path s)) \<noteq> BUSY"
      using k st rp_jobs_states [OF rp_inv_states(1) [OF r]] rp_inv_states(2) [OF r] dev_ids [OF ids] by auto
    then show ?thesis using i by (simp add: dev_inv_def)
  qed
  have fin: "dev_inv pend (s\<lparr>dev_path := p, dev_group := (dev_group s)\<lparr>pg_jobs := n # js\<rparr>\<rparr>)"
    if "rp_inv p ((dev_group s)\<lparr>pg_jobs := n # js\<rparr>) pend" "rp_ids p = rp_ids (dev_path s)" "n \<notin> set js" "n \<in> {Dev_read_op, Dev_recv_op}"
      "pri_mtu (rp_input p) = pri_mtu (rp_input (dev_path s))" for p n
  proof -
    have "group_ok ((dev_group s)\<lparr>pg_jobs := n # js\<rparr>)"
      using that by (intro group_ok_jobs(2) [OF d(2) j]) (auto simp: dev_jobs_def)
    moreover have "pri_state (rp_input p) \<noteq> BUSY \<and> ppi_state (rp_output p) \<noteq> BUSY"
      using that(4) rp_jobs_states [OF rp_inv_states(1) [OF that(1)]] rp_inv_states(2) [OF that(1)]
        dev_ids [of p] that(2) ids by auto
    ultimately show ?thesis using that i idle by (simp add: dev_inv_def accounts_ok_def)
  qed
  from k show ?thesis
  proof
    assume k: "k = Dev_recv_done"
    then have "pg_jobs (dev_group s) = pri_job_done (rp_input (dev_path s)) # js" using j ids by (simp add: dev_ids)
    from rp_recv_done_ok [OF r this d(1)] obtain p where
      "rp_job_recv_done (dev_path s) ((dev_group s)\<lparr>pg_jobs := js\<rparr>) = Some (p, (dev_group s)\<lparr>pg_jobs := Dev_read_op # js\<rparr>)"
      "dev_inv pend (s\<lparr>dev_path := p, dev_group := (dev_group s)\<lparr>pg_jobs := Dev_read_op # js\<rparr>\<rparr>)"
      using ids fin by (auto simp: dev_ids)
    then show ?thesis using k by (auto simp: dev_run_job_def set_path_def dev_jobs_def)
  next
    assume k: "k = Dev_read_done"
    then have "pg_jobs (dev_group s) = ppi_job_done (rp_output (dev_path s)) # js" using j ids by (simp add: dev_ids)
    from rp_send_done_ok [OF r this d(1)] obtain p where
      "rp_job_send_done (dev_path s) ((dev_group s)\<lparr>pg_jobs := js\<rparr>) = Some (p, (dev_group s)\<lparr>pg_jobs := Dev_recv_op # js\<rparr>)"
      "dev_inv pend (s\<lparr>dev_path := p, dev_group := (dev_group s)\<lparr>pg_jobs := Dev_recv_op # js\<rparr>\<rparr>)"
      using ids fin by (auto simp: dev_ids)
    then show ?thesis using k by (auto simp: dev_run_job_def set_path_def dev_jobs_def)
  qed
qed

lemma lwip_job_ok:
  assumes i: "dev_inv pend s" and j: "pg_jobs (dev_group s) = Lwip_init_job # js" and q: "\<not> dev_quitting s"
  shows "\<exists>u pend. dev_run_job a Lwip_init_job (s\<lparr>dev_group := (dev_group s)\<lparr>pg_jobs := js\<rparr>\<rparr>) = Some u \<and> dev_inv pend u \<and>
    set (pg_jobs (dev_group u)) \<subseteq> set js \<union> set dev_jobs"
proof -
  have g: "group_ok ((dev_group s)\<lparr>pg_jobs := js\<rparr>)" using i j by (intro group_ok_jobs(1)) (simp_all add: dev_inv_def)
  have "rp_inv (dev_path s) ((dev_group s)\<lparr>pg_jobs := js\<rparr>) pend"
    by (rule rp_inv_frame [where g = "dev_group s"]) (use i j in \<open>auto simp: dev_inv_def group_ok_def dev_jobs_def\<close>)
  then have "dev_inv pend (s\<lparr>dev_group := (dev_group s)\<lparr>pg_jobs := js\<rparr>\<rparr>)"
    using i g by (simp add: dev_inv_def accounts_ok_def)
  from poll_read_quitting(2) [OF this] this q show ?thesis by (auto simp: dev_run_job_def)
qed

lemma dev_job_ok:
  assumes i: "dev_inv pend s" and e: "dev_enabled (DevJob a) s"
  shows "\<exists>u pend. dev_run (DevJob a) s = Some u \<and> dev_inv pend u \<and>
    set (pg_jobs (dev_group u)) \<subseteq> set (tl (pg_jobs (dev_group s))) \<union> set dev_jobs"
proof -
  from e obtain j js where j: "pg_jobs (dev_group s) = j # js" by (cases "pg_jobs (dev_group s)") auto
  have "j \<in> set (Lwip_init_job # dev_jobs)" using i j by (auto simp: dev_inv_def group_ok_def)
  moreover have "j \<noteq> Dev_read_cancel"
  proof
    assume "j = Dev_read_cancel"
    then have "ppi_job_requestcancel (rp_output (dev_path s)) \<in> set (pg_jobs (dev_group s))"
      using i j by (simp add: dev_inv_def dev_ids)
    moreover have "rp_jobs (dev_path s) (dev_group s)" "\<not> ppi_has_cancel (rp_output (dev_path s))"
      using i by (simp_all add: dev_inv_def rp_inv_def)
    ultimately show False by (simp add: rp_jobs_def ppi_jobs_def)
  qed
  ultimately have "j = Dev_recv_op \<or> j = Dev_read_op \<or> j = Lwip_init_job \<or> j = Dev_recv_done \<or> j = Dev_read_done"
    by (auto simp: dev_jobs_def)
  moreover have "\<not> dev_quitting s" "read_fits a s" using e by simp_all
  ultimately have "\<exists>u pend. dev_run_job a j (s\<lparr>dev_group := (dev_group s)\<lparr>pg_jobs := js\<rparr>\<rparr>) = Some u \<and> dev_inv pend u \<and>
      set (pg_jobs (dev_group u)) \<subseteq> set js \<union> set dev_jobs"
    using j by (elim disjE; hypsubst) (rule recv_op_ok [OF i] read_op_ok [OF i] lwip_job_ok [OF i] done_ok [OF i]; simp)+
  then show ?thesis using j by (simp add: BPendingGroup_ExecuteJob_def)
qed

text \<open>The jobs that an event leaves pending, besides those of the device.\<close>

fun jobs_left :: "dev_event \<Rightarrow> dev \<Rightarrow> dev_job list" where
  "jobs_left (DevJob a) s = tl (pg_jobs (dev_group s))"
| "jobs_left _ s = pg_jobs (dev_group s)"

lemma dev_event_ok:
  assumes "dev_inv pend s" "dev_enabled e s"
  shows "\<exists>u pend. dev_run e s = Some u \<and> dev_inv pend u \<and> set (pg_jobs (dev_group u)) \<subseteq> set (jobs_left e s) \<union> set dev_jobs"
proof (cases e)
  case (DevJob a)
  then show ?thesis using dev_job_ok [OF assms(1), of a] assms(2) by simp
next
  case (DevFd a r)
  then show ?thesis using fd_handler_ok [OF assms(1)] assms(2) by auto
next
  case DevSignal
  then show ?thesis using poll_read_quitting(3) [OF assms(1)] assms(2) by auto
qed

lemma device_setup_state:
  assumes "device_setup sys fd mtu alloc = Some (Some s)"
  shows "\<exists>b out. alloc (nat mtu) = Some b \<and> tap s = \<lparr>tap_fd = fd, frame_mtu = nat mtu, close_fd = False, poll_read = False, output_packet = None\<rparr> \<and>
    dev_path s = \<lparr>rp_input = \<lparr>pri_mtu = nat mtu, pri_has_user = True, pri_job_operation = Dev_recv_op, pri_data = 0,
        pri_job_done = Dev_recv_done, pri_done_len = 0, pri_state = OPERATION_PENDING\<rparr>, spb_buf = b, rp_output = out\<rparr> \<and>
    ppi_state out = STATE_NONE \<and> ppi_has_user out \<and> \<not> ppi_has_cancel out \<and> ppi_mtu out = nat mtu \<and>
    ppi_ids out = [Dev_read_op, Dev_read_cancel, Dev_read_done] \<and>
    pg_jobs (dev_group s) = [Lwip_init_job, Dev_recv_op] \<and> pg_objs (dev_group s) = set (Lwip_init_job # dev_jobs) \<and>
    pending_ctr (dev_group s) = 6 \<and> \<not> dev_quitting s \<and> dev_read s = [] \<and> dev_handled s = [] \<and> pbufs_allocated s = 0 \<and> pbufs_freed s = 0 \<and> pbufs_in_lwip s = 0"
proof -
  note d = device_setup_def BTap_Init2_def open_device_def SinglePacketBuffer_Init_def
    PacketRecvInterface_Receiver_Init_def PacketPassInterface_Sender_Init_def PacketRecvInterface_Receiver_Recv_def
    PacketRecvInterface_Init_def PacketPassInterface_Init_def pending_defs BPendingGroup_Init_def
  have "fd \<ge> 0 \<and> mtu \<ge> 0 \<and> nonblock_ok sys \<and> add_fd_ok sys"
    using assms by (auto simp: device_setup_def BTap_Init2_def open_device_def bind_Some_iff split: if_splits)
  moreover from this assms obtain b where "alloc (nat mtu) = Some b" by (cases "alloc (nat mtu)") (simp_all add: d)
  ultimately show ?thesis using assms by (simp add: d) (auto simp: ppi_ids_def dev_jobs_def)
qed

lemma dev_inv_init:
  assumes "dev_init s"
  shows "\<exists>pend. dev_inv pend s"
proof -
  from assms obtain sys fd mtu alloc where
    s: "device_setup sys fd mtu alloc = Some (Some s)" "\<And>n b. alloc n = Some b \<Longrightarrow> length b = n"
    by (auto simp: dev_init_def)
  from device_setup_state [OF s(1)] s(2) have "dev_inv None s"
    by (auto simp: dev_inv_def rp_inv_def group_ok_def accounts_ok_def dev_jobs_def ids_defs rp_jobs_def pri_jobs_def ppi_jobs_def)
  then show ?thesis by blast
qed

interpretation reader: inductive_invariant dev_init dev_step "\<lambda>s. \<exists>pend. dev_inv pend s"
proof unfold_locales
  fix s t assume "\<exists>pend. dev_inv pend s" "dev_step s t"
  then show "\<exists>pend. dev_inv pend t" using dev_event_ok by (fastforce elim!: dev_step.cases)
qed (rule dev_inv_init)


section \<open>Writing a packet of several chunks\<close>

lemma copy_chunks_exact:
  "length wb = mtu \<Longrightarrow> len \<le> mtu \<Longrightarrow>
   \<exists>wb'. length wb' = mtu \<and>
     (if len + length (concat p) \<le> mtu
      then copy_chunks mtu p len wb = Some (Some (len + length (concat p)), wb') \<and>
        take (len + length (concat p)) wb' = take len wb @ concat p
      else copy_chunks mtu p len wb = Some (None, wb'))"
proof (induction p arbitrary: len wb)
  case (Cons c p)
  show ?case
  proof (cases "len + length c \<le> mtu")
    case True
    then have l: "length (mem_write len c wb) = mtu" "take (len + length c) (mem_write len c wb) = take len wb @ c"
      using Cons.prems by (simp_all add: mem_write_def)
    from Cons.IH [OF l(1) True] obtain wb' where w: "length wb' = mtu"
      "if len + length c + length (concat p) \<le> mtu
       then copy_chunks mtu p (len + length c) (mem_write len c wb) = Some (Some (len + length c + length (concat p)), wb') \<and>
         take (len + length c + length (concat p)) wb' = take (len + length c) (mem_write len c wb) @ concat p
       else copy_chunks mtu p (len + length c) (mem_write len c wb) = Some (None, wb')" by blast
    have "copy_chunks mtu (c # p) len wb = copy_chunks mtu p (len + length c) (mem_write len c wb)"
      using True Cons.prems by simp
    then show ?thesis using w l(2) by (intro exI [of _ wb']) (auto simp: add.assoc split: if_splits)
  qed (use Cons.prems in auto)
qed auto

text \<open>
  C40 Packets from lwIP reach the device whole or not at all: unless the program is quitting, a packet in any
  number of chunks is written as one packet, the chunks joined, exactly when its total length is at
  most the MTU; a longer one is dropped.  The write buffer is never left.
\<close>

theorem device_output_exact:
  assumes "p \<noteq> []" and "length wb = frame_mtu device"
  shows "\<exists>wb'. length wb' = length wb \<and>
    common_netif_output is_quitting device wb p =
      Some (wb', if \<not> is_quitting \<and> length (concat p) \<le> frame_mtu device then Some (concat p) else None)"
proof (cases "is_quitting \<or> (\<exists>c. p = [c])")
  case True
  then show ?thesis by (auto simp: common_netif_output_def BTap_Send_def)
next
  case False
  then obtain c d q where p: "p = c # d # q" using assms(1) by (metis list.exhaust)
  from copy_chunks_exact [OF assms(2), of 0 p] obtain wb' where
    w: "length wb' = length wb" "if length (concat p) \<le> frame_mtu device
      then copy_chunks (frame_mtu device) p 0 wb = Some (Some (length (concat p)), wb') \<and> mem_read 0 (length (concat p)) wb' = concat p
      else copy_chunks (frame_mtu device) p 0 wb = Some (None, wb')"
    using assms(2) by (auto simp: mem_read_def split: if_splits)
  have "common_netif_output is_quitting device wb p =
     do { (len, wb) \<leftarrow> copy_chunks (frame_mtu device) p 0 wb;
          (case len of
             None \<Rightarrow> Some (wb, None)
           | Some n \<Rightarrow> do { sent \<leftarrow> BTap_Send device (mem_read 0 n wb); Some (wb, Some sent) }) }"
    using False by (simp add: common_netif_output_def p)
  then show ?thesis using w False by (intro exI [of _ wb']) (auto simp: BTap_Send_def split: if_splits)
qed

definition ex_tap :: BTap where
  "ex_tap = \<lparr>tap_fd = 5, frame_mtu = 4, close_fd = False, poll_read = False, output_packet = None\<rparr>"

theorem device_output_exact_witness:
  "(\<exists>wb. common_netif_output False ex_tap [0, 0, 0, 0] [[1, 2], [3]] = Some (wb, Some [1, 2, 3])) \<and>
   (\<exists>wb. common_netif_output False ex_tap [0, 0, 0, 0] [[1, 2], [3], [4, 5]] = Some (wb, None))"
  using device_output_exact [of "[[1, 2], [3]]" "[0, 0, 0, 0]" ex_tap False]
    device_output_exact [of "[[1, 2], [3], [4, 5]]" "[0, 0, 0, 0]" ex_tap False]
  by (auto simp: ex_tap_def)

section \<open>The reader's theorem\<close>

text \<open>
  C12 Packets from the device are handled in order, none lost and none twice: in every reachable state no
  event fails an assertion, the packets handled are those read except at most the last one, which
  a pending job will hand on, and the reader never stalls: with no job pending and not
  quitting, the device is polled for reading and every packet read has been handled.  Each packet goes
  either to the UDP relay, whole to the lwIP input of its IP version, or nowhere, and every packet buffer
  allocated was freed once or belongs to lwIP.
\<close>

theorem device_reader_in_order:
  assumes "reach dev_init dev_step s"
  shows "(\<forall>e. dev_enabled e s \<longrightarrow> dev_run e s \<noteq> None) \<and>
    (\<exists>w. dev_read s = map fst (dev_handled s) @ w \<and> length w \<le> 1 \<and> (pg_jobs (dev_group s) = [] \<longrightarrow> w = [])) \<and>
    (pg_jobs (dev_group s) = [] \<longrightarrow> \<not> dev_quitting s \<longrightarrow> poll_read (tap s)) \<and>
    (\<forall>x \<in> set (dev_handled s). action_ok x) \<and>
    pbufs_allocated s = pbufs_freed s + pbufs_in_lwip s"
proof -
  from reader.always [OF assms] obtain pend where i: "dev_inv pend s" by blast
  then have r: "rp_inv (dev_path s) (dev_group s) pend" "rp_ids (dev_path s) = dev_jobs" by (auto simp: dev_inv_def)
  have idle: "pend = None \<and> pri_state (rp_input (dev_path s)) = BUSY" if "pg_jobs (dev_group s) = []"
    using r i that unfolding dev_inv_def rp_inv_def rp_jobs_def pri_jobs_def ppi_jobs_def
    by (cases "pri_state (rp_input (dev_path s))"; cases "ppi_state (rp_output (dev_path s))") auto
  have "dev_run e s \<noteq> None" if "dev_enabled e s" for e using dev_event_ok [OF i that] by auto
  moreover have "\<exists>w. dev_read s = map fst (dev_handled s) @ w \<and> length w \<le> 1 \<and> (pg_jobs (dev_group s) = [] \<longrightarrow> w = [])"
    using i idle by (intro exI [of _ "case pend of None \<Rightarrow> [] | Some d \<Rightarrow> [d]"]) (auto simp: dev_inv_def split: option.splits)
  moreover have "pg_jobs (dev_group s) = [] \<longrightarrow> \<not> dev_quitting s \<longrightarrow> poll_read (tap s)" using i idle by (auto simp: dev_inv_def)
  moreover have "(\<forall>x \<in> set (dev_handled s). action_ok x) \<and> pbufs_allocated s = pbufs_freed s + pbufs_in_lwip s"
    using i by (simp add: dev_inv_def accounts_ok_def)
  ultimately show ?thesis by blast
qed

text \<open>A packet is read at once; the next read has to wait; then a packet arrives by an event.\<close>

definition ex_ans :: "read_result \<Rightarrow> dev_ans" where
  "ex_ans r = \<lparr>ans_read = r, ans_env = \<lparr>have_udpgw = False, have_dnsgw = False, have_ip6addr = True, env_udp_mtu = 0, device_mtu = 100\<rparr>,
     ans_pbuf = True, ans_input = True, ans_lwip = True\<rparr>"

definition ex_tap_sys :: tap_sys where
  "ex_tap_sys = \<lparr>open_tun = None, tunsetiff_ok = False, dummy_socket = None, ifmtu = None, nonblock_ok = True, add_fd_ok = True\<rparr>"

fun dev_runs :: "dev_event list \<Rightarrow> dev \<Rightarrow> dev option" where
  "dev_runs [] s = Some s"
| "dev_runs (e # es) s = (if dev_enabled e s then Option.bind (dev_run e s) (dev_runs es) else None)"

lemma dev_runs_reach: "reach dev_init dev_step s \<Longrightarrow> dev_runs es s = Some t \<Longrightarrow> reach dev_init dev_step t"
proof (induction es arbitrary: s)
  case (Cons e es)
  then obtain u where "dev_enabled e s" "dev_run e s = Some u" "dev_runs es u = Some t"
    by (auto simp: bind_Some_iff split: if_splits)
  then show ?case using Cons.IH Cons.prems(1) by (meson dev_step_run reach_step)
qed simp

definition ex_events :: "dev_event list" where
  "ex_events = map DevJob [ex_ans ReadAgain, ex_ans (ReadBytes [0x45, 1]), ex_ans ReadAgain, ex_ans ReadAgain, ex_ans ReadAgain,
         ex_ans ReadAgain] @ [DevFd (ex_ans (ReadBytes [0x60, 2, 3])) True, DevJob (ex_ans ReadAgain), DevJob (ex_ans ReadAgain)]"

definition ex_dev :: "dev option" where
  "ex_dev = do { r \<leftarrow> device_setup ex_tap_sys 5 4 (\<lambda>n. Some (replicate n 0)); s \<leftarrow> r; dev_runs ex_events s }"

lemma ex_dev_result:
  "map_option (\<lambda>s. (dev_read s, pbufs_in_lwip s)) ex_dev = Some ([[0x45, 1], [0x60, 2, 3]], 2)"
  by code_simp

theorem device_reader_in_order_witness:
  "\<exists>s. reach dev_init dev_step s \<and> dev_read s = [[0x45, 1], [0x60, 2, 3]] \<and> pbufs_allocated s = pbufs_freed s + 2 \<and>
     (\<forall>e. dev_enabled e s \<longrightarrow> dev_run e s \<noteq> None)"
proof -
  from ex_dev_result obtain s where s: "ex_dev = Some s" by (cases ex_dev) auto
  then obtain s0 where s0: "device_setup ex_tap_sys 5 4 (\<lambda>n. Some (replicate n 0)) = Some (Some s0)"
    and run: "\<exists>es. dev_runs es s0 = Some s"
    unfolding ex_dev_def by (auto simp: bind_Some_iff)
  then have "dev_init s0" by (force simp: dev_init_def)
  then have r: "reach dev_init dev_step s" using run dev_runs_reach reach_init by metis
  have "dev_read s = [[0x45, 1], [0x60, 2, 3]]" "pbufs_in_lwip s = 2" using ex_dev_result by (simp_all add: s)
  moreover from device_reader_in_order [OF r]
  have "pbufs_allocated s = pbufs_freed s + pbufs_in_lwip s" "\<forall>e. dev_enabled e s \<longrightarrow> dev_run e s \<noteq> None" by simp_all
  ultimately show ?thesis using r by (intro exI [of _ s]) simp
qed

end
