(* ===== verification/PortTable.thy ===== *)
theory PortTable
  imports BAVL_Refine
begin

text \<open>
  The table of ports of \<open>tun2socks/tun2socks.c\<close>: a second search tree, whose nodes count the uses of a port.  The
  program only empties it; insertion and removal have no caller.
\<close>

section \<open>The table\<close>

record Connection =
  pc_local_addr :: BAddr
  pc_remote_addr :: BAddr
  pc_port :: u16
  pc_count :: int

record port_table =
  pt_tree :: BAVL
  pt_cons :: "nat \<Rightarrow> Connection option"

definition port_comparator :: "u16 \<Rightarrow> u16 \<Rightarrow> int" where
  "port_comparator v1 v2 = (if v1 = v2 then 0 else if v1 > v2 then 1 else - 1)"

definition port_of :: "(nat \<Rightarrow> Connection option) \<Rightarrow> nat \<Rightarrow> u16" where
  "port_of cons k = pc_port (the (cons k))"

definition port_find_connection :: "u16 \<Rightarrow> port_table \<Rightarrow> nat option option" where
  "port_find_connection port pt = BAVL_LookupExact port_comparator (port_of (pt_cons pt)) (pt_tree pt) port"

definition port_remove_connection :: "nat \<Rightarrow> port_table \<Rightarrow> port_table option" where
  "port_remove_connection k pt =
     do { con \<leftarrow> pt_cons pt k;
          let con = con\<lparr>pc_count := pc_count con - 1\<rparr>;
          if pc_count con \<le> 0 then
            do { t \<leftarrow> BAVL_Remove (pt_tree pt) k;
                 Some (pt\<lparr>pt_tree := t\<lparr>nodes := (nodes t)(k := None)\<rparr>, pt_cons := (pt_cons pt)(k := None)\<rparr>) }
          else Some (pt\<lparr>pt_cons := (pt_cons pt)(k := Some con)\<rparr>) }"

text \<open>\<open>k\<close> is the address that \<open>malloc\<close> returns and \<open>g\<close> what the memory for the node holds.\<close>

definition port_insert_connection :: "nat \<Rightarrow> BAVLNode \<Rightarrow> BAddr \<Rightarrow> BAddr \<Rightarrow> u16 \<Rightarrow> port_table \<Rightarrow> port_table option" where
  "port_insert_connection k g local_addr remote_addr port pt =
     do { con \<leftarrow> port_find_connection port pt;
          case con of
            Some j \<Rightarrow>
              do { c \<leftarrow> pt_cons pt j;
                   Some (pt\<lparr>pt_cons := (pt_cons pt)(j := Some (c\<lparr>pc_count := pc_count c + 1\<rparr>))\<rparr>) }
          | None \<Rightarrow>
              do { let tmp = \<lparr>pc_local_addr = local_addr, pc_remote_addr = remote_addr, pc_port = port, pc_count = 1\<rparr>;
                   let cons = (pt_cons pt)(k := Some tmp);
                   (inserted, ref, t) \<leftarrow> BAVL_Insert port_comparator (port_of cons)
                     ((pt_tree pt)\<lparr>nodes := (nodes (pt_tree pt))(k := Some g)\<rparr>) k;
                   Some (pt\<lparr>pt_tree := t, pt_cons := cons\<rparr>) } }"

partial_function (option) free_connections :: "BAVL \<Rightarrow> BAVL option" where
  "free_connections t =
     (if BAVL_IsEmpty t then Some t
      else do { last \<leftarrow> BAVL_GetLast t;
                con \<leftarrow> last;
                t \<leftarrow> BAVL_Remove t con;
                free_connections t })"

declare free_connections.simps [code]

section \<open>Counting uses of a port\<close>

interpretation port_order: value_order "\<lambda>_. True" port_comparator
  by unfold_locales (auto simp: port_comparator_def split: if_splits)

definition port_inv :: "port_table \<Rightarrow> bool" where
  "port_inv pt \<longleftrightarrow>
     (\<exists>ks. holds_nodes (pt_tree pt) ks \<and> port_order.ordered (port_of (pt_cons pt)) ks \<and> set ks = dom (pt_cons pt)) \<and>
     (\<forall>k c. pt_cons pt k = Some c \<longrightarrow> 0 < pc_count c)"

definition port_uses :: "port_table \<Rightarrow> u16 \<Rightarrow> int" where
  "port_uses pt port =
     (case port_find_connection port pt of Some (Some k) \<Rightarrow> pc_count (the (pt_cons pt k)) | _ \<Rightarrow> 0)"

lemma port_zero [simp]: "port_comparator a b = 0 \<longleftrightarrow> a = b"
  by (simp add: port_comparator_def)

lemma port_find_ok:
  assumes "port_inv pt"
  shows "\<exists>r. port_find_connection port pt = Some r \<and> (\<forall>k. r = Some k \<longleftrightarrow> (\<exists>c. pt_cons pt k = Some c \<and> pc_port c = port))"
proof -
  let ?val = "port_of (pt_cons pt)"
  obtain ks where ks: "holds_nodes (pt_tree pt) ks" "port_order.ordered ?val ks" "set ks = dom (pt_cons pt)"
    using assms by (auto simp: port_inv_def)
  define r where "r = find (\<lambda>k. port = ?val k) ks"
  have "port_find_connection port pt = Some r"
    using port_order.lookup_exec_ok(1) [OF ks(1,2), of port]
    by (simp add: port_find_connection_def equal_node_pairs r_def)
  moreover have "r = Some k \<longleftrightarrow> (\<exists>c. pt_cons pt k = Some c \<and> pc_port c = port)" for k
  proof
    assume "r = Some k"
    then have "k \<in> set ks" "?val k = port" unfolding r_def by (auto simp: find_Some_iff)
    then show "\<exists>c. pt_cons pt k = Some c \<and> pc_port c = port" using ks(3) by (auto simp: port_of_def)
  next
    assume "\<exists>c. pt_cons pt k = Some c \<and> pc_port c = port"
    then have "k \<in> set ks" "?val k = port" using ks(3) by (auto simp: port_of_def)
    then show "r = Some k"
      using find_zero [OF port_order.ordered_falls(1) [OF ks(2), of port], of k] by (simp add: r_def)
  qed
  ultimately show ?thesis by blast
qed

lemma port_uses_at:
  assumes "port_inv pt" "pt_cons pt k = Some c" "pc_port c = port"
  shows "port_find_connection port pt = Some (Some k)" "port_uses pt port = pc_count c"
proof -
  obtain r where r: "port_find_connection port pt = Some r"
    "\<forall>k. r = Some k \<longleftrightarrow> (\<exists>c. pt_cons pt k = Some c \<and> pc_port c = port)"
    using port_find_ok [OF assms(1), of port] by (elim exE conjE)
  have "r = Some k" using assms(2,3) r(2) by simp
  then show "port_find_connection port pt = Some (Some k)" "port_uses pt port = pc_count c"
    using r(1) assms(2) by (simp_all add: port_uses_def)
qed

lemma port_uses_none:
  assumes "port_inv pt" "\<And>k c. pt_cons pt k = Some c \<Longrightarrow> pc_port c \<noteq> port"
  shows "port_find_connection port pt = Some None" "port_uses pt port = 0"
proof -
  obtain r where r: "port_find_connection port pt = Some r"
    "\<forall>k. r = Some k \<longleftrightarrow> (\<exists>c. pt_cons pt k = Some c \<and> pc_port c = port)"
    using port_find_ok [OF assms(1), of port] by (elim exE conjE)
  have "r = None"
  proof (rule ccontr)
    assume "r \<noteq> None"
    then obtain k where "r = Some k" by auto
    then have "\<exists>c. pt_cons pt k = Some c \<and> pc_port c = port" using r(2) by simp
    then show False using assms(2) by blast
  qed
  then show "port_find_connection port pt = Some None" "port_uses pt port = 0" using r(1) by (simp_all add: port_uses_def)
qed

text \<open>The table depends on the counts only through \<open>port_uses\<close>.\<close>

lemma port_inv_count:
  assumes "port_inv pt" "pt_cons pt k = Some c" "0 < n"
  shows "port_inv (pt\<lparr>pt_cons := (pt_cons pt)(k := Some (c\<lparr>pc_count := n\<rparr>))\<rparr>)"
proof -
  have "port_of ((pt_cons pt)(k := Some (c\<lparr>pc_count := n\<rparr>))) = port_of (pt_cons pt)"
    using assms(2) by (auto simp: port_of_def)
  moreover have "dom ((pt_cons pt)(k := Some (c\<lparr>pc_count := n\<rparr>))) = dom (pt_cons pt)" using assms(2) by auto
  ultimately show ?thesis using assms by (auto simp: port_inv_def)
qed

lemma port_uses_cases:
  assumes "port_inv pt"
  obtains k c where "pt_cons pt k = Some c" "pc_port c = port"
  | "\<And>k c. pt_cons pt k = Some c \<Longrightarrow> pc_port c \<noteq> port"
  by blast

lemma port_unique:
  assumes "port_inv pt" "pt_cons pt k = Some c" "pt_cons pt j = Some d" "pc_port c = pc_port d"
  shows "j = k"
  using port_uses_at(1) [OF assms(1,2) refl] port_uses_at(1) [OF assms(1,3) assms(4) [symmetric]] by simp

text \<open>Two tables with the same connections but at one port agree at the other ports.\<close>

lemma port_uses_other:
  assumes "port_inv pt" "port_inv pt'" "\<And>k c. pc_port c = q \<Longrightarrow> pt_cons pt' k = Some c \<longleftrightarrow> pt_cons pt k = Some c"
  shows "port_uses pt' q = port_uses pt q"
proof (rule port_uses_cases [OF assms(1), of q])
  fix k c assume "pt_cons pt k = Some c" "pc_port c = q"
  then show ?thesis using port_uses_at(2) [OF assms(1)] port_uses_at(2) [OF assms(2)] assms(3) by metis
next
  assume "\<And>k c. pt_cons pt k = Some c \<Longrightarrow> pc_port c \<noteq> q"
  then show ?thesis using port_uses_none(2) [OF assms(1)] port_uses_none(2) [OF assms(2)] assms(3) by metis
qed

text \<open>Insertion adds a use of the port, removal takes one away.\<close>

lemma port_insert_ok:
  assumes inv: "port_inv pt" and k: "pt_cons pt k = None"
  shows "\<exists>pt'. port_insert_connection k g la ra port pt = Some pt' \<and> port_inv pt' \<and>
           port_uses pt' = (port_uses pt)(port := port_uses pt port + 1)"
proof (rule port_uses_cases [OF inv, of port])
  fix j c assume c: "pt_cons pt j = Some c" "pc_port c = port"
  let ?pt = "pt\<lparr>pt_cons := (pt_cons pt)(j := Some (c\<lparr>pc_count := pc_count c + 1\<rparr>))\<rparr>"
  have "0 < pc_count c" using inv c by (auto simp: port_inv_def)
  then have inv': "port_inv ?pt" by (intro port_inv_count [OF inv c(1)]) simp
  have "port_insert_connection k g la ra port pt = Some ?pt"
    using port_uses_at(1) [OF inv c] c(1) by (simp add: port_insert_connection_def)
  moreover have "port_uses ?pt port = port_uses pt port + 1"
    using port_uses_at(2) [OF inv c] port_uses_at(2) [OF inv', of j "c\<lparr>pc_count := pc_count c + 1\<rparr>" port] c(2) by simp
  moreover have "port_uses ?pt q = port_uses pt q" if "q \<noteq> port" for q
    using that c by (intro port_uses_other [OF inv inv']) auto
  ultimately show ?thesis using inv' by (intro exI [of _ ?pt]) auto
next
  assume new: "\<And>k c. pt_cons pt k = Some c \<Longrightarrow> pc_port c \<noteq> port"
  define tmp where "tmp = \<lparr>pc_local_addr = la, pc_remote_addr = ra, pc_port = port, pc_count = 1\<rparr>"
  have val: "port_of ((pt_cons pt)(k := Some tmp)) = (port_of (pt_cons pt))(k := port)"
    by (auto simp: port_of_def tmp_def)
  obtain ks where ks: "holds_nodes (pt_tree pt) ks" "port_order.ordered (port_of (pt_cons pt)) ks" "set ks = dom (pt_cons pt)"
    using inv by (auto simp: port_inv_def)
  have "port_comparator port (port_of (pt_cons pt) j) \<noteq> 0" if "j \<in> set ks" for j
  proof -
    have "j \<in> dom (pt_cons pt)" using that ks(3) by simp
    then obtain c where "pt_cons pt j = Some c" by auto
    with new [OF this] show ?thesis by (auto simp: port_of_def)
  qed
  then have "k \<notin> set ks" "\<forall>j\<in>set ks. port_comparator port (port_of (pt_cons pt) j) \<noteq> 0"
    using k ks(3) by auto
  from port_order.insert_new [OF ks(1,2) this(1) TrueI this(2), of g] obtain ref t ks' where
    t: "BAVL_Insert port_comparator ((port_of (pt_cons pt))(k := port)) ((pt_tree pt)\<lparr>nodes := (nodes (pt_tree pt))(k := Some g)\<rparr>) k = Some (True, ref, t)"
      "holds_nodes t ks'" "port_order.ordered ((port_of (pt_cons pt))(k := port)) ks'" "set ks' = insert k (set ks)"
    by blast
  let ?pt = "pt\<lparr>pt_tree := t, pt_cons := (pt_cons pt)(k := Some tmp)\<rparr>"
  have "port_insert_connection k g la ra port pt = Some ?pt"
    using port_uses_none(1) [OF inv new] t(1) val by (simp add: port_insert_connection_def tmp_def)
  moreover have inv': "port_inv ?pt"
    using inv t(2-4) val ks(3) by (auto simp: port_inv_def tmp_def)
  moreover have "port_uses ?pt port = port_uses pt port + 1"
    using port_uses_at(2) [OF inv', of k tmp port] port_uses_none(2) [OF inv new] by (simp add: tmp_def)
  moreover have "port_uses ?pt q = port_uses pt q" if "q \<noteq> port" for q
    using that k by (intro port_uses_other [OF inv inv']) (auto simp: tmp_def)
  ultimately show ?thesis by (intro exI [of _ ?pt]) auto
qed

lemma port_remove_ok:
  assumes inv: "port_inv pt" and c: "pt_cons pt k = Some c"
  shows "\<exists>pt'. port_remove_connection k pt = Some pt' \<and> port_inv pt' \<and>
           port_uses pt' = (port_uses pt)(pc_port c := port_uses pt (pc_port c) - 1)"
proof (cases "pc_count c = 1")
  case False
  let ?c = "c\<lparr>pc_count := pc_count c - 1\<rparr>"
  let ?pt = "pt\<lparr>pt_cons := (pt_cons pt)(k := Some ?c)\<rparr>"
  have pos: "1 < pc_count c" using inv c False by (fastforce simp: port_inv_def)
  then have inv': "port_inv ?pt" by (intro port_inv_count [OF inv c]) simp
  have "port_remove_connection k pt = Some ?pt" using c pos by (simp add: port_remove_connection_def)
  moreover have "port_uses ?pt (pc_port c) = port_uses pt (pc_port c) - 1"
    using port_uses_at(2) [OF inv c refl] port_uses_at(2) [OF inv', of k ?c "pc_port c"] by simp
  moreover have "port_uses ?pt q = port_uses pt q" if "q \<noteq> pc_port c" for q
    using that c by (intro port_uses_other [OF inv inv']) auto
  ultimately show ?thesis using inv' by (intro exI [of _ ?pt]) auto
next
  case True
  obtain ks where ks: "holds_nodes (pt_tree pt) ks" "port_order.ordered (port_of (pt_cons pt)) ks" "set ks = dom (pt_cons pt)"
    using inv by (auto simp: port_inv_def)
  then have "k \<in> set ks" using c by auto
  from port_order.remove_held [OF ks(1,2) this] obtain t ks' where
    t: "BAVL_Remove (pt_tree pt) k = Some t" "holds_nodes (t\<lparr>nodes := (nodes t)(k := None)\<rparr>) ks'"
      "port_order.ordered (port_of (pt_cons pt)) ks'" "set ks' = set ks - {k}"
    by blast
  have "port_of ((pt_cons pt)(k := None)) = (port_of (pt_cons pt))(k := port_of (\<lambda>_. None) k)"
    by (auto simp: port_of_def)
  then have ord: "port_order.ordered (port_of ((pt_cons pt)(k := None))) ks'"
    using port_order.ordered_upd [OF t(3)] t(4) by simp
  let ?pt = "pt\<lparr>pt_tree := t\<lparr>nodes := (nodes t)(k := None)\<rparr>, pt_cons := (pt_cons pt)(k := None)\<rparr>"
  have "port_remove_connection k pt = Some ?pt" using c True t(1) by (simp add: port_remove_connection_def)
  moreover have inv': "port_inv ?pt" using inv t(2,4) ord ks(3) by (auto simp: port_inv_def)
  moreover have "port_uses ?pt (pc_port c) = port_uses pt (pc_port c) - 1"
    using port_uses_at(2) [OF inv c refl] port_uses_none(2) [OF inv', of "pc_port c"] port_unique [OF inv c] True
    by (fastforce split: if_splits)
  moreover have "port_uses ?pt q = port_uses pt q" if "q \<noteq> pc_port c" for q
    using that c by (intro port_uses_other [OF inv inv']) auto
  ultimately show ?thesis by (intro exI [of _ ?pt]) auto
qed

text \<open>\<open>free_connections\<close> ends with an empty tree.\<close>

lemma free_connections_ok: "holds_nodes t ks \<Longrightarrow> \<exists>t'. free_connections t = Some t' \<and> root t' = None"
proof (induction "length ks" arbitrary: t ks)
  case 0
  then have "root t = None" by (auto simp: holds_nodes_def tree_cut_def elim: addrs.elims)
  then show ?case by (simp add: free_connections.simps [of t] BAVL_IsEmpty_def)
next
  case (Suc n)
  obtain x where x: "tree_cut t [] x" "avl x" "addrs x = ks" using Suc.prems by (auto simp: holds_nodes_def)
  obtain l where l: "first_of (rev ks) = Some l" "l \<in> set ks" using Suc.hyps(2) by (cases ks rule: rev_cases) auto
  obtain t' y where y: "BAVL_Remove t l = Some t'" "tree_cut t' [] y" "avl y" "addrs y = remove1 l ks"
    using BAVL_Remove_ok [OF x(1,2)] l(2) x(3) by blast
  have "n = length (remove1 l ks)" using Suc.hyps(2) l(2) by (simp add: length_remove1)
  moreover have "holds_nodes t' (remove1 l ks)" using y unfolding holds_nodes_def by blast
  ultimately obtain t'' where "free_connections t' = Some t''" "root t'' = None" using Suc.hyps(1) by blast
  moreover have "\<not> BAVL_IsEmpty t"
    using x Suc.hyps(2) by (cases x) (auto simp: BAVL_IsEmpty_def tree_cut_def)
  ultimately show ?case
    using GetLast_ok [OF x(1)] x(3) l(1) y(1) by (simp add: free_connections.simps [of t])
qed

end
