(* ===== verification/Tun2socks_Main.thy ===== *)
theory Tun2socks_Main
  imports Options SocksUdpGw Device PortTable
begin

text \<open>
  The frame of \<open>tun2socks/tun2socks.c\<close>: receiving the descriptor of the device from the application
  (\<open>wait_for_fd\<close>, \<open>libancillary/fd_recv.c\<close>), \<open>daemonize\<close>, the creation of the UDP relay client, the set-up and
  tear-down of lwIP, the TCP timer, and \<open>main\<close> with its labels for releasing what was set up.  The answers of
  the operating system and of lwIP are parameters.
\<close>

section \<open>The descriptor from the application\<close>

text \<open>
  \<open>recvmsg\<close> fails, or receives a message without a descriptor, or one with the single descriptor there is
  room for.  \<open>ancil_recv_fd\<close> gives whether it succeeded, and the variable \<open>fd\<close> afterwards; the control
  buffer holds -1 beforehand.
\<close>

datatype recvmsg_result = RecvFailed | NoControl | Rights int

definition ancil_recv_fd :: "recvmsg_result \<Rightarrow> int \<Rightarrow> bool \<times> int" where
  "ancil_recv_fd r fd =
     (case r of
        RecvFailed \<Rightarrow> (False, fd)
      | NoControl \<Rightarrow> (True, -1)
      | Rights f \<Rightarrow> (True, f))"

record fd_sys =
  sys_socket :: "int option"
  sys_bind :: "string \<Rightarrow> bool"
  sys_listen :: bool
  sys_select :: bool
  sys_accept :: "int option"
  sys_recvmsg :: recvmsg_result
  uninitialised_fd :: int

definition SUN_PATH_SIZE :: nat where
  "SUN_PATH_SIZE = 108"

definition sock_path_of :: "options \<Rightarrow> string" where
  "sock_path_of opts =
     (case opt_sock_path opts of
        None \<Rightarrow> ''/data/data/com.github.shadowsocks/sock_path''
      | Some p \<Rightarrow> p)"

text \<open>
  \<open>wait_for_fd\<close>: the descriptor returned, the sockets opened and the sockets closed.  The flags of the
  socket, which the code derives from the uninitialised variable, are left out.
\<close>

definition wait_for_fd :: "options \<Rightarrow> fd_sys \<Rightarrow> int \<times> int list \<times> int list" where
  "wait_for_fd opts sys =
     (case sys_socket sys of
        None \<Rightarrow> (-1, [], [])
      | Some sock \<Rightarrow>
          if \<not> sys_bind sys (take (SUN_PATH_SIZE - 1) (sock_path_of opts)) then (-1, [sock], [sock])
          else if \<not> sys_listen sys then (-1, [sock], [sock])
          else if \<not> sys_select sys then (uninitialised_fd sys, [sock], [sock])
          else case sys_accept sys of
              None \<Rightarrow> (uninitialised_fd sys, [sock], [sock])
            | Some sock2 \<Rightarrow>
                (snd (ancil_recv_fd (sys_recvmsg sys) (uninitialised_fd sys)), [sock, sock2], [sock2, sock]))"

record fork_sys =
  fork_pid :: int
  pid_file_ok :: bool
  setsid_ok :: bool
  chdir_ok :: bool

datatype daemon_end = DaemonExit int "string option" | DaemonChild

text \<open>The end of the process with its exit code and the contents of the pid file, or the child that goes on.\<close>

definition daemonize :: "fork_sys \<Rightarrow> daemon_end" where
  "daemonize sys =
     (if fork_pid sys < 0 then DaemonExit 1 None
      else if fork_pid sys > 0 then
        if \<not> pid_file_ok sys then DaemonExit 1 None
        else DaemonExit 0 (Some (int_str (fork_pid sys)))
      else if \<not> setsid_ok sys then DaemonExit 1 None
      else if \<not> chdir_ok sys then DaemonExit 1 None
      else DaemonChild)"

section \<open>The UDP relay client\<close>

definition PACKETPROTO_MAXPAYLOAD :: int where
  "PACKETPROTO_MAXPAYLOAD = UINT16_MAX"

definition compute_udp_mtu :: "int \<Rightarrow> bool \<Rightarrow> int" where
  "compute_udp_mtu mtu ip6 =
     (let udp_mtu = mtu - int (sizeof_ipv4_header + sizeof_udp_header);
          udp_ip6_mtu = mtu - int (sizeof_ipv6_header + sizeof_udp_header);
          udp_mtu = (if ip6 \<and> udp_mtu < udp_ip6_mtu then udp_ip6_mtu else udp_mtu)
      in if udp_mtu < 0 then 0 else udp_mtu)"

text \<open>\<^term>\<open>Some None\<close> is \<open>goto fail4a\<close>.\<close>

definition init_udpgw :: "options \<Rightarrow> settings \<Rightarrow> int \<Rightarrow> SocksUdpGwClient option option" where
  "init_udpgw opts st mtu =
     (let udp_mtu = compute_udp_mtu mtu (opt_netif_ip6addr opts \<noteq> None);
          gw_mtu = udpgw_compute_mtu udp_mtu
      in if gw_mtu < 0 \<or> gw_mtu > PACKETPROTO_MAXPAYLOAD then Some None
         else do {
           c \<leftarrow> SocksUdpGwClient_Init (nat udp_mtu) DEFAULT_UDPGW_MAX_CONNECTIONS (set_socks_server_addr st) (set_dnsgw st);
           Some (Some c) })"

section \<open>lwIP\<close>

text \<open>
  The control blocks of lwIP: those allocated, and the lists of bound, active and waiting ones.  Clients
  are known by their control block; their own state is in the theories of the TCP relay.
\<close>

record net =
  have_netif :: bool
  listener :: "nat option"
  listener_ip6 :: "nat option"
  live_pcbs :: "nat list"
  bound_pcbs :: "nat list"
  active_pcbs :: "nat list"
  tw_pcbs :: "nat list"
  next_pcb :: nat
  net_clients :: "nat list"
  tcp_timer_mod4 :: nat
  slow_timers :: nat

definition net0 :: net where
  "net0 = \<lparr>have_netif = False, listener = None, listener_ip6 = None, live_pcbs = [], bound_pcbs = [], active_pcbs = [],
     tw_pcbs = [], next_pcb = 0, net_clients = [], tcp_timer_mod4 = 0, slow_timers = 0\<rparr>"

definition pcb_new :: "net \<Rightarrow> nat \<times> net" where
  "pcb_new n = (next_pcb n, n\<lparr>live_pcbs := next_pcb n # live_pcbs n, next_pcb := next_pcb n + 1\<rparr>)"

definition pcb_free :: "nat \<Rightarrow> net \<Rightarrow> net option" where
  "pcb_free p n =
     ASSERT (p \<in> set (live_pcbs n))
       (Some (n\<lparr>live_pcbs := remove1 p (live_pcbs n), bound_pcbs := remove1 p (bound_pcbs n),
                active_pcbs := remove1 p (active_pcbs n), tw_pcbs := remove1 p (tw_pcbs n)\<rparr>))"

definition pcb_bind :: "nat \<Rightarrow> net \<Rightarrow> net option" where
  "pcb_bind p n = ASSERT (p \<in> set (live_pcbs n)) (Some (n\<lparr>bound_pcbs := p # bound_pcbs n\<rparr>))"

text \<open>\<open>tcp_listen\<close> gives a smaller control block and frees its argument, or fails and leaves it alone.\<close>

definition pcb_listen :: "bool \<Rightarrow> nat \<Rightarrow> net \<Rightarrow> (nat option \<times> net) option" where
  "pcb_listen ok p n =
     ASSERT (p \<in> set (bound_pcbs n))
       (if ok then let (l, n) = pcb_new n in do { n \<leftarrow> pcb_free p n; Some (Some l, n) }
        else Some (None, n))"

text \<open>What lwIP answers during the set-up of one listener.\<close>

record listen_res =
  new_ok :: bool
  bind_ok :: bool
  listen_ok :: bool

text \<open>A listener on the interface: its control block, or \<^term>\<open>None\<close> after \<open>goto fail\<close>.\<close>

definition make_listener :: "listen_res \<Rightarrow> net \<Rightarrow> (nat option \<times> net) option" where
  "make_listener r n =
     (if \<not> new_ok r then Some (None, n)
      else let (l, n) = pcb_new n in
        if \<not> bind_ok r then do { n \<leftarrow> pcb_free l n; Some (None, n) }
        else do {
          n \<leftarrow> pcb_bind l n;
          (x, n) \<leftarrow> pcb_listen (listen_ok r) l n;
          (case x of
             None \<Rightarrow> do { n \<leftarrow> pcb_free l n; Some (None, n) }
           | Some x \<Rightarrow> Some (Some x, n)) })"

text \<open>\<open>lwip_init_job_hadler\<close>: whether it ends without \<open>goto fail\<close>, which terminates the program.\<close>

definition lwip_init_job_hadler :: "bool \<Rightarrow> listen_res \<Rightarrow> listen_res \<Rightarrow> bool \<Rightarrow> BIPAddr \<Rightarrow> net \<Rightarrow> (bool \<times> net) option" where
  "lwip_init_job_hadler netif_ok r4 r6 ip6 ipaddr n =
     ASSERT (bipaddr_type ipaddr = 1) (
     ASSERT (\<not> have_netif n \<and> listener n = None \<and> listener_ip6 n = None) (
     if \<not> netif_ok then Some (False, n)
     else do {
       (l, n) \<leftarrow> make_listener r4 (n\<lparr>have_netif := True\<rparr>);
       (case l of
          None \<Rightarrow> Some (False, n)
        | Some l \<Rightarrow>
            let n = n\<lparr>listener := Some l\<rparr> in
            if \<not> ip6 then Some (True, n)
            else do {
              (l6, n) \<leftarrow> make_listener r6 n;
              (case l6 of
                 None \<Rightarrow> Some (False, n)
               | Some l6 \<Rightarrow> Some (True, n\<lparr>listener_ip6 := Some l6\<rparr>)) }) }))"

definition tcp_timer_handler :: "bool \<Rightarrow> net \<Rightarrow> net option" where
  "tcp_timer_handler is_quitting n =
     ASSERT (\<not> is_quitting) (
     let n = n\<lparr>tcp_timer_mod4 := (tcp_timer_mod4 n + 1) mod 4\<rparr>
     in Some (if tcp_timer_mod4 n = 0 then n\<lparr>slow_timers := slow_timers n + 1\<rparr> else n))"

fun tcp_remove :: "nat list \<Rightarrow> net \<Rightarrow> net option" where
  "tcp_remove [] n = Some n"
| "tcp_remove (p # ps) n = do { n \<leftarrow> pcb_free p n; tcp_remove ps n }"

text \<open>The clients are murdered: each aborts its control block.\<close>

fun free_clients :: "nat list \<Rightarrow> net \<Rightarrow> net option" where
  "free_clients [] n = Some n"
| "free_clients (c # cs) n = do { n \<leftarrow> pcb_free c n; free_clients cs (n\<lparr>net_clients := cs\<rparr>) }"

text \<open>The table of ports is a static object that is never filled.\<close>

definition port_tree :: BAVL where
  "port_tree = \<lparr>root = None, nodes = (\<lambda>_. None)\<rparr>"

definition free_lwip :: "net \<Rightarrow> net option" where
  "free_lwip n =
     do {
       n \<leftarrow> free_clients (net_clients n) n;
       n \<leftarrow> (case listener_ip6 n of None \<Rightarrow> Some n | Some l \<Rightarrow> pcb_free l n);
       n \<leftarrow> (case listener n of None \<Rightarrow> Some n | Some l \<Rightarrow> pcb_free l n);
       let n = n\<lparr>have_netif := False\<rparr>;
       n \<leftarrow> tcp_remove (bound_pcbs n) n;
       n \<leftarrow> tcp_remove (active_pcbs n) n;
       n \<leftarrow> tcp_remove (tw_pcbs n) n;
       _ \<leftarrow> free_connections port_tree;
       Some n }"

section \<open>The event loop\<close>

datatype main_event =
    MDev dev_event
  | MTimer
  | MAccept
  | MClientGone nat bool
  | MTimeWait nat
  | MPcbGone nat

record main_env =
  env_argv :: "string list"
  env_channels :: "string list"
  env_syslog_ok :: bool
  env_fd :: fd_sys
  env_fork :: fork_sys
  env_network_ok :: bool
  env_resolver :: resolver
  env_read_file :: "string \<Rightarrow> bytes option"
  env_reactor_ok :: bool
  env_signal_ok :: bool
  env_tap :: tap_sys
  env_alloc :: "nat \<Rightarrow> bytes option"
  env_write_buf :: "nat \<Rightarrow> bytes option"
  env_netif_ok :: bool
  env_listen4 :: listen_res
  env_listen6 :: listen_res
  env_events :: "main_event list"

text \<open>
  One event.  A device event runs as in the theory of the device; the job of lwIP calls its handler.  An
  accepted connection adds a client with its control block; a client that goes aborts the control block or
  leaves it to lwIP, where it waits and disappears.  Events that cannot happen in the state do nothing.
\<close>

fun loop_step :: "main_env \<Rightarrow> bool \<Rightarrow> BIPAddr \<Rightarrow> main_event \<Rightarrow> dev \<times> net \<Rightarrow> (dev \<times> net) option" where
  "loop_step env ip6 ipaddr (MDev e) (d, n) =
     (if \<not> dev_enabled e d then Some (d, n)
      else case e of
          DevJob a \<Rightarrow>
            if hd (pg_jobs (dev_group d)) = Lwip_init_job then
              do { (ok, n) \<leftarrow> lwip_init_job_hadler (env_netif_ok env) (env_listen4 env) (env_listen6 env) ip6 ipaddr n;
                   d \<leftarrow> dev_run (DevJob (a\<lparr>ans_lwip := ok\<rparr>)) d;
                   Some (d, n) }
            else do { d \<leftarrow> dev_run e d; Some (d, n) }
        | _ \<Rightarrow> do { d \<leftarrow> dev_run e d; Some (d, n) })"
| "loop_step env ip6 ipaddr MTimer (d, n) = do { n \<leftarrow> tcp_timer_handler (dev_quitting d) n; Some (d, n) }"
| "loop_step env ip6 ipaddr MAccept (d, n) =
     (if listener n = None then Some (d, n)
      else let (p, n) = pcb_new n
           in Some (d, n\<lparr>active_pcbs := p # active_pcbs n, net_clients := net_clients n @ [p]\<rparr>))"
| "loop_step env ip6 ipaddr (MClientGone p aborts) (d, n) =
     (if p \<notin> set (net_clients n) then Some (d, n)
      else let n = n\<lparr>net_clients := remove1 p (net_clients n)\<rparr>
           in if aborts then do { n \<leftarrow> pcb_free p n; Some (d, n) } else Some (d, n))"
| "loop_step env ip6 ipaddr (MTimeWait p) (d, n) =
     (if p \<notin> set (active_pcbs n) \<or> p \<in> set (net_clients n) then Some (d, n)
      else Some (d, n\<lparr>active_pcbs := remove1 p (active_pcbs n), tw_pcbs := p # tw_pcbs n\<rparr>))"
| "loop_step env ip6 ipaddr (MPcbGone p) (d, n) =
     (if p \<notin> set (active_pcbs n) \<union> set (tw_pcbs n) \<or> p \<in> set (net_clients n) then Some (d, n)
      else do { n \<leftarrow> pcb_free p n; Some (d, n) })"

text \<open>\<open>BReactor_Exec\<close>: the events until \<open>BReactor_Quit\<close> was called.\<close>

fun run_loop :: "main_env \<Rightarrow> bool \<Rightarrow> BIPAddr \<Rightarrow> main_event list \<Rightarrow> dev \<times> net \<Rightarrow> (dev \<times> net) option" where
  "run_loop env ip6 ipaddr [] s = Some s"
| "run_loop env ip6 ipaddr (e # es) s =
     (if dev_quitting (fst s) then Some s
      else do { s \<leftarrow> loop_step env ip6 ipaddr e s; run_loop env ip6 ipaddr es s })"

section \<open>\<open>main\<close>\<close>

datatype resource =
    Log | PasswordFile | Reactor | Signals | Device | ReadInterface | ReadBuffer | UdpgwClient | LwipJob | WriteBuffer | TcpTimer

datatype action = Acquire resource | Release resource

datatype main_end = Return int | Exit int "string option" | Running

type_synonym main_result = "(main_end \<times> action list \<times> net) option"

text \<open>The labels; the list is what was acquired and released so far.\<close>

definition fail0 :: "net \<Rightarrow> action list \<Rightarrow> main_result" where
  "fail0 n t = Some (Return 1, t, n)"

definition fail1 :: "settings \<Rightarrow> net \<Rightarrow> action list \<Rightarrow> main_result" where
  "fail1 st n t =
     fail0 n (t @ (if password_file_contents st \<noteq> None then [Release PasswordFile] else []) @ [Release Log])"

definition fail2 :: "settings \<Rightarrow> net \<Rightarrow> dev_job BPendingGroup \<Rightarrow> action list \<Rightarrow> main_result" where
  "fail2 st n g t = do { BPendingGroup_Free g; fail1 st n (t @ [Release Reactor]) }"

definition fail3 :: "settings \<Rightarrow> net \<Rightarrow> dev_job BPendingGroup \<Rightarrow> action list \<Rightarrow> main_result" where
  "fail3 st n g t = fail2 st n g (t @ [Release Signals])"

definition fail4 :: "settings \<Rightarrow> net \<Rightarrow> BTap \<Rightarrow> dev_job PacketRecvInterface \<Rightarrow> dev_job PacketPassInterface \<Rightarrow>
    dev_job BPendingGroup \<Rightarrow> action list \<Rightarrow> main_result" where
  "fail4 st n device out i g t =
     do { g \<leftarrow> PacketPassInterface_Free i g;
          (closed, g) \<leftarrow> BTap_Free device out g;
          fail3 st n g (t @ [Release ReadInterface, Release Device]) }"

definition fail4a :: "settings \<Rightarrow> net \<Rightarrow> BTap \<Rightarrow> dev_job recv_path \<Rightarrow> dev_job BPendingGroup \<Rightarrow> action list \<Rightarrow> main_result" where
  "fail4a st n device p g t = fail4 st n device (rp_input p) (rp_output p) g (t @ [Release ReadBuffer])"

definition fail5 :: "settings \<Rightarrow> net \<Rightarrow> bool \<Rightarrow> BTap \<Rightarrow> dev_job recv_path \<Rightarrow> dev_job BPendingGroup \<Rightarrow> action list \<Rightarrow> main_result" where
  "fail5 st n udpgw device p g t =
     do { g \<leftarrow> BPending_Free Lwip_init_job g;
          fail4a st n device p g (t @ [Release LwipJob] @ (if udpgw then [Release UdpgwClient] else [])) }"

text \<open>From the set-up of lwIP's job to the end.\<close>

definition main_loop :: "main_env \<Rightarrow> options \<Rightarrow> settings \<Rightarrow> bool \<Rightarrow> BTap \<Rightarrow> dev_job recv_path \<Rightarrow> dev_job BPendingGroup \<Rightarrow>
    action list \<Rightarrow> main_result" where
  "main_loop env opts st udpgw device p g t =
     do {
       g \<leftarrow> BPending_Init Lwip_init_job g;
       g \<leftarrow> BPending_Set Lwip_init_job g;
       let t = t @ [Acquire LwipJob];
       (case env_write_buf env (frame_mtu device) of
          None \<Rightarrow> fail5 st net0 udpgw device p g t
        | Some wb \<Rightarrow>
            let t = t @ [Acquire WriteBuffer, Acquire TcpTimer] in
            do {
              (d, n) \<leftarrow> run_loop env (opt_netif_ip6addr opts \<noteq> None) (netif_ipaddr st) (env_events env)
                 (\<lparr>tap = device, dev_path = p, dev_group = g, dev_quitting = False, dev_read = [], dev_handled = [],
                   pbufs_allocated = 0, pbufs_freed = 0, pbufs_in_lwip = 0\<rparr>, net0);
              if \<not> dev_quitting d then Some (Running, t, n)
              else do {
                n \<leftarrow> free_lwip n;
                fail5 st n udpgw (tap d) (dev_path d) (dev_group d) (t @ [Release TcpTimer, Release WriteBuffer]) } }) }"

text \<open>From the reactor to the UDP relay client.\<close>

definition main_setup :: "main_env \<Rightarrow> options \<Rightarrow> settings \<Rightarrow> int \<Rightarrow> action list \<Rightarrow> main_result" where
  "main_setup env opts st fd t =
     (if \<not> env_reactor_ok env then fail1 st net0 t
      else let t = t @ [Acquire Reactor]; g = BPendingGroup_Init in
      if \<not> env_signal_ok env then fail2 st net0 g t
      else let t = t @ [Acquire Signals] in
      do {
        (r, closed, g) \<leftarrow> BTap_Init2 (env_tap env) BTAP_DEV_TUN (BTAP_INIT_FD fd (tun_mtu opts)) Dev_recv_op Dev_recv_done g;
        (case r of
           None \<Rightarrow> fail3 st net0 g t
         | Some (device, out) \<Rightarrow>
             do {
               (i, g) \<leftarrow> PacketPassInterface_Init (frame_mtu device) Dev_read_op Dev_read_cancel Dev_read_done g;
               let t = t @ [Acquire Device, Acquire ReadInterface];
               b \<leftarrow> SinglePacketBuffer_Init (env_alloc env) out i g;
               (case b of
                  None \<Rightarrow> fail4 st net0 device out i g t
                | Some (p, g) \<Rightarrow>
                    let t = t @ [Acquire ReadBuffer] in
                    if opt_udpgw_remote_server_addr opts = None then main_loop env opts st False device p g t
                    else do {
                      c \<leftarrow> init_udpgw opts st (int (frame_mtu device));
                      (case c of
                         None \<Rightarrow> fail4a st net0 device p g t
                       | Some c \<Rightarrow> main_loop env opts st True device p g (t @ [Acquire UdpgwClient])) }) }) })"

text \<open>After the descriptor has arrived.\<close>

definition main_settings :: "main_env \<Rightarrow> options \<Rightarrow> int \<Rightarrow> action list \<Rightarrow> main_result" where
  "main_settings env opts fd t =
     (if \<not> env_network_ok env then fail1 zero_settings net0 t
      else do {
        (ok, st) \<leftarrow> process_arguments (env_resolver env) (env_read_file env) opts zero_settings;
        let t = t @ (if password_file_contents st \<noteq> None then [Acquire PasswordFile] else []);
        if \<not> ok then fail1 st net0 t else main_setup env opts st fd t })"

definition main :: "main_env \<Rightarrow> main_result" where
  "main env =
     (if env_argv env = [] then Some (Return 1, [], net0)
      else do {
        r \<leftarrow> parse_arguments (env_channels env) (env_argv env) None;
        (case r of
           None \<Rightarrow> fail0 net0 []
         | Some opts \<Rightarrow>
             if opt_help opts \<or> opt_version opts then Some (Return 0, [], net0)
             else if opt_logger opts = LOGGER_SYSLOG \<and> \<not> env_syslog_ok env then fail0 net0 []
             else let t = [Acquire Log]; fd = fst (wait_for_fd opts (env_fd env)) in
               if fd = -1 then fail1 zero_settings net0 t
               else case (if opt_pid opts = None then DaemonChild else daemonize (env_fork env)) of
                   DaemonExit code pid \<Rightarrow> Some (Exit code pid, t, net0)
                 | DaemonChild \<Rightarrow> main_settings env opts fd t) })"


section \<open>The control blocks\<close>

abbreviation opt_list :: "'a option \<Rightarrow> 'a list" where
  "opt_list x \<equiv> (case x of None \<Rightarrow> [] | Some y \<Rightarrow> [y])"

definition listeners :: "net \<Rightarrow> nat list" where
  "listeners n = opt_list (listener n) @ opt_list (listener_ip6 n)"

text \<open>Every allocated control block is one of \<open>ls\<close> or on one of lwIP's lists.\<close>

definition net_with :: "nat list \<Rightarrow> net \<Rightarrow> bool" where
  "net_with ls n \<longleftrightarrow>
     distinct (live_pcbs n) \<and> distinct (ls @ active_pcbs n @ tw_pcbs n) \<and>
     set (live_pcbs n) = set (ls @ active_pcbs n @ tw_pcbs n) \<and> bound_pcbs n = [] \<and>
     distinct (net_clients n) \<and> set (net_clients n) \<subseteq> set (active_pcbs n) \<and> (\<forall>p \<in> set (live_pcbs n). p < next_pcb n)"

definition net_inv :: "net \<Rightarrow> bool" where
  "net_inv n \<longleftrightarrow> net_with (listeners n) n"

definition no_lwip :: "net \<Rightarrow> bool" where
  "no_lwip n \<longleftrightarrow> \<not> have_netif n \<and> listener n = None \<and> listener_ip6 n = None"

lemma net0_inv: "net_inv net0" "no_lwip net0"
  by (simp_all add: net_inv_def net_with_def net0_def listeners_def no_lwip_def)

lemma next_fresh:
  assumes "net_with ls n" "next_pcb n \<le> l"
  shows "l \<notin> set (live_pcbs n)" "l \<notin> set (active_pcbs n)" "l \<notin> set (tw_pcbs n)" "bound_pcbs n = []"
    "remove1 l (active_pcbs n) = active_pcbs n" "remove1 l (tw_pcbs n) = tw_pcbs n" "l \<notin> set ls"
proof -
  have "\<forall>p \<in> set (live_pcbs n). p < next_pcb n" using assms by (simp add: net_with_def)
  then show l: "l \<notin> set (live_pcbs n)" using assms(2) by auto
  then show "l \<notin> set ls" "l \<notin> set (active_pcbs n)" "l \<notin> set (tw_pcbs n)" using assms by (auto simp: net_with_def)
  then show "remove1 l (active_pcbs n) = active_pcbs n" "remove1 l (tw_pcbs n) = tw_pcbs n" by (simp_all add: remove1_idem)
  show "bound_pcbs n = []" using assms by (simp add: net_with_def)
qed

lemma make_listener_ok:
  assumes "net_with ls n"
  shows "\<exists>x m. make_listener r n = Some (x, n\<lparr>live_pcbs := opt_list x @ live_pcbs n, next_pcb := m\<rparr>) \<and> next_pcb n \<le> m \<and>
    (\<forall>l. x = Some l \<longrightarrow> next_pcb n \<le> l \<and> l < m)"
proof -
  note f = next_fresh [OF assms order_refl]
  show ?thesis
  proof (cases "new_ok r \<and> bind_ok r \<and> listen_ok r")
    case True
    then show ?thesis
      by (intro exI [of _ "Some (next_pcb n + 1)"] exI [of _ "next_pcb n + 2"])
        (simp add: make_listener_def pcb_new_def pcb_bind_def pcb_listen_def pcb_free_def f)
  next
    case False
    have e: "n\<lparr>live_pcbs := live_pcbs n, next_pcb := next_pcb n\<rparr> = n" by simp
    from False show ?thesis
      by (intro exI [of _ None] exI [of _ "if new_ok r then next_pcb n + 1 else next_pcb n"])
        (auto simp: make_listener_def pcb_new_def pcb_bind_def pcb_listen_def pcb_free_def f)
  qed
qed

lemma net_with_grow:
  assumes "net_with ls n" "next_pcb n \<le> m" "\<forall>l. x = Some l \<longrightarrow> next_pcb n \<le> l \<and> l < m"
  shows "net_with (opt_list x @ ls) (n\<lparr>live_pcbs := opt_list x @ live_pcbs n, next_pcb := m\<rparr>)"
proof -
  have "\<forall>p \<in> set (live_pcbs n). p < next_pcb n" using assms by (simp add: net_with_def)
  then have less: "\<forall>p \<in> set (live_pcbs n). p < m" using assms(2) by auto
  show ?thesis
  proof (cases x)
    case None
    then show ?thesis using assms(1) less by (simp add: net_with_def)
  next
    case (Some l)
    then have l: "next_pcb n \<le> l" "l < m" using assms by auto
    note f = next_fresh [OF assms(1) l(1)]
    have "set (live_pcbs n) = set ls \<union> (set (active_pcbs n) \<union> set (tw_pcbs n))" using assms(1) by (simp add: net_with_def)
    then show ?thesis using assms(1) less l(2) f Some by (auto simp: net_with_def)
  qed
qed

lemma net_with_perm:
  assumes "net_with (xs @ ys) n"
  shows "net_with (ys @ xs) n"
  using assms unfolding net_with_def by auto

lemma net_with_fields [simp]:
  "net_with ls (n\<lparr>have_netif := b\<rparr>) = net_with ls n" "net_with ls (n\<lparr>listener := x\<rparr>) = net_with ls n"
  "net_with ls (n\<lparr>listener_ip6 := x\<rparr>) = net_with ls n" "net_with ls (n\<lparr>tcp_timer_mod4 := k\<rparr>) = net_with ls n"
  "net_with ls (n\<lparr>slow_timers := k\<rparr>) = net_with ls n"
  by (simp_all add: net_with_def)

lemma lwip_init_ok:
  assumes i: "net_inv n" "no_lwip n" and t: "bipaddr_type ipaddr = 1"
  shows "\<exists>ok m. lwip_init_job_hadler netif_ok r4 r6 ip6 ipaddr n = Some (ok, m) \<and> net_inv m"
proof (cases netif_ok)
  case True
  let ?n = "n\<lparr>have_netif := True\<rparr>"
  have none: "listener n = None" "listener_ip6 n = None" using i(2) by (simp_all add: no_lwip_def)
  then have n: "net_with [] ?n" using i(1) by (simp add: net_inv_def listeners_def)
  from make_listener_ok [OF n, of r4] obtain x m where
    x: "make_listener r4 ?n = Some (x, ?n\<lparr>live_pcbs := opt_list x @ live_pcbs ?n, next_pcb := m\<rparr>)" "next_pcb ?n \<le> m"
      "\<forall>l. x = Some l \<longrightarrow> next_pcb ?n \<le> l \<and> l < m" by auto
  define n1 where "n1 = ?n\<lparr>live_pcbs := opt_list x @ live_pcbs ?n, next_pcb := m\<rparr>\<lparr>listener := x\<rparr>"
  have n1: "net_with (opt_list x) n1" unfolding n1_def using net_with_grow [OF n x(2,3)] by simp
  from make_listener_ok [OF n1, of r6] obtain y k where
    y: "make_listener r6 n1 = Some (y, n1\<lparr>live_pcbs := opt_list y @ live_pcbs n1, next_pcb := k\<rparr>)" "next_pcb n1 \<le> k"
      "\<forall>l. y = Some l \<longrightarrow> next_pcb n1 \<le> l \<and> l < k" by auto
  define n2 where "n2 = n1\<lparr>live_pcbs := opt_list y @ live_pcbs n1, next_pcb := k\<rparr>\<lparr>listener_ip6 := y\<rparr>"
  have "net_with (opt_list y @ opt_list x) n2" unfolding n2_def using net_with_grow [OF n1 y(2,3)] by simp
  then have n2: "net_inv n2" unfolding net_inv_def
    by (auto simp: listeners_def n2_def n1_def dest: net_with_perm)
  have n1': "net_inv n1" using n1 none by (simp add: net_inv_def listeners_def n1_def)
  have x': "make_listener r4 ?n = Some (x, ?n\<lparr>live_pcbs := opt_list x @ live_pcbs n, next_pcb := m\<rparr>)" using x(1) by simp
  have "lwip_init_job_hadler netif_ok r4 r6 ip6 ipaddr n \<in> {Some (False, n1), Some (True, n1), Some (y \<noteq> None, n2)}"
  proof (cases x)
    case None
    then have "?n\<lparr>live_pcbs := live_pcbs n, next_pcb := m\<rparr> = n1" using none by (simp add: n1_def)
    then show ?thesis using True t i(2) x' None by (simp add: lwip_init_job_hadler_def no_lwip_def)
  next
    case (Some l)
    have u: "?n\<lparr>live_pcbs := l # live_pcbs n, next_pcb := m\<rparr>\<lparr>listener := Some l\<rparr> = n1" by (simp add: n1_def Some)
    have v: "y = None \<Longrightarrow> n1\<lparr>live_pcbs := live_pcbs n1, next_pcb := k\<rparr> = n2"
      "\<And>q. y = Some q \<Longrightarrow> n1\<lparr>live_pcbs := q # live_pcbs n1, next_pcb := k\<rparr>\<lparr>listener_ip6 := Some q\<rparr> = n2"
      using none by (simp_all add: n2_def n1_def)
    have "lwip_init_job_hadler netif_ok r4 r6 ip6 ipaddr n = (if \<not> ip6 then Some (True, n1) else
        do { (l6, n) \<leftarrow> make_listener r6 n1;
             (case l6 of None \<Rightarrow> Some (False, n) | Some l6 \<Rightarrow> Some (True, n\<lparr>listener_ip6 := Some l6\<rparr>)) })"
      using True t i(2) x' Some u by (simp add: lwip_init_job_hadler_def no_lwip_def)
    then show ?thesis using y(1) v by (cases y) auto
  qed
  then show ?thesis using n1' n2 by auto
qed (use assms in \<open>auto simp: lwip_init_job_hadler_def no_lwip_def\<close>)

text \<open>A control block with no client can be freed.\<close>

lemma pcb_free_ok:
  assumes i: "net_with ls n" and p: "p \<in> set (ls @ active_pcbs n @ tw_pcbs n)" "p \<notin> set (net_clients n)"
  shows "\<exists>m. pcb_free p n = Some m \<and> net_with (remove1 p ls) m \<and> listener m = listener n \<and> listener_ip6 m = listener_ip6 n \<and>
    have_netif m = have_netif n \<and> net_clients m = net_clients n \<and> active_pcbs m = remove1 p (active_pcbs n) \<and>
    tw_pcbs m = remove1 p (tw_pcbs n)"
proof -
  let ?m = "n\<lparr>live_pcbs := remove1 p (live_pcbs n), bound_pcbs := remove1 p (bound_pcbs n),
    active_pcbs := remove1 p (active_pcbs n), tw_pcbs := remove1 p (tw_pcbs n)\<rparr>"
  have d: "distinct (live_pcbs n)" "set (live_pcbs n) = set (ls @ active_pcbs n @ tw_pcbs n)" "distinct (ls @ active_pcbs n @ tw_pcbs n)"
    using i by (simp_all add: net_with_def)
  have "distinct (remove1 p ls @ remove1 p (active_pcbs n) @ remove1 p (tw_pcbs n))"
    "set (remove1 p (live_pcbs n)) = set (remove1 p ls @ remove1 p (active_pcbs n) @ remove1 p (tw_pcbs n))"
    using d by (auto simp: distinct_remove1 set_remove1_eq)
  moreover have "set (net_clients n) \<subseteq> set (remove1 p (active_pcbs n))" using i p(2) d(3) by (auto simp: net_with_def set_remove1_eq)
  moreover have "\<forall>q \<in> set (remove1 p (live_pcbs n)). q < next_pcb n"
    using i set_remove1_subset [of p "live_pcbs n"] by (auto simp: net_with_def)
  ultimately have "net_with (remove1 p ls) ?m"
    using i d(1) by (simp add: net_with_def distinct_remove1)
  moreover have "p \<in> set (live_pcbs n)" using d(2) p(1) by auto
  ultimately show ?thesis by (simp add: pcb_free_def)
qed

lemma net_with_clients:
  assumes "net_with ls n" "set cs \<subseteq> set (net_clients n)" "distinct cs"
  shows "net_with ls (n\<lparr>net_clients := cs\<rparr>)"
  using assms by (auto simp: net_with_def)

lemma free_clients_ok:
  "net_with ls n \<Longrightarrow> net_clients n = cs \<Longrightarrow>
   \<exists>m. free_clients cs n = Some m \<and> net_with ls m \<and> net_clients m = [] \<and> listener m = listener n \<and> listener_ip6 m = listener_ip6 n"
proof (induction cs arbitrary: n)
  case (Cons c cs)
  have d: "distinct (c # cs)" "set (c # cs) \<subseteq> set (active_pcbs n)" "set ls \<inter> set (active_pcbs n) = {}"
    using Cons.prems by (auto simp: net_with_def)
  let ?n = "n\<lparr>net_clients := cs\<rparr>"
  have i: "net_with ls ?n" by (rule net_with_clients) (use Cons.prems d in auto)
  have "c \<in> set (ls @ active_pcbs ?n @ tw_pcbs ?n)" "c \<notin> set (net_clients ?n)" using d by auto
  from pcb_free_ok [OF i this] obtain m where
    m: "pcb_free c ?n = Some m" "net_with (remove1 c ls) m" "listener m = listener n" "listener_ip6 m = listener_ip6 n"
      "net_clients m = cs"
    by auto
  have ls: "remove1 c ls = ls" using d(2,3) by (auto intro!: remove1_idem)
  have "pcb_free c n = Some (m\<lparr>net_clients := c # cs\<rparr>)"
    using m(1) Cons.prems(2) by (auto simp: pcb_free_def)
  moreover have "m\<lparr>net_clients := c # cs\<rparr>\<lparr>net_clients := cs\<rparr> = m" using m(5) by simp
  ultimately show ?case using Cons.IH [OF m(2) [unfolded ls] m(5)] m(3,4) by simp
qed simp

lemma tcp_remove_ok:
  "net_with [] n \<Longrightarrow> net_clients n = [] \<Longrightarrow> distinct ps \<Longrightarrow> set ps \<subseteq> set (active_pcbs n) \<union> set (tw_pcbs n) \<Longrightarrow>
   \<exists>m. tcp_remove ps n = Some m \<and> net_with [] m \<and> net_clients m = [] \<and> have_netif m = have_netif n \<and>
     set (active_pcbs m) = set (active_pcbs n) - set ps \<and> set (tw_pcbs m) = set (tw_pcbs n) - set ps"
proof (induction ps arbitrary: n)
  case (Cons p ps)
  from pcb_free_ok [OF Cons.prems(1), of p] Cons.prems obtain m where
    m: "pcb_free p n = Some m" "net_with [] m" "net_clients m = []" "have_netif m = have_netif n"
      "active_pcbs m = remove1 p (active_pcbs n)" "tw_pcbs m = remove1 p (tw_pcbs n)" by auto
  have s: "set (active_pcbs m) = set (active_pcbs n) - {p}" "set (tw_pcbs m) = set (tw_pcbs n) - {p}"
    using m(5,6) Cons.prems(1) by (simp_all add: set_remove1_eq net_with_def)
  then have "set ps \<subseteq> set (active_pcbs m) \<union> set (tw_pcbs m)" using Cons.prems(3,4) by auto
  from Cons.IH [OF m(2,3) _ this] Cons.prems(3) obtain k where
    "tcp_remove ps m = Some k" "net_with [] k" "net_clients k = []" "have_netif k = have_netif m"
    "set (active_pcbs k) = set (active_pcbs m) - set ps" "set (tw_pcbs k) = set (tw_pcbs m) - set ps" by auto
  then show ?case using m s by auto
qed simp

lemma free_listener_ok:
  assumes "net_with ls n" "net_clients n = []" "\<And>l. x = Some l \<Longrightarrow> l \<in> set ls"
  shows "\<exists>m. (case x of None \<Rightarrow> Some n | Some l \<Rightarrow> pcb_free l n) = Some m \<and> net_with (fold remove1 (opt_list x) ls) m \<and>
    net_clients m = [] \<and> listener m = listener n"
proof (cases x)
  case (Some l)
  then have "l \<in> set (ls @ active_pcbs n @ tw_pcbs n)" using assms(3) by simp
  from pcb_free_ok [OF assms(1) this] assms(2) show ?thesis by (auto simp: Some)
qed (use assms in simp)

lemma free_port_tree [simp]: "free_connections port_tree = Some port_tree"
  by (simp add: free_connections.simps BAVL_IsEmpty_def port_tree_def)

lemma free_lwip_ok:
  assumes "net_inv n"
  shows "\<exists>m. free_lwip n = Some m \<and> live_pcbs m = [] \<and> \<not> have_netif m"
proof -
  from free_clients_ok [OF assms [unfolded net_inv_def] refl] obtain a where
    a: "free_clients (net_clients n) n = Some a" "net_with (listeners a) a" "net_clients a = []"
    by (auto simp: listeners_def)
  have "distinct (listeners a)" using a(2) by (simp add: net_with_def)
  then have ls: "fold remove1 (opt_list (listener_ip6 a)) (listeners a) = opt_list (listener a)"
    by (auto simp: listeners_def remove1_append split: option.splits)
  from free_listener_ok [OF a(2,3), of "listener_ip6 a"] obtain b where
    b: "(case listener_ip6 a of None \<Rightarrow> Some a | Some l \<Rightarrow> pcb_free l a) = Some b"
      "net_with (opt_list (listener b)) b" "net_clients b = []"
    unfolding ls by (auto simp: listeners_def)
  have "fold remove1 (opt_list (listener b)) (opt_list (listener b)) = []" by (simp split: option.splits)
  with free_listener_ok [OF b(2,3), of "listener b"] obtain c where
    c: "(case listener b of None \<Rightarrow> Some b | Some l \<Rightarrow> pcb_free l b) = Some c" "net_with [] c" "net_clients c = []"
    by auto
  define d where "d = c\<lparr>have_netif := False\<rparr>"
  have d: "net_with [] d" "net_clients d = []" "bound_pcbs d = []" "distinct (active_pcbs d)"
    using c by (simp_all add: d_def net_with_def)
  from tcp_remove_ok [OF d(1,2,4)] obtain e where
    e: "tcp_remove (active_pcbs d) d = Some e" "net_with [] e" "net_clients e = []" "\<not> have_netif e" "active_pcbs e = []"
    by (auto simp: d_def)
  from tcp_remove_ok [OF e(2,3), of "tw_pcbs e"] e(2) obtain f where
    f: "tcp_remove (tw_pcbs e) e = Some f" "net_with [] f" "\<not> have_netif f" "active_pcbs f = []" "tw_pcbs f = []"
    using e(4,5) by (auto simp: net_with_def)
  have "free_lwip n = Some f"
    using a b c(1) d(3) e f by (simp add: free_lwip_def Let_def d_def)
  then show ?thesis using f by (auto simp: net_with_def)
qed


section \<open>The loop\<close>

text \<open>As long as the job of lwIP waits, lwIP has not been set up.\<close>

definition loop_inv :: "dev \<times> net \<Rightarrow> bool" where
  "loop_inv s \<longleftrightarrow> (\<exists>pend. dev_inv pend (fst s)) \<and> net_inv (snd s) \<and>
     (Lwip_init_job \<in> set (pg_jobs (dev_group (fst s))) \<longrightarrow> no_lwip (snd s))"

lemma dev_run_ok:
  assumes "\<exists>pend. dev_inv pend d" "dev_enabled e d"
  shows "\<exists>u. dev_run e d = Some u \<and> (\<exists>pend. dev_inv pend u) \<and>
    (Lwip_init_job \<in> set (pg_jobs (dev_group u)) \<longrightarrow> Lwip_init_job \<in> set (jobs_left e d))"
  using dev_event_ok [OF _ assms(2)] assms(1) by (fastforce simp: dev_jobs_def)

lemma jobs_left_subset: "set (jobs_left e d) \<subseteq> set (pg_jobs (dev_group d))"
  by (cases e; cases "pg_jobs (dev_group d)") auto

lemma enabled_ans: "dev_enabled (DevJob (a\<lparr>ans_lwip := ok\<rparr>)) d = dev_enabled (DevJob a) d"
  by (simp add: read_fits_def)

lemma lwip_event_ok:
  assumes i: "loop_inv (d, n)" and e: "dev_enabled (DevJob a) d" and h: "hd (pg_jobs (dev_group d)) = Lwip_init_job"
    and t: "bipaddr_type ipaddr = 1"
  shows "\<exists>s. loop_step env ip6 ipaddr (MDev (DevJob a)) (d, n) = Some s \<and> loop_inv s"
proof -
  obtain js where js: "pg_jobs (dev_group d) = Lwip_init_job # js" using e h by (cases "pg_jobs (dev_group d)") auto
  have inv: "\<exists>pend. dev_inv pend d" "net_inv n" "no_lwip n" using i js by (auto simp: loop_inv_def)
  from lwip_init_ok [OF inv(2,3) t] obtain ok m where
    m: "lwip_init_job_hadler (env_netif_ok env) (env_listen4 env) (env_listen6 env) ip6 ipaddr n = Some (ok, m)" "net_inv m" by blast
  from dev_run_ok [OF inv(1), of "DevJob (a\<lparr>ans_lwip := ok\<rparr>)"] e obtain u where
    u: "dev_run (DevJob (a\<lparr>ans_lwip := ok\<rparr>)) d = Some u" "\<exists>pend. dev_inv pend u"
      "Lwip_init_job \<in> set (pg_jobs (dev_group u)) \<longrightarrow> Lwip_init_job \<in> set js"
    by (auto simp: enabled_ans js simp del: dev_run.simps dev_enabled.simps)
  have "Lwip_init_job \<notin> set js" using inv(1) js by (auto simp: dev_inv_def group_ok_def)
  then have "loop_inv (u, m)" using u m by (simp add: loop_inv_def)
  then show ?thesis using e h m u by (simp del: dev_run.simps dev_enabled.simps)
qed

lemma dev_loop_ok:
  assumes i: "loop_inv (d, n)" and t: "bipaddr_type ipaddr = 1"
  shows "\<exists>s. loop_step env ip6 ipaddr (MDev e) (d, n) = Some s \<and> loop_inv s"
proof (cases "dev_enabled e d \<and> (\<exists>a. e = DevJob a \<and> hd (pg_jobs (dev_group d)) = Lwip_init_job)")
  case True
  then show ?thesis using lwip_event_ok [OF i _ _ t] by blast
next
  case False
  show ?thesis
  proof (cases "dev_enabled e d")
    case True
    have "\<exists>pend. dev_inv pend d" using i by (simp add: loop_inv_def)
    from dev_run_ok [OF this True] obtain u where
      u: "dev_run e d = Some u" "\<exists>pend. dev_inv pend u" "Lwip_init_job \<in> set (pg_jobs (dev_group u)) \<longrightarrow> Lwip_init_job \<in> set (jobs_left e d)"
      by blast
    then have "loop_inv (u, n)" using i jobs_left_subset [of e d] by (auto simp: loop_inv_def)
    moreover have "loop_step env ip6 ipaddr (MDev e) (d, n) = Some (u, n)"
      using True False u(1) by (cases e) (auto simp del: dev_run.simps dev_enabled.simps)
    ultimately show ?thesis by blast
  qed (use i in \<open>simp del: dev_enabled.simps\<close>)
qed

lemma no_lwip_fields [simp]:
  "no_lwip (n\<lparr>net_clients := cs\<rparr>) = no_lwip n" "no_lwip (n\<lparr>tcp_timer_mod4 := k\<rparr>) = no_lwip n"
  "no_lwip (n\<lparr>slow_timers := k\<rparr>) = no_lwip n" "no_lwip (n\<lparr>active_pcbs := xs, tw_pcbs := ys\<rparr>) = no_lwip n"
  by (simp_all add: no_lwip_def)

lemma net_with_accept:
  assumes "net_with (p # ls) n"
  shows "net_with ls (n\<lparr>active_pcbs := p # active_pcbs n, net_clients := net_clients n @ [p]\<rparr>)"
  using assms unfolding net_with_def by auto

lemma listeners_fields [simp]:
  "listeners (n\<lparr>net_clients := cs\<rparr>) = listeners n" "listeners (n\<lparr>active_pcbs := xs\<rparr>) = listeners n"
  "listeners (n\<lparr>tw_pcbs := xs\<rparr>) = listeners n" "listeners (n\<lparr>live_pcbs := xs\<rparr>) = listeners n" "listeners (n\<lparr>next_pcb := k\<rparr>) = listeners n"
  by (simp_all add: listeners_def)

lemma pcb_free_inv:
  assumes "net_inv n" "p \<in> set (active_pcbs n) \<union> set (tw_pcbs n)" "p \<notin> set (net_clients n)"
  shows "\<exists>m. pcb_free p n = Some m \<and> net_inv m \<and> (no_lwip n \<longrightarrow> no_lwip m)"
proof -
  have "p \<notin> set (listeners n)" using assms(1,2) by (auto simp: net_inv_def net_with_def)
  then have "remove1 p (listeners n) = listeners n" by (rule remove1_idem)
  with pcb_free_ok [OF assms(1) [unfolded net_inv_def], of p] assms(2,3) show ?thesis
    by (auto simp: net_inv_def no_lwip_def listeners_def)
qed

lemma net_event_ok:
  assumes i: "net_inv n" and e: "\<And>x. e \<noteq> MDev x" and q: "\<not> dev_quitting d"
  shows "\<exists>m. loop_step env ip6 ipaddr e (d, n) = Some (d, m) \<and> net_inv m \<and> (no_lwip n \<longrightarrow> no_lwip m)"
proof (cases e)
  case MTimer
  then show ?thesis using i q by (auto simp: tcp_timer_handler_def net_inv_def listeners_def Let_def)
next
  case MAccept
  have "net_with (next_pcb n # listeners n) (n\<lparr>live_pcbs := next_pcb n # live_pcbs n, next_pcb := next_pcb n + 1\<rparr>)"
    using net_with_grow [of "listeners n" n "next_pcb n + 1" "Some (next_pcb n)"] i by (simp add: net_inv_def)
  from net_with_accept [OF this] show ?thesis using MAccept i by (auto simp: pcb_new_def no_lwip_def net_inv_def)
next
  case (MClientGone p aborts)
  let ?n = "n\<lparr>net_clients := remove1 p (net_clients n)\<rparr>"
  have c: "distinct (net_clients n)" "set (net_clients n) \<subseteq> set (active_pcbs n)" using i by (simp_all add: net_inv_def net_with_def)
  have n: "net_with (listeners n) ?n"
    by (rule net_with_clients) (use i c(1) in \<open>auto simp: net_inv_def distinct_remove1 dest: notin_set_remove1\<close>)
  have "p \<in> set (net_clients n) \<Longrightarrow> \<exists>m. pcb_free p ?n = Some m \<and> net_inv m \<and> (no_lwip n \<longrightarrow> no_lwip m)"
    using pcb_free_inv [of ?n p] n c by (auto simp: net_inv_def)
  then show ?thesis using MClientGone i n by (cases aborts) (auto simp: net_inv_def Let_def)
next
  case (MTimeWait p)
  have "net_with (listeners n) (n\<lparr>active_pcbs := remove1 p (active_pcbs n), tw_pcbs := p # tw_pcbs n\<rparr>)"
    if "p \<in> set (active_pcbs n)" "p \<notin> set (net_clients n)"
    using i that by (auto simp: net_inv_def net_with_def set_remove1_eq distinct_remove1)
  then show ?thesis using MTimeWait i by (auto simp: net_inv_def no_lwip_def)
next
  case (MPcbGone p)
  then show ?thesis using pcb_free_inv [OF i, of p] i by auto
next
  case (MDev x)
  then show ?thesis using e by blast
qed


lemma reactor_exec_ok:
  "loop_inv s \<Longrightarrow> bipaddr_type ipaddr = 1 \<Longrightarrow> \<exists>t. run_loop env ip6 ipaddr es s = Some t \<and> loop_inv t"
proof (induction es arbitrary: s)
  case (Cons e es)
  obtain d n where s: "s = (d, n)" by (cases s)
  show ?case
  proof (cases "dev_quitting d")
    case False
    have "\<exists>u. loop_step env ip6 ipaddr e (d, n) = Some u \<and> loop_inv u"
    proof (cases "\<exists>x. e = MDev x")
      case True
      then show ?thesis using dev_loop_ok [of d n ipaddr] Cons.prems s by auto
    next
      case no: False
      then show ?thesis using net_event_ok [of n e d env ip6 ipaddr] False Cons.prems s by (auto simp: loop_inv_def)
    qed
    then show ?thesis using Cons.IH Cons.prems(2) False by (auto simp: s)
  qed (use Cons.prems in \<open>auto simp: s\<close>)
qed simp

section \<open>Releasing in reverse order\<close>

text \<open>Each release is that of the latest resource still held, and nothing is held at the end.\<close>

fun unwinds :: "resource list \<Rightarrow> action list \<Rightarrow> bool" where
  "unwinds st [] \<longleftrightarrow> st = []"
| "unwinds st (Acquire r # t) \<longleftrightarrow> r \<notin> set st \<and> unwinds (r # st) t"
| "unwinds st (Release r # t) \<longleftrightarrow> (case st of [] \<Rightarrow> False | x # xs \<Rightarrow> x = r \<and> unwinds xs t)"

text \<open>The trace \<open>t\<close> leaves the resources \<open>st\<close> held.\<close>

definition holds_after :: "action list \<Rightarrow> resource list \<Rightarrow> bool" where
  "holds_after t st \<longleftrightarrow> (\<forall>u. unwinds [] (t @ u) = unwinds st u)"

lemma holds_after_Nil: "holds_after [] []"
  by (simp add: holds_after_def)

lemma holds_after_acquire: "holds_after t st \<Longrightarrow> r \<notin> set st \<Longrightarrow> holds_after (t @ [Acquire r]) (r # st)"
  by (simp add: holds_after_def)

lemma holds_after_release: "holds_after t (r # st) \<Longrightarrow> holds_after (t @ [Release r]) st"
  by (simp add: holds_after_def)

lemma holds_after_unwinds: "holds_after t [] \<Longrightarrow> unwinds [] t"
  unfolding holds_after_def by (metis append.right_neutral unwinds.simps(1))

definition main_ends_well :: "main_result \<Rightarrow> bool" where
  "main_ends_well r \<longleftrightarrow> (case r of
      None \<Rightarrow> False
    | Some (e, t, n) \<Rightarrow>
        (case e of
           Return c \<Rightarrow> (c = 0 \<or> c = 1) \<and> unwinds [] t \<and> live_pcbs n = []
         | Exit c pid \<Rightarrow> t = [Acquire Log] \<and> (c = 0 \<or> c = 1) \<and> live_pcbs n = []
         | Running \<Rightarrow> (\<exists>st. holds_after t st)))"

lemma running_ok: "holds_after t st \<Longrightarrow> main_ends_well (Some (Running, t, n))"
  by (auto simp: main_ends_well_def)

abbreviation password_held :: "settings \<Rightarrow> resource list" where
  "password_held st \<equiv> (if password_file_contents st \<noteq> None then [PasswordFile] else [])"

lemma fail1_ok:
  assumes "holds_after t (password_held st @ [Log])" "live_pcbs n = []"
  shows "main_ends_well (fail1 st n t)"
proof -
  have "holds_after (t @ (if password_file_contents st \<noteq> None then [Release PasswordFile] else [])) [Log]"
    using assms(1) holds_after_release by (auto split: if_splits)
  from holds_after_unwinds [OF holds_after_release [OF this]] show ?thesis
    using assms(2) by (simp add: fail1_def fail0_def main_ends_well_def)
qed

lemma fail3_ok:
  assumes "holds_after t (Signals # Reactor # password_held st @ [Log])" "live_pcbs n = []" "pending_ctr g = 0" "pg_jobs g = []"
  shows "main_ends_well (fail3 st n g t)"
proof -
  have "holds_after ((t @ [Release Signals]) @ [Release Reactor]) (password_held st @ [Log])"
    using assms(1) by (intro holds_after_release)
  from fail1_ok [OF this assms(2)] show ?thesis using assms(3,4) by (simp add: fail3_def fail2_def BPendingGroup_Free_def)
qed

text \<open>The interfaces of the reader can be freed, and then no job object is left.\<close>

definition reader_group :: "dev_job PacketRecvInterface \<Rightarrow> dev_job PacketPassInterface \<Rightarrow> dev_job BPendingGroup \<Rightarrow> bool" where
  "reader_group out i g \<longleftrightarrow> pri_ids out @ ppi_ids i = dev_jobs \<and> distinct (pg_jobs g) \<and> set (pg_jobs g) \<subseteq> set dev_jobs \<and>
     pg_objs g = set dev_jobs \<and> pending_ctr g = length dev_jobs"

lemma free_reader_ok:
  assumes r: "reader_group out i g"
  shows "\<exists>h k c. PacketPassInterface_Free i g = Some h \<and> BTap_Free device out h = Some (c, k) \<and> pending_ctr k = 0 \<and> pg_jobs k = []"
proof -
  have ids: "pri_job_operation out = Dev_recv_op" "pri_job_done out = Dev_recv_done" "ppi_job_operation i = Dev_read_op"
    "ppi_job_requestcancel i = Dev_read_cancel" "ppi_job_done i = Dev_read_done"
    using r by (simp_all add: reader_group_def pri_ids_def ppi_ids_def dev_jobs_def)
  have g: "distinct (pg_jobs g)" "set (pg_jobs g) \<subseteq> set dev_jobs" "pg_objs g = set dev_jobs" "pending_ctr g = 5"
    using r by (simp_all add: reader_group_def dev_jobs_def)
  have "set (remove1 Dev_recv_op (remove1 Dev_recv_done (remove1 Dev_read_op (remove1 Dev_read_cancel (remove1 Dev_read_done (pg_jobs g)))))) = {}"
    using g(1,2) by (auto simp: set_remove1_eq distinct_remove1 dev_jobs_def)
  then show ?thesis
    using g(3,4) by (simp add: PacketPassInterface_Free_def BTap_Free_def PacketRecvInterface_Free_def pending_defs ids dev_jobs_def)
qed

lemma fail4_ok:
  assumes "holds_after t (ReadInterface # Device # Signals # Reactor # password_held st @ [Log])" "live_pcbs n = []"
    "reader_group out i g"
  shows "main_ends_well (fail4 st n device out i g t)"
proof -
  from free_reader_ok [OF assms(3), of device] obtain h k c where
    k: "PacketPassInterface_Free i g = Some h" "BTap_Free device out h = Some (c, k)" "pending_ctr k = 0" "pg_jobs k = []" by blast
  have "holds_after ((t @ [Release ReadInterface]) @ [Release Device]) (Signals # Reactor # password_held st @ [Log])"
    using assms(1) by (intro holds_after_release)
  from fail3_ok [OF this assms(2) k(3,4)] show ?thesis using k by (simp add: fail4_def)
qed


lemma fail5_ok:
  assumes "holds_after t (LwipJob # (if udpgw then [UdpgwClient] else []) @
      ReadBuffer # ReadInterface # Device # Signals # Reactor # password_held st @ [Log])"
    "live_pcbs n = []" "rp_ids p = dev_jobs" "group_ok g"
  shows "main_ends_well (fail5 st n udpgw device p g t)"
proof -
  define h where "h = g\<lparr>pg_jobs := remove1 Lwip_init_job (pg_jobs g), pg_objs := pg_objs g - {Lwip_init_job}, pending_ctr := pending_ctr g - 1\<rparr>"
  have free: "BPending_Free Lwip_init_job g = Some h" using assms(4) by (simp add: h_def pending_defs group_ok_def dev_jobs_def)
  have "reader_group (rp_input p) (rp_output p) h"
    using assms(3,4) by (auto simp: reader_group_def h_def rp_ids_def group_ok_def distinct_remove1 set_remove1_eq dev_jobs_def)
  moreover have "holds_after (((t @ [Release LwipJob]) @ (if udpgw then [Release UdpgwClient] else [])) @ [Release ReadBuffer])
      (ReadInterface # Device # Signals # Reactor # password_held st @ [Log])"
    using holds_after_release [OF assms(1)] by (intro holds_after_release) (auto split: if_splits dest: holds_after_release)
  ultimately show ?thesis using fail4_ok assms(2) free by (simp add: fail5_def fail4a_def)
qed

lemma main_loop_ok:
  assumes t: "holds_after t ((if udpgw then [UdpgwClient] else []) @
      ReadBuffer # ReadInterface # Device # Signals # Reactor # password_held st @ [Log])"
    and s: "device_setup sys fd mtu alloc = Some (Some d)" "\<And>n b. alloc n = Some b \<Longrightarrow> length b = n"
    and g: "BPending_Init Lwip_init_job g = Some g1" "BPending_Set Lwip_init_job g1 = Some (dev_group d)"
    and ip: "bipaddr_type (netif_ipaddr st) = 1"
  shows "main_ends_well (main_loop env opts st udpgw (tap d) (dev_path d) g t)"
proof -
  from device_setup_state [OF s(1)] have d: "\<not> dev_quitting d" "dev_read d = []" "dev_handled d = []" "pbufs_allocated d = 0"
    "pbufs_freed d = 0" "pbufs_in_lwip d = 0" by auto
  have "dev_init d" using s by (auto simp: dev_init_def)
  then have inv: "\<exists>pend. dev_inv pend d" by (rule dev_inv_init)
  have eq: "\<lparr>tap = tap d, dev_path = dev_path d, dev_group = dev_group d, dev_quitting = False, dev_read = [], dev_handled = [],
      pbufs_allocated = 0, pbufs_freed = 0, pbufs_in_lwip = 0\<rparr> = d" using d by simp
  have t1: "holds_after (t @ [Acquire LwipJob]) (LwipJob # (if udpgw then [UdpgwClient] else []) @
      ReadBuffer # ReadInterface # Device # Signals # Reactor # password_held st @ [Log])"
    using t by (rule holds_after_acquire) auto
  have t2: "holds_after (((t @ [Acquire LwipJob]) @ [Acquire WriteBuffer]) @ [Acquire TcpTimer]) (TcpTimer # WriteBuffer # LwipJob # (if udpgw then [UdpgwClient] else []) @
      ReadBuffer # ReadInterface # Device # Signals # Reactor # password_held st @ [Log])"
    using t by (intro holds_after_acquire) auto
  show ?thesis
  proof (cases "env_write_buf env (frame_mtu (tap d))")
    case None
    have "main_ends_well (fail5 st net0 udpgw (tap d) (dev_path d) (dev_group d) (t @ [Acquire LwipJob]))"
      using t1 inv by (intro fail5_ok) (auto simp: net0_def dev_inv_def)
    then show ?thesis using g None by (simp add: main_loop_def)
  next
    case (Some wb)
    have "loop_inv (d, net0)" using inv net0_inv by (simp add: loop_inv_def)
    from reactor_exec_ok [OF this ip, of env "opt_netif_ip6addr opts \<noteq> None" "env_events env"] obtain u n where
      u: "run_loop env (opt_netif_ip6addr opts \<noteq> None) (netif_ipaddr st) (env_events env) (d, net0) = Some (u, n)" "loop_inv (u, n)"
      by auto
    from free_lwip_ok [of n] u(2) obtain m where m: "free_lwip n = Some m" "live_pcbs m = []" by (auto simp: loop_inv_def)
    have "main_ends_well (fail5 st m udpgw (tap u) (dev_path u) (dev_group u)
        (((((t @ [Acquire LwipJob]) @ [Acquire WriteBuffer]) @ [Acquire TcpTimer]) @ [Release TcpTimer]) @ [Release WriteBuffer]))"
      using t2 u(2) m(2) by (intro fail5_ok holds_after_release) (auto simp: loop_inv_def dev_inv_def)
    moreover have "main_ends_well (Some (Running, ((t @ [Acquire LwipJob]) @ [Acquire WriteBuffer]) @ [Acquire TcpTimer], n))"
      using t2 by (rule running_ok)
    ultimately show ?thesis using g Some u(1) m(1) by (simp add: main_loop_def eq Let_def)
  qed
qed


lemmas reader_init_defs = BTap_Init2_def open_device_def PacketRecvInterface_Init_def PacketPassInterface_Init_def
  SinglePacketBuffer_Init_def PacketRecvInterface_Receiver_Init_def PacketPassInterface_Sender_Init_def
  PacketRecvInterface_Receiver_Recv_def pending_defs BPendingGroup_Init_def

lemma reader_setup:
  assumes "fd \<ge> 0" "mtu \<ge> 0" "nonblock_ok sys" "add_fd_ok sys"
  shows "\<exists>device out g0 i g. BTap_Init2 sys BTAP_DEV_TUN (BTAP_INIT_FD fd mtu) Dev_recv_op Dev_recv_done BPendingGroup_Init =
      Some (Some (device, out), [], g0) \<and> frame_mtu device = nat mtu \<and>
    PacketPassInterface_Init (nat mtu) Dev_read_op Dev_read_cancel Dev_read_done g0 = Some (i, g) \<and> reader_group out i g \<and>
    (alloc (nat mtu) = None \<longrightarrow> SinglePacketBuffer_Init alloc out i g = Some None) \<and>
    (alloc (nat mtu) \<noteq> None \<longrightarrow> (\<exists>p g2 g3 d. SinglePacketBuffer_Init alloc out i g = Some (Some (p, g2)) \<and>
       reader_group (rp_input p) (rp_output p) g2 \<and> BPending_Init Lwip_init_job g2 = Some g3 \<and>
       BPending_Set Lwip_init_job g3 = Some (dev_group d) \<and> device_setup sys fd mtu alloc = Some (Some d) \<and>
       tap d = device \<and> dev_path d = p))"
  using assms
  by (cases "alloc (nat mtu)")
    (simp_all add: device_setup_def reader_init_defs reader_group_def dev_jobs_def pri_ids_def ppi_ids_def insert_commute)

lemma init_udpgw_total: "\<not> BAddr_IsInvalid (set_socks_server_addr st) \<Longrightarrow> \<exists>c. init_udpgw opts st mtu = Some c"
  by (auto simp: init_udpgw_def SocksUdpGwClient_Init_def Let_def)

lemma main_setup_ok:
  assumes t: "holds_after t (password_held st @ [Log])" and fd: "fd \<ge> 0" and o: "tun_mtu opts > 0" and st: "settings_ok opts st"
    and al: "\<And>n b. env_alloc env n = Some b \<Longrightarrow> length b = n"
  shows "main_ends_well (main_setup env opts st fd t)"
proof -
  have t1: "holds_after (t @ [Acquire Reactor]) (Reactor # password_held st @ [Log])"
    using t by (rule holds_after_acquire) auto
  have t2: "holds_after ((t @ [Acquire Reactor]) @ [Acquire Signals]) (Signals # Reactor # password_held st @ [Log])"
    using t1 by (rule holds_after_acquire) auto
  have f1: "main_ends_well (fail1 st net0 t)" using t by (rule fail1_ok) (simp add: net0_def)
  have f2: "main_ends_well (fail2 st net0 BPendingGroup_Init (t @ [Acquire Reactor]))"
    using fail1_ok [OF holds_after_release [OF t1], of net0] by (simp add: fail2_def BPendingGroup_Free_def BPendingGroup_Init_def net0_def)
  have f3: "main_ends_well (fail3 st net0 BPendingGroup_Init ((t @ [Acquire Reactor]) @ [Acquire Signals]))"
    using t2 by (rule fail3_ok) (simp_all add: net0_def BPendingGroup_Init_def)
  show ?thesis
  proof (cases "env_reactor_ok env \<and> env_signal_ok env \<and> nonblock_ok (env_tap env) \<and> add_fd_ok (env_tap env)")
    case False
    have "BTap_Init2 (env_tap env) BTAP_DEV_TUN (BTAP_INIT_FD fd (tun_mtu opts)) Dev_recv_op Dev_recv_done BPendingGroup_Init = Some (None, [], BPendingGroup_Init)"
      if "\<not> nonblock_ok (env_tap env) \<or> \<not> add_fd_ok (env_tap env)"
      using that fd o by (auto simp: BTap_Init2_def open_device_def)
    then show ?thesis using False f1 f2 f3 by (auto simp: main_setup_def Let_def)
  next
    case True
    have t3: "holds_after ((((t @ [Acquire Reactor]) @ [Acquire Signals]) @ [Acquire Device]) @ [Acquire ReadInterface])
        (ReadInterface # Device # Signals # Reactor # password_held st @ [Log])"
      using t by (intro holds_after_acquire) auto
    have t4: "holds_after (((((t @ [Acquire Reactor]) @ [Acquire Signals]) @ [Acquire Device]) @ [Acquire ReadInterface]) @ [Acquire ReadBuffer])
        (ReadBuffer # ReadInterface # Device # Signals # Reactor # password_held st @ [Log])"
      using t3 by (rule holds_after_acquire) auto
    from reader_setup [of fd "tun_mtu opts" "env_tap env" "env_alloc env"] fd o True obtain device out g0 i g where
      r: "BTap_Init2 (env_tap env) BTAP_DEV_TUN (BTAP_INIT_FD fd (tun_mtu opts)) Dev_recv_op Dev_recv_done BPendingGroup_Init =
          Some (Some (device, out), [], g0)" "frame_mtu device = nat (tun_mtu opts)"
        "PacketPassInterface_Init (nat (tun_mtu opts)) Dev_read_op Dev_read_cancel Dev_read_done g0 = Some (i, g)" "reader_group out i g"
        "env_alloc env (nat (tun_mtu opts)) = None \<Longrightarrow> SinglePacketBuffer_Init (env_alloc env) out i g = Some None"
        "env_alloc env (nat (tun_mtu opts)) \<noteq> None \<Longrightarrow>
          (\<exists>p g2 g3 d. SinglePacketBuffer_Init (env_alloc env) out i g = Some (Some (p, g2)) \<and>
            reader_group (rp_input p) (rp_output p) g2 \<and> BPending_Init Lwip_init_job g2 = Some g3 \<and>
            BPending_Set Lwip_init_job g3 = Some (dev_group d) \<and> device_setup (env_tap env) fd (tun_mtu opts) (env_alloc env) = Some (Some d) \<and>
            tap d = device \<and> dev_path d = p)"
      by auto
    show ?thesis
    proof (cases "env_alloc env (nat (tun_mtu opts))")
      case None
      have "main_ends_well (fail4 st net0 device out i g ((((t @ [Acquire Reactor]) @ [Acquire Signals]) @ [Acquire Device]) @ [Acquire ReadInterface]))"
        using t3 r(4) by (intro fail4_ok) (simp_all add: net0_def)
      then show ?thesis using True r(1-3) r(5) [OF None] by (simp add: main_setup_def Let_def)
    next
      case (Some b)
      then obtain p g2 g3 d where
        p: "SinglePacketBuffer_Init (env_alloc env) out i g = Some (Some (p, g2))" "reader_group (rp_input p) (rp_output p) g2"
          "BPending_Init Lwip_init_job g2 = Some g3" "BPending_Set Lwip_init_job g3 = Some (dev_group d)"
          "device_setup (env_tap env) fd (tun_mtu opts) (env_alloc env) = Some (Some d)" "tap d = device" "dev_path d = p"
        using r(6) by auto
      have ip: "bipaddr_type (netif_ipaddr st) = 1" "\<not> BAddr_IsInvalid (set_socks_server_addr st)" using st by (simp_all add: settings_ok_def)
      from init_udpgw_total [OF ip(2)] obtain c where c: "init_udpgw opts st (int (nat (tun_mtu opts))) = Some c" by blast
      let ?t = "((((t @ [Acquire Reactor]) @ [Acquire Signals]) @ [Acquire Device]) @ [Acquire ReadInterface]) @ [Acquire ReadBuffer]"
      have "main_ends_well (fail4a st net0 device p g2 ?t)"
        unfolding fail4a_def using holds_after_release [OF t4] p(2) by (intro fail4_ok) (simp_all add: net0_def)
      moreover have "main_ends_well (main_loop env opts st False device p g2 ?t)"
        using main_loop_ok [OF _ p(5) al p(3,4) ip(1), of ?t False env opts] t4 p(6,7) by simp
      moreover have "main_ends_well (main_loop env opts st True device p g2 (?t @ [Acquire UdpgwClient]))"
        using main_loop_ok [OF _ p(5) al p(3,4) ip(1), of "?t @ [Acquire UdpgwClient]" True env opts]
          holds_after_acquire [OF t4, of UdpgwClient] p(6,7) by (simp split: if_splits)
      ultimately show ?thesis using True r(1-3) p(1) c by (cases c) (simp_all add: main_setup_def Let_def)
    qed
  qed
qed

text \<open>What the operating system guarantees for \<open>wait_for_fd\<close>, with the uninitialised variable not below -1.\<close>

definition fd_sys_ok :: "fd_sys \<Rightarrow> bool" where
  "fd_sys_ok sys \<longleftrightarrow> uninitialised_fd sys \<ge> -1 \<and> (\<forall>f. sys_recvmsg sys = Rights f \<longrightarrow> f \<ge> 0)"

lemma wait_for_fd_range: "fd_sys_ok sys \<Longrightarrow> fst (wait_for_fd opts sys) \<ge> -1"
  by (auto simp: wait_for_fd_def ancil_recv_fd_def fd_sys_ok_def split: option.splits recvmsg_result.splits)

lemma main_settings_ok:
  assumes o: "parse_arguments (env_channels env) (env_argv env) None = Some (Some opts)" "\<not> opt_help opts" "\<not> opt_version opts"
    and fd: "fd \<ge> 0" and al: "\<And>n b. env_alloc env n = Some b \<Longrightarrow> length b = n"
  shows "main_ends_well (main_settings env opts fd [Acquire Log])"
proof -
  have t: "holds_after [Acquire Log] [Log]" using holds_after_acquire [OF holds_after_Nil, of Log] by simp
  from parsed_options(1) [OF o(1)] parsed_options(2) [OF o] have r: "options_ok (env_channels env) opts" "opt_netif_ipaddr opts \<noteq> None" "opt_socks_server_addr opts \<noteq> None"
    "opt_username opts \<noteq> None \<longrightarrow> (opt_password opts = None) \<noteq> (opt_password_file opts = None)" by auto
  from process_arguments_ok [OF r(2-4), of zero_settings "env_resolver env" "env_read_file env"] obtain ok st where
    st: "process_arguments (env_resolver env) (env_read_file env) opts zero_settings = Some (ok, st)" "ok \<longrightarrow> settings_ok opts st"
    by (auto simp: zero_settings_def split: option.splits)
  have h: "holds_after ([Acquire Log] @ (if password_file_contents st \<noteq> None then [Acquire PasswordFile] else [])) (password_held st @ [Log])"
    using t holds_after_acquire [OF t, of PasswordFile] by simp
  have "main_ends_well (fail1 zero_settings net0 [Acquire Log])" using t by (intro fail1_ok) (simp_all add: zero_settings_def net0_def)
  moreover have "main_ends_well (fail1 st net0 ([Acquire Log] @ (if password_file_contents st \<noteq> None then [Acquire PasswordFile] else [])))"
    using h by (intro fail1_ok) (simp_all add: net0_def)
  moreover have "ok \<Longrightarrow> main_ends_well (main_setup env opts st fd ([Acquire Log] @ (if password_file_contents st \<noteq> None then [Acquire PasswordFile] else [])))"
    using h fd r(1) st(2) al by (intro main_setup_ok) (auto simp: options_ok_def)
  ultimately show ?thesis using st(1) by (simp add: main_settings_def Let_def)
qed


section \<open>Properties\<close>


definition ex_main :: main_env where
  "ex_main = \<lparr>env_argv = ex_argv, env_channels = [''tun2socks''], env_syslog_ok = True,
     env_fd = \<lparr>sys_socket = Some 3, sys_bind = (\<lambda>_. True), sys_listen = True, sys_select = True, sys_accept = Some 4,
       sys_recvmsg = Rights 5, uninitialised_fd = 0\<rparr>,
     env_fork = \<lparr>fork_pid = 0, pid_file_ok = True, setsid_ok = True, chdir_ok = True\<rparr>, env_network_ok = True,
     env_resolver = ex_net, env_read_file = (\<lambda>_. None), env_reactor_ok = True, env_signal_ok = True, env_tap = ex_tap_sys,
     env_alloc = (\<lambda>n. Some (replicate n 0)), env_write_buf = (\<lambda>n. Some []), env_netif_ok = True,
     env_listen4 = \<lparr>new_ok = True, bind_ok = True, listen_ok = True\<rparr>, env_listen6 = \<lparr>new_ok = True, bind_ok = True, listen_ok = True\<rparr>,
     env_events = [MDev (DevJob (ex_ans ReadAgain)), MDev (DevJob (ex_ans ReadAgain)), MAccept, MAccept, MTimer,
       MClientGone 2 False, MTimeWait 2, MDev DevSignal]\<rparr>"

lemma ex_main_returns: "map_option fst (main ex_main) = Some (Return 1)"
  by code_simp


lemma submission_ok:
  assumes "process_device_udp_packet env d = Some (l, r, dns, x)"
  shows "is_ip l \<and> ip_wf l \<and> is_ip r \<and> ip_wf r \<and> int (length x) \<le> env_udp_mtu env"
proof -
  have "is_ip l \<and> ip_wf l \<and> is_ip r \<and> ip_wf r" if "parse_udp4 env d = Some (l, r, dns, x)"
    using that by (auto simp: parse_udp4_def is_ip_def BAddr_MakeIPv4_def Let_def split: if_splits option.splits prod.splits)
  moreover have "is_ip l \<and> ip_wf l \<and> is_ip r \<and> ip_wf r" if "parse_udp6 env d = Some (l, r, dns, x)"
    using that by (auto simp: parse_udp6_def ipv6_check_def ipv6_header_of_def sizeof_ipv6_header_def is_ip_def BAddr_MakeIPv6_def Let_def
        split: if_splits option.splits prod.splits)
  ultimately show ?thesis
    using assms by (auto simp: process_device_udp_packet_def Let_def split: if_splits option.splits prod.splits)
qed

lemma message_length: "is_ip r \<Longrightarrow> ip_wf r \<Longrightarrow> length (udp_message dns r x) \<le> 22 + length x"
  by (auto simp: is_ip_def udp_message_def socks_udp_header_def split: BAddr.splits)

text \<open>
  The UDP relay client that \<open>main\<close> creates fits the device: with settings from the command line, creation fails
  exactly when the largest datagram of the device would not fit 65535 bytes with its header; otherwise the
  client is one from which the theorems about the relay start, it takes every datagram that the device path hands over,
  and such a datagram with 22 bytes to spare leaves room for the header.  The limit is always 256 connections,
  whatever \<open>--udprelay-max-connections\<close> says.
\<close>

theorem udp_client_from_options:
  fixes mtu :: int
  assumes "settings_ok opts st"
  defines "payload \<equiv> compute_udp_mtu mtu (opt_netif_ip6addr opts \<noteq> None)"
  shows "(init_udpgw opts st mtu = Some None \<longleftrightarrow> payload + 22 > 65535) \<and>
    (payload + 22 \<le> 65535 \<longrightarrow> (\<exists>c. init_udpgw opts st mtu = Some (Some c) \<and> reach ug_init ug_step c \<and>
       max_connections c = 256 \<and> int (ug_udp_mtu c) = payload \<and>
       (\<forall>env d l r dns x. env_udp_mtu env = payload \<longrightarrow> process_device_udp_packet env d = Some (l, r, dns, x) \<longrightarrow>
          is_ip l \<and> ip_wf l \<and> is_ip r \<and> ip_wf r \<and> length x \<le> ug_udp_mtu c \<and>
          (length x + 22 \<le> ug_udp_mtu c \<longrightarrow> header_fits (ug_udp_mtu c) r dns x))))"
proof -
  have p: "payload \<ge> 0" by (simp add: payload_def compute_udp_mtu_def Let_def)
  have v: "\<not> BAddr_IsInvalid (set_socks_server_addr st)" using assms(1) by (simp add: settings_ok_def)
  have gw: "udpgw_compute_mtu payload < 0 \<or> udpgw_compute_mtu payload > PACKETPROTO_MAXPAYLOAD \<longleftrightarrow> payload + 22 > 65535"
    using p by (auto simp: udpgw_compute_mtu_def PACKETPROTO_MAXPAYLOAD_def Let_def)
  obtain c where c: "SocksUdpGwClient_Init (nat payload) DEFAULT_UDPGW_MAX_CONNECTIONS (set_socks_server_addr st) (set_dnsgw st) = Some c"
    using v by (simp add: SocksUdpGwClient_Init_def)
  have m: "max_connections c = 256" "int (ug_udp_mtu c) = payload"
    using c p by (auto simp: SocksUdpGwClient_Init_def DEFAULT_UDPGW_MAX_CONNECTIONS_def)
  have eq: "init_udpgw opts st mtu = (if payload + 22 > 65535 then Some None else Some (Some c))"
    unfolding init_udpgw_def Let_def payload_def [symmetric] using gw c by simp
  have "reach ug_init ug_step c" if "payload + 22 \<le> 65535"
  proof (rule reach_init)
    show "ug_init c" unfolding ug_init_def
      using c that by (intro exI conjI) (auto simp: DEFAULT_UDPGW_MAX_CONNECTIONS_def)
  qed
  moreover have "is_ip l \<and> ip_wf l \<and> is_ip r \<and> ip_wf r \<and> length x \<le> ug_udp_mtu c \<and>
      (length x + 22 \<le> ug_udp_mtu c \<longrightarrow> header_fits (ug_udp_mtu c) r dns x)"
    if "env_udp_mtu env = payload" "process_device_udp_packet env d = Some (l, r, dns, x)" for env d l r dns x
    using submission_ok [OF that(2)] message_length [of r dns x] that(1) m(2) by (auto simp: header_fits_def)
  ultimately show ?thesis using eq m by auto
qed

definition ex_settings :: settings where
  "ex_settings = zero_settings\<lparr>netif_ipaddr := BIP_IPV4 1, set_socks_server_addr := BADDR_IPV4 1 2,
     socks_auth_info := [BSocksClient_auth_none]\<rparr>"

theorem udp_client_from_options_witness:
  "\<exists>c. init_udpgw (default_options [] ''dvsec'' None) ex_settings 1500 = Some (Some c) \<and>
     max_connections c = 256 \<and> ug_udp_mtu c = 1472"
proof -
  have s: "settings_ok (default_options [] ''dvsec'' None) ex_settings"
    by (simp add: settings_ok_def ex_settings_def zero_settings_def default_options_def bipaddr_type_def BAddr_IsInvalid_def baddr_type_def)
  have "compute_udp_mtu 1500 (opt_netif_ip6addr (default_options [] ''dvsec'' None) \<noteq> None) = 1472" by code_simp
  with udp_client_from_options [OF s, of 1500] show ?thesis by auto
qed

end
