(* ===== verification/StreamIf.thy ===== *)
theory StreamIf
  imports Pending
begin

text \<open>
  The stream interfaces \<open>flow/StreamPassInterface\<close> and \<open>flow/StreamRecvInterface\<close>, between the user and the provider of a stream.
  Their code is the same up to names; the type of the data tells them apart: bytes to send, or nothing for a buffer
  to be filled, of which only the length matters.  The jobs are elements of the reactor's job queue.
\<close>

datatype stream_state = STATE_NONE | STATE_OPERATION_PENDING | STATE_BUSY | STATE_DONE_PENDING

record 'd StreamInterface =
  si_state :: stream_state
  job_operation_data :: 'd
  job_operation_len :: nat
  job_done_len :: nat
  handler_done :: bool

type_synonym StreamPassInterface = "bytes StreamInterface"

type_synonym StreamRecvInterface = "unit StreamInterface"

definition Stream_Init :: "'j \<Rightarrow> 'j \<Rightarrow> 'd \<Rightarrow> 'j BPendingGroup \<Rightarrow> ('d StreamInterface \<times> 'j BPendingGroup) option" where
  "Stream_Init job_operation job_done d g =
     do { g \<leftarrow> BPending_Init job_operation g;
          g \<leftarrow> BPending_Init job_done g;
          Some (\<lparr>si_state = STATE_NONE, job_operation_data = d, job_operation_len = 0, job_done_len = 0, handler_done = False\<rparr>, g) }"

definition Stream_Free :: "'j \<Rightarrow> 'j \<Rightarrow> 'j BPendingGroup \<Rightarrow> 'j BPendingGroup option" where
  "Stream_Free job_operation job_done g = do { g \<leftarrow> BPending_Free job_done g; BPending_Free job_operation g }"

definition Stream_Done ::
    "'j \<Rightarrow> nat \<Rightarrow> 'd StreamInterface \<Rightarrow> 'j BPendingGroup \<Rightarrow> ('d StreamInterface \<times> 'j BPendingGroup) option" where
  "Stream_Done job_done data_len i g =
     ASSERT (si_state i = STATE_BUSY) (
     ASSERT (data_len > 0) (
     ASSERT (data_len \<le> job_operation_len i)
       (do { g \<leftarrow> BPending_Set job_done g;
             Some (i\<lparr>job_done_len := data_len, si_state := STATE_DONE_PENDING\<rparr>, g) })))"

definition Stream_User_Init :: "'d StreamInterface \<Rightarrow> 'd StreamInterface option" where
  "Stream_User_Init i = ASSERT (\<not> handler_done i) (Some (i\<lparr>handler_done := True\<rparr>))"

definition Stream_User_Operation ::
    "'j \<Rightarrow> 'd \<Rightarrow> nat \<Rightarrow> 'd StreamInterface \<Rightarrow> 'j BPendingGroup \<Rightarrow> ('d StreamInterface \<times> 'j BPendingGroup) option" where
  "Stream_User_Operation job_operation d data_len i g =
     ASSERT (data_len > 0) (
     ASSERT (si_state i = STATE_NONE) (
     ASSERT (handler_done i)
       (do { g \<leftarrow> BPending_Set job_operation g;
             Some (i\<lparr>job_operation_data := d, job_operation_len := data_len, si_state := STATE_OPERATION_PENDING\<rparr>, g) })))"

text \<open>The handlers of the two jobs, up to the call of the provider's and the user's handler.\<close>

definition Stream_job_operation :: "'d StreamInterface \<Rightarrow> 'd StreamInterface option" where
  "Stream_job_operation i = ASSERT (si_state i = STATE_OPERATION_PENDING) (Some (i\<lparr>si_state := STATE_BUSY\<rparr>))"

definition Stream_job_done :: "'d StreamInterface \<Rightarrow> 'd StreamInterface option" where
  "Stream_job_done i = ASSERT (si_state i = STATE_DONE_PENDING) (Some (i\<lparr>si_state := STATE_NONE\<rparr>))"

end
