(* ===== verification/Reactor.thy ===== *)
theory Reactor
  imports Pending BAddr "HOL-Library.Monad_Syntax"
begin

text \<open>
  The event loop \<open>system/BReactor_badvpn.c\<close> with epoll: timers, file descriptors, limits, and the order in which
  jobs, timers and descriptors are dispatched.

  Objects of the users of the reactor (timers, descriptors, limits) live in a heap and can be freed when the interface
  allows it; an access to a freed object and a failed assertion are \<^term>\<open>None\<close>.  The tree of running timers
  (\<open>structure/CAvl_impl.h\<close>) is its sequence of timers in the order of \<open>compare_timers\<close>.  The answers of \<open>epoll_wait\<close> and of the
  clock are arguments; \<open>epoll_ok\<close> states what the operating system promises about them.
\<close>

section \<open>Time\<close>

definition INT64_MIN :: int where "INT64_MIN = - (2 ^ 63)"

definition INT64_MAX :: int where "INT64_MAX = 2 ^ 63 - 1"

definition is_int64 :: "int \<Rightarrow> bool" where
  "is_int64 a \<longleftrightarrow> INT64_MIN \<le> a \<and> a \<le> INT64_MAX"

text \<open>The generated check of \<open>misc/overflow.h\<close>: 1 or -1 when the sum is too large or too small.\<close>

definition add_int64_overflows :: "int \<Rightarrow> int \<Rightarrow> int" where
  "add_int64_overflows a b =
     (if (a < 0) \<noteq> (b < 0) then 0
      else if a < 0 then - of_bool (a < INT64_MIN - b)
      else of_bool (a > INT64_MAX - b))"

definition btime_add :: "int \<Rightarrow> int \<Rightarrow> int" where
  "btime_add t1 t2 =
     (let overflows = add_int64_overflows t1 t2
      in if overflows \<noteq> 0 then if overflows > 0 then INT64_MAX else INT64_MIN
         else t1 + t2)"

section \<open>The state of the reactor\<close>

datatype timer_state = TIMER_STATE_INACTIVE | TIMER_STATE_RUNNING | TIMER_STATE_EXPIRED

record BSmallTimer =
  absTime :: int
  state :: timer_state
  is_small :: bool

definition BREACTOR_READ :: u32 where "BREACTOR_READ = 1"

definition BREACTOR_WRITE :: u32 where "BREACTOR_WRITE = 2"

definition BREACTOR_ERROR :: u32 where "BREACTOR_ERROR = 4"

definition BREACTOR_HUP :: u32 where "BREACTOR_HUP = 8"

text \<open>The constants of \<open>epoll\<close>.\<close>

definition EPOLLIN :: u32 where "EPOLLIN = 0x001"

definition EPOLLOUT :: u32 where "EPOLLOUT = 0x004"

definition EPOLLERR :: u32 where "EPOLLERR = 0x008"

definition EPOLLHUP :: u32 where "EPOLLHUP = 0x010"

record BFileDescriptor =
  bfd_fd :: int
  active :: bool
  waitEvents :: u32
  epoll_returned_ptr :: "nat option"

record BReactorLimit =
  limit :: int
  count :: int

definition BSYSTEM_MAX_RESULTS :: nat where "BSYSTEM_MAX_RESULTS = 64"

text \<open>
  \<open>epoll_returned_ptr\<close> is the index of the entry it points to.  \<open>epoll_results\<close> are the first \<open>epoll_results_num\<close> entries
  of the array.  \<open>efd\<close> is the interest list that the kernel keeps for the epoll descriptor: by file descriptor, the pointer
  and the events that \<open>epoll_ctl\<close> gave it.  \<open>now_seen\<close> is no field of the code: the time of the last event of the run.
\<close>

record 'j BReactor =
  exiting :: bool
  exit_code :: int
  pending_jobs :: "'j BPendingGroup"
  timers_tree :: "nat list"
  timers_expired_list :: "nat list"
  active_limits_list :: "nat list"
  epoll_results :: "(nat option \<times> u32) list"
  epoll_results_pos :: nat
  efd :: "int \<Rightarrow> (nat \<times> u32) option"
  timers :: "nat \<Rightarrow> BSmallTimer option"
  fds :: "nat \<Rightarrow> BFileDescriptor option"
  limits :: "nat \<Rightarrow> BReactorLimit option"
  now_seen :: int

definition BReactor_Init :: "int \<Rightarrow> 'j BReactor" where
  "BReactor_Init now =
     \<lparr>exiting = False, exit_code = 0, pending_jobs = BPendingGroup_Init, timers_tree = [],
      timers_expired_list = [], active_limits_list = [], epoll_results = [], epoll_results_pos = 0, efd = (\<lambda>_. None),
      timers = (\<lambda>_. None), fds = (\<lambda>_. None), limits = (\<lambda>_. None), now_seen = now\<rparr>"

definition BReactor_Free :: "'j BReactor \<Rightarrow> unit option" where
  "BReactor_Free s =
     ASSERT (\<not> BPendingGroup_HasJobs (pending_jobs s)) (
     ASSERT (timers_tree s = []) (
     ASSERT (timers_expired_list s = []) (
     ASSERT (active_limits_list s = []) (
     BPendingGroup_Free (pending_jobs s)))))"

section \<open>Timers\<close>

definition compare_timers :: "(nat \<Rightarrow> BSmallTimer option) \<Rightarrow> nat \<Rightarrow> nat \<Rightarrow> int" where
  "compare_timers ts t1 t2 =
     (let cmp = B_COMPARE (absTime (the (ts t1))) (absTime (the (ts t2)))
      in if cmp \<noteq> 0 then cmp else B_COMPARE t1 t2)"

text \<open>Insertion into the tree of running timers and removal from it.\<close>

definition TimersTree_Insert :: "(nat \<Rightarrow> BSmallTimer option) \<Rightarrow> nat \<Rightarrow> nat list \<Rightarrow> nat list" where
  "TimersTree_Insert ts k xs =
     takeWhile (\<lambda>j. compare_timers ts j k = - 1) xs @ k # dropWhile (\<lambda>j. compare_timers ts j k = - 1) xs"

definition set_timer_state :: "nat \<Rightarrow> timer_state \<Rightarrow> 'j BReactor \<Rightarrow> 'j BReactor option" where
  "set_timer_state k st s =
     do { t \<leftarrow> timers s k; Some (s\<lparr>timers := (timers s)(k := Some (t\<lparr>state := st\<rparr>))\<rparr>) }"

text \<open>A timer of the tree is appended to the list of expired timers.\<close>

definition expire_timer :: "nat \<Rightarrow> 'j BReactor \<Rightarrow> 'j BReactor option" where
  "expire_timer k s =
     set_timer_state k TIMER_STATE_EXPIRED
       (s\<lparr>timers_tree := remove1 k (timers_tree s), timers_expired_list := timers_expired_list s @ [k]\<rparr>)"

text \<open>
  The loop of \<open>move_expired_timers\<close> and of the end of \<open>move_first_timers\<close>: timers up to a time are moved.  The result tells
  whether one was moved.
\<close>

function move_timers :: "int \<Rightarrow> bool \<Rightarrow> 'j BReactor \<Rightarrow> (bool \<times> 'j BReactor) option" where
  "move_timers now moved s =
     (case timers_tree s of
        [] \<Rightarrow> Some (moved, s)
      | k # ks \<Rightarrow>
          do { t \<leftarrow> timers s k;
               ASSERT (state t = TIMER_STATE_RUNNING)
                 (if absTime t > now then Some (moved, s)
                  else do { s \<leftarrow> expire_timer k s; move_timers now True s }) })"
  by pat_completeness auto
termination
  by (relation "measure (\<lambda>(now, moved, s). length (timers_tree s))")
    (auto simp: expire_timer_def set_timer_state_def bind_Some_iff)

declare move_timers.simps [simp del]

definition move_expired_timers :: "int \<Rightarrow> 'j BReactor \<Rightarrow> (bool \<times> 'j BReactor) option" where
  "move_expired_timers now s = move_timers now False s"

definition move_first_timers :: "'j BReactor \<Rightarrow> 'j BReactor option" where
  "move_first_timers s =
     (case timers_tree s of
        [] \<Rightarrow> None
      | k # _ \<Rightarrow>
          do { t \<leftarrow> timers s k;
               ASSERT (state t = TIMER_STATE_RUNNING)
                 (do { s \<leftarrow> expire_timer k s;
                       (_, s) \<leftarrow> move_timers (absTime t) True s;
                       Some s }) })"

definition BReactor_RemoveSmallTimer :: "nat \<Rightarrow> 'j BReactor \<Rightarrow> 'j BReactor option" where
  "BReactor_RemoveSmallTimer k s =
     do { t \<leftarrow> timers s k;
          case state t of
            TIMER_STATE_INACTIVE \<Rightarrow> Some s
          | TIMER_STATE_EXPIRED \<Rightarrow>
              ASSERT (k \<in> set (timers_expired_list s))
                (set_timer_state k TIMER_STATE_INACTIVE (s\<lparr>timers_expired_list := remove1 k (timers_expired_list s)\<rparr>))
          | TIMER_STATE_RUNNING \<Rightarrow>
              ASSERT (k \<in> set (timers_tree s))
                (set_timer_state k TIMER_STATE_INACTIVE (s\<lparr>timers_tree := remove1 k (timers_tree s)\<rparr>)) }"

text \<open>The result of \<open>btime_gettime\<close> is an argument; it is only used in relative mode.\<close>

definition BReactor_SetSmallTimer :: "nat \<Rightarrow> bool \<Rightarrow> int \<Rightarrow> int \<Rightarrow> 'j BReactor \<Rightarrow> 'j BReactor option" where
  "BReactor_SetSmallTimer k relative time now s =
     do { s \<leftarrow> BReactor_RemoveSmallTimer k s;
          let (time, s) = (if relative then (btime_add now time, s\<lparr>now_seen := now\<rparr>) else (time, s));
          t \<leftarrow> timers s k;
          let ts = (timers s)(k := Some (t\<lparr>absTime := time, state := TIMER_STATE_RUNNING\<rparr>));
          ASSERT (k \<notin> set (timers_tree s))
            (Some (s\<lparr>timers := ts, timers_tree := TimersTree_Insert ts k (timers_tree s)\<rparr>)) }"

section \<open>File descriptors\<close>

definition set_fd :: "nat \<Rightarrow> BFileDescriptor \<Rightarrow> 'j BReactor \<Rightarrow> 'j BReactor" where
  "set_fd k b s = s\<lparr>fds := (fds s)(k := Some b)\<rparr>"

text \<open>
  \<open>epoll_ctl\<close> refuses a file descriptor that is already in the interest list, and otherwise accepts it when the argument
  says so.  The result tells whether the descriptor was added.
\<close>

definition BReactor_AddFileDescriptor :: "bool \<Rightarrow> nat \<Rightarrow> 'j BReactor \<Rightarrow> (bool \<times> 'j BReactor) option" where
  "BReactor_AddFileDescriptor ctl k s =
     do { b \<leftarrow> fds s k;
          ASSERT (\<not> active b)
            (if \<not> ctl \<or> efd s (bfd_fd b) \<noteq> None then Some (False, s)
             else Some (True, set_fd k (b\<lparr>epoll_returned_ptr := None, active := True, waitEvents := 0\<rparr>)
                                (s\<lparr>efd := (efd s)(bfd_fd b \<mapsto> (k, 0))\<rparr>))) }"

definition BReactor_RemoveFileDescriptor :: "nat \<Rightarrow> 'j BReactor \<Rightarrow> 'j BReactor option" where
  "BReactor_RemoveFileDescriptor k s =
     do { b \<leftarrow> fds s k;
          ASSERT (active b) (
          ASSERT (efd s (bfd_fd b) \<noteq> None)
            (let s = set_fd k (b\<lparr>active := False\<rparr>) (s\<lparr>efd := (efd s)(bfd_fd b := None)\<rparr>)
             in case epoll_returned_ptr b of
                  None \<Rightarrow> Some s
                | Some i \<Rightarrow>
                    ASSERT (i < length (epoll_results s))
                      (Some (s\<lparr>epoll_results := (epoll_results s)[i := (None, snd (epoll_results s ! i))]\<rparr>)))) }"

definition epoll_mask :: "u32 \<Rightarrow> u32" where
  "epoll_mask events =
     (if events AND BREACTOR_READ \<noteq> 0 then EPOLLIN else 0) OR (if events AND BREACTOR_WRITE \<noteq> 0 then EPOLLOUT else 0)"

definition BReactor_SetFileDescriptorEvents :: "nat \<Rightarrow> u32 \<Rightarrow> 'j BReactor \<Rightarrow> 'j BReactor option" where
  "BReactor_SetFileDescriptorEvents k events s =
     do { b \<leftarrow> fds s k;
          ASSERT (active b) (
          ASSERT (events AND NOT (BREACTOR_READ OR BREACTOR_WRITE) = 0)
            (if waitEvents b = events then Some s
             else ASSERT (efd s (bfd_fd b) \<noteq> None)
               (Some (set_fd k (b\<lparr>waitEvents := events\<rparr>)
                        (s\<lparr>efd := (efd s)(bfd_fd b \<mapsto> (k, epoll_mask events))\<rparr>))))) }"

text \<open>The entries of \<open>epoll_wait\<close> get their pointers from the descriptors.\<close>

fun set_epoll_fd_pointers :: "nat \<Rightarrow> (nat option \<times> u32) list \<Rightarrow> 'j BReactor \<Rightarrow> 'j BReactor option" where
  "set_epoll_fd_pointers i [] s = Some s"
| "set_epoll_fd_pointers i ((p, ev) # rs) s =
     do { k \<leftarrow> p;
          b \<leftarrow> fds s k;
          ASSERT (active b) (
          ASSERT (epoll_returned_ptr b = None)
            (set_epoll_fd_pointers (i + 1) rs (set_fd k (b\<lparr>epoll_returned_ptr := Some i\<rparr>) s))) }"

text \<open>The events that are reported to the handler of a descriptor.\<close>

definition report_events :: "u32 \<Rightarrow> u32 \<Rightarrow> u32" where
  "report_events wait ev =
     (if wait AND BREACTOR_READ \<noteq> 0 \<and> ev AND EPOLLIN \<noteq> 0 then BREACTOR_READ else 0) OR
     (if wait AND BREACTOR_WRITE \<noteq> 0 \<and> ev AND EPOLLOUT \<noteq> 0 then BREACTOR_WRITE else 0) OR
     (if ev AND EPOLLERR \<noteq> 0 then BREACTOR_ERROR else 0) OR
     (if ev AND EPOLLHUP \<noteq> 0 then BREACTOR_HUP else 0)"

section \<open>Limits\<close>

definition BReactorLimit_Init :: "nat \<Rightarrow> int \<Rightarrow> 'j BReactor \<Rightarrow> 'j BReactor option" where
  "BReactorLimit_Init k n s = ASSERT (n > 0) (Some (s\<lparr>limits := (limits s)(k := Some \<lparr>limit = n, count = 0\<rparr>)\<rparr>))"

definition BReactorLimit_Free :: "nat \<Rightarrow> 'j BReactor \<Rightarrow> 'j BReactor option" where
  "BReactorLimit_Free k s =
     do { l \<leftarrow> limits s k;
          let s = s\<lparr>limits := (limits s)(k := None)\<rparr>;
          if count l > 0 then
            ASSERT (k \<in> set (active_limits_list s)) (Some (s\<lparr>active_limits_list := remove1 k (active_limits_list s)\<rparr>))
          else Some s }"

definition BReactorLimit_Increment :: "nat \<Rightarrow> 'j BReactor \<Rightarrow> (bool \<times> 'j BReactor) option" where
  "BReactorLimit_Increment k s =
     do { l \<leftarrow> limits s k;
          if count l \<ge> limit l then Some (False, s)
          else let l = l\<lparr>count := count l + 1\<rparr>;
                   s = s\<lparr>limits := (limits s)(k := Some l)\<rparr>
               in Some (True, if count l = 1 then s\<lparr>active_limits_list := active_limits_list s @ [k]\<rparr> else s) }"

definition BReactorLimit_SetLimit :: "nat \<Rightarrow> int \<Rightarrow> 'j BReactor \<Rightarrow> 'j BReactor option" where
  "BReactorLimit_SetLimit k n s =
     do { l \<leftarrow> limits s k; ASSERT (n > 0) (Some (s\<lparr>limits := (limits s)(k := Some (l\<lparr>limit := n\<rparr>))\<rparr>)) }"

text \<open>The end of \<open>wait_for_events\<close>: every active limit is reset.\<close>

fun reset_limits :: "nat list \<Rightarrow> 'j BReactor \<Rightarrow> 'j BReactor option" where
  "reset_limits [] s = Some s"
| "reset_limits (k # ks) s =
     do { l \<leftarrow> limits s k;
          ASSERT (count l > 0)
            (reset_limits ks (s\<lparr>limits := (limits s)(k := Some (l\<lparr>count := 0\<rparr>)), active_limits_list := ks\<rparr>)) }"

section \<open>Waiting\<close>

text \<open>
  What \<open>epoll_wait\<close> can do, each with the time that \<open>btime_gettime\<close> gives afterwards.
\<close>

datatype wait_answer =
    Interrupted int
  | Ready "(nat \<times> u32) list" int
  | TimedOut int

definition INT_MAX32 :: int where "INT_MAX32 = 2 ^ 31 - 1"

text \<open>
  The loop of \<open>wait_for_events\<close>.  \<open>deadline\<close> is the time of the first timer, \<open>now\<close> the time from which the timeout is
  computed; a difference that leaves the 64 bits is undefined.  The result is false when the list of answers ends: the call
  is still waiting.
\<close>

definition timeout_rel :: "int option \<Rightarrow> int \<Rightarrow> int option" where
  "timeout_rel deadline now =
     (case deadline of None \<Rightarrow> Some 0 | Some d \<Rightarrow> ASSERT (is_int64 (d - now)) (Some (d - now)))"

fun wait_loop :: "int option \<Rightarrow> int \<Rightarrow> wait_answer list \<Rightarrow> 'j BReactor \<Rightarrow> (bool \<times> 'j BReactor) option" where
  "wait_loop deadline now [] s = Some (False, s)"
| "wait_loop deadline now (Ready rs c # as) s =
     do { rel \<leftarrow> timeout_rel deadline now;
          ASSERT (rs \<noteq> []) (
          ASSERT (length rs \<le> BSYSTEM_MAX_RESULTS)
            (do { let results = map (\<lambda>(k, ev). (Some k, ev)) rs;
                  s \<leftarrow> set_epoll_fd_pointers 0 results
                        (s\<lparr>epoll_results := results, epoll_results_pos := 0, now_seen := c\<rparr>);
                  Some (True, s) })) }"
| "wait_loop deadline now (Interrupted c # as) s =
     do { rel \<leftarrow> timeout_rel deadline now;
          case deadline of
            None \<Rightarrow> wait_loop deadline now as (s\<lparr>now_seen := c\<rparr>)
          | Some d \<Rightarrow>
              if c \<ge> d then do { s \<leftarrow> move_first_timers (s\<lparr>now_seen := c\<rparr>); Some (True, s) }
              else wait_loop deadline c as (s\<lparr>now_seen := c\<rparr>) }"
| "wait_loop deadline now (TimedOut c # as) s =
     do { rel \<leftarrow> timeout_rel deadline now;
          case deadline of
            None \<Rightarrow> None
          | Some d \<Rightarrow>
              if min rel INT_MAX32 = rel \<or> c \<ge> d
              then do { s \<leftarrow> move_first_timers (s\<lparr>now_seen := c\<rparr>); Some (True, s) }
              else wait_loop deadline c as (s\<lparr>now_seen := c\<rparr>) }"

text \<open>
  \<open>now\<close> is the time at the start of the wait.  The limits are reset at its end, unless timers had expired before it.
\<close>

definition end_of_wait :: "bool \<times> 'j BReactor \<Rightarrow> (bool \<times> 'j BReactor) option" where
  "end_of_wait = (\<lambda>(woken, s).
     if woken then do { s \<leftarrow> reset_limits (active_limits_list s) s; Some (True, s) } else Some (False, s))"

definition wait_for_events :: "int \<Rightarrow> wait_answer list \<Rightarrow> 'j BReactor \<Rightarrow> (bool \<times> 'j BReactor) option" where
  "wait_for_events now as s =
     ASSERT (\<not> BPendingGroup_HasJobs (pending_jobs s)) (
     ASSERT (timers_expired_list s = []) (
     ASSERT (epoll_results_pos s = length (epoll_results s))
       (do { let s = s\<lparr>epoll_results := [], epoll_results_pos := 0\<rparr>;
             (case timers_tree s of
                [] \<Rightarrow> Option.bind (wait_loop None now as s) end_of_wait
              | k # _ \<Rightarrow>
                  do { t \<leftarrow> timers s k;
                       ASSERT (state t = TIMER_STATE_RUNNING)
                         (do { (moved, s) \<leftarrow> move_expired_timers now (s\<lparr>now_seen := now\<rparr>);
                               if moved then Some (True, s)
                               else Option.bind (wait_loop (Some (absTime t)) now as s) end_of_wait }) }) })))"

section \<open>The loop\<close>

text \<open>What one iteration of \<open>BReactor_Exec\<close> calls.\<close>

datatype 'j dispatch =
    DispatchJob 'j
  | DispatchTimer nat bool
  | DispatchFd nat u32
  | DispatchNone
  | StillWaiting

definition BReactor_iterate :: "int \<Rightarrow> wait_answer list \<Rightarrow> 'j BReactor \<Rightarrow> ('j dispatch \<times> 'j BReactor) option" where
  "BReactor_iterate now as s =
     (if BPendingGroup_HasJobs (pending_jobs s) then
        do { (j, g) \<leftarrow> BPendingGroup_ExecuteJob (pending_jobs s);
             Some (DispatchJob j, s\<lparr>pending_jobs := g\<rparr>) }
      else case timers_expired_list s of
        k # ks \<Rightarrow>
          do { t \<leftarrow> timers s k;
               ASSERT (state t = TIMER_STATE_EXPIRED)
                 (do { s \<leftarrow> set_timer_state k TIMER_STATE_INACTIVE (s\<lparr>timers_expired_list := ks\<rparr>);
                       Some (DispatchTimer k (is_small t), s) }) }
      | [] \<Rightarrow>
          if epoll_results_pos s < length (epoll_results s) then
            let (p, ev) = epoll_results s ! epoll_results_pos s;
                i = epoll_results_pos s;
                s = s\<lparr>epoll_results_pos := i + 1\<rparr>
            in (case p of
                  None \<Rightarrow> Some (DispatchNone, s)
                | Some k \<Rightarrow>
                    do { b \<leftarrow> fds s k;
                         ASSERT (active b) (
                         ASSERT (epoll_returned_ptr b = Some i)
                           (let s = set_fd k (b\<lparr>epoll_returned_ptr := None\<rparr>) s;
                                events = report_events (waitEvents b) ev
                            in Some (if events = 0 then DispatchNone else DispatchFd k events, s))) })
          else do { (woken, s) \<leftarrow> wait_for_events now as s;
                    Some (if woken then DispatchNone else StillWaiting, s) })"

definition BReactor_Quit :: "int \<Rightarrow> 'j BReactor \<Rightarrow> 'j BReactor" where
  "BReactor_Quit code s = s\<lparr>exiting := True, exit_code := code\<rparr>"

section \<open>What handlers do\<close>

text \<open>
  A handler uses the interface of the reactor; an object is created in fresh memory and its memory is freed when the
  reactor no longer uses it.
\<close>

datatype 'j reactor_op =
    NewTimer nat bool
  | FreeTimer nat
  | SetTimer nat bool int int
  | RemoveTimer nat
  | NewFd nat int
  | FreeFd nat
  | AddFd bool nat
  | RemoveFd nat
  | SetEvents nat u32
  | NewLimit nat int
  | FreeLimit nat
  | IncrementLimit nat
  | SetLimit nat int
  | JobOp "'j pending_op"
  | Quit int

definition BSmallTimer_Init :: "bool \<Rightarrow> BSmallTimer" where
  "BSmallTimer_Init small = \<lparr>absTime = 0, state = TIMER_STATE_INACTIVE, is_small = small\<rparr>"

text \<open>The fields that \<open>BFileDescriptor_Init\<close> leaves unset are set when the descriptor is added, before they are read.\<close>

definition BFileDescriptor_Init :: "int \<Rightarrow> BFileDescriptor" where
  "BFileDescriptor_Init fd = \<lparr>bfd_fd = fd, active = False, waitEvents = 0, epoll_returned_ptr = None\<rparr>"

fun reactor_do :: "'j reactor_op \<Rightarrow> 'j BReactor \<Rightarrow> 'j BReactor option" where
  "reactor_do (NewTimer k small) s = Some (s\<lparr>timers := (timers s)(k := Some (BSmallTimer_Init small))\<rparr>)"
| "reactor_do (FreeTimer k) s = Some (s\<lparr>timers := (timers s)(k := None)\<rparr>)"
| "reactor_do (SetTimer k relative time now) s = BReactor_SetSmallTimer k relative time now s"
| "reactor_do (RemoveTimer k) s = BReactor_RemoveSmallTimer k s"
| "reactor_do (NewFd k fd) s = Some (set_fd k (BFileDescriptor_Init fd) s)"
| "reactor_do (FreeFd k) s = Some (s\<lparr>fds := (fds s)(k := None)\<rparr>)"
| "reactor_do (AddFd ctl k) s = map_option snd (BReactor_AddFileDescriptor ctl k s)"
| "reactor_do (RemoveFd k) s = BReactor_RemoveFileDescriptor k s"
| "reactor_do (SetEvents k ev) s = BReactor_SetFileDescriptorEvents k ev s"
| "reactor_do (NewLimit k n) s = BReactorLimit_Init k n s"
| "reactor_do (FreeLimit k) s = BReactorLimit_Free k s"
| "reactor_do (IncrementLimit k) s = map_option snd (BReactorLimit_Increment k s)"
| "reactor_do (SetLimit k n) s = BReactorLimit_SetLimit k n s"
| "reactor_do (JobOp x) s = do { g \<leftarrow> pending_do x (pending_jobs s); Some (s\<lparr>pending_jobs := g\<rparr>) }"
| "reactor_do (Quit code) s = Some (BReactor_Quit code s)"

text \<open>The preconditions of the interface.\<close>

fun reactor_allowed :: "'j reactor_op \<Rightarrow> 'j BReactor \<Rightarrow> bool" where
  "reactor_allowed (NewTimer k small) s \<longleftrightarrow> timers s k = None"
| "reactor_allowed (FreeTimer k) s \<longleftrightarrow> (\<exists>t. timers s k = Some t \<and> state t = TIMER_STATE_INACTIVE)"
| "reactor_allowed (SetTimer k relative time now) s \<longleftrightarrow> timers s k \<noteq> None \<and> is_int64 time \<and> now_seen s \<le> now \<and> is_int64 now"
| "reactor_allowed (RemoveTimer k) s \<longleftrightarrow> timers s k \<noteq> None"
| "reactor_allowed (NewFd k fd) s \<longleftrightarrow> fds s k = None"
| "reactor_allowed (FreeFd k) s \<longleftrightarrow> (\<exists>b. fds s k = Some b \<and> \<not> active b)"
| "reactor_allowed (AddFd ctl k) s \<longleftrightarrow> (\<exists>b. fds s k = Some b \<and> \<not> active b)"
| "reactor_allowed (RemoveFd k) s \<longleftrightarrow> (\<exists>b. fds s k = Some b \<and> active b)"
| "reactor_allowed (SetEvents k ev) s \<longleftrightarrow>
     (\<exists>b. fds s k = Some b \<and> active b) \<and> ev AND NOT (BREACTOR_READ OR BREACTOR_WRITE) = 0"
| "reactor_allowed (NewLimit k n) s \<longleftrightarrow> limits s k = None \<and> n > 0"
| "reactor_allowed (FreeLimit k) s \<longleftrightarrow> limits s k \<noteq> None"
| "reactor_allowed (IncrementLimit k) s \<longleftrightarrow> limits s k \<noteq> None"
| "reactor_allowed (SetLimit k n) s \<longleftrightarrow> limits s k \<noteq> None \<and> n > 0"
| "reactor_allowed (JobOp x) s \<longleftrightarrow>
     (case x of
        PInit j \<Rightarrow> j \<notin> pg_objs (pending_jobs s)
      | PExecute \<Rightarrow> False
      | PFree j \<Rightarrow> j \<in> pg_objs (pending_jobs s)
      | PSet j \<Rightarrow> j \<in> pg_objs (pending_jobs s)
      | PUnset j \<Rightarrow> j \<in> pg_objs (pending_jobs s))"
| "reactor_allowed (Quit code) s \<longleftrightarrow> True"

text \<open>
  What the operating system promises: the clock does not run backwards; \<open>epoll_wait\<close> gives at most the requested number
  of entries, for different descriptors of the interest list and with events that were asked for, or an error or a hang-up;
  it times out only when a timeout was given and not before it has passed.
\<close>

definition entry_ok :: "(int \<Rightarrow> (nat \<times> u32) option) \<Rightarrow> nat \<times> u32 \<Rightarrow> bool" where
  "entry_ok interest = (\<lambda>(k, ev).
     \<exists>f asked. interest f = Some (k, asked) \<and> ev AND NOT (asked OR EPOLLERR OR EPOLLHUP) = 0)"

fun epoll_ok :: "int option \<Rightarrow> int \<Rightarrow> wait_answer list \<Rightarrow> (int \<Rightarrow> (nat \<times> u32) option) \<Rightarrow> bool" where
  "epoll_ok deadline now [] interest \<longleftrightarrow> True"
| "epoll_ok deadline now (Ready rs c # as) interest \<longleftrightarrow>
     now \<le> c \<and> rs \<noteq> [] \<and> length rs \<le> BSYSTEM_MAX_RESULTS \<and> distinct (map fst rs) \<and> (\<forall>r\<in>set rs. entry_ok interest r)"
| "epoll_ok deadline now (Interrupted c # as) interest \<longleftrightarrow> now \<le> c \<and> epoll_ok deadline c as interest"
| "epoll_ok deadline now (TimedOut c # as) interest \<longleftrightarrow>
     (case deadline of None \<Rightarrow> False | Some d \<Rightarrow> now + min (d - now) INT_MAX32 \<le> c) \<and> now \<le> c \<and>
     epoll_ok deadline c as interest"

definition first_deadline :: "'j BReactor \<Rightarrow> int option" where
  "first_deadline s = (case timers_tree s of [] \<Rightarrow> None | k # _ \<Rightarrow> map_option absTime (timers s k))"

inductive reactor_step :: "'j BReactor \<Rightarrow> 'j BReactor \<Rightarrow> bool" where
  iterate: "\<not> exiting s \<Longrightarrow> now_seen s \<le> now \<Longrightarrow> is_int64 now \<Longrightarrow> epoll_ok (first_deadline s) now as (efd s) \<Longrightarrow>
    BReactor_iterate now as s = Some (d, t) \<Longrightarrow> d \<noteq> StillWaiting \<Longrightarrow> reactor_step s t"
| handler: "reactor_allowed x s \<Longrightarrow> reactor_do x s = Some t \<Longrightarrow> reactor_step s t"

definition reactor_start :: "'j BReactor \<Rightarrow> bool" where
  "reactor_start s \<longleftrightarrow> (\<exists>now. s = BReactor_Init now \<and> 0 \<le> now \<and> is_int64 now)"

end
