(* ===== verification/SocketConn.thy ===== *)
theory SocketConn
  imports StreamIf Reactor
begin

text \<open>
  A stream connection over a socket, \<open>system/BConnection_unix.c\<close>, on the reactor: the send and the receive side with their
  interfaces, the limits on the operations per wait, the events the descriptor waits for, errors and hang-ups.

  The reactor may have other users: their jobs are \<open>OtherJob\<close>, their descriptors and limits have other addresses.  The
  answers of \<open>read\<close>, \<open>write\<close>, \<open>accept\<close> and \<open>fcntl\<close> are arguments.
\<close>

datatype send_state = SEND_STATE_NOT_INITED | SEND_STATE_READY | SEND_STATE_BUSY

datatype recv_state = RECV_STATE_NOT_INITED | RECV_STATE_READY | RECV_STATE_BUSY | RECV_STATE_INITED_CLOSED
  | RECV_STATE_NOT_INITED_CLOSED

text \<open>The job objects of a connection, and those of other users.\<close>

datatype 'o job = SendJob | SendOperation | SendDone | RecvJob | RecvOperation | RecvDone | OtherJob 'o

text \<open>The addresses of the objects of the connection that the reactor knows.\<close>

definition conn_bfd :: nat where "conn_bfd = 0"

definition send_limit :: nat where "send_limit = 0"

definition recv_limit :: nat where "recv_limit = 1"

definition BCONNECTION_SEND_LIMIT :: int where "BCONNECTION_SEND_LIMIT = 2"

definition BCONNECTION_RECV_LIMIT :: int where "BCONNECTION_RECV_LIMIT = 2"

text \<open>\<open>d_err\<close> is the debug object that records that an error was reported.\<close>

record BConnection =
  conn_fd :: int
  close_fd :: bool
  is_hupd :: bool
  wait_events :: u32
  send_iface :: StreamPassInterface
  send_busy_data :: bytes
  send_state :: send_state
  recv_iface :: StreamRecvInterface
  recv_busy_data_avail :: nat
  recv_state :: recv_state
  d_err :: bool

text \<open>
  The world of a connection.  \<open>written\<close> and \<open>taken\<close> are what was written to the socket and read from it; \<open>accepted\<close> and
  \<open>delivered\<close> what the user was told to be sent and received; \<open>outgoing\<close> and \<open>incoming\<close> are what was written and read but
  not yet reported.
  \<open>sock_error\<close> tells that an error event was seen whose error no operation has fetched.  \<open>recv_closed\<close>: the end of the
  stream was reported.  \<open>unusable\<close>: an interface was freed while it was busy.
\<close>

record 'o Conn_world =
  reactor :: "'o job BReactor"
  conn :: "BConnection option"
  open_fds :: "int set"
  written :: bytes
  accepted :: bytes
  outgoing :: bytes
  taken :: bytes
  delivered :: bytes
  incoming :: bytes
  sock_error :: bool
  recv_closed :: bool
  unusable :: bool

definition with_reactor :: "('o job BReactor \<Rightarrow> 'o job BReactor option) \<Rightarrow> 'o Conn_world \<Rightarrow> 'o Conn_world option" where
  "with_reactor f s = do { r \<leftarrow> f (reactor s); Some (s\<lparr>reactor := r\<rparr>) }"

definition with_jobs :: "('o job BPendingGroup \<Rightarrow> 'o job BPendingGroup option) \<Rightarrow> 'o Conn_world \<Rightarrow> 'o Conn_world option" where
  "with_jobs f = with_reactor (\<lambda>r. do { g \<leftarrow> f (pending_jobs r); Some (r\<lparr>pending_jobs := g\<rparr>) })"

definition set_conn :: "BConnection \<Rightarrow> 'o Conn_world \<Rightarrow> 'o Conn_world" where
  "set_conn c s = s\<lparr>conn := Some c\<rparr>"

section \<open>Sending and receiving\<close>

text \<open>The call of the user's handler is the end of the operation: what the user then does are further operations.\<close>

definition connection_report_error :: "BConnection \<Rightarrow> 'o Conn_world \<Rightarrow> 'o Conn_world option" where
  "connection_report_error c s = ASSERT (\<not> d_err c) (Some (set_conn (c\<lparr>d_err := True\<rparr>) s))"

definition update_events :: "u32 \<Rightarrow> BConnection \<Rightarrow> 'o Conn_world \<Rightarrow> (BConnection \<times> 'o Conn_world) option" where
  "update_events ev c s =
     do { let c = c\<lparr>wait_events := ev\<rparr>;
          s \<leftarrow> with_reactor (BReactor_SetFileDescriptorEvents conn_bfd ev) (set_conn c s);
          Some (c, s) }"

text \<open>The limit of operations per wait; after a hang-up it is not used.\<close>

definition take_limit :: "nat \<Rightarrow> BConnection \<Rightarrow> 'o Conn_world \<Rightarrow> (bool \<times> 'o Conn_world) option" where
  "take_limit k c s =
     (if is_hupd c then Some (True, s)
      else do { (b, r) \<leftarrow> BReactorLimit_Increment k (reactor s); Some (b, s\<lparr>reactor := r\<rparr>) })"

datatype write_answer = Written nat | WriteAgain | WriteError

datatype read_answer = Read bytes | ReadAgain | ReadError

definition StreamPassInterface_Done :: "nat \<Rightarrow> BConnection \<Rightarrow> 'o Conn_world \<Rightarrow> 'o Conn_world option" where
  "StreamPassInterface_Done n c s =
     do { (i, g) \<leftarrow> Stream_Done SendDone n (send_iface c) (pending_jobs (reactor s));
          Some (set_conn (c\<lparr>send_iface := i\<rparr>) (s\<lparr>reactor := (reactor s)\<lparr>pending_jobs := g\<rparr>\<rparr>)) }"

definition StreamRecvInterface_Done :: "nat \<Rightarrow> BConnection \<Rightarrow> 'o Conn_world \<Rightarrow> 'o Conn_world option" where
  "StreamRecvInterface_Done n c s =
     do { (i, g) \<leftarrow> Stream_Done RecvDone n (recv_iface c) (pending_jobs (reactor s));
          Some (set_conn (c\<lparr>recv_iface := i\<rparr>) (s\<lparr>reactor := (reactor s)\<lparr>pending_jobs := g\<rparr>\<rparr>)) }"

definition connection_send_socket :: "write_answer \<Rightarrow> BConnection \<Rightarrow> 'o Conn_world \<Rightarrow> 'o Conn_world option" where
  "connection_send_socket ans c s =
     ASSERT (\<not> d_err c) (
     ASSERT (send_state c = SEND_STATE_BUSY)
       (do { (ok, s) \<leftarrow> take_limit send_limit c s;
             if \<not> ok then map_option snd (update_events (wait_events c OR BREACTOR_WRITE) c s)
             else case ans of
               WriteAgain \<Rightarrow>
                 if \<not> is_hupd c then map_option snd (update_events (wait_events c OR BREACTOR_WRITE) c s)
                 else connection_report_error c s
             | WriteError \<Rightarrow> connection_report_error c (s\<lparr>sock_error := False\<rparr>)
             | Written n \<Rightarrow>
                 ASSERT (n > 0) (
                 ASSERT (n \<le> length (send_busy_data c))
                   (StreamPassInterface_Done n (c\<lparr>send_state := SEND_STATE_READY\<rparr>)
                      (s\<lparr>written := written s @ take n (send_busy_data c), outgoing := take n (send_busy_data c)\<rparr>))) }))"

definition connection_recv :: "read_answer \<Rightarrow> BConnection \<Rightarrow> 'o Conn_world \<Rightarrow> 'o Conn_world option" where
  "connection_recv ans c s =
     ASSERT (\<not> d_err c) (
     ASSERT (recv_state c = RECV_STATE_BUSY)
       (do { (ok, s) \<leftarrow> take_limit recv_limit c s;
             if \<not> ok then map_option snd (update_events (wait_events c OR BREACTOR_READ) c s)
             else case ans of
               ReadAgain \<Rightarrow>
                 if \<not> is_hupd c then map_option snd (update_events (wait_events c OR BREACTOR_READ) c s)
                 else connection_report_error c s
             | ReadError \<Rightarrow> connection_report_error c (s\<lparr>sock_error := False\<rparr>)
             | Read bs \<Rightarrow>
                 if bs = [] then Some (set_conn (c\<lparr>recv_state := RECV_STATE_INITED_CLOSED\<rparr>) (s\<lparr>recv_closed := True\<rparr>))
                 else ASSERT (length bs \<le> recv_busy_data_avail c)
                   (StreamRecvInterface_Done (length bs) (c\<lparr>recv_state := RECV_STATE_READY\<rparr>)
                      (s\<lparr>taken := taken s @ bs, incoming := bs\<rparr>)) }))"

definition connection_fd_handler ::
    "u32 \<Rightarrow> write_answer \<Rightarrow> read_answer \<Rightarrow> BConnection \<Rightarrow> 'o Conn_world \<Rightarrow> 'o Conn_world option" where
  "connection_fd_handler events wa ra c s =
     ASSERT (\<not> d_err c) (
     ASSERT (\<not> is_hupd c)
       (do { (c, s) \<leftarrow> update_events (wait_events c AND NOT events) c s;
             (c, s) \<leftarrow> (if events AND BREACTOR_HUP \<noteq> 0
                then do { s \<leftarrow> with_reactor (BReactor_RemoveFileDescriptor conn_bfd) s;
                          let c = c\<lparr>is_hupd := True\<rparr>;
                          Some (c, set_conn c s) }
                else Some (c, s));
             let have_send = (events AND BREACTOR_WRITE \<noteq> 0 \<or>
                   events AND (BREACTOR_ERROR OR BREACTOR_HUP) \<noteq> 0 \<and> send_state c = SEND_STATE_BUSY);
             let have_recv = (events AND BREACTOR_READ \<noteq> 0 \<or>
                   events AND (BREACTOR_ERROR OR BREACTOR_HUP) \<noteq> 0 \<and> recv_state c = RECV_STATE_BUSY);
             ASSERT (have_send \<longrightarrow> send_state c = SEND_STATE_BUSY) (
             ASSERT (have_recv \<longrightarrow> recv_state c = RECV_STATE_BUSY)
               (if have_send then
                  do { s \<leftarrow> (if have_recv then with_jobs (BPending_Set RecvJob) s else Some s); connection_send_socket wa c s }
                else if have_recv then connection_recv ra c s
                else if \<not> is_hupd c then connection_report_error c s
                else Some s)) }))"

definition connection_send_job_handler :: "write_answer \<Rightarrow> BConnection \<Rightarrow> 'o Conn_world \<Rightarrow> 'o Conn_world option" where
  "connection_send_job_handler ans c s =
     ASSERT (\<not> d_err c) (ASSERT (send_state c = SEND_STATE_BUSY) (connection_send_socket ans c s))"

definition connection_recv_job_handler :: "read_answer \<Rightarrow> BConnection \<Rightarrow> 'o Conn_world \<Rightarrow> 'o Conn_world option" where
  "connection_recv_job_handler ans c s =
     ASSERT (\<not> d_err c) (ASSERT (recv_state c = RECV_STATE_BUSY) (connection_recv ans c s))"

definition connection_send_if_handler_send ::
    "bytes \<Rightarrow> write_answer \<Rightarrow> BConnection \<Rightarrow> 'o Conn_world \<Rightarrow> 'o Conn_world option" where
  "connection_send_if_handler_send d ans c s =
     ASSERT (\<not> d_err c) (
     ASSERT (send_state c = SEND_STATE_READY) (
     ASSERT (d \<noteq> [])
       (let c = c\<lparr>send_busy_data := d, send_state := SEND_STATE_BUSY\<rparr> in connection_send_socket ans c (set_conn c s))))"

definition connection_recv_if_handler_recv ::
    "nat \<Rightarrow> read_answer \<Rightarrow> BConnection \<Rightarrow> 'o Conn_world \<Rightarrow> 'o Conn_world option" where
  "connection_recv_if_handler_recv avail ans c s =
     ASSERT (\<not> d_err c) (
     ASSERT (recv_state c = RECV_STATE_READY) (
     ASSERT (avail > 0)
       (let c = c\<lparr>recv_busy_data_avail := avail, recv_state := RECV_STATE_BUSY\<rparr> in connection_recv ans c (set_conn c s))))"

section \<open>Creation and release\<close>

text \<open>Where the socket comes from, with the answers of \<open>accept\<close> and of making the descriptor non-blocking.\<close>

datatype BConnection_source =
    SourceListener "int option" bool
  | SourceConnector int
  | SourcePipe int bool bool

definition new_connection :: "int \<Rightarrow> bool \<Rightarrow> BConnection" where
  "new_connection fd cl =
     \<lparr>conn_fd = fd, close_fd = cl, is_hupd = False, wait_events = 0,
      send_iface = \<lparr>si_state = STATE_NONE, job_operation_data = [], job_operation_len = 0, job_done_len = 0, handler_done = False\<rparr>,
      send_busy_data = [], send_state = SEND_STATE_NOT_INITED,
      recv_iface = \<lparr>si_state = STATE_NONE, job_operation_data = (), job_operation_len = 0, job_done_len = 0, handler_done = False\<rparr>,
      recv_busy_data_avail = 0, recv_state = RECV_STATE_NOT_INITED, d_err = False\<rparr>"

definition close :: "int \<Rightarrow> 'o Conn_world \<Rightarrow> 'o Conn_world" where
  "close fd s = s\<lparr>open_fds := open_fds s - {fd}\<rparr>"

text \<open>The rest of \<open>BConnection_Init\<close> once there is a socket; \<open>ctl\<close> is the answer of \<open>epoll_ctl\<close>.\<close>

definition init_on_fd :: "int \<Rightarrow> bool \<Rightarrow> bool \<Rightarrow> 'o Conn_world \<Rightarrow> (bool \<times> 'o Conn_world) option" where
  "init_on_fd fd cl ctl s =
     do { (ok, r) \<leftarrow> BReactor_AddFileDescriptor ctl conn_bfd (set_fd conn_bfd (BFileDescriptor_Init fd) (reactor s));
          if \<not> ok then Some (False, (if cl then close fd else id) (s\<lparr>reactor := r\<lparr>fds := (fds r)(conn_bfd := None)\<rparr>\<rparr>))
          else do { r \<leftarrow> BReactorLimit_Init send_limit BCONNECTION_SEND_LIMIT r;
                    r \<leftarrow> BReactorLimit_Init recv_limit BCONNECTION_RECV_LIMIT r;
                    Some (True, set_conn (new_connection fd cl) (s\<lparr>reactor := r\<rparr>)) } }"

definition BConnection_Init :: "BConnection_source \<Rightarrow> bool \<Rightarrow> 'o Conn_world \<Rightarrow> (bool \<times> 'o Conn_world) option" where
  "BConnection_Init src ctl s =
     (case src of
        SourceListener None nb \<Rightarrow> Some (False, s)
      | SourceListener (Some fd) nb \<Rightarrow>
          let s = s\<lparr>open_fds := insert fd (open_fds s)\<rparr>
          in if \<not> nb then Some (False, close fd s) else init_on_fd fd True ctl s
      | SourceConnector fd \<Rightarrow> init_on_fd fd True ctl s
      | SourcePipe fd cl nb \<Rightarrow>
          if \<not> nb then Some (False, (if cl then close fd else id) s) else init_on_fd fd cl ctl s)"

definition BConnection_Free_socket :: "BConnection \<Rightarrow> 'o Conn_world \<Rightarrow> 'o Conn_world option" where
  "BConnection_Free_socket c s =
     ASSERT (send_state c = SEND_STATE_NOT_INITED) (
     ASSERT (recv_state c = RECV_STATE_NOT_INITED \<or> recv_state c = RECV_STATE_NOT_INITED_CLOSED)
       (do { s \<leftarrow> with_reactor (BReactorLimit_Free recv_limit) s;
             s \<leftarrow> with_reactor (BReactorLimit_Free send_limit) s;
             s \<leftarrow> (if \<not> is_hupd c then with_reactor (BReactor_RemoveFileDescriptor conn_bfd) s else Some s);
             s \<leftarrow> with_reactor (\<lambda>r. Some (r\<lparr>fds := (fds r)(conn_bfd := None)\<rparr>)) s;
             Some ((if close_fd c then close (conn_fd c) else id) (s\<lparr>conn := None\<rparr>)) }))"

definition BConnection_SendAsync_Init :: "BConnection \<Rightarrow> 'o Conn_world \<Rightarrow> 'o Conn_world option" where
  "BConnection_SendAsync_Init c s =
     ASSERT (\<not> d_err c) (
     ASSERT (send_state c = SEND_STATE_NOT_INITED)
       (do { (i, g) \<leftarrow> Stream_Init SendOperation SendDone [] (pending_jobs (reactor s));
             g \<leftarrow> BPending_Init SendJob g;
             Some (set_conn (c\<lparr>send_iface := i, send_state := SEND_STATE_READY\<rparr>)
                     (s\<lparr>reactor := (reactor s)\<lparr>pending_jobs := g\<rparr>\<rparr>)) }))"

definition BConnection_SendAsync_Free :: "BConnection \<Rightarrow> 'o Conn_world \<Rightarrow> 'o Conn_world option" where
  "BConnection_SendAsync_Free c s =
     ASSERT (send_state c = SEND_STATE_READY \<or> send_state c = SEND_STATE_BUSY)
       (do { (c, s) \<leftarrow> (if \<not> is_hupd c then update_events (wait_events c AND NOT BREACTOR_WRITE) c s else Some (c, s));
             s \<leftarrow> with_jobs (BPending_Free SendJob) s;
             s \<leftarrow> with_jobs (Stream_Free SendOperation SendDone) s;
             Some (set_conn (c\<lparr>send_state := SEND_STATE_NOT_INITED\<rparr>)
                     (s\<lparr>unusable := unusable s \<or> si_state (send_iface c) \<noteq> STATE_NONE\<rparr>)) })"

definition BConnection_RecvAsync_Init :: "BConnection \<Rightarrow> 'o Conn_world \<Rightarrow> 'o Conn_world option" where
  "BConnection_RecvAsync_Init c s =
     ASSERT (\<not> d_err c) (
     ASSERT (recv_state c = RECV_STATE_NOT_INITED)
       (do { (i, g) \<leftarrow> Stream_Init RecvOperation RecvDone () (pending_jobs (reactor s));
             g \<leftarrow> BPending_Init RecvJob g;
             Some (set_conn (c\<lparr>recv_iface := i, recv_state := RECV_STATE_READY\<rparr>)
                     (s\<lparr>reactor := (reactor s)\<lparr>pending_jobs := g\<rparr>\<rparr>)) }))"

definition BConnection_RecvAsync_Free :: "BConnection \<Rightarrow> 'o Conn_world \<Rightarrow> 'o Conn_world option" where
  "BConnection_RecvAsync_Free c s =
     ASSERT (recv_state c = RECV_STATE_READY \<or> recv_state c = RECV_STATE_BUSY \<or> recv_state c = RECV_STATE_INITED_CLOSED)
       (do { (c, s) \<leftarrow> (if \<not> is_hupd c then update_events (wait_events c AND NOT BREACTOR_READ) c s else Some (c, s));
             s \<leftarrow> with_jobs (BPending_Free RecvJob) s;
             s \<leftarrow> with_jobs (Stream_Free RecvOperation RecvDone) s;
             Some (set_conn (c\<lparr>recv_state := RECV_STATE_NOT_INITED\<rparr>)
                     (s\<lparr>unusable := unusable s \<or> si_state (recv_iface c) \<noteq> STATE_NONE\<rparr>)) })"

section \<open>The users\<close>

datatype user_op =
    UInit BConnection_source bool
  | UFree
  | USendInit
  | USendFree
  | USender
  | USend bytes
  | URecvInit
  | URecvFree
  | UReceiver
  | URecv nat

definition StreamPassInterface_Sender_Send_socket :: "bytes \<Rightarrow> BConnection \<Rightarrow> 'o Conn_world \<Rightarrow> 'o Conn_world option" where
  "StreamPassInterface_Sender_Send_socket d c s =
     do { (i, g) \<leftarrow> Stream_User_Operation SendOperation d (length d) (send_iface c) (pending_jobs (reactor s));
          Some (set_conn (c\<lparr>send_iface := i\<rparr>) (s\<lparr>reactor := (reactor s)\<lparr>pending_jobs := g\<rparr>\<rparr>)) }"

definition StreamRecvInterface_Receiver_Recv_socket :: "nat \<Rightarrow> BConnection \<Rightarrow> 'o Conn_world \<Rightarrow> 'o Conn_world option" where
  "StreamRecvInterface_Receiver_Recv_socket n c s =
     do { (i, g) \<leftarrow> Stream_User_Operation RecvOperation () n (recv_iface c) (pending_jobs (reactor s));
          Some (set_conn (c\<lparr>recv_iface := i\<rparr>) (s\<lparr>reactor := (reactor s)\<lparr>pending_jobs := g\<rparr>\<rparr>)) }"

definition forget_streams :: "'o Conn_world \<Rightarrow> 'o Conn_world" where
  "forget_streams s = s\<lparr>written := [], accepted := [], outgoing := [], taken := [], delivered := [], incoming := [],
     sock_error := False, recv_closed := False, unusable := False\<rparr>"

fun user_do :: "user_op \<Rightarrow> 'o Conn_world \<Rightarrow> 'o Conn_world option" where
  "user_do (UInit src ctl) s = map_option snd (BConnection_Init src ctl (forget_streams s))"
| "user_do UFree s = do { c \<leftarrow> conn s; BConnection_Free_socket c s }"
| "user_do USendInit s = do { c \<leftarrow> conn s; BConnection_SendAsync_Init c s }"
| "user_do USendFree s = do { c \<leftarrow> conn s; BConnection_SendAsync_Free c s }"
| "user_do USender s = do { c \<leftarrow> conn s; i \<leftarrow> Stream_User_Init (send_iface c); Some (set_conn (c\<lparr>send_iface := i\<rparr>) s) }"
| "user_do (USend d) s = do { c \<leftarrow> conn s; StreamPassInterface_Sender_Send_socket d c s }"
| "user_do URecvInit s = do { c \<leftarrow> conn s; BConnection_RecvAsync_Init c s }"
| "user_do URecvFree s = do { c \<leftarrow> conn s; BConnection_RecvAsync_Free c s }"
| "user_do UReceiver s = do { c \<leftarrow> conn s; i \<leftarrow> Stream_User_Init (recv_iface c); Some (set_conn (c\<lparr>recv_iface := i\<rparr>) s) }"
| "user_do (URecv n) s = do { c \<leftarrow> conn s; StreamRecvInterface_Receiver_Recv_socket n c s }"

definition recv_inited :: "BConnection \<Rightarrow> bool" where
  "recv_inited c \<longleftrightarrow> recv_state c \<noteq> RECV_STATE_NOT_INITED \<and> recv_state c \<noteq> RECV_STATE_NOT_INITED_CLOSED"

definition send_inited :: "BConnection \<Rightarrow> bool" where
  "send_inited c \<longleftrightarrow> send_state c \<noteq> SEND_STATE_NOT_INITED"

text \<open>
  The preconditions of \<open>BConnection.h\<close>: after an error the connection may only be freed; after the end of the stream nothing more is
  received; when an interface was freed while busy the connection is not used any more.
\<close>

definition usable :: "'o Conn_world \<Rightarrow> BConnection \<Rightarrow> bool" where
  "usable s c \<longleftrightarrow> conn s = Some c \<and> \<not> d_err c \<and> \<not> unusable s"

fun user_allowed :: "user_op \<Rightarrow> 'o Conn_world \<Rightarrow> bool" where
  "user_allowed (UInit src ctl) s \<longleftrightarrow> conn s = None"
| "user_allowed UFree s \<longleftrightarrow> (\<exists>c. conn s = Some c \<and> \<not> send_inited c \<and> \<not> recv_inited c)"
| "user_allowed USendInit s \<longleftrightarrow> (\<exists>c. usable s c \<and> \<not> send_inited c)"
| "user_allowed USendFree s \<longleftrightarrow> (\<exists>c. conn s = Some c \<and> send_inited c)"
| "user_allowed USender s \<longleftrightarrow> (\<exists>c. usable s c \<and> send_inited c \<and> \<not> handler_done (send_iface c))"
| "user_allowed (USend d) s \<longleftrightarrow>
     (\<exists>c. usable s c \<and> send_inited c \<and> handler_done (send_iface c) \<and> si_state (send_iface c) = STATE_NONE) \<and> d \<noteq> []"
| "user_allowed URecvInit s \<longleftrightarrow> (\<exists>c. usable s c \<and> \<not> recv_inited c) \<and> \<not> recv_closed s"
| "user_allowed URecvFree s \<longleftrightarrow> (\<exists>c. conn s = Some c \<and> recv_inited c)"
| "user_allowed UReceiver s \<longleftrightarrow> (\<exists>c. usable s c \<and> recv_inited c \<and> \<not> handler_done (recv_iface c))"
| "user_allowed (URecv n) s \<longleftrightarrow>
     (\<exists>c. usable s c \<and> recv_inited c \<and> handler_done (recv_iface c) \<and> si_state (recv_iface c) = STATE_NONE) \<and> n > 0 \<and>
     \<not> recv_closed s"

text \<open>Operations of other users of the reactor do not touch the objects of the connection.\<close>

definition other_job :: "'o job \<Rightarrow> bool" where
  "other_job j \<longleftrightarrow> (\<exists>x. j = OtherJob x)"

fun other_op :: "'o job reactor_op \<Rightarrow> bool" where
  "other_op (NewFd k fd) \<longleftrightarrow> k \<noteq> conn_bfd"
| "other_op (FreeFd k) \<longleftrightarrow> k \<noteq> conn_bfd"
| "other_op (AddFd ctl k) \<longleftrightarrow> k \<noteq> conn_bfd"
| "other_op (RemoveFd k) \<longleftrightarrow> k \<noteq> conn_bfd"
| "other_op (SetEvents k ev) \<longleftrightarrow> k \<noteq> conn_bfd"
| "other_op (NewLimit k n) \<longleftrightarrow> k \<noteq> send_limit \<and> k \<noteq> recv_limit"
| "other_op (FreeLimit k) \<longleftrightarrow> k \<noteq> send_limit \<and> k \<noteq> recv_limit"
| "other_op (IncrementLimit k) \<longleftrightarrow> k \<noteq> send_limit \<and> k \<noteq> recv_limit"
| "other_op (SetLimit k n) \<longleftrightarrow> k \<noteq> send_limit \<and> k \<noteq> recv_limit"
| "other_op (JobOp x) \<longleftrightarrow>
     (case x of PInit j \<Rightarrow> other_job j | PFree j \<Rightarrow> other_job j | PSet j \<Rightarrow> other_job j | PUnset j \<Rightarrow> other_job j | PExecute \<Rightarrow> False)"
| "other_op _ \<longleftrightarrow> True"

section \<open>The connection in the event loop\<close>

text \<open>What the operating system promises of \<open>write\<close> and \<open>read\<close>: an error that an error event announced is fetched by the next of them.\<close>

definition write_fits :: "write_answer \<Rightarrow> nat \<Rightarrow> bool" where
  "write_fits wa len \<longleftrightarrow> (case wa of Written n \<Rightarrow> 0 < n \<and> n \<le> len | _ \<Rightarrow> True)"

definition read_fits :: "read_answer \<Rightarrow> nat \<Rightarrow> bool" where
  "read_fits ra len \<longleftrightarrow> (case ra of Read bs \<Rightarrow> length bs \<le> len | _ \<Rightarrow> True)"

definition answers_ok :: "write_answer \<Rightarrow> read_answer \<Rightarrow> 'o Conn_world \<Rightarrow> bool" where
  "answers_ok wa ra s \<longleftrightarrow>
     (sock_error s \<longrightarrow> wa = WriteError \<and> ra = ReadError) \<and>
     (\<forall>c. conn s = Some c \<longrightarrow>
        write_fits wa (job_operation_len (send_iface c)) \<and> read_fits ra (job_operation_len (recv_iface c)))"

text \<open>The handlers of the jobs and of the descriptor; those of other users are other operations.\<close>

fun conn_dispatch :: "'o job dispatch \<Rightarrow> write_answer \<Rightarrow> read_answer \<Rightarrow> 'o Conn_world \<Rightarrow> 'o Conn_world option" where
  "conn_dispatch (DispatchJob SendJob) wa ra s = do { c \<leftarrow> conn s; connection_send_job_handler wa c s }"
| "conn_dispatch (DispatchJob SendOperation) wa ra s =
     do { c \<leftarrow> conn s; i \<leftarrow> Stream_job_operation (send_iface c);
          connection_send_if_handler_send (job_operation_data i) wa (c\<lparr>send_iface := i\<rparr>) s }"
| "conn_dispatch (DispatchJob SendDone) wa ra s =
     do { c \<leftarrow> conn s; i \<leftarrow> Stream_job_done (send_iface c);
          ASSERT (handler_done i)
            (Some (set_conn (c\<lparr>send_iface := i\<rparr>)
              (s\<lparr>accepted := accepted s @ take (job_done_len i) (job_operation_data i), outgoing := []\<rparr>))) }"
| "conn_dispatch (DispatchJob RecvJob) wa ra s = do { c \<leftarrow> conn s; connection_recv_job_handler ra c s }"
| "conn_dispatch (DispatchJob RecvOperation) wa ra s =
     do { c \<leftarrow> conn s; i \<leftarrow> Stream_job_operation (recv_iface c);
          connection_recv_if_handler_recv (job_operation_len i) ra (c\<lparr>recv_iface := i\<rparr>) s }"
| "conn_dispatch (DispatchJob RecvDone) wa ra s =
     do { c \<leftarrow> conn s; i \<leftarrow> Stream_job_done (recv_iface c);
          ASSERT (handler_done i)
            (Some (set_conn (c\<lparr>recv_iface := i\<rparr>)
              (s\<lparr>delivered := delivered s @ take (job_done_len i) (incoming s), incoming := []\<rparr>))) }"
| "conn_dispatch (DispatchFd k ev) wa ra s =
     (if k = conn_bfd then do { c \<leftarrow> conn s; connection_fd_handler ev wa ra c s } else Some s)"
| "conn_dispatch _ wa ra s = Some s"

text \<open>An error event for the connection announces an error of its socket.\<close>

fun error_announced :: "'o job dispatch \<Rightarrow> bool" where
  "error_announced (DispatchFd k ev) \<longleftrightarrow> k = conn_bfd \<and> ev AND BREACTOR_ERROR \<noteq> 0"
| "error_announced _ \<longleftrightarrow> False"

definition no_error :: "'o Conn_world \<Rightarrow> bool" where
  "no_error s \<longleftrightarrow> (\<forall>c. conn s = Some c \<longrightarrow> \<not> d_err c)"

inductive conn_step :: "'o Conn_world \<Rightarrow> 'o Conn_world \<Rightarrow> bool" where
  loop: "no_error s \<Longrightarrow> now_seen (reactor s) \<le> now \<Longrightarrow> epoll_ok (first_deadline (reactor s)) now as (efd (reactor s)) \<Longrightarrow>
    BReactor_iterate now as (reactor s) = Some (d, r) \<Longrightarrow> d \<noteq> StillWaiting \<Longrightarrow>
    u = s\<lparr>reactor := r, sock_error := sock_error s \<or> error_announced d\<rparr> \<Longrightarrow> answers_ok wa ra u \<Longrightarrow>
    conn_dispatch d wa ra u = Some t \<Longrightarrow> conn_step s t"
| user: "user_allowed x s \<Longrightarrow> user_do x s = Some t \<Longrightarrow> conn_step s t"
| other: "reactor_allowed y (reactor s) \<Longrightarrow> other_op y \<Longrightarrow> reactor_do y (reactor s) = Some r \<Longrightarrow> conn_step s (s\<lparr>reactor := r\<rparr>)"

definition conn_start :: "'o Conn_world \<Rightarrow> bool" where
  "conn_start s \<longleftrightarrow> reactor_start (reactor s) \<and> conn s = None"

end
