(* ===== verification/Reactor_Inv.thy ===== *)
theory Reactor_Inv
  imports Reactor
begin

text \<open>
  The invariant of the reactor: the lists of timers agree with the states of the timers, every entry of \<open>epoll_wait\<close> that was not yet
  handled and the descriptor it belongs to point to each other, and the active limits are those with a count.
\<close>

section \<open>Timers\<close>

definition time_of :: "(nat \<Rightarrow> BSmallTimer option) \<Rightarrow> nat \<Rightarrow> int" where
  "time_of ts k = absTime (the (ts k))"

definition before :: "(nat \<Rightarrow> BSmallTimer option) \<Rightarrow> nat \<Rightarrow> nat \<Rightarrow> bool" where
  "before ts a b \<longleftrightarrow> time_of ts a < time_of ts b \<or> time_of ts a = time_of ts b \<and> a < b"

definition in_state :: "timer_state \<Rightarrow> (nat \<Rightarrow> BSmallTimer option) \<Rightarrow> nat \<Rightarrow> bool" where
  "in_state st ts k \<longleftrightarrow> (\<exists>t. ts k = Some t \<and> state t = st)"

lemma compare_timers_before: "compare_timers ts a b = - 1 \<longleftrightarrow> before ts a b"
  by (auto simp: compare_timers_def before_def time_of_def Let_def B_COMPARE_cases)

definition timers_ok :: "(nat \<Rightarrow> BSmallTimer option) \<Rightarrow> nat list \<Rightarrow> nat list \<Rightarrow> int \<Rightarrow> bool" where
  "timers_ok ts tree ex now \<longleftrightarrow>
     distinct tree \<and> distinct ex \<and>
     (\<forall>k. k \<in> set tree \<longleftrightarrow> in_state TIMER_STATE_RUNNING ts k) \<and>
     (\<forall>k. k \<in> set ex \<longleftrightarrow> in_state TIMER_STATE_EXPIRED ts k) \<and>
     sorted_wrt (before ts) tree \<and> sorted_wrt (before ts) ex \<and> (\<forall>k\<in>set ex. time_of ts k \<le> now) \<and>
     (\<forall>k t. ts k = Some t \<longrightarrow> is_int64 (absTime t))"

lemma timers_ok_later: "timers_ok ts tree ex now \<Longrightarrow> now \<le> now' \<Longrightarrow> timers_ok ts tree ex now'"
  by (auto simp: timers_ok_def)

lemma before_trans: "before ts a b \<Longrightarrow> before ts b c \<Longrightarrow> before ts a c"
  by (auto simp: before_def)

lemma before_total: "a \<noteq> b \<Longrightarrow> \<not> before ts a b \<Longrightarrow> before ts b a"
  by (auto simp: before_def)

text \<open>A change of one timer's entry, seen from the other timers.\<close>

lemma in_state_upd: "in_state st (ts(k := v)) j = (if j = k then \<exists>t. v = Some t \<and> state t = st else in_state st ts j)"
  by (auto simp: in_state_def)

lemma sorted_before_upd:
  "k \<notin> set xs \<Longrightarrow> sorted_wrt (before (ts(k := v))) xs = sorted_wrt (before ts) xs"
  by (induction xs) (auto simp: before_def time_of_def)

lemma before_state: "ts k = Some t \<Longrightarrow> before (ts(k := Some (t\<lparr>state := st\<rparr>))) = before ts"
  by (intro ext) (auto simp: before_def time_of_def)

lemma time_of_state: "ts k = Some t \<Longrightarrow> time_of (ts(k := Some (t\<lparr>state := st\<rparr>))) = time_of ts"
  by (intro ext) (auto simp: time_of_def)

lemma timers_ok_absent:
  "timers_ok ts tree ex now \<Longrightarrow> \<not> in_state TIMER_STATE_RUNNING ts k \<Longrightarrow> k \<notin> set tree"
  "timers_ok ts tree ex now \<Longrightarrow> \<not> in_state TIMER_STATE_EXPIRED ts k \<Longrightarrow> k \<notin> set ex"
  by (auto simp: timers_ok_def)

lemma timers_ok_running: "timers_ok ts tree ex now \<Longrightarrow> k \<in> set tree \<Longrightarrow> \<exists>t. ts k = Some t \<and> state t = TIMER_STATE_RUNNING"
  by (simp add: timers_ok_def in_state_def)

lemma timers_ok_expired: "timers_ok ts tree ex now \<Longrightarrow> k \<in> set ex \<Longrightarrow> \<exists>t. ts k = Some t \<and> state t = TIMER_STATE_EXPIRED"
  by (simp add: timers_ok_def in_state_def)

text \<open>A timer that is in no list can be replaced by one that is inactive, or freed.\<close>

lemma timers_ok_idle:
  assumes "timers_ok ts tree ex now" "\<not> in_state TIMER_STATE_RUNNING ts k" "\<not> in_state TIMER_STATE_EXPIRED ts k"
    and "v = None \<or> (\<exists>t. v = Some t \<and> state t = TIMER_STATE_INACTIVE \<and> is_int64 (absTime t))"
  shows "timers_ok (ts(k := v)) tree ex now"
proof -
  have k: "k \<notin> set tree" "k \<notin> set ex" using timers_ok_absent [OF assms(1)] assms(2,3) by auto
  then have "time_of (ts(k := v)) j = time_of ts j" if "j \<in> set ex" for j
    using that by (auto simp: time_of_def)
  then show ?thesis
    using assms k by (auto simp: timers_ok_def in_state_upd sorted_before_upd)
qed

text \<open>A timer leaves its list and becomes inactive.\<close>

lemma timers_ok_remove:
  assumes "timers_ok ts tree ex now" "ts k = Some t"
  shows "timers_ok (ts(k := Some (t\<lparr>state := TIMER_STATE_INACTIVE\<rparr>))) (remove1 k tree) (remove1 k ex) now"
proof -
  have "sorted_wrt (before ts) (remove1 k tree)" "sorted_wrt (before ts) (remove1 k ex)"
    using assms(1) by (auto simp: timers_ok_def distinct_remove1_removeAll removeAll_filter_not_eq sorted_wrt_filter)
  then show ?thesis
    using assms by (auto simp: timers_ok_def in_state_upd before_state time_of_state)
qed

lemma insert_between:
  "set (takeWhile p xs @ k # dropWhile p xs) = insert k (set xs)"
  "distinct xs \<Longrightarrow> k \<notin> set xs \<Longrightarrow> distinct (takeWhile p xs @ k # dropWhile p xs)"
proof -
  show "set (takeWhile p xs @ k # dropWhile p xs) = insert k (set xs)"
    using takeWhile_dropWhile_id [of p xs] set_append [of "takeWhile p xs" "dropWhile p xs"] by simp
  show "distinct (takeWhile p xs @ k # dropWhile p xs)" if "distinct xs" "k \<notin> set xs"
    using that takeWhile_dropWhile_id [of p xs] distinct_append [of "takeWhile p xs" "dropWhile p xs"]
    by (auto dest: set_takeWhileD set_dropWhileD)
qed

lemma timers_ok_insert:
  assumes ok: "timers_ok ts tree ex now" and k: "ts k = Some t" "state t = TIMER_STATE_INACTIVE"
    and a: "is_int64 a" and ts': "ts' = ts(k := Some (t\<lparr>absTime := a, state := TIMER_STATE_RUNNING\<rparr>))"
  shows "timers_ok ts' (TimersTree_Insert ts' k tree) ex now" "k \<notin> set tree"
proof -
  have nk: "k \<notin> set tree" "k \<notin> set ex" using timers_ok_absent [OF ok] k by (auto simp: in_state_def)
  then show "k \<notin> set tree" by simp
  let ?p = "\<lambda>j. before ts' j k"
  have srt: "sorted_wrt (before ts') tree" "sorted_wrt (before ts') ex"
    using ok nk by (simp_all add: timers_ok_def ts' sorted_before_upd)
  have tree: "TimersTree_Insert ts' k tree = takeWhile ?p tree @ k # dropWhile ?p tree"
    by (simp add: TimersTree_Insert_def compare_timers_before)
  have split: "takeWhile ?p tree @ dropWhile ?p tree = tree" by simp
  have after: "before ts' k j" if "j \<in> set (dropWhile ?p tree)" for j
  proof -
    have "dropWhile ?p tree \<noteq> []" using that by (metis list.set(1) empty_iff)
    then obtain x xs where x: "dropWhile ?p tree = x # xs" by (meson neq_Nil_conv)
    then have "\<not> ?p x" by (metis hd_dropWhile list.distinct(1) list.sel(1))
    moreover have "x \<noteq> k" using nk x set_dropWhileD [of x ?p tree] by auto
    ultimately have kx: "before ts' k x" by (rule before_total [rotated])
    have "sorted_wrt (before ts') (x # xs)" using srt(1) split x by (metis sorted_wrt_append)
    then show ?thesis using that x kx before_trans by auto
  qed
  have "sorted_wrt (before ts') (takeWhile ?p tree @ k # dropWhile ?p tree)"
    using srt(1) after sorted_wrt_append [of "before ts'" "takeWhile ?p tree" "dropWhile ?p tree"]
    by (auto simp: sorted_wrt_append dest: set_takeWhileD)
  moreover have "set (TimersTree_Insert ts' k tree) = insert k (set tree)" "distinct (TimersTree_Insert ts' k tree)"
    unfolding TimersTree_Insert_def by (rule insert_between(1)) (rule insert_between(2), use ok nk in \<open>auto simp: timers_ok_def\<close>)
  moreover have "time_of ts' j = time_of ts j" if "j \<in> set ex" for j using that nk by (auto simp: time_of_def ts')
  ultimately show "timers_ok ts' (TimersTree_Insert ts' k tree) ex now"
    using ok nk srt tree k a by (auto simp: timers_ok_def ts' in_state_upd)
qed

text \<open>The first timers of the tree move to the end of the list of expired ones.\<close>

definition ahead :: "(nat \<Rightarrow> BSmallTimer option) \<Rightarrow> nat list \<Rightarrow> nat list \<Rightarrow> bool" where
  "ahead ts ex tree \<longleftrightarrow> (\<forall>e\<in>set ex. \<forall>k\<in>set tree. before ts e k)"

lemma timers_ok_expire:
  assumes ok: "timers_ok ts (k # tree) ex now" and t: "ts k = Some t" and now: "time_of ts k \<le> now"
    and ah: "ahead ts ex (k # tree)"
  shows "timers_ok (ts(k := Some (t\<lparr>state := TIMER_STATE_EXPIRED\<rparr>))) tree (ex @ [k]) now"
    "ahead (ts(k := Some (t\<lparr>state := TIMER_STATE_EXPIRED\<rparr>))) (ex @ [k]) tree"
proof -
  have st: "state t = TIMER_STATE_RUNNING" "k \<notin> set tree"
    using timers_ok_running [OF ok, of k] ok t by (auto simp: timers_ok_def)
  then have "k \<notin> set ex" using timers_ok_absent(2) [OF ok] t by (auto simp: in_state_def)
  then show "timers_ok (ts(k := Some (t\<lparr>state := TIMER_STATE_EXPIRED\<rparr>))) tree (ex @ [k]) now"
    using ok ah st t now
    by (auto simp: timers_ok_def in_state_upd before_state time_of_state sorted_wrt_append ahead_def)
  show "ahead (ts(k := Some (t\<lparr>state := TIMER_STATE_EXPIRED\<rparr>))) (ex @ [k]) tree"
    using ok ah t by (auto simp: ahead_def before_state timers_ok_def)
qed

text \<open>The part of the state that the timers do not use.\<close>

definition same_rest :: "'j BReactor \<Rightarrow> 'j BReactor \<Rightarrow> bool" where
  "same_rest s t \<longleftrightarrow>
     exiting t = exiting s \<and> exit_code t = exit_code s \<and> pending_jobs t = pending_jobs s \<and>
     active_limits_list t = active_limits_list s \<and> epoll_results t = epoll_results s \<and>
     epoll_results_pos t = epoll_results_pos s \<and> efd t = efd s \<and> fds t = fds s \<and> limits t = limits s \<and> now_seen t = now_seen s"

definition timers_inv :: "'j BReactor \<Rightarrow> bool" where
  "timers_inv s \<longleftrightarrow> timers_ok (timers s) (timers_tree s) (timers_expired_list s) (now_seen s)"

lemma same_rest_refl [simp]: "same_rest s s"
  by (simp add: same_rest_def)

lemma same_rest_trans: "same_rest s t \<Longrightarrow> same_rest t u \<Longrightarrow> same_rest s u"
  by (simp add: same_rest_def)

lemma expire_timer_ok:
  assumes "timers_inv s" "timers_tree s = k # ks" "time_of (timers s) k \<le> now_seen s"
    "ahead (timers s) (timers_expired_list s) (timers_tree s)"
  shows "\<exists>s'. expire_timer k s = Some s' \<and> timers_inv s' \<and> ahead (timers s') (timers_expired_list s') (timers_tree s') \<and>
    timers_tree s' = ks \<and> same_rest s s' \<and> timers_expired_list s' = timers_expired_list s @ [k] \<and>
    time_of (timers s') = time_of (timers s)"
proof -
  have "in_state TIMER_STATE_RUNNING (timers s) k" using assms(1,2) by (auto simp: timers_inv_def timers_ok_def)
  then obtain t where t: "timers s k = Some t" by (auto simp: in_state_def)
  have ok: "timers_ok (timers s) (k # ks) (timers_expired_list s) (now_seen s)"
    using assms(1,2) by (simp add: timers_inv_def)
  show ?thesis
    using timers_ok_expire [OF ok t assms(3)] assms(2,4) t
    by (auto simp: expire_timer_def set_timer_state_def timers_inv_def time_of_state same_rest_def)
qed

text \<open>
  \<open>move_timers\<close> moves exactly the timers up to the given time, and does not fail.
\<close>

lemma move_timers_ok:
  assumes "timers_inv s" "now \<le> now_seen s" "ahead (timers s) (timers_expired_list s) (timers_tree s)"
  shows "\<exists>m s'. move_timers now moved s = Some (m, s') \<and> timers_inv s' \<and> same_rest s s' \<and>
    (m \<longleftrightarrow> moved \<or> timers_tree s \<noteq> [] \<and> time_of (timers s) (hd (timers_tree s)) \<le> now) \<and>
    (\<not> m \<longrightarrow> s' = s) \<and> (timers_expired_list s \<noteq> [] \<or> m \<and> \<not> moved \<longrightarrow> timers_expired_list s' \<noteq> [])"
  using assms
proof (induction now moved s rule: move_timers.induct)
  case (1 now moved s)
  show ?case
  proof (cases "timers_tree s")
    case Nil
    then show ?thesis using 1(2) by (simp add: move_timers.simps [of now moved s])
  next
    case (Cons k ks)
    have "in_state TIMER_STATE_RUNNING (timers s) k" using 1(2) Cons by (auto simp: timers_inv_def timers_ok_def)
    then obtain t where t: "timers s k = Some t" "state t = TIMER_STATE_RUNNING" by (auto simp: in_state_def)
    show ?thesis
    proof (cases "absTime t > now")
      case True
      then show ?thesis using Cons t 1(2) by (simp add: move_timers.simps [of now moved s] time_of_def)
    next
      case False
      then have "time_of (timers s) k \<le> now_seen s" using t 1(3) by (simp add: time_of_def)
      from expire_timer_ok [OF 1(2) Cons this 1(4)] obtain s1 where
        s1: "expire_timer k s = Some s1" "timers_inv s1" "ahead (timers s1) (timers_expired_list s1) (timers_tree s1)" "same_rest s s1"
        "timers_expired_list s1 \<noteq> []"
        by auto
      moreover have "now \<le> now_seen s1" using s1(4) 1(3) by (auto simp: same_rest_def)
      ultimately have "\<exists>m s'. move_timers now True s1 = Some (m, s') \<and> timers_inv s' \<and> same_rest s1 s' \<and> m \<and> timers_expired_list s' \<noteq> []"
        using 1(1) [OF Cons t(1,2) False s1(1)] by auto
      then show ?thesis
        using Cons t False s1(1) same_rest_trans [OF s1(4)] by (auto simp: move_timers.simps [of now moved s] time_of_def)
    qed
  qed
qed

lemma move_first_timers_ok:
  assumes "timers_inv s" "timers_tree s = k # ks" "time_of (timers s) k \<le> now_seen s" "timers_expired_list s = []"
  shows "\<exists>s'. move_first_timers s = Some s' \<and> timers_inv s' \<and> same_rest s s' \<and> timers_expired_list s' \<noteq> []"
proof -
  obtain t where t: "timers s k = Some t" "state t = TIMER_STATE_RUNNING"
    using timers_ok_running assms(1,2) unfolding timers_inv_def by fastforce
  obtain s1 where s1: "expire_timer k s = Some s1" "timers_inv s1" "ahead (timers s1) (timers_expired_list s1) (timers_tree s1)"
    "same_rest s s1" "timers_expired_list s1 \<noteq> []"
    using expire_timer_ok [OF assms(1-3)] assms(4) by (auto simp: ahead_def)
  have "absTime t \<le> now_seen s1" using assms(3) t s1(4) by (simp add: time_of_def same_rest_def)
  from move_timers_ok [OF s1(2) this s1(3), of True] obtain m s2 where
    "move_timers (absTime t) True s1 = Some (m, s2)" "timers_inv s2" "same_rest s1 s2" "timers_expired_list s2 \<noteq> []"
    using s1(5) by blast
  then show ?thesis
    using assms(2) t s1(1) same_rest_trans [OF s1(4)] by (auto simp: move_first_timers_def)
qed

section \<open>File descriptors\<close>

definition fds_ok :: "(nat \<Rightarrow> BFileDescriptor option) \<Rightarrow> (nat option \<times> u32) list \<Rightarrow> nat \<Rightarrow> bool" where
  "fds_ok fs rs pos \<longleftrightarrow>
     pos \<le> length rs \<and>
     (\<forall>i k. pos \<le> i \<longrightarrow> i < length rs \<longrightarrow> fst (rs ! i) = Some k \<longrightarrow>
        (\<exists>b. fs k = Some b \<and> active b \<and> epoll_returned_ptr b = Some i)) \<and>
     (\<forall>k b i. fs k = Some b \<longrightarrow> active b \<longrightarrow> epoll_returned_ptr b = Some i \<longrightarrow>
        pos \<le> i \<and> i < length rs \<and> fst (rs ! i) = Some k)"

lemma fds_okD:
  assumes "fds_ok fs rs pos"
  shows "\<And>i k. pos \<le> i \<Longrightarrow> i < length rs \<Longrightarrow> fst (rs ! i) = Some k \<Longrightarrow> \<exists>b. fs k = Some b \<and> active b \<and> epoll_returned_ptr b = Some i"
    "\<And>k b i. fs k = Some b \<Longrightarrow> active b \<Longrightarrow> epoll_returned_ptr b = Some i \<Longrightarrow> pos \<le> i \<and> i < length rs \<and> fst (rs ! i) = Some k"
  using assms by (auto simp: fds_ok_def)

text \<open>A descriptor that is not active can be replaced.\<close>

lemma fds_ok_inactive:
  assumes "fds_ok fs rs pos" "\<forall>b. fs k = Some b \<longrightarrow> \<not> active b"
    "\<forall>b. v = Some b \<longrightarrow> \<not> active b \<or> epoll_returned_ptr b = None"
  shows "fds_ok (fs(k := v)) rs pos"
  using assms by (auto simp: fds_ok_def) blast+

lemma fds_ok_events:
  assumes "fds_ok fs rs pos" "fs k = Some b"
  shows "fds_ok (fs(k := Some (b\<lparr>waitEvents := ev\<rparr>))) rs pos"
  using assms by (auto simp: fds_ok_def)

lemma fds_okI:
  assumes "pos \<le> length rs"
    "\<And>i k. pos \<le> i \<Longrightarrow> i < length rs \<Longrightarrow> fst (rs ! i) = Some k \<Longrightarrow> \<exists>b. fs k = Some b \<and> active b \<and> epoll_returned_ptr b = Some i"
    "\<And>k b i. fs k = Some b \<Longrightarrow> active b \<Longrightarrow> epoll_returned_ptr b = Some i \<Longrightarrow> pos \<le> i \<and> i < length rs \<and> fst (rs ! i) = Some k"
  shows "fds_ok fs rs pos"
  using assms by (simp add: fds_ok_def)

lemma fds_ok_in_range: "fds_ok fs rs pos \<Longrightarrow> fs k = Some b \<Longrightarrow> active b \<Longrightarrow> epoll_returned_ptr b = Some i \<Longrightarrow> i < length rs"
  using fds_okD(2) by blast

text \<open>The entry of a descriptor that is removed is cleared.\<close>

lemma fds_ok_remove:
  assumes ok: "fds_ok fs rs pos" and b: "fs k = Some b" "active b"
    and rs': "rs' = (case epoll_returned_ptr b of None \<Rightarrow> rs | Some i \<Rightarrow> rs[i := (None, snd (rs ! i))])"
  shows "fds_ok (fs(k := Some (b\<lparr>active := False\<rparr>))) rs' pos"
proof (rule fds_okI)
  show "pos \<le> length rs'" using ok by (auto simp: rs' fds_ok_def split: option.splits)
next
  fix i j assume i: "pos \<le> i" "i < length rs'" "fst (rs' ! i) = Some j"
  then have "i < length rs" "fst (rs ! i) = Some j"
    using fds_ok_in_range [OF ok b] by (auto simp: rs' nth_list_update split: option.splits if_splits)
  from fds_okD(1) [OF ok i(1) this] obtain c where c: "fs j = Some c" "active c" "epoll_returned_ptr c = Some i" by blast
  have "j \<noteq> k" using c b i(2,3) \<open>i < length rs\<close> by (auto simp: rs')
  then show "\<exists>c. (fs(k := Some (b\<lparr>active := False\<rparr>))) j = Some c \<and> active c \<and> epoll_returned_ptr c = Some i"
    using c by simp
next
  fix j c i assume c: "(fs(k := Some (b\<lparr>active := False\<rparr>))) j = Some c" "active c" "epoll_returned_ptr c = Some i"
  then have jk: "j \<noteq> k" "fs j = Some c" by (auto split: if_splits)
  have i: "pos \<le> i" "i < length rs" "fst (rs ! i) = Some j" using fds_okD(2) [OF ok jk(2) c(2,3)] by auto
  have "epoll_returned_ptr b \<noteq> Some i" using fds_okD(2) [OF ok b] i(3) jk(1) by auto
  then show "pos \<le> i \<and> i < length rs' \<and> fst (rs' ! i) = Some j"
    using i fds_ok_in_range [OF ok b] by (auto simp: rs' nth_list_update split: option.splits)
qed

text \<open>The next entry is taken.\<close>

lemma fds_ok_skip:
  assumes ok: "fds_ok fs rs pos" and pos: "pos < length rs" "fst (rs ! pos) = None"
  shows "fds_ok fs rs (pos + 1)"
proof (rule fds_okI)
  fix k b i assume b: "fs k = Some b" "active b" "epoll_returned_ptr b = Some i"
  from fds_okD(2) [OF ok this] pos(2) show "pos + 1 \<le> i \<and> i < length rs \<and> fst (rs ! i) = Some k"
    by (cases "i = pos") auto
qed (use pos fds_okD(1) [OF ok] in auto)

lemma fds_ok_take:
  assumes ok: "fds_ok fs rs pos" and pos: "pos < length rs" "fst (rs ! pos) = Some k" and b: "fs k = Some b"
  shows "fds_ok (fs(k := Some (b\<lparr>epoll_returned_ptr := None\<rparr>))) rs (pos + 1)"
proof (rule fds_okI)
  fix i j assume i: "pos + 1 \<le> i" "i < length rs" "fst (rs ! i) = Some j"
  then obtain c where c: "fs j = Some c" "active c" "epoll_returned_ptr c = Some i" using fds_okD(1) [OF ok, of i j] by auto
  moreover have "j \<noteq> k" using fds_okD(1) [OF ok _ pos] b c i(1) by auto
  ultimately show "\<exists>c. (fs(k := Some (b\<lparr>epoll_returned_ptr := None\<rparr>))) j = Some c \<and> active c \<and> epoll_returned_ptr c = Some i"
    by simp
next
  fix j c i assume c: "(fs(k := Some (b\<lparr>epoll_returned_ptr := None\<rparr>))) j = Some c" "active c" "epoll_returned_ptr c = Some i"
  then have jk: "j \<noteq> k" "fs j = Some c" by (auto split: if_splits)
  from fds_okD(2) [OF ok jk(2) c(2,3)] pos(2) jk(1) show "pos + 1 \<le> i \<and> i < length rs \<and> fst (rs ! i) = Some j"
    by (cases "i = pos") auto
qed (use pos in auto)

definition registered :: "'j BReactor \<Rightarrow> nat \<Rightarrow> bool" where
  "registered s k \<longleftrightarrow> (\<exists>b. fds s k = Some b \<and> active b)"

text \<open>The kernel's interest list has the active descriptors, each with the events it waits for.\<close>

definition efd_ok :: "(int \<Rightarrow> (nat \<times> u32) option) \<Rightarrow> (nat \<Rightarrow> BFileDescriptor option) \<Rightarrow> bool" where
  "efd_ok interest fs \<longleftrightarrow>
     (\<forall>f k ev. interest f = Some (k, ev) \<longleftrightarrow>
        (\<exists>b. fs k = Some b \<and> active b \<and> bfd_fd b = f \<and> ev = epoll_mask (waitEvents b)))"

lemma efd_okD:
  assumes "efd_ok interest fs"
  shows "interest f = Some (k, ev) \<Longrightarrow> \<exists>b. fs k = Some b \<and> active b \<and> bfd_fd b = f \<and> ev = epoll_mask (waitEvents b)"
    "fs k = Some b \<Longrightarrow> active b \<Longrightarrow> interest (bfd_fd b) = Some (k, epoll_mask (waitEvents b))"
  using assms unfolding efd_ok_def by blast+

lemma efd_okI:
  assumes "\<And>f k ev. interest f = Some (k, ev) \<Longrightarrow> \<exists>b. fs k = Some b \<and> active b \<and> bfd_fd b = f \<and> ev = epoll_mask (waitEvents b)"
    and "\<And>k b. fs k = Some b \<Longrightarrow> active b \<Longrightarrow> interest (bfd_fd b) = Some (k, epoll_mask (waitEvents b))"
  shows "efd_ok interest fs"
  using assms unfolding efd_ok_def by blast

definition interest_of :: "BFileDescriptor \<Rightarrow> int \<times> bool \<times> u32" where
  "interest_of b = (bfd_fd b, active b, waitEvents b)"

lemma efd_ok_same:
  assumes "efd_ok interest fs" "map_option interest_of \<circ> gs = map_option interest_of \<circ> fs"
  shows "efd_ok interest gs"
proof -
  have same: "map_option interest_of (gs k) = map_option interest_of (fs k)" for k
    using assms(2) by (metis comp_apply)
  show ?thesis
  proof (rule efd_okI)
    fix f k ev assume "interest f = Some (k, ev)"
    from efd_okD(1) [OF assms(1) this] same [of k]
    show "\<exists>b. gs k = Some b \<and> active b \<and> bfd_fd b = f \<and> ev = epoll_mask (waitEvents b)"
      by (auto simp: interest_of_def)
  next
    fix k b assume "gs k = Some b" "active b"
    with efd_okD(2) [OF assms(1), of k] same [of k] show "interest (bfd_fd b) = Some (k, epoll_mask (waitEvents b))"
      by (cases "fs k") (auto simp: interest_of_def)
  qed
qed

lemma efd_ok_inactive:
  assumes "efd_ok interest fs" "\<forall>b. fs k = Some b \<longrightarrow> \<not> active b" "\<forall>b. v = Some b \<longrightarrow> \<not> active b"
  shows "efd_ok interest (fs(k := v))"
  using efd_okD [OF assms(1)] assms(2,3) by (intro efd_okI) (fastforce split: if_splits)+

lemma efd_ok_add:
  assumes "efd_ok interest fs" "interest (bfd_fd b) = None" "\<forall>b. fs k = Some b \<longrightarrow> \<not> active b" "active b"
  shows "efd_ok (interest(bfd_fd b \<mapsto> (k, epoll_mask (waitEvents b)))) (fs(k := Some b))"
proof (rule efd_okI)
  fix f j ev assume "(interest(bfd_fd b \<mapsto> (k, epoll_mask (waitEvents b)))) f = Some (j, ev)"
  then show "\<exists>c. (fs(k := Some b)) j = Some c \<and> active c \<and> bfd_fd c = f \<and> ev = epoll_mask (waitEvents c)"
    using efd_okD(1) [OF assms(1), of f j ev] assms(3,4) by (auto split: if_splits)
next
  fix j c assume "(fs(k := Some b)) j = Some c" "active c"
  then show "(interest(bfd_fd b \<mapsto> (k, epoll_mask (waitEvents b)))) (bfd_fd c) = Some (j, epoll_mask (waitEvents c))"
    using efd_okD(2) [OF assms(1), of j c] assms(2) by (auto split: if_splits)
qed

lemma efd_ok_remove:
  assumes "efd_ok interest fs" "fs k = Some b" "active b" "\<not> active b'"
  shows "efd_ok (interest(bfd_fd b := None)) (fs(k := Some b'))"
proof (rule efd_okI)
  have b: "interest (bfd_fd b) = Some (k, epoll_mask (waitEvents b))" by (rule efd_okD(2) [OF assms(1-3)])
  fix f j ev assume "(interest(bfd_fd b := None)) f = Some (j, ev)"
  then show "\<exists>c. (fs(k := Some b')) j = Some c \<and> active c \<and> bfd_fd c = f \<and> ev = epoll_mask (waitEvents c)"
    using efd_okD(1) [OF assms(1), of f j ev] assms(2) by (auto split: if_splits)
next
  have b: "interest (bfd_fd b) = Some (k, epoll_mask (waitEvents b))" by (rule efd_okD(2) [OF assms(1-3)])
  fix j c assume "(fs(k := Some b')) j = Some c" "active c"
  then show "(interest(bfd_fd b := None)) (bfd_fd c) = Some (j, epoll_mask (waitEvents c))"
    using efd_okD(2) [OF assms(1), of j c] assms(4) b by (auto split: if_splits)
qed

lemma efd_ok_events:
  assumes "efd_ok interest fs" "fs k = Some b" "active b"
  shows "efd_ok (interest(bfd_fd b \<mapsto> (k, epoll_mask ev))) (fs(k := Some (b\<lparr>waitEvents := ev\<rparr>)))"
proof -
  have "efd_ok (interest(bfd_fd b := None)) (fs(k := Some (b\<lparr>active := False\<rparr>)))"
    by (rule efd_ok_remove [OF assms]) simp
  from efd_ok_add [OF this, of "b\<lparr>waitEvents := ev\<rparr>" k] show ?thesis
    using assms(3) by simp
qed

text \<open>
  \<open>set_epoll_fd_pointers\<close> on the entries from \<open>i\<close> on, when the earlier ones are done.
\<close>

lemma set_pointers_ok:
  assumes "\<forall>j < i. \<exists>k b. fst (rs ! j) = Some k \<and> fds s k = Some b \<and> active b \<and> epoll_returned_ptr b = Some j"
    and "\<forall>k b j. fds s k = Some b \<longrightarrow> active b \<longrightarrow> epoll_returned_ptr b = Some j \<longrightarrow> j < i \<and> fst (rs ! j) = Some k"
    and "rs = qs @ map (\<lambda>(k, ev). (Some k, ev)) ks" "length qs = i"
    and "distinct (map fst rs)" "\<forall>k\<in>set (map fst ks). registered s k"
  shows "\<exists>fs. set_epoll_fd_pointers i (map (\<lambda>(k, ev). (Some k, ev)) ks) s = Some (s\<lparr>fds := fs\<rparr>) \<and> fds_ok fs rs 0 \<and>
    map_option interest_of \<circ> fs = map_option interest_of \<circ> fds s"
  using assms
proof (induction ks arbitrary: i qs s)
  case Nil
  then have "fds_ok (fds s) rs 0" by (fastforce simp: fds_ok_def)
  then show ?case by (intro exI [of _ "fds s"]) simp
next
  case (Cons x ks)
  obtain k ev where x: "x = (k, ev)" by (cases x)
  obtain b where b: "fds s k = Some b" "active b" using Cons.prems(6) x by (auto simp: registered_def)
  have i: "rs ! i = (Some k, ev)" "i < length rs" using Cons.prems(3,4) x by (auto simp: nth_append)
  have new: "epoll_returned_ptr b = None"
  proof (rule ccontr)
    assume "epoll_returned_ptr b \<noteq> None"
    then obtain j where "epoll_returned_ptr b = Some j" by auto
    then have "j < i" "fst (rs ! j) = Some k" using Cons.prems(2) b by blast+
    then show False using Cons.prems(5) i nth_eq_iff_index_eq [of "map fst rs" i j] by auto
  qed
  let ?s = "set_fd k (b\<lparr>epoll_returned_ptr := Some i\<rparr>) s"
  have "\<exists>fs. set_epoll_fd_pointers (i + 1) (map (\<lambda>(k, ev). (Some k, ev)) ks) ?s = Some (?s\<lparr>fds := fs\<rparr>) \<and> fds_ok fs rs 0 \<and>
      map_option interest_of \<circ> fs = map_option interest_of \<circ> fds ?s"
  proof (rule Cons.IH [of "i + 1" _ "qs @ [(Some k, ev)]"])
    show "rs = (qs @ [(Some k, ev)]) @ map (\<lambda>(k, ev). (Some k, ev)) ks" "length (qs @ [(Some k, ev)]) = i + 1" "distinct (map fst rs)"
      using Cons.prems x by simp_all
    show "\<forall>k\<in>set (map fst ks). registered ?s k" using Cons.prems(6) b by (auto simp: registered_def set_fd_def)
    show "\<forall>j<i + 1. \<exists>k b. fst (rs ! j) = Some k \<and> fds ?s k = Some b \<and> active b \<and> epoll_returned_ptr b = Some j"
      using Cons.prems(1) i b new by (fastforce simp: set_fd_def less_Suc_eq)
    show "\<forall>k' b' j. fds ?s k' = Some b' \<longrightarrow> active b' \<longrightarrow> epoll_returned_ptr b' = Some j \<longrightarrow> j < i + 1 \<and> fst (rs ! j) = Some k'"
      using Cons.prems(2) i by (auto simp: set_fd_def less_Suc_eq)
  qed
  moreover have "map_option interest_of \<circ> fds ?s = map_option interest_of \<circ> fds s"
    using b by (intro ext) (auto simp: set_fd_def interest_of_def)
  ultimately obtain fs where "set_epoll_fd_pointers (i + 1) (map (\<lambda>(k, ev). (Some k, ev)) ks) ?s = Some (?s\<lparr>fds := fs\<rparr>)"
    "fds_ok fs rs 0" "map_option interest_of \<circ> fs = map_option interest_of \<circ> fds s" by auto
  then show ?case using b new x by (intro exI [of _ fs]) (simp add: set_fd_def)
qed

section \<open>Limits\<close>

definition limits_ok :: "(nat \<Rightarrow> BReactorLimit option) \<Rightarrow> nat list \<Rightarrow> bool" where
  "limits_ok ls xs \<longleftrightarrow>
     distinct xs \<and> (\<forall>k. k \<in> set xs \<longleftrightarrow> (\<exists>l. ls k = Some l \<and> 0 < count l)) \<and> (\<forall>k l. ls k = Some l \<longrightarrow> 0 \<le> count l)"

lemma limits_ok_active: "limits_ok ls xs \<Longrightarrow> k \<in> set xs \<Longrightarrow> \<exists>l. ls k = Some l \<and> 0 < count l"
  by (simp add: limits_ok_def)

lemma reset_limits_ok:
  assumes "limits_ok (limits s) (active_limits_list s)"
  shows "\<exists>ls. reset_limits (active_limits_list s) s = Some (s\<lparr>limits := ls, active_limits_list := []\<rparr>) \<and> limits_ok ls []"
  using assms
proof (induction "active_limits_list s" arbitrary: s)
  case Nil
  then show ?case by (intro exI [of _ "limits s"]) (cases s, simp)
next
  case (Cons k ks)
  obtain l where l: "limits s k = Some l" "0 < count l"
    using limits_ok_active [OF Cons.prems, of k] by (auto simp flip: Cons.hyps(2))
  let ?s = "s\<lparr>limits := (limits s)(k := Some (l\<lparr>count := 0\<rparr>)), active_limits_list := ks\<rparr>"
  have "limits_ok (limits ?s) (active_limits_list ?s)"
    using Cons.prems Cons.hyps(2) [symmetric] l by (auto simp: limits_ok_def)
  then have "\<exists>ls. reset_limits ks ?s = Some (?s\<lparr>limits := ls, active_limits_list := []\<rparr>) \<and> limits_ok ls []"
    using Cons.hyps(1) [of ?s] by simp
  then show ?case
    using l by (auto simp flip: Cons.hyps(2))
qed

lemma limits_ok_free: "limits_ok ls xs \<Longrightarrow> limits_ok (ls(k := None)) (remove1 k xs)"
  by (auto simp: limits_ok_def)

lemma limits_ok_idle: "limits_ok ls xs \<Longrightarrow> ls k = Some l \<Longrightarrow> \<not> 0 < count l \<Longrightarrow> k \<notin> set xs"
  by (auto simp: limits_ok_def)

lemma limits_ok_new: "limits_ok ls xs \<Longrightarrow> ls k = None \<Longrightarrow> limits_ok (ls(k := Some \<lparr>limit = n, count = 0\<rparr>)) xs"
  by (auto simp: limits_ok_def)

lemma limits_ok_limit: "limits_ok ls xs \<Longrightarrow> ls k = Some l \<Longrightarrow> limits_ok (ls(k := Some (l\<lparr>limit := n\<rparr>))) xs"
  by (auto simp: limits_ok_def)

lemma limits_ok_increment:
  assumes "limits_ok ls xs" "ls k = Some l"
  shows "limits_ok (ls(k := Some (l\<lparr>count := count l + 1\<rparr>))) (if count l = 0 then xs @ [k] else xs)"
proof -
  have "0 \<le> count l" "k \<in> set xs \<longleftrightarrow> 0 < count l" using assms by (auto simp: limits_ok_def)
  then have "count l = 0 \<and> k \<notin> set xs \<or> 0 < count l \<and> k \<in> set xs" by linarith
  then show ?thesis using assms by (elim disjE) (auto simp: limits_ok_def)
qed

section \<open>The invariant\<close>

definition reactor_inv :: "'j BReactor \<Rightarrow> bool" where
  "reactor_inv s \<longleftrightarrow>
     timers_inv s \<and> fds_ok (fds s) (epoll_results s) (epoll_results_pos s) \<and> efd_ok (efd s) (fds s) \<and>
     limits_ok (limits s) (active_limits_list s) \<and> pending_wf (pending_jobs s) \<and> 0 \<le> now_seen s"

lemma reactor_inv_init: "reactor_start s \<Longrightarrow> reactor_inv s"
  by (auto simp: reactor_start_def reactor_inv_def BReactor_Init_def timers_inv_def timers_ok_def in_state_def
      fds_ok_def efd_ok_def limits_ok_def pending_wf_init)

lemma reactor_invD:
  assumes "reactor_inv s"
  shows "timers_ok (timers s) (timers_tree s) (timers_expired_list s) (now_seen s)"
    "fds_ok (fds s) (epoll_results s) (epoll_results_pos s)" "efd_ok (efd s) (fds s)"
    "limits_ok (limits s) (active_limits_list s)" "pending_wf (pending_jobs s)" "0 \<le> now_seen s"
  using assms by (auto simp: reactor_inv_def timers_inv_def)

text \<open>The operations on timers.\<close>

lemma BReactor_RemoveSmallTimer_ok:
  assumes ok: "timers_inv s" and t: "timers s k = Some t"
  shows "\<exists>s'. BReactor_RemoveSmallTimer k s = Some s' \<and> timers_inv s' \<and> same_rest s s' \<and>
    timers s' k = Some (t\<lparr>state := TIMER_STATE_INACTIVE\<rparr>)"
proof -
  have o: "timers_ok (timers s) (timers_tree s) (timers_expired_list s) (now_seen s)" using ok by (simp add: timers_inv_def)
  have in_tree: "k \<in> set (timers_tree s) \<longleftrightarrow> state t = TIMER_STATE_RUNNING"
    and in_ex: "k \<in> set (timers_expired_list s) \<longleftrightarrow> state t = TIMER_STATE_EXPIRED"
    using o t by (auto simp: timers_ok_def in_state_def)
  show ?thesis
    using timers_ok_remove [OF o t] in_tree in_ex t ok
    by (cases "state t") (auto simp: BReactor_RemoveSmallTimer_def set_timer_state_def timers_inv_def same_rest_def remove1_idem)
qed

lemma btime_add_saturates:
  assumes "is_int64 a" "is_int64 b"
  shows "btime_add a b = max INT64_MIN (min INT64_MAX (a + b))"
  using assms by (auto simp: btime_add_def add_int64_overflows_def is_int64_def INT64_MIN_def INT64_MAX_def Let_def)

lemma btime_add_int64: "is_int64 a \<Longrightarrow> is_int64 b \<Longrightarrow> is_int64 (btime_add a b)"
  by (auto simp: btime_add_saturates is_int64_def INT64_MIN_def INT64_MAX_def)

lemma BReactor_SetSmallTimer_ok:
  assumes ok: "timers_inv s" and t: "timers s k = Some t" and now: "now_seen s \<le> now" "is_int64 now" "is_int64 time"
  shows "\<exists>s'. BReactor_SetSmallTimer k relative time now s = Some s' \<and> timers_inv s' \<and> now_seen s \<le> now_seen s' \<and>
    same_rest s (s'\<lparr>now_seen := now_seen s\<rparr>) \<and>
    timers s' k = Some (t\<lparr>absTime := if relative then btime_add now time else time, state := TIMER_STATE_RUNNING\<rparr>)"
proof -
  obtain s1 where s1: "BReactor_RemoveSmallTimer k s = Some s1" "timers_inv s1" "same_rest s s1"
    "timers s1 k = Some (t\<lparr>state := TIMER_STATE_INACTIVE\<rparr>)"
    using BReactor_RemoveSmallTimer_ok [OF ok t] by blast
  let ?time = "if relative then btime_add now time else time"
  let ?now = "if relative then now else now_seen s"
  let ?ts = "(timers s1)(k := Some (t\<lparr>absTime := ?time, state := TIMER_STATE_RUNNING\<rparr>))"
  have "now_seen s1 = now_seen s" using s1(3) by (simp add: same_rest_def)
  then have o: "timers_ok (timers s1) (timers_tree s1) (timers_expired_list s1) ?now"
    using timers_ok_later [of _ _ _ "now_seen s1" ?now] s1(2) now by (simp add: timers_inv_def)
  have "is_int64 ?time" using now btime_add_int64 by simp
  from timers_ok_insert [OF o s1(4) _ this refl]
  have "timers_ok ?ts (TimersTree_Insert ?ts k (timers_tree s1)) (timers_expired_list s1) ?now" "k \<notin> set (timers_tree s1)"
    by simp_all
  then show ?thesis
    using s1 now by (auto simp: BReactor_SetSmallTimer_def timers_inv_def same_rest_def Let_def)
qed

end
