(* ===== verification/Reactor_Loop.thy ===== *)
theory Reactor_Loop
  imports Reactor_Inv
begin

text \<open>
  The loop of the reactor keeps its invariant, and what that means for the handlers it calls.
\<close>

section \<open>Operations of handlers\<close>

lemma reactor_inv_timers: "reactor_inv s \<Longrightarrow> timers_inv s' \<Longrightarrow> same_rest s s' \<Longrightarrow> reactor_inv s'"
  by (simp add: reactor_inv_def same_rest_def)

lemma reactor_inv_now: "reactor_inv s \<Longrightarrow> now_seen s \<le> c \<Longrightarrow> reactor_inv (s\<lparr>now_seen := c\<rparr>)"
  by (auto simp: reactor_inv_def timers_inv_def intro: timers_ok_later)

lemma reactor_inv_fds:
  assumes "reactor_inv s" "fds_ok fs rs pos" "efd_ok interest fs"
  shows "reactor_inv (s\<lparr>efd := interest, fds := fs, epoll_results := rs, epoll_results_pos := pos\<rparr>)"
  using assms by (simp add: reactor_inv_def timers_inv_def)

lemma reactor_inv_jobs: "reactor_inv s \<Longrightarrow> pending_wf g \<Longrightarrow> reactor_inv (s\<lparr>pending_jobs := g\<rparr>)"
  by (simp add: reactor_inv_def timers_inv_def)

lemma BSmallTimer_Init_idle: "state (BSmallTimer_Init small) = TIMER_STATE_INACTIVE \<and> is_int64 (absTime (BSmallTimer_Init small))"
  by (simp add: BSmallTimer_Init_def is_int64_def INT64_MIN_def INT64_MAX_def)

lemma timer_ops_ok:
  assumes inv: "reactor_inv s"
  shows "reactor_allowed (NewTimer k small) s \<Longrightarrow> \<exists>t. reactor_do (NewTimer k small) s = Some t \<and> reactor_inv t"
    "reactor_allowed (FreeTimer k) s \<Longrightarrow> \<exists>t. reactor_do (FreeTimer k) s = Some t \<and> reactor_inv t"
    "reactor_allowed (SetTimer k r tm now) s \<Longrightarrow> \<exists>t. reactor_do (SetTimer k r tm now) s = Some t \<and> reactor_inv t"
    "reactor_allowed (RemoveTimer k) s \<Longrightarrow> \<exists>t. reactor_do (RemoveTimer k) s = Some t \<and> reactor_inv t"
proof -
  note o = reactor_invD(1) [OF inv]
  have t: "timers_inv s" using inv by (simp add: reactor_inv_def)
  show "\<exists>t. reactor_do (NewTimer k small) s = Some t \<and> reactor_inv t" if "reactor_allowed (NewTimer k small) s"
    using timers_ok_idle [OF o, of k "Some (BSmallTimer_Init small)"] that inv BSmallTimer_Init_idle [of small]
    by (simp add: in_state_def reactor_inv_def timers_inv_def)
  show "\<exists>t. reactor_do (FreeTimer k) s = Some t \<and> reactor_inv t" if "reactor_allowed (FreeTimer k) s"
    using timers_ok_idle [OF o, of k None] that inv
    by (auto simp: in_state_def reactor_inv_def timers_inv_def)
  show "\<exists>t. reactor_do (SetTimer k r tm now) s = Some t \<and> reactor_inv t" if a: "reactor_allowed (SetTimer k r tm now) s"
  proof -
    obtain x where "timers s k = Some x" "now_seen s \<le> now" "is_int64 now" "is_int64 tm" using a by auto
    from BReactor_SetSmallTimer_ok [OF t this, of r] obtain s' where
      s': "BReactor_SetSmallTimer k r tm now s = Some s'" "timers_inv s'" "now_seen s \<le> now_seen s'"
      "same_rest s (s'\<lparr>now_seen := now_seen s\<rparr>)" by blast
    then have "reactor_inv s'" using inv by (auto simp: reactor_inv_def same_rest_def)
    then show ?thesis using s'(1) by simp
  qed
  show "\<exists>t. reactor_do (RemoveTimer k) s = Some t \<and> reactor_inv t" if "reactor_allowed (RemoveTimer k) s"
    using BReactor_RemoveSmallTimer_ok [OF t, of k] that reactor_inv_timers [OF inv] by fastforce
qed

lemma fd_ops_ok:
  assumes inv: "reactor_inv s"
  shows "reactor_allowed (NewFd k fd) s \<Longrightarrow> \<exists>t. reactor_do (NewFd k fd) s = Some t \<and> reactor_inv t"
    "reactor_allowed (FreeFd k) s \<Longrightarrow> \<exists>t. reactor_do (FreeFd k) s = Some t \<and> reactor_inv t"
    "reactor_allowed (AddFd ctl k) s \<Longrightarrow> \<exists>t. reactor_do (AddFd ctl k) s = Some t \<and> reactor_inv t"
    "reactor_allowed (RemoveFd k) s \<Longrightarrow> \<exists>t. reactor_do (RemoveFd k) s = Some t \<and> reactor_inv t"
    "reactor_allowed (SetEvents k ev) s \<Longrightarrow> \<exists>t. reactor_do (SetEvents k ev) s = Some t \<and> reactor_inv t"
proof -
  note f = reactor_invD(2) [OF inv] and e = reactor_invD(3) [OF inv]
  show "\<exists>t. reactor_do (NewFd k fd) s = Some t \<and> reactor_inv t" if "reactor_allowed (NewFd k fd) s"
    using reactor_inv_fds [OF inv fds_ok_inactive [OF f, of k "Some (BFileDescriptor_Init fd)"]
        efd_ok_inactive [OF e, of k "Some (BFileDescriptor_Init fd)"]] that
    by (simp add: set_fd_def BFileDescriptor_Init_def)
  show "\<exists>t. reactor_do (FreeFd k) s = Some t \<and> reactor_inv t" if "reactor_allowed (FreeFd k) s"
    using reactor_inv_fds [OF inv fds_ok_inactive [OF f, of k None] efd_ok_inactive [OF e, of k None]] that
    by auto
  show "\<exists>t. reactor_do (AddFd ctl k) s = Some t \<and> reactor_inv t" if a: "reactor_allowed (AddFd ctl k) s"
  proof -
    obtain b where b: "fds s k = Some b" "\<not> active b" using a by auto
    let ?b = "b\<lparr>epoll_returned_ptr := None, active := True, waitEvents := 0\<rparr>"
    have "epoll_mask 0 = 0" by (simp add: epoll_mask_def)
    then show ?thesis
      using reactor_inv_fds [OF inv fds_ok_inactive [OF f, of k "Some ?b"] efd_ok_add [OF e, of ?b k]] b inv
      by (cases "efd s (bfd_fd b)") (auto simp: BReactor_AddFileDescriptor_def set_fd_def)
  qed
  show "\<exists>t. reactor_do (RemoveFd k) s = Some t \<and> reactor_inv t" if a: "reactor_allowed (RemoveFd k) s"
  proof -
    obtain b where b: "fds s k = Some b" "active b" using a by auto
    have "efd s (bfd_fd b) = Some (k, epoll_mask (waitEvents b))" by (rule efd_okD(2) [OF e b])
    then show ?thesis
      using reactor_inv_fds [OF inv fds_ok_remove [OF f b refl] efd_ok_remove [OF e b, of "b\<lparr>active := False\<rparr>"]] b
        fds_ok_in_range [OF f b]
      by (auto simp: BReactor_RemoveFileDescriptor_def set_fd_def Let_def split: option.splits)
  qed
  show "\<exists>t. reactor_do (SetEvents k ev) s = Some t \<and> reactor_inv t" if a: "reactor_allowed (SetEvents k ev) s"
  proof -
    obtain b where b: "fds s k = Some b" "active b" using a by auto
    have "efd s (bfd_fd b) = Some (k, epoll_mask (waitEvents b))" by (rule efd_okD(2) [OF e b])
    then show ?thesis
      using reactor_inv_fds [OF inv fds_ok_events [OF f b(1), of ev] efd_ok_events [OF e b, of ev]] b inv a
      by (auto simp: BReactor_SetFileDescriptorEvents_def set_fd_def)
  qed
qed

lemma limit_ops_ok:
  assumes inv: "reactor_inv s"
  shows "reactor_allowed (NewLimit k n) s \<Longrightarrow> \<exists>t. reactor_do (NewLimit k n) s = Some t \<and> reactor_inv t"
    "reactor_allowed (FreeLimit k) s \<Longrightarrow> \<exists>t. reactor_do (FreeLimit k) s = Some t \<and> reactor_inv t"
    "reactor_allowed (IncrementLimit k) s \<Longrightarrow> \<exists>t. reactor_do (IncrementLimit k) s = Some t \<and> reactor_inv t"
    "reactor_allowed (SetLimit k n) s \<Longrightarrow> \<exists>t. reactor_do (SetLimit k n) s = Some t \<and> reactor_inv t"
proof -
  note l = reactor_invD(4) [OF inv]
  have keep: "reactor_inv (s\<lparr>limits := ls, active_limits_list := xs\<rparr>)" if "limits_ok ls xs" for ls xs
    using inv that by (simp add: reactor_inv_def timers_inv_def)
  show "\<exists>t. reactor_do (NewLimit k n) s = Some t \<and> reactor_inv t" if "reactor_allowed (NewLimit k n) s"
    using keep [OF limits_ok_new [OF l, of k n]] that by (simp add: BReactorLimit_Init_def)
  show "\<exists>t. reactor_do (SetLimit k n) s = Some t \<and> reactor_inv t" if "reactor_allowed (SetLimit k n) s"
    using keep [OF limits_ok_limit [OF l, of k _ n]] that by (auto simp: BReactorLimit_SetLimit_def)
  show "\<exists>t. reactor_do (IncrementLimit k) s = Some t \<and> reactor_inv t" if "reactor_allowed (IncrementLimit k) s"
    using keep [OF limits_ok_increment [OF l, of k]] that inv
    by (auto simp: BReactorLimit_Increment_def Let_def split: if_splits)
  show "\<exists>t. reactor_do (FreeLimit k) s = Some t \<and> reactor_inv t" if a: "reactor_allowed (FreeLimit k) s"
  proof -
    obtain m where m: "limits s k = Some m" using a by auto
    have "k \<in> set (active_limits_list s) \<longleftrightarrow> 0 < count m" using l m by (auto simp: limits_ok_def)
    then show ?thesis
      using keep [OF limits_ok_free [OF l, of k]] m by (auto simp: BReactorLimit_Free_def Let_def remove1_idem)
  qed
qed

lemma job_op_ok:
  assumes inv: "reactor_inv s" and a: "reactor_allowed (JobOp x) s"
  shows "\<exists>t. reactor_do (JobOp x) s = Some t \<and> reactor_inv t"
proof -
  have "finite (pg_objs (pending_jobs s))" "pending_ctr (pending_jobs s) = card (pg_objs (pending_jobs s))"
    using reactor_invD(5) [OF inv] by (auto simp: pending_wf_def)
  then have "\<exists>g. pending_do x (pending_jobs s) = Some g"
    using a by (cases x) (auto simp: pending_defs card_gt_0_iff)
  then show ?thesis
    using pending_do_wf [OF reactor_invD(5) [OF inv]] reactor_inv_jobs [OF inv] by fastforce
qed

lemma reactor_do_ok:
  assumes inv: "reactor_inv s" and a: "reactor_allowed x s"
  shows "\<exists>t. reactor_do x s = Some t \<and> reactor_inv t"
  using a
proof (cases x)
  case (JobOp y)
  then show ?thesis using job_op_ok [OF inv] a by blast
next
  case (Quit code)
  then show ?thesis using inv by (simp add: BReactor_Quit_def reactor_inv_def timers_inv_def)
qed (simp_all only: timer_ops_ok [OF inv] fd_ops_ok [OF inv] limit_ops_ok [OF inv])

section \<open>Waiting\<close>

lemma first_deadline_running:
  assumes "reactor_inv s" "first_deadline s = Some d"
  shows "\<exists>k ks. timers_tree s = k # ks \<and> time_of (timers s) k = d \<and> is_int64 d"
proof -
  obtain k ks where k: "timers_tree s = k # ks" using assms(2) by (auto simp: first_deadline_def split: list.splits)
  then obtain t where t: "timers s k = Some t"
    using timers_ok_running [OF reactor_invD(1) [OF assms(1)], of k] by auto
  moreover have "is_int64 (absTime t)" using reactor_invD(1) [OF assms(1)] t by (simp add: timers_ok_def)
  ultimately show ?thesis using assms(2) k by (auto simp: first_deadline_def time_of_def)
qed

text \<open>The state of a wait: everything that was reported has been handled.\<close>

definition quiet :: "'j BReactor \<Rightarrow> bool" where
  "quiet s \<longleftrightarrow> reactor_inv s \<and> timers_expired_list s = [] \<and> epoll_results s = [] \<and> epoll_results_pos s = 0"

definition woken :: "'j BReactor \<Rightarrow> bool" where
  "woken s \<longleftrightarrow> reactor_inv s \<and> (timers_expired_list s \<noteq> [] \<or> epoll_results_pos s < length (epoll_results s))"

lemma quiet_now: "quiet s \<Longrightarrow> now_seen s \<le> c \<Longrightarrow> quiet (s\<lparr>now_seen := c\<rparr>)"
  by (simp add: quiet_def reactor_inv_now)

lemma first_deadline_now [simp]: "first_deadline (s\<lparr>now_seen := c\<rparr>) = first_deadline s"
  by (simp add: first_deadline_def split: list.splits)

lemma quiet_first_timers:
  assumes "quiet s" "first_deadline s = Some d" "d \<le> c" "now_seen s \<le> c"
  shows "\<exists>s'. move_first_timers (s\<lparr>now_seen := c\<rparr>) = Some s' \<and> woken s' \<and> pending_jobs s' = pending_jobs s"
proof -
  let ?s = "s\<lparr>now_seen := c\<rparr>"
  have inv: "reactor_inv ?s" using assms by (simp add: quiet_def reactor_inv_now)
  obtain k ks where k: "timers_tree s = k # ks" "time_of (timers s) k = d"
    using first_deadline_running [of s d] assms by (auto simp: quiet_def)
  then obtain s' where "move_first_timers ?s = Some s'" "timers_inv s'" "same_rest ?s s'" "timers_expired_list s' \<noteq> []"
    using move_first_timers_ok [of ?s k ks] inv assms by (auto simp: quiet_def reactor_inv_def)
  then show ?thesis using reactor_inv_timers [OF inv] by (auto simp: woken_def same_rest_def)
qed

lemma quiet_ready:
  assumes q: "quiet s" and c: "now_seen s \<le> c" and rs: "rs \<noteq> []" "distinct (map fst rs)" "\<forall>r\<in>set rs. entry_ok (efd s) r"
  shows "\<exists>s'. set_epoll_fd_pointers 0 (map (\<lambda>(k, ev). (Some k, ev)) rs)
      (s\<lparr>epoll_results := map (\<lambda>(k, ev). (Some k, ev)) rs, epoll_results_pos := 0, now_seen := c\<rparr>) = Some s' \<and>
    woken s' \<and> pending_jobs s' = pending_jobs s"
proof -
  let ?rs = "map (\<lambda>(k, ev). (Some k, ev)) rs"
  let ?s = "s\<lparr>epoll_results := ?rs, epoll_results_pos := 0, now_seen := c\<rparr>"
  have inv: "reactor_inv s" and e: "efd_ok (efd s) (fds s)" and f: "fds_ok (fds s) [] 0"
    using q reactor_invD(2,3) [of s] by (auto simp: quiet_def)
  have "epoll_returned_ptr b = None" if "fds s k = Some b" "active b" for k b
    using fds_okD(2) [OF f that] by (cases "epoll_returned_ptr b") auto
  then have none: "\<forall>k b j. fds ?s k = Some b \<longrightarrow> active b \<longrightarrow> epoll_returned_ptr b = Some j \<longrightarrow> j < 0 \<and> fst (?rs ! j) = Some k"
    by auto
  have reg: "\<forall>k\<in>set (map fst rs). registered ?s k"
    using rs(3) efd_okD(1) [OF e] by (fastforce simp: entry_ok_def registered_def)
  have "map fst ?rs = map Some (map fst rs)" by (simp add: case_prod_beta)
  moreover have "distinct (map Some (map fst rs))" by (simp only: distinct_map [of Some] rs(2)) simp
  ultimately have "distinct (map fst ?rs)" by (simp only:)
  then obtain fs where fs: "set_epoll_fd_pointers 0 ?rs ?s = Some (?s\<lparr>fds := fs\<rparr>)" "fds_ok fs ?rs 0"
    "map_option interest_of \<circ> fs = map_option interest_of \<circ> fds s"
    using set_pointers_ok [OF _ none _ _ _ reg, of "[]"] by auto
  have "reactor_inv (?s\<lparr>fds := fs\<rparr>)"
    using reactor_inv_now [OF inv c] fs(2) efd_ok_same [OF e fs(3)] by (simp add: reactor_inv_def timers_inv_def)
  then show ?thesis using fs(1) rs(1) by (simp add: woken_def)
qed

text \<open>
  The wait does not fail, and when it returns there is a timer or a descriptor to dispatch.  \<open>n\<close> is the present time; with
  a deadline it is the time from which the timeout is computed.
\<close>

fun answer_time :: "wait_answer \<Rightarrow> int" where
  "answer_time (Interrupted c) = c"
| "answer_time (Ready rs c) = c"
| "answer_time (TimedOut c) = c"

definition late :: "int option \<Rightarrow> wait_answer list \<Rightarrow> bool" where
  "late dl as \<longleftrightarrow> (\<exists>d. dl = Some d \<and> (\<exists>a\<in>set as. d \<le> answer_time a))"

lemma wait_loop_ok:
  assumes "quiet s" "epoll_ok dl n as (efd s)" "dl = first_deadline s" "now_seen s \<le> n"
    "\<forall>d. dl = Some d \<longrightarrow> now = n \<and> n < d"
  shows "\<exists>w s'. wait_loop dl now as s = Some (w, s') \<and> (if w then woken s' else quiet s') \<and>
    pending_jobs s' = pending_jobs s \<and> (late dl as \<longrightarrow> w)"
  using assms
proof (induction as arbitrary: now n s)
  case Nil
  then show ?case by (intro exI [of _ False]) (simp add: late_def)
next
  case (Cons a as)
  have rel: "timeout_rel dl now = Some (case dl of None \<Rightarrow> 0 | Some d \<Rightarrow> d - now)"
  proof (cases dl)
    case (Some d)
    then have "is_int64 d" "0 \<le> now" "now < d"
      using first_deadline_running [of s d] Cons.prems by (auto simp: quiet_def dest: reactor_invD(6))
    then show ?thesis using Some by (auto simp: timeout_rel_def is_int64_def INT64_MIN_def)
  qed (simp add: timeout_rel_def)
  have again: "\<exists>w s'. wait_loop dl now' as (s\<lparr>now_seen := c\<rparr>) = Some (w, s') \<and> (if w then woken s' else quiet s') \<and>
      pending_jobs s' = pending_jobs s \<and> (late dl as \<longrightarrow> w)"
    if "n \<le> c" "epoll_ok dl c as (efd s)" "\<forall>d. dl = Some d \<longrightarrow> now' = c \<and> c < d" for c now'
    using Cons.IH [of "s\<lparr>now_seen := c\<rparr>" c now'] that Cons.prems quiet_now [of s c] by simp
  have moved: "\<exists>s'. move_first_timers (s\<lparr>now_seen := c\<rparr>) = Some s' \<and> woken s' \<and> pending_jobs s' = pending_jobs s"
    if "n \<le> c" "dl = Some d" "d \<le> c" for c d
    using quiet_first_timers [of s d c] that Cons.prems by simp
  show ?case
  proof (cases a)
    case (Ready rs c)
    then have ok: "n \<le> c" "rs \<noteq> []" "length rs \<le> BSYSTEM_MAX_RESULTS" "distinct (map fst rs)" "\<forall>r\<in>set rs. entry_ok (efd s) r"
      using Cons.prems(2) by simp_all
    then have "now_seen s \<le> c" using Cons.prems(4) by simp
    from quiet_ready [OF Cons.prems(1) this ok(2,4,5)] show ?thesis using Ready ok rel by auto
  next
    case (Interrupted c)
    then have "n \<le> c" "epoll_ok dl c as (efd s)" using Cons.prems(2) by simp_all
    then show ?thesis using Interrupted rel again [of c] moved [of c] by (cases dl) (fastforce simp: late_def)+
  next
    case (TimedOut c)
    then obtain d where d: "dl = Some d" "now + min (d - now) INT_MAX32 \<le> c" "n \<le> c" "epoll_ok dl c as (efd s)"
      using Cons.prems(2,5) by (auto split: option.splits)
    then have "min (d - now) INT_MAX32 = d - now \<or> c \<ge> d \<Longrightarrow> d \<le> c" by linarith
    then show ?thesis using TimedOut rel again [of c c] moved [of c d] d by (fastforce simp: late_def)
  qed
qed

lemma end_of_wait_ok:
  assumes "if w then woken s else quiet s"
  shows "\<exists>s'. end_of_wait (w, s) = Some (w, s') \<and> (if w then woken s' else quiet s') \<and> pending_jobs s' = pending_jobs s"
proof (cases w)
  case True
  then have "reactor_inv s" using assms by (simp add: woken_def)
  then show ?thesis
    using reset_limits_ok [of s] True assms by (auto simp: end_of_wait_def woken_def reactor_inv_def timers_inv_def)
qed (use assms in \<open>simp add: end_of_wait_def\<close>)

lemma fds_ok_clear:
  assumes "fds_ok fs rs (length rs)"
  shows "fds_ok fs [] 0"
proof (rule fds_okI)
  fix k b i assume "fs k = Some b" "active b" "epoll_returned_ptr b = Some i"
  from fds_okD(2) [OF assms this] show "0 \<le> i \<and> i < length [] \<and> fst ([] ! i) = Some k" by auto
qed simp_all

lemma wait_ok:
  assumes u: "quiet u" "dl = first_deadline u" "epoll_ok dl now as (efd u)" "now_seen u \<le> now" "\<forall>d. dl = Some d \<longrightarrow> now < d"
  shows "\<exists>w s'. Option.bind (wait_loop dl now as u) end_of_wait = Some (w, s') \<and> (if w then woken s' else quiet s') \<and>
    pending_jobs s' = pending_jobs u \<and> (late dl as \<longrightarrow> w)"
proof -
  have "\<forall>d. dl = Some d \<longrightarrow> now = now \<and> now < d" using u(5) by simp
  from wait_loop_ok [OF u(1,3,2,4) this] obtain w s1 where
    s1: "wait_loop dl now as u = Some (w, s1)" "if w then woken s1 else quiet s1" "pending_jobs s1 = pending_jobs u"
      "late dl as \<longrightarrow> w" by (elim exE conjE) (rule that)
  from end_of_wait_ok [OF s1(2)] obtain s2 where
    "end_of_wait (w, s1) = Some (w, s2)" "if w then woken s2 else quiet s2" "pending_jobs s2 = pending_jobs s1"
    by (elim exE conjE) (rule that)
  then show ?thesis using s1(1,3,4) by (intro exI [of _ w] exI [of _ s2]) simp
qed

lemma wait_for_events_ok:
  assumes inv: "reactor_inv s" and ready: "\<not> BPendingGroup_HasJobs (pending_jobs s)" "timers_expired_list s = []"
      "epoll_results_pos s = length (epoll_results s)"
    and now: "now_seen s \<le> now" and e: "epoll_ok (first_deadline s) now as (efd s)"
  shows "\<exists>w s'. wait_for_events now as s = Some (w, s') \<and> (if w then woken s' else quiet s') \<and>
    pending_jobs s' = pending_jobs s \<and> (late (first_deadline s) as \<longrightarrow> w)"
proof -
  let ?s = "s\<lparr>epoll_results := [], epoll_results_pos := 0\<rparr>"
  have "fds_ok (fds s) [] 0" using fds_ok_clear reactor_invD(2) [OF inv] ready(3) by metis
  then have q: "quiet ?s" using inv ready(2) by (simp add: quiet_def reactor_inv_def timers_inv_def)
  have same: "first_deadline ?s = first_deadline s" by (simp add: first_deadline_def split: list.splits)
  show ?thesis
  proof (cases "timers_tree s")
    case Nil
    then have none: "first_deadline s = None" by (simp add: first_deadline_def)
    have "wait_for_events now as s = Option.bind (wait_loop None now as ?s) end_of_wait"
      using ready Nil by (simp add: wait_for_events_def Let_def)
    then show ?thesis using wait_ok [OF q, of None now as] now e same none by simp
  next
    case (Cons k ks)
    then obtain t where t: "timers s k = Some t" "state t = TIMER_STATE_RUNNING"
      using timers_ok_running [OF reactor_invD(1) [OF inv], of k] by auto
    let ?u = "?s\<lparr>now_seen := now\<rparr>"
    have u: "quiet ?u" using quiet_now [OF q, of now] now by simp
    then have "timers_inv ?u" "now \<le> now_seen ?u" "ahead (timers ?u) (timers_expired_list ?u) (timers_tree ?u)"
      using ready(2) by (simp_all add: quiet_def reactor_inv_def ahead_def)
    from move_timers_ok [OF this, of False] obtain m s1 where
      m: "move_timers now False ?u = Some (m, s1)" "timers_inv s1" "same_rest ?u s1"
        "m \<longleftrightarrow> timers_tree ?u \<noteq> [] \<and> time_of (timers ?u) (hd (timers_tree ?u)) \<le> now"
        "\<not> m \<longrightarrow> s1 = ?u" "m \<longrightarrow> timers_expired_list s1 \<noteq> []" by blast
    have dl: "first_deadline s = Some (absTime t)" using Cons t by (simp add: first_deadline_def)
    have eq: "wait_for_events now as s =
        (if m then Some (True, s1) else Option.bind (wait_loop (Some (absTime t)) now as s1) end_of_wait)"
      using ready Cons t m(1) by (simp add: wait_for_events_def Let_def move_expired_timers_def)
    show ?thesis
    proof (cases m)
      case True
      then have "woken s1" using m u reactor_inv_timers [of ?u s1] by (simp add: woken_def quiet_def)
      then show ?thesis using eq True m(3) by (intro exI [of _ True] exI [of _ s1]) (simp add: same_rest_def)
    next
      case False
      then have "now < absTime t" "s1 = ?u" using m(4,5) Cons t by (simp_all add: time_of_def)
      then show ?thesis using wait_ok [OF u, of "Some (absTime t)" now as] e same dl eq False by simp
    qed
  qed
qed

section \<open>Dispatching\<close>

definition has_work :: "'j BReactor \<Rightarrow> bool" where
  "has_work s \<longleftrightarrow> timers_expired_list s \<noteq> [] \<or> epoll_results_pos s < length (epoll_results s)"

definition nothing_before_fds :: "'j BReactor \<Rightarrow> bool" where
  "nothing_before_fds s \<longleftrightarrow>
     \<not> BPendingGroup_HasJobs (pending_jobs s) \<and> (\<forall>k t. timers s k = Some t \<longrightarrow> state t \<noteq> TIMER_STATE_EXPIRED)"

text \<open>What a dispatch may be: jobs go first, then expired timers by their time, then the entries of \<open>epoll_wait\<close>.\<close>

fun dispatch_ok :: "'j BReactor \<Rightarrow> 'j dispatch \<Rightarrow> 'j BReactor \<Rightarrow> bool" where
  "dispatch_ok s (DispatchJob j) t \<longleftrightarrow> BPendingGroup_ExecuteJob (pending_jobs s) = Some (j, pending_jobs t)"
| "dispatch_ok s (DispatchTimer k small) t \<longleftrightarrow>
     \<not> BPendingGroup_HasJobs (pending_jobs s) \<and>
     (\<exists>x. timers s k = Some x \<and> state x = TIMER_STATE_EXPIRED \<and> is_small x = small \<and> absTime x \<le> now_seen s \<and>
        (\<forall>j y. timers s j = Some y \<longrightarrow> state y = TIMER_STATE_EXPIRED \<longrightarrow> absTime x \<le> absTime y) \<and>
        timers t k = Some (x\<lparr>state := TIMER_STATE_INACTIVE\<rparr>))"
| "dispatch_ok s (DispatchFd k ev) t \<longleftrightarrow>
     nothing_before_fds s \<and> ev \<noteq> 0 \<and>
     (\<exists>b. fds s k = Some b \<and> active b \<and>
        (ev AND BREACTOR_READ \<noteq> 0 \<longrightarrow> waitEvents b AND BREACTOR_READ \<noteq> 0) \<and>
        (ev AND BREACTOR_WRITE \<noteq> 0 \<longrightarrow> waitEvents b AND BREACTOR_WRITE \<noteq> 0))"
| "dispatch_ok s DispatchNone t \<longleftrightarrow> nothing_before_fds s \<and> (has_work s \<or> has_work t)"
| "dispatch_ok s StillWaiting t \<longleftrightarrow> nothing_before_fds s \<and> \<not> has_work s \<and> \<not> has_work t"

lemma nothing_before_fdsI:
  assumes "reactor_inv s" "\<not> BPendingGroup_HasJobs (pending_jobs s)" "timers_expired_list s = []"
  shows "nothing_before_fds s"
  using assms reactor_invD(1) [OF assms(1)] by (auto simp: nothing_before_fds_def timers_ok_def in_state_def)

lemma report_events_wanted:
  "report_events w e AND BREACTOR_READ \<noteq> 0 \<Longrightarrow> w AND BREACTOR_READ \<noteq> 0"
  "report_events w e AND BREACTOR_WRITE \<noteq> 0 \<Longrightarrow> w AND BREACTOR_WRITE \<noteq> 0"
  by (auto simp: report_events_def BREACTOR_READ_def BREACTOR_WRITE_def BREACTOR_ERROR_def BREACTOR_HUP_def split: if_splits)

lemma dispatch_timer_ok:
  assumes inv: "reactor_inv s" and jobs: "\<not> BPendingGroup_HasJobs (pending_jobs s)" and ex: "timers_expired_list s = k # ks"
  shows "\<exists>small t. BReactor_iterate now as s = Some (DispatchTimer k small, t) \<and> reactor_inv t \<and>
    dispatch_ok s (DispatchTimer k small) t"
proof -
  note o = reactor_invD(1) [OF inv]
  obtain x where x: "timers s k = Some x" "state x = TIMER_STATE_EXPIRED"
    using timers_ok_expired [OF o, of k] ex by auto
  have k: "k \<notin> set (timers_tree s)" using o x by (auto simp: timers_ok_def in_state_def)
  let ?t = "s\<lparr>timers_expired_list := ks, timers := (timers s)(k := Some (x\<lparr>state := TIMER_STATE_INACTIVE\<rparr>))\<rparr>"
  have "timers_inv ?t"
    using timers_ok_remove [OF o x(1)] ex k by (simp add: timers_inv_def remove1_idem)
  then have inv': "reactor_inv ?t" by (rule reactor_inv_timers [OF inv]) (simp add: same_rest_def)
  have first: "absTime x \<le> absTime y" if "timers s j = Some y" "state y = TIMER_STATE_EXPIRED" for j y
  proof -
    have "j \<in> set (k # ks)" using o ex that by (auto simp: timers_ok_def in_state_def)
    moreover have "sorted_wrt (before (timers s)) (k # ks)" using o ex by (simp add: timers_ok_def)
    ultimately show ?thesis using that x by (auto simp: before_def time_of_def)
  qed
  have "absTime x \<le> now_seen s" using o ex x by (simp add: timers_ok_def time_of_def)
  then show ?thesis
    using jobs ex x inv' first by (auto simp: BReactor_iterate_def set_timer_state_def)
qed

lemma dispatch_fd_ok:
  assumes inv: "reactor_inv s" and before: "\<not> BPendingGroup_HasJobs (pending_jobs s)" "timers_expired_list s = []"
    and pos: "epoll_results_pos s < length (epoll_results s)"
  shows "\<exists>d t. BReactor_iterate now as s = Some (d, t) \<and> reactor_inv t \<and> dispatch_ok s d t"
proof -
  note f = reactor_invD(2) [OF inv]
  have n: "nothing_before_fds s" by (rule nothing_before_fdsI [OF inv before])
  obtain p ev where e: "epoll_results s ! epoll_results_pos s = (p, ev)" by (cases "epoll_results s ! epoll_results_pos s")
  show ?thesis
  proof (cases p)
    case None
    have "reactor_inv (s\<lparr>epoll_results_pos := epoll_results_pos s + 1\<rparr>)"
      using reactor_inv_fds [OF inv fds_ok_skip [OF f pos] reactor_invD(3) [OF inv]] e None by simp
    then show ?thesis using before pos e None n by (simp add: BReactor_iterate_def has_work_def)
  next
    case (Some k)
    then obtain b where b: "fds s k = Some b" "active b" "epoll_returned_ptr b = Some (epoll_results_pos s)"
      using fds_okD(1) [OF f order_refl pos] e by auto
    let ?fs = "(fds s)(k := Some (b\<lparr>epoll_returned_ptr := None\<rparr>))"
    have "map_option interest_of \<circ> ?fs = map_option interest_of \<circ> fds s"
      using b(1) by (intro ext) (simp add: interest_of_def)
    then have "efd_ok (efd s) ?fs" by (rule efd_ok_same [OF reactor_invD(3) [OF inv]])
    moreover have "fds_ok ?fs (epoll_results s) (epoll_results_pos s + 1)"
      using fds_ok_take [OF f pos _ b(1)] e Some by simp
    ultimately have "reactor_inv (set_fd k (b\<lparr>epoll_returned_ptr := None\<rparr>) (s\<lparr>epoll_results_pos := epoll_results_pos s + 1\<rparr>))"
      using inv by (simp add: reactor_inv_def timers_inv_def set_fd_def)
    then show ?thesis
      using before pos e Some b n report_events_wanted [of "waitEvents b" ev]
      by (auto simp: BReactor_iterate_def has_work_def Let_def)
  qed
qed

lemma iterate_ok:
  assumes inv: "reactor_inv s" and now: "now_seen s \<le> now" and e: "epoll_ok (first_deadline s) now as (efd s)"
  shows "\<exists>d t. BReactor_iterate now as s = Some (d, t) \<and> reactor_inv t \<and> dispatch_ok s d t"
proof (cases "BPendingGroup_HasJobs (pending_jobs s)")
  case True
  then obtain j g where "BPendingGroup_ExecuteJob (pending_jobs s) = Some (j, g)"
    by (cases "pg_jobs (pending_jobs s)") (auto simp: BPendingGroup_HasJobs_def BPendingGroup_ExecuteJob_def)
  moreover have "pending_wf g"
    using pending_do_wf [OF reactor_invD(5) [OF inv], of PExecute g] calculation by simp
  ultimately show ?thesis using True reactor_inv_jobs [OF inv] by (auto simp: BReactor_iterate_def)
next
  case jobs: False
  show ?thesis
  proof (cases "timers_expired_list s")
    case (Cons k ks)
    then show ?thesis using dispatch_timer_ok [OF inv jobs] by blast
  next
    case ex: Nil
    show ?thesis
    proof (cases "epoll_results_pos s < length (epoll_results s)")
      case True
      then show ?thesis by (rule dispatch_fd_ok [OF inv jobs ex])
    next
      case False
      then have pos: "epoll_results_pos s = length (epoll_results s)" using reactor_invD(2) [OF inv] by (simp add: fds_ok_def)
      obtain w t where t: "wait_for_events now as s = Some (w, t)" "if w then woken t else quiet t"
        using wait_for_events_ok [OF inv jobs ex pos now e] by blast
      then have "reactor_inv t" by (auto simp: woken_def quiet_def split: if_splits)
      moreover have "dispatch_ok s (if w then DispatchNone else StillWaiting) t"
        using t(2) nothing_before_fdsI [OF inv jobs ex] False ex by (auto simp: has_work_def woken_def quiet_def)
      ultimately show ?thesis using jobs ex False t(1) by (simp add: BReactor_iterate_def)
    qed
  qed
qed

interpretation event_loop: inductive_invariant reactor_start reactor_step reactor_inv
proof unfold_locales
  show "reactor_inv s" if "reactor_start s" for s :: "'j BReactor" using that by (rule reactor_inv_init)
  show "reactor_inv t" if inv: "reactor_inv s" and step: "reactor_step s t" for s t :: "'j BReactor"
    using step
  proof cases
    case (iterate now as d)
    then show ?thesis using iterate_ok [OF inv, of now as] by auto
  next
    case (handler x)
    then show ?thesis using reactor_do_ok [OF inv] by fastforce
  qed
qed

lemma BReactor_Free_ok:
  assumes "reactor_inv s" "timers s = Map.empty" "limits s = Map.empty" "pg_objs (pending_jobs s) = {}"
  shows "BReactor_Free s = Some ()"
proof -
  have "set (timers_tree s) = {}" "set (timers_expired_list s) = {}"
    using reactor_invD(1) [OF assms(1)] assms(2) by (auto simp: timers_ok_def in_state_def)
  moreover have "set (active_limits_list s) = {}" using reactor_invD(4) [OF assms(1)] assms(3) by (auto simp: limits_ok_def)
  ultimately show ?thesis
    using reactor_invD(5) [OF assms(1)] assms(4)
    by (simp add: BReactor_Free_def BPendingGroup_HasJobs_def BPendingGroup_Free_def pending_wf_def)
qed

text \<open>A run that the examples use: a descriptor that waits for input and a timer.\<close>

fun reactor_script :: "'j reactor_op list \<Rightarrow> 'j BReactor \<Rightarrow> 'j BReactor option" where
  "reactor_script [] s = Some s"
| "reactor_script (x # xs) s = (if reactor_allowed x s then Option.bind (reactor_do x s) (reactor_script xs) else None)"

lemma reactor_script_reach:
  "reach reactor_start reactor_step s \<Longrightarrow> reactor_script xs s = Some t \<Longrightarrow> reach reactor_start reactor_step t"
proof (induction xs arbitrary: s)
  case (Cons x xs)
  then obtain u where u: "reactor_allowed x s" "reactor_do x s = Some u" "reactor_script xs u = Some t"
    by (auto simp: bind_eq_Some_conv split: if_splits)
  have "reach reactor_start reactor_step u"
    by (rule reach_step [OF Cons.prems(1)]) (rule reactor_step.handler [OF u(1,2)])
  then show ?case using Cons.IH u(3) by blast
qed simp

definition example_reactor :: "nat BReactor" where
  "example_reactor =
     (BReactor_Init 0)
       \<lparr>fds := [1 \<mapsto> \<lparr>bfd_fd = 5, active = True, waitEvents = BREACTOR_READ, epoll_returned_ptr = None\<rparr>],
        efd := [5 \<mapsto> (1, EPOLLIN)],
        timers := [3 \<mapsto> \<lparr>absTime = 40, state = TIMER_STATE_RUNNING, is_small = True\<rparr>],
        timers_tree := [3]\<rparr>"

lemmas reactor_eval = example_reactor_def BReactor_Init_def set_fd_def BFileDescriptor_Init_def BSmallTimer_Init_def
  BReactor_AddFileDescriptor_def BReactor_SetFileDescriptorEvents_def BReactor_SetSmallTimer_def BReactor_RemoveSmallTimer_def
  TimersTree_Insert_def epoll_mask_def btime_add_def add_int64_overflows_def is_int64_def INT64_MIN_def INT64_MAX_def
  BREACTOR_READ_def BREACTOR_WRITE_def EPOLLIN_def EPOLLOUT_def EPOLLERR_def EPOLLHUP_def

lemma example_reactor_reached: "reach reactor_start reactor_step example_reactor"
proof (rule reactor_script_reach)
  show "reach reactor_start reactor_step (BReactor_Init 0 :: nat BReactor)"
    by (rule reach_init) (auto simp: reactor_start_def is_int64_def INT64_MIN_def INT64_MAX_def)
  show "reactor_script [NewFd 1 5, AddFd True 1, SetEvents 1 BREACTOR_READ, NewTimer 3 True, SetTimer 3 True 40 0] (BReactor_Init 0) =
      Some example_reactor"
    by (simp add: reactor_eval)
qed



text \<open>
  C14 No timer is slept through: when the reactor waits with a running timer and \<open>epoll_wait\<close> comes back at or after the time of
  the earliest one, be it by an event, an interruption or a timeout that was cut to 32 bits, then the wait is over and there is an
  expired timer or an event to dispatch.
\<close>

theorem reactor_timer_in_time:
  assumes "reach reactor_start reactor_step s" and "nothing_before_fds s" "\<not> has_work s"
    and "now_seen s \<le> now" "epoll_ok (first_deadline s) now as (efd s)"
    and "late (first_deadline s) as"
  shows "\<exists>t. BReactor_iterate now as s = Some (DispatchNone, t) \<and> has_work t"
proof -
  have inv: "reactor_inv s" by (rule event_loop.always [OF assms(1)])
  have rest: "\<not> BPendingGroup_HasJobs (pending_jobs s)" "timers_expired_list s = []" "epoll_results_pos s = length (epoll_results s)"
    using assms(2,3) reactor_invD(2) [OF inv] by (auto simp: nothing_before_fds_def has_work_def fds_ok_def)
  from wait_for_events_ok [OF inv this assms(4,5)] assms(6)
  show ?thesis using rest by (auto simp: BReactor_iterate_def woken_def has_work_def)
qed

theorem reactor_timer_in_time_witness:
  "late (first_deadline example_reactor) [Interrupted 20, TimedOut 41] \<and>
   (\<exists>t. BReactor_iterate 10 [Interrupted 20, TimedOut 41] example_reactor = Some (DispatchNone, t) \<and> has_work t)"
proof -
  have "late (first_deadline example_reactor) [Interrupted 20, TimedOut 41]"
    by (simp add: first_deadline_def example_reactor_def late_def)
  moreover have "epoll_ok (first_deadline example_reactor) 10 [Interrupted 20, TimedOut 41] (efd example_reactor)"
    by (simp add: first_deadline_def example_reactor_def INT_MAX32_def)
  moreover have "nothing_before_fds example_reactor" "\<not> has_work example_reactor" "now_seen example_reactor \<le> 10"
    by (simp_all add: nothing_before_fds_def has_work_def example_reactor_def BReactor_Init_def BPendingGroup_HasJobs_def
        BPendingGroup_Init_def)
  ultimately show ?thesis using reactor_timer_in_time [OF example_reactor_reached] by blast
qed

end
