(* ===== verification/SocketConn_Inv.thy ===== *)
theory SocketConn_Inv
  imports SocketConn Reactor_Loop
begin

text \<open>
  The invariant of a connection: the reactor waits for what the connection needs, and the jobs, interfaces and streams of bytes
  agree with its states.
\<close>

section \<open>Events\<close>

lemma event_bits [simp]:
  "w AND BREACTOR_READ = 0 \<longleftrightarrow> \<not> bit w 0"
  "w AND BREACTOR_WRITE = 0 \<longleftrightarrow> \<not> bit w 1"
  "w AND BREACTOR_ERROR = 0 \<longleftrightarrow> \<not> bit w 2"
  "w AND BREACTOR_HUP = 0 \<longleftrightarrow> \<not> bit w 3"
  using and_exp_eq_0_iff_not_bit [of w 0] and_exp_eq_0_iff_not_bit [of w 1] and_exp_eq_0_iff_not_bit [of w 2]
    and_exp_eq_0_iff_not_bit [of w 3]
  by (simp_all add: BREACTOR_READ_def BREACTOR_WRITE_def BREACTOR_ERROR_def BREACTOR_HUP_def)

lemma event_bit_values [simp]:
  "bit BREACTOR_READ n \<longleftrightarrow> n = 0" "bit BREACTOR_WRITE n \<longleftrightarrow> n = 1"
  by (auto simp: BREACTOR_READ_def BREACTOR_WRITE_def bit_1_iff bit_2_iff)

lemma error_or_hup [simp]: "w AND (BREACTOR_ERROR OR BREACTOR_HUP) = 0 \<longleftrightarrow> \<not> bit w 2 \<and> \<not> bit w 3"
proof -
  have "w AND (BREACTOR_ERROR OR BREACTOR_HUP) = (w AND BREACTOR_ERROR) OR (w AND BREACTOR_HUP)"
    by (simp add: bit.conj_disj_distrib)
  then show ?thesis by (simp add: or_eq_0_iff)
qed

definition read_write :: "u32 \<Rightarrow> bool" where
  "read_write w \<longleftrightarrow> w AND NOT (BREACTOR_READ OR BREACTOR_WRITE) = 0"

lemma read_write_simps [simp]:
  "read_write w \<Longrightarrow> read_write (w OR BREACTOR_READ)"
  "read_write w \<Longrightarrow> read_write (w OR BREACTOR_WRITE)"
  "read_write w \<Longrightarrow> read_write (w AND NOT v)"
  "read_write 0"
proof -
  have rw: "read_write x \<longleftrightarrow> (\<forall>n. bit x n \<longrightarrow> n = 0 \<or> n = 1)" for x
  proof -
    have "bit x n \<Longrightarrow> n < 32" for n using bit_imp_le_length [of x n] by simp
    then show ?thesis by (auto simp: read_write_def bit_eq_iff [of "x AND _"] bit_simps)
  qed
  show "read_write w \<Longrightarrow> read_write (w OR BREACTOR_READ)" "read_write w \<Longrightarrow> read_write (w OR BREACTOR_WRITE)"
    "read_write w \<Longrightarrow> read_write (w AND NOT v)" "read_write 0"
    by (auto simp: rw bit_simps)
qed

section \<open>What the reactor promises\<close>

lemma set_events_ok:
  assumes inv: "reactor_inv r" and b: "fds r k = Some b" "active b" and ev: "read_write ev"
  shows "\<exists>r'. BReactor_SetFileDescriptorEvents k ev r = Some r' \<and> reactor_inv r' \<and> fds r' k = Some (b\<lparr>waitEvents := ev\<rparr>) \<and>
    limits r' = limits r \<and> pending_jobs r' = pending_jobs r"
proof -
  obtain r' where r': "BReactor_SetFileDescriptorEvents k ev r = Some r'" "reactor_inv r'"
    using reactor_do_ok [OF inv, of "SetEvents k ev"] b ev by (auto simp: read_write_def)
  then show ?thesis
    using b by (auto simp: BReactor_SetFileDescriptorEvents_def set_fd_def split: if_splits)
qed

lemma remove_fd_ok:
  assumes inv: "reactor_inv r" and b: "fds r k = Some b" "active b"
  shows "\<exists>r'. BReactor_RemoveFileDescriptor k r = Some r' \<and> reactor_inv r' \<and> fds r' k = Some (b\<lparr>active := False\<rparr>) \<and>
    limits r' = limits r \<and> pending_jobs r' = pending_jobs r"
proof -
  obtain r' where r': "BReactor_RemoveFileDescriptor k r = Some r'" "reactor_inv r'"
    using reactor_do_ok [OF inv, of "RemoveFd k"] b by auto
  then show ?thesis
    using b by (auto simp: BReactor_RemoveFileDescriptor_def set_fd_def Let_def split: option.splits)
qed

lemma increment_ok:
  assumes inv: "reactor_inv r" and k: "limits r k \<noteq> None"
  shows "\<exists>b r'. BReactorLimit_Increment k r = Some (b, r') \<and> reactor_inv r' \<and> fds r' = fds r \<and> pending_jobs r' = pending_jobs r \<and>
    (\<forall>j. limits r' j = None \<longleftrightarrow> limits r j = None)"
proof -
  obtain r' where "map_option snd (BReactorLimit_Increment k r) = Some r'" "reactor_inv r'"
    using reactor_do_ok [OF inv, of "IncrementLimit k"] k by auto
  then show ?thesis
    using k by (auto simp: BReactorLimit_Increment_def Let_def split: if_splits)
qed

section \<open>The invariant\<close>

definition desc_ok :: "BConnection \<Rightarrow> 'o job BReactor \<Rightarrow> bool" where
  "desc_ok c r \<longleftrightarrow>
     (\<exists>b. fds r conn_bfd = Some b \<and> active b = (\<not> is_hupd c) \<and> (\<not> is_hupd c \<longrightarrow> waitEvents b = wait_events c)) \<and>
     read_write (wait_events c) \<and> limits r send_limit \<noteq> None \<and> limits r recv_limit \<noteq> None"

definition side_jobs :: "'j \<Rightarrow> 'j \<Rightarrow> 'j \<Rightarrow> bool \<Rightarrow> 'd StreamInterface \<Rightarrow> 'j BPendingGroup \<Rightarrow> bool" where
  "side_jobs j op dn inited i g \<longleftrightarrow>
     (j \<in> pg_objs g \<longleftrightarrow> inited) \<and> (op \<in> pg_objs g \<longleftrightarrow> inited) \<and> (dn \<in> pg_objs g \<longleftrightarrow> inited) \<and>
     (op \<in> set (pg_jobs g) \<longleftrightarrow> inited \<and> si_state i = STATE_OPERATION_PENDING) \<and>
     (dn \<in> set (pg_jobs g) \<longleftrightarrow> inited \<and> si_state i = STATE_DONE_PENDING)"

definition jobs_ok :: "BConnection \<Rightarrow> 'o job BPendingGroup \<Rightarrow> bool" where
  "jobs_ok c g \<longleftrightarrow>
     side_jobs SendJob SendOperation SendDone (send_inited c) (send_iface c) g \<and>
     side_jobs RecvJob RecvOperation RecvDone (recv_inited c) (recv_iface c) g \<and>
     SendJob \<notin> set (pg_jobs g) \<and> (RecvJob \<in> set (pg_jobs g) \<longrightarrow> recv_state c = RECV_STATE_BUSY)"

definition iface_ok :: "bool \<Rightarrow> bool \<Rightarrow> 'd StreamInterface \<Rightarrow> bool" where
  "iface_ok inited busy i \<longleftrightarrow>
     (inited \<longrightarrow> (si_state i = STATE_BUSY \<longleftrightarrow> busy) \<and> (si_state i \<noteq> STATE_NONE \<longrightarrow> handler_done i \<and> 0 < job_operation_len i))"

definition ifaces_ok :: "BConnection \<Rightarrow> bool" where
  "ifaces_ok c \<longleftrightarrow>
     iface_ok (send_inited c) (send_state c = SEND_STATE_BUSY) (send_iface c) \<and>
     iface_ok (recv_inited c) (recv_state c = RECV_STATE_BUSY \<or> recv_state c = RECV_STATE_INITED_CLOSED) (recv_iface c) \<and>
     length (job_operation_data (send_iface c)) = job_operation_len (send_iface c) \<and>
     (send_state c = SEND_STATE_BUSY \<longrightarrow> send_busy_data c = job_operation_data (send_iface c)) \<and>
     (recv_state c = RECV_STATE_BUSY \<longrightarrow> recv_busy_data_avail c = job_operation_len (recv_iface c)) \<and>
     recv_state c \<noteq> RECV_STATE_NOT_INITED_CLOSED"

definition streams_ok :: "BConnection \<Rightarrow> 'o Conn_world \<Rightarrow> bool" where
  "streams_ok c s \<longleftrightarrow>
     written s = accepted s @ outgoing s \<and> taken s = delivered s @ incoming s \<and>
     (if send_inited c \<and> si_state (send_iface c) = STATE_DONE_PENDING
      then outgoing s = take (job_done_len (send_iface c)) (job_operation_data (send_iface c))
      else outgoing s = [] \<or> unusable s \<and> \<not> send_inited c) \<and>
     (if recv_inited c \<and> si_state (recv_iface c) = STATE_DONE_PENDING
      then job_done_len (recv_iface c) = length (incoming s)
      else incoming s = [] \<or> unusable s \<and> \<not> recv_inited c)"

definition core :: "BConnection \<Rightarrow> 'o Conn_world \<Rightarrow> bool" where
  "core c s \<longleftrightarrow>
     reactor_inv (reactor s) \<and> desc_ok c (reactor s) \<and> jobs_ok c (pending_jobs (reactor s)) \<and> ifaces_ok c \<and> streams_ok c s"

text \<open>
  The descriptor waits for writing exactly when the send side is busy; the receive side, when busy, waits for reading or has its job
  pending, and both only after an error event.
\<close>

definition send_waits :: "BConnection \<Rightarrow> bool" where
  "send_waits c \<longleftrightarrow>
     (\<not> d_err c \<longrightarrow>
        (\<not> is_hupd c \<longrightarrow> (bit (wait_events c) 1 \<longleftrightarrow> send_state c = SEND_STATE_BUSY)) \<and>
        (send_state c = SEND_STATE_BUSY \<longrightarrow> \<not> is_hupd c))"

definition recv_waits :: "BConnection \<Rightarrow> 'o Conn_world \<Rightarrow> bool" where
  "recv_waits c s \<longleftrightarrow>
     (\<not> d_err c \<longrightarrow>
        (\<not> is_hupd c \<longrightarrow> bit (wait_events c) 0 \<longrightarrow> recv_state c = RECV_STATE_BUSY) \<and>
        (recv_state c = RECV_STATE_BUSY \<longrightarrow>
           RecvJob \<in> set (pg_jobs (pending_jobs (reactor s))) \<or> \<not> is_hupd c \<and> bit (wait_events c) 0) \<and>
        (RecvJob \<in> set (pg_jobs (pending_jobs (reactor s))) \<longrightarrow> \<not> is_hupd c \<longrightarrow> bit (wait_events c) 0 \<longrightarrow> sock_error s))"

definition conn_ok :: "BConnection \<Rightarrow> 'o Conn_world \<Rightarrow> bool" where
  "conn_ok c s \<longleftrightarrow> conn s = Some c \<and> core c s \<and> send_waits c \<and> recv_waits c s"

text \<open>When there is no connection, the reactor knows none of its objects.\<close>

definition absent :: "'o job BReactor \<Rightarrow> bool" where
  "absent r \<longleftrightarrow>
     fds r conn_bfd = None \<and> limits r send_limit = None \<and> limits r recv_limit = None \<and>
     (\<forall>j\<in>pg_objs (pending_jobs r). other_job j)"

definition conn_inv :: "'o Conn_world \<Rightarrow> bool" where
  "conn_inv s \<longleftrightarrow> reactor_inv (reactor s) \<and> (case conn s of None \<Rightarrow> absent (reactor s) | Some c \<Rightarrow> conn_ok c s)"

lemma set_conn_simps [simp]:
  "reactor (set_conn c s) = reactor s" "conn (set_conn c s) = Some c" "sock_error (set_conn c s) = sock_error s"
  "unusable (set_conn c s) = unusable s"
  by (simp_all add: set_conn_def)

text \<open>Fields on which the parts of the invariant do not depend.\<close>

lemma inited_frame [simp]:
  "send_inited (c\<lparr>wait_events := e\<rparr>) = send_inited c" "recv_inited (c\<lparr>wait_events := e\<rparr>) = recv_inited c"
  "send_inited (c\<lparr>is_hupd := h\<rparr>) = send_inited c" "recv_inited (c\<lparr>is_hupd := h\<rparr>) = recv_inited c"
  "send_inited (c\<lparr>d_err := h\<rparr>) = send_inited c" "recv_inited (c\<lparr>d_err := h\<rparr>) = recv_inited c"
  "send_inited (c\<lparr>send_iface := i\<rparr>) = send_inited c" "recv_inited (c\<lparr>send_iface := i\<rparr>) = recv_inited c"
  "send_inited (c\<lparr>recv_iface := k\<rparr>) = send_inited c" "recv_inited (c\<lparr>recv_iface := k\<rparr>) = recv_inited c"
  "send_inited (c\<lparr>send_busy_data := d\<rparr>) = send_inited c" "recv_inited (c\<lparr>send_busy_data := d\<rparr>) = recv_inited c"
  "send_inited (c\<lparr>recv_busy_data_avail := n\<rparr>) = send_inited c" "recv_inited (c\<lparr>recv_busy_data_avail := n\<rparr>) = recv_inited c"
  "recv_inited (c\<lparr>send_state := st\<rparr>) = recv_inited c" "send_inited (c\<lparr>recv_state := rt\<rparr>) = send_inited c"
  "send_inited (c\<lparr>send_state := SEND_STATE_READY\<rparr>)" "send_inited (c\<lparr>send_state := SEND_STATE_BUSY\<rparr>)"
  "\<not> send_inited (c\<lparr>send_state := SEND_STATE_NOT_INITED\<rparr>)"
  "recv_inited (c\<lparr>recv_state := RECV_STATE_READY\<rparr>)" "recv_inited (c\<lparr>recv_state := RECV_STATE_BUSY\<rparr>)"
  "recv_inited (c\<lparr>recv_state := RECV_STATE_INITED_CLOSED\<rparr>)" "\<not> recv_inited (c\<lparr>recv_state := RECV_STATE_NOT_INITED\<rparr>)"
  by (simp_all add: send_inited_def recv_inited_def)

lemma busy_inited: "send_state c = SEND_STATE_BUSY \<Longrightarrow> send_inited c" "recv_state c = RECV_STATE_BUSY \<Longrightarrow> recv_inited c"
  by (simp_all add: send_inited_def recv_inited_def)

lemma streams_frame [simp]:
  "streams_ok (c\<lparr>wait_events := e\<rparr>) s = streams_ok c s" "streams_ok (c\<lparr>is_hupd := h\<rparr>) s = streams_ok c s"
  "streams_ok (c\<lparr>d_err := h\<rparr>) s = streams_ok c s" "streams_ok c (s\<lparr>reactor := r\<rparr>) = streams_ok c s"
  "streams_ok c (s\<lparr>conn := x\<rparr>) = streams_ok c s" "streams_ok c (s\<lparr>sock_error := h\<rparr>) = streams_ok c s"
  "streams_ok c (s\<lparr>recv_closed := h\<rparr>) = streams_ok c s" "streams_ok c (set_conn x' s) = streams_ok c s"
  by (simp_all add: streams_ok_def set_conn_def)

lemma ifaces_frame [simp]:
  "ifaces_ok (c\<lparr>wait_events := e\<rparr>) = ifaces_ok c" "ifaces_ok (c\<lparr>is_hupd := h\<rparr>) = ifaces_ok c" "ifaces_ok (c\<lparr>d_err := h\<rparr>) = ifaces_ok c"
  by (simp_all add: ifaces_ok_def)

lemma jobs_frame [simp]:
  "jobs_ok (c\<lparr>wait_events := e\<rparr>) g = jobs_ok c g" "jobs_ok (c\<lparr>is_hupd := h\<rparr>) g = jobs_ok c g" "jobs_ok (c\<lparr>d_err := h\<rparr>) g = jobs_ok c g"
  by (simp_all add: jobs_ok_def)

lemma desc_frame [simp]:
  "desc_ok (c\<lparr>d_err := h\<rparr>) r = desc_ok c r" "desc_ok (c\<lparr>send_iface := i\<rparr>) r = desc_ok c r"
  "desc_ok (c\<lparr>recv_iface := k\<rparr>) r = desc_ok c r" "desc_ok (c\<lparr>send_state := st\<rparr>) r = desc_ok c r"
  "desc_ok (c\<lparr>recv_state := rt\<rparr>) r = desc_ok c r" "desc_ok (c\<lparr>send_busy_data := d\<rparr>) r = desc_ok c r"
  "desc_ok (c\<lparr>recv_busy_data_avail := n\<rparr>) r = desc_ok c r" "desc_ok c (r\<lparr>pending_jobs := g\<rparr>) = desc_ok c r"
  by (simp_all add: desc_ok_def)

lemma core_frame [simp]:
  "core (c\<lparr>d_err := h\<rparr>) s = core c s" "core c (s\<lparr>conn := x\<rparr>) = core c s" "core c (s\<lparr>sock_error := h\<rparr>) = core c s"
  "core c (s\<lparr>recv_closed := h\<rparr>) = core c s" "core c (set_conn x' s) = core c s"
  by (simp_all add: core_def set_conn_def)

section \<open>Sending and receiving\<close>

lemma update_events_ok:
  assumes "core c s" "\<not> is_hupd c" "read_write ev"
  shows "\<exists>s'. update_events ev c s = Some (c\<lparr>wait_events := ev\<rparr>, s') \<and> conn s' = Some (c\<lparr>wait_events := ev\<rparr>) \<and>
    core (c\<lparr>wait_events := ev\<rparr>) s' \<and> pending_jobs (reactor s') = pending_jobs (reactor s) \<and>
    sock_error s' = sock_error s \<and> recv_closed s' = recv_closed s \<and> unusable s' = unusable s"
proof -
  obtain b where b: "fds (reactor s) conn_bfd = Some b" "active b"
    using assms(1,2) by (auto simp: core_def desc_ok_def)
  from set_events_ok [OF _ b assms(3)] assms(1) obtain r where
    r: "BReactor_SetFileDescriptorEvents conn_bfd ev (reactor s) = Some r" "reactor_inv r"
      "fds r conn_bfd = Some (b\<lparr>waitEvents := ev\<rparr>)" "limits r = limits (reactor s)" "pending_jobs r = pending_jobs (reactor s)"
    by (auto simp: core_def)
  let ?c = "c\<lparr>wait_events := ev\<rparr>"
  let ?s = "s\<lparr>conn := Some ?c, reactor := r\<rparr>"
  have "core ?c ?s"
    using assms b r by (simp add: core_def desc_ok_def)
  moreover have "update_events ev c s = Some (?c, ?s)"
    using r(1) by (simp add: update_events_def with_reactor_def set_conn_def Let_def)
  ultimately show ?thesis using r(5) by simp
qed

lemma take_limit_ok:
  assumes "core c s" "k = send_limit \<or> k = recv_limit"
  shows "\<exists>ok r. take_limit k c s = Some (ok, s\<lparr>reactor := r\<rparr>) \<and> core c (s\<lparr>reactor := r\<rparr>) \<and> pending_jobs r = pending_jobs (reactor s) \<and>
    (is_hupd c \<longrightarrow> ok)"
proof (cases "is_hupd c")
  case True
  then show ?thesis using assms(1) by (intro exI [of _ True] exI [of _ "reactor s"]) (simp add: take_limit_def)
next
  case False
  have "limits (reactor s) k \<noteq> None" "reactor_inv (reactor s)" using assms by (auto simp: core_def desc_ok_def)
  from increment_ok [OF this(2,1)] obtain b r where
    r: "BReactorLimit_Increment k (reactor s) = Some (b, r)" "reactor_inv r" "fds r = fds (reactor s)"
      "pending_jobs r = pending_jobs (reactor s)" "\<forall>j. limits r j = None \<longleftrightarrow> limits (reactor s) j = None" by blast
  have "core c (s\<lparr>reactor := r\<rparr>)" using assms(1) r by (simp add: core_def desc_ok_def)
  then show ?thesis using False r by (intro exI [of _ b] exI [of _ r]) (simp add: take_limit_def)
qed

text \<open>The end of an operation: \<open>Stream_Done\<close> on the interface of a side.\<close>

lemma Stream_Done_ok:
  assumes "si_state i = STATE_BUSY" "0 < n" "n \<le> job_operation_len i" "dn \<in> pg_objs g" "pending_wf g"
  shows "\<exists>g'. Stream_Done dn n i g = Some (i\<lparr>job_done_len := n, si_state := STATE_DONE_PENDING\<rparr>, g') \<and> pending_wf g' \<and>
    pg_objs g' = pg_objs g \<and> set (pg_jobs g') = insert dn (set (pg_jobs g))"
proof -
  have "\<exists>g'. BPending_Set dn g = Some g' \<and> pg_objs g' = pg_objs g \<and> set (pg_jobs g') = insert dn (set (pg_jobs g))"
    using assms(4,5) by (auto simp: BPending_Set_def BSmallPending_Set_def pending_wf_def)
  moreover have "pending_wf g'" if "BPending_Set dn g = Some g'" for g'
    using pending_do_wf [OF assms(5), of "PSet dn"] that by simp
  ultimately show ?thesis using assms(1-3) by (auto simp: Stream_Done_def)
qed

lemma report_error_ok:
  "core c s \<Longrightarrow> \<not> d_err c \<Longrightarrow> \<exists>c' s'. connection_report_error c s = Some s' \<and> conn_ok c' s'"
  by (auto simp: connection_report_error_def conn_ok_def send_waits_def recv_waits_def set_conn_def)

text \<open>A side that cannot go on waits for its event.\<close>

lemma wait_for_ok:
  assumes core: "core c s" and "\<not> is_hupd c" and ev: "ev = BREACTOR_READ \<or> ev = BREACTOR_WRITE"
    and ok: "\<And>c' s'. c' = c\<lparr>wait_events := wait_events c OR ev\<rparr> \<Longrightarrow> pending_jobs (reactor s') = pending_jobs (reactor s) \<Longrightarrow>
      sock_error s' = sock_error s \<Longrightarrow> send_waits c' \<and> recv_waits c' s'"
  shows "\<exists>c' s'. map_option snd (update_events (wait_events c OR ev) c s) = Some s' \<and> conn_ok c' s'"
proof -
  have "read_write (wait_events c OR ev)" using core ev by (auto simp: core_def desc_ok_def)
  from update_events_ok [OF core assms(2) this] ok show ?thesis by (auto simp: conn_ok_def)
qed

lemma conn_send_ok:
  assumes core: "core c s" and st: "send_state c = SEND_STATE_BUSY" "\<not> d_err c" and rw: "recv_waits c s"
    and wait: "\<not> is_hupd c \<longrightarrow> bit (wait_events c) 1 \<longrightarrow> sock_error s"
    and ans: "sock_error s \<longrightarrow> ans = WriteError" "write_fits ans (job_operation_len (send_iface c))"
  shows "\<exists>c' s'. connection_send_socket ans c s = Some s' \<and> conn_ok c' s'"
proof -
  obtain ok r where lim: "take_limit send_limit c s = Some (ok, s\<lparr>reactor := r\<rparr>)" and core': "core c (s\<lparr>reactor := r\<rparr>)"
    and jobs: "pending_jobs r = pending_jobs (reactor s)" and hup: "is_hupd c \<longrightarrow> ok"
    using take_limit_ok [OF core, of send_limit] by blast
  let ?s = "s\<lparr>reactor := r\<rparr>"
  let ?w = "update_events (wait_events c OR BREACTOR_WRITE) c ?s"
  have rw': "recv_waits c ?s" using rw jobs by (simp add: recv_waits_def)
  have waits: "\<exists>c' s'. map_option snd ?w = Some s' \<and> conn_ok c' s'" if "\<not> is_hupd c"
    by (rule wait_for_ok [OF core' that])
      (use st that rw jobs in \<open>auto simp: send_waits_def recv_waits_def bit_simps\<close>)
  note err = report_error_ok [OF _ st(2)]
  have written: "\<exists>c' s'. StreamPassInterface_Done n (c\<lparr>send_state := SEND_STATE_READY\<rparr>)
      (?s\<lparr>written := written s @ take n (send_busy_data c), outgoing := take n (send_busy_data c)\<rparr>) = Some s' \<and> conn_ok c' s'"
    if n: "ans = Written n" for n
  proof -
    have busy: "si_state (send_iface c) = STATE_BUSY" "send_busy_data c = job_operation_data (send_iface c)" "handler_done (send_iface c)"
      "send_inited c"
      using core st(1) busy_inited(1) [of c] by (auto simp: core_def ifaces_ok_def iface_ok_def)
    have wf: "pending_wf (pending_jobs r)" "SendDone \<in> pg_objs (pending_jobs r)"
      using core' busy(4) by (auto simp: core_def jobs_ok_def side_jobs_def dest: reactor_invD(5))
    have le: "0 < n" "n \<le> job_operation_len (send_iface c)" using ans(2) n by (simp_all add: write_fits_def)
    obtain g where g: "Stream_Done SendDone n (send_iface c) (pending_jobs r) =
        Some ((send_iface c)\<lparr>job_done_len := n, si_state := STATE_DONE_PENDING\<rparr>, g)" "pending_wf g"
        "pg_objs g = pg_objs (pending_jobs r)" "set (pg_jobs g) = insert SendDone (set (pg_jobs (pending_jobs r)))"
      using Stream_Done_ok [OF busy(1) le wf(2,1)] by blast
    let ?c = "c\<lparr>send_state := SEND_STATE_READY, send_iface := (send_iface c)\<lparr>job_done_len := n, si_state := STATE_DONE_PENDING\<rparr>\<rparr>"
    let ?u = "?s\<lparr>written := written s @ take n (send_busy_data c), outgoing := take n (send_busy_data c),
      reactor := r\<lparr>pending_jobs := g\<rparr>\<rparr>"
    have "core ?c ?u"
      using core' g(2-4) busy le
      by (auto simp: core_def reactor_inv_jobs jobs_ok_def side_jobs_def ifaces_ok_def iface_ok_def streams_ok_def split: if_splits)
    moreover have "send_waits ?c" using wait ans(1) n by (auto simp: send_waits_def)
    moreover have "recv_waits ?c ?u" using rw' g(4) by (auto simp: recv_waits_def)
    ultimately have "conn_ok ?c (set_conn ?c ?u)" by (simp add: conn_ok_def recv_waits_def set_conn_def)
    then show ?thesis using g(1) by (auto simp: StreamPassInterface_Done_def)
  qed
  show ?thesis
  proof (cases "\<not> ok")
    case True
    then show ?thesis using waits hup lim st by (simp add: connection_send_socket_def)
  next
    case ok: False
    show ?thesis
    proof (cases ans)
      case (Written n)
      then have "0 < n" "n \<le> length (send_busy_data c)" using ans(2) core st(1) by (simp_all add: core_def ifaces_ok_def write_fits_def)
      then show ?thesis using written [OF Written] Written ok lim st by (simp add: connection_send_socket_def)
    next
      case WriteAgain
      then show ?thesis using waits err [OF core'] ok lim st by (simp add: connection_send_socket_def)
    next
      case WriteError
      then show ?thesis using err [of "?s\<lparr>sock_error := False\<rparr>"] core' ok lim st by (simp add: connection_send_socket_def)
    qed
  qed
qed

lemma conn_recv_ok:
  assumes core: "core c s" and st: "recv_state c = RECV_STATE_BUSY" "\<not> d_err c" and sw: "send_waits c"
    and job: "RecvJob \<notin> set (pg_jobs (pending_jobs (reactor s)))"
    and wait: "\<not> is_hupd c \<longrightarrow> bit (wait_events c) 0 \<longrightarrow> sock_error s"
    and ans: "sock_error s \<longrightarrow> ans = ReadError" "read_fits ans (job_operation_len (recv_iface c))"
  shows "\<exists>c' s'. connection_recv ans c s = Some s' \<and> conn_ok c' s'"
proof -
  obtain ok r where lim: "take_limit recv_limit c s = Some (ok, s\<lparr>reactor := r\<rparr>)" and core': "core c (s\<lparr>reactor := r\<rparr>)"
    and jobs: "pending_jobs r = pending_jobs (reactor s)" and hup: "is_hupd c \<longrightarrow> ok"
    using take_limit_ok [OF core, of recv_limit] by blast
  let ?s = "s\<lparr>reactor := r\<rparr>"
  let ?w = "update_events (wait_events c OR BREACTOR_READ) c ?s"
  have waits: "\<exists>c' s'. map_option snd ?w = Some s' \<and> conn_ok c' s'" if "\<not> is_hupd c"
    by (rule wait_for_ok [OF core' that])
      (use st that sw job jobs in \<open>auto simp: send_waits_def recv_waits_def bit_simps\<close>)
  note err = report_error_ok [OF _ st(2)]
  have busy: "si_state (recv_iface c) = STATE_BUSY" "recv_busy_data_avail c = job_operation_len (recv_iface c)"
    "handler_done (recv_iface c)" "recv_inited c"
    using core st(1) busy_inited(2) [of c] by (auto simp: core_def ifaces_ok_def iface_ok_def)
  let ?cl = "c\<lparr>recv_state := RECV_STATE_INITED_CLOSED\<rparr>"
  have closed: "conn_ok ?cl (set_conn ?cl (?s\<lparr>recv_closed := True\<rparr>))" if "ans = Read []"
  proof -
    have "core ?cl ?s"
      using core' busy job jobs by (auto simp: core_def jobs_ok_def side_jobs_def ifaces_ok_def iface_ok_def streams_ok_def split: if_splits)
    then show ?thesis
      using wait ans(1) that sw job jobs by (auto simp: conn_ok_def send_waits_def recv_waits_def set_conn_def)
  qed
  have received: "\<exists>c' s'. StreamRecvInterface_Done (length bs) (c\<lparr>recv_state := RECV_STATE_READY\<rparr>)
      (?s\<lparr>taken := taken s @ bs, incoming := bs\<rparr>) = Some s' \<and> conn_ok c' s'"
    if bs: "ans = Read bs" "bs \<noteq> []" for bs
  proof -
    have wf: "pending_wf (pending_jobs r)" "RecvDone \<in> pg_objs (pending_jobs r)"
      using core' busy(4) by (auto simp: core_def jobs_ok_def side_jobs_def dest: reactor_invD(5))
    have le: "0 < length bs" "length bs \<le> job_operation_len (recv_iface c)" using ans(2) bs by (simp_all add: read_fits_def)
    obtain g where g: "Stream_Done RecvDone (length bs) (recv_iface c) (pending_jobs r) =
        Some ((recv_iface c)\<lparr>job_done_len := length bs, si_state := STATE_DONE_PENDING\<rparr>, g)" "pending_wf g"
        "pg_objs g = pg_objs (pending_jobs r)" "set (pg_jobs g) = insert RecvDone (set (pg_jobs (pending_jobs r)))"
      using Stream_Done_ok [OF busy(1) le wf(2,1)] by blast
    let ?c = "c\<lparr>recv_state := RECV_STATE_READY, recv_iface := (recv_iface c)\<lparr>job_done_len := length bs, si_state := STATE_DONE_PENDING\<rparr>\<rparr>"
    let ?u = "?s\<lparr>taken := taken s @ bs, incoming := bs, reactor := r\<lparr>pending_jobs := g\<rparr>\<rparr>"
    have "jobs_ok ?c g" using core' g(3,4) busy job jobs by (auto simp: core_def jobs_ok_def side_jobs_def)
    moreover have "ifaces_ok ?c" using core' busy le less_le_trans [OF le] by (simp add: core_def ifaces_ok_def iface_ok_def)
    moreover have "streams_ok ?c ?u" using core' busy by (auto simp: core_def streams_ok_def split: if_splits)
    ultimately have "core ?c ?u" using core' g(2) by (simp add: core_def reactor_inv_jobs)
    moreover have "send_waits ?c" using sw by (auto simp: send_waits_def)
    moreover have "recv_waits ?c ?u" using wait ans(1) bs job jobs g(4) by (auto simp: recv_waits_def)
    ultimately have "conn_ok ?c (set_conn ?c ?u)" by (simp add: conn_ok_def recv_waits_def set_conn_def)
    then show ?thesis using g(1) by (auto simp: StreamRecvInterface_Done_def)
  qed
  show ?thesis
  proof (cases "\<not> ok")
    case True
    then show ?thesis using waits hup lim st by (simp add: connection_recv_def)
  next
    case ok: False
    show ?thesis
    proof (cases ans)
      case (Read bs)
      then have "length bs \<le> recv_busy_data_avail c" using ans(2) busy(2) by (simp add: read_fits_def)
      then have "bs \<noteq> [] \<Longrightarrow> ?thesis"
        using received [OF Read] Read ok lim st by (simp add: connection_recv_def)
      moreover have "bs = [] \<Longrightarrow> ?thesis"
        using closed Read ok lim st by (intro exI [of _ ?cl]) (simp add: connection_recv_def)
      ultimately show ?thesis by blast
    next
      case ReadAgain
      then show ?thesis using waits err [OF core'] ok lim st by (simp add: connection_recv_def)
    next
      case ReadError
      then show ?thesis using err [of "?s\<lparr>sock_error := False\<rparr>"] core' ok lim st by (simp add: connection_recv_def)
    qed
  qed
qed

text \<open>The descriptor of the connection is removed after a hang-up.\<close>

lemma hang_up_ok:
  assumes core: "core c s" and "\<not> is_hupd c"
  shows "\<exists>s'. with_reactor (BReactor_RemoveFileDescriptor conn_bfd) s = Some s' \<and> core (c\<lparr>is_hupd := True\<rparr>) s' \<and>
    pending_jobs (reactor s') = pending_jobs (reactor s) \<and> conn s' = conn s \<and> sock_error s' = sock_error s"
proof -
  obtain b where b: "fds (reactor s) conn_bfd = Some b" "active b"
    using assms by (auto simp: core_def desc_ok_def)
  from remove_fd_ok [OF _ b] core obtain r where
    "BReactor_RemoveFileDescriptor conn_bfd (reactor s) = Some r" "reactor_inv r"
      "fds r conn_bfd = Some (b\<lparr>active := False\<rparr>)" "limits r = limits (reactor s)" "pending_jobs r = pending_jobs (reactor s)"
    by (auto simp: core_def)
  then show ?thesis using core by (simp add: with_reactor_def core_def desc_ok_def)
qed

text \<open>The job of the receive side is set.\<close>

lemma set_recv_job_ok:
  assumes core: "core c s" and "recv_state c = RECV_STATE_BUSY"
  shows "\<exists>s'. with_jobs (BPending_Set RecvJob) s = Some s' \<and> core c s' \<and>
    set (pg_jobs (pending_jobs (reactor s'))) = insert RecvJob (set (pg_jobs (pending_jobs (reactor s)))) \<and>
    conn s' = conn s \<and> sock_error s' = sock_error s"
proof -
  let ?g = "pending_jobs (reactor s)"
  have o: "RecvJob \<in> pg_objs ?g" "pending_wf ?g"
    using core busy_inited(2) [OF assms(2)] by (auto simp: core_def jobs_ok_def side_jobs_def dest: reactor_invD(5))
  then obtain g where g: "BPending_Set RecvJob ?g = Some g" "pg_objs g = pg_objs ?g" "set (pg_jobs g) = insert RecvJob (set (pg_jobs ?g))"
    by (auto simp: BPending_Set_def BSmallPending_Set_def pending_wf_def)
  have "pending_wf g" using pending_do_wf [OF o(2), of "PSet RecvJob"] g(1) by simp
  moreover have "jobs_ok c g" using core g(2,3) assms(2) by (auto simp: core_def jobs_ok_def side_jobs_def)
  ultimately show ?thesis
    using core g by (simp add: with_jobs_def with_reactor_def core_def reactor_inv_jobs)
qed

lemma connection_fd_handler_ok:
  assumes ok: "conn_ok c s" and st: "\<not> d_err c" "\<not> is_hupd c" and jobs: "RecvJob \<notin> set (pg_jobs (pending_jobs (reactor s)))"
    and ev: "bit ev 0 \<Longrightarrow> bit (wait_events c) 0" "bit ev 1 \<Longrightarrow> bit (wait_events c) 1" "bit ev 2 \<Longrightarrow> sock_error s"
    and ans: "answers_ok wa ra s"
  shows "\<exists>c' s'. connection_fd_handler ev wa ra c s = Some s' \<and> conn_ok c' s'"
proof -
  let ?w = "wait_events c AND NOT ev"
  let ?c1 = "c\<lparr>wait_events := ?w\<rparr>"
  have core: "core c s" using ok by (simp add: conn_ok_def)
  have "read_write ?w" using core by (simp add: core_def desc_ok_def)
  from update_events_ok [OF core st(2) this] obtain s1 where
    s1: "update_events ?w c s = Some (?c1, s1)" "conn s1 = Some ?c1" "core ?c1 s1"
      "pending_jobs (reactor s1) = pending_jobs (reactor s)" "sock_error s1 = sock_error s" by auto
  define c2 where "c2 = c\<lparr>wait_events := ?w, is_hupd := bit ev 3\<rparr>"
  have c2: "c2 = (if bit ev 3 then ?c1\<lparr>is_hupd := True\<rparr> else ?c1)" using st(2) by (cases c) (simp add: c2_def)
  obtain s2 where s2: "(if ev AND BREACTOR_HUP \<noteq> 0 then do { s \<leftarrow> with_reactor (BReactor_RemoveFileDescriptor conn_bfd) s1;
        Some (?c1\<lparr>is_hupd := True\<rparr>, set_conn (?c1\<lparr>is_hupd := True\<rparr>) s) } else Some (?c1, s1)) = Some (c2, s2)"
      "conn s2 = Some c2" "core c2 s2" "pending_jobs (reactor s2) = pending_jobs (reactor s)" "sock_error s2 = sock_error s"
    using hang_up_ok [OF s1(3)] s1 st(2) by (cases "bit ev 3") (auto simp: c2 set_conn_def Let_def)
  have f: "send_state c2 = send_state c" "recv_state c2 = recv_state c" "is_hupd c2 = bit ev 3" "wait_events c2 = ?w" "d_err c2 = d_err c"
    "send_iface c2 = send_iface c" "recv_iface c2 = recv_iface c" by (simp_all add: c2_def)
  have sb: "bit (wait_events c) 1 \<longleftrightarrow> send_state c = SEND_STATE_BUSY" and rb: "bit (wait_events c) 0 \<longleftrightarrow> recv_state c = RECV_STATE_BUSY"
    using ok st jobs by (auto simp: conn_ok_def send_waits_def recv_waits_def)
  define hs where "hs = (bit ev 1 \<or> (bit ev 2 \<or> bit ev 3) \<and> send_state c = SEND_STATE_BUSY)"
  define hr where "hr = (bit ev 0 \<or> (bit ev 2 \<or> bit ev 3) \<and> recv_state c = RECV_STATE_BUSY)"
  have busy: "hs \<Longrightarrow> send_state c = SEND_STATE_BUSY" "hr \<Longrightarrow> recv_state c = RECV_STATE_BUSY"
    using ev sb rb by (auto simp: hs_def hr_def)
  have eq: "connection_fd_handler ev wa ra c s =
      (if hs then do { s \<leftarrow> (if hr then with_jobs (BPending_Set RecvJob) s2 else Some s2); connection_send_socket wa c2 s }
       else if hr then connection_recv ra c2 s2 else if \<not> is_hupd c2 then connection_report_error c2 s2 else Some s2)"
  proof -
    have h: "(ev AND BREACTOR_WRITE \<noteq> 0 \<or> ev AND (BREACTOR_ERROR OR BREACTOR_HUP) \<noteq> 0 \<and> send_state c2 = SEND_STATE_BUSY) = hs"
      "(ev AND BREACTOR_READ \<noteq> 0 \<or> ev AND (BREACTOR_ERROR OR BREACTOR_HUP) \<noteq> 0 \<and> recv_state c2 = RECV_STATE_BUSY) = hr"
      by (simp_all add: hs_def hr_def f)
    have t: "(hs \<longrightarrow> send_state c2 = SEND_STATE_BUSY) = True" "(hr \<longrightarrow> recv_state c2 = RECV_STATE_BUSY) = True"
      using busy f by simp_all
    show ?thesis
      unfolding connection_fd_handler_def
      by (simp only: st s1(1) s2(1) h t Let_def Option.bind.bind_lunit prod.case simp_thms ASSERT_True)
  qed
  have a: "sock_error s \<longrightarrow> wa = WriteError" "sock_error s \<longrightarrow> ra = ReadError"
    "write_fits wa (job_operation_len (send_iface c2))"
    "read_fits ra (job_operation_len (recv_iface c2))"
    unfolding f(6,7) using ans ok by (auto simp: answers_ok_def conn_ok_def)
  consider (send) "hs" | (recv) "\<not> hs" "hr" | (neither) "\<not> hs" "\<not> hr" by blast
  then show ?thesis
  proof cases
    case send
    have rw: "recv_waits c2 s'" if "sock_error s' = sock_error s" "hr \<longleftrightarrow> RecvJob \<in> set (pg_jobs (pending_jobs (reactor s')))" for s' :: "'a Conn_world"
      using that rb busy(2) ev(3) by (auto simp: recv_waits_def f hr_def bit_simps)
    obtain s3 where s3: "(if hr then with_jobs (BPending_Set RecvJob) s2 else Some s2) = Some s3" "core c2 s3" "recv_waits c2 s3"
      "sock_error s3 = sock_error s"
    proof (cases hr)
      case True
      then show ?thesis using set_recv_job_ok [OF s2(3)] busy(2) f s2(5) rw that by auto
    next
      case False
      then show ?thesis using s2 jobs rw that by auto
    qed
    have "\<not> is_hupd c2 \<longrightarrow> bit (wait_events c2) 1 \<longrightarrow> sock_error s3"
      using send ev(3) s3(4) by (auto simp: f hs_def bit_simps)
    from conn_send_ok [OF s3(2) _ _ s3(3) this, of wa] show ?thesis
      using eq send s3 busy(1) st f a by simp
  next
    case recv
    have "send_waits c2" using recv(1) sb st by (auto simp: send_waits_def f hs_def bit_simps)
    moreover have "\<not> is_hupd c2 \<longrightarrow> bit (wait_events c2) 0 \<longrightarrow> sock_error s2"
      using recv ev(3) s2(5) by (auto simp: f hr_def bit_simps)
    ultimately show ?thesis
      using conn_recv_ok [OF s2(3), of ra] eq recv s2 jobs busy(2) st f a by simp
  next
    case neither
    then have "conn_ok c2 s2" if "bit ev 3"
      using that s2 by (auto simp: conn_ok_def send_waits_def recv_waits_def f hs_def hr_def)
    then show ?thesis using eq neither report_error_ok [OF s2(3)] f st by (cases "bit ev 3") auto
  qed
qed

end
