(* ===== verification/SocketConn_Loop.thy ===== *)
theory SocketConn_Loop
  imports SocketConn_Inv
begin

text \<open>
  A connection in the event loop, with its user and with other users of the reactor.
\<close>

section \<open>What an iteration leaves alone\<close>

text \<open>The part of the reactor that belongs to its users.\<close>

definition same_use :: "'j BReactor \<Rightarrow> 'j BReactor \<Rightarrow> bool" where
  "same_use r r' \<longleftrightarrow>
     map_option interest_of \<circ> fds r' = map_option interest_of \<circ> fds r \<and>
     (\<forall>k. limits r' k = None \<longleftrightarrow> limits r k = None) \<and> pending_jobs r' = pending_jobs r"

lemma same_use_refl [simp]: "same_use r r"
  by (simp add: same_use_def)

lemma same_use_trans: "same_use r r' \<Longrightarrow> same_use r' r'' \<Longrightarrow> same_use r r''"
  by (simp add: same_use_def)

lemma set_epoll_fd_pointers_use: "set_epoll_fd_pointers i rs r = Some r' \<Longrightarrow> same_use r r'"
proof (induction i rs r rule: set_epoll_fd_pointers.induct)
  case (2 i p ev rs r)
  then obtain k b where k: "p = Some k" "fds r k = Some b"
    and r': "set_epoll_fd_pointers (i + 1) rs (set_fd k (b\<lparr>epoll_returned_ptr := Some i\<rparr>) r) = Some r'"
    and a: "active b" "epoll_returned_ptr b = None"
    by (auto simp: bind_eq_Some_conv)
  have "same_use r (set_fd k (b\<lparr>epoll_returned_ptr := Some i\<rparr>) r)"
    using k by (auto simp: same_use_def set_fd_def interest_of_def fun_eq_iff)
  then show ?case using 2 k a r' same_use_trans by fastforce
qed simp

lemma same_rest_use: "same_rest r r' \<Longrightarrow> same_use r r'"
  by (simp add: same_rest_def same_use_def)

lemma expire_timer_rest: "expire_timer k r = Some r' \<Longrightarrow> same_rest r r'"
  by (auto simp: expire_timer_def set_timer_state_def same_rest_def bind_eq_Some_conv)

lemma move_timers_rest: "move_timers now moved r = Some (m, r') \<Longrightarrow> same_rest r r'"
proof (induction now moved r arbitrary: m r' rule: move_timers.induct)
  case (1 now moved r)
  then show ?case
    by (subst (asm) (2) move_timers.simps)
      (auto split: list.splits if_splits simp: bind_eq_Some_conv intro: same_rest_trans expire_timer_rest)
qed

lemma move_first_timers_rest: "move_first_timers r = Some r' \<Longrightarrow> same_rest r r'"
  by (auto simp: move_first_timers_def bind_eq_Some_conv split: list.splits prod.splits
      intro: same_rest_trans expire_timer_rest dest: move_timers_rest)

lemma reset_limits_use: "reset_limits ks r = Some r' \<Longrightarrow> same_use r r'"
proof (induction ks r rule: reset_limits.induct)
  case (2 k ks r)
  then obtain l where l: "limits r k = Some l" "count l > 0"
    and r': "reset_limits ks (r\<lparr>limits := (limits r)(k := Some (l\<lparr>count := 0\<rparr>)), active_limits_list := ks\<rparr>) = Some r'"
    by (auto simp: bind_eq_Some_conv)
  have "same_use r (r\<lparr>limits := (limits r)(k := Some (l\<lparr>count := 0\<rparr>)), active_limits_list := ks\<rparr>)"
    using l by (auto simp: same_use_def)
  then show ?case using 2 l r' same_use_trans by fastforce
qed simp

lemma same_use_wait [simp]:
  "same_use (r\<lparr>now_seen := c\<rparr>) r' = same_use r r'" "same_use (r\<lparr>epoll_results := rs\<rparr>) r' = same_use r r'"
  "same_use (r\<lparr>epoll_results_pos := n\<rparr>) r' = same_use r r'"
  by (simp_all add: same_use_def)

lemma wait_loop_use: "wait_loop dl now as r = Some (w, r') \<Longrightarrow> same_use r r'"
proof (induction dl now as r rule: wait_loop.induct)
  case (2 dl now rs c as r)
  then show ?case
    by (auto simp: bind_eq_Some_conv Let_def dest!: set_epoll_fd_pointers_use)
next
  case (3 dl now c as r)
  then show ?case
    by (auto simp: bind_eq_Some_conv split: option.splits if_splits dest!: move_first_timers_rest same_rest_use)
next
  case (4 dl now c as r)
  then show ?case
    by (auto simp: bind_eq_Some_conv split: option.splits if_splits dest!: move_first_timers_rest same_rest_use)
qed simp

lemma end_of_wait_use: "end_of_wait (w, r) = Some (w', r') \<Longrightarrow> same_use r r'"
  by (auto simp: end_of_wait_def bind_eq_Some_conv split: if_splits dest: reset_limits_use)

lemma wait_for_events_use: "wait_for_events now as r = Some (w, r') \<Longrightarrow> same_use r r'"
  by (auto simp: wait_for_events_def move_expired_timers_def Let_def bind_eq_Some_conv split: list.splits if_splits
      dest!: end_of_wait_use wait_loop_use move_timers_rest same_rest_use intro: same_use_trans)

lemma iterate_job:
  "BReactor_iterate now as r = Some (DispatchJob j, r') \<Longrightarrow>
   \<exists>g. BPendingGroup_ExecuteJob (pending_jobs r) = Some (j, g) \<and> r' = r\<lparr>pending_jobs := g\<rparr>"
  by (auto simp: BReactor_iterate_def bind_eq_Some_conv Let_def split: if_splits list.splits prod.splits option.splits)

lemma iterate_use:
  assumes it: "BReactor_iterate now as r = Some (d, r')" and d: "\<And>j. d \<noteq> DispatchJob j"
  shows "same_use r r'"
proof -
  have nojobs: "\<not> BPendingGroup_HasJobs (pending_jobs r)" using it d by (auto simp: BReactor_iterate_def bind_eq_Some_conv split: if_splits)
  show ?thesis
  proof (cases "timers_expired_list r")
    case (Cons k ks)
    then show ?thesis
      using it nojobs by (auto simp: BReactor_iterate_def set_timer_state_def bind_eq_Some_conv same_use_def)
  next
    case ex: Nil
    show ?thesis
    proof (cases "epoll_results_pos r < length (epoll_results r)")
      case True
      obtain p ev where e: "epoll_results r ! epoll_results_pos r = (p, ev)" by (cases "epoll_results r ! epoll_results_pos r")
      show ?thesis
        using it nojobs ex True e
        by (cases p) (auto simp: BReactor_iterate_def Let_def bind_eq_Some_conv same_use_def set_fd_def interest_of_def fun_eq_iff)
    next
      case False
      then show ?thesis
        using it nojobs ex by (auto simp: BReactor_iterate_def bind_eq_Some_conv dest: wait_for_events_use)
    qed
  qed
qed

lemma same_use_desc:
  assumes "same_use r r'" "desc_ok c r"
  shows "desc_ok c r'"
proof -
  have "map_option interest_of (fds r' conn_bfd) = map_option interest_of (fds r conn_bfd)"
    using assms(1) unfolding same_use_def by (metis comp_apply)
  then show ?thesis using assms by (auto simp: desc_ok_def same_use_def interest_of_def)
qed

lemma same_use_absent:
  assumes "same_use r r'" "absent r"
  shows "absent r'"
proof -
  have "map_option interest_of (fds r' conn_bfd) = map_option interest_of (fds r conn_bfd)"
    using assms(1) unfolding same_use_def by (metis comp_apply)
  then show ?thesis using assms by (auto simp: absent_def same_use_def)
qed

lemma same_use_conn:
  assumes "same_use (reactor s) r" "reactor_inv r" "conn_ok c s" "sock_error s \<longrightarrow> e"
  shows "conn_ok c (s\<lparr>reactor := r, sock_error := e\<rparr>)"
  using assms same_use_desc [OF assms(1)] by (auto simp: conn_ok_def core_def recv_waits_def same_use_def)

section \<open>The handlers in the loop\<close>

text \<open>A job of the queue was taken; it is the reactor's state when its handler runs.\<close>

lemma execute_job_set:
  "pending_wf g \<Longrightarrow> BPendingGroup_ExecuteJob g = Some (j, h) \<Longrightarrow>
   j \<in> set (pg_jobs g) \<and> set (pg_jobs h) = set (pg_jobs g) - {j} \<and> pg_objs h = pg_objs g"
  by (auto simp: BPendingGroup_ExecuteJob_def pending_wf_def split: list.splits)

lemma dispatch_job_ok:
  assumes ok: "conn_ok c s" and err: "\<not> d_err c" and x: "BPendingGroup_ExecuteJob (pending_jobs (reactor s)) = Some (j, g)"
    and inv: "reactor_inv ((reactor s)\<lparr>pending_jobs := g\<rparr>)"
    and u: "u = s\<lparr>reactor := (reactor s)\<lparr>pending_jobs := g\<rparr>\<rparr>" and ans: "answers_ok wa ra u"
  shows "\<exists>c' t. conn_dispatch (DispatchJob j) wa ra u = Some t \<and> conn_ok c' t"
proof -
  have core: "core c s" and sw: "send_waits c" and rw: "recv_waits c s" and c: "conn u = Some c"
    using ok u by (auto simp: conn_ok_def)
  let ?g = "pending_jobs (reactor s)"
  have g: "j \<in> set (pg_jobs ?g)" "set (pg_jobs g) = set (pg_jobs ?g) - {j}" "pg_objs g = pg_objs ?g"
    using execute_job_set [OF _ x] core reactor_invD(5) by (auto simp: core_def)
  have parts: "desc_ok c (reactor s)" "jobs_ok c ?g" "ifaces_ok c" "streams_ok c s" using core by (auto simp: core_def)
  have a: "sock_error s \<longrightarrow> wa = WriteError" "sock_error s \<longrightarrow> ra = ReadError"
    "write_fits wa (job_operation_len (send_iface c))"
    "read_fits ra (job_operation_len (recv_iface c))"
    using ans c u by (auto simp: answers_ok_def)
  show ?thesis
  proof (cases j)
    case SendJob
    then show ?thesis using g(1) parts(2) by (simp add: jobs_ok_def)
  next
    case SendOperation
    then have si: "send_inited c" "si_state (send_iface c) = STATE_OPERATION_PENDING"
      using g(1) parts(2) by (auto simp: jobs_ok_def side_jobs_def)
    then have st: "send_state c = SEND_STATE_READY" and len: "0 < job_operation_len (send_iface c)"
      using parts(3) by (cases "send_state c"; simp add: ifaces_ok_def iface_ok_def send_inited_def)+
    let ?i = "(send_iface c)\<lparr>si_state := STATE_BUSY\<rparr>"
    let ?c = "c\<lparr>send_iface := ?i, send_busy_data := job_operation_data (send_iface c), send_state := SEND_STATE_BUSY\<rparr>"
    have "jobs_ok ?c g" using parts(2) g si SendOperation by (auto simp: jobs_ok_def side_jobs_def)
    moreover have "ifaces_ok ?c" using parts(3) si by (simp add: ifaces_ok_def iface_ok_def)
    moreover have "streams_ok ?c s" using parts(4) si by (auto simp: streams_ok_def split: if_splits)
    ultimately have co: "core ?c (set_conn ?c u)" using parts(1) inv u by (simp add: core_def)
    have "recv_waits ?c (set_conn ?c u)" using rw g(2) SendOperation u by (simp add: recv_waits_def set_conn_def)
    moreover have "\<not> is_hupd ?c \<longrightarrow> bit (wait_events ?c) 1 \<longrightarrow> sock_error (set_conn ?c u)" using sw st err by (auto simp: send_waits_def)
    ultimately have "\<exists>c' t. connection_send_socket wa ?c (set_conn ?c u) = Some t \<and> conn_ok c' t"
      using conn_send_ok [OF co, of wa] err a u by (simp add: set_conn_def)
    moreover have "job_operation_data (send_iface c) \<noteq> []" using len parts(3) by (auto simp: ifaces_ok_def)
    ultimately show ?thesis
      using SendOperation c si st err
      by (simp add: Stream_job_operation_def connection_send_if_handler_send_def Let_def)
  next
    case SendDone
    then have si: "send_inited c" "si_state (send_iface c) = STATE_DONE_PENDING"
      using g(1) parts(2) by (auto simp: jobs_ok_def side_jobs_def)
    let ?c = "c\<lparr>send_iface := (send_iface c)\<lparr>si_state := STATE_NONE\<rparr>\<rparr>"
    let ?u = "u\<lparr>accepted := accepted s @ take (job_done_len (send_iface c)) (job_operation_data (send_iface c)), outgoing := []\<rparr>"
    have "jobs_ok ?c g" using parts(2) g si SendDone by (auto simp: jobs_ok_def side_jobs_def)
    moreover have "ifaces_ok ?c" using parts(3) si by (simp add: ifaces_ok_def iface_ok_def)
    moreover have "streams_ok ?c ?u" using parts(4) si u by (auto simp: streams_ok_def split: if_splits)
    ultimately have "core ?c ?u" using parts(1) inv u by (simp add: core_def)
    then have "conn_ok ?c (set_conn ?c ?u)"
      using sw rw g(2) SendDone u by (simp add: conn_ok_def send_waits_def recv_waits_def set_conn_def)
    then show ?thesis using SendDone c si parts(3) u by (auto simp: Stream_job_done_def ifaces_ok_def iface_ok_def)
  next
    case RecvJob
    then have st: "recv_state c = RECV_STATE_BUSY" using g(1) parts(2) by (simp add: jobs_ok_def)
    have "jobs_ok c g" using parts(2) g RecvJob by (auto simp: jobs_ok_def side_jobs_def)
    then have co: "core c u" using parts inv u by (simp add: core_def)
    have "\<not> is_hupd c \<longrightarrow> bit (wait_events c) 0 \<longrightarrow> sock_error u" using rw g(1) RecvJob err u by (simp add: recv_waits_def)
    then have "\<exists>c' t. connection_recv ra c u = Some t \<and> conn_ok c' t"
      using conn_recv_ok [OF co st err sw, of ra] g(2) RecvJob a u by simp
    then show ?thesis using RecvJob c st err by (simp add: connection_recv_job_handler_def)
  next
    case RecvOperation
    then have si: "recv_inited c" "si_state (recv_iface c) = STATE_OPERATION_PENDING"
      using g(1) parts(2) by (auto simp: jobs_ok_def side_jobs_def)
    then have st: "recv_state c = RECV_STATE_READY" and len: "0 < job_operation_len (recv_iface c)"
      using parts(3) by (cases "recv_state c"; simp add: ifaces_ok_def iface_ok_def recv_inited_def)+
    let ?i = "(recv_iface c)\<lparr>si_state := STATE_BUSY\<rparr>"
    let ?c = "c\<lparr>recv_iface := ?i, recv_busy_data_avail := job_operation_len (recv_iface c), recv_state := RECV_STATE_BUSY\<rparr>"
    have "jobs_ok ?c g" using parts(2) g si RecvOperation by (auto simp: jobs_ok_def side_jobs_def)
    moreover have "ifaces_ok ?c" using parts(3) si by (simp add: ifaces_ok_def iface_ok_def)
    moreover have "streams_ok ?c s" using parts(4) si by (auto simp: streams_ok_def split: if_splits)
    ultimately have co: "core ?c (set_conn ?c u)" using parts(1) inv u by (simp add: core_def)
    have "send_waits ?c" using sw by (simp add: send_waits_def)
    moreover have "RecvJob \<notin> set (pg_jobs g)" using parts(2) g(2) st by (auto simp: jobs_ok_def)
    moreover have "\<not> is_hupd ?c \<longrightarrow> bit (wait_events ?c) 0 \<longrightarrow> sock_error (set_conn ?c u)" using rw st err by (auto simp: recv_waits_def)
    ultimately have "\<exists>c' t. connection_recv ra ?c (set_conn ?c u) = Some t \<and> conn_ok c' t"
      using conn_recv_ok [OF co, of ra] err a u by (simp add: set_conn_def)
    then show ?thesis
      using RecvOperation c si st err len
      by (simp add: Stream_job_operation_def connection_recv_if_handler_recv_def Let_def)
  next
    case RecvDone
    then have si: "recv_inited c" "si_state (recv_iface c) = STATE_DONE_PENDING"
      using g(1) parts(2) by (auto simp: jobs_ok_def side_jobs_def)
    let ?c = "c\<lparr>recv_iface := (recv_iface c)\<lparr>si_state := STATE_NONE\<rparr>\<rparr>"
    let ?u = "u\<lparr>delivered := delivered s @ take (job_done_len (recv_iface c)) (incoming s), incoming := []\<rparr>"
    have "jobs_ok ?c g" using parts(2) g si RecvDone by (auto simp: jobs_ok_def side_jobs_def)
    moreover have "ifaces_ok ?c" using parts(3) si by (simp add: ifaces_ok_def iface_ok_def)
    moreover have "streams_ok ?c ?u" using parts(4) si u by (auto simp: streams_ok_def split: if_splits)
    ultimately have "core ?c ?u" using parts(1) inv u by (simp add: core_def)
    then have "conn_ok ?c (set_conn ?c ?u)"
      using sw rw g(2) RecvDone u by (simp add: conn_ok_def send_waits_def recv_waits_def set_conn_def)
    then show ?thesis using RecvDone c si parts(3) u by (auto simp: Stream_job_done_def ifaces_ok_def iface_ok_def)
  next
    case (OtherJob x)
    have "jobs_ok c g" using parts(2) g OtherJob by (auto simp: jobs_ok_def side_jobs_def)
    then have "conn_ok c u" using ok inv u g(2) OtherJob by (auto simp: conn_ok_def core_def recv_waits_def)
    then show ?thesis using OtherJob by auto
  qed
qed

lemma dispatch_absent:
  assumes ab: "absent (reactor s)" and inv: "reactor_inv (reactor s)" and it: "BReactor_iterate now as (reactor s) = Some (d, r)"
    "dispatch_ok (reactor s) d r"
  shows "conn_dispatch d wa ra u = Some u \<and> absent r"
proof (cases "\<exists>j. d = DispatchJob j")
  case True
  then obtain j where j: "d = DispatchJob j" by blast
  from iterate_job [OF it(1) [unfolded j]] obtain g where
    g: "BPendingGroup_ExecuteJob (pending_jobs (reactor s)) = Some (j, g)" "r = (reactor s)\<lparr>pending_jobs := g\<rparr>" by blast
  have x: "j \<in> pg_objs (pending_jobs (reactor s))" "pg_objs g = pg_objs (pending_jobs (reactor s))"
    using execute_job_set [OF reactor_invD(5) [OF inv] g(1)] reactor_invD(5) [OF inv] by (auto simp: pending_wf_def)
  then have "other_job j" using ab by (simp add: absent_def)
  then show ?thesis using ab g(2) x(2) j by (auto simp: other_job_def absent_def)
next
  case False
  have "k \<noteq> conn_bfd" if "d = DispatchFd k ev" for k ev using it(2) that ab by (auto simp: absent_def)
  then have "conn_dispatch d wa ra u = Some u" using False by (cases d) auto
  then show ?thesis using same_use_absent [OF iterate_use [OF it(1)] ab] False by blast
qed

lemma dispatch_present:
  assumes ok: "conn_ok c s" and err: "\<not> d_err c" and it: "BReactor_iterate now as (reactor s) = Some (d, r)" "reactor_inv r"
    "dispatch_ok (reactor s) d r"
    and u: "u = s\<lparr>reactor := r, sock_error := sock_error s \<or> error_announced d\<rparr>" and ans: "answers_ok wa ra u"
  shows "\<exists>c' t. conn_dispatch d wa ra u = Some t \<and> conn_ok c' t"
proof (cases "\<exists>j. d = DispatchJob j")
  case True
  then obtain j where j: "d = DispatchJob j" by blast
  from iterate_job [OF it(1) [unfolded j]] obtain g where
    g: "BPendingGroup_ExecuteJob (pending_jobs (reactor s)) = Some (j, g)" "r = (reactor s)\<lparr>pending_jobs := g\<rparr>" by blast
  then show ?thesis using dispatch_job_ok [OF ok err g(1) it(2) [unfolded g(2)] _ ans] u j by simp
next
  case False
  have use: "same_use (reactor s) r" using iterate_use [OF it(1)] False by blast
  have cu: "conn_ok c u" unfolding u by (rule same_use_conn [OF use it(2) ok]) simp
  show ?thesis
  proof (cases "\<exists>ev. d = DispatchFd conn_bfd ev")
    case True
    then obtain ev where d: "d = DispatchFd conn_bfd ev" by blast
    obtain b where b: "fds (reactor s) conn_bfd = Some b" "active b" "bit ev 0 \<longrightarrow> bit (waitEvents b) 0"
      "bit ev 1 \<longrightarrow> bit (waitEvents b) 1" "nothing_before_fds (reactor s)"
      using it(3) d by auto
    then have w: "\<not> is_hupd c" "waitEvents b = wait_events c" using ok by (auto simp: conn_ok_def core_def desc_ok_def)
    have "pg_jobs (pending_jobs (reactor u)) = []"
      using b(5) use u by (simp add: nothing_before_fds_def BPendingGroup_HasJobs_def same_use_def)
    then have "\<exists>c' t. connection_fd_handler ev wa ra c u = Some t \<and> conn_ok c' t"
      using connection_fd_handler_ok [OF cu err w(1), of ev wa ra] b(3,4) w(2) d u ans by simp
    then show ?thesis using d cu by (simp add: conn_ok_def)
  next
    case other: False
    have "conn_dispatch d wa ra u = Some u" using False other by (cases d) auto
    then show ?thesis using cu by blast
  qed
qed

text \<open>One iteration of the loop with the handler it calls.\<close>

lemma conn_loop_ok:
  assumes inv: "conn_inv s" and err: "no_error s"
    and now: "now_seen (reactor s) \<le> now" "epoll_ok (first_deadline (reactor s)) now as (efd (reactor s))"
  shows "\<exists>d r. BReactor_iterate now as (reactor s) = Some (d, r) \<and>
    (\<forall>wa ra u. u = s\<lparr>reactor := r, sock_error := sock_error s \<or> error_announced d\<rparr> \<longrightarrow> answers_ok wa ra u \<longrightarrow>
       (\<exists>t. conn_dispatch d wa ra u = Some t \<and> conn_inv t))"
proof -
  have ri: "reactor_inv (reactor s)" using inv by (simp add: conn_inv_def)
  obtain d r where it: "BReactor_iterate now as (reactor s) = Some (d, r)" "reactor_inv r" "dispatch_ok (reactor s) d r"
    using iterate_ok [OF ri now] by blast
  have "\<exists>t. conn_dispatch d wa ra u = Some t \<and> conn_inv t"
    if u: "u = s\<lparr>reactor := r, sock_error := sock_error s \<or> error_announced d\<rparr>" and ans: "answers_ok wa ra u" for wa ra u
  proof (cases "conn s")
    case None
    then have ab: "absent (reactor s)" using inv by (simp add: conn_inv_def)
    have "conn_dispatch d wa ra u = Some u \<and> absent r" by (rule dispatch_absent [OF ab ri it(1,3)])
    then show ?thesis using None u it(2) by (simp add: conn_inv_def)
  next
    case (Some c)
    then have ok: "conn_ok c s" and e: "\<not> d_err c" using inv err by (auto simp: conn_inv_def no_error_def)
    from dispatch_present [OF ok e it u ans] show ?thesis by (auto simp: conn_inv_def conn_ok_def core_def)
  qed
  then show ?thesis using it(1) by blast
qed

section \<open>The users\<close>

text \<open>Other users of the reactor.\<close>

lemma other_job_frame:
  assumes "other_op (JobOp x)" "pending_do x g = Some h" "\<not> other_job j"
  shows "j \<in> pg_objs h \<longleftrightarrow> j \<in> pg_objs g" "j \<in> set (pg_jobs h) \<longleftrightarrow> j \<in> set (pg_jobs g)"
  using assms by (cases x; auto simp: pending_defs other_job_def split: if_splits dest: notin_set_remove1)+

definition same_conn_use :: "'o job BReactor \<Rightarrow> 'o job BReactor \<Rightarrow> bool" where
  "same_conn_use r r' \<longleftrightarrow>
     fds r' conn_bfd = fds r conn_bfd \<and> (limits r' send_limit = None \<longleftrightarrow> limits r send_limit = None) \<and>
     (limits r' recv_limit = None \<longleftrightarrow> limits r recv_limit = None) \<and>
     (\<forall>j. \<not> other_job j \<longrightarrow> (j \<in> pg_objs (pending_jobs r') \<longleftrightarrow> j \<in> pg_objs (pending_jobs r)) \<and>
        (j \<in> set (pg_jobs (pending_jobs r')) \<longleftrightarrow> j \<in> set (pg_jobs (pending_jobs r))))"

lemma same_conn_useI:
  assumes "fds r' conn_bfd = fds r conn_bfd" "limits r' send_limit = None \<longleftrightarrow> limits r send_limit = None"
    "limits r' recv_limit = None \<longleftrightarrow> limits r recv_limit = None" "pending_jobs r' = pending_jobs r"
  shows "same_conn_use r r'"
  using assms by (simp add: same_conn_use_def)

lemma remove_timer_use: 
  assumes "BReactor_RemoveSmallTimer k r = Some r'"
  shows "same_conn_use r r'"
proof -
  obtain t where "timers r k = Some t" using assms by (auto simp: BReactor_RemoveSmallTimer_def bind_eq_Some_conv)
  then show ?thesis
    using assms by (intro same_conn_useI; cases "state t") (auto simp: BReactor_RemoveSmallTimer_def set_timer_state_def)
qed

lemma set_timer_use:
  assumes "BReactor_SetSmallTimer k b t now r = Some r'"
  shows "same_conn_use r r'"
proof -
  obtain r1 where r1: "BReactor_RemoveSmallTimer k r = Some r1"
    "fds r' = fds r1" "limits r' = limits r1" "pending_jobs r' = pending_jobs r1"
    using assms by (auto simp: BReactor_SetSmallTimer_def bind_eq_Some_conv Let_def split: if_splits)
  then show ?thesis using remove_timer_use [OF r1(1)] by (simp add: same_conn_use_def)
qed

lemma remove_fd_use:
  assumes x: "BReactor_RemoveFileDescriptor k r = Some r'" and k: "k \<noteq> conn_bfd"
  shows "same_conn_use r r'"
proof -
  obtain b where "fds r k = Some b" using x by (cases "fds r k") (simp_all add: BReactor_RemoveFileDescriptor_def)
  then have "fds r' conn_bfd = fds r conn_bfd \<and> limits r' = limits r \<and> pending_jobs r' = pending_jobs r"
    using x k by (cases "epoll_returned_ptr b") (auto simp: BReactor_RemoveFileDescriptor_def set_fd_def Let_def)
  then show ?thesis by (simp add: same_conn_use_def)
qed

lemma set_events_use:
  assumes x: "BReactor_SetFileDescriptorEvents k ev r = Some r'" and k: "k \<noteq> conn_bfd"
  shows "same_conn_use r r'"
proof -
  obtain b where "fds r k = Some b" using x by (cases "fds r k") (simp_all add: BReactor_SetFileDescriptorEvents_def)
  then have "fds r' conn_bfd = fds r conn_bfd \<and> limits r' = limits r \<and> pending_jobs r' = pending_jobs r"
    using x k by (auto simp: BReactor_SetFileDescriptorEvents_def set_fd_def Let_def split: if_splits)
  then show ?thesis by (simp add: same_conn_use_def)
qed

lemma add_fd_use:
  assumes x: "BReactor_AddFileDescriptor ctl k r = Some (y, r')" and k: "k \<noteq> conn_bfd"
  shows "same_conn_use r r'"
proof -
  obtain b where "fds r k = Some b" using x by (cases "fds r k") (simp_all add: BReactor_AddFileDescriptor_def)
  then have "fds r' conn_bfd = fds r conn_bfd \<and> limits r' = limits r \<and> pending_jobs r' = pending_jobs r"
    using x k by (auto simp: BReactor_AddFileDescriptor_def set_fd_def Let_def split: if_splits)
  then show ?thesis by (simp add: same_conn_use_def)
qed

lemma limit_op_use:
  assumes "k \<noteq> send_limit" "k \<noteq> recv_limit"
  shows "BReactorLimit_Free k r = Some r' \<Longrightarrow> same_conn_use r r'"
    "BReactorLimit_Increment k r = Some (x, r') \<Longrightarrow> same_conn_use r r'"
    "BReactorLimit_SetLimit k n r = Some r' \<Longrightarrow> same_conn_use r r'"
    "BReactorLimit_Init k n r = Some r' \<Longrightarrow> same_conn_use r r'"
  using assms
  by (auto intro!: same_conn_useI simp: BReactorLimit_Free_def BReactorLimit_Increment_def BReactorLimit_SetLimit_def
      BReactorLimit_Init_def bind_eq_Some_conv Let_def split: if_splits)

lemma job_op_use:
  assumes "other_op (JobOp x)" "pending_do x (pending_jobs r) = Some g"
  shows "same_conn_use r (r\<lparr>pending_jobs := g\<rparr>)"
  using other_job_frame [OF assms] by (simp add: same_conn_use_def)

lemma other_op_frame:
  assumes "other_op y" "reactor_do y r = Some r'"
  shows "same_conn_use r r'"
proof (cases y)
  case (JobOp x)
  then show ?thesis using assms job_op_use [of x r] by (auto simp: bind_eq_Some_conv simp del: other_op.simps)
qed (use assms in \<open>auto simp: set_fd_def BReactor_Quit_def
    intro: remove_timer_use set_timer_use remove_fd_use set_events_use add_fd_use limit_op_use same_conn_useI\<close>)

lemma conn_jobs_not_other [simp]:
  "\<not> other_job SendJob" "\<not> other_job SendOperation" "\<not> other_job SendDone"
  "\<not> other_job RecvJob" "\<not> other_job RecvOperation" "\<not> other_job RecvDone"
  by (simp_all add: other_job_def)

lemma other_step_ok:
  assumes inv: "conn_inv s" and y: "reactor_allowed y (reactor s)" "other_op y"
  shows "\<exists>r. reactor_do y (reactor s) = Some r \<and> conn_inv (s\<lparr>reactor := r\<rparr>)"
proof -
  have "reactor_inv (reactor s)" using inv by (simp add: conn_inv_def)
  from reactor_do_ok [OF this y(1)] obtain r where r: "reactor_do y (reactor s) = Some r" "reactor_inv r" by blast
  have use: "same_conn_use (reactor s) r" by (rule other_op_frame [OF y(2) r(1)])
  have "conn_inv (s\<lparr>reactor := r\<rparr>)"
  proof (cases "conn s")
    case None
    then show ?thesis using inv r(2) use by (auto simp: conn_inv_def absent_def same_conn_use_def)
  next
    case (Some c)
    then have ok: "conn_ok c s" using inv by (simp add: conn_inv_def)
    have "desc_ok c r" "jobs_ok c (pending_jobs r)"
      using ok use by (auto simp: conn_ok_def core_def desc_ok_def jobs_ok_def side_jobs_def same_conn_use_def)
    then show ?thesis
      using ok r(2) use Some by (auto simp: conn_inv_def conn_ok_def core_def recv_waits_def same_conn_use_def)
  qed
  then show ?thesis using r(1) by blast
qed

text \<open>The jobs of an interface.\<close>

lemma job_init_ok:
  assumes "pending_wf g" "j \<notin> pg_objs g"
  shows "\<exists>h. BPending_Init j g = Some h \<and> pending_wf h \<and> pg_objs h = insert j (pg_objs g) \<and> pg_jobs h = pg_jobs g"
  using assms pending_do_wf [OF assms(1), of "PInit j"] by (auto simp: BPending_Init_def BSmallPending_Init_def)

lemma job_free_ok:
  assumes "pending_wf g" "j \<in> pg_objs g"
  shows "\<exists>h. BPending_Free j g = Some h \<and> pending_wf h \<and> pg_objs h = pg_objs g - {j} \<and> set (pg_jobs h) = set (pg_jobs g) - {j}"
proof -
  have "pending_ctr g > 0" using assms by (auto simp: pending_wf_def card_gt_0_iff)
  then show ?thesis
    using assms pending_do_wf [OF assms(1), of "PFree j"]
    by (auto simp: BPending_Free_def BSmallPending_Free_def pending_wf_def)
qed

lemma job_set_ok:
  assumes "pending_wf g" "j \<in> pg_objs g"
  shows "\<exists>h. BPending_Set j g = Some h \<and> pending_wf h \<and> pg_objs h = pg_objs g \<and> set (pg_jobs h) = insert j (set (pg_jobs g))"
  using assms pending_do_wf [OF assms(1), of "PSet j"]
  by (auto simp: BPending_Set_def BSmallPending_Set_def pending_wf_def)

lemma jobs_registered: "pending_wf g \<Longrightarrow> j \<notin> pg_objs g \<Longrightarrow> j \<notin> set (pg_jobs g)"
  by (auto simp: pending_wf_def)

lemma init_jobs_ok:
  assumes wf: "pending_wf g" and new: "op \<notin> pg_objs g" "dn \<notin> pg_objs g" "j \<notin> pg_objs g" and d: "op \<noteq> dn" "op \<noteq> j" "dn \<noteq> j"
  shows "\<exists>h k. Stream_Init op dn x g = Some (\<lparr>si_state = STATE_NONE, job_operation_data = x, job_operation_len = 0, job_done_len = 0,
      handler_done = False\<rparr>, h) \<and> BPending_Init j h = Some k \<and> pending_wf k \<and> pg_objs k = insert j (insert dn (insert op (pg_objs g))) \<and>
    pg_jobs k = pg_jobs g"
proof -
  obtain g1 where g1: "BPending_Init op g = Some g1" "pending_wf g1" "pg_objs g1 = insert op (pg_objs g)" "pg_jobs g1 = pg_jobs g"
    using job_init_ok [OF wf new(1)] by blast
  then obtain g2 where g2: "BPending_Init dn g1 = Some g2" "pending_wf g2" "pg_objs g2 = insert dn (pg_objs g1)" "pg_jobs g2 = pg_jobs g"
    using job_init_ok [OF g1(2), of dn] new(2) d by auto
  then obtain g3 where "BPending_Init j g2 = Some g3" "pending_wf g3" "pg_objs g3 = insert j (pg_objs g2)" "pg_jobs g3 = pg_jobs g"
    using job_init_ok [OF g2(2), of j] new(3) d g1(3) by auto
  then show ?thesis using g1 g2 by (simp add: Stream_Init_def)
qed

lemma free_jobs_ok:
  assumes wf: "pending_wf g" and reg: "op \<in> pg_objs g" "dn \<in> pg_objs g" "j \<in> pg_objs g" and d: "op \<noteq> dn" "op \<noteq> j" "dn \<noteq> j"
  shows "\<exists>h k. BPending_Free j g = Some h \<and> Stream_Free op dn h = Some k \<and> pending_wf k \<and> pg_objs k = pg_objs g - {j, op, dn} \<and>
    set (pg_jobs k) = set (pg_jobs g) - {j, op, dn}"
proof -
  obtain g1 where g1: "BPending_Free j g = Some g1" "pending_wf g1" "pg_objs g1 = pg_objs g - {j}" "set (pg_jobs g1) = set (pg_jobs g) - {j}"
    using job_free_ok [OF wf reg(3)] by blast
  then obtain g2 where g2: "BPending_Free dn g1 = Some g2" "pending_wf g2" "pg_objs g2 = pg_objs g1 - {dn}"
      "set (pg_jobs g2) = set (pg_jobs g1) - {dn}"
    using job_free_ok [OF g1(2), of dn] reg(2) d by auto
  then obtain g3 where "BPending_Free op g2 = Some g3" "pending_wf g3" "pg_objs g3 = pg_objs g2 - {op}"
      "set (pg_jobs g3) = set (pg_jobs g2) - {op}"
    using job_free_ok [OF g2(2), of op] reg(1) d g1(3) by auto
  then show ?thesis using g1 g2 by (auto simp: Stream_Free_def)
qed

text \<open>The send and the receive interface of a connection.\<close>

lemma send_init_ok:
  assumes ok: "conn_ok c s" and st: "\<not> d_err c" "\<not> send_inited c" and us: "\<not> unusable s"
  shows "\<exists>c' t. BConnection_SendAsync_Init c s = Some t \<and> conn_ok c' t"
proof -
  let ?g = "pending_jobs (reactor s)"
  have p: "desc_ok c (reactor s)" "jobs_ok c ?g" "ifaces_ok c" "streams_ok c s" "reactor_inv (reactor s)"
    "send_waits c" "recv_waits c s" using ok by (auto simp: conn_ok_def core_def)
  have n: "SendOperation \<notin> pg_objs ?g" "SendDone \<notin> pg_objs ?g" "SendJob \<notin> pg_objs ?g"
    using p(2) st(2) by (auto simp: jobs_ok_def side_jobs_def)
  let ?i = "\<lparr>si_state = STATE_NONE, job_operation_data = [], job_operation_len = 0, job_done_len = 0, handler_done = False\<rparr> ::
    StreamPassInterface"
  obtain h k where k: "Stream_Init SendOperation SendDone [] ?g = Some (?i, h)" "BPending_Init SendJob h = Some k" "pending_wf k"
    "pg_objs k = insert SendJob (insert SendDone (insert SendOperation (pg_objs ?g)))" "pg_jobs k = pg_jobs ?g"
    using init_jobs_ok [OF reactor_invD(5) [OF p(5)] n, of "[] :: bytes"] by auto
  let ?c = "c\<lparr>send_iface := ?i, send_state := SEND_STATE_READY\<rparr>"
  let ?s = "s\<lparr>reactor := (reactor s)\<lparr>pending_jobs := k\<rparr>\<rparr>"
  have "jobs_ok ?c k"
    using p(2) k(4,5) st(2) jobs_registered [OF reactor_invD(5) [OF p(5)]] n by (auto simp: jobs_ok_def side_jobs_def)
  moreover have "ifaces_ok ?c" using p(3) by (simp add: ifaces_ok_def iface_ok_def)
  moreover have "streams_ok ?c ?s" using p(4) st(2) us by (auto simp: streams_ok_def split: if_splits)
  ultimately have "core ?c ?s" using p(1,5) k(3) by (simp add: core_def reactor_inv_jobs)
  moreover have "send_waits ?c" using p(6) st by (auto simp: send_waits_def send_inited_def)
  moreover have "recv_waits ?c ?s" using p(7) k(5) by (simp add: recv_waits_def)
  ultimately have "conn_ok ?c (set_conn ?c ?s)" by (simp add: conn_ok_def recv_waits_def)
  then show ?thesis using k(1,2) st by (auto simp: BConnection_SendAsync_Init_def send_inited_def)
qed

lemma recv_init_ok:
  assumes ok: "conn_ok c s" and st: "\<not> d_err c" "\<not> recv_inited c" and us: "\<not> unusable s"
  shows "\<exists>c' t. BConnection_RecvAsync_Init c s = Some t \<and> conn_ok c' t"
proof -
  let ?g = "pending_jobs (reactor s)"
  have p: "desc_ok c (reactor s)" "jobs_ok c ?g" "ifaces_ok c" "streams_ok c s" "reactor_inv (reactor s)"
    "send_waits c" "recv_waits c s" using ok by (auto simp: conn_ok_def core_def)
  have rs: "recv_state c = RECV_STATE_NOT_INITED" using st(2) p(3) by (auto simp: recv_inited_def ifaces_ok_def)
  have n: "RecvOperation \<notin> pg_objs ?g" "RecvDone \<notin> pg_objs ?g" "RecvJob \<notin> pg_objs ?g"
    using p(2) st(2) by (auto simp: jobs_ok_def side_jobs_def)
  let ?i = "\<lparr>si_state = STATE_NONE, job_operation_data = (), job_operation_len = 0, job_done_len = 0, handler_done = False\<rparr>"
  obtain h k where k: "Stream_Init RecvOperation RecvDone () ?g = Some (?i, h)" "BPending_Init RecvJob h = Some k" "pending_wf k"
    "pg_objs k = insert RecvJob (insert RecvDone (insert RecvOperation (pg_objs ?g)))" "pg_jobs k = pg_jobs ?g"
    using init_jobs_ok [OF reactor_invD(5) [OF p(5)] n, of "()"] by auto
  let ?c = "c\<lparr>recv_iface := ?i, recv_state := RECV_STATE_READY\<rparr>"
  let ?s = "s\<lparr>reactor := (reactor s)\<lparr>pending_jobs := k\<rparr>\<rparr>"
  have nj: "RecvJob \<notin> set (pg_jobs ?g)" by (rule jobs_registered [OF reactor_invD(5) [OF p(5)] n(3)])
  have "jobs_ok ?c k"
    using p(2) k(4,5) st(2) jobs_registered [OF reactor_invD(5) [OF p(5)]] n by (auto simp: jobs_ok_def side_jobs_def)
  moreover have "ifaces_ok ?c" using p(3) by (simp add: ifaces_ok_def iface_ok_def)
  moreover have "streams_ok ?c ?s" using p(4) st(2) us by (auto simp: streams_ok_def split: if_splits)
  ultimately have "core ?c ?s" using p(1,5) k(3) by (simp add: core_def reactor_inv_jobs)
  moreover have "send_waits ?c" using p(6) by (simp add: send_waits_def)
  moreover have "recv_waits ?c ?s" using p(7) k(5) st rs nj by (simp add: recv_waits_def)
  ultimately have "conn_ok ?c (set_conn ?c ?s)" by (simp add: conn_ok_def recv_waits_def)
  then show ?thesis using k(1,2) st rs by (auto simp: BConnection_RecvAsync_Init_def)
qed

lemma stop_events_ok:
  assumes ok: "core c s"
  shows "\<exists>e s'. (if \<not> is_hupd c then update_events (wait_events c AND NOT ev) c s else Some (c, s)) = Some (c\<lparr>wait_events := e\<rparr>, s') \<and>
    core (c\<lparr>wait_events := e\<rparr>) s' \<and> pending_jobs (reactor s') = pending_jobs (reactor s) \<and> sock_error s' = sock_error s \<and>
    unusable s' = unusable s \<and> (\<not> is_hupd c \<longrightarrow> e = wait_events c AND NOT ev)"
proof (cases "is_hupd c")
  case True
  then show ?thesis using ok by (intro exI [of _ "wait_events c"] exI [of _ s]) simp
next
  case False
  have "read_write (wait_events c AND NOT ev)" using ok by (simp add: core_def desc_ok_def)
  from update_events_ok [OF ok False this] show ?thesis using False by auto
qed

lemma send_free_ok:
  assumes ok: "conn_ok c s" and st: "send_inited c"
  shows "\<exists>c' t. BConnection_SendAsync_Free c s = Some t \<and> conn_ok c' t"
proof -
  have w: "send_waits c" "recv_waits c s" and co: "core c s" using ok by (auto simp: conn_ok_def)
  obtain e s1 where s1: "(if \<not> is_hupd c then update_events (wait_events c AND NOT BREACTOR_WRITE) c s else Some (c, s)) =
      Some (c\<lparr>wait_events := e\<rparr>, s1)" "core (c\<lparr>wait_events := e\<rparr>) s1" "pending_jobs (reactor s1) = pending_jobs (reactor s)"
      "sock_error s1 = sock_error s" "unusable s1 = unusable s" "\<not> is_hupd c \<longrightarrow> e = wait_events c AND NOT BREACTOR_WRITE"
    using stop_events_ok [OF co, of BREACTOR_WRITE] by (elim exE conjE) (rule that)
  let ?g = "pending_jobs (reactor s)"
  have p: "desc_ok (c\<lparr>wait_events := e\<rparr>) (reactor s1)" "jobs_ok c ?g" "ifaces_ok c" "streams_ok c s1" "reactor_inv (reactor s1)"
    using s1(2,3) by (simp_all add: core_def)
  have reg: "SendOperation \<in> pg_objs ?g" "SendDone \<in> pg_objs ?g" "SendJob \<in> pg_objs ?g"
    using p(2) st by (auto simp: jobs_ok_def side_jobs_def)
  have wf: "pending_wf ?g" using reactor_invD(5) [OF p(5)] s1(3) by simp
  obtain h k where k: "BPending_Free SendJob ?g = Some h" "Stream_Free SendOperation SendDone h = Some k" "pending_wf k"
    "pg_objs k = pg_objs ?g - {SendJob, SendOperation, SendDone}" "set (pg_jobs k) = set (pg_jobs ?g) - {SendJob, SendOperation, SendDone}"
    using free_jobs_ok [OF wf reg] by auto
  let ?c = "c\<lparr>wait_events := e, send_state := SEND_STATE_NOT_INITED\<rparr>"
  let ?s = "s1\<lparr>reactor := (reactor s1)\<lparr>pending_jobs := k\<rparr>, unusable := unusable s1 \<or> si_state (send_iface c) \<noteq> STATE_NONE\<rparr>"
  have "jobs_ok ?c k" using p(2) k(4,5) by (auto simp: jobs_ok_def side_jobs_def)
  moreover have "ifaces_ok ?c" using p(3) by (simp add: ifaces_ok_def iface_ok_def)
  moreover have "streams_ok ?c ?s" using p(4) st by (auto simp: streams_ok_def split: if_splits)
  ultimately have "core ?c ?s" using p(1,5) k(3) by (simp add: core_def reactor_inv_jobs)
  moreover have "send_waits ?c" using s1(6) by (auto simp: send_waits_def bit_simps)
  moreover have "\<not> is_hupd c \<longrightarrow> bit e 0 = bit (wait_events c) 0" using s1(6) by (auto simp: bit_simps)
  then have "recv_waits ?c ?s" using w(2) k(5) s1(4) unfolding recv_waits_def by simp blast
  ultimately have fin: "conn_ok ?c (set_conn ?c ?s)" by (simp add: conn_ok_def recv_waits_def)
  have "send_state c = SEND_STATE_READY \<or> send_state c = SEND_STATE_BUSY"
    using st by (cases "send_state c") (auto simp: send_inited_def)
  then have "BConnection_SendAsync_Free c s = Some (set_conn ?c ?s)"
    unfolding BConnection_SendAsync_Free_def s1(1) using k(1,2) s1(3) by (simp add: with_jobs_def with_reactor_def)
  with fin show ?thesis by blast
qed

lemma recv_free_ok:
  assumes ok: "conn_ok c s" and st: "recv_inited c"
  shows "\<exists>c' t. BConnection_RecvAsync_Free c s = Some t \<and> conn_ok c' t"
proof -
  have w: "send_waits c" "recv_waits c s" and co: "core c s" using ok by (auto simp: conn_ok_def)
  obtain e s1 where s1: "(if \<not> is_hupd c then update_events (wait_events c AND NOT BREACTOR_READ) c s else Some (c, s)) =
      Some (c\<lparr>wait_events := e\<rparr>, s1)" "core (c\<lparr>wait_events := e\<rparr>) s1" "pending_jobs (reactor s1) = pending_jobs (reactor s)"
      "sock_error s1 = sock_error s" "unusable s1 = unusable s" "\<not> is_hupd c \<longrightarrow> e = wait_events c AND NOT BREACTOR_READ"
    using stop_events_ok [OF co, of BREACTOR_READ] by (elim exE conjE) (rule that)
  let ?g = "pending_jobs (reactor s)"
  have p: "desc_ok (c\<lparr>wait_events := e\<rparr>) (reactor s1)" "jobs_ok c ?g" "ifaces_ok c" "streams_ok c s1" "reactor_inv (reactor s1)"
    using s1(2,3) by (simp_all add: core_def)
  have reg: "RecvOperation \<in> pg_objs ?g" "RecvDone \<in> pg_objs ?g" "RecvJob \<in> pg_objs ?g"
    using p(2) st by (auto simp: jobs_ok_def side_jobs_def)
  have wf: "pending_wf ?g" using reactor_invD(5) [OF p(5)] s1(3) by simp
  obtain h k where k: "BPending_Free RecvJob ?g = Some h" "Stream_Free RecvOperation RecvDone h = Some k" "pending_wf k"
    "pg_objs k = pg_objs ?g - {RecvJob, RecvOperation, RecvDone}" "set (pg_jobs k) = set (pg_jobs ?g) - {RecvJob, RecvOperation, RecvDone}"
    using free_jobs_ok [OF wf reg] by auto
  let ?c = "c\<lparr>wait_events := e, recv_state := RECV_STATE_NOT_INITED\<rparr>"
  let ?s = "s1\<lparr>reactor := (reactor s1)\<lparr>pending_jobs := k\<rparr>, unusable := unusable s1 \<or> si_state (recv_iface c) \<noteq> STATE_NONE\<rparr>"
  have "jobs_ok ?c k" using p(2) k(4,5) by (auto simp: jobs_ok_def side_jobs_def)
  moreover have "ifaces_ok ?c" using p(3) by (simp add: ifaces_ok_def iface_ok_def)
  moreover have "streams_ok ?c ?s" using p(4) st by (auto simp: streams_ok_def split: if_splits)
  ultimately have "core ?c ?s" using p(1,5) k(3) by (simp add: core_def reactor_inv_jobs)
  moreover have "send_waits ?c" using w(1) s1(6) by (auto simp: send_waits_def bit_simps)
  moreover have "recv_waits ?c ?s" using k(5) s1(6) by (auto simp: recv_waits_def bit_simps)
  ultimately have fin: "conn_ok ?c (set_conn ?c ?s)" by (simp add: conn_ok_def recv_waits_def)
  have "recv_state c = RECV_STATE_READY \<or> recv_state c = RECV_STATE_BUSY \<or> recv_state c = RECV_STATE_INITED_CLOSED"
    using st by (cases "recv_state c") (auto simp: recv_inited_def)
  then have "BConnection_RecvAsync_Free c s = Some (set_conn ?c ?s)"
    unfolding BConnection_RecvAsync_Free_def s1(1) using k(1,2) s1(3) by (simp add: with_jobs_def with_reactor_def)
  with fin show ?thesis by blast
qed

text \<open>A user attaches itself to an interface and starts operations.\<close>

lemma attach_ok:
  assumes ok: "conn_ok c s"
  shows "send_inited c \<Longrightarrow> \<not> handler_done (send_iface c) \<Longrightarrow>
      \<exists>i. Stream_User_Init (send_iface c) = Some i \<and> conn_ok (c\<lparr>send_iface := i\<rparr>) (set_conn (c\<lparr>send_iface := i\<rparr>) s)"
    "recv_inited c \<Longrightarrow> \<not> handler_done (recv_iface c) \<Longrightarrow>
      \<exists>i. Stream_User_Init (recv_iface c) = Some i \<and> conn_ok (c\<lparr>recv_iface := i\<rparr>) (set_conn (c\<lparr>recv_iface := i\<rparr>) s)"
proof -
  have p: "desc_ok c (reactor s)" "jobs_ok c (pending_jobs (reactor s))" "ifaces_ok c" "streams_ok c s" "reactor_inv (reactor s)"
    "send_waits c" "recv_waits c s" using ok by (auto simp: conn_ok_def core_def)
  show "\<exists>i. Stream_User_Init (send_iface c) = Some i \<and> conn_ok (c\<lparr>send_iface := i\<rparr>) (set_conn (c\<lparr>send_iface := i\<rparr>) s)"
    if st: "send_inited c" "\<not> handler_done (send_iface c)"
  proof -
    let ?c = "c\<lparr>send_iface := (send_iface c)\<lparr>handler_done := True\<rparr>\<rparr>"
    have "jobs_ok ?c (pending_jobs (reactor s))" using p(2) by (simp add: jobs_ok_def side_jobs_def)
    moreover have "ifaces_ok ?c" using p(3) st by (auto simp: ifaces_ok_def iface_ok_def)
    moreover have "streams_ok ?c s" using p(4) by (simp add: streams_ok_def)
    ultimately have "conn_ok ?c (set_conn ?c s)"
      using p(1,5,6,7) by (simp add: conn_ok_def core_def send_waits_def recv_waits_def)
    then show ?thesis using st by (simp add: Stream_User_Init_def)
  qed
  show "\<exists>i. Stream_User_Init (recv_iface c) = Some i \<and> conn_ok (c\<lparr>recv_iface := i\<rparr>) (set_conn (c\<lparr>recv_iface := i\<rparr>) s)"
    if st: "recv_inited c" "\<not> handler_done (recv_iface c)"
  proof -
    let ?c = "c\<lparr>recv_iface := (recv_iface c)\<lparr>handler_done := True\<rparr>\<rparr>"
    have "jobs_ok ?c (pending_jobs (reactor s))" using p(2) by (simp add: jobs_ok_def side_jobs_def)
    moreover have "ifaces_ok ?c" using p(3) st by (auto simp: ifaces_ok_def iface_ok_def)
    moreover have "streams_ok ?c s" using p(4) by (simp add: streams_ok_def)
    ultimately have "conn_ok ?c (set_conn ?c s)"
      using p(1,5,6,7) by (simp add: conn_ok_def core_def send_waits_def recv_waits_def)
    then show ?thesis using st by (simp add: Stream_User_Init_def)
  qed
qed

lemma send_ok:
  assumes ok: "conn_ok c s" and st: "send_inited c" "handler_done (send_iface c)" "si_state (send_iface c) = STATE_NONE" and d: "d \<noteq> []"
  shows "\<exists>c' t. StreamPassInterface_Sender_Send_socket d c s = Some t \<and> conn_ok c' t"
proof -
  let ?g = "pending_jobs (reactor s)"
  have p: "desc_ok c (reactor s)" "jobs_ok c ?g" "ifaces_ok c" "streams_ok c s" "reactor_inv (reactor s)"
    "send_waits c" "recv_waits c s" using ok by (auto simp: conn_ok_def core_def)
  have "SendOperation \<in> pg_objs ?g" using p(2) st by (auto simp: jobs_ok_def side_jobs_def)
  from job_set_ok [OF reactor_invD(5) [OF p(5)] this] obtain g where
    g: "BPending_Set SendOperation ?g = Some g" "pending_wf g" "pg_objs g = pg_objs ?g" "set (pg_jobs g) = insert SendOperation (set (pg_jobs ?g))"
    by blast
  let ?c = "c\<lparr>send_iface := (send_iface c)\<lparr>job_operation_data := d, job_operation_len := length d, si_state := STATE_OPERATION_PENDING\<rparr>\<rparr>"
  let ?s = "s\<lparr>reactor := (reactor s)\<lparr>pending_jobs := g\<rparr>\<rparr>"
  have "jobs_ok ?c g" using p(2) g(3,4) st by (auto simp: jobs_ok_def side_jobs_def)
  moreover have "ifaces_ok ?c" using p(3) st d by (auto simp: ifaces_ok_def iface_ok_def)
  moreover have "streams_ok ?c ?s" using p(4) st by (auto simp: streams_ok_def split: if_splits)
  ultimately have "core ?c ?s" using p(1,5) g(2) by (simp add: core_def reactor_inv_jobs)
  then have "conn_ok ?c (set_conn ?c ?s)" using p(6,7) g(4) by (simp add: conn_ok_def send_waits_def recv_waits_def)
  then show ?thesis using g(1) st d by (auto simp: StreamPassInterface_Sender_Send_socket_def Stream_User_Operation_def)
qed

lemma recv_ok:
  assumes ok: "conn_ok c s" and st: "recv_inited c" "handler_done (recv_iface c)" "si_state (recv_iface c) = STATE_NONE" and n: "0 < n"
  shows "\<exists>c' t. StreamRecvInterface_Receiver_Recv_socket n c s = Some t \<and> conn_ok c' t"
proof -
  let ?g = "pending_jobs (reactor s)"
  have p: "desc_ok c (reactor s)" "jobs_ok c ?g" "ifaces_ok c" "streams_ok c s" "reactor_inv (reactor s)"
    "send_waits c" "recv_waits c s" using ok by (auto simp: conn_ok_def core_def)
  have "RecvOperation \<in> pg_objs ?g" using p(2) st by (auto simp: jobs_ok_def side_jobs_def)
  from job_set_ok [OF reactor_invD(5) [OF p(5)] this] obtain g where
    g: "BPending_Set RecvOperation ?g = Some g" "pending_wf g" "pg_objs g = pg_objs ?g" "set (pg_jobs g) = insert RecvOperation (set (pg_jobs ?g))"
    by blast
  let ?c = "c\<lparr>recv_iface := (recv_iface c)\<lparr>job_operation_data := (), job_operation_len := n, si_state := STATE_OPERATION_PENDING\<rparr>\<rparr>"
  let ?s = "s\<lparr>reactor := (reactor s)\<lparr>pending_jobs := g\<rparr>\<rparr>"
  have "jobs_ok ?c g" using p(2) g(3,4) st by (auto simp: jobs_ok_def side_jobs_def)
  moreover have "ifaces_ok ?c" using p(3) st n by (auto simp: ifaces_ok_def iface_ok_def)
  moreover have "streams_ok ?c ?s" using p(4) st by (auto simp: streams_ok_def split: if_splits)
  ultimately have "core ?c ?s" using p(1,5) g(2) by (simp add: core_def reactor_inv_jobs)
  then have "conn_ok ?c (set_conn ?c ?s)" using p(6,7) g(4) by (simp add: conn_ok_def send_waits_def recv_waits_def)
  then show ?thesis using g(1) st n by (auto simp: StreamRecvInterface_Receiver_Recv_socket_def Stream_User_Operation_def)
qed

text \<open>A connection is created and freed.\<close>

lemma new_connection_core:
  assumes "reactor_inv r" "\<forall>j\<in>pg_objs (pending_jobs r). other_job j" "fds r conn_bfd = Some b" "active b" "waitEvents b = 0"
    "limits r send_limit \<noteq> None" "limits r recv_limit \<noteq> None"
  shows "conn_ok (new_connection fd cl) (set_conn (new_connection fd cl) ((forget_streams s)\<lparr>reactor := r\<rparr>))"
proof -
  let ?c = "new_connection fd cl"
  have "j \<notin> pg_objs (pending_jobs r)" if "\<not> other_job j" for j using assms(2) that by blast
  then have n: "j \<notin> pg_objs (pending_jobs r)" "j \<notin> set (pg_jobs (pending_jobs r))" if "\<not> other_job j" for j
    using that jobs_registered [OF reactor_invD(5) [OF assms(1)]] by blast+
  have i: "\<not> send_inited ?c" "\<not> recv_inited ?c" by (simp_all add: new_connection_def send_inited_def recv_inited_def)
  have "desc_ok ?c r" using assms by (simp add: desc_ok_def new_connection_def)
  moreover have "jobs_ok ?c (pending_jobs r)" using n i by (simp add: jobs_ok_def side_jobs_def)
  moreover have "ifaces_ok ?c" using i by (simp add: ifaces_ok_def iface_ok_def) (simp add: new_connection_def)
  moreover have "streams_ok ?c ((forget_streams s)\<lparr>reactor := r\<rparr>)" using i by (simp add: streams_ok_def forget_streams_def)
  ultimately have "core ?c ((forget_streams s)\<lparr>reactor := r\<rparr>)" using assms(1) by (simp add: core_def)
  then show ?thesis by (simp add: conn_ok_def send_waits_def recv_waits_def) (simp add: new_connection_def)
qed

lemma init_on_fd_ok:
  assumes inv: "reactor_inv (reactor s)" and ab: "absent (reactor s)" and none: "conn s = None" and s: "s = (forget_streams s0)\<lparr>open_fds := x\<rparr>"
  shows "\<exists>ok t. init_on_fd fd cl ctl s = Some (ok, t) \<and> conn_inv t"
proof -
  let ?b = "BFileDescriptor_Init fd"
  let ?r = "set_fd conn_bfd ?b (reactor s)"
  have r: "reactor_inv ?r" using reactor_do_ok [OF inv, of "NewFd conn_bfd fd"] ab by (simp add: absent_def)
  have b: "fds ?r conn_bfd = Some ?b" "\<not> active ?b" by (simp_all add: set_fd_def BFileDescriptor_Init_def)
  obtain ok r1 where r1: "BReactor_AddFileDescriptor ctl conn_bfd ?r = Some (ok, r1)" "reactor_inv r1"
    using reactor_do_ok [OF r, of "AddFd ctl conn_bfd"] b by auto
  have same: "limits r1 = limits (reactor s)" "pending_jobs r1 = pending_jobs (reactor s)"
    and f: "\<not> ok \<longrightarrow> r1 = ?r" "ok \<longrightarrow> fds r1 conn_bfd = Some (?b\<lparr>epoll_returned_ptr := None, active := True, waitEvents := 0\<rparr>)"
    using r1(1) b by (auto simp: BReactor_AddFileDescriptor_def set_fd_def split: if_splits)
  show ?thesis
  proof (cases ok)
    case False
    let ?r2 = "r1\<lparr>fds := (fds r1)(conn_bfd := None)\<rparr>"
    have "reactor_inv ?r2" using reactor_do_ok [OF r, of "FreeFd conn_bfd"] b f False by auto
    moreover have "absent ?r2" using ab same by (simp add: absent_def)
    ultimately show ?thesis
      using False r1(1) none by (auto simp: init_on_fd_def conn_inv_def close_def)
  next
    case True
    let ?r2 = "r1\<lparr>limits := (limits r1)(send_limit := Some \<lparr>limit = 2, count = 0\<rparr>)\<rparr>"
    let ?r3 = "?r2\<lparr>limits := (limits ?r2)(recv_limit := Some \<lparr>limit = 2, count = 0\<rparr>)\<rparr>"
    have "reactor_inv ?r2"
      using reactor_do_ok [OF r1(2), of "NewLimit send_limit 2"] ab same by (simp add: absent_def BReactorLimit_Init_def)
    then have "reactor_inv ?r3"
      using reactor_do_ok [of ?r2 "NewLimit recv_limit 2"] ab same
      by (simp add: absent_def BReactorLimit_Init_def send_limit_def recv_limit_def)
    moreover have "\<forall>j\<in>pg_objs (pending_jobs ?r3). other_job j" using ab same by (simp add: absent_def)
    ultimately have "conn_ok (new_connection fd cl) (set_conn (new_connection fd cl) ((forget_streams (s0\<lparr>open_fds := x\<rparr>))\<lparr>reactor := ?r3\<rparr>))"
      using f(2) True new_connection_core [of ?r3] by (simp add: send_limit_def recv_limit_def)
    moreover have "forget_streams (s0\<lparr>open_fds := x\<rparr>) = s" using s by (simp add: forget_streams_def)
    ultimately have "conn_ok (new_connection fd cl) (set_conn (new_connection fd cl) (s\<lparr>reactor := ?r3\<rparr>))" by simp
    then show ?thesis
      using True r1(1)
      by (auto simp: init_on_fd_def BReactorLimit_Init_def BCONNECTION_SEND_LIMIT_def BCONNECTION_RECV_LIMIT_def conn_inv_def conn_ok_def core_def)
  qed
qed

lemma conn_init_ok:
  assumes inv: "conn_inv s" and none: "conn s = None"
  shows "\<exists>t. user_do (UInit src ctl) s = Some t \<and> conn_inv t"
proof -
  let ?s = "forget_streams s"
  have a: "reactor_inv (reactor s)" "absent (reactor s)" using inv none by (simp_all add: conn_inv_def)
  have fs: "reactor ?s = reactor s" "conn ?s = None" "conn_inv ?s" using none inv by (simp_all add: forget_streams_def conn_inv_def)
  have opened: "\<exists>ok t. init_on_fd fd cl ctl (?s\<lparr>open_fds := x\<rparr>) = Some (ok, t) \<and> conn_inv t" for fd cl x
    using init_on_fd_ok [where s = "?s\<lparr>open_fds := x\<rparr>"] a fs by simp
  have plain: "\<exists>ok t. init_on_fd fd cl ctl ?s = Some (ok, t) \<and> conn_inv t" for fd cl
    using opened [of fd cl "open_fds s"] by (simp add: forget_streams_def)
  have closed: "conn_inv (close fd ?s)" "conn_inv (close fd (?s\<lparr>open_fds := x\<rparr>))" for fd x
    using fs a by (simp_all add: close_def conn_inv_def)
  show ?thesis
  proof (cases src)
    case (SourceListener a nb)
    then show ?thesis using fs(3) closed opened by (cases a) (fastforce simp: BConnection_Init_def Let_def)+
  next
    case (SourceConnector fd)
    then show ?thesis using plain [of fd True] by (auto simp: BConnection_Init_def)
  next
    case (SourcePipe fd cl nb)
    then show ?thesis using plain [of fd cl] fs(3) closed by (cases nb; cases cl) (auto simp: BConnection_Init_def)
  qed
qed

lemma conn_free_ok:
  assumes ok: "conn_ok c s" and st: "\<not> send_inited c" "\<not> recv_inited c"
  shows "\<exists>t. BConnection_Free_socket c s = Some t \<and> conn_inv t"
proof -
  let ?r = "reactor s"
  have p: "desc_ok c ?r" "jobs_ok c (pending_jobs ?r)" "reactor_inv ?r" using ok by (auto simp: conn_ok_def core_def)
  obtain r1 where r1: "BReactorLimit_Free recv_limit ?r = Some r1" "reactor_inv r1"
    using reactor_do_ok [OF p(3), of "FreeLimit recv_limit"] p(1) by (auto simp: desc_ok_def)
  have s1: "fds r1 = fds ?r" "pending_jobs r1 = pending_jobs ?r" "limits r1 = (limits ?r)(recv_limit := None)"
    using r1(1) by (auto simp: BReactorLimit_Free_def bind_eq_Some_conv Let_def split: if_splits)
  obtain r2 where r2: "BReactorLimit_Free send_limit r1 = Some r2" "reactor_inv r2"
    using reactor_do_ok [OF r1(2), of "FreeLimit send_limit"] p(1) s1(3) by (auto simp: desc_ok_def send_limit_def recv_limit_def)
  have s2: "fds r2 = fds ?r" "pending_jobs r2 = pending_jobs ?r" "limits r2 = (limits ?r)(recv_limit := None, send_limit := None)"
    using r2(1) s1 by (auto simp: BReactorLimit_Free_def bind_eq_Some_conv Let_def split: if_splits)
  obtain b where b: "fds r2 conn_bfd = Some b" "active b = (\<not> is_hupd c)" using p(1) s2(1) by (auto simp: desc_ok_def)
  obtain r3 b' where r3: "(if \<not> is_hupd c then BReactor_RemoveFileDescriptor conn_bfd r2 else Some r2) = Some r3" "reactor_inv r3"
    "fds r3 conn_bfd = Some b'" "\<not> active b'" "limits r3 = limits r2" "pending_jobs r3 = pending_jobs ?r"
    using remove_fd_ok [OF r2(2) b(1)] b r2(2) s2(2) by (cases "is_hupd c") auto
  let ?r4 = "r3\<lparr>fds := (fds r3)(conn_bfd := None)\<rparr>"
  have "reactor_inv ?r4" using reactor_do_ok [OF r3(2), of "FreeFd conn_bfd"] r3(3,4) by auto
  moreover have "absent ?r4"
  proof -
    have "other_job j" if "j \<in> pg_objs (pending_jobs ?r)" for j
      using that p(2) st by (cases j) (auto simp: jobs_ok_def side_jobs_def other_job_def)
    then show ?thesis using r3(5,6) s2(3) by (simp add: absent_def)
  qed
  ultimately have fin: "conn_inv ((if close_fd c then close (conn_fd c) else id) (s\<lparr>reactor := ?r4, conn := None\<rparr>))"
    by (simp add: conn_inv_def close_def)
  have "recv_state c = RECV_STATE_NOT_INITED \<or> recv_state c = RECV_STATE_NOT_INITED_CLOSED" "send_state c = SEND_STATE_NOT_INITED"
    using st by (auto simp: send_inited_def recv_inited_def)
  then have "BConnection_Free_socket c s = Some ((if close_fd c then close (conn_fd c) else id) (s\<lparr>reactor := ?r4, conn := None\<rparr>))"
    using r1(1) r2(1) r3(1) by (cases "is_hupd c") (simp_all add: BConnection_Free_socket_def with_reactor_def)
  with fin show ?thesis by blast
qed

lemma conn_inv_present: "conn_inv s \<Longrightarrow> conn s = Some c \<Longrightarrow> conn_ok c s"
  by (simp add: conn_inv_def)

lemma conn_ok_inv: "conn_ok c s \<Longrightarrow> conn_inv s"
  by (simp add: conn_inv_def conn_ok_def core_def)

lemma user_do_ok:
  assumes inv: "conn_inv s" and a: "user_allowed x s"
  shows "\<exists>t. user_do x s = Some t \<and> conn_inv t"
proof (cases x)
  case (UInit src ctl)
  then show ?thesis using conn_init_ok [OF inv] a by simp
next
  case UFree
  then show ?thesis using a conn_free_ok conn_inv_present [OF inv] by auto
next
  case USendInit
  then obtain c where "conn s = Some c" "\<not> d_err c" "\<not> unusable s" "\<not> send_inited c" using a by (auto simp: usable_def)
  then show ?thesis using send_init_ok [of c s] conn_inv_present [OF inv] conn_ok_inv USendInit by fastforce
next
  case USendFree
  then obtain c where "conn s = Some c" "send_inited c" using a by auto
  then show ?thesis using send_free_ok [of c s] conn_inv_present [OF inv] conn_ok_inv USendFree by fastforce
next
  case USender
  then obtain c where c: "conn s = Some c" "send_inited c" "\<not> handler_done (send_iface c)" using a by (auto simp: usable_def)
  from attach_ok(1) [OF conn_inv_present [OF inv c(1)] c(2,3)] show ?thesis using USender c(1) conn_ok_inv by fastforce
next
  case (USend d)
  then obtain c where c: "conn s = Some c" "send_inited c" "handler_done (send_iface c)" "si_state (send_iface c) = STATE_NONE" "d \<noteq> []"
    using a by (auto simp: usable_def)
  from send_ok [OF conn_inv_present [OF inv c(1)] c(2-5)] show ?thesis using USend c(1) conn_ok_inv by fastforce
next
  case URecvInit
  then obtain c where "conn s = Some c" "\<not> d_err c" "\<not> unusable s" "\<not> recv_inited c" using a by (auto simp: usable_def)
  then show ?thesis using recv_init_ok [of c s] conn_inv_present [OF inv] conn_ok_inv URecvInit by fastforce
next
  case URecvFree
  then obtain c where "conn s = Some c" "recv_inited c" using a by auto
  then show ?thesis using recv_free_ok [of c s] conn_inv_present [OF inv] conn_ok_inv URecvFree by fastforce
next
  case UReceiver
  then obtain c where c: "conn s = Some c" "recv_inited c" "\<not> handler_done (recv_iface c)" using a by (auto simp: usable_def)
  from attach_ok(2) [OF conn_inv_present [OF inv c(1)] c(2,3)] show ?thesis using UReceiver c(1) conn_ok_inv by fastforce
next
  case (URecv n)
  then obtain c where c: "conn s = Some c" "recv_inited c" "handler_done (recv_iface c)" "si_state (recv_iface c) = STATE_NONE" "0 < n"
    using a by (auto simp: usable_def)
  from recv_ok [OF conn_inv_present [OF inv c(1)] c(2-5)] show ?thesis using URecv c(1) conn_ok_inv by fastforce
qed

section \<open>Runs\<close>

interpretation conn_run: inductive_invariant conn_start conn_step conn_inv
proof unfold_locales
  show "conn_inv s" if "conn_start s" for s :: "'o Conn_world"
    using that reactor_inv_init [of "reactor s"]
    by (auto simp: conn_start_def conn_inv_def reactor_start_def absent_def BReactor_Init_def BPendingGroup_Init_def)
  show "conn_inv t" if inv: "conn_inv s" and step: "conn_step s t" for s t :: "'o Conn_world"
    using step
  proof cases
    case (loop now as d r u wa ra)
    have "\<exists>t'. conn_dispatch d wa ra u = Some t' \<and> conn_inv t'" using conn_loop_ok [OF inv loop(1-3)] loop(4,6,7) by auto
    then show ?thesis using loop(8) by simp
  next
    case (user x)
    then show ?thesis using user_do_ok [OF inv] by fastforce
  next
    case (other y r)
    then show ?thesis using other_step_ok [OF inv] by fastforce
  qed
qed

text \<open>A busy send side waits in the kernel's interest list; a busy receive side does, or its job is pending.\<close>

lemma busy_watched:
  assumes ok: "conn_ok c s" and err: "\<not> d_err c"
  shows "send_state c = SEND_STATE_BUSY \<Longrightarrow> \<exists>f ev. efd (reactor s) f = Some (conn_bfd, ev) \<and> ev AND EPOLLOUT \<noteq> 0"
    "recv_state c = RECV_STATE_BUSY \<Longrightarrow> RecvJob \<in> set (pg_jobs (pending_jobs (reactor s))) \<or>
       (\<exists>f ev. efd (reactor s) f = Some (conn_bfd, ev) \<and> ev AND EPOLLIN \<noteq> 0)"
proof -
  have e: "efd_ok (efd (reactor s)) (fds (reactor s))" and d: "desc_ok c (reactor s)"
    using ok reactor_invD(3) by (auto simp: conn_ok_def core_def)
  have watch: "\<exists>f. efd (reactor s) f = Some (conn_bfd, epoll_mask (wait_events c))" if "\<not> is_hupd c"
    using d that efd_okD(2) [OF e, of conn_bfd] by (auto simp: desc_ok_def)
  have m: "bit w 1 \<Longrightarrow> epoll_mask w AND EPOLLOUT \<noteq> 0" "bit w 0 \<Longrightarrow> epoll_mask w AND EPOLLIN \<noteq> 0" for w
    by (simp_all add: epoll_mask_def EPOLLIN_def EPOLLOUT_def)
  show "\<exists>f ev. efd (reactor s) f = Some (conn_bfd, ev) \<and> ev AND EPOLLOUT \<noteq> 0" if "send_state c = SEND_STATE_BUSY"
    using ok err that watch m(1) by (fastforce simp: conn_ok_def send_waits_def)
  show "RecvJob \<in> set (pg_jobs (pending_jobs (reactor s))) \<or> (\<exists>f ev. efd (reactor s) f = Some (conn_bfd, ev) \<and> ev AND EPOLLIN \<noteq> 0)"
    if "recv_state c = RECV_STATE_BUSY"
    using ok err that watch m(2) by (fastforce simp: conn_ok_def recv_waits_def)
qed

text \<open>A run that the examples use: a connection that starts to send.\<close>

fun conn_script :: "user_op list \<Rightarrow> 'o Conn_world \<Rightarrow> 'o Conn_world option" where
  "conn_script [] s = Some s"
| "conn_script (x # xs) s = (if user_allowed x s then Option.bind (user_do x s) (conn_script xs) else None)"

lemma conn_script_reach:
  "reach conn_start conn_step s \<Longrightarrow> conn_script xs s = Some t \<Longrightarrow> reach conn_start conn_step t"
proof (induction xs arbitrary: s)
  case (Cons x xs)
  then obtain u where u: "user_allowed x s" "user_do x s = Some u" "conn_script xs u = Some t"
    by (auto simp: bind_eq_Some_conv split: if_splits)
  have "reach conn_start conn_step u" by (rule reach_step [OF Cons.prems(1)]) (rule conn_step.user [OF u(1,2)])
  then show ?case using Cons.IH u(3) by blast
qed simp

definition example_world :: "nat job BReactor \<Rightarrow> BConnection option \<Rightarrow> nat Conn_world" where
  "example_world r c = \<lparr>reactor = r, conn = c, open_fds = {7}, written = [], accepted = [], outgoing = [], taken = [],
     delivered = [], incoming = [], sock_error = False, recv_closed = False, unusable = False\<rparr>"

definition example_conn :: BConnection where
  "example_conn = (new_connection 7 True)
     \<lparr>send_iface := \<lparr>si_state = STATE_OPERATION_PENDING, job_operation_data = [1, 2, 3], job_operation_len = 3, job_done_len = 0,
        handler_done = True\<rparr>,
      send_state := SEND_STATE_READY\<rparr>"

definition example_sending :: "nat Conn_world" where
  "example_sending = example_world
     ((BReactor_Init 0)
        \<lparr>pending_jobs := \<lparr>pg_jobs = [SendOperation], pg_objs = {SendJob, SendDone, SendOperation}, pending_ctr = 3\<rparr>,
         efd := [7 \<mapsto> (0, 0)],
         fds := [0 \<mapsto> \<lparr>bfd_fd = 7, active = True, waitEvents = 0, epoll_returned_ptr = None\<rparr>],
         limits := [0 \<mapsto> \<lparr>limit = 2, count = 0\<rparr>, 1 \<mapsto> \<lparr>limit = 2, count = 0\<rparr>]\<rparr>)
     (Some example_conn)"

lemmas conn_eval = usable_def send_inited_def recv_inited_def BConnection_Init_def init_on_fd_def forget_streams_def
  new_connection_def set_conn_def BConnection_SendAsync_Init_def Stream_Init_def pending_defs Stream_User_Init_def
  StreamPassInterface_Sender_Send_socket_def Stream_User_Operation_def BReactorLimit_Init_def BCONNECTION_SEND_LIMIT_def
  BCONNECTION_RECV_LIMIT_def conn_bfd_def send_limit_def recv_limit_def BPendingGroup_Init_def

lemma example_sending_reached: "reach conn_start conn_step example_sending"
proof (rule conn_script_reach)
  show "reach conn_start conn_step (example_world (BReactor_Init 0) None)"
    by (rule reach_init) (auto simp: conn_start_def example_world_def reactor_start_def is_int64_def INT64_MIN_def INT64_MAX_def)
  show "conn_script [UInit (SourceConnector 7) True, USendInit, USender, USend [1, 2, 3]] (example_world (BReactor_Init 0) None) =
      Some example_sending"
    by (simp add: conn_eval reactor_eval example_sending_def example_world_def example_conn_def)
qed




lemma example_written:
  "\<exists>(t :: nat Conn_world) c. reach conn_start conn_step t \<and> conn t = Some c \<and> written t = [1, 2] \<and> accepted t = [] \<and> \<not> unusable t"
proof -
  let ?r = "reactor example_sending"
  let ?g = "(pending_jobs ?r)\<lparr>pg_jobs := []\<rparr>"
  let ?d = "DispatchJob SendOperation :: nat job dispatch"
  let ?u = "example_sending\<lparr>reactor := ?r\<lparr>pending_jobs := ?g\<rparr>, sock_error := sock_error example_sending \<or> error_announced ?d\<rparr>"
  have it: "BReactor_iterate 5 [] ?r = Some (?d, ?r\<lparr>pending_jobs := ?g\<rparr>)"
    by (simp add: BReactor_iterate_def BPendingGroup_HasJobs_def BPendingGroup_ExecuteJob_def example_sending_def example_world_def)
  have ans: "answers_ok (Written 2) ReadAgain ?u"
    by (simp add: answers_ok_def write_fits_def read_fits_def example_sending_def example_world_def example_conn_def)
  obtain t c where t: "conn_dispatch ?d (Written 2) ReadAgain ?u = Some t" "conn t = Some c" "written t = [1, 2]"
    "accepted t = []" "\<not> unusable t"
    by (simp add: example_sending_def example_world_def example_conn_def conn_eval Stream_job_operation_def BReactor_Init_def
        connection_send_if_handler_send_def connection_send_socket_def take_limit_def BReactorLimit_Increment_def StreamPassInterface_Done_def
        Stream_Done_def Let_def)
  have "conn_step example_sending t"
    by (rule conn_step.loop [OF _ _ _ it _ refl ans t(1)])
      (simp_all add: no_error_def example_sending_def example_world_def example_conn_def new_connection_def BReactor_Init_def)
  then show ?thesis using reach_step [OF example_sending_reached] t(2-5) by blast
qed


end
