(* ===== verification/SocketConnector.thy ===== *)
theory SocketConnector
  imports SocketConn_Loop BAddr
begin

text \<open>
  The connector of \<open>system/BConnection_unix.c\<close>: it opens a socket, waits in the reactor until the socket is connected, reports the
  result once and hands the socket over to a connection; with the conversion of addresses between \<open>BAddr\<close> and
  the system's structures.

  The descriptor and the job of a connector are known to the reactor by an address \<open>k\<close> and a job \<open>j\<close>; the set \<open>fs\<close> has the open
  file descriptors.
\<close>

section \<open>Addresses\<close>

text \<open>The union of the system's address structures, with the length that goes with it; \<open>SysOther\<close> is another family.\<close>

datatype sys_union =
    SysIPv4 u16 u32
  | SysIPv6 u16 u32 bytes u32
  | SysOther nat

record sys_addr =
  sys_len :: nat
  sys_union :: sys_union

definition BConnection_AddressSupported :: "BAddr \<Rightarrow> bool" where
  "BConnection_AddressSupported addr \<longleftrightarrow> (case addr of BADDR_IPV4 _ _ \<Rightarrow> True | BADDR_IPV6 _ _ \<Rightarrow> True | _ \<Rightarrow> False)"

definition addr_socket_to_sys :: "BAddr \<Rightarrow> sys_addr option" where
  "addr_socket_to_sys addr =
     (case addr of
        BADDR_IPV4 ip port \<Rightarrow> Some \<lparr>sys_len = 16, sys_union = SysIPv4 port ip\<rparr>
      | BADDR_IPV6 ip port \<Rightarrow> Some \<lparr>sys_len = 28, sys_union = SysIPv6 port 0 ip 0\<rparr>
      | _ \<Rightarrow> None)"

definition addr_sys_to_socket :: "sys_addr \<Rightarrow> BAddr option" where
  "addr_sys_to_socket a =
     (case sys_union a of
        SysIPv4 port ip \<Rightarrow> ASSERT (sys_len a = 16) (Some (BAddr_MakeIPv4 ip port))
      | SysIPv6 port flow ip scope \<Rightarrow> ASSERT (sys_len a = 28) (Some (BAddr_MakeIPv6 ip port))
      | SysOther f \<Rightarrow> Some BAddr_MakeNone)"

definition MAX_UNIX_SOCKET_PATH :: nat where "MAX_UNIX_SOCKET_PATH = 200"

text \<open>The path of a unix address with its terminator, in a buffer of \<open>MAX_UNIX_SOCKET_PATH + 1\<close> characters.\<close>

definition build_unix_address :: "string \<Rightarrow> string option" where
  "build_unix_address socket_path =
     (if length socket_path > MAX_UNIX_SOCKET_PATH then None else Some (socket_path @ [CHR 0x00]))"

section \<open>The connector\<close>

datatype BLisCon_from = FromAddr BAddr | FromUnix string

datatype connect_answer = ConnectDone | ConnectInProgress | ConnectError

text \<open>The answers of \<open>socket\<close>, of making it non-blocking, of \<open>connect\<close> and of \<open>epoll_ctl\<close>.\<close>

record connector_answers =
  ans_socket :: "int option"
  ans_nonblocking :: bool
  ans_connect :: connect_answer
  ans_ctl :: bool

record BConnector =
  ctor_fd :: int
  connected :: bool
  have_bfd :: bool

definition from_supported :: "BLisCon_from \<Rightarrow> bool option" where
  "from_supported from =
     (case from of
        FromUnix path \<Rightarrow> Some (build_unix_address path \<noteq> None)
      | FromAddr addr \<Rightarrow>
          if \<not> BConnection_AddressSupported addr then Some False
          else do { _ \<leftarrow> addr_socket_to_sys addr; Some True })"

text \<open>The labels \<open>fail1\<close> and \<open>fail2\<close>.\<close>

definition connector_fail1 :: "'j \<Rightarrow> 'j BReactor \<Rightarrow> int set \<Rightarrow> (BConnector option \<times> 'j BReactor \<times> int set) option" where
  "connector_fail1 j r fs =
     do { g \<leftarrow> BPending_Free j (pending_jobs r); Some (None, r\<lparr>pending_jobs := g\<rparr>, fs) }"

definition connector_fail2 :: "'j \<Rightarrow> int \<Rightarrow> 'j BReactor \<Rightarrow> int set \<Rightarrow> (BConnector option \<times> 'j BReactor \<times> int set) option" where
  "connector_fail2 j fd r fs = connector_fail1 j r (fs - {fd})"

definition BConnector_InitFrom ::
    "BLisCon_from \<Rightarrow> connector_answers \<Rightarrow> nat \<Rightarrow> 'j \<Rightarrow> 'j BReactor \<Rightarrow> int set \<Rightarrow> (BConnector option \<times> 'j BReactor \<times> int set) option" where
  "BConnector_InitFrom from a k j r fs =
     do { ok \<leftarrow> from_supported from;
          if \<not> ok then Some (None, r, fs)
          else do { g \<leftarrow> BPending_Init j (pending_jobs r);
                    let r = r\<lparr>pending_jobs := g\<rparr>;
                    case ans_socket a of
                      None \<Rightarrow> connector_fail1 j r fs
                    | Some fd \<Rightarrow>
                        let fs = insert fd fs in
                        if \<not> ans_nonblocking a then connector_fail2 j fd r fs
                        else case ans_connect a of
                          ConnectError \<Rightarrow> connector_fail2 j fd r fs
                        | ConnectInProgress \<Rightarrow>
                            do { (added, r) \<leftarrow> BReactor_AddFileDescriptor (ans_ctl a) k (set_fd k (BFileDescriptor_Init fd) r);
                                 if \<not> added then connector_fail2 j fd (r\<lparr>fds := (fds r)(k := None)\<rparr>) fs
                                 else do { r \<leftarrow> BReactor_SetFileDescriptorEvents k BREACTOR_WRITE r;
                                           Some (Some \<lparr>ctor_fd = fd, connected = False, have_bfd = True\<rparr>, r, fs) } }
                        | ConnectDone \<Rightarrow>
                            do { g \<leftarrow> BPending_Set j (pending_jobs r);
                                 Some (Some \<lparr>ctor_fd = fd, connected = True, have_bfd = False\<rparr>, r\<lparr>pending_jobs := g\<rparr>, fs) } } }"

text \<open>
  The handlers return what they report to the user: true is an error.  \<open>result\<close> is the answer of \<open>getsockopt\<close>, \<^term>\<open>None\<close> when it failed.
\<close>

definition connector_fd_handler ::
    "int option \<Rightarrow> nat \<Rightarrow> BConnector \<Rightarrow> 'j BReactor \<Rightarrow> (bool \<times> BConnector \<times> 'j BReactor) option" where
  "connector_fd_handler result k c r =
     ASSERT (ctor_fd c \<ge> 0) (
     ASSERT (\<not> connected c) (
     ASSERT (have_bfd c)
       (do { r \<leftarrow> BReactor_RemoveFileDescriptor k r;
             let c = c\<lparr>have_bfd := False\<rparr>;
             let c = (if result = Some 0 then c\<lparr>connected := True\<rparr> else c);
             Some (\<not> connected c, c, r) })))"

definition connector_job_handler :: "BConnector \<Rightarrow> bool option" where
  "connector_job_handler c =
     ASSERT (ctor_fd c \<ge> 0) (ASSERT (connected c) (ASSERT (\<not> have_bfd c) (Some False)))"

definition BConnector_Free :: "nat \<Rightarrow> 'j \<Rightarrow> BConnector \<Rightarrow> 'j BReactor \<Rightarrow> int set \<Rightarrow> ('j BReactor \<times> int set) option" where
  "BConnector_Free k j c r fs =
     do { r \<leftarrow> (if have_bfd c then BReactor_RemoveFileDescriptor k r else Some r);
          let r = r\<lparr>fds := (fds r)(k := None)\<rparr>;
          let fs = (if ctor_fd c \<noteq> - 1 then fs - {ctor_fd c} else fs);
          g \<leftarrow> BPending_Free j (pending_jobs r);
          Some (r\<lparr>pending_jobs := g\<rparr>, fs) }"

text \<open>The part of \<open>BConnection_Init\<close> that takes the socket of a connector.\<close>

definition connection_grab_fd :: "'j \<Rightarrow> BConnector \<Rightarrow> 'j BReactor \<Rightarrow> (int \<times> BConnector) option" where
  "connection_grab_fd j c r =
     ASSERT (ctor_fd c \<ge> 0) (
     ASSERT (connected c) (
     ASSERT (\<not> have_bfd c) (
     ASSERT (\<not> BPending_IsSet j (pending_jobs r))
       (Some (ctor_fd c, c\<lparr>ctor_fd := - 1\<rparr>)))))"

section \<open>What the connector promises\<close>

text \<open>
  Between its operations a connector is waiting, with its descriptor registered for writing; or it is connected with its job
  pending; or its result was reported.
\<close>

definition ctor_ok :: "nat \<Rightarrow> 'j \<Rightarrow> BConnector \<Rightarrow> 'j BReactor \<Rightarrow> bool" where
  "ctor_ok k j c r \<longleftrightarrow>
     reactor_inv r \<and> j \<in> pg_objs (pending_jobs r) \<and>
     (if have_bfd c
      then \<not> connected c \<and> ctor_fd c \<ge> 0 \<and> (\<exists>b. fds r k = Some b \<and> active b \<and> bfd_fd b = ctor_fd c \<and> waitEvents b = BREACTOR_WRITE)
      else \<forall>b. fds r k = Some b \<longrightarrow> \<not> active b) \<and>
     (j \<in> set (pg_jobs (pending_jobs r)) \<longrightarrow> connected c \<and> ctor_fd c \<ge> 0)"

lemma addr_socket_to_sys_supported: "BConnection_AddressSupported a \<Longrightarrow> \<exists>x. addr_socket_to_sys a = Some x"
  by (cases a) (simp_all add: BConnection_AddressSupported_def addr_socket_to_sys_def)

lemma from_supported_total: "\<exists>b. from_supported f = Some b"
  using addr_socket_to_sys_supported by (cases f) (fastforce simp: from_supported_def)+

lemma sys_addr_roundtrip:
  assumes "BConnection_AddressSupported a" "\<forall>ip port. a = BADDR_IPV6 ip port \<longrightarrow> length ip = 16"
  shows "Option.bind (addr_socket_to_sys a) addr_sys_to_socket = Some a"
  using assms
  by (cases a) (simp_all add: BConnection_AddressSupported_def addr_socket_to_sys_def addr_sys_to_socket_def BAddr_MakeIPv4_def BAddr_MakeIPv6_def)

lemma unix_address_fits: "build_unix_address p = Some a \<Longrightarrow> length a \<le> MAX_UNIX_SOCKET_PATH + 1"
  by (auto simp: build_unix_address_def split: if_splits)

text \<open>A failed creation frees the job and closes the socket.\<close>

definition released :: "nat \<Rightarrow> 'j \<Rightarrow> 'j BReactor \<Rightarrow> bool" where
  "released k j r \<longleftrightarrow> reactor_inv r \<and> fds r k = None \<and> j \<notin> pg_objs (pending_jobs r)"

lemma connector_fail1_ok:
  assumes "reactor_inv r" "j \<in> pg_objs (pending_jobs r)" "fds r k = None"
  shows "\<exists>r'. connector_fail1 j r fs = Some (None, r', fs) \<and> released k j r'"
proof -
  obtain g where "BPending_Free j (pending_jobs r) = Some g" "pending_wf g" "pg_objs g = pg_objs (pending_jobs r) - {j}"
    using job_free_ok [OF reactor_invD(5) [OF assms(1)] assms(2)] by blast
  then show ?thesis using assms by (simp add: connector_fail1_def released_def reactor_inv_jobs)
qed

lemma connector_init_ok:
  assumes r: "released k j r" and fd: "\<forall>fd. ans_socket a = Some fd \<longrightarrow> fd \<ge> 0 \<and> fd \<notin> fs"
  shows "\<exists>c r' fs'. BConnector_InitFrom from a k j r fs = Some (c, r', fs') \<and>
    (case c of None \<Rightarrow> released k j r' \<and> fs' = fs
     | Some c \<Rightarrow> ctor_ok k j c r' \<and> fs' = insert (ctor_fd c) fs \<and> (have_bfd c \<or> j \<in> set (pg_jobs (pending_jobs r'))))"
proof -
  obtain ok where ok: "from_supported from = Some ok" using from_supported_total by blast
  note inv = r [unfolded released_def]
  obtain g where g: "BPending_Init j (pending_jobs r) = Some g" "pending_wf g" "pg_objs g = insert j (pg_objs (pending_jobs r))"
    "pg_jobs g = pg_jobs (pending_jobs r)"
    using job_init_ok [of "pending_jobs r" j] inv reactor_invD(5) by blast
  let ?r = "r\<lparr>pending_jobs := g\<rparr>"
  have ri: "reactor_inv ?r" "j \<in> pg_objs (pending_jobs ?r)" "fds ?r k = None" "j \<notin> set (pg_jobs (pending_jobs ?r))"
    using inv g reactor_inv_jobs jobs_registered [of "pending_jobs r" j] reactor_invD(5) by auto
  have fail1: "\<exists>c r' fs'. connector_fail1 j u fs = Some (c, r', fs') \<and> c = None \<and> released k j r' \<and> fs' = fs"
    if "reactor_inv u" "j \<in> pg_objs (pending_jobs u)" "fds u k = None" for u
    using connector_fail1_ok [OF that, of fs] by auto
  have fail2: "\<exists>c r' fs'. connector_fail2 j x u (insert x fs) = Some (c, r', fs') \<and> c = None \<and> released k j r' \<and> fs' = fs"
    if "reactor_inv u" "j \<in> pg_objs (pending_jobs u)" "fds u k = None" "x \<notin> fs" for u x
    using fail1 [OF that(1-3)] that(4) by (simp add: connector_fail2_def)
  consider (no) "\<not> ok" | (nosock) "ok" "ans_socket a = None"
    | (blocking) x where "ok" "ans_socket a = Some x" "\<not> ans_nonblocking a"
    | (sock) x where "ok" "ans_socket a = Some x" "ans_nonblocking a" by (cases "ans_socket a") auto
  then show ?thesis
  proof cases
    case no
    then show ?thesis using ok r by (simp add: BConnector_InitFrom_def)
  next
    case nosock
    then show ?thesis using ok g(1) fail1 [OF ri(1-3)] by (fastforce simp: BConnector_InitFrom_def)
  next
    case (blocking x)
    then show ?thesis using ok g(1) fail2 [OF ri(1-3), of x] fd by (fastforce simp: BConnector_InitFrom_def Let_def)
  next
    case (sock x)
    then have x: "x \<ge> 0" "x \<notin> fs" using fd by auto
    show ?thesis
    proof (cases "ans_connect a")
      case ConnectError
      then show ?thesis using ok g(1) sock fail2 [OF ri(1-3) x(2)] by (fastforce simp: BConnector_InitFrom_def Let_def)
    next
      case ConnectDone
      obtain h where h: "BPending_Set j g = Some h" "pending_wf h" "pg_objs h = pg_objs g" "set (pg_jobs h) = insert j (set (pg_jobs g))"
        using job_set_ok [OF g(2), of j] g(3) by auto
      have "ctor_ok k j \<lparr>ctor_fd = x, connected = True, have_bfd = False\<rparr> (r\<lparr>pending_jobs := h\<rparr>)"
        using h g inv x by (simp add: ctor_ok_def reactor_inv_jobs)
      then show ?thesis using ok g(1) h sock ConnectDone by (simp add: BConnector_InitFrom_def Let_def)
    next
      case ConnectInProgress
      let ?b = "BFileDescriptor_Init x"
      let ?u = "set_fd k ?b ?r"
      have u: "reactor_inv ?u" using reactor_do_ok [OF ri(1), of "NewFd k x"] ri(3) by simp
      obtain added r1 where r1: "BReactor_AddFileDescriptor (ans_ctl a) k ?u = Some (added, r1)" "reactor_inv r1"
        using reactor_do_ok [OF u, of "AddFd (ans_ctl a) k"] by (auto simp: set_fd_def BFileDescriptor_Init_def)
      have s1: "pending_jobs r1 = g" "\<not> added \<longrightarrow> r1 = ?u"
        "added \<longrightarrow> fds r1 k = Some (?b\<lparr>epoll_returned_ptr := None, active := True, waitEvents := 0\<rparr>)"
        using r1(1) by (auto simp: BReactor_AddFileDescriptor_def set_fd_def split: if_splits)
      show ?thesis
      proof (cases added)
        case False
        have "reactor_inv (r1\<lparr>fds := (fds r1)(k := None)\<rparr>)"
          using reactor_do_ok [OF u, of "FreeFd k"] s1(2) False by (simp add: set_fd_def BFileDescriptor_Init_def)
        then show ?thesis
          using fail2 [of "r1\<lparr>fds := (fds r1)(k := None)\<rparr>" x] x s1(1) g(3) False r1(1) ok g(1) sock ConnectInProgress
          by (fastforce simp: BConnector_InitFrom_def Let_def)
      next
        case True
        have "read_write BREACTOR_WRITE" using read_write_simps(2) [of 0] by simp
        from set_events_ok [OF r1(2) s1(3) [rule_format, OF True] _ this] obtain r2 where
          r2: "BReactor_SetFileDescriptorEvents k BREACTOR_WRITE r1 = Some r2" "reactor_inv r2"
            "fds r2 k = Some (?b\<lparr>epoll_returned_ptr := None, active := True, waitEvents := BREACTOR_WRITE\<rparr>)" "pending_jobs r2 = g"
          using s1(1) by auto
        have "ctor_ok k j \<lparr>ctor_fd = x, connected = False, have_bfd = True\<rparr> r2"
          using r2 x g ri(4) by (simp add: ctor_ok_def BFileDescriptor_Init_def)
        then show ?thesis using ok g(1) sock ConnectInProgress r1(1) True r2(1) by (simp add: BConnector_InitFrom_def Let_def)
      qed
    qed
  qed
qed

lemma connector_fd_handler_ok:
  assumes "ctor_ok k j c r" "have_bfd c"
  shows "\<exists>c' r'. connector_fd_handler result k c r = Some (result \<noteq> Some 0, c', r') \<and> ctor_ok k j c' r' \<and>
    c' = c\<lparr>have_bfd := False, connected := (result = Some 0)\<rparr>"
proof -
  obtain b where b: "fds r k = Some b" "active b" "\<not> connected c" "ctor_fd c \<ge> 0" "reactor_inv r"
    using assms by (auto simp: ctor_ok_def)
  from remove_fd_ok [OF b(5,1,2)] obtain r' where
    r': "BReactor_RemoveFileDescriptor k r = Some r'" "reactor_inv r'" "fds r' k = Some (b\<lparr>active := False\<rparr>)" "pending_jobs r' = pending_jobs r"
    by blast
  have "connector_fd_handler result k c r = Some (result \<noteq> Some 0, c\<lparr>have_bfd := False, connected := (result = Some 0)\<rparr>, r')"
    using assms(2) b(3,4) r'(1) by (cases c) (simp add: connector_fd_handler_def Let_def)
  moreover have "ctor_ok k j (c\<lparr>have_bfd := False, connected := (result = Some 0)\<rparr>) r'"
    using assms b r' by (auto simp: ctor_ok_def)
  ultimately show ?thesis by blast
qed

lemma connector_job_handler_ok:
  assumes "ctor_ok k j c r" "BPendingGroup_ExecuteJob (pending_jobs r) = Some (j, g)"
  shows "connector_job_handler c = Some False \<and> ctor_ok k j c (r\<lparr>pending_jobs := g\<rparr>)"
proof -
  have inv: "reactor_inv r" using assms(1) by (simp add: ctor_ok_def)
  note x = execute_job_set [OF reactor_invD(5) [OF inv] assms(2)]
  then have "connected c" "ctor_fd c \<ge> 0" "\<not> have_bfd c" using assms(1) by (auto simp: ctor_ok_def split: if_splits)
  moreover have "pending_wf g" using pending_do_wf [OF reactor_invD(5) [OF inv], of PExecute g] assms(2) by simp
  ultimately show ?thesis
    using assms(1) x inv by (simp add: connector_job_handler_def ctor_ok_def reactor_inv_jobs)
qed

lemma connection_grab_fd_ok:
  assumes "ctor_ok k j c r" "connected c" "ctor_fd c \<ge> 0" "j \<notin> set (pg_jobs (pending_jobs r))"
  shows "connection_grab_fd j c r = Some (ctor_fd c, c\<lparr>ctor_fd := - 1\<rparr>) \<and> ctor_ok k j (c\<lparr>ctor_fd := - 1\<rparr>) r"
  using assms by (auto simp: connection_grab_fd_def ctor_ok_def BPending_IsSet_def BSmallPending_IsSet_def split: if_splits)

lemma connector_free_ok:
  assumes ok: "ctor_ok k j c r"
  shows "\<exists>r'. BConnector_Free k j c r fs = Some (r', if ctor_fd c = - 1 then fs else fs - {ctor_fd c}) \<and> released k j r'"
proof -
  have inv: "reactor_inv r" and j: "j \<in> pg_objs (pending_jobs r)" using ok by (simp_all add: ctor_ok_def)
  obtain r1 where r1: "(if have_bfd c then BReactor_RemoveFileDescriptor k r else Some r) = Some r1" "reactor_inv r1"
    "\<forall>b. fds r1 k = Some b \<longrightarrow> \<not> active b" "pending_jobs r1 = pending_jobs r"
  proof (cases "have_bfd c")
    case True
    then obtain b where "fds r k = Some b" "active b" using ok by (auto simp: ctor_ok_def)
    from remove_fd_ok [OF inv this] that True show ?thesis by auto
  next
    case False
    then show ?thesis using that [of r] ok inv by (auto simp: ctor_ok_def)
  qed
  let ?r2 = "r1\<lparr>fds := (fds r1)(k := None)\<rparr>"
  have "reactor_inv ?r2"
    using reactor_do_ok [OF r1(2), of "FreeFd k"] r1(2,3) by (cases "fds r1 k") (auto simp: fun_upd_idem)
  moreover obtain g where "BPending_Free j (pending_jobs r) = Some g" "pending_wf g" "pg_objs g = pg_objs (pending_jobs r) - {j}"
    using job_free_ok [OF reactor_invD(5) [OF inv] j] by blast
  ultimately show ?thesis
    using r1(1,4) reactor_inv_jobs [of ?r2 g] by (auto simp: BConnector_Free_def released_def Let_def)
qed

text \<open>
  C31 The life of a connector: with every answer of the operating system its creation either fails and leaves nothing open or
  registered, or it waits for the socket in the reactor or has its job pending; the descriptor's handler reports an error exactly
  when the socket is not connected and unregisters the descriptor; the job's handler finds the connector connected; after a
  success a connection can take the socket; and in each of these states the connector can be freed, which closes the socket unless
  a connection took it.  No step fails an assertion.
\<close>

theorem connector_lifecycle:
  assumes "released k j r" "\<forall>fd. ans_socket a = Some fd \<longrightarrow> fd \<ge> 0 \<and> fd \<notin> fs"
  shows "(\<exists>c r' fs'. BConnector_InitFrom from a k j r fs = Some (c, r', fs') \<and>
      (case c of None \<Rightarrow> released k j r' \<and> fs' = fs
       | Some c \<Rightarrow> ctor_ok k j c r' \<and> fs' = insert (ctor_fd c) fs \<and> (have_bfd c \<or> j \<in> set (pg_jobs (pending_jobs r'))))) \<and>
    (\<forall>c u res. ctor_ok k j c u \<longrightarrow> have_bfd c \<longrightarrow>
      (\<exists>c' u'. connector_fd_handler res k c u = Some (res \<noteq> Some 0, c', u') \<and> ctor_ok k j c' u' \<and>
         c' = c\<lparr>have_bfd := False, connected := (res = Some 0)\<rparr>)) \<and>
    (\<forall>c u g. ctor_ok k j c u \<longrightarrow> BPendingGroup_ExecuteJob (pending_jobs u) = Some (j, g) \<longrightarrow>
      connector_job_handler c = Some False \<and> ctor_ok k j c (u\<lparr>pending_jobs := g\<rparr>)) \<and>
    (\<forall>c u. ctor_ok k j c u \<longrightarrow> connected c \<longrightarrow> ctor_fd c \<ge> 0 \<longrightarrow> j \<notin> set (pg_jobs (pending_jobs u)) \<longrightarrow>
      connection_grab_fd j c u = Some (ctor_fd c, c\<lparr>ctor_fd := - 1\<rparr>) \<and> ctor_ok k j (c\<lparr>ctor_fd := - 1\<rparr>) u) \<and>
    (\<forall>c u os. ctor_ok k j c u \<longrightarrow>
      (\<exists>u'. BConnector_Free k j c u os = Some (u', if ctor_fd c = - 1 then os else os - {ctor_fd c}) \<and> released k j u'))"
  using connector_init_ok [OF assms, of "from"] connector_fd_handler_ok [of k j] connector_job_handler_ok [of k j]
    connection_grab_fd_ok [of k j] connector_free_ok [of k j] by (intro conjI) (assumption | blast)+

theorem connector_lifecycle_witness:
  "\<exists>c r' fs'. BConnector_InitFrom (FromAddr (BADDR_IPV4 1 2))
      \<lparr>ans_socket = Some 7, ans_nonblocking = True, ans_connect = ConnectInProgress, ans_ctl = True\<rparr> 4 (0 :: nat) (BReactor_Init 0) {3} =
      Some (c, r', fs') \<and>
    (case c of None \<Rightarrow> released 4 0 r' \<and> fs' = {3}
     | Some c \<Rightarrow> ctor_ok 4 0 c r' \<and> fs' = insert (ctor_fd c) {3} \<and> (have_bfd c \<or> 0 \<in> set (pg_jobs (pending_jobs r'))))"
proof -
  have "reactor_start (BReactor_Init 0 :: nat BReactor)"
    by (auto simp: reactor_start_def is_int64_def INT64_MIN_def INT64_MAX_def)
  then have "released 4 (0 :: nat) (BReactor_Init 0)"
    using reactor_inv_init by (auto simp: released_def BReactor_Init_def BPendingGroup_Init_def)
  then show ?thesis
    using connector_lifecycle [of 4 "0 :: nat" "BReactor_Init 0"
        "\<lparr>ans_socket = Some 7, ans_nonblocking = True, ans_connect = ConnectInProgress, ans_ctl = True\<rparr>" "{3}" "FromAddr (BADDR_IPV4 1 2)"] by simp
qed

end
