(* ===== verification/Spec2Isabelle.thy ===== *)
theory Spec2Isabelle
  imports Tun2socks_Relay SocksUdpGw_Tree Tun2socks_Main SocketConnector
begin

text \<open>
  This library verifies the native program of the VPN application: the executable \<open>dvsec\<close>, built by
  \<open>src/android/core/src/main/jni/Android.mk\<close> from BadVPN's \<open>tun2socks\<close>.  It reads IP packets from a TUN device,
  terminates TCP connections in lwIP and relays each one through a SOCKS5 server, and relays UDP
  datagrams through SOCKS UDP.  The models follow the Android branches of the code with the macros of
  that build (\<open>__ANDROID__\<close>, \<open>BADVPN_LINUX\<close>, \<open>BADVPN_LITTLE_ENDIAN\<close>).  Paths below are relative to
  \<open>src/android/core/src/main/jni/badvpn\<close>.

  \<^bold>\<open>Conventions.\<close>  C structs are records, fixed-width integers are words, \<open>int\<close> is \<^typ>\<open>int\<close> with its
  limits written out, memory is a list of bytes.  An operation that can fail an \<open>ASSERT\<close>, leave a buffer or
  use a freed object returns an option, and \<^term>\<open>None\<close> is exactly that failure; the error returns of the code
  are values inside the option.  So \<open>f x \<noteq> None\<close> says that no assertion fails, although the build compiles
  them out.  Calls of the operating system, of the allocator, of the resolver and of lwIP are parameters or
  answers in a record.  State machines are \<open>inductive\<close> step relations over an executable function for each
  event; \<open>inductive_invariant\<close> (theory \<open>Prelude\<close>) is the interface between a machine and the proofs about its runs,
  and each machine interprets it with its own invariant.

  \<^bold>\<open>Parts, from the bottom up.\<close>

  \<^item> \<open>Prelude\<close>: assertions, reachable states, lemmas on lists and words.  \<open>Byteorder\<close>: \<open>misc/byteorder.h\<close> and
    \<open>misc/read_write_int.h\<close>.  \<open>NetProto\<close>: headers, checks and checksums of IPv4, IPv6 and UDP
    (\<open>misc/ipv4_proto.h\<close>, \<open>misc/ipv6_proto.h\<close>, \<open>misc/udp_proto.h\<close>), with the checksum loops proved equal to the one's
    complement sum.  \<open>BAddr\<close>: socket addresses and their order.

  \<^item> \<open>Numbers\<close>, \<open>IpAddr\<close>, \<open>IpText\<close>, \<open>AddrText\<close>: \<open>misc/parse_number.h\<close>, \<open>misc/ipaddr.h\<close>, \<open>misc/ipaddr6.h\<close>, and the
    parsing and printing of \<open>system/BAddr.h\<close>.  The number parsers are equal to the value of the numeral over
    the natural numbers; the IPv6 parser is total and stays inside its buffers; printing and parsing are
    inverse; masks and prefixes correspond; printed addresses fit their buffers.

  \<^item> \<open>Pending\<close>: the job queue \<open>base/BPending.c\<close>, refined to the rule that the job set last runs first.
    \<open>ChunkBuffer\<close>: the packet ring \<open>structure/ChunkBuffer2.h\<close>, refined to a queue.  \<open>Flow\<close>: packet interfaces,
    \<open>BufferWriter\<close>, \<open>PacketBuffer\<close> and \<open>SinglePacketBuffer\<close> (\<open>flow/\<close>), with the invariants of the two chains that
    the program builds from them; each job of a chain has one lemma that says what it does to the chain.

  \<^item> \<open>Reactor\<close>, \<open>Reactor_Inv\<close>, \<open>Reactor_Loop\<close>: the event loop \<open>system/BReactor_badvpn.c\<close> over epoll, with \<open>btime_add\<close> of
    \<open>system/BTime.h\<close>: timers, descriptors with the kernel's interest list, limits, the wait, and one iteration of
    \<open>BReactor_Exec\<close>.  \<open>Reactor_Inv\<close> has the invariant, part by part; \<open>Reactor_Loop\<close> what an iteration may call.
    \<open>StreamIf\<close>: the stream interfaces (\<open>flow/StreamPassInterface\<close>, \<open>flow/StreamRecvInterface\<close>).  \<open>SocketConn\<close>,
    \<open>SocketConn_Inv\<close>, \<open>SocketConn_Loop\<close>: the connection of \<open>system/BConnection_unix.c\<close> on that reactor and those interfaces,
    composed with the loop, an arbitrary user and arbitrary other users of the reactor; every call it makes of the
    reactor is shown to meet the reactor's preconditions.  \<open>SocketConnector\<close>: the connector of the same file and the conversion
    of addresses.

  \<^item> \<open>Options\<close>: the command line and the settings (\<open>parse_arguments\<close>, \<open>process_arguments\<close> of
    \<open>tun2socks/tun2socks.c\<close>).  \<open>Device\<close>: \<open>tuntap/BTap.c\<close>, the reader chain, and the packets lwIP writes.
    \<open>Tun2socks_Udp\<close>: the recognition of UDP packets from the device and the packets built for it.

  \<^item> \<open>SocksClient\<close>: the SOCKS5 client \<open>socksclient/BSocksClient.c\<close> as a state machine over the events of its
    connection.  \<open>Tun2socks_Client\<close>, \<open>Tun2socks_Client_Inv\<close>, \<open>Tun2socks_Relay\<close>: the TCP clients of
    \<open>tun2socks/tun2socks.c\<close>, one handler per definition, with the \<open>dead\<close> mechanism that detects that a callback freed its
    client, then the invariant, then the theorems about all clients together.

  \<^item> \<open>SocksUdpGw\<close>, \<open>SocksUdpGw_Inv\<close>, \<open>SocksUdpGw_Relay\<close>: the UDP relay \<open>tun2socks/SocksUdpGwClient.c\<close> on top of
    \<open>Flow\<close>.  The pointer \<open>first_data\<close> into the packet of the caller stays valid because the job that ends the device's
    packet lies below the job that sends the first packet.

  \<^item> \<open>BAVL\<close>, \<open>BAVL_Heap\<close>, \<open>BAVL_Balance\<close>, \<open>BAVL_Ops\<close>, \<open>BAVL_Set\<close>, \<open>BAVL_Refine\<close>: the balanced search tree
    \<open>structure/BAVL.h\<close> as nodes in memory.  \<open>BAVL_Heap\<close> relates the memory to a tree of addresses cut at one place, which
    gives each pointer operation a local lemma; \<open>BAVL_Balance\<close> follows \<open>_BAVL_rebalance\<close> up to the root; \<open>BAVL_Ops\<close> is the swap of two
    nodes; \<open>BAVL_Refine\<close> proves once, for every comparator that meets the locale \<open>value_order\<close>, that the tree implements a
    sorted list.  \<open>SocksUdpGw_Tree\<close> interprets the locale with the comparator of the UDP relay and shows that the
    lookup the relay model uses is the lookup in the tree; \<open>PortTable\<close> interprets it for the table of ports of
    \<open>tun2socks/tun2socks.c\<close>.

  \<^item> \<open>Tun2socks_Main\<close>: \<open>wait_for_fd\<close> with \<open>libancillary/fd_recv.c\<close>, \<open>daemonize\<close>, the set-up of lwIP, \<open>main\<close> with its
    failure labels, the event loop and the tear-down.

  \<^bold>\<open>Groups of theorems.\<close>  Safety: in every reachable state every handler of the TCP relay, of the SOCKS client, of
  the UDP relay, of the device reader, of a socket connection and of the reactor runs without a failed assertion.  Integrity: the bytes and datagrams
  that leave a relay are a prefix of those that entered it, in order; datagrams built for the device are recognised
  as what they were.  Liveness: no part waits with work to do and nothing pending.  Resources: counters,
  lists and heap agree, limits hold, \<open>main\<close> releases everything in reverse order on every path.
  Refinement and equivalence: job queue, packet ring, search tree, number parsers.  Order: jobs run before timers, timers by their time, then
  descriptors, and no timer is slept through.  Some theorems
  state what the code does where that differs from what it means to do: zero checksums, the
  kind of a reused UDP connection, the header that exceeds the datagram buffer, the job that is not freed, and the
  option for the number of connections that has no effect.

  \<^bold>\<open>Loops and bounds.\<close>  All recursion ends: loops over data are structural or have a measure, so no fuel is used; the
  loops over pointers of the search tree are \<open>partial_function (option)\<close> and are proved to return;
  an event loop is a list of events or a reachable state.  MTUs are bounded by 65535, as \<open>main\<close> ensures for the relay.
  \<open>num_connections\<close> of the UDP relay starts at zero because the object is static.

  \<^bold>\<open>Not modelled.\<close>  lwIP itself, libevent, redsocks and the other BadVPN programs (third-party or not in the
  executable); datagram sockets, listeners and signals (system calls: the theorems hold for every
  order of their events); the intrusive tree of timers (\<open>structure/CAvl_impl.h\<close>), which is its sequence in the model of the
  reactor, \<open>BReactor_Synchronize\<close>, and the reactor's branches for other systems; the udpgw protocol client, compiled
  but unused on Android; logging; the linked lists, which the relays model as
  lists; the relays see their connections through calls and completions and not through \<open>SocketConn\<close>; node counts of the search tree (\<open>BAVL_COUNT\<close>), which the executable does not use; the Kotlin and Dart code.  In the event loop of \<open>main\<close> a TCP client is represented by its control block and
  the UDP relay by its creation, since both have theorems of their own; the reactor's jobs are grouped by the
  component they belong to.
\<close>

end
